(* ===== verification/Prelude.thy ===== *)
theory Prelude
  imports Complex_Main "HOL-Library.AList"
begin

text \<open>
  What every component of the development shares: JavaScript numbers as far as the code inspects
  them, fallible computations, the insertion-ordered \<open>Map\<close> and \<open>Set\<close> of the language, and the
  generic facts about finite sums and filters that the accounting proofs use. The locale
  \<open>event_system\<close> is the interface of every state machine of the development: an event never
  breaks the machine's invariant, so no sequence of events does.
\<close>

named_theorems state_simps \<open>unfolding rules for the operations of the state machines\<close>
named_theorems inv_intros \<open>preservation of a component's invariant by one operation\<close>

section \<open>JavaScript numbers\<close>

text \<open>
  A number is a finite double (a rational), an infinity or NaN. The code only validates numbers,
  compares them, and adds and subtracts safe integers and time stamps, so rounding is not modelled.
\<close>

datatype js_number = Finite rat | PosInf | NegInf | NaN

definition max_safe :: int where
  "max_safe = 9007199254740991"

fun safe_int :: "js_number \<Rightarrow> int option" where
  "safe_int (Finite r) =
     (let (n, d) = quotient_of r in if d = 1 \<and> \<bar>n\<bar> \<le> max_safe then Some n else None)"
| "safe_int _ = None"

fun is_finite :: "js_number \<Rightarrow> bool" where
  "is_finite (Finite _) = True"
| "is_finite _ = False"

fun js_less :: "js_number \<Rightarrow> js_number \<Rightarrow> bool" where
  "js_less (Finite a) (Finite b) = (a < b)"
| "js_less NegInf b = (b \<noteq> NegInf \<and> b \<noteq> NaN)"
| "js_less a PosInf = (a \<noteq> PosInf \<and> a \<noteq> NaN)"
| "js_less _ _ = False"

abbreviation js_int :: "int \<Rightarrow> js_number" where
  "js_int n \<equiv> Finite (of_int n)"

lemma safe_int_js_int [simp]:
  "safe_int (js_int n) = (if \<bar>n\<bar> \<le> max_safe then Some n else None)"
  by simp

lemma safe_int_numeral [simp]:
  "safe_int (Finite (numeral k)) = (if numeral k \<le> max_safe then Some (numeral k) else None)"
  using safe_int_js_int [of "numeral k"] by (simp del: safe_int.simps)

lemma safe_int_zero_one [simp]:
  "safe_int (Finite 0) = Some 0" "safe_int (Finite 1) = Some 1"
  using safe_int_js_int [of 0] safe_int_js_int [of 1] by (simp_all add: max_safe_def del: safe_int.simps)

lemma safe_intD: "safe_int v = Some n \<Longrightarrow> v = js_int n \<and> \<bar>n\<bar> \<le> max_safe"
proof (cases v)
  case (Finite r)
  assume s: "safe_int v = Some n"
  obtain a b where q: "quotient_of r = (a, b)" by (cases "quotient_of r")
  from s Finite q have "b = 1" "a = n" "\<bar>n\<bar> \<le> max_safe"
    by (auto split: if_splits)
  with quotient_of_div [OF q] Finite show ?thesis by simp
qed simp_all

declare safe_int.simps(1) [simp del]

text \<open>\<open>Number.isSafeInteger(v) && v >= lo\<close>, the test every positive or non-negative limit passes.\<close>

definition int_at_least :: "int \<Rightarrow> js_number \<Rightarrow> bool" where
  "int_at_least lo v = (case safe_int v of None \<Rightarrow> False | Some n \<Rightarrow> lo \<le> n)"

definition nat_of_number :: "js_number \<Rightarrow> nat" where
  "nat_of_number v = (case safe_int v of None \<Rightarrow> 0 | Some n \<Rightarrow> nat n)"

lemma int_at_leastD: "int_at_least lo v \<Longrightarrow> 0 \<le> lo \<Longrightarrow> nat lo \<le> nat_of_number v"
  by (auto simp: int_at_least_def nat_of_number_def split: option.splits)

lemma nat_of_number_pos: "int_at_least 1 v \<Longrightarrow> 1 \<le> nat_of_number v"
  using int_at_leastD [of 1 v] by simp

lemma nat_of_number_safe: "int (nat_of_number v) \<le> max_safe"
  by (auto simp: nat_of_number_def max_safe_def split: option.splits dest!: safe_intD)

lemma int_at_least_js_int [simp]:
  "int_at_least lo (js_int n) \<longleftrightarrow> \<bar>n\<bar> \<le> max_safe \<and> lo \<le> n"
  by (auto simp: int_at_least_def)

lemma int_at_least_numeral [simp]:
  "int_at_least lo (Finite (numeral k)) \<longleftrightarrow> numeral k \<le> max_safe \<and> lo \<le> numeral k"
  by (auto simp: int_at_least_def)

lemma nat_of_number_numeral [simp]:
  "numeral k \<le> max_safe \<Longrightarrow> nat_of_number (Finite (numeral k)) = numeral k"
  by (simp add: nat_of_number_def)

lemma int_at_least_zero_one [simp]:
  "int_at_least lo (Finite 0) \<longleftrightarrow> lo \<le> 0" "int_at_least lo (Finite 1) \<longleftrightarrow> lo \<le> 1"
  by (auto simp: int_at_least_def)

lemma nat_of_number_zero_one [simp]:
  "nat_of_number (Finite 0) = 0" "nat_of_number (Finite 1) = 1"
  by (auto simp: nat_of_number_def)

section \<open>Fallible computations\<close>

text \<open>A computation that may throw: \<open>Inl\<close> is the thrown value, \<open>Inr\<close> the result.\<close>

fun bindE :: "'e + 'a \<Rightarrow> ('a \<Rightarrow> 'e + 'b) \<Rightarrow> 'e + 'b" where
  "bindE (Inl e) f = Inl e"
| "bindE (Inr x) f = f x"

lemma bindE_Inr_iff: "bindE m f = Inr y \<longleftrightarrow> (\<exists>x. m = Inr x \<and> f x = Inr y)"
  by (cases m) auto

lemma bindE_Inl_iff: "bindE m f = Inl e \<longleftrightarrow> m = Inl e \<or> (\<exists>x. m = Inr x \<and> f x = Inl e)"
  by (cases m) auto

definition guardE :: "bool \<Rightarrow> 'e \<Rightarrow> 'e + unit" where
  "guardE ok e = (if ok then Inr () else Inl e)"

lemma guardE_Inr [simp]: "guardE ok e = Inr u \<longleftrightarrow> ok"
  by (simp add: guardE_def)

text \<open>A sequence of assertions, each with the error it throws; the first that fails decides.\<close>

fun assert_all :: "(bool \<times> 'e) list \<Rightarrow> 'e + unit" where
  "assert_all [] = Inr ()"
| "assert_all ((ok, e) # rest) = (if ok then assert_all rest else Inl e)"

lemma assert_all_Inr [simp]: "assert_all cs = Inr u \<longleftrightarrow> (\<forall>c \<in> set cs. fst c)"
  by (induction cs) (auto split: if_splits)

text \<open>\<open>xs.map(f)\<close> where \<open>f\<close> may throw.\<close>

fun mapE :: "('a \<Rightarrow> 'e + 'b) \<Rightarrow> 'a list \<Rightarrow> 'e + 'b list" where
  "mapE f [] = Inr []"
| "mapE f (x # xs) = bindE (f x) (\<lambda>y. bindE (mapE f xs) (\<lambda>ys. Inr (y # ys)))"

lemma mapE_Inr_length: "mapE f xs = Inr ys \<Longrightarrow> length ys = length xs"
  by (induction xs arbitrary: ys) (auto simp: bindE_Inr_iff)

lemma mapE_Inr_set: "mapE f xs = Inr ys \<Longrightarrow> y \<in> set ys \<Longrightarrow> \<exists>x \<in> set xs. f x = Inr y"
  by (induction xs arbitrary: ys) (auto simp: bindE_Inr_iff)

section \<open>Optional properties\<close>

text \<open>
  A property of an options object is absent, present with the value \<open>undefined\<close>, or present with a
  value. The \<open>??\<close> operator treats the first two alike; object spread does not: a property that is
  present with \<open>undefined\<close> replaces the default.
\<close>

datatype 'a js_prop = Absent | Undefined | Given 'a

fun coalesce :: "'a js_prop \<Rightarrow> 'a \<Rightarrow> 'a" where
  "coalesce (Given x) _ = x"
| "coalesce _ d = d"

fun spread :: "'a \<Rightarrow> 'a js_prop \<Rightarrow> 'a option" where
  "spread d Absent = Some d"
| "spread d Undefined = None"
| "spread d (Given x) = Some x"

section \<open>Decimal numerals\<close>

text \<open>A natural number interpolated into a string.\<close>

fun show_nat :: "nat \<Rightarrow> string" where
  "show_nat n = (if n < 10 then [char_of (48 + n)] else show_nat (n div 10) @ [char_of (48 + n mod 10)])"

declare show_nat.simps [simp del]

section \<open>Insertion-ordered maps and sets\<close>

text \<open>
  A JavaScript \<open>Map\<close> is an association list with distinct keys: \<open>set\<close> replaces in place or appends
  (\<open>AList.update\<close>), \<open>delete\<close> removes (\<open>AList.delete\<close>), \<open>get\<close> is \<open>map_of\<close> and \<open>size\<close> is the
  length. A \<open>Set\<close> is a list with distinct elements.
\<close>

definition js_add :: "'a \<Rightarrow> 'a list \<Rightarrow> 'a list" where
  "js_add x xs = (if x \<in> set xs then xs else xs @ [x])"

definition js_delete :: "'a \<Rightarrow> 'a list \<Rightarrow> 'a list" where
  "js_delete x xs = filter (\<lambda>y. y \<noteq> x) xs"

lemma set_js_add [simp]: "set (js_add x xs) = insert x (set xs)"
  by (auto simp: js_add_def)

lemma distinct_js_add [simp]: "distinct xs \<Longrightarrow> distinct (js_add x xs)"
  by (auto simp: js_add_def)

lemma set_js_delete [simp]: "set (js_delete x xs) = set xs - {x}"
  by (auto simp: js_delete_def)

lemma distinct_js_delete [simp]: "distinct xs \<Longrightarrow> distinct (js_delete x xs)"
  by (simp add: js_delete_def)

lemma length_js_delete:
  "distinct xs \<Longrightarrow> length (js_delete x xs) = (if x \<in> set xs then length xs - 1 else length xs)"
proof -
  assume d: "distinct xs"
  then have "length (js_delete x xs) = card (set (js_delete x xs))"
    by (simp add: distinct_card del: set_js_delete)
  with d show ?thesis by (simp add: distinct_card card_Diff_singleton_if)
qed

lemma js_delete_notin [simp]: "x \<notin> set xs \<Longrightarrow> js_delete x xs = xs"
  by (induction xs) (auto simp: js_delete_def)

abbreviation keys :: "('k \<times> 'v) list \<Rightarrow> 'k list" where
  "keys m \<equiv> map fst m"

lemma keys_update: "keys (AList.update k v m) = js_add k (keys m)"
  by (induction m) (auto simp: js_add_def)

lemma keys_delete: "keys (AList.delete k m) = js_delete k (keys m)"
  by (induction m) (auto simp: js_delete_def)

lemma length_update:
  "length (AList.update k v m) = (if k \<in> set (keys m) then length m else Suc (length m))"
  by (induction m) auto

lemma length_delete_le: "length (AList.delete k m) \<le> length m"
  by (simp add: AList.delete_eq)

lemma map_of_filter_keys:
  "distinct (keys m) \<Longrightarrow>
   map_of (filter P m) k = (case map_of m k of Some v \<Rightarrow> if P (k, v) then Some v else None | None \<Rightarrow> None)"
  by (induction m) (auto simp: map_of_eq_None_iff rev_image_eqI split: option.splits)

lemma distinct_keys_filter: "distinct (keys m) \<Longrightarrow> distinct (keys (filter P m))"
  by (induction m) auto

lemma distinct_keys_update: "distinct (keys m) \<Longrightarrow> distinct (keys (AList.update k v m))"
  by (simp add: keys_update)

lemma distinct_keys_delete: "distinct (keys m) \<Longrightarrow> distinct (keys (AList.delete k m))"
  by (simp add: keys_delete)

lemma map_of_update: "map_of (AList.update k v m) = (map_of m)(k \<mapsto> v)"
  by (rule update_conv')

lemma map_of_delete: "map_of (AList.delete k m) = (map_of m)(k := None)"
  by (rule delete_conv')

section \<open>Finite sums\<close>

lemma sum_list_update_nat:
  "i < length xs \<Longrightarrow> sum_list (xs[i := (v::nat)]) + xs ! i = sum_list xs + v"
  by (induction xs arbitrary: i) (auto split: nat.splits)

lemma length_filter_update:
  "i < length xs \<Longrightarrow> P (xs ! i) \<Longrightarrow> \<not> P v \<Longrightarrow>
   Suc (length (filter P (xs[i := v]))) = length (filter P xs)"
proof (induction xs arbitrary: i)
  case (Cons x xs)
  then show ?case by (cases i) auto
qed simp

lemma filter_update_other:
  "i < length xs \<Longrightarrow> \<not> P (xs ! i) \<Longrightarrow> \<not> P v \<Longrightarrow> filter P (xs[i := v]) = filter P xs"
proof (induction xs arbitrary: i)
  case (Cons x xs)
  then show ?case by (cases i) auto
qed simp

lemma list_update_True: "xs ! i \<Longrightarrow> xs[i := True] = xs"
  by (metis (full_types) list_update_id)

lemma filter_pos_of_nth: "i < length xs \<Longrightarrow> P (xs ! i) \<Longrightarrow> 0 < length (filter P xs)"
  by (metis length_greater_0_conv filter_empty_conv nth_mem)

text \<open>Chaining two balances: what comes in, plus what is there, is what is there after, plus what left.\<close>

lemma chain_balance:
  fixes a1 :: "'a :: comm_monoid_add"
  assumes "a1 + r + p = r1 + p1 + s1" and "a2 + r1 + p1 = r2 + p2 + s2"
  shows "a1 + a2 + r + p = r2 + p2 + (s1 + s2)"
proof -
  have "a1 + a2 + r + p = (a1 + r + p) + a2" by (simp add: ac_simps)
  also have "\<dots> = (a2 + r1 + p1) + s1" unfolding assms(1) by (simp add: ac_simps)
  also have "\<dots> = r2 + p2 + (s1 + s2)" unfolding assms(2) by (simp add: ac_simps)
  finally show ?thesis .
qed

lemma chain_difference:
  fixes g1 :: "'a :: cancel_comm_monoid_add"
  assumes "g1 + r1 + w1 = w0 + b" and "g2 + r2 + w2 + (n0 + b) = w1 + n2"
  shows "(g1 + g2) + (r1 + r2) + w2 + n0 = w0 + n2"
proof -
  have "((g1 + g2) + (r1 + r2) + w2 + n0) + (w1 + b) = (g1 + r1 + w1) + (g2 + r2 + w2 + (n0 + b))"
    by (simp add: ac_simps)
  also have "\<dots> = (w0 + n2) + (w1 + b)" unfolding assms by (simp add: ac_simps)
  finally show ?thesis by simp
qed

section \<open>State machines\<close>

text \<open>
  The contract of every component that is driven by events: one step function, one invariant, and
  the law that a step keeps it. A run is a sequence of events, in any order the environment chooses.
\<close>

locale event_system =
  fixes step :: "'e \<Rightarrow> 's \<Rightarrow> 's"
    and inv :: "'s \<Rightarrow> bool"
  assumes step_inv: "inv s \<Longrightarrow> inv (step e s)"
begin

lemma run_inv: "inv s \<Longrightarrow> inv (fold step es s)"
  by (induction es arbitrary: s) (auto intro: step_inv)

lemma run_inv_prefix: "inv s \<Longrightarrow> inv (fold step (take n es) s)"
  by (rule run_inv)

end

end
