(* ===== verification/Errors.thy ===== *)
theory Errors
  imports Prelude
begin

text \<open>
  The error classes of \<open>packages/core/src/errors\<close>: the scope enumeration, the class hierarchy with
  its \<open>instanceof\<close> test, and one constructor function per class that merges the options it was given
  with the class's defaults before it calls its parent's constructor, as the \<open>super\<close> calls do.
\<close>

datatype error_scope = HANDLER | STREAM | SESSION | SERVER | FATAL

datatype error_class =
    WebTransportError
  | WebTransportDriverError
  | WebTransportProtocolError
  | WebTransportResourceLimitError
  | WebTransportSessionError
  | SessionClosedError
  | SessionRejectedError
  | WebTransportStreamError
  | StreamResetError
  | StreamClosedError
  | WebTransportTimeoutError

text \<open>
  A thrown value: an error of the hierarchy above, an error of the native library, a
  \<open>DOMException\<close>, another \<open>Error\<close>, or a value that is no error at all.
\<close>

datatype native_source = NativeSession | NativeStream

datatype thrown =
    WtError error_class string string bool error_scope "thrown option"
  | NativeError string native_source "nat option"
  | DomException string string
  | JsError string string
  | NonError

fun error_name :: "error_class \<Rightarrow> string" where
  "error_name WebTransportError = ''WebTransportError''"
| "error_name WebTransportDriverError = ''WebTransportDriverError''"
| "error_name WebTransportProtocolError = ''WebTransportProtocolError''"
| "error_name WebTransportResourceLimitError = ''WebTransportResourceLimitError''"
| "error_name WebTransportSessionError = ''WebTransportSessionError''"
| "error_name SessionClosedError = ''SessionClosedError''"
| "error_name SessionRejectedError = ''SessionRejectedError''"
| "error_name WebTransportStreamError = ''WebTransportStreamError''"
| "error_name StreamResetError = ''StreamResetError''"
| "error_name StreamClosedError = ''StreamClosedError''"
| "error_name WebTransportTimeoutError = ''WebTransportTimeoutError''"

fun parent_class :: "error_class \<Rightarrow> error_class option" where
  "parent_class WebTransportError = None"
| "parent_class SessionClosedError = Some WebTransportSessionError"
| "parent_class SessionRejectedError = Some WebTransportSessionError"
| "parent_class StreamResetError = Some WebTransportStreamError"
| "parent_class StreamClosedError = Some WebTransportStreamError"
| "parent_class _ = Some WebTransportError"

fun instance_of :: "thrown \<Rightarrow> error_class \<Rightarrow> bool" where
  "instance_of (WtError k _ _ _ _ _) c =
     (c = k \<or> parent_class k = Some c \<or>
      (case parent_class k of Some p \<Rightarrow> parent_class p = Some c | None \<Rightarrow> False))"
| "instance_of _ c = False"

fun thrown_scope :: "thrown \<Rightarrow> error_scope option" where
  "thrown_scope (WtError _ _ _ _ s _) = Some s"
| "thrown_scope _ = None"

fun thrown_code :: "thrown \<Rightarrow> string option" where
  "thrown_code (WtError _ _ c _ _ _) = Some c"
| "thrown_code _ = None"

fun thrown_recoverable :: "thrown \<Rightarrow> bool option" where
  "thrown_recoverable (WtError _ _ _ r _ _) = Some r"
| "thrown_recoverable _ = None"

fun thrown_cause :: "thrown \<Rightarrow> thrown option" where
  "thrown_cause (WtError _ _ _ _ _ x) = x"
| "thrown_cause _ = None"

section \<open>Constructors\<close>

record error_options =
  opt_code :: string
  opt_recoverable :: "bool option"
  opt_scope :: "error_scope option"
  opt_cause :: "thrown option"

abbreviation with_code :: "string \<Rightarrow> error_options" where
  "with_code c \<equiv> \<lparr>opt_code = c, opt_recoverable = None, opt_scope = None, opt_cause = None\<rparr>"

definition default_recoverable :: "bool \<Rightarrow> error_options \<Rightarrow> error_options" where
  "default_recoverable d o' =
     o'\<lparr>opt_recoverable := Some (case opt_recoverable o' of Some r \<Rightarrow> r | None \<Rightarrow> d)\<rparr>"

definition default_scope :: "error_scope \<Rightarrow> error_options \<Rightarrow> error_options" where
  "default_scope d o' = o'\<lparr>opt_scope := Some (case opt_scope o' of Some s \<Rightarrow> s | None \<Rightarrow> d)\<rparr>"

text \<open>The base constructor; \<open>new.target\<close> is the class the application named after \<open>new\<close>.\<close>

definition base_error :: "error_class \<Rightarrow> string \<Rightarrow> error_options \<Rightarrow> thrown" where
  "base_error target message o' =
     WtError target message (opt_code o')
       (case opt_recoverable o' of Some r \<Rightarrow> r | None \<Rightarrow> False)
       (case opt_scope o' of Some s \<Rightarrow> s | None \<Rightarrow> FATAL)
       (opt_cause o')"

definition driver_error :: "error_class \<Rightarrow> string \<Rightarrow> error_options \<Rightarrow> thrown" where
  "driver_error target message o' = base_error target message (default_scope SERVER o')"

definition protocol_error :: "error_class \<Rightarrow> string \<Rightarrow> error_options \<Rightarrow> thrown" where
  "protocol_error target message o' = base_error target message (default_scope SESSION o')"

definition resource_limit_error :: "error_class \<Rightarrow> string \<Rightarrow> error_options \<Rightarrow> thrown" where
  "resource_limit_error target message o' =
     base_error target message (default_scope HANDLER (default_recoverable True o'))"

definition session_error :: "error_class \<Rightarrow> string \<Rightarrow> error_options \<Rightarrow> thrown" where
  "session_error target message o' = base_error target message (default_scope SESSION o')"

definition session_closed_error :: "error_class \<Rightarrow> string \<Rightarrow> error_options \<Rightarrow> thrown" where
  "session_closed_error target message o' =
     session_error target message (default_recoverable True o')"

definition stream_error :: "error_class \<Rightarrow> string \<Rightarrow> error_options \<Rightarrow> thrown" where
  "stream_error target message o' =
     base_error target message (default_scope STREAM (default_recoverable True o'))"

definition timeout_error :: "error_class \<Rightarrow> string \<Rightarrow> error_options \<Rightarrow> thrown" where
  "timeout_error target message o' =
     base_error target message (default_scope HANDLER (default_recoverable True o'))"

text \<open>\<open>new C(message, options)\<close>: a class without a constructor of its own uses its parent's.\<close>

fun new_error :: "error_class \<Rightarrow> string \<Rightarrow> error_options \<Rightarrow> thrown" where
  "new_error WebTransportError = base_error WebTransportError"
| "new_error WebTransportDriverError = driver_error WebTransportDriverError"
| "new_error WebTransportProtocolError = protocol_error WebTransportProtocolError"
| "new_error WebTransportResourceLimitError = resource_limit_error WebTransportResourceLimitError"
| "new_error WebTransportSessionError = session_error WebTransportSessionError"
| "new_error SessionClosedError = session_closed_error SessionClosedError"
| "new_error SessionRejectedError = session_error SessionRejectedError"
| "new_error WebTransportStreamError = stream_error WebTransportStreamError"
| "new_error StreamResetError = stream_error StreamResetError"
| "new_error StreamClosedError = stream_error StreamClosedError"
| "new_error WebTransportTimeoutError = timeout_error WebTransportTimeoutError"

lemmas error_constructors =
  base_error_def driver_error_def protocol_error_def resource_limit_error_def session_error_def
  session_closed_error_def stream_error_def timeout_error_def default_scope_def
  default_recoverable_def

text \<open>Errors of the language's own classes.\<close>

definition range_error :: "string \<Rightarrow> thrown" where
  "range_error message = JsError ''RangeError'' message"

definition type_error :: "string \<Rightarrow> thrown" where
  "type_error message = JsError ''TypeError'' message"

text \<open>The defaults of each class, as a table.\<close>

fun class_scope :: "error_class \<Rightarrow> error_scope" where
  "class_scope WebTransportError = FATAL"
| "class_scope WebTransportDriverError = SERVER"
| "class_scope WebTransportResourceLimitError = HANDLER"
| "class_scope WebTransportTimeoutError = HANDLER"
| "class_scope WebTransportStreamError = STREAM"
| "class_scope StreamResetError = STREAM"
| "class_scope StreamClosedError = STREAM"
| "class_scope _ = SESSION"

definition class_recoverable :: "error_class \<Rightarrow> bool" where
  "class_recoverable k \<longleftrightarrow>
     k \<in> {WebTransportResourceLimitError, SessionClosedError, WebTransportStreamError,
           StreamResetError, StreamClosedError, WebTransportTimeoutError}"

lemma new_error_eq:
  "new_error k message o' =
     WtError k message (opt_code o')
       (case opt_recoverable o' of Some r \<Rightarrow> r | None \<Rightarrow> class_recoverable k)
       (case opt_scope o' of Some s \<Rightarrow> s | None \<Rightarrow> class_scope k)
       (opt_cause o')"
  by (cases k) (auto simp: error_constructors class_recoverable_def split: option.splits)

declare new_error.simps [simp del]

lemma new_error_is_error [simp]: "instance_of (new_error k message o') WebTransportError"
  by (cases k) (auto simp: new_error_eq)

lemma new_error_instance [simp]: "instance_of (new_error k message o') k"
  by (simp add: new_error_eq)

end
