(* ===== verification/Lifecycle.thy ===== *)
theory Lifecycle
  imports Errors
begin

text \<open>
  The server state machine of \<open>packages/core/src/lifecycle\<close>: the five states, the table of allowed
  transitions, the snapshot that health checks read, and the \<open>transition\<close> method that throws on a
  transition outside the table. The lemmas at the end say what a run of accepted transitions can do.
\<close>

datatype server_state = STARTING | RUNNING | DRAINING | STOPPING | STOPPED

fun state_name :: "server_state \<Rightarrow> string" where
  "state_name STARTING = ''STARTING''"
| "state_name RUNNING = ''RUNNING''"
| "state_name DRAINING = ''DRAINING''"
| "state_name STOPPING = ''STOPPING''"
| "state_name STOPPED = ''STOPPED''"

fun allowed_transitions :: "server_state \<Rightarrow> server_state list" where
  "allowed_transitions STARTING = [RUNNING, STOPPING]"
| "allowed_transitions RUNNING = [DRAINING, STOPPING]"
| "allowed_transitions DRAINING = [STOPPING]"
| "allowed_transitions STOPPING = [STOPPED]"
| "allowed_transitions STOPPED = [STARTING]"

definition transition_allowed :: "server_state \<Rightarrow> server_state \<Rightarrow> bool" where
  "transition_allowed from to \<longleftrightarrow> from = to \<or> to \<in> set (allowed_transitions from)"

record lifecycle_snapshot =
  snap_state :: server_state
  alive :: bool
  ready :: bool
  accepting_sessions :: bool

definition snapshot :: "server_state \<Rightarrow> lifecycle_snapshot" where
  "snapshot s =
     (let r = (s = RUNNING)
      in \<lparr>snap_state = s, alive = (s \<noteq> STOPPED), ready = r, accepting_sessions = r\<rparr>)"

definition invalid_transition :: "server_state \<Rightarrow> server_state \<Rightarrow> thrown" where
  "invalid_transition from to =
     new_error WebTransportError
       (''Invalid WebTransport server state transition: '' @ state_name from @ '' -> '' @ state_name to)
       \<lparr>opt_code = ''ERR_WEBTRANSPORT_INVALID_SERVER_STATE_TRANSITION'',
        opt_recoverable = Some False, opt_scope = Some FATAL, opt_cause = None\<rparr>"

text \<open>The method: the new state (the mutated field) with the snapshot, or the error.\<close>

definition transition :: "server_state \<Rightarrow> server_state \<Rightarrow> thrown + server_state \<times> lifecycle_snapshot" where
  "transition s next' =
     (if \<not> transition_allowed s next' then Inl (invalid_transition s next')
      else Inr (next', snapshot next'))"

text \<open>A lifecycle object used by a caller that survives the exception: the field after the call.\<close>

definition transition_state :: "server_state \<Rightarrow> server_state \<Rightarrow> server_state" where
  "transition_state next' s = (case transition s next' of Inl _ \<Rightarrow> s | Inr (t, _) \<Rightarrow> t)"

lemma transition_allowed_simps [simp]:
  "transition_allowed STARTING t \<longleftrightarrow> t \<in> {STARTING, RUNNING, STOPPING}"
  "transition_allowed RUNNING t \<longleftrightarrow> t \<in> {RUNNING, DRAINING, STOPPING}"
  "transition_allowed DRAINING t \<longleftrightarrow> t \<in> {DRAINING, STOPPING}"
  "transition_allowed STOPPING t \<longleftrightarrow> t \<in> {STOPPING, STOPPED}"
  "transition_allowed STOPPED t \<longleftrightarrow> t \<in> {STOPPED, STARTING}"
  by (auto simp: transition_allowed_def)

section \<open>Runs\<close>

text \<open>A run is a list of requested states; the rejected ones leave the state as it was.\<close>

inductive life_step :: "server_state \<Rightarrow> server_state \<Rightarrow> bool" where
  accepted: "transition s t = Inr (t, n) \<Longrightarrow> s \<noteq> t \<Longrightarrow> life_step s t"

inductive_simps life_step_to_running: "life_step s RUNNING"
inductive_simps life_step_to_starting: "life_step s STARTING"
inductive_cases life_step_cases: "life_step s t"

lemma life_step_running: "life_step s RUNNING \<Longrightarrow> s = STARTING"
  by (cases s) (auto simp: life_step_to_running transition_def)

lemma life_step_starting: "life_step s STARTING \<Longrightarrow> s = STOPPED"
  by (cases s) (auto simp: life_step_to_starting transition_def)

text \<open>How the runtime winds a server down from each state.\<close>

fun wind_down :: "server_state \<Rightarrow> server_state list" where
  "wind_down STARTING = [STOPPING, STOPPED]"
| "wind_down RUNNING = [DRAINING, STOPPING, STOPPED]"
| "wind_down DRAINING = [STOPPING, STOPPED]"
| "wind_down STOPPING = [STOPPED]"
| "wind_down STOPPED = []"

definition requests :: "server_state \<Rightarrow> server_state list \<Rightarrow> server_state" where
  "requests s reqs = fold transition_state reqs s"

lemma transition_state_eq: "transition_state t s = (if transition_allowed s t then t else s)"
  by (simp add: transition_state_def transition_def)

lemma life_step_iff: "life_step s t \<longleftrightarrow> s \<noteq> t \<and> transition_allowed s t"
  by (auto simp: life_step.simps transition_def)

lemma requests_reachable: "life_step\<^sup>*\<^sup>* s (requests s reqs)"
proof (induction reqs rule: rev_induct)
  case (snoc t reqs)
  have "life_step\<^sup>*\<^sup>* (requests s reqs) (transition_state t (requests s reqs))"
    by (cases "t = requests s reqs") (auto simp: transition_state_eq life_step_iff)
  with snoc show ?case by (simp add: requests_def)
qed (simp add: requests_def)

text \<open>A server that leaves \<open>RUNNING\<close> without passing \<open>STOPPED\<close> stays on its way down.\<close>

lemma winding_down_closed:
  assumes "s \<in> {DRAINING, STOPPING}" and "\<forall>n. requests s (take n reqs) \<noteq> STOPPED"
  shows "requests s reqs \<in> {DRAINING, STOPPING}"
  using assms(2)
proof (induction reqs rule: rev_induct)
  case (snoc t reqs)
  have "requests s (take n reqs) \<noteq> STOPPED" for n
    using snoc.prems [rule_format, of "min n (length reqs)"] by (simp add: min_def split: if_splits)
  moreover have "requests s (reqs @ [t]) \<noteq> STOPPED"
    using snoc.prems [rule_format, of "length (reqs @ [t])"] by simp
  ultimately show ?case
    using snoc.IH by (cases t) (auto simp: requests_def transition_state_eq)
qed (use assms(1) in \<open>simp add: requests_def\<close>)

text \<open>
  Readiness and liveness are functions of the lifecycle state in every reachable situation:
  after any sequence of requested transitions, accepted or rejected, the snapshot says ready
  (and accepting sessions) exactly in \<open>RUNNING\<close> and alive exactly outside \<open>STOPPED\<close>, and a request
  outside the table throws the fatal, non-recoverable invariant error and changes nothing.
\<close>

theorem transition_contract:
  "let s = fold transition_state reqs STOPPED in
     ready (snapshot s) = (s = RUNNING) \<and> accepting_sessions (snapshot s) = (s = RUNNING) \<and>
     alive (snapshot s) = (s \<noteq> STOPPED) \<and>
     (case transition s t of
        Inr (s', n) \<Rightarrow> s' = t \<and> n = snapshot t \<and> transition_allowed s t
      | Inl e \<Rightarrow> \<not> transition_allowed s t \<and> thrown_scope e = Some FATAL \<and>
                 thrown_recoverable e = Some False \<and> transition_state t s = s)"
  by (auto simp: Let_def snapshot_def transition_def transition_state_def invalid_transition_def
      new_error_eq)

text \<open>
  A server that has begun to drain or stop cannot become ready again without a complete stop:
  whatever transitions are requested, in any order, it stays in \<open>DRAINING\<close> or \<open>STOPPING\<close> (so it is
  alive and not ready) until it has been \<open>STOPPED\<close>. And every state has a sequence of accepted
  transitions to \<open>STOPPED\<close>, of which every step is a transition of the table.
\<close>

theorem no_restart_without_stop:
  assumes "s \<in> {DRAINING, STOPPING}" and "\<forall>n. requests s (take n reqs) \<noteq> STOPPED"
  shows "\<not> ready (snapshot (requests s reqs)) \<and> alive (snapshot (requests s reqs)) \<and>
     life_step\<^sup>*\<^sup>* s (requests s reqs) \<and> requests r (wind_down r) = STOPPED"
proof -
  have "requests r (wind_down r) = STOPPED"
    by (cases r) (simp_all add: requests_def transition_state_eq)
  with winding_down_closed [OF assms] requests_reachable [of s reqs] show ?thesis
    by (auto simp: snapshot_def Let_def)
qed

theorem no_restart_without_stop_witness:
  "\<not> ready (snapshot (requests DRAINING [RUNNING, STARTING, STOPPING]))"
proof -
  have "requests DRAINING (take n [RUNNING, STARTING, STOPPING]) \<noteq> STOPPED" for n
    by (auto simp: requests_def transition_state_eq take_Cons split: nat.splits)
  with no_restart_without_stop [of DRAINING "[RUNNING, STARTING, STOPPING]"] show ?thesis by blast
qed

end
