(* ===== verification/Permits.thy ===== *)
theory Permits
  imports Errors
begin

text \<open>
  The interface of everything that hands out permits as release closures: the concurrency limiter of
  the core package here, the handler budget of the Nest runtime in its own theory. A closure is
  identified by the order of its creation and owns one boolean variable, which says that it has
  released already.
\<close>

datatype permit_op = Acquire | Release nat

locale permit_pool =
  fixes acquire :: "'s \<Rightarrow> 's \<times> nat option"
    and release :: "nat \<Rightarrow> 's \<Rightarrow> 's"
    and flags :: "'s \<Rightarrow> bool list"
    and held :: "'s \<Rightarrow> int"
    and cap :: "'s \<Rightarrow> int"
  assumes acquire_full: "cap s \<le> held s \<Longrightarrow> acquire s = (s, None)"
    and acquire_free: "held s < cap s \<Longrightarrow> snd (acquire s) = Some (length (flags s))"
    and acquire_flags: "held s < cap s \<Longrightarrow> flags (fst (acquire s)) = flags s @ [False]"
    and acquire_held: "held s < cap s \<Longrightarrow> held (fst (acquire s)) = held s + 1"
    and acquire_cap: "cap (fst (acquire s)) = cap s"
    and release_dead: "i < length (flags s) \<longrightarrow> flags s ! i \<Longrightarrow> release i s = s"
    and release_flags: "i < length (flags s) \<Longrightarrow> flags (release i s) = (flags s)[i := True]"
    and release_held: "i < length (flags s) \<Longrightarrow> \<not> flags s ! i \<Longrightarrow> held (release i s) = held s - 1"
    and release_cap: "cap (release i s) = cap s"
begin

text \<open>The counter equals the number of closures that have not released, and never exceeds the capacity.\<close>

definition balanced :: "'s \<Rightarrow> bool" where
  "balanced s \<longleftrightarrow> held s = int (length (filter Not (flags s))) \<and> held s \<le> cap s"

fun pool_step :: "permit_op \<Rightarrow> 's \<Rightarrow> 's" where
  "pool_step Acquire s = fst (acquire s)"
| "pool_step (Release i) s = release i s"

lemma balanced_acquire: "balanced s \<Longrightarrow> balanced (fst (acquire s))"
proof (cases "held s < cap s")
  case True
  then show "balanced s \<Longrightarrow> ?thesis"
    by (simp add: balanced_def acquire_flags acquire_held acquire_cap)
next
  case False
  then show "balanced s \<Longrightarrow> ?thesis"
    by (simp add: acquire_full)
qed

lemma balanced_release: "balanced s \<Longrightarrow> balanced (release i s)"
proof (cases "i < length (flags s) \<and> \<not> flags s ! i")
  case True
  assume b: "balanced s"
  have "Suc (length (filter Not ((flags s)[i := True]))) = length (filter Not (flags s))"
    using True by (intro length_filter_update) auto
  with True b show ?thesis
    by (simp add: balanced_def release_flags release_held release_cap)
next
  case False
  then show "balanced s \<Longrightarrow> ?thesis"
    by (simp add: release_dead)
qed

lemma release_once: "release i (release i s) = release i s"
proof (cases "i < length (flags s)")
  case True
  have "i < length (flags (release i s)) \<longrightarrow> flags (release i s) ! i"
    using True by (auto simp: release_flags)
  then show ?thesis by (rule release_dead)
next
  case False
  then show ?thesis by (simp add: release_dead)
qed

lemma release_flag_set: "i < length (flags s) \<Longrightarrow> flags (release i s) ! i"
  by (simp add: release_flags)

lemma step_balanced: "balanced s \<Longrightarrow> balanced (pool_step op s)"
  by (cases op) (auto intro: balanced_acquire balanced_release)

lemma run_balanced: "balanced s \<Longrightarrow> balanced (fold pool_step ops s)"
  by (induction ops arbitrary: s) (auto intro: step_balanced)

lemma held_bounds: "balanced s \<Longrightarrow> 0 \<le> held s \<and> held s \<le> cap s"
  by (simp add: balanced_def)

lemma acquire_iff_room: "snd (acquire s) \<noteq> None \<longleftrightarrow> held s < cap s"
  by (cases "held s < cap s") (auto simp: acquire_free acquire_full)

text \<open>Acquiring and then releasing the permit obtained gives back exactly the room it took.\<close>

lemma acquire_release_held:
  "held s < cap s \<Longrightarrow> held (release (length (flags s)) (fst (acquire s))) = held s"
  by (simp add: release_held acquire_flags acquire_held)

end

section \<open>The concurrency limiter\<close>

text \<open>\<open>packages/core/src/limits/concurrency-limiter.ts\<close>\<close>

record concurrency_limiter =
  cl_limit :: int
  cl_active :: int
  cl_released :: "bool list"

definition new_concurrency_limiter :: "js_number \<Rightarrow> thrown + concurrency_limiter" where
  "new_concurrency_limiter limit =
     (case safe_int limit of
        None \<Rightarrow> Inl (JsError ''RangeError'' ''Concurrency limit must be a positive safe integer'')
      | Some n \<Rightarrow>
          if n < 1 then
            Inl (JsError ''RangeError'' ''Concurrency limit must be a positive safe integer'')
          else Inr \<lparr>cl_limit = n, cl_active = 0, cl_released = []\<rparr>)"

definition cl_available :: "concurrency_limiter \<Rightarrow> int" where
  "cl_available s = cl_limit s - cl_active s"

definition cl_try_acquire :: "concurrency_limiter \<Rightarrow> concurrency_limiter \<times> nat option" where
  "cl_try_acquire s =
     (if cl_active s \<ge> cl_limit s then (s, None)
      else (s\<lparr>cl_active := cl_active s + 1, cl_released := cl_released s @ [False]\<rparr>,
            Some (length (cl_released s))))"

text \<open>Calling the release closure number \<open>i\<close>; a number no closure has is no call at all.\<close>

definition cl_release :: "nat \<Rightarrow> concurrency_limiter \<Rightarrow> concurrency_limiter" where
  "cl_release i s =
     (if i \<ge> length (cl_released s) \<or> cl_released s ! i then s
      else s\<lparr>cl_released := (cl_released s)[i := True], cl_active := cl_active s - 1\<rparr>)"

definition cl_acquire :: "concurrency_limiter \<Rightarrow> concurrency_limiter \<times> (thrown + nat)" where
  "cl_acquire s =
     (case cl_try_acquire s of
        (s', None) \<Rightarrow>
          (s', Inl (new_error WebTransportResourceLimitError ''Handler concurrency limit exceeded''
                     \<lparr>opt_code = ''ERR_WEBTRANSPORT_CONCURRENCY_LIMIT'', opt_recoverable = None,
                      opt_scope = Some HANDLER, opt_cause = None\<rparr>))
      | (s', Some p) \<Rightarrow> (s', Inr p))"

interpretation cl: permit_pool cl_try_acquire cl_release cl_released cl_active cl_limit
  by unfold_locales (auto simp: cl_try_acquire_def cl_release_def list_update_True)

lemma new_concurrency_limiter_balanced:
  "new_concurrency_limiter v = Inr s \<Longrightarrow> cl.balanced s \<and> cl_limit s \<ge> 1 \<and> cl_active s = 0"
  by (auto simp: new_concurrency_limiter_def cl.balanced_def split: option.splits if_splits)

lemma cl_limit_run: "cl_limit (fold cl.pool_step ops s) = cl_limit s"
proof (induction ops arbitrary: s)
  case (Cons op ops)
  have "cl_limit (cl.pool_step op s) = cl_limit s"
    by (cases op) (simp_all add: cl.acquire_cap cl.release_cap)
  with Cons show ?case by simp
qed simp

text \<open>
  The limiter never admits more than its limit: whatever sequence of acquisitions and calls of
  release closures (repeated calls of one closure included) follows its construction, the active
  count equals the number of closures that have not released, lies between zero and the limit, and
  an acquisition succeeds exactly when there is room; \<open>acquire\<close> then throws the recoverable
  handler-scoped limit error.
\<close>

theorem concurrency_limiter_bound:
  assumes new: "new_concurrency_limiter v = Inr s0"
  shows "let s = fold cl.pool_step ops s0 in
     cl_active s = int (length (filter Not (cl_released s))) \<and>
     0 \<le> cl_active s \<and> cl_active s \<le> cl_limit s0 \<and>
     cl_available s = cl_limit s0 - cl_active s \<and>
     (snd (cl_try_acquire s) \<noteq> None \<longleftrightarrow> cl_active s < cl_limit s0) \<and>
     (case snd (cl_acquire s) of
        Inr p \<Rightarrow> p = length (cl_released s)
      | Inl e \<Rightarrow> cl_active s = cl_limit s0 \<and> thrown_scope e = Some HANDLER \<and>
                 thrown_recoverable e = Some True)"
proof -
  define s where "s = fold cl.pool_step ops s0"
  have b: "cl.balanced s" and l: "cl_limit s = cl_limit s0"
    using new_concurrency_limiter_balanced [OF new] cl.run_balanced [of s0 ops] cl_limit_run [of ops s0]
    by (auto simp: s_def)
  show ?thesis
    unfolding s_def [symmetric] Let_def
    using b l cl.held_bounds [OF b] cl.acquire_iff_room [of s]
    by (auto simp: cl.balanced_def cl_available_def cl_acquire_def cl_try_acquire_def new_error_eq
        class_recoverable_def)
qed

theorem concurrency_limiter_bound_witness:
  "\<exists>s0. new_concurrency_limiter (Finite 2) = Inr s0 \<and>
        cl_active (fold cl.pool_step [Acquire, Acquire, Acquire, Release 0, Release 0] s0) = 1"
proof -
  have n: "new_concurrency_limiter (Finite 2) = Inr \<lparr>cl_limit = 2, cl_active = 0, cl_released = []\<rparr>"
    by (simp add: new_concurrency_limiter_def max_safe_def)
  show ?thesis
    using concurrency_limiter_bound [OF n, of "[Acquire, Acquire, Acquire, Release 0, Release 0]"] n
    by (simp add: cl_try_acquire_def cl_release_def Let_def)
qed

text \<open>
  A release closure is idempotent and gives back exactly what it took: calling it any number of
  times is the same as calling it once, and acquiring a permit and releasing it restores the active
  count.
\<close>

theorem concurrency_release_idempotent:
  "(cl_release i ^^ Suc n) s = cl_release i s \<and>
   (case cl_try_acquire s of
      (s', Some p) \<Rightarrow> cl_active (cl_release p s') = cl_active s
    | (s', None) \<Rightarrow> s' = s)"
proof
  show "(cl_release i ^^ Suc n) s = cl_release i s"
    by (induction n) (simp_all add: cl.release_once)
  show "case cl_try_acquire s of (s', Some p) \<Rightarrow> cl_active (cl_release p s') = cl_active s
    | (s', None) \<Rightarrow> s' = s"
    by (auto simp: cl_try_acquire_def cl_release_def)
qed

end
