(* ===== verification/Rate_Limiter.thy ===== *)
theory Rate_Limiter
  imports Errors
begin

text \<open>
  Fixed-window rate limiting. The locale \<open>window_counter\<close> is the contract that the limiter of the
  core package, and the inlined limiters of the Nest runtime, share: a call may start a new window,
  it counts what it grants, and it never counts beyond the limit. The lemmas bound what any
  sequence of calls is granted inside one window and inside any interval of one window's length.
\<close>

locale window_counter =
  fixes consume :: "int \<Rightarrow> rat \<Rightarrow> 's \<Rightarrow> bool \<times> 's"
    and renews :: "rat \<Rightarrow> 's \<Rightarrow> bool"
    and started :: "'s \<Rightarrow> rat option"
    and used :: "'s \<Rightarrow> int"
    and limit :: "'s \<Rightarrow> int"
    and window :: "'s \<Rightarrow> rat"
  assumes granted_iff:
      "fst (consume a now s) \<longleftrightarrow> (if renews now s then 0 else used s) + a \<le> limit s"
    and consume_used:
      "used (snd (consume a now s)) =
         (if renews now s then 0 else used s) + (if fst (consume a now s) then a else 0)"
    and consume_started:
      "started (snd (consume a now s)) = (if renews now s then Some now else started s)"
    and consume_limit: "limit (snd (consume a now s)) = limit s"
    and consume_window: "window (snd (consume a now s)) = window s"
    and renews_late:
      "renews now s \<Longrightarrow> started s = Some t \<Longrightarrow> t \<le> now \<Longrightarrow> t + window s \<le> now"
    and renews_fresh: "started s = None \<Longrightarrow> renews now s"
begin

text \<open>The total granted by a sequence of calls, and the state after it.\<close>

fun grants :: "(int \<times> rat) list \<Rightarrow> 's \<Rightarrow> int" where
  "grants [] s = 0"
| "grants ((a, now) # cs) s =
     (if fst (consume a now s) then a else 0) + grants cs (snd (consume a now s))"

fun calls :: "(int \<times> rat) list \<Rightarrow> 's \<Rightarrow> 's" where
  "calls [] s = s"
| "calls ((a, now) # cs) s = calls cs (snd (consume a now s))"

text \<open>No call of the sequence starts a window.\<close>

fun same_window :: "(int \<times> rat) list \<Rightarrow> 's \<Rightarrow> bool" where
  "same_window [] s = True"
| "same_window ((a, now) # cs) s \<longleftrightarrow> \<not> renews now s \<and> same_window cs (snd (consume a now s))"

definition in_bounds :: "'s \<Rightarrow> bool" where
  "in_bounds s \<longleftrightarrow> 0 \<le> used s \<and> used s \<le> limit s"

lemma consume_in_bounds: "in_bounds s \<Longrightarrow> 0 \<le> a \<Longrightarrow> in_bounds (snd (consume a now s))"
  using consume_used [of a now s] granted_iff [of a now s]
  by (auto simp: in_bounds_def consume_limit)

lemma calls_in_bounds: "in_bounds s \<Longrightarrow> \<forall>(a, _) \<in> set cs. 0 \<le> a \<Longrightarrow> in_bounds (calls cs s)"
  by (induction cs arbitrary: s) (auto simp: consume_in_bounds)

lemma calls_limit: "limit (calls cs s) = limit s"
  by (induction cs arbitrary: s) (auto simp: consume_limit)

lemma same_window_used: "same_window cs s \<Longrightarrow> used (calls cs s) = used s + grants cs s"
  by (induction cs arbitrary: s) (auto simp: consume_used)

lemma same_window_grants:
  assumes "in_bounds s" and "\<forall>(a, _) \<in> set cs. 0 \<le> a" and "same_window cs s"
  shows "grants cs s \<le> limit s"
  using calls_in_bounds [OF assms(1,2)] same_window_used [OF assms(3)] calls_limit [of cs s] assms(1)
  by (auto simp: in_bounds_def)

text \<open>After a window has started at \<open>t\<close>, calls at times in \<open>[t, t + window)\<close> stay in it.\<close>

lemma stays_in_window:
  assumes "started s = Some t"
    and "\<forall>(_, now) \<in> set cs. t \<le> now \<and> now < t + window s"
  shows "same_window cs s"
  using assms
proof (induction cs arbitrary: s)
  case (Cons c cs)
  obtain a now where c: "c = (a, now)" by (cases c)
  with Cons.prems(2) have b: "t \<le> now" "now < t + window s" by auto
  have n: "\<not> renews now s"
    using renews_late [of now s t] Cons.prems(1) b by auto
  then have st: "started (snd (consume a now s)) = Some t"
    using consume_started [of a now s] Cons.prems(1) by simp
  from Cons.IH [OF st] Cons.prems(2) n c show ?case
    by (auto simp: consume_window)
qed simp

text \<open>
  Inside an interval shorter than the window, with times that do not run backwards, at most one
  window starts, so at most twice the limit is granted.
\<close>

lemma interval_grants:
  assumes "in_bounds s" and "\<forall>(a, _) \<in> set cs. 0 \<le> a"
    and "sorted (map snd cs)" and "\<forall>(_, now) \<in> set cs. t0 \<le> now \<and> now < t0 + window s"
  shows "grants cs s \<le> 2 * limit s - used s"
  using assms
proof (induction cs arbitrary: s)
  case Nil
  then show ?case by (auto simp: in_bounds_def)
next
  case (Cons c cs)
  obtain a now where c: "c = (a, now)" by (cases c)
  let ?s = "snd (consume a now s)"
  have w: "in_bounds ?s" using Cons.prems(1,2) c by (auto intro: consume_in_bounds)
  show ?case
  proof (cases "renews now s")
    case True
    have st: "started ?s = Some now" using True consume_started [of a now s] by simp
    have "\<forall>(_, n) \<in> set cs. now \<le> n \<and> n < now + window ?s"
      using Cons.prems(3,4) c by (fastforce simp: consume_window)
    then have "same_window cs ?s" by (rule stays_in_window [OF st])
    then have "used (calls cs ?s) = used ?s + grants cs ?s"
      by (rule same_window_used)
    moreover have "in_bounds (calls cs ?s)"
      using calls_in_bounds [OF w] Cons.prems(2) by auto
    ultimately have "used ?s + grants cs ?s \<le> limit s"
      by (simp add: in_bounds_def calls_limit consume_limit)
    then have "grants (c # cs) s \<le> limit s"
      using c True consume_used [of a now s] by auto
    with Cons.prems(1) show ?thesis by (simp add: in_bounds_def)
  next
    case False
    have "grants cs ?s \<le> 2 * limit ?s - used ?s"
      using Cons.IH [OF w] Cons.prems(2,3,4) c by (auto simp: consume_window)
    then show ?thesis
      using c False consume_used [of a now s] by (simp add: consume_limit split: if_splits)
  qed
qed

end

section \<open>The limiter of the core package\<close>

text \<open>\<open>packages/core/src/limits/fixed-window-rate-limiter.ts\<close>\<close>

record rate_limiter =
  rl_limit :: int
  rl_window_ms :: rat
  rl_started_at :: "rat option"
  rl_used :: int

definition new_rate_limiter :: "js_number \<Rightarrow> js_number \<Rightarrow> thrown + rate_limiter" where
  "new_rate_limiter limit windowMs =
     (if \<not> int_at_least 1 limit then Inl (range_error ''Rate limit must be a positive safe integer'')
      else (case windowMs of
              Finite w \<Rightarrow>
                if w \<le> 0 then
                  Inl (range_error ''Rate limit window must be a positive finite number'')
                else Inr \<lparr>rl_limit = int (nat_of_number limit), rl_window_ms = w,
                          rl_started_at = None, rl_used = 0\<rparr>
            | _ \<Rightarrow> Inl (range_error ''Rate limit window must be a positive finite number'')))"

definition rl_renews :: "rat \<Rightarrow> rate_limiter \<Rightarrow> bool" where
  "rl_renews now s =
     (case rl_started_at s of
        None \<Rightarrow> True
      | Some t \<Rightarrow> now < t \<or> now - t \<ge> rl_window_ms s)"

text \<open>\<open>#refreshWindow\<close>: throws on a time that is not finite.\<close>

definition refresh_window :: "js_number \<Rightarrow> rate_limiter \<Rightarrow> thrown + rate_limiter" where
  "refresh_window now s =
     (case now of
        Finite t \<Rightarrow>
          Inr (if rl_renews t s then s\<lparr>rl_started_at := Some t, rl_used := 0\<rparr> else s)
      | _ \<Rightarrow> Inl (range_error ''Current time must be a finite number''))"

text \<open>
  \<open>tryConsume\<close>: the result and the limiter after the call; an exception leaves the limiter as it
  was, because both assertions come before the first assignment.
\<close>

definition try_consume :: "js_number \<Rightarrow> js_number \<Rightarrow> rate_limiter \<Rightarrow> thrown + bool \<times> rate_limiter" where
  "try_consume amount now s =
     (if \<not> int_at_least 1 amount then
        Inl (range_error ''Consumed amount must be a positive safe integer'')
      else bindE (refresh_window now s) (\<lambda>s1.
        let n = int (nat_of_number amount) in
        if n > rl_limit s1 - rl_used s1 then Inr (False, s1)
        else Inr (True, s1\<lparr>rl_used := rl_used s1 + n\<rparr>)))"

definition retry_after_ms :: "js_number \<Rightarrow> rate_limiter \<Rightarrow> thrown + rat \<times> rate_limiter" where
  "retry_after_ms now s =
     bindE (refresh_window now s) (\<lambda>s1.
       case (rl_started_at s1, now) of
         (Some t, Finite n) \<Rightarrow>
           if rl_used s1 < rl_limit s1 then Inr (0, s1)
           else Inr (max 0 (t + rl_window_ms s1 - n), s1)
       | _ \<Rightarrow> Inr (0, s1))"

definition reset_limiter :: "rate_limiter \<Rightarrow> rate_limiter" where
  "reset_limiter s = s\<lparr>rl_started_at := None, rl_used := 0\<rparr>"

text \<open>A call with a valid amount and a finite time does not throw; this is what it returns.\<close>

definition rl_consume :: "int \<Rightarrow> rat \<Rightarrow> rate_limiter \<Rightarrow> bool \<times> rate_limiter" where
  "rl_consume a now s =
     (let s1 = (if rl_renews now s then s\<lparr>rl_started_at := Some now, rl_used := 0\<rparr> else s)
      in if a > rl_limit s1 - rl_used s1 then (False, s1)
         else (True, s1\<lparr>rl_used := rl_used s1 + a\<rparr>))"

lemma try_consume_valid:
  "1 \<le> a \<Longrightarrow> a \<le> max_safe \<Longrightarrow>
   try_consume (js_int a) (Finite now) s = Inr (rl_consume a now s)"
  by (simp add: try_consume_def refresh_window_def rl_consume_def Let_def nat_of_number_def)

interpretation rl: window_counter rl_consume rl_renews rl_started_at rl_used rl_limit rl_window_ms
  by unfold_locales (auto simp: rl_consume_def rl_renews_def Let_def)

lemma new_rate_limiter_within:
  "new_rate_limiter l w = Inr s \<Longrightarrow>
   rl.in_bounds s \<and> 1 \<le> rl_limit s \<and> 0 < rl_window_ms s \<and> rl_used s = 0"
  by (auto simp: new_rate_limiter_def rl.in_bounds_def split: js_number.splits if_splits
      dest: nat_of_number_pos)

text \<open>
  A limiter never grants more than its limit inside one window: for any calls that start no new
  window the total granted is at most the limit, and for calls at non-decreasing times inside any
  half-open interval of one window's length (where at most one window starts) the total is at most
  twice the limit.
\<close>

theorem rate_limiter_grants:
  assumes new: "new_rate_limiter l w = Inr s0"
    and before: "\<forall>(a, _) \<in> set past. 1 \<le> a"
    and amounts: "\<forall>(a, _) \<in> set cs. 1 \<le> a"
  shows "let s = rl.calls past s0 in
     (rl.same_window cs s \<longrightarrow> rl.grants cs s \<le> rl_limit s0) \<and>
     (sorted (map snd cs) \<and> (\<forall>(_, now) \<in> set cs. t0 \<le> now \<and> now < t0 + rl_window_ms s) \<longrightarrow>
        rl.grants cs s \<le> 2 * rl_limit s0)"
proof -
  define s where "s = rl.calls past s0"
  have w: "rl.in_bounds s"
    using new_rate_limiter_within [OF new] before by (fastforce simp: s_def intro: rl.calls_in_bounds)
  have l: "rl_limit s = rl_limit s0" by (simp add: s_def rl.calls_limit)
  have p: "\<forall>(a, _) \<in> set cs. 0 \<le> a" using amounts by fastforce
  show ?thesis
    unfolding s_def [symmetric] Let_def
    using rl.same_window_grants [OF w p] rl.interval_grants [OF w p, of t0] l w
    by (auto simp: rl.in_bounds_def)
qed

theorem rate_limiter_grants_witness:
  "\<exists>s0. new_rate_limiter (Finite 2) (Finite 1000) = Inr s0 \<and>
        rl.grants [(1, 10), (1, 20), (1, 30)] s0 = 2"
proof -
  have n: "new_rate_limiter (Finite 2) (Finite 1000) =
      Inr \<lparr>rl_limit = 2, rl_window_ms = 1000, rl_started_at = None, rl_used = 0\<rparr>"
    by (simp add: new_rate_limiter_def max_safe_def)
  show ?thesis
    using rate_limiter_grants [OF n, of "[]" "[(1, 10), (1, 20), (1, 30)]" 0] n
    by (simp add: rl_consume_def rl_renews_def Let_def)
qed

text \<open>
  \<open>retryAfterMs\<close> is exact: it never throws at a finite time, the delay it returns is not negative
  and at most one window, one unit consumed after exactly that delay is granted, and one unit
  consumed any earlier is refused.
\<close>

theorem retry_after_exact:
  assumes lim: "1 \<le> rl_limit s" "rl_used s \<le> rl_limit s" "0 < rl_window_ms s"
  shows "\<exists>d s1. retry_after_ms (Finite now) s = Inr (d, s1) \<and> 0 \<le> d \<and> d \<le> rl_window_ms s \<and>
          (\<exists>s2. try_consume (Finite 1) (Finite (now + d)) s1 = Inr (True, s2)) \<and>
          (\<forall>n. now \<le> n \<and> n < now + d \<longrightarrow>
                 try_consume (Finite 1) (Finite n) s1 = Inr (False, s1))"
proof -
  define s1 where "s1 = (if rl_renews now s then s\<lparr>rl_started_at := Some now, rl_used := 0\<rparr> else s)"
  have r: "refresh_window (Finite now) s = Inr s1" by (simp add: refresh_window_def s1_def)
  obtain t where t: "rl_started_at s1 = Some t" "t \<le> now" "now < t + rl_window_ms s"
    using lim(3) that by (cases "rl_renews now s") (auto simp: s1_def rl_renews_def split: option.splits)
  have w: "rl_window_ms s1 = rl_window_ms s" "rl_limit s1 = rl_limit s" "rl_used s1 \<le> rl_limit s"
    using lim by (auto simp: s1_def)
  define d where "d = (if rl_used s1 < rl_limit s1 then 0 else t + rl_window_ms s1 - now)"
  have ra: "retry_after_ms (Finite now) s = Inr (d, s1)"
    using t w by (simp add: retry_after_ms_def r d_def)
  have d: "0 \<le> d" "d \<le> rl_window_ms s" using t w by (auto simp: d_def)
  have c: "try_consume (Finite 1) (Finite n) s1 = Inr (rl_consume 1 n s1)" for n
    using try_consume_valid [of 1 n s1] by (simp add: max_safe_def)
  have "fst (rl_consume 1 (now + d) s1)"
  proof (cases "rl_used s1 < rl_limit s1")
    case True
    then show ?thesis using t w by (simp add: d_def rl_consume_def rl_renews_def)
  next
    case False
    then show ?thesis using t w lim(1) by (simp add: d_def rl_consume_def rl_renews_def Let_def)
  qed
  moreover have "rl_consume 1 n s1 = (False, s1)" if "now \<le> n \<and> n < now + d" for n
    using that t w by (auto simp: d_def rl_consume_def rl_renews_def split: if_splits)
  ultimately show ?thesis
    using ra d c by (cases "rl_consume 1 (now + d) s1") auto
qed

theorem retry_after_exact_witness:
  "\<exists>d s1. retry_after_ms (Finite 400)
      \<lparr>rl_limit = 1, rl_window_ms = 1000, rl_started_at = Some 100, rl_used = 1\<rparr> = Inr (d, s1) \<and>
      (\<exists>s2. try_consume (Finite 1) (Finite (400 + d)) s1 = Inr (True, s2))"
  using retry_after_exact
    [of "\<lparr>rl_limit = 1, rl_window_ms = 1000, rl_started_at = Some 100, rl_used = 1\<rparr>" 400]
  by auto

end
