(* ===== verification/Bounded_Queue.thy ===== *)
theory Bounded_Queue
  imports Errors
begin

text \<open>
  The bounded queue of \<open>packages/core/src/utilities/bounded-queue.ts\<close>: a circular buffer over a
  JavaScript array that grows on demand, with four overflow policies. The abstract specification is
  a list of at most \<open>capacity\<close> values; the locale \<open>fifo_queue\<close> states what a client may rely on, and
  is interpreted on the circular buffer through its abstraction function \<open>contents\<close>.
\<close>

datatype overflow_policy = DropOldest | DropNewest | Reject | CloseSession

text \<open>The result of \<open>enqueue\<close>; \<open>None\<close> stands for the value \<open>undefined\<close> read from the array.\<close>

datatype 'a enqueue_result =
    Enqueued
  | DroppedOldest "'a option"
  | DroppedNewest 'a
  | Rejected 'a
  | ClosingSession 'a

fun accepted :: "'a enqueue_result \<Rightarrow> bool" where
  "accepted Enqueued = True"
| "accepted (DroppedOldest _) = True"
| "accepted _ = False"

section \<open>The contract\<close>

text \<open>The specification: what \<open>enqueue\<close> does to the list of queued values.\<close>

fun spec_enqueue :: "nat \<Rightarrow> overflow_policy \<Rightarrow> 'a \<Rightarrow> 'a list \<Rightarrow> 'a list \<times> 'a enqueue_result" where
  "spec_enqueue cap policy x xs =
     (if length xs < cap then (xs @ [x], Enqueued)
      else (case policy of
              DropOldest \<Rightarrow> (tl xs @ [x], DroppedOldest (Some (hd xs)))
            | DropNewest \<Rightarrow> (xs, DroppedNewest x)
            | Reject \<Rightarrow> (xs, Rejected x)
            | CloseSession \<Rightarrow> (xs, ClosingSession x)))"

fun spec_dequeue :: "'a list \<Rightarrow> 'a list \<times> 'a option" where
  "spec_dequeue [] = ([], None)"
| "spec_dequeue (x # xs) = (xs, Some x)"

locale fifo_queue =
  fixes enq :: "'a \<Rightarrow> 'q \<Rightarrow> 'q \<times> 'a enqueue_result"
    and deq :: "'q \<Rightarrow> 'q \<times> 'a option"
    and clr :: "'q \<Rightarrow> 'q"
    and list_of :: "'q \<Rightarrow> 'a list"
    and cap :: "'q \<Rightarrow> nat"
    and policy :: "'q \<Rightarrow> overflow_policy"
    and invar :: "'q \<Rightarrow> bool"
  assumes cap_pos: "invar q \<Longrightarrow> 0 < cap q"
    and size_le: "invar q \<Longrightarrow> length (list_of q) \<le> cap q"
    and enq_spec:
      "invar q \<Longrightarrow> (list_of (fst (enq x q)), snd (enq x q)) = spec_enqueue (cap q) (policy q) x (list_of q)"
    and deq_spec: "invar q \<Longrightarrow> (list_of (fst (deq q)), snd (deq q)) = spec_dequeue (list_of q)"
    and clr_spec: "invar q \<Longrightarrow> list_of (clr q) = []"
    and invar_enq: "invar q \<Longrightarrow> invar (fst (enq x q))"
    and invar_deq: "invar q \<Longrightarrow> invar (fst (deq q))"
    and invar_clr: "invar q \<Longrightarrow> invar (clr q)"
    and frame_enq: "cap (fst (enq x q)) = cap q" "policy (fst (enq x q)) = policy q"
    and frame_deq: "cap (fst (deq q)) = cap q" "policy (fst (deq q)) = policy q"
    and frame_clr: "cap (clr q) = cap q" "policy (clr q) = policy q"
begin

text \<open>The weight of a queue: the sum of a cost of its values, e.g. the bytes it retains.\<close>

definition weight :: "('a \<Rightarrow> int) \<Rightarrow> 'q \<Rightarrow> int" where
  "weight f q = sum_list (map f (list_of q))"

definition dropped_weight :: "('a \<Rightarrow> int) \<Rightarrow> 'a enqueue_result \<Rightarrow> int" where
  "dropped_weight f r = (case r of DroppedOldest (Some y) \<Rightarrow> f y | _ \<Rightarrow> 0)"

lemma list_nonempty: "invar q \<Longrightarrow> \<not> length (list_of q) < cap q \<Longrightarrow> list_of q \<noteq> []"
  using cap_pos [of q] by auto

lemma enq_weight:
  assumes "invar q"
  shows "weight f (fst (enq x q)) =
           weight f q + (if accepted (snd (enq x q)) then f x else 0) - dropped_weight f (snd (enq x q))"
proof (cases "length (list_of q) < cap q")
  case True
  then show ?thesis using enq_spec [OF assms, of x] by (simp add: weight_def dropped_weight_def)
next
  case False
  from list_nonempty [OF assms False] obtain y ys where l: "list_of q = y # ys"
    by (cases "list_of q") auto
  show ?thesis using enq_spec [OF assms, of x] False l
    by (cases "policy q") (simp_all add: weight_def dropped_weight_def)
qed

lemma enq_dropped: "invar q \<Longrightarrow> snd (enq x q) \<noteq> DroppedOldest None"
  using enq_spec [of q x] list_nonempty [of q] by (cases "policy q") (auto split: if_splits)

lemma deq_weight:
  assumes "invar q"
  shows "weight f (fst (deq q)) + (case snd (deq q) of Some y \<Rightarrow> f y | None \<Rightarrow> 0) = weight f q"
  using deq_spec [OF assms] by (cases "list_of q") (simp_all add: weight_def)

lemma clr_weight: "invar q \<Longrightarrow> weight f (clr q) = 0"
  by (simp add: weight_def clr_spec)

lemma weight_nonneg: "(\<And>y. 0 \<le> f y) \<Longrightarrow> 0 \<le> weight f q"
  unfolding weight_def by (rule sum_list_nonneg) auto

lemma deq_none_iff: "invar q \<Longrightarrow> snd (deq q) = None \<longleftrightarrow> list_of q = []"
  using deq_spec [of q] by (cases "list_of q") simp_all

text \<open>Draining: as many dequeues as there are values return them in insertion order.\<close>

fun drain :: "nat \<Rightarrow> 'q \<Rightarrow> 'a option list" where
  "drain 0 q = []"
| "drain (Suc n) q = snd (deq q) # drain n (fst (deq q))"

lemma drain_list: "invar q \<Longrightarrow> drain (length (list_of q)) q = map Some (list_of q)"
proof (induction "length (list_of q)" arbitrary: q)
  case (Suc n)
  then obtain y ys where l: "list_of q = y # ys" by (cases "list_of q") auto
  from deq_spec [OF Suc.prems] l have d: "list_of (fst (deq q)) = ys" "snd (deq q) = Some y" by auto
  have "drain (length (list_of (fst (deq q)))) (fst (deq q)) = map Some (list_of (fst (deq q)))"
    using Suc.hyps(1) [of "fst (deq q)"] Suc.hyps(2) invar_deq [OF Suc.prems] l d by simp
  then show ?case using l d by simp
qed simp

end

section \<open>The circular buffer\<close>

record 'a bounded_queue =
  bq_capacity :: nat
  bq_overflow :: overflow_policy
  bq_items :: "'a option list"
  bq_head :: nat
  bq_size :: nat

text \<open>
  Reading past the end of a JavaScript array gives \<open>undefined\<close>; writing past the end extends the
  array, with holes that read as \<open>undefined\<close>.
\<close>

definition array_get :: "'a option list \<Rightarrow> nat \<Rightarrow> 'a option" where
  "array_get xs i = (if i < length xs then xs ! i else None)"

definition array_set :: "'a option list \<Rightarrow> nat \<Rightarrow> 'a option \<Rightarrow> 'a option list" where
  "array_set xs i v =
     (if i < length xs then xs[i := v] else xs @ replicate (i - length xs) None @ [v])"

lemma array_get_set: "array_get (array_set xs i v) j = (if j = i then v else array_get xs j)"
  by (auto simp: array_get_def array_set_def nth_append nth_list_update)

definition new_bounded_queue :: "js_number \<Rightarrow> overflow_policy \<Rightarrow> thrown + 'a bounded_queue" where
  "new_bounded_queue capacity overflow =
     (if \<not> int_at_least 1 capacity \<or> int (nat_of_number capacity) > 4294967295 then
        Inl (JsError ''RangeError''
               ''Queue capacity must be an integer between 1 and 4,294,967,295'')
      else Inr \<lparr>bq_capacity = nat_of_number capacity, bq_overflow = overflow, bq_items = [],
                bq_head = 0, bq_size = 0\<rparr>)"

definition bq_is_empty :: "'a bounded_queue \<Rightarrow> bool" where
  "bq_is_empty q = (bq_size q = 0)"

definition bq_is_full :: "'a bounded_queue \<Rightarrow> bool" where
  "bq_is_full q = (bq_size q = bq_capacity q)"

definition enqueue :: "'a \<Rightarrow> 'a bounded_queue \<Rightarrow> 'a bounded_queue \<times> 'a enqueue_result" where
  "enqueue item q =
     (if \<not> bq_is_full q then
        (q\<lparr>bq_items := array_set (bq_items q) ((bq_head q + bq_size q) mod bq_capacity q) (Some item),
           bq_size := bq_size q + 1\<rparr>, Enqueued)
      else
        (case bq_overflow q of
           DropOldest \<Rightarrow>
             (q\<lparr>bq_items := array_set (bq_items q) (bq_head q) (Some item),
                bq_head := (bq_head q + 1) mod bq_capacity q\<rparr>,
              DroppedOldest (array_get (bq_items q) (bq_head q)))
         | DropNewest \<Rightarrow> (q, DroppedNewest item)
         | Reject \<Rightarrow> (q, Rejected item)
         | CloseSession \<Rightarrow> (q, ClosingSession item)))"

definition dequeue :: "'a bounded_queue \<Rightarrow> 'a bounded_queue \<times> 'a option" where
  "dequeue q =
     (if bq_is_empty q then (q, None)
      else
        (let item = array_get (bq_items q) (bq_head q);
             size = bq_size q - 1
         in (q\<lparr>bq_items := array_set (bq_items q) (bq_head q) None,
               bq_head := (if size = 0 then 0 else (bq_head q + 1) mod bq_capacity q),
               bq_size := size\<rparr>, item)))"

definition peek :: "'a bounded_queue \<Rightarrow> 'a option" where
  "peek q = (if bq_is_empty q then None else array_get (bq_items q) (bq_head q))"

definition clear_queue :: "'a bounded_queue \<Rightarrow> 'a bounded_queue" where
  "clear_queue q = q\<lparr>bq_items := [], bq_head := 0, bq_size := 0\<rparr>"

text \<open>\<open>toArray\<close>, which the iterator uses too.\<close>

definition to_array :: "'a bounded_queue \<Rightarrow> 'a option list" where
  "to_array q =
     map (\<lambda>offset. array_get (bq_items q) ((bq_head q + offset) mod bq_capacity q)) [0..<bq_size q]"

text \<open>The abstraction: the values of \<open>toArray\<close>, none of which is \<open>undefined\<close> under the invariant.\<close>

definition contents :: "'a bounded_queue \<Rightarrow> 'a list" where
  "contents q = map the (to_array q)"

definition bq_inv :: "'a bounded_queue \<Rightarrow> bool" where
  "bq_inv q \<longleftrightarrow>
     0 < bq_capacity q \<and> bq_size q \<le> bq_capacity q \<and> bq_head q < bq_capacity q \<and>
     length (bq_items q) \<le> bq_capacity q \<and>
     (\<forall>k < bq_size q. array_get (bq_items q) ((bq_head q + k) mod bq_capacity q) \<noteq> None)"

section \<open>The buffer implements the contract\<close>

lemma wrap_index: "h < c \<Longrightarrow> k < c \<Longrightarrow> (h + k) mod c = (if h + k < c then h + k else h + k - c)"
  for h k c :: nat
  by (simp add: mod_if)

lemma wrap_inject: "h < c \<Longrightarrow> k < c \<Longrightarrow> j < c \<Longrightarrow> (h + k) mod c = (h + j) mod c \<longleftrightarrow> k = j"
  for h k c :: nat
  by (auto simp: wrap_index split: if_splits)

lemma wrap_self: "h < c \<Longrightarrow> k < c \<Longrightarrow> (h + k) mod c = h \<longleftrightarrow> k = 0"
  for h k c :: nat
  using wrap_inject [of h c k 0] by auto

lemma wrap_shift:
  "((h + 1) mod c + k) mod c = (h + Suc k) mod c" "((h + Suc 0) mod c + k) mod c = (h + Suc k) mod c"
  for h k c :: nat
  by (simp_all add: mod_add_left_eq)

lemma length_to_array [simp]: "length (to_array q) = bq_size q"
  by (simp add: to_array_def)

lemma length_contents [simp]: "length (contents q) = bq_size q"
  by (simp add: contents_def)

lemma nth_contents:
  "k < bq_size q \<Longrightarrow>
   contents q ! k = the (array_get (bq_items q) ((bq_head q + k) mod bq_capacity q))"
  by (simp add: contents_def to_array_def)

lemma to_array_contents: "bq_inv q \<Longrightarrow> to_array q = map Some (contents q)"
  by (auto simp: contents_def to_array_def bq_inv_def intro!: nth_equalityI)

lemma length_array_set: "length (array_set xs i v) = max (length xs) (Suc i)"
  by (auto simp: array_set_def)

lemma new_bounded_queue_inv:
  "new_bounded_queue c p = Inr q \<Longrightarrow>
   bq_inv q \<and> contents q = [] \<and> bq_capacity q \<le> 4294967295 \<and> bq_overflow q = p \<and>
   bq_capacity q = nat_of_number c"
  by (auto simp: new_bounded_queue_def bq_inv_def contents_def to_array_def split: if_splits
      dest: nat_of_number_pos)

lemma enqueue_room:
  assumes i: "bq_inv q" and room: "bq_size q < bq_capacity q"
  shows "bq_inv (fst (enqueue x q))" and "contents (fst (enqueue x q)) = contents q @ [x]"
    and "snd (enqueue x q) = Enqueued"
proof -
  let ?c = "bq_capacity q" and ?h = "bq_head q" and ?n = "bq_size q"
  have b: "?h < ?c" "length (bq_items q) \<le> ?c" using i by (auto simp: bq_inv_def)
  have e: "enqueue x q = (q\<lparr>bq_items := array_set (bq_items q) ((?h + ?n) mod ?c) (Some x),
      bq_size := ?n + 1\<rparr>, Enqueued)"
    using room by (simp add: enqueue_def bq_is_full_def)
  have inj: "k < ?n \<Longrightarrow> (?h + k) mod ?c \<noteq> (?h + ?n) mod ?c" for k
    using wrap_inject [of ?h ?c k ?n] b room by auto
  show "snd (enqueue x q) = Enqueued" by (simp add: e)
  show "bq_inv (fst (enqueue x q))"
    using i room inj b by (auto simp: e bq_inv_def array_get_set length_array_set less_Suc_eq Suc_le_eq)
  show "contents (fst (enqueue x q)) = contents q @ [x]"
    using inj by (auto simp: e nth_contents array_get_set nth_append less_Suc_eq intro!: nth_equalityI)
qed

lemma enqueue_oldest:
  assumes i: "bq_inv q" and full: "bq_size q = bq_capacity q" and p: "bq_overflow q = DropOldest"
  shows "bq_inv (fst (enqueue x q))" and "contents (fst (enqueue x q)) = tl (contents q) @ [x]"
    and "snd (enqueue x q) = DroppedOldest (Some (hd (contents q)))"
proof -
  let ?c = "bq_capacity q" and ?h = "bq_head q"
  have b: "?h < ?c" "length (bq_items q) \<le> ?c" "0 < ?c" using i by (auto simp: bq_inv_def)
  have e: "enqueue x q = (q\<lparr>bq_items := array_set (bq_items q) ?h (Some x),
      bq_head := (?h + 1) mod ?c\<rparr>, DroppedOldest (array_get (bq_items q) ?h))"
    using full p by (simp add: enqueue_def bq_is_full_def)
  have inj: "Suc k < ?c \<Longrightarrow> (?h + Suc k) mod ?c \<noteq> ?h" for k
    using wrap_self [of ?h ?c "Suc k"] b by auto
  have last: "(?h + ?c) mod ?c = ?h"
    using b by simp
  have defd: "k < ?c \<Longrightarrow> array_get (bq_items q) ((?h + k) mod ?c) \<noteq> None" for k
    using i full by (simp add: bq_inv_def)
  have hd: "hd (contents q) = the (array_get (bq_items q) ?h)"
    using nth_contents [of 0 q] full b by (subst hd_conv_nth) (auto simp flip: length_greater_0_conv)
  show "snd (enqueue x q) = DroppedOldest (Some (hd (contents q)))"
    using defd [of 0] b by (simp add: e hd)
  have get: "k < ?c \<Longrightarrow> array_get (array_set (bq_items q) ?h (Some x)) ((?h + Suc k) mod ?c) =
      (if Suc k = ?c then Some x else array_get (bq_items q) ((?h + Suc k) mod ?c))" for k
    by (cases "Suc k = ?c")
      (simp_all only: array_get_set last inj if_True if_False Suc_lessI simp_thms)
  show "bq_inv (fst (enqueue x q))"
    unfolding bq_inv_def using full b get defd [of "Suc _"]
    by (auto simp: e wrap_shift length_array_set Suc_le_eq
        simp del: add_Suc_right add_Suc split: if_splits)
  show "contents (fst (enqueue x q)) = tl (contents q) @ [x]"
  proof (rule nth_equalityI)
    show "length (contents (fst (enqueue x q))) = length (tl (contents q) @ [x])"
      using full b by (simp add: e)
    fix k
    assume "k < length (contents (fst (enqueue x q)))"
    then have k: "k < ?c" using full by (simp add: e)
    have "contents (fst (enqueue x q)) ! k =
        the (array_get (array_set (bq_items q) ?h (Some x)) ((?h + Suc k) mod ?c))"
      using k full by (simp add: e nth_contents wrap_shift
          del: add_Suc_right add_Suc)
    then show "contents (fst (enqueue x q)) ! k = (tl (contents q) @ [x]) ! k"
      using k full get [OF k] by (auto simp: nth_append nth_tl nth_contents)
  qed
qed

lemma dequeue_some:
  assumes i: "bq_inv q" and ne: "bq_size q \<noteq> 0"
  shows "bq_inv (fst (dequeue q))" and "contents (fst (dequeue q)) = tl (contents q)"
    and "snd (dequeue q) = Some (hd (contents q))"
proof -
  let ?c = "bq_capacity q" and ?h = "bq_head q" and ?n = "bq_size q"
  have b: "?h < ?c" "length (bq_items q) \<le> ?c" "?n \<le> ?c" "0 < ?c" using i by (auto simp: bq_inv_def)
  let ?h' = "if ?n - 1 = 0 then 0 else (?h + 1) mod ?c"
  have e: "dequeue q = (q\<lparr>bq_items := array_set (bq_items q) ?h None, bq_head := ?h',
      bq_size := ?n - 1\<rparr>, array_get (bq_items q) ?h)"
    using ne by (simp add: dequeue_def bq_is_empty_def Let_def)
  have idx: "k < ?n - 1 \<Longrightarrow> (?h' + k) mod ?c = (?h + Suc k) mod ?c" for k
    using wrap_shift(1) [of ?h ?c k] by auto
  have inj: "k < ?n - 1 \<Longrightarrow> (?h + Suc k) mod ?c \<noteq> ?h" for k
    using wrap_self [of ?h ?c "Suc k"] b by auto
  have defd: "k < ?n \<Longrightarrow> array_get (bq_items q) ((?h + k) mod ?c) \<noteq> None" for k
    using i by (simp add: bq_inv_def)
  have "hd (contents q) = the (array_get (bq_items q) ?h)"
    using nth_contents [of 0 q] ne b by (subst hd_conv_nth) (auto simp flip: length_greater_0_conv)
  with defd [of 0] ne b show "snd (dequeue q) = Some (hd (contents q))" by (simp add: e)
  have get: "k < ?n - 1 \<Longrightarrow> array_get (array_set (bq_items q) ?h None) ((?h' + k) mod ?c) =
      array_get (bq_items q) ((?h + Suc k) mod ?c)" for k
    using idx [of k] inj [of k] by (simp only: array_get_set if_False)
  have h': "?h' < ?c" using b by auto
  show "bq_inv (fst (dequeue q))"
    unfolding bq_inv_def e fst_conv
    using b h' get defd [of "Suc _"] by (simp add: length_array_set Suc_le_eq del: add_Suc_right)
  show "contents (fst (dequeue q)) = tl (contents q)"
  proof (rule nth_equalityI)
    show "length (contents (fst (dequeue q))) = length (tl (contents q))" by (simp add: e)
    fix k
    assume "k < length (contents (fst (dequeue q)))"
    then have k: "k < ?n - 1" by (simp add: e)
    then have "contents (fst (dequeue q)) ! k =
        the (array_get (array_set (bq_items q) ?h None) ((?h' + k) mod ?c))"
      unfolding e fst_conv by (subst nth_contents) simp_all
    also have "\<dots> = contents q ! Suc k" using k get [OF k] by (simp add: nth_contents)
    finally show "contents (fst (dequeue q)) ! k = tl (contents q) ! k"
      using k by (simp add: nth_tl)
  qed
qed

lemma bq_frame [simp]:
  "bq_capacity (fst (enqueue x q)) = bq_capacity q" "bq_overflow (fst (enqueue x q)) = bq_overflow q"
  "bq_capacity (fst (dequeue q)) = bq_capacity q" "bq_overflow (fst (dequeue q)) = bq_overflow q"
  "bq_capacity (clear_queue q) = bq_capacity q" "bq_overflow (clear_queue q) = bq_overflow q"
  by (auto simp: enqueue_def dequeue_def clear_queue_def Let_def split: overflow_policy.splits)

lemma enqueue_refines:
  assumes i: "bq_inv q"
  shows "bq_inv (fst (enqueue x q)) \<and>
    (contents (fst (enqueue x q)), snd (enqueue x q)) =
      spec_enqueue (bq_capacity q) (bq_overflow q) x (contents q)"
proof (cases "bq_size q < bq_capacity q")
  case True
  then show ?thesis using enqueue_room [OF i True, of x] by simp
next
  case False
  then have full: "bq_size q = bq_capacity q" using i by (simp add: bq_inv_def)
  show ?thesis
  proof (cases "bq_overflow q")
    case DropOldest
    then show ?thesis using enqueue_oldest [OF i full DropOldest, of x] full by simp
  qed (use full i in \<open>simp_all add: enqueue_def bq_is_full_def\<close>)
qed

lemma dequeue_refines:
  assumes i: "bq_inv q"
  shows "bq_inv (fst (dequeue q)) \<and>
    (contents (fst (dequeue q)), snd (dequeue q)) = spec_dequeue (contents q)"
proof (cases "bq_size q = 0")
  case True
  then have "contents q = []" by (simp flip: length_0_conv)
  with True i show ?thesis by (simp add: dequeue_def bq_is_empty_def)
next
  case False
  then obtain y ys where "contents q = y # ys" by (cases "contents q") (auto simp flip: length_0_conv)
  with dequeue_some [OF i False] show ?thesis by simp
qed

lemma clear_queue_inv: "bq_inv q \<Longrightarrow> bq_inv (clear_queue q) \<and> contents (clear_queue q) = []"
  by (simp add: bq_inv_def clear_queue_def contents_def to_array_def)

lemma peek_contents:
  assumes i: "bq_inv q"
  shows "peek q = (case contents q of [] \<Rightarrow> None | x # _ \<Rightarrow> Some x)"
proof (cases "bq_size q = 0")
  case True
  then have "contents q = []" by (simp flip: length_0_conv)
  with True show ?thesis by (simp add: peek_def bq_is_empty_def)
next
  case False
  then obtain y ys where c: "contents q = y # ys" by (cases "contents q") (auto simp flip: length_0_conv)
  have "bq_head q mod bq_capacity q = bq_head q" using i by (simp add: bq_inv_def)
  then have "peek q = to_array q ! 0" using False by (simp add: peek_def bq_is_empty_def to_array_def)
  with to_array_contents [OF i] c show ?thesis by simp
qed

interpretation bq: fifo_queue enqueue dequeue clear_queue contents bq_capacity bq_overflow bq_inv
proof unfold_locales
  fix q :: "'a bounded_queue" and x
  assume i: "bq_inv q"
  then show "0 < bq_capacity q" "length (contents q) \<le> bq_capacity q" by (auto simp: bq_inv_def)
  show "(contents (fst (enqueue x q)), snd (enqueue x q)) =
      spec_enqueue (bq_capacity q) (bq_overflow q) x (contents q)" "bq_inv (fst (enqueue x q))"
    using enqueue_refines [OF i, of x] by auto
  show "(contents (fst (dequeue q)), snd (dequeue q)) = spec_dequeue (contents q)"
    "bq_inv (fst (dequeue q))"
    using dequeue_refines [OF i] by auto
  show "contents (clear_queue q) = []" "bq_inv (clear_queue q)"
    using clear_queue_inv [OF i] by auto
qed simp_all

section \<open>Runs\<close>

datatype 'a queue_op = OpEnqueue 'a | OpDequeue | OpPeek | OpClear

text \<open>What a caller observes of one call.\<close>

datatype 'a observation = ObsEnqueue "'a enqueue_result" | ObsValue "'a option" | ObsCleared

fun bq_op :: "'a queue_op \<Rightarrow> 'a bounded_queue \<Rightarrow> 'a bounded_queue \<times> 'a observation" where
  "bq_op (OpEnqueue x) q = (case enqueue x q of (q', r) \<Rightarrow> (q', ObsEnqueue r))"
| "bq_op OpDequeue q = (case dequeue q of (q', v) \<Rightarrow> (q', ObsValue v))"
| "bq_op OpPeek q = (q, ObsValue (peek q))"
| "bq_op OpClear q = (clear_queue q, ObsCleared)"

fun spec_op :: "nat \<Rightarrow> overflow_policy \<Rightarrow> 'a queue_op \<Rightarrow> 'a list \<Rightarrow> 'a list \<times> 'a observation" where
  "spec_op c p (OpEnqueue x) xs = (case spec_enqueue c p x xs of (ys, r) \<Rightarrow> (ys, ObsEnqueue r))"
| "spec_op c p OpDequeue xs = (case spec_dequeue xs of (ys, v) \<Rightarrow> (ys, ObsValue v))"
| "spec_op c p OpPeek xs = (xs, ObsValue (case xs of [] \<Rightarrow> None | x # _ \<Rightarrow> Some x))"
| "spec_op c p OpClear xs = ([], ObsCleared)"

fun bq_run :: "'a queue_op list \<Rightarrow> 'a bounded_queue \<Rightarrow> 'a bounded_queue \<times> 'a observation list" where
  "bq_run [] q = (q, [])"
| "bq_run (op # ops) q =
     (let (q1, ob) = bq_op op q; (q2, obs) = bq_run ops q1 in (q2, ob # obs))"

fun spec_run ::
  "nat \<Rightarrow> overflow_policy \<Rightarrow> 'a queue_op list \<Rightarrow> 'a list \<Rightarrow> 'a list \<times> 'a observation list" where
  "spec_run c p [] xs = (xs, [])"
| "spec_run c p (op # ops) xs =
     (let (ys, ob) = spec_op c p op xs; (zs, obs) = spec_run c p ops ys in (zs, ob # obs))"

lemma bq_op_refines:
  assumes i: "bq_inv q" and r: "bq_op op q = (q', ob)"
  shows "bq_inv q' \<and> spec_op (bq_capacity q) (bq_overflow q) op (contents q) = (contents q', ob) \<and>
    bq_capacity q' = bq_capacity q \<and> bq_overflow q' = bq_overflow q"
proof (cases op)
  case (OpEnqueue x)
  obtain q1 res where e: "enqueue x q = (q1, res)" by (cases "enqueue x q")
  have "spec_enqueue (bq_capacity q) (bq_overflow q) x (contents q) = (contents q1, res)" "bq_inv q1"
    using enqueue_refines [OF i, of x] e by (metis fst_conv snd_conv)+
  with bq_frame(1,2) [of x q] e r OpEnqueue show ?thesis by auto
next
  case OpDequeue
  obtain q1 v where e: "dequeue q = (q1, v)" by (cases "dequeue q")
  have "spec_dequeue (contents q) = (contents q1, v)" "bq_inv q1"
    using dequeue_refines [OF i] e by (metis fst_conv snd_conv)+
  with bq_frame(3,4) [of q] e r OpDequeue show ?thesis by auto
next
  case OpPeek
  with r i peek_contents [OF i] show ?thesis by auto
next
  case OpClear
  with r i clear_queue_inv [OF i] show ?thesis by auto
qed

lemma bq_run_refines:
  "bq_inv q \<Longrightarrow> bq_run ops q = (q', obs) \<Longrightarrow>
   bq_inv q' \<and> bq_capacity q' = bq_capacity q \<and>
   spec_run (bq_capacity q) (bq_overflow q) ops (contents q) = (contents q', obs)"
proof (induction ops arbitrary: q q' obs)
  case (Cons op ops)
  obtain q1 ob where o: "bq_op op q = (q1, ob)" by (cases "bq_op op q")
  obtain q2 obs2 where r: "bq_run ops q1 = (q2, obs2)" by (cases "bq_run ops q1")
  from bq_op_refines [OF Cons.prems(1) o] Cons.IH [of q1, OF _ r] Cons.prems(2) o r
  show ?case by auto
qed simp

text \<open>
  C15. The circular buffer refines the specification: after construction, every sequence of enqueue,
  dequeue, peek and clear calls returns exactly what a list of at most \<open>capacity\<close> values with the
  same overflow policy returns, call by call; \<open>toArray\<close> then lists that list's values, oldest first
  and with no \<open>undefined\<close> hole, and \<open>size\<close> is its length, never more than the capacity.
\<close>

theorem bounded_queue_refines_list:
  assumes new: "new_bounded_queue c p = Inr q0"
    and run: "bq_run ops q0 = (q, obs)"
  shows "\<exists>xs. spec_run (nat_of_number c) p ops [] = (xs, obs) \<and> to_array q = map Some xs \<and>
              bq_size q = length xs \<and> length xs \<le> nat_of_number c"
proof -
  have q0: "bq_inv q0" "contents q0 = []" "bq_overflow q0 = p" "bq_capacity q0 = nat_of_number c"
    using new_bounded_queue_inv [OF new] by auto
  have r: "bq_inv q" "bq_capacity q = bq_capacity q0" "spec_run (nat_of_number c) p ops [] = (contents q, obs)"
    using bq_run_refines [OF q0(1) run] q0 by auto
  then have "bq_size q \<le> nat_of_number c" using q0 by (simp add: bq_inv_def)
  with r to_array_contents [OF r(1)] show ?thesis by auto
qed

theorem bounded_queue_refines_list_witness:
  "\<exists>q0 q obs. new_bounded_queue (Finite 2) DropOldest = Inr q0 \<and>
     bq_run [OpEnqueue 1, OpEnqueue 2, OpEnqueue (3::nat), OpDequeue] q0 = (q, obs) \<and>
     to_array q = [Some 3]"
proof -
  let ?ops = "[OpEnqueue 1, OpEnqueue 2, OpEnqueue (3::nat), OpDequeue]"
  obtain q0 :: "nat bounded_queue" where n: "new_bounded_queue (Finite 2) DropOldest = Inr q0"
    by (simp add: new_bounded_queue_def max_safe_def)
  obtain q obs where r: "bq_run ?ops q0 = (q, obs)" by (cases "bq_run ?ops q0")
  from bounded_queue_refines_list [OF n r] have "to_array q = [Some 3]"
    by (auto simp: nat_of_number_numeral max_safe_def)
  with n r show ?thesis by blast
qed

text \<open>
  The overflow policies, at a full queue: \<open>drop-oldest\<close> accepts, reports the oldest value as
  dropped and keeps the order of the rest; the other three refuse, hand the new value back under
  their own outcome and leave the queue as it was. Below the capacity every policy enqueues.
\<close>

theorem enqueue_overflow_policies:
  assumes i: "bq_inv q"
  shows "(\<not> bq_is_full q \<longrightarrow>
            snd (enqueue x q) = Enqueued \<and> contents (fst (enqueue x q)) = contents q @ [x]) \<and>
         (bq_is_full q \<longrightarrow>
            (case bq_overflow q of
               DropOldest \<Rightarrow> snd (enqueue x q) = DroppedOldest (peek q) \<and> peek q \<noteq> None \<and>
                             contents (fst (enqueue x q)) = tl (contents q) @ [x]
             | DropNewest \<Rightarrow> enqueue x q = (q, DroppedNewest x)
             | Reject \<Rightarrow> enqueue x q = (q, Rejected x)
             | CloseSession \<Rightarrow> enqueue x q = (q, ClosingSession x)))"
proof (cases "bq_is_full q")
  case True
  then have full: "bq_size q = bq_capacity q" "contents q \<noteq> []"
    using i by (auto simp: bq_is_full_def bq_inv_def simp flip: length_0_conv)
  show ?thesis
  proof (cases "bq_overflow q")
    case DropOldest
    with enqueue_oldest [OF i full(1) DropOldest, of x] True full peek_contents [OF i] show ?thesis
      by (auto split: list.splits)
  qed (use True in \<open>simp_all add: enqueue_def\<close>)
next
  case False
  then have "bq_size q < bq_capacity q" using i by (simp add: bq_is_full_def bq_inv_def)
  from enqueue_room [OF i this, of x] False show ?thesis by simp
qed

theorem enqueue_overflow_policies_witness:
  "enqueue (7::nat) \<lparr>bq_capacity = 1, bq_overflow = Reject, bq_items = [Some 5], bq_head = 0, bq_size = 1\<rparr> =
     (\<lparr>bq_capacity = 1, bq_overflow = Reject, bq_items = [Some 5], bq_head = 0, bq_size = 1\<rparr>, Rejected 7)"
  using enqueue_overflow_policies
    [of "\<lparr>bq_capacity = 1, bq_overflow = Reject, bq_items = [Some 5], bq_head = 0, bq_size = 1\<rparr>" "7::nat"]
  by (simp add: bq_inv_def array_get_def bq_is_full_def)

end
