(* ===== verification/Task_Scheduler.thy ===== *)
theory Task_Scheduler
  imports Prelude "HOL-Library.Multiset"
begin

text \<open>
  The bounded handler scheduler of \<open>packages/nest-webtransport/src/execution/bounded-task-scheduler.ts\<close>:
  at most \<open>maxConcurrent\<close> tasks run, at most \<open>maxPending\<close> wait in FIFO order, and the rest is refused
  by policy. The state is the object's fields and the promise chains that \<open>start\<close> has created and
  that have not reached their \<open>finally\<close> block (\<open>ts_running\<close>); a task is represented by a number and
  whether it was submitted with an \<open>onSettled\<close> callback. Each operation returns what an observer
  sees: the result of a submission, started tasks, calls of \<open>onSettled\<close>, and resolved waiters.
\<close>

datatype handler_overflow = DropTask | RejectTask | CloseSessionTask

datatype submission = Started | Queued | Dropped | Refused | CloseTheSession | Closed

record task =
  task_id :: nat
  has_on_settled :: bool

record scheduler =
  ts_max_concurrent :: int
  ts_max_pending :: int
  ts_overflow :: handler_overflow
  ts_pending :: "task list"
  ts_idle_waiters :: "nat list"
  ts_capacity_waiters :: "nat list"
  ts_active :: int
  ts_accepting :: bool
  ts_running :: "task list"

datatype observation =
    Submitted nat submission
  | TaskStarted nat
  | TaskSettled nat
  | CapacityResolved nat
  | IdleResolved nat

definition new_scheduler :: "int \<Rightarrow> int \<Rightarrow> handler_overflow \<Rightarrow> scheduler" where
  "new_scheduler maxConcurrent maxPending overflow =
     \<lparr>ts_max_concurrent = maxConcurrent, ts_max_pending = maxPending, ts_overflow = overflow,
      ts_pending = [], ts_idle_waiters = [], ts_capacity_waiters = [], ts_active = 0,
      ts_accepting = True, ts_running = []\<rparr>"

definition ts_capacity :: "scheduler \<Rightarrow> int" where
  "ts_capacity s = ts_max_concurrent s + ts_max_pending s"

definition has_capacity :: "scheduler \<Rightarrow> bool" where
  "has_capacity s \<longleftrightarrow> ts_accepting s \<and> ts_active s + int (length (ts_pending s)) < ts_capacity s"

definition is_idle :: "scheduler \<Rightarrow> bool" where
  "is_idle s \<longleftrightarrow> ts_active s = 0 \<and> ts_pending s = []"

definition start_task :: "task \<Rightarrow> scheduler \<Rightarrow> scheduler \<times> observation list" where
  "start_task t s =
     (s\<lparr>ts_active := ts_active s + 1, ts_running := ts_running s @ [t]\<rparr>, [TaskStarted (task_id t)])"

text \<open>
  \<open>settle\<close>: the callback's exceptions are swallowed, so the call has no other effect here. A callback
  that calls \<open>submit\<close> before it returns is excluded: in the \<open>finally\<close> block of \<open>start\<close> it would run
  between the decrement and the start of the next pending task. Every \<open>onSettled\<close> under \<open>src/\<close> gives a
  budget slot and bytes back and submits nothing.
\<close>

definition settle_task :: "task \<Rightarrow> observation list" where
  "settle_task t = (if has_on_settled t then [TaskSettled (task_id t)] else [])"

definition flush_waiters :: "scheduler \<Rightarrow> scheduler \<times> observation list" where
  "flush_waiters s =
     (let (s1, o1) =
            (if has_capacity s \<or> \<not> ts_accepting s then
               (s\<lparr>ts_capacity_waiters := []\<rparr>, map CapacityResolved (ts_capacity_waiters s))
             else (s, []));
          (s2, o2) =
            (if is_idle s1 then
               (s1\<lparr>ts_idle_waiters := []\<rparr>, map IdleResolved (ts_idle_waiters s1))
             else (s1, []))
      in (s2, o1 @ o2))"

definition submit_task :: "task \<Rightarrow> scheduler \<Rightarrow> scheduler \<times> submission \<times> observation list" where
  "submit_task t s =
     (if \<not> ts_accepting s then (s, Closed, [])
      else if ts_active s < ts_max_concurrent s then
        (let (s1, o1) = start_task t s in (s1, Started, o1))
      else if int (length (ts_pending s)) < ts_max_pending s then
        (s\<lparr>ts_pending := ts_pending s @ [t]\<rparr>, Queued, [])
      else
        (case ts_overflow s of
           DropTask \<Rightarrow> (s, Dropped, [])
         | RejectTask \<Rightarrow> (s, Refused, [])
         | CloseSessionTask \<Rightarrow> (s, CloseTheSession, [])))"

definition close_scheduler :: "bool \<Rightarrow> scheduler \<Rightarrow> scheduler \<times> observation list" where
  "close_scheduler discardPending s =
     (let s1 = s\<lparr>ts_accepting := False\<rparr>;
          (s2, o1) =
            (if discardPending then
               (s1\<lparr>ts_pending := []\<rparr>, concat (map settle_task (ts_pending s1)))
             else (s1, []));
          (s3, o2) = flush_waiters s2
      in (s3, o1 @ o2))"

text \<open>
  The \<open>finally\<close> block of the promise chain that runs task number \<open>i\<close>. By then the task and its error
  observer have settled, whatever they did.
\<close>

definition drop_running :: "nat \<Rightarrow> scheduler \<Rightarrow> scheduler" where
  "drop_running i s =
     s\<lparr>ts_active := ts_active s - 1,
       ts_running := take i (ts_running s) @ drop (Suc i) (ts_running s)\<rparr>"

definition start_next :: "scheduler \<Rightarrow> scheduler \<times> observation list" where
  "start_next s =
     (case ts_pending s of
        [] \<Rightarrow> (s, [])
      | n # rest \<Rightarrow> start_task n (s\<lparr>ts_pending := rest\<rparr>))"

definition task_finally :: "nat \<Rightarrow> scheduler \<Rightarrow> scheduler \<times> observation list" where
  "task_finally i s =
     (if i \<ge> length (ts_running s) then (s, [])
      else
        (let s1 = drop_running i s;
             o1 = settle_task (ts_running s ! i);
             (s2, o2) = start_next s1;
             (s3, o3) = flush_waiters s2
         in (s3, o1 @ o2 @ o3)))"

text \<open>
  \<open>whenCapacityAvailable\<close> and \<open>onIdle\<close> with a waiter number: either the promise is resolved at once or
  its \<open>finish\<close> function is registered. The test that the executor repeats after registering has
  the same value, because nothing runs in between.
\<close>

definition when_capacity_available :: "nat \<Rightarrow> bool \<Rightarrow> scheduler \<Rightarrow> scheduler \<times> observation list" where
  "when_capacity_available w aborted s =
     (if has_capacity s \<or> \<not> ts_accepting s \<or> aborted then (s, [CapacityResolved w])
      else (s\<lparr>ts_capacity_waiters := js_add w (ts_capacity_waiters s)\<rparr>, []))"

definition on_idle :: "nat \<Rightarrow> bool \<Rightarrow> scheduler \<Rightarrow> scheduler \<times> observation list" where
  "on_idle w aborted s =
     (if is_idle s \<or> aborted then (s, [IdleResolved w])
      else (s\<lparr>ts_idle_waiters := js_add w (ts_idle_waiters s)\<rparr>, []))"

text \<open>The abort listener of a registered waiter.\<close>

definition abort_waiter :: "nat \<Rightarrow> scheduler \<Rightarrow> scheduler \<times> observation list" where
  "abort_waiter w s =
     (s\<lparr>ts_capacity_waiters := js_delete w (ts_capacity_waiters s),
        ts_idle_waiters := js_delete w (ts_idle_waiters s)\<rparr>,
      (if w \<in> set (ts_capacity_waiters s) then [CapacityResolved w] else []) @
      (if w \<in> set (ts_idle_waiters s) then [IdleResolved w] else []))"

section \<open>The scheduler as a machine\<close>

datatype scheduler_event =
    SubmitTask task
  | TaskFinally nat
  | CloseScheduler bool
  | WaitCapacity nat bool
  | WaitIdle nat bool
  | AbortWaiter nat

fun sched_step :: "scheduler_event \<Rightarrow> scheduler \<Rightarrow> scheduler \<times> observation list" where
  "sched_step (SubmitTask t) s =
     (case submit_task t s of (s', r, os) \<Rightarrow> (s', Submitted (task_id t) r # os))"
| "sched_step (TaskFinally i) s = task_finally i s"
| "sched_step (CloseScheduler d) s = close_scheduler d s"
| "sched_step (WaitCapacity w a) s = when_capacity_available w a s"
| "sched_step (WaitIdle w a) s = on_idle w a s"
| "sched_step (AbortWaiter w) s = abort_waiter w s"

fun sched_run :: "scheduler_event list \<Rightarrow> scheduler \<Rightarrow> scheduler \<times> observation list" where
  "sched_run [] s = (s, [])"
| "sched_run (e # es) s =
     (let (s1, o1) = sched_step e s; (s2, o2) = sched_run es s1 in (s2, o1 @ o2))"

lemma sched_run_Cons:
  "fst (sched_run (e # es) s) = fst (sched_run es (fst (sched_step e s)))"
  "snd (sched_run (e # es) s) = snd (sched_step e s) @ snd (sched_run es (fst (sched_step e s)))"
  by (simp_all add: Let_def prod.case_eq_if)

declare sched_run.simps(2) [simp del] sched_run_Cons [simp]

lemma sched_run_fold: "fst (sched_run es s) = fold (\<lambda>e s. fst (sched_step e s)) es s"
  by (induction es arbitrary: s) auto

lemma sched_run_append:
  "fst (sched_run (es @ fs) s) = fst (sched_run fs (fst (sched_run es s)))"
  "snd (sched_run (es @ fs) s) = snd (sched_run es s) @ snd (sched_run fs (fst (sched_run es s)))"
  by (induction es arbitrary: s) auto

text \<open>
  The invariant: the counter counts the chains in flight, both bounds hold, work is never held back
  while a slot is free, and a registered waiter is still waiting for something to happen (no wakeup
  has been lost).
\<close>

definition sched_inv :: "scheduler \<Rightarrow> bool" where
  "sched_inv s \<longleftrightarrow>
     1 \<le> ts_max_concurrent s \<and> 0 \<le> ts_max_pending s \<and>
     ts_active s = int (length (ts_running s)) \<and>
     ts_active s \<le> ts_max_concurrent s \<and>
     int (length (ts_pending s)) \<le> ts_max_pending s \<and>
     (ts_pending s \<noteq> [] \<longrightarrow> ts_active s = ts_max_concurrent s) \<and>
     (ts_capacity_waiters s \<noteq> [] \<longrightarrow> ts_accepting s \<and> \<not> has_capacity s) \<and>
     (ts_idle_waiters s \<noteq> [] \<longrightarrow> \<not> is_idle s)"

lemmas scheduler_defs =
  submit_task_def start_task_def close_scheduler_def flush_waiters_def task_finally_def
  when_capacity_available_def on_idle_def abort_waiter_def has_capacity_def is_idle_def ts_capacity_def

lemma new_scheduler_limits:
  "ts_max_concurrent (new_scheduler c p ov) = c" "ts_max_pending (new_scheduler c p ov) = p"
  by (simp_all add: new_scheduler_def)

lemma new_scheduler_inv: "1 \<le> c \<Longrightarrow> 0 \<le> p \<Longrightarrow> sched_inv (new_scheduler c p ov)"
  by (simp add: new_scheduler_def sched_inv_def)

text \<open>\<open>flushWaiters\<close> re-establishes the two waiter clauses and touches nothing else.\<close>

lemma flush_waiters_fields [simp]:
  "ts_max_concurrent (fst (flush_waiters s)) = ts_max_concurrent s"
  "ts_max_pending (fst (flush_waiters s)) = ts_max_pending s"
  "ts_overflow (fst (flush_waiters s)) = ts_overflow s"
  "ts_pending (fst (flush_waiters s)) = ts_pending s"
  "ts_active (fst (flush_waiters s)) = ts_active s"
  "ts_accepting (fst (flush_waiters s)) = ts_accepting s"
  "ts_running (fst (flush_waiters s)) = ts_running s"
  by (auto simp: flush_waiters_def Let_def)

lemma flush_waiters_waiters:
  "ts_capacity_waiters (fst (flush_waiters s)) \<noteq> [] \<Longrightarrow> ts_accepting s \<and> \<not> has_capacity s"
  "ts_idle_waiters (fst (flush_waiters s)) \<noteq> [] \<Longrightarrow> \<not> is_idle s"
  by (auto simp: flush_waiters_def Let_def is_idle_def split: if_splits)

lemma flush_waiters_inv:
  assumes "1 \<le> ts_max_concurrent s" "0 \<le> ts_max_pending s"
    "ts_active s = int (length (ts_running s))" "ts_active s \<le> ts_max_concurrent s"
    "int (length (ts_pending s)) \<le> ts_max_pending s"
    "ts_pending s \<noteq> [] \<longrightarrow> ts_active s = ts_max_concurrent s"
  shows "sched_inv (fst (flush_waiters s))"
  using assms flush_waiters_waiters [of s]
  by (auto simp: sched_inv_def has_capacity_def is_idle_def ts_capacity_def)

lemma submit_task_inv: "sched_inv s \<Longrightarrow> sched_inv (fst (submit_task t s))"
  by (auto simp: sched_inv_def scheduler_defs split: handler_overflow.splits)

lemma task_finally_run:
  "i < length (ts_running s) \<Longrightarrow>
   task_finally i s =
     (fst (flush_waiters (fst (start_next (drop_running i s)))),
      settle_task (ts_running s ! i) @ snd (start_next (drop_running i s)) @
      snd (flush_waiters (fst (start_next (drop_running i s)))))"
  by (simp add: task_finally_def Let_def prod.case_eq_if)

lemma task_finally_none: "length (ts_running s) \<le> i \<Longrightarrow> task_finally i s = (s, [])"
  by (simp add: task_finally_def)

lemma task_finally_inv: "sched_inv s \<Longrightarrow> sched_inv (fst (task_finally i s))"
proof (cases "i < length (ts_running s)")
  case True
  assume inv: "sched_inv s"
  show ?thesis
    unfolding task_finally_run [OF True] fst_conv
    by (rule flush_waiters_inv)
      (use inv True in \<open>auto simp: sched_inv_def start_next_def drop_running_def start_task_def
         split: list.splits\<close>)
qed (simp add: task_finally_none)

lemma close_scheduler_run:
  "close_scheduler d s =
     (let s2 = s\<lparr>ts_accepting := False, ts_pending := (if d then [] else ts_pending s)\<rparr>
      in (fst (flush_waiters s2),
          (if d then concat (map settle_task (ts_pending s)) else []) @ snd (flush_waiters s2)))"
  by (simp add: close_scheduler_def Let_def prod.case_eq_if)

lemma close_scheduler_inv: "sched_inv s \<Longrightarrow> sched_inv (fst (close_scheduler d s))"
  unfolding close_scheduler_run Let_def fst_conv
  by (rule flush_waiters_inv) (auto simp: sched_inv_def)

lemma waiter_ops_inv:
  "sched_inv s \<Longrightarrow> sched_inv (fst (when_capacity_available w a s))"
  "sched_inv s \<Longrightarrow> sched_inv (fst (on_idle w a s))"
  "sched_inv s \<Longrightarrow> sched_inv (fst (abort_waiter w s))"
  by (auto simp: sched_inv_def scheduler_defs js_delete_def)

lemma sched_step_submit:
  "fst (sched_step (SubmitTask t) s) = fst (submit_task t s)"
  "snd (sched_step (SubmitTask t) s) =
     Submitted (task_id t) (fst (snd (submit_task t s))) # snd (snd (submit_task t s))"
  by (simp_all add: prod.case_eq_if)

declare sched_step.simps(1) [simp del] sched_step_submit [simp]

lemma sched_step_inv: "sched_inv s \<Longrightarrow> sched_inv (fst (sched_step e s))"
  by (cases e) (auto simp: waiter_ops_inv task_finally_inv close_scheduler_inv submit_task_inv)

interpretation sched: event_system "\<lambda>e s. fst (sched_step e s)" sched_inv
  by unfold_locales (rule sched_step_inv)

lemma sched_run_inv: "sched_inv s \<Longrightarrow> sched_inv (fst (sched_run es s))"
  by (simp add: sched_run_fold sched.run_inv)

section \<open>What an observer sees\<close>

fun accepted_ids :: "observation list \<Rightarrow> nat list" where
  "accepted_ids [] = []"
| "accepted_ids (Submitted i r # os) =
     (if r = Started \<or> r = Queued then i # accepted_ids os else accepted_ids os)"
| "accepted_ids (_ # os) = accepted_ids os"

fun started_ids :: "observation list \<Rightarrow> nat list" where
  "started_ids [] = []"
| "started_ids (TaskStarted i # os) = i # started_ids os"
| "started_ids (_ # os) = started_ids os"

fun settled_ids :: "observation list \<Rightarrow> nat list" where
  "settled_ids [] = []"
| "settled_ids (TaskSettled i # os) = i # settled_ids os"
| "settled_ids (_ # os) = settled_ids os"

lemma ids_append [simp]:
  "accepted_ids (os @ os') = accepted_ids os @ accepted_ids os'"
  "started_ids (os @ os') = started_ids os @ started_ids os'"
  "settled_ids (os @ os') = settled_ids os @ settled_ids os'"
  by (induction os rule: started_ids.induct) simp_all

lemma ids_waiters [simp]:
  "accepted_ids (map CapacityResolved ws) = []" "accepted_ids (map IdleResolved ws) = []"
  "started_ids (map CapacityResolved ws) = []" "started_ids (map IdleResolved ws) = []"
  "settled_ids (map CapacityResolved ws) = []" "settled_ids (map IdleResolved ws) = []"
  by (induction ws) simp_all

lemma ids_flush [simp]:
  "accepted_ids (snd (flush_waiters s)) = []" "started_ids (snd (flush_waiters s)) = []"
  "settled_ids (snd (flush_waiters s)) = []"
  by (auto simp: flush_waiters_def Let_def)

lemma ids_settle [simp]:
  "accepted_ids (settle_task t) = []" "started_ids (settle_task t) = []"
  "settled_ids (settle_task t) = (if has_on_settled t then [task_id t] else [])"
  by (auto simp: settle_task_def)

lemma ids_settle_all [simp]:
  "accepted_ids (concat (map settle_task ts)) = []" "started_ids (concat (map settle_task ts)) = []"
  "\<forall>t \<in> set ts. has_on_settled t \<Longrightarrow> settled_ids (concat (map settle_task ts)) = map task_id ts"
  by (induction ts) auto

text \<open>Every task the scheduler holds was submitted with an \<open>onSettled\<close> callback.\<close>

definition all_observed :: "scheduler \<Rightarrow> bool" where
  "all_observed s \<longleftrightarrow> (\<forall>t \<in> set (ts_running s) \<union> set (ts_pending s). has_on_settled t)"

definition observed_event :: "scheduler_event \<Rightarrow> bool" where
  "observed_event e = (case e of SubmitTask t \<Rightarrow> has_on_settled t | _ \<Rightarrow> True)"

lemma remove_nth_mset:
  "i < length xs \<Longrightarrow> add_mset (f (xs ! i)) (mset (map f (take i xs)) + mset (map f (drop (Suc i) xs))) = mset (map f xs)"
  by (subst (4) id_take_nth_drop [of i xs]) auto

lemma step_conserves:
  assumes "all_observed s" and "observed_event e"
  shows "all_observed (fst (sched_step e s)) \<and>
     mset (accepted_ids (snd (sched_step e s))) + mset (map task_id (ts_running s)) +
       mset (map task_id (ts_pending s)) =
     mset (map task_id (ts_running (fst (sched_step e s)))) +
       mset (map task_id (ts_pending (fst (sched_step e s)))) +
       mset (settled_ids (snd (sched_step e s)))"
proof (cases e)
  case (SubmitTask t)
  with assms show ?thesis
    by (auto simp: submit_task_def start_task_def all_observed_def observed_event_def
        split: handler_overflow.splits)
next
  case (TaskFinally i)
  show ?thesis
  proof (cases "i < length (ts_running s)")
    case True
    have in_set: "t \<in> set (take i (ts_running s)) \<union> set (drop (Suc i) (ts_running s)) \<Longrightarrow>
        t \<in> set (ts_running s)" for t
      by (auto dest: in_set_takeD in_set_dropD)
    have obs: "has_on_settled (ts_running s ! i)"
      using assms(1) True by (auto simp: all_observed_def)
    from in_set obs assms(1) remove_nth_mset [OF True, of task_id] TaskFinally True show ?thesis
      by (auto simp: task_finally_run start_next_def drop_running_def start_task_def all_observed_def
          split: list.splits)
  qed (use assms TaskFinally in \<open>auto simp: task_finally_none\<close>)
next
  case (CloseScheduler d)
  with assms show ?thesis by (auto simp: close_scheduler_run Let_def all_observed_def)
qed (use assms in \<open>auto simp: when_capacity_available_def on_idle_def abort_waiter_def all_observed_def\<close>)

lemma run_conserves:
  assumes "all_observed s" and "\<forall>e \<in> set es. observed_event e"
  shows "mset (accepted_ids (snd (sched_run es s))) + mset (map task_id (ts_running s)) +
       mset (map task_id (ts_pending s)) =
     mset (map task_id (ts_running (fst (sched_run es s)))) +
       mset (map task_id (ts_pending (fst (sched_run es s)))) +
       mset (settled_ids (snd (sched_run es s)))"
  using assms
proof (induction es arbitrary: s)
  case (Cons e es)
  note st = step_conserves [OF Cons.prems(1), of e]
  from st Cons.prems(2) have "all_observed (fst (sched_step e s))" by simp
  from Cons.IH [OF this] Cons.prems(2) show ?case
    unfolding sched_run_Cons ids_append mset_append
    by (intro chain_balance [OF conjunct2 [OF st]]) simp_all
qed simp

lemma step_fifo:
  assumes "sched_inv s" and "e \<noteq> CloseScheduler True"
  shows "started_ids (snd (sched_step e s)) @ map task_id (ts_pending (fst (sched_step e s))) =
         map task_id (ts_pending s) @ accepted_ids (snd (sched_step e s))"
proof (cases e)
  case (SubmitTask t)
  with assms(1) show ?thesis
    by (auto simp: submit_task_def start_task_def sched_inv_def split: handler_overflow.splits)
next
  case (TaskFinally i)
  then show ?thesis
    by (cases "i < length (ts_running s)")
      (auto simp: task_finally_run task_finally_none start_next_def drop_running_def start_task_def
        split: list.splits)
next
  case (CloseScheduler d)
  with assms show ?thesis by (simp add: close_scheduler_run Let_def)
qed (auto simp: when_capacity_available_def on_idle_def abort_waiter_def)

lemma run_fifo:
  assumes "sched_inv s" and "CloseScheduler True \<notin> set es"
  shows "started_ids (snd (sched_run es s)) @ map task_id (ts_pending (fst (sched_run es s))) =
         map task_id (ts_pending s) @ accepted_ids (snd (sched_run es s))"
  using assms
proof (induction es arbitrary: s)
  case (Cons e es)
  then have "started_ids (snd (sched_step e s)) @ map task_id (ts_pending (fst (sched_step e s))) =
      map task_id (ts_pending s) @ accepted_ids (snd (sched_step e s))"
    by (intro step_fifo) auto
  with Cons.IH [OF sched_step_inv [OF Cons.prems(1)], of e] Cons.prems(2) show ?case
    by simp
qed simp

section \<open>Draining\<close>

lemma idle_waiter_kept_or_resolved:
  "w \<in> set (ts_idle_waiters s) \<Longrightarrow>
   w \<in> set (ts_idle_waiters (fst (task_finally i s))) \<or> IdleResolved w \<in> set (snd (task_finally i s))"
  by (cases "i < length (ts_running s)")
    (auto simp: task_finally_run task_finally_none flush_waiters_def start_next_def drop_running_def
      start_task_def Let_def split: list.splits)

lemma running_nonempty: "sched_inv s \<Longrightarrow> ts_running s = [] \<Longrightarrow> ts_pending s = []"
  by (auto simp: sched_inv_def)

lemma finally_measure:
  "0 < length (ts_running s) \<Longrightarrow>
   length (ts_running (fst (task_finally 0 s))) + length (ts_pending (fst (task_finally 0 s))) =
   length (ts_running s) + length (ts_pending s) - 1"
  by (auto simp: task_finally_run start_next_def drop_running_def start_task_def split: list.splits)

lemma drain_to_idle:
  assumes "sched_inv s" and "n = length (ts_running s) + length (ts_pending s)"
  shows "let r = sched_run (replicate n (TaskFinally 0)) s in
     is_idle (fst r) \<and> ts_running (fst r) = [] \<and> ts_idle_waiters (fst r) = [] \<and>
     (\<forall>w \<in> set (ts_idle_waiters s). IdleResolved w \<in> set (snd r))"
  using assms
proof (induction n arbitrary: s)
  case 0
  then show ?case by (auto simp: sched_inv_def is_idle_def)
next
  case (Suc n)
  have ne: "0 < length (ts_running s)"
    using Suc.prems running_nonempty [OF Suc.prems(1)] by (cases "ts_running s") auto
  have inv: "sched_inv (fst (task_finally 0 s))" by (rule task_finally_inv [OF Suc.prems(1)])
  have "n = length (ts_running (fst (task_finally 0 s))) + length (ts_pending (fst (task_finally 0 s)))"
    using finally_measure [OF ne] Suc.prems(2) by simp
  from Suc.IH [OF inv this] idle_waiter_kept_or_resolved [of _ s 0] show ?case
    by (auto simp: Let_def)
qed

section \<open>The properties\<close>

text \<open>
  C13. For every sequence of submissions, task completions in any order, closes, waits and waiter
  aborts, a scheduler built with valid limits keeps its bounds: the running tasks are counted
  exactly and never exceed \<open>maxConcurrent\<close>, the waiting tasks never exceed \<open>maxPending\<close>, no task waits
  while a slot is free, and no wakeup is lost, that is, a waiter is registered only while the
  condition it waits for is false.
\<close>

theorem scheduler_safe:
  assumes "1 \<le> c" and "0 \<le> p"
  shows "let s = fst (sched_run es (new_scheduler c p ov)) in
     ts_active s = int (length (ts_running s)) \<and> ts_active s \<le> c \<and>
     int (length (ts_pending s)) \<le> p \<and>
     (ts_pending s \<noteq> [] \<longrightarrow> ts_active s = c) \<and>
     (ts_capacity_waiters s \<noteq> [] \<longrightarrow> ts_accepting s \<and> \<not> has_capacity s) \<and>
     (ts_idle_waiters s \<noteq> [] \<longrightarrow> \<not> is_idle s)"
proof -
  have frame: "ts_max_concurrent (fst (sched_step e s)) = ts_max_concurrent s \<and>
      ts_max_pending (fst (sched_step e s)) = ts_max_pending s" for e s
    by (cases e)
      (auto simp: submit_task_def start_task_def task_finally_def drop_running_def start_next_def
        close_scheduler_run when_capacity_available_def on_idle_def abort_waiter_def Let_def
        prod.case_eq_if split: handler_overflow.splits list.splits)
  have "ts_max_concurrent (fst (sched_run es s)) = ts_max_concurrent s \<and>
      ts_max_pending (fst (sched_run es s)) = ts_max_pending s" for s
    by (induction es arbitrary: s) (simp_all add: frame)
  from this [of "new_scheduler c p ov"] have
    m: "ts_max_concurrent (fst (sched_run es (new_scheduler c p ov))) = c"
       "ts_max_pending (fst (sched_run es (new_scheduler c p ov))) = p"
    by (simp_all only: new_scheduler_limits)
  have "sched_inv (fst (sched_run es (new_scheduler c p ov)))"
    by (rule sched_run_inv [OF new_scheduler_inv [OF assms]])
  then show ?thesis unfolding sched_inv_def m Let_def by blast
qed

theorem scheduler_safe_witness:
  "ts_active (fst (sched_run (map (\<lambda>i. SubmitTask \<lparr>task_id = i, has_on_settled = True\<rparr>) [0, 1, 2])
      (new_scheduler 1 1 DropTask))) \<le> 1"
  using scheduler_safe [of 1 1 "map (\<lambda>i. SubmitTask \<lparr>task_id = i, has_on_settled = True\<rparr>) [0, 1, 2]" DropTask]
  unfolding Let_def by linarith

text \<open>
  C14. Work is conserved: when every task is submitted with an \<open>onSettled\<close> callback, then after any
  run the accepted tasks are, as a multiset, the running tasks, the waiting tasks and the tasks whose
  callback was called; so the callback of an accepted task is called exactly once, whether the task
  ran or was discarded, and a refused submission is never started nor settled by the scheduler.
\<close>

theorem scheduler_conserves_tasks:
  assumes "\<forall>e \<in> set es. observed_event e"
  shows "let (s, os) = sched_run es (new_scheduler c p ov) in
     mset (accepted_ids os) =
       mset (map task_id (ts_running s)) + mset (map task_id (ts_pending s)) + mset (settled_ids os)"
  using run_conserves [of "new_scheduler c p ov" es] assms
  by (simp add: Let_def prod.case_eq_if all_observed_def new_scheduler_def)

theorem scheduler_conserves_tasks_witness:
  "settled_ids (snd (sched_run
      [SubmitTask \<lparr>task_id = 7, has_on_settled = True\<rparr>, TaskFinally 0] (new_scheduler 1 0 DropTask))) = [7]"
proof -
  let ?es = "[SubmitTask \<lparr>task_id = 7, has_on_settled = True\<rparr>, TaskFinally 0]"
  have h: "\<forall>e \<in> set ?es. observed_event e" by (simp add: observed_event_def)
  have e: "snd (sched_run ?es (new_scheduler 1 0 DropTask)) =
      [Submitted 7 Started, TaskStarted 7, TaskSettled 7]"
    by (simp add: new_scheduler_def submit_task_def start_task_def task_finally_def drop_running_def
        start_next_def settle_task_def flush_waiters_def has_capacity_def ts_capacity_def is_idle_def)
  from scheduler_conserves_tasks [OF h, of 1 0 DropTask] show ?thesis
    unfolding e by (simp add: Let_def prod.case_eq_if e)
qed

text \<open>
  Tasks start in the order in which they were accepted: without a discarding close, the started
  tasks followed by the waiting ones are exactly the accepted ones, in order.
\<close>

theorem scheduler_fifo:
  assumes "1 \<le> c" and "0 \<le> p" and "CloseScheduler True \<notin> set es"
  shows "let (s, os) = sched_run es (new_scheduler c p ov) in
     started_ids os @ map task_id (ts_pending s) = accepted_ids os"
  using run_fifo [OF new_scheduler_inv [OF assms(1,2)] assms(3), of ov]
  by (simp add: Let_def prod.case_eq_if new_scheduler_def)

theorem scheduler_fifo_witness:
  "started_ids (snd (sched_run (map (\<lambda>i. SubmitTask \<lparr>task_id = i, has_on_settled = True\<rparr>) [4, 5])
      (new_scheduler 2 0 DropTask))) = [4, 5]"
  using scheduler_fifo [of 2 0 "map (\<lambda>i. SubmitTask \<lparr>task_id = i, has_on_settled = True\<rparr>) [4, 5]" DropTask]
  by (simp add: new_scheduler_def submit_task_def start_task_def Let_def)

text \<open>
  C29. The scheduler drains: from any state reachable with valid limits, once every task that is
  running or waiting has come to its end, the scheduler is idle, nothing runs, and every promise that
  waited for idleness has been resolved.
\<close>

theorem scheduler_drains:
  assumes "1 \<le> c" and "0 \<le> p" and "s = fst (sched_run es (new_scheduler c p ov))"
  shows "let r = sched_run (replicate (length (ts_running s) + length (ts_pending s)) (TaskFinally 0)) s in
     is_idle (fst r) \<and> ts_running (fst r) = [] \<and> ts_idle_waiters (fst r) = [] \<and>
     (\<forall>w \<in> set (ts_idle_waiters s). IdleResolved w \<in> set (snd r))"
  using drain_to_idle [OF sched_run_inv [OF new_scheduler_inv [OF assms(1,2)], of es ov] refl] assms(3)
  by simp

theorem scheduler_drains_witness:
  "\<exists>s. s = fst (sched_run [SubmitTask \<lparr>task_id = 3, has_on_settled = True\<rparr>, WaitIdle 9 False]
            (new_scheduler 1 0 DropTask)) \<and> ts_idle_waiters s = [9] \<and>
       IdleResolved 9 \<in> set (snd (sched_run (replicate (length (ts_running s) + length (ts_pending s)) (TaskFinally 0)) s))"
proof -
  define s where "s = fst (sched_run [SubmitTask \<lparr>task_id = 3, has_on_settled = True\<rparr>, WaitIdle 9 False]
            (new_scheduler 1 0 DropTask))"
  have w: "ts_idle_waiters s = [9]"
    by (simp add: s_def new_scheduler_def submit_task_def start_task_def on_idle_def is_idle_def js_add_def)
  show ?thesis
    using scheduler_drains [of 1 0 s, OF _ _ s_def] w s_def by (auto simp: Let_def)
qed

end
