(* ===== verification/Handler_Budget.thy ===== *)
theory Handler_Budget
  imports Permits "HOL-Library.Multiset" "HOL-Library.Sublist"
begin

text \<open>
  The server-wide handler budget of \<open>packages/nest-webtransport/src/server/handler-budget.ts\<close>. It has
  two halves: reservations (at most \<open>concurrency + pending\<close>, handed out as release closures, the
  second implementation of the permit interface), and running slots (at most \<open>concurrency\<close>, for which
  callers of \<open>run\<close> wait in FIFO order). A call of \<open>run\<close> is identified by its number; \<open>hb_in_flight\<close> are
  the calls that have a slot and have not reached their \<open>finally\<close> block.
\<close>

record handler_budget =
  hb_concurrency :: int
  hb_pending :: int
  hb_reserved :: int
  hb_running :: int
  hb_waiters :: "nat list"
  hb_released :: "bool list"
  hb_next_run :: nat
  hb_in_flight :: "nat list"

datatype run_observation = RunGranted nat | RunRejected nat | RunEnded nat

definition new_handler_budget :: "int \<Rightarrow> int \<Rightarrow> handler_budget" where
  "new_handler_budget concurrency pending =
     \<lparr>hb_concurrency = concurrency, hb_pending = pending, hb_reserved = 0, hb_running = 0,
      hb_waiters = [], hb_released = [], hb_next_run = 0, hb_in_flight = []\<rparr>"

section \<open>Reservations\<close>

definition hb_reserve :: "handler_budget \<Rightarrow> handler_budget \<times> nat option" where
  "hb_reserve s =
     (if hb_reserved s \<ge> hb_concurrency s + hb_pending s then (s, None)
      else (s\<lparr>hb_reserved := hb_reserved s + 1, hb_released := hb_released s @ [False]\<rparr>,
            Some (length (hb_released s))))"

definition hb_release :: "nat \<Rightarrow> handler_budget \<Rightarrow> handler_budget" where
  "hb_release i s =
     (if i \<ge> length (hb_released s) \<or> hb_released s ! i then s
      else s\<lparr>hb_released := (hb_released s)[i := True], hb_reserved := hb_reserved s - 1\<rparr>)"

definition hb_capacity :: "handler_budget \<Rightarrow> int" where
  "hb_capacity s = hb_concurrency s + hb_pending s"

interpretation hb: permit_pool hb_reserve hb_release hb_released hb_reserved hb_capacity
  by unfold_locales (auto simp: hb_reserve_def hb_release_def hb_capacity_def list_update_True)

section \<open>Running slots\<close>

definition grant_run :: "nat \<Rightarrow> handler_budget \<Rightarrow> handler_budget" where
  "grant_run w s =
     s\<lparr>hb_waiters := js_delete w (hb_waiters s), hb_running := hb_running s + 1,
       hb_in_flight := hb_in_flight s @ [w]\<rparr>"

text \<open>\<open>wake\<close>: the loop over the set of waiters; each grant removes itself from the set.\<close>

fun wake_loop :: "nat list \<Rightarrow> handler_budget \<Rightarrow> handler_budget \<times> run_observation list" where
  "wake_loop [] s = (s, [])"
| "wake_loop (w # ws) s =
     (if hb_running s \<ge> hb_concurrency s then (s, [])
      else (let (s1, os) = wake_loop ws (grant_run w s) in (s1, RunGranted w # os)))"

definition wake :: "handler_budget \<Rightarrow> handler_budget \<times> run_observation list" where
  "wake s = wake_loop (hb_waiters s) s"

text \<open>\<open>acquire\<close>, called by \<open>run\<close> with a signal that is aborted or not.\<close>

definition run_acquire :: "bool \<Rightarrow> handler_budget \<Rightarrow> handler_budget \<times> run_observation list" where
  "run_acquire aborted s0 =
     (let w = hb_next_run s0; s = s0\<lparr>hb_next_run := Suc w\<rparr> in
      if aborted then (s, [RunRejected w])
      else if hb_running s < hb_concurrency s \<and> hb_waiters s = [] then
        (s\<lparr>hb_running := hb_running s + 1, hb_in_flight := hb_in_flight s @ [w]\<rparr>, [RunGranted w])
      else (s\<lparr>hb_waiters := js_add w (hb_waiters s)\<rparr>, []))"

text \<open>The abort listener of a waiting call: a call that has its slot has removed the listener.\<close>

definition run_abort :: "nat \<Rightarrow> handler_budget \<Rightarrow> handler_budget \<times> run_observation list" where
  "run_abort w s =
     (if w \<notin> set (hb_waiters s) then (s, [])
      else (let (s1, os) = wake (s\<lparr>hb_waiters := js_delete w (hb_waiters s)\<rparr>)
            in (s1, RunRejected w # os)))"

text \<open>
  The \<open>finally\<close> block of a call that has its slot: the task has settled, or was not started because
  the signal was aborted between the grant and the continuation of \<open>run\<close>.
\<close>

definition run_finally :: "nat \<Rightarrow> handler_budget \<Rightarrow> handler_budget \<times> run_observation list" where
  "run_finally w s =
     (if w \<notin> set (hb_in_flight s) then (s, [])
      else (let (s1, os) = wake (s\<lparr>hb_running := hb_running s - 1,
                                   hb_in_flight := js_delete w (hb_in_flight s)\<rparr>)
            in (s1, RunEnded w # os)))"

section \<open>The budget as a machine\<close>

datatype budget_event =
    ReserveBudget
  | ReleaseBudget nat
  | RunBegin bool
  | RunAbort nat
  | RunFinally nat

fun budget_step :: "budget_event \<Rightarrow> handler_budget \<Rightarrow> handler_budget \<times> run_observation list" where
  "budget_step ReserveBudget s = (fst (hb_reserve s), [])"
| "budget_step (ReleaseBudget i) s = (hb_release i s, [])"
| "budget_step (RunBegin aborted) s = run_acquire aborted s"
| "budget_step (RunAbort w) s = run_abort w s"
| "budget_step (RunFinally w) s = run_finally w s"

fun budget_run :: "budget_event list \<Rightarrow> handler_budget \<Rightarrow> handler_budget \<times> run_observation list" where
  "budget_run [] s = (s, [])"
| "budget_run (e # es) s =
     (let (s1, o1) = budget_step e s; (s2, o2) = budget_run es s1 in (s2, o1 @ o2))"

lemma budget_run_Cons:
  "fst (budget_run (e # es) s) = fst (budget_run es (fst (budget_step e s)))"
  "snd (budget_run (e # es) s) = snd (budget_step e s) @ snd (budget_run es (fst (budget_step e s)))"
  by (simp_all add: Let_def prod.case_eq_if)

declare budget_run.simps(2) [simp del] budget_run_Cons [simp]

lemma budget_run_fold: "fst (budget_run es s) = fold (\<lambda>e s. fst (budget_step e s)) es s"
  by (induction es arbitrary: s) auto

text \<open>
  The invariant: the counter counts the calls in flight and respects the concurrency, somebody waits
  only while every slot is taken, and call numbers are fresh and in one place at a time.
\<close>

definition budget_inv :: "handler_budget \<Rightarrow> bool" where
  "budget_inv s \<longleftrightarrow>
     1 \<le> hb_concurrency s \<and> 0 \<le> hb_pending s \<and> hb.balanced s \<and>
     hb_running s = int (length (hb_in_flight s)) \<and>
     hb_running s \<le> hb_concurrency s \<and>
     (hb_waiters s \<noteq> [] \<longrightarrow> hb_running s = hb_concurrency s) \<and>
     distinct (hb_waiters s @ hb_in_flight s) \<and>
     (\<forall>w \<in> set (hb_waiters s) \<union> set (hb_in_flight s). w < hb_next_run s)"

lemma new_handler_budget_inv: "1 \<le> c \<Longrightarrow> 0 \<le> p \<Longrightarrow> budget_inv (new_handler_budget c p)"
  by (simp add: new_handler_budget_def budget_inv_def hb.balanced_def hb_capacity_def)

text \<open>
  \<open>wake\<close> on distinct waiters grants a prefix of them, as many as there are free slots.
\<close>

lemma js_delete_hd: "distinct (w # ws) \<Longrightarrow> js_delete w (w # ws) = ws"
  by (auto simp: js_delete_def filter_id_conv)

lemma wake_loop_prefix:
  assumes "hb_waiters s = ws" and "distinct ws" and "hb_running s \<le> hb_concurrency s"
  shows "let k = min (length ws) (nat (hb_concurrency s - hb_running s)) in
     wake_loop ws s =
       (s\<lparr>hb_waiters := drop k ws, hb_running := hb_running s + int k,
          hb_in_flight := hb_in_flight s @ take k ws\<rparr>, map RunGranted (take k ws))"
  using assms
proof (induction ws arbitrary: s)
  case (Cons w ws)
  show ?case
  proof (cases "hb_running s \<ge> hb_concurrency s")
    case True
    then show ?thesis using Cons.prems by (simp add: Let_def)
  next
    case False
    let ?s = "grant_run w s"
    have g: "hb_waiters ?s = ws" "hb_running ?s = hb_running s + 1" "hb_concurrency ?s = hb_concurrency s"
      "hb_in_flight ?s = hb_in_flight s @ [w]"
      using Cons.prems js_delete_hd [of w ws] by (simp_all add: grant_run_def)
    define k where "k = min (length ws) (nat (hb_concurrency s - hb_running s - 1))"
    have k: "min (length (w # ws)) (nat (hb_concurrency s - hb_running s)) = Suc k"
      using False by (simp add: k_def min_def) arith
    have "wake_loop ws ?s =
       (?s\<lparr>hb_waiters := drop k ws, hb_running := hb_running ?s + int k,
          hb_in_flight := hb_in_flight ?s @ take k ws\<rparr>, map RunGranted (take k ws))"
      using Cons.IH [OF g(1)] Cons.prems False g unfolding k_def by (simp add: Let_def diff_diff_eq)
    then show ?thesis
      unfolding Let_def k using False g Cons.prems by (simp add: grant_run_def algebra_simps)
  qed
qed (simp add: Let_def)

lemma wake_eq:
  assumes "distinct (hb_waiters s)" and "hb_running s \<le> hb_concurrency s"
  obtains k where "k = min (length (hb_waiters s)) (nat (hb_concurrency s - hb_running s))"
    and "wake s = (s\<lparr>hb_waiters := drop k (hb_waiters s), hb_running := hb_running s + int k,
          hb_in_flight := hb_in_flight s @ take k (hb_waiters s)\<rparr>,
        map RunGranted (take k (hb_waiters s)))"
  using wake_loop_prefix [OF refl assms] by (auto simp: wake_def Let_def)

lemma balanced_frame:
  "hb.balanced (s\<lparr>hb_waiters := a, hb_running := b, hb_in_flight := c\<rparr>) = hb.balanced s"
  by (simp add: hb.balanced_def hb_capacity_def)

lemma wake_inv:
  assumes "1 \<le> hb_concurrency s" "0 \<le> hb_pending s" "hb.balanced s"
    "hb_running s = int (length (hb_in_flight s))" "hb_running s \<le> hb_concurrency s"
    "distinct (hb_waiters s @ hb_in_flight s)"
    "\<forall>w \<in> set (hb_waiters s) \<union> set (hb_in_flight s). w < hb_next_run s"
  shows "budget_inv (fst (wake s))"
proof -
  from assms(6) have d: "distinct (hb_waiters s)" by simp
  from wake_eq [OF d assms(5)] obtain k
    where k: "k = min (length (hb_waiters s)) (nat (hb_concurrency s - hb_running s))"
      and w: "fst (wake s) = s\<lparr>hb_waiters := drop k (hb_waiters s), hb_running := hb_running s + int k,
          hb_in_flight := hb_in_flight s @ take k (hb_waiters s)\<rparr>"
    by (metis fst_conv)
  have "distinct (take k (hb_waiters s) @ drop k (hb_waiters s))"
    using d by simp
  then have dd: "set (take k (hb_waiters s)) \<inter> set (drop k (hb_waiters s)) = {}"
    unfolding distinct_append by simp
  have room: "hb_running s + int k \<le> hb_concurrency s" using k assms(5) by simp
  have full: "drop k (hb_waiters s) \<noteq> [] \<longrightarrow> hb_running s + int k = hb_concurrency s"
    using k assms(5) by (auto simp: min_def split: if_splits)
  show ?thesis
    unfolding w budget_inv_def balanced_frame
    using assms d dd room full k
    by (auto dest: in_set_takeD in_set_dropD)
qed

lemma run_acquire_inv: "budget_inv s \<Longrightarrow> budget_inv (fst (run_acquire a s))"
  by (auto simp: budget_inv_def run_acquire_def Let_def hb.balanced_def hb_capacity_def js_add_def
      less_Suc_eq)

lemma run_abort_inv: "budget_inv s \<Longrightarrow> budget_inv (fst (run_abort w s))"
proof (cases "w \<in> set (hb_waiters s)")
  case True
  assume i: "budget_inv s"
  have "budget_inv (fst (wake (s\<lparr>hb_waiters := js_delete w (hb_waiters s)\<rparr>)))"
    by (rule wake_inv) (use i in \<open>auto simp: budget_inv_def hb.balanced_def hb_capacity_def\<close>)
  with True show ?thesis by (simp add: run_abort_def prod.case_eq_if Let_def)
qed (simp add: run_abort_def)

lemma run_finally_inv: "budget_inv s \<Longrightarrow> budget_inv (fst (run_finally w s))"
proof (cases "w \<in> set (hb_in_flight s)")
  case True
  assume i: "budget_inv s"
  then have "int (length (js_delete w (hb_in_flight s))) = hb_running s - 1"
    using True by (auto simp: budget_inv_def length_js_delete) (use True in \<open>cases "hb_in_flight s"; auto\<close>)
  then have "budget_inv (fst (wake (s\<lparr>hb_running := hb_running s - 1,
      hb_in_flight := js_delete w (hb_in_flight s)\<rparr>)))"
    by (intro wake_inv) (use i in \<open>auto simp: budget_inv_def hb.balanced_def hb_capacity_def\<close>)
  with True show ?thesis by (simp add: run_finally_def prod.case_eq_if Let_def)
qed (simp add: run_finally_def)

lemma reserve_inv: "budget_inv s \<Longrightarrow> budget_inv (fst (hb_reserve s))"
  using hb.balanced_acquire [of s] by (auto simp: budget_inv_def hb_reserve_def)

lemma budget_release_inv: "budget_inv s \<Longrightarrow> budget_inv (hb_release i s)"
  using hb.balanced_release [of s i] by (auto simp: budget_inv_def hb_release_def)

lemma budget_step_inv: "budget_inv s \<Longrightarrow> budget_inv (fst (budget_step e s))"
  by (cases e) (auto simp: run_acquire_inv run_abort_inv run_finally_inv reserve_inv budget_release_inv)

interpretation budget: event_system "\<lambda>e s. fst (budget_step e s)" budget_inv
  by unfold_locales (rule budget_step_inv)

lemma budget_run_inv: "budget_inv s \<Longrightarrow> budget_inv (fst (budget_run es s))"
  by (simp add: budget_run_fold budget.run_inv)

section \<open>What an observer sees\<close>

fun granted_runs :: "run_observation list \<Rightarrow> nat list" where
  "granted_runs [] = []"
| "granted_runs (RunGranted w # os) = w # granted_runs os"
| "granted_runs (_ # os) = granted_runs os"

fun rejected_runs :: "run_observation list \<Rightarrow> nat list" where
  "rejected_runs [] = []"
| "rejected_runs (RunRejected w # os) = w # rejected_runs os"
| "rejected_runs (_ # os) = rejected_runs os"

fun ended_runs :: "run_observation list \<Rightarrow> nat list" where
  "ended_runs [] = []"
| "ended_runs (RunEnded w # os) = w # ended_runs os"
| "ended_runs (_ # os) = ended_runs os"

lemma runs_append [simp]:
  "granted_runs (os @ os') = granted_runs os @ granted_runs os'"
  "rejected_runs (os @ os') = rejected_runs os @ rejected_runs os'"
  "ended_runs (os @ os') = ended_runs os @ ended_runs os'"
  by (induction os rule: granted_runs.induct) simp_all

lemma runs_granted [simp]:
  "granted_runs (map RunGranted ws) = ws" "rejected_runs (map RunGranted ws) = []"
  "ended_runs (map RunGranted ws) = []"
  by (induction ws) simp_all

text \<open>What \<open>wake\<close> does under the invariant, in terms of the lists of calls.\<close>

lemma wake_lists:
  assumes "distinct (hb_waiters s)" and "hb_running s \<le> hb_concurrency s"
  shows "granted_runs (snd (wake s)) @ hb_waiters (fst (wake s)) = hb_waiters s"
    and "rejected_runs (snd (wake s)) = []" and "ended_runs (snd (wake s)) = []"
    and "hb_in_flight (fst (wake s)) = hb_in_flight s @ granted_runs (snd (wake s))"
    and "hb_next_run (fst (wake s)) = hb_next_run s"
proof -
  from wake_eq [OF assms] obtain k where
    k: "wake s = (s\<lparr>hb_waiters := drop k (hb_waiters s), hb_running := hb_running s + int k,
          hb_in_flight := hb_in_flight s @ take k (hb_waiters s)\<rparr>,
        map RunGranted (take k (hb_waiters s)))" by blast
  show "granted_runs (snd (wake s)) @ hb_waiters (fst (wake s)) = hb_waiters s"
    and "rejected_runs (snd (wake s)) = []" and "ended_runs (snd (wake s)) = []"
    and "hb_in_flight (fst (wake s)) = hb_in_flight s @ granted_runs (snd (wake s))"
    and "hb_next_run (fst (wake s)) = hb_next_run s"
    unfolding k by simp_all
qed

text \<open>The effect of one event on the lists, with the calls it begins.\<close>

fun begun :: "budget_event \<Rightarrow> handler_budget \<Rightarrow> nat list" where
  "begun (RunBegin _) s = [hb_next_run s]"
| "begun _ s = []"

lemma next_run_step: "budget_inv s \<Longrightarrow> hb_next_run (fst (budget_step e s)) = hb_next_run s + length (begun e s)"
proof (cases e)
  case (RunAbort w)
  assume "budget_inv s"
  with RunAbort wake_lists(5) [of "s\<lparr>hb_waiters := js_delete w (hb_waiters s)\<rparr>"] show ?thesis
    by (auto simp: run_abort_def Let_def prod.case_eq_if budget_inv_def)
next
  case (RunFinally w)
  assume "budget_inv s"
  with RunFinally wake_lists(5) [of "s\<lparr>hb_running := hb_running s - 1,
      hb_in_flight := js_delete w (hb_in_flight s)\<rparr>"] show ?thesis
    by (auto simp: run_finally_def Let_def prod.case_eq_if budget_inv_def)
qed (auto simp: hb_reserve_def hb_release_def run_acquire_def Let_def)

lemma mset_js_delete: "w \<in> set xs \<Longrightarrow> distinct xs \<Longrightarrow> mset xs = add_mset w (mset (js_delete w xs))"
proof (induction xs)
  case (Cons x xs)
  then show ?case by (cases "x = w") (auto simp: js_delete_hd, auto simp: js_delete_def)
qed simp

lemma step_lists:
  assumes i: "budget_inv s"
  shows "subseq (granted_runs (snd (budget_step e s)) @ hb_waiters (fst (budget_step e s)))
           (hb_waiters s @ begun e s)"
    and "mset (granted_runs (snd (budget_step e s))) + mset (rejected_runs (snd (budget_step e s))) +
         mset (hb_waiters (fst (budget_step e s))) = mset (hb_waiters s) + mset (begun e s)"
    and "mset (granted_runs (snd (budget_step e s))) + mset (hb_in_flight s) =
         mset (hb_in_flight (fst (budget_step e s))) + mset (ended_runs (snd (budget_step e s)))"
proof -
  have d: "distinct (hb_waiters s)" and df: "distinct (hb_in_flight s)"
    and fresh: "hb_next_run s \<notin> set (hb_waiters s)"
    using i by (auto simp: budget_inv_def)
  have del: "mset xs = add_mset w (mset (js_delete w xs))" if "w \<in> set xs" "distinct xs" for w and xs :: "nat list"
    using that by (rule mset_js_delete)
  let ?t = "\<lambda>w. s\<lparr>hb_waiters := js_delete w (hb_waiters s)\<rparr>"
  let ?u = "\<lambda>w. s\<lparr>hb_running := hb_running s - 1, hb_in_flight := js_delete w (hb_in_flight s)\<rparr>"
  have t: "distinct (hb_waiters (?t w)) \<and> hb_running (?t w) \<le> hb_concurrency (?t w)" for w
    using i by (auto simp: budget_inv_def)
  have u: "distinct (hb_waiters (?u w)) \<and> hb_running (?u w) \<le> hb_concurrency (?u w)" for w
    using i by (auto simp: budget_inv_def)
  note wt = wake_lists [OF conjunct1 [OF t] conjunct2 [OF t]]
  note wu = wake_lists [OF conjunct1 [OF u] conjunct2 [OF u]]
  show "subseq (granted_runs (snd (budget_step e s)) @ hb_waiters (fst (budget_step e s)))
           (hb_waiters s @ begun e s)"
    by (cases e)
      (use fresh wt(1) wu(1) in \<open>auto simp: hb_reserve_def hb_release_def run_acquire_def run_abort_def
        run_finally_def Let_def prod.case_eq_if js_add_def js_delete_def\<close>)
  have mt: "mset (granted_runs (snd (wake (?t w)))) + mset (hb_waiters (fst (wake (?t w)))) =
      mset (js_delete w (hb_waiters s))" for w
    using arg_cong [OF wt(1) [of w], of mset] by simp
  have mu: "mset (granted_runs (snd (wake (?u w)))) + mset (hb_waiters (fst (wake (?u w)))) =
      mset (hb_waiters s)" for w
    using arg_cong [OF wu(1) [of w], of mset] by simp
  show "mset (granted_runs (snd (budget_step e s))) + mset (rejected_runs (snd (budget_step e s))) +
         mset (hb_waiters (fst (budget_step e s))) = mset (hb_waiters s) + mset (begun e s)"
    by (cases e)
      (use fresh mt mu wt(2) wu(2) del [OF _ d] in \<open>auto simp: hb_reserve_def hb_release_def run_acquire_def
        run_abort_def run_finally_def Let_def prod.case_eq_if js_add_def\<close>)
  show "mset (granted_runs (snd (budget_step e s))) + mset (hb_in_flight s) =
         mset (hb_in_flight (fst (budget_step e s))) + mset (ended_runs (snd (budget_step e s)))"
    by (cases e)
      (use wt(3,4) wu(3,4) del [OF _ df] in \<open>auto simp: hb_reserve_def hb_release_def run_acquire_def
        run_abort_def run_finally_def Let_def prod.case_eq_if\<close>)
qed

lemma subseq_chain:
  assumes "subseq (g1 @ w1) (w0 @ n1)" and "subseq (g2 @ w2) (w1 @ n2)"
  shows "subseq (g1 @ g2 @ w2) (w0 @ n1 @ n2)"
proof -
  have "subseq (g1 @ g2 @ w2) (g1 @ w1 @ n2)"
    by (rule list_emb_append_mono [OF subseq_order.refl assms(2)])
  moreover have "subseq ((g1 @ w1) @ n2) ((w0 @ n1) @ n2)"
    by (rule list_emb_append_mono [OF assms(1)]) simp
  ultimately show ?thesis by (auto intro: subseq_order.trans)
qed

lemma subseq_sorted_wrt: "subseq xs ys \<Longrightarrow> sorted_wrt R ys \<Longrightarrow> sorted_wrt R xs"
  by (induction rule: list_emb.induct) (auto dest: list_emb_set)

lemma run_lists:
  assumes "budget_inv s"
  shows "\<exists>m. hb_next_run (fst (budget_run es s)) = hb_next_run s + m \<and>
      subseq (granted_runs (snd (budget_run es s)) @ hb_waiters (fst (budget_run es s)))
             (hb_waiters s @ [hb_next_run s ..< hb_next_run s + m])"
    and "mset (granted_runs (snd (budget_run es s))) + mset (rejected_runs (snd (budget_run es s))) +
         mset (hb_waiters (fst (budget_run es s))) + mset [0 ..< hb_next_run s] =
         mset (hb_waiters s) + mset [0 ..< hb_next_run (fst (budget_run es s))]"
    and "mset (granted_runs (snd (budget_run es s))) + mset (hb_in_flight s) =
         mset (hb_in_flight (fst (budget_run es s))) + mset (ended_runs (snd (budget_run es s)))"
  using assms
proof (induction es arbitrary: s)
  case Nil
  { case 1 then show ?case by simp }
  { case 2 then show ?case by simp }
  { case 3 then show ?case by simp }
next
  case (Cons e es)
  { case 1
    let ?t = "fst (budget_step e s)" let ?f = "fst (budget_run es ?t)"
    let ?g1 = "granted_runs (snd (budget_step e s))" let ?g2 = "granted_runs (snd (budget_run es ?t))"
    from Cons.IH(1) [OF budget_step_inv [OF 1]] obtain m where
      m: "hb_next_run ?f = hb_next_run ?t + m"
      and sub: "subseq (?g2 @ hb_waiters ?f) (hb_waiters ?t @ [hb_next_run ?t ..< hb_next_run ?t + m])"
      by blast
    have b: "begun e s = [hb_next_run s ..< hb_next_run ?t]"
      using next_run_step [OF 1, of e] by (cases e) auto
    have "subseq (?g1 @ ?g2 @ hb_waiters ?f)
        (hb_waiters s @ [hb_next_run s ..< hb_next_run ?t] @ [hb_next_run ?t ..< hb_next_run ?t + m])"
      by (rule subseq_chain [OF _ sub]) (use step_lists(1) [OF 1, of e] b in simp)
    moreover have "[hb_next_run s ..< hb_next_run ?t] @ [hb_next_run ?t ..< hb_next_run ?t + m] =
        [hb_next_run s ..< hb_next_run ?t + m]"
      using next_run_step [OF 1, of e] upt_add_eq_append [of "hb_next_run s" "hb_next_run ?t" m] by simp
    ultimately show ?case
      using m next_run_step [OF 1, of e]
      by (intro exI [of _ "length (begun e s) + m"]) (simp add: add.assoc)
  }
  { case 2
    have "mset [0 ..< hb_next_run (fst (budget_step e s))] = mset [0 ..< hb_next_run s] + mset (begun e s)"
      using next_run_step [OF 2, of e] by (cases e) simp_all
    with Cons.IH(2) [OF budget_step_inv [OF 2, of e]] show ?case
      unfolding budget_run_Cons runs_append mset_append
      by (intro chain_difference [OF step_lists(2) [OF 2, of e]]) simp
  }
  { case 3
    from step_lists(3) [OF 3, of e] Cons.IH(3) [OF budget_step_inv [OF 3, of e]] show ?case
      unfolding budget_run_Cons runs_append mset_append
      by (rule chain_balance [of _ _ 0 _ 0 _ _ _ 0, simplified])
  }
qed

text \<open>Ending the calls in flight one after the other: each end hands its slot to the first waiter.\<close>

lemma finally_head:
  assumes i: "budget_inv s" and f: "hb_in_flight s = f # fs"
  shows "hb_in_flight (fst (run_finally f s)) @ hb_waiters (fst (run_finally f s)) = fs @ hb_waiters s"
    and "hb_waiters s = granted_runs (snd (run_finally f s)) @ hb_waiters (fst (run_finally f s))"
proof -
  let ?u = "s\<lparr>hb_running := hb_running s - 1, hb_in_flight := js_delete f (hb_in_flight s)\<rparr>"
  have d: "js_delete f (hb_in_flight s) = fs"
    using i f js_delete_hd [of f fs] by (simp add: budget_inv_def)
  have "distinct (hb_waiters ?u)" "hb_running ?u \<le> hb_concurrency ?u"
    using i by (auto simp: budget_inv_def)
  note w = wake_lists [OF this]
  show "hb_in_flight (fst (run_finally f s)) @ hb_waiters (fst (run_finally f s)) = fs @ hb_waiters s"
    and "hb_waiters s = granted_runs (snd (run_finally f s)) @ hb_waiters (fst (run_finally f s))"
    using w(1,4) d f by (simp_all add: run_finally_def Let_def prod.case_eq_if)
qed

lemma drain_budget:
  assumes "budget_inv s" and "hb_in_flight s @ hb_waiters s = ws"
  shows "let r = budget_run (map RunFinally ws) s in
     hb_running (fst r) = 0 \<and> hb_waiters (fst r) = [] \<and> granted_runs (snd r) = hb_waiters s"
  using assms
proof (induction ws arbitrary: s)
  case Nil
  then show ?case by (simp add: budget_inv_def)
next
  case (Cons w ws)
  have "hb_in_flight s \<noteq> []"
    using Cons.prems by (auto simp: budget_inv_def)
  with Cons.prems(2) have f: "hb_in_flight s = w # tl (hb_in_flight s)" by (cases "hb_in_flight s") auto
  with Cons.prems(2) have "ws = tl (hb_in_flight s) @ hb_waiters s"
    by (metis append_Cons list.sel(3))
  then have "hb_in_flight (fst (run_finally w s)) @ hb_waiters (fst (run_finally w s)) = ws"
    using finally_head(1) [OF Cons.prems(1) f] by simp
  from Cons.IH [OF run_finally_inv [OF Cons.prems(1)] this] finally_head(2) [OF Cons.prems(1) f]
  show ?case by (simp add: Let_def)
qed

lemma budget_limits_run:
  "hb_concurrency (fst (budget_run es s)) = hb_concurrency s \<and> hb_pending (fst (budget_run es s)) = hb_pending s"
proof -
  have loop: "hb_concurrency (fst (wake_loop ws s)) = hb_concurrency s \<and>
      hb_pending (fst (wake_loop ws s)) = hb_pending s" for ws s
    by (induction ws arbitrary: s) (auto simp: grant_run_def Let_def prod.case_eq_if)
  have "hb_concurrency (fst (budget_step e s)) = hb_concurrency s \<and>
      hb_pending (fst (budget_step e s)) = hb_pending s" for e s
    by (cases e) (auto simp: hb_reserve_def hb_release_def run_acquire_def run_abort_def run_finally_def
        wake_def loop Let_def prod.case_eq_if)
  then show ?thesis by (induction es arbitrary: s) auto
qed

section \<open>The properties\<close>

text \<open>
  C27. The server-wide handler budget holds both of its limits in every run of reservations, releases
  (repeated ones included), calls of \<open>run\<close>, aborts and completions: at most \<open>concurrency\<close> calls run
  and they are counted exactly, a call waits only while every slot is taken, and at most
  \<open>concurrency + pending\<close> reservations are outstanding, with a reservation refused exactly at that bound.
\<close>

theorem handler_budget_bounds:
  assumes "1 \<le> c" and "0 \<le> p"
  shows "let s = fst (budget_run es (new_handler_budget c p)) in
     hb_running s = int (length (hb_in_flight s)) \<and> hb_running s \<le> c \<and>
     (hb_waiters s \<noteq> [] \<longrightarrow> hb_running s = c) \<and>
     0 \<le> hb_reserved s \<and> hb_reserved s \<le> c + p \<and>
     (snd (hb_reserve s) = None \<longleftrightarrow> hb_reserved s = c + p)"
proof -
  define s where "s = fst (budget_run es (new_handler_budget c p))"
  have i: "budget_inv s" unfolding s_def by (rule budget_run_inv [OF new_handler_budget_inv [OF assms]])
  have l: "hb_concurrency s = c" "hb_pending s = p"
    using budget_limits_run [of es "new_handler_budget c p"] by (simp_all add: s_def new_handler_budget_def)
  have b: "hb.balanced s" using i by (simp add: budget_inv_def)
  show ?thesis
    unfolding s_def [symmetric] Let_def
    using i l hb.held_bounds [OF b] by (auto simp: budget_inv_def hb_capacity_def hb_reserve_def)
qed

theorem handler_budget_bounds_witness:
  "hb_running (fst (budget_run [RunBegin False, RunBegin False, RunFinally 0] (new_handler_budget 1 2))) \<le> 1"
  using handler_budget_bounds [of 1 2 "[RunBegin False, RunBegin False, RunFinally 0]"]
  unfolding Let_def by linarith

text \<open>
  The budget serves its callers in order and loses none: slots are granted in the order of the
  calls of \<open>run\<close> (each call at most once), every call is granted, rejected or still waiting, and the
  calls that were granted are those in flight together with those that ended.
\<close>

theorem handler_budget_fifo:
  assumes "1 \<le> c" and "0 \<le> p"
  shows "let (s, os) = budget_run es (new_handler_budget c p) in
     sorted_wrt (<) (granted_runs os @ hb_waiters s) \<and>
     mset (granted_runs os) + mset (rejected_runs os) + mset (hb_waiters s) = mset [0 ..< hb_next_run s] \<and>
     mset (granted_runs os) = mset (hb_in_flight s) + mset (ended_runs os)"
proof -
  let ?s0 = "new_handler_budget c p"
  note r = run_lists [OF new_handler_budget_inv [OF assms], of es]
  from r(1) obtain m where
    "subseq (granted_runs (snd (budget_run es ?s0)) @ hb_waiters (fst (budget_run es ?s0))) [0 ..< m]"
    by (auto simp: new_handler_budget_def)
  then have "sorted_wrt (<) (granted_runs (snd (budget_run es ?s0)) @ hb_waiters (fst (budget_run es ?s0)))"
    by (rule subseq_sorted_wrt) simp
  with r(2,3) show ?thesis
    by (simp add: Let_def prod.case_eq_if new_handler_budget_def)
qed

theorem handler_budget_fifo_witness:
  "granted_runs (snd (budget_run [RunBegin False, RunBegin False, RunBegin False, RunAbort 1, RunFinally 0]
      (new_handler_budget 1 0))) = [0, 2] \<and>
   sorted_wrt (<) (granted_runs (snd (budget_run
      [RunBegin False, RunBegin False, RunBegin False, RunAbort 1, RunFinally 0] (new_handler_budget 1 0))))"
  using handler_budget_fifo [of 1 0 "[RunBegin False, RunBegin False, RunBegin False, RunAbort 1, RunFinally 0]"]
  by (simp add: new_handler_budget_def run_acquire_def run_abort_def run_finally_def wake_def js_add_def
      js_delete_def grant_run_def Let_def prod.case_eq_if)

text \<open>
  No caller starves: from any reachable state, ending the calls that have or will get a slot, in
  that order, grants a slot to every waiter, in the order of waiting, and leaves no slot taken.
\<close>

theorem handler_budget_drains:
  assumes "1 \<le> c" and "0 \<le> p" and "s = fst (budget_run es (new_handler_budget c p))"
  shows "let r = budget_run (map RunFinally (hb_in_flight s @ hb_waiters s)) s in
     hb_running (fst r) = 0 \<and> hb_waiters (fst r) = [] \<and> granted_runs (snd r) = hb_waiters s"
  unfolding assms(3)
  by (rule drain_budget [OF budget_run_inv [OF new_handler_budget_inv [OF assms(1,2)]] refl])

theorem handler_budget_drains_witness:
  "\<exists>s. s = fst (budget_run [RunBegin False, RunBegin False] (new_handler_budget 1 0)) \<and> hb_waiters s = [1] \<and>
       granted_runs (snd (budget_run (map RunFinally (hb_in_flight s @ hb_waiters s)) s)) = [1]"
proof -
  define s where "s = fst (budget_run [RunBegin False, RunBegin False] (new_handler_budget 1 0))"
  have "hb_waiters s = [1]"
    by (simp add: s_def new_handler_budget_def run_acquire_def js_add_def Let_def)
  with handler_budget_drains [of 1 0 s, OF _ _ s_def] s_def show ?thesis by (auto simp: Let_def)
qed

end
