(* ===== verification/Ip_Limits.thy ===== *)
theory Ip_Limits
  imports Prelude
begin

text \<open>
  The per-address admission records of \<open>packages/nest-webtransport/src/server/webtransport-runtime.ts\<close>
  (\<open>acquireIpSlot\<close>, \<open>sweepExpiredIpRecords\<close>, \<open>releaseIpSlot\<close>): for every remote address the number of
  sessions charged to it and the times of its recent attempts, in a map that is itself bounded. Each
  operation reads the clock (\<open>Date.now()\<close>, in milliseconds) as its argument \<open>now\<close>; the readings inside
  one synchronous operation are taken to be the same.
\<close>

record ip_record =
  ip_active :: int
  ip_attempts :: "int list"

type_synonym ip_table = "(string \<times> ip_record) list"

record ip_limits =
  lim_records :: nat
  lim_active :: int
  lim_per_second :: nat

text \<open>\<open>while ((record.attempts[0] ?? Infinity) <= threshold) record.attempts.shift()\<close>\<close>

fun shift_expired :: "int \<Rightarrow> int list \<Rightarrow> int list" where
  "shift_expired threshold [] = []"
| "shift_expired threshold (t # ts) = (if t \<le> threshold then shift_expired threshold ts else t # ts)"

fun sweep_expired :: "int \<Rightarrow> ip_table \<Rightarrow> ip_table" where
  "sweep_expired threshold [] = []"
| "sweep_expired threshold ((ip, r) # rest) =
     (if ip_active r \<noteq> 0 then (ip, r) # sweep_expired threshold rest
      else (let ts = shift_expired threshold (ip_attempts r)
            in if ts = [] then sweep_expired threshold rest
               else (ip, r\<lparr>ip_attempts := ts\<rparr>) # sweep_expired threshold rest))"

text \<open>The second half of \<open>acquireIpSlot\<close>, on the record \<open>r\<close> that the map holds for \<open>ip\<close>.\<close>

definition charge_record :: "ip_limits \<Rightarrow> int \<Rightarrow> ip_record \<Rightarrow> ip_record \<times> bool" where
  "charge_record lims now r =
     (let ts = shift_expired (now - 1000) (ip_attempts r) in
      if ip_active r \<ge> lim_active lims \<or> length ts \<ge> lim_per_second lims then
        (r\<lparr>ip_attempts := ts\<rparr>, False)
      else (r\<lparr>ip_active := ip_active r + 1, ip_attempts := ts @ [now]\<rparr>, True))"

definition acquire_ip_slot :: "ip_limits \<Rightarrow> int \<Rightarrow> string \<Rightarrow> ip_table \<Rightarrow> ip_table \<times> bool" where
  "acquire_ip_slot lims now ip m =
     (case map_of m ip of
        Some r \<Rightarrow> (let (r', ok) = charge_record lims now r in (AList.update ip r' m, ok))
      | None \<Rightarrow>
          (let m1 = (if length m \<ge> lim_records lims then sweep_expired (now - 1000) m else m) in
           if length m1 \<ge> lim_records lims then (m1, False)
           else (let (r', ok) = charge_record lims now \<lparr>ip_active = 0, ip_attempts = []\<rparr>
                 in (AList.update ip r' m1, ok))))"

definition release_ip_slot :: "int \<Rightarrow> string \<Rightarrow> ip_table \<Rightarrow> ip_table" where
  "release_ip_slot now ip m =
     (case map_of m ip of
        None \<Rightarrow> m
      | Some r \<Rightarrow>
          (let active = max 0 (ip_active r - 1); ts = shift_expired (now - 1000) (ip_attempts r)
           in if active = 0 \<and> ts = [] then AList.delete ip m
              else AList.update ip (r\<lparr>ip_active := active, ip_attempts := ts\<rparr>) m))"

section \<open>What the map says about one address\<close>

definition active_of :: "ip_table \<Rightarrow> string \<Rightarrow> int" where
  "active_of m ip = (case map_of m ip of None \<Rightarrow> 0 | Some r \<Rightarrow> ip_active r)"

definition attempts_of :: "ip_table \<Rightarrow> string \<Rightarrow> int list" where
  "attempts_of m ip = (case map_of m ip of None \<Rightarrow> [] | Some r \<Rightarrow> ip_attempts r)"

definition valid_ip_limits :: "ip_limits \<Rightarrow> bool" where
  "valid_ip_limits lims \<longleftrightarrow> 1 \<le> lim_records lims \<and> 1 \<le> lim_active lims \<and> 1 \<le> lim_per_second lims"

lemma shift_expired_filter: "sorted ts \<Longrightarrow> shift_expired th ts = filter (\<lambda>t. th < t) ts"
proof (induction ts)
  case (Cons t ts)
  then show ?case by (auto intro!: filter_True [symmetric])
qed simp

lemma shift_expired_length: "length (shift_expired th ts) \<le> length ts"
  by (induction ts) auto

lemma shift_expired_sorted: "sorted ts \<Longrightarrow> sorted (shift_expired th ts)"
  by (simp add: shift_expired_filter sorted_wrt_filter)

lemma shift_expired_set: "set (shift_expired th ts) \<subseteq> set ts"
  by (induction ts) auto

text \<open>Sweeping keeps the live records, with their attempts expired.\<close>

definition live :: "int \<Rightarrow> ip_record \<Rightarrow> bool" where
  "live th r \<longleftrightarrow> ip_active r \<noteq> 0 \<or> shift_expired th (ip_attempts r) \<noteq> []"

definition refreshed :: "int \<Rightarrow> ip_record \<Rightarrow> ip_record" where
  "refreshed th r =
     (if ip_active r \<noteq> 0 then r else r\<lparr>ip_attempts := shift_expired th (ip_attempts r)\<rparr>)"

lemma sweep_eq:
  "sweep_expired th m = map (\<lambda>(ip, r). (ip, refreshed th r)) (filter (\<lambda>(ip, r). live th r) m)"
  by (induction th m rule: sweep_expired.induct) (simp_all add: Let_def live_def refreshed_def)

lemma sweep_keys: "keys (sweep_expired th m) = keys (filter (\<lambda>(ip, r). live th r) m)"
  by (simp add: sweep_eq case_prod_beta comp_def)

lemma sweep_length: "length (sweep_expired th m) \<le> length m"
  by (simp add: sweep_eq)

lemma sweep_map_of:
  assumes "distinct (keys m)"
  shows "map_of (sweep_expired th m) ip =
     (case map_of m ip of Some r \<Rightarrow> if live th r then Some (refreshed th r) else None | None \<Rightarrow> None)"
proof -
  have "map_of (sweep_expired th m) ip =
      map_option (refreshed th) (map_of (filter (\<lambda>(ip, r). live th r) m) ip)"
    by (simp add: sweep_eq map_of_map)
  then show ?thesis
    using map_of_filter_keys [OF assms, of "\<lambda>(ip, r). live th r" ip] by (simp split: option.splits)
qed

text \<open>The invariant of a record and of the map; it does not depend on the clock.\<close>

definition record_ok :: "ip_limits \<Rightarrow> ip_record \<Rightarrow> bool" where
  "record_ok lims r \<longleftrightarrow>
     0 \<le> ip_active r \<and> ip_active r \<le> lim_active lims \<and> length (ip_attempts r) \<le> lim_per_second lims \<and>
     (ip_active r \<noteq> 0 \<or> ip_attempts r \<noteq> [])"

definition ip_inv :: "ip_limits \<Rightarrow> ip_table \<Rightarrow> bool" where
  "ip_inv lims m \<longleftrightarrow>
     distinct (keys m) \<and> length m \<le> lim_records lims \<and>
     (\<forall>ip r. map_of m ip = Some r \<longrightarrow> record_ok lims r)"

lemma sweep_inv: "ip_inv lims m \<Longrightarrow> ip_inv lims (sweep_expired th m)"
proof -
  assume i: "ip_inv lims m"
  then have d: "distinct (keys m)" by (simp add: ip_inv_def)
  have ok: "record_ok lims (refreshed th r)" if "record_ok lims r" "live th r" for r
    using that shift_expired_length [of th "ip_attempts r"] by (auto simp: record_ok_def live_def refreshed_def)
  have "distinct (keys (sweep_expired th m))"
    unfolding sweep_keys by (rule distinct_keys_filter [OF d])
  with i ok sweep_length [of th m] show ?thesis
    by (auto simp: ip_inv_def sweep_map_of [OF d] split: option.splits if_splits)
qed

lemma update_inv:
  "ip_inv lims m \<Longrightarrow> record_ok lims r \<Longrightarrow> map_of m ip \<noteq> None \<or> length m < lim_records lims \<Longrightarrow>
   ip_inv lims (AList.update ip r m)"
  unfolding ip_inv_def
  by (auto simp: distinct_keys_update length_update map_of_update map_of_eq_None_iff)

lemma delete_inv: "ip_inv lims m \<Longrightarrow> ip_inv lims (AList.delete ip m)"
  unfolding ip_inv_def
  using length_delete_le [of ip m] order_trans by (auto simp: distinct_keys_delete map_of_delete)

abbreviation fresh_record :: ip_record where
  "fresh_record \<equiv> \<lparr>ip_active = 0, ip_attempts = []\<rparr>"

lemma charge_ok:
  "valid_ip_limits lims \<Longrightarrow> record_ok lims r \<or> r = fresh_record \<Longrightarrow>
   record_ok lims (fst (charge_record lims now r))"
  using shift_expired_length [of "now - 1000" "ip_attempts r"]
  by (auto simp: record_ok_def charge_record_def valid_ip_limits_def Let_def)

lemma acquire_inv:
  assumes v: "valid_ip_limits lims" and i: "ip_inv lims m"
  shows "ip_inv lims (fst (acquire_ip_slot lims now ip m))"
proof (cases "map_of m ip")
  case (Some r)
  then have "record_ok lims (fst (charge_record lims now r))"
    using i v by (intro charge_ok) (auto simp: ip_inv_def)
  from update_inv [OF i this, of ip] Some show ?thesis
    by (simp add: acquire_ip_slot_def Let_def prod.case_eq_if)
next
  case None
  have ok: "record_ok lims (fst (charge_record lims now fresh_record))"
    using v by (intro charge_ok) simp_all
  from None sweep_inv [OF i, of "now - 1000"] update_inv [OF sweep_inv [OF i] ok]
    update_inv [OF i ok] i show ?thesis
    by (simp add: acquire_ip_slot_def Let_def prod.case_eq_if not_le)
qed

lemma address_release_inv: "ip_inv lims m \<Longrightarrow> ip_inv lims (release_ip_slot now ip m)"
proof (cases "map_of m ip")
  case (Some r)
  assume i: "ip_inv lims m"
  with Some have "record_ok lims r" by (auto simp: ip_inv_def)
  then have "ip_active r' \<noteq> 0 \<or> ip_attempts r' \<noteq> [] \<Longrightarrow> record_ok lims r'"
    if "r' = r\<lparr>ip_active := max 0 (ip_active r - 1), ip_attempts := shift_expired (now - 1000) (ip_attempts r)\<rparr>" for r'
    using shift_expired_length [of "now - 1000" "ip_attempts r"] that by (auto simp: record_ok_def)
  with i Some show ?thesis
    by (auto simp: release_ip_slot_def Let_def intro: delete_inv update_inv)
qed (simp add: release_ip_slot_def)

section \<open>Charges\<close>

text \<open>An acquisition charges the address it is for exactly when it succeeds; a release discharges it.\<close>

lemma active_sweep: "distinct (keys m) \<Longrightarrow> active_of (sweep_expired th m) ip = active_of m ip"
  by (auto simp: active_of_def sweep_map_of refreshed_def live_def split: option.splits)

lemma acquire_active:
  assumes "distinct (keys m)"
  shows "active_of (fst (acquire_ip_slot lims now ip m)) ip' =
     active_of m ip' + (if snd (acquire_ip_slot lims now ip m) \<and> ip' = ip then 1 else 0)"
proof (cases "map_of m ip")
  case (Some r)
  then show ?thesis
    by (auto simp: acquire_ip_slot_def charge_record_def Let_def active_of_def map_of_update)
next
  case None
  have a: "active_of (sweep_expired th m) ip' = active_of m ip'" for th
    by (rule active_sweep [OF assms])
  have "map_of (sweep_expired th m) ip = None" for th
    using None by (simp add: sweep_map_of [OF assms])
  with None a show ?thesis
    by (auto simp: acquire_ip_slot_def charge_record_def Let_def active_of_def map_of_update)
qed

lemma release_active:
  "active_of (release_ip_slot now ip m) ip' =
     (if ip' = ip then max 0 (active_of m ip - 1) else active_of m ip')"
  by (auto simp: release_ip_slot_def active_of_def Let_def map_of_update map_of_delete max_def
      split: option.splits)

lemma acquire_limit:
  "snd (acquire_ip_slot lims now ip m) \<Longrightarrow> active_of m ip < lim_active lims \<or> map_of m ip = None"
  by (auto simp: acquire_ip_slot_def charge_record_def active_of_def Let_def split: option.splits if_splits)

section \<open>The sliding window\<close>

datatype ip_event = IpAcquire int string | IpRelease int string

fun event_time :: "ip_event \<Rightarrow> int" where
  "event_time (IpAcquire now _) = now"
| "event_time (IpRelease now _) = now"

fun ip_step :: "ip_limits \<Rightarrow> ip_event \<Rightarrow> ip_table \<Rightarrow> ip_table \<times> (string \<times> int) list" where
  "ip_step lims (IpAcquire now ip) m =
     (fst (acquire_ip_slot lims now ip m), if snd (acquire_ip_slot lims now ip m) then [(ip, now)] else [])"
| "ip_step lims (IpRelease now ip) m = (release_ip_slot now ip m, [])"

fun ip_run :: "ip_limits \<Rightarrow> ip_event list \<Rightarrow> ip_table \<Rightarrow> ip_table \<times> (string \<times> int) list" where
  "ip_run lims [] m = (m, [])"
| "ip_run lims (e # es) m =
     (let (m1, g1) = ip_step lims e m; (m2, g2) = ip_run lims es m1 in (m2, g1 @ g2))"

definition times_of :: "string \<Rightarrow> (string \<times> int) list \<Rightarrow> int list" where
  "times_of ip gs = map snd (filter (\<lambda>g. fst g = ip) gs)"

text \<open>How an operation at time \<open>now\<close> changes the attempts of an address, up to expired ones.\<close>

abbreviation recent :: "int \<Rightarrow> int list \<Rightarrow> int list" where
  "recent now ts \<equiv> filter (\<lambda>t. now - 1000 < t) ts"

definition tidy :: "int \<Rightarrow> ip_table \<Rightarrow> bool" where
  "tidy now m \<longleftrightarrow> distinct (keys m) \<and> (\<forall>ip. sorted (attempts_of m ip) \<and> (\<forall>t \<in> set (attempts_of m ip). t \<le> now))"

lemma recent_shift: "sorted ts \<Longrightarrow> recent now (shift_expired (now - 1000) ts) = recent now ts"
  by (simp add: shift_expired_filter)

lemma shift_below:
  "sorted ts \<and> (\<forall>t \<in> set ts. t \<le> now) \<Longrightarrow>
   sorted (shift_expired th ts) \<and> (\<forall>t \<in> set (shift_expired th ts). t \<le> now)"
  using shift_expired_set [of th ts] by (auto intro: shift_expired_sorted)

lemma sweep_attempts:
  assumes "tidy now m"
  shows "attempts_of (sweep_expired (now - 1000) m) ip \<in>
     {attempts_of m ip, shift_expired (now - 1000) (attempts_of m ip)}"
  using assms by (auto simp: tidy_def attempts_of_def sweep_map_of live_def refreshed_def split: option.splits)

lemma sweep_tidy: "tidy now m \<Longrightarrow> tidy now (sweep_expired (now - 1000) m)"
proof -
  assume t: "tidy now m"
  have "distinct (keys (sweep_expired (now - 1000) m))"
    unfolding sweep_keys using t by (intro distinct_keys_filter) (simp add: tidy_def)
  moreover have "sorted ts \<and> (\<forall>t \<in> set ts. t \<le> now)"
    if "ts = attempts_of (sweep_expired (now - 1000) m) ip" for ts ip
    using sweep_attempts [OF t, of ip] t that shift_below [of "attempts_of m ip" now "now - 1000"]
    by (auto simp: tidy_def)
  ultimately show ?thesis by (simp add: tidy_def)
qed

lemma sweep_recent:
  assumes "tidy now m"
  shows "recent now (attempts_of (sweep_expired (now - 1000) m) ip) = recent now (attempts_of m ip)"
  using sweep_attempts [OF assms, of ip] assms by (auto simp: tidy_def recent_shift)

text \<open>Charging the record of an address on a tidy map.\<close>

lemma charge_step:
  assumes t: "tidy now m" and r: "ip_attempts r = attempts_of m ip"
    and c: "charge_record lims now r = (r', ok)"
  shows "tidy now (AList.update ip r' m)"
    and "recent now (attempts_of (AList.update ip r' m) ip') =
         recent now (attempts_of m ip') @ (if ok \<and> ip' = ip then [now] else [])"
proof -
  let ?ts = "shift_expired (now - 1000) (ip_attempts r)"
  have srt: "sorted (ip_attempts r)" "\<forall>t \<in> set (ip_attempts r). t \<le> now"
    using t r by (auto simp: tidy_def)
  have ts: "sorted ?ts" "\<forall>t \<in> set ?ts. t \<le> now"
    using srt shift_expired_set [of "now - 1000" "ip_attempts r"] by (auto intro: shift_expired_sorted)
  have a': "ip_attempts r' = ?ts @ (if ok then [now] else [])"
    using c by (auto simp: charge_record_def Let_def split: if_splits)
  have at: "attempts_of (AList.update ip r' m) i = (if i = ip then ip_attempts r' else attempts_of m i)" for i
    by (simp add: attempts_of_def map_of_update)
  show "tidy now (AList.update ip r' m)"
    using t ts by (auto simp: tidy_def at a' distinct_keys_update sorted_append)
  show "recent now (attempts_of (AList.update ip r' m) ip') =
         recent now (attempts_of m ip') @ (if ok \<and> ip' = ip then [now] else [])"
    using srt r by (auto simp: at a' recent_shift)
qed

lemma acquire_step:
  assumes t: "tidy now m"
  shows "tidy now (fst (acquire_ip_slot lims now ip m))"
    and "recent now (attempts_of (fst (acquire_ip_slot lims now ip m)) ip') =
         recent now (attempts_of m ip') @
         (if snd (acquire_ip_slot lims now ip m) \<and> ip' = ip then [now] else [])"
proof -
  have "tidy now (fst (acquire_ip_slot lims now ip m)) \<and>
      recent now (attempts_of (fst (acquire_ip_slot lims now ip m)) ip') =
         recent now (attempts_of m ip') @
         (if snd (acquire_ip_slot lims now ip m) \<and> ip' = ip then [now] else [])"
  proof (cases "map_of m ip")
    case (Some r)
    obtain r' ok where c: "charge_record lims now r = (r', ok)" by fastforce
    have "ip_attempts r = attempts_of m ip" using Some by (simp add: attempts_of_def)
    from charge_step [OF t this c] Some c show ?thesis by (simp add: acquire_ip_slot_def)
  next
    case None
    define m1 where "m1 = (if length m \<ge> lim_records lims then sweep_expired (now - 1000) m else m)"
    have t1: "tidy now m1" using t sweep_tidy [OF t] by (simp add: m1_def)
    have re: "recent now (attempts_of m1 ip') = recent now (attempts_of m ip')" for ip'
      using sweep_recent [OF t] by (simp add: m1_def)
    have "map_of m1 ip = None"
      using None t by (simp add: m1_def sweep_map_of tidy_def)
    then have "ip_attempts fresh_record = attempts_of m1 ip" by (simp add: attempts_of_def)
    moreover obtain r' ok where c: "charge_record lims now fresh_record = (r', ok)" by fastforce
    ultimately show ?thesis
      using None t1 re charge_step [OF t1 _ c, of ip]
      by (simp add: acquire_ip_slot_def c flip: m1_def)
  qed
  then show "tidy now (fst (acquire_ip_slot lims now ip m))"
    and "recent now (attempts_of (fst (acquire_ip_slot lims now ip m)) ip') =
         recent now (attempts_of m ip') @
         (if snd (acquire_ip_slot lims now ip m) \<and> ip' = ip then [now] else [])" by blast+
qed

lemma release_step:
  assumes t: "tidy now m"
  shows "tidy now (release_ip_slot now ip m)"
    and "recent now (attempts_of (release_ip_slot now ip m) ip') = recent now (attempts_of m ip')"
proof -
  have at: "attempts_of (release_ip_slot now ip m) i =
      (if i = ip then shift_expired (now - 1000) (attempts_of m i) else attempts_of m i)" for i
    by (auto simp: release_ip_slot_def attempts_of_def Let_def map_of_update map_of_delete split: option.splits)
  have "distinct (keys (release_ip_slot now ip m))"
    using t by (auto simp: release_ip_slot_def tidy_def Let_def distinct_keys_update distinct_keys_delete
        simp del: map_of_eq_None_iff split: option.splits)
  then show "tidy now (release_ip_slot now ip m)"
    using t shift_below [of "attempts_of m ip" now "now - 1000"]
    unfolding tidy_def at by simp
  show "recent now (attempts_of (release_ip_slot now ip m) ip') = recent now (attempts_of m ip')"
    using t by (simp add: at tidy_def recent_shift)
qed

text \<open>
  The invariant of a run: the map's recent attempts of an address are its recent grants, and no
  window of one second holds more grants than the limit.
\<close>

definition window_inv :: "ip_limits \<Rightarrow> int \<Rightarrow> (string \<times> int) list \<Rightarrow> ip_table \<Rightarrow> bool" where
  "window_inv lims now gs m \<longleftrightarrow>
     tidy now m \<and> ip_inv lims m \<and> (\<forall>g \<in> set gs. snd g \<le> now) \<and>
     (\<forall>ip. recent now (attempts_of m ip) = recent now (times_of ip gs)) \<and>
     (\<forall>ip T. length (filter (\<lambda>t. T - 1000 < t \<and> t \<le> T) (times_of ip gs)) \<le> lim_per_second lims)"

lemma window_later: "window_inv lims now gs m \<Longrightarrow> now \<le> now' \<Longrightarrow> window_inv lims now' gs m"
proof -
  assume w: "window_inv lims now gs m" and le: "now \<le> now'"
  have f: "recent now' ts = recent now' (recent now ts)" for ts
    using le by (induction ts) auto
  have "recent now' (attempts_of m ip) = recent now' (times_of ip gs)" for ip
    using w f [of "attempts_of m ip"] f [of "times_of ip gs"] by (simp add: window_inv_def)
  with w le show ?thesis by (fastforce simp: window_inv_def tidy_def)
qed

lemma times_append [simp]: "times_of ip (gs @ hs) = times_of ip gs @ times_of ip hs"
  by (simp add: times_of_def)

lemma times_single [simp]: "times_of ip [] = []" "times_of ip [(i, t)] = (if i = ip then [t] else [])"
  by (simp_all add: times_of_def)

lemma window_step:
  assumes v: "valid_ip_limits lims" and w: "window_inv lims (event_time e) gs m"
  shows "window_inv lims (event_time e) (gs @ snd (ip_step lims e m)) (fst (ip_step lims e m))"
proof (cases e)
  case (IpRelease now ip)
  then show ?thesis
    using w release_step [of now m ip] address_release_inv [of lims m now ip] by (simp add: window_inv_def)
next
  case (IpAcquire now ip)
  let ?m = "fst (acquire_ip_slot lims now ip m)" and ?ok = "snd (acquire_ip_slot lims now ip m)"
  let ?gs = "gs @ (if ?ok then [(ip, now)] else [])"
  have t: "tidy now m" and i: "ip_inv lims m" and gn: "\<forall>g \<in> set gs. snd g \<le> now"
    and re: "\<And>ip. recent now (attempts_of m ip) = recent now (times_of ip gs)"
    and wi: "\<And>ip T. length (filter (\<lambda>t. T - 1000 < t \<and> t \<le> T) (times_of ip gs)) \<le> lim_per_second lims"
    using w IpAcquire by (auto simp: window_inv_def)
  note st = acquire_step [OF t, of lims ip]
  have i': "ip_inv lims ?m" by (rule acquire_inv [OF v i])
  have re': "recent now (attempts_of ?m ip') = recent now (times_of ip' ?gs)" for ip'
    using st(2) [of ip'] re [of ip'] by auto
  have al: "length (attempts_of ?m ip') \<le> lim_per_second lims" for ip'
    using i' by (auto simp: ip_inv_def record_ok_def attempts_of_def split: option.splits)
  have le: "length (recent now (times_of ip' ?gs)) \<le> lim_per_second lims" for ip'
    unfolding re' [symmetric] by (rule le_trans [OF length_filter_le al])
  have "length (filter (\<lambda>t. T - 1000 < t \<and> t \<le> T) (times_of ip' ?gs)) \<le> lim_per_second lims" for ip' T
  proof (cases "now \<le> T")
    case True
    then have fl: "filter (\<lambda>t. T - 1000 < t \<and> t \<le> T) ts = filter (\<lambda>t. T - 1000 < t \<and> t \<le> T) (recent now ts)" for ts
      by (induction ts) auto
    show ?thesis by (subst fl) (rule le_trans [OF length_filter_le le])
  next
    case False
    then show ?thesis using wi [of T ip'] by simp
  qed
  with st(1) i' re' gn show ?thesis
    using IpAcquire by (auto simp: window_inv_def)
qed

lemma window_run:
  assumes "valid_ip_limits lims" and "window_inv lims now gs m" and "sorted (now # map event_time es)"
  shows "\<exists>now'. window_inv lims now' (gs @ snd (ip_run lims es m)) (fst (ip_run lims es m))"
  using assms(2,3)
proof (induction es arbitrary: now gs m)
  case (Cons e es)
  have "window_inv lims (event_time e) gs m"
    using Cons.prems by (auto intro: window_later)
  from Cons.IH [OF window_step [OF assms(1) this]] Cons.prems(2) show ?case
    by (simp add: Let_def prod.case_eq_if)
qed auto

section \<open>The property\<close>

text \<open>
  C28. Admission by address is bounded in memory, in sessions and in rate. For every sequence of
  acquisitions and releases at times that do not run backwards, the map holds at most as many
  records as sessions are allowed, no record is left without a charge or an attempt, the charge
  of an address never exceeds the per-address limit, and in every sliding window of one second an
  address is granted at most \<open>sessionsPerSecond\<close> slots.
\<close>

theorem ip_admission_bounds:
  assumes "valid_ip_limits lims" and "sorted (map event_time es)"
  shows "let (m, grants) = ip_run lims es [] in
     length m \<le> lim_records lims \<and>
     (\<forall>ip r. map_of m ip = Some r \<longrightarrow> ip_active r \<noteq> 0 \<or> ip_attempts r \<noteq> []) \<and>
     0 \<le> active_of m ip \<and> active_of m ip \<le> lim_active lims \<and>
     length (filter (\<lambda>t. T - 1000 < t \<and> t \<le> T) (times_of ip grants)) \<le> lim_per_second lims"
proof -
  define now where "now = (case es of [] \<Rightarrow> 0 | e # _ \<Rightarrow> event_time e)"
  have "window_inv lims now [] []"
    by (simp add: window_inv_def tidy_def ip_inv_def attempts_of_def)
  moreover have "sorted (now # map event_time es)"
    using assms(2) by (cases es) (auto simp: now_def)
  ultimately obtain now' where
    "window_inv lims now' (snd (ip_run lims es [])) (fst (ip_run lims es []))"
    using window_run [OF assms(1)] by fastforce
  then show ?thesis
    using assms(1) by (auto simp: window_inv_def ip_inv_def record_ok_def active_of_def valid_ip_limits_def
        Let_def prod.case_eq_if split: option.splits)
qed

theorem ip_admission_bounds_witness:
  "length (filter (\<lambda>t. 1500 - 1000 < t \<and> t \<le> 1500) (times_of ''a'' (snd (ip_run
      \<lparr>lim_records = 2, lim_active = 3, lim_per_second = 1\<rparr>
      [IpAcquire 0 ''a'', IpAcquire 500 ''a'', IpAcquire 1000 ''a'', IpRelease 1200 ''a''] [])))) \<le> 1"
  using ip_admission_bounds
    [of "\<lparr>lim_records = 2, lim_active = 3, lim_per_second = 1\<rparr>"
        "[IpAcquire 0 ''a'', IpAcquire 500 ''a'', IpAcquire 1000 ''a'', IpRelease 1200 ''a'']" "''a''" 1500]
  by (simp add: valid_ip_limits_def Let_def prod.case_eq_if)

end
