(* ===== verification/Module_Options.thy ===== *)
theory Module_Options
  imports Errors Bounded_Queue Task_Scheduler
begin

text \<open>
  Option normalisation, \<open>packages/nest-webtransport/src/module/options.ts\<close>: the defaults, the order of
  the assertions, and the normalised options that the runtime reads. The nested option objects are
  flattened; an option object that is missing counts as one without properties, and \<open>Undefined\<close> stands
  for \<open>null\<close> too. Functions among the options (the authenticator, the routers, the logger) are
  represented by whether they are present. The URL parser of the platform is a parameter.

  \<open>normalize_values\<close> is the function as it is written: the object it returns holds the numbers and the
  policy names that were given. \<open>normalize_options\<close> is the same function with the object read at the
  types of the runtime's model; the first property shows that nothing is lost in that reading.
\<close>

record driver_capabilities =
  cap_datagrams :: bool
  cap_bidirectional :: bool
  cap_unidirectional :: bool
  cap_graceful :: bool

record limit_overrides =
  lo_max_sessions :: "js_number js_prop"
  lo_server_concurrent :: "js_number js_prop"
  lo_server_pending :: "js_number js_prop"
  lo_queued_bytes :: "js_number js_prop"
  lo_max_streams :: "js_number js_prop"
  lo_ip_sessions :: "js_number js_prop"
  lo_ip_per_second :: "js_number js_prop"
  lo_bidirectional :: "js_number js_prop"
  lo_unidirectional :: "js_number js_prop"
  lo_datagrams_per_second :: "js_number js_prop"
  lo_session_concurrent :: "js_number js_prop"
  lo_session_pending :: "js_number js_prop"
  lo_stream_lifetime :: "js_number js_prop"

record module_options =
  mo_driver :: "driver_capabilities option"
  mo_port :: "js_number option"
  mo_limits :: limit_overrides
  mo_max_concurrent :: "js_number js_prop"
  mo_max_pending :: "js_number js_prop"
  mo_handler_overflow :: "string js_prop"
  mo_queue_size :: "js_number js_prop"
  mo_queue_overflow :: "string js_prop"
  mo_allowed_origins :: "string list js_prop"
  mo_require_origin :: "bool js_prop"
  mo_max_header_size :: "js_number js_prop"
  mo_max_datagram_size :: "js_number js_prop"
  mo_handshake_timeout :: "js_number js_prop"
  mo_idle_timeout :: "js_number js_prop"
  mo_authenticate :: bool
  mo_route_datagram :: bool
  mo_route_bidirectional :: bool
  mo_route_unidirectional :: bool
  mo_graceful :: "bool js_prop"
  mo_drain_timeout :: "js_number js_prop"
  mo_force_close_timeout :: "js_number js_prop"
  mo_max_logs :: "js_number js_prop"

text \<open>The limits of an options object after the merge with the defaults; \<open>None\<close> is \<open>undefined\<close>.\<close>

record merged_limits =
  ml_max_sessions :: "js_number option"
  ml_server_concurrent :: "js_number option"
  ml_server_pending :: "js_number option"
  ml_queued_bytes :: "js_number option"
  ml_max_streams :: "js_number option"
  ml_ip_sessions :: "js_number option"
  ml_ip_per_second :: "js_number option"
  ml_bidirectional :: "js_number option"
  ml_unidirectional :: "js_number option"
  ml_datagrams_per_second :: "js_number option"
  ml_session_concurrent :: "js_number option"
  ml_session_pending :: "js_number option"
  ml_stream_lifetime :: "js_number option"

text \<open>The object that the normalisation returns, with every value as it is.\<close>

record option_values =
  ov_driver :: driver_capabilities
  ov_port :: js_number
  ov_limits :: merged_limits
  ov_max_concurrent :: "js_number option"
  ov_max_pending :: "js_number option"
  ov_handler_overflow :: string
  ov_queue_size :: "js_number option"
  ov_queue_overflow :: string
  ov_allowed_origins :: "string list"
  ov_require_origin :: bool
  ov_max_header_size :: "js_number option"
  ov_max_datagram_size :: "js_number option"
  ov_handshake_timeout :: "js_number option"
  ov_idle_timeout :: "js_number option"
  ov_authenticate :: bool
  ov_route_datagram :: bool
  ov_route_bidirectional :: bool
  ov_route_unidirectional :: bool
  ov_graceful :: bool
  ov_drain_timeout :: "js_number option"
  ov_force_close_timeout :: "js_number option"
  ov_max_logs :: "js_number option"

text \<open>The same object at the types that the model of the runtime reads.\<close>

record normalized_options =
  no_driver :: driver_capabilities
  no_port :: int
  no_max_sessions :: int
  no_server_concurrent :: int
  no_server_pending :: int
  no_queued_bytes :: int
  no_max_streams :: int
  no_ip_sessions :: int
  no_ip_per_second :: int
  no_bidirectional :: int
  no_unidirectional :: int
  no_datagrams_per_second :: int
  no_session_concurrent :: int
  no_session_pending :: int
  no_stream_lifetime :: int
  no_max_concurrent :: int
  no_max_pending :: int
  no_handler_overflow :: handler_overflow
  no_queue_size :: int
  no_queue_overflow :: overflow_policy
  no_allowed_origins :: "string list"
  no_require_origin :: bool
  no_max_header_size :: int
  no_max_datagram_size :: int
  no_handshake_timeout :: int
  no_idle_timeout :: int
  no_authenticate :: bool
  no_route_datagram :: bool
  no_route_bidirectional :: bool
  no_route_unidirectional :: bool
  no_graceful :: bool
  no_drain_timeout :: int
  no_force_close_timeout :: int
  no_max_logs :: int

section \<open>Origins\<close>

record url_parts =
  url_origin :: string
  url_username :: string
  url_password :: string
  url_path :: string
  url_search :: string
  url_hash :: string

definition normalize_origin ::
  "(string \<Rightarrow> url_parts option) \<Rightarrow> string \<Rightarrow> string \<Rightarrow> thrown + string" where
  "normalize_origin parse_url origin label =
     (if origin = ''null'' then Inr origin
      else if origin = [] then Inl (type_error (label @ '' must be a non-empty serialized Origin.''))
      else (case parse_url origin of
              None \<Rightarrow> Inl (type_error (label @ '' must be a valid serialized Origin.''))
            | Some u \<Rightarrow>
                if url_origin u = ''null'' \<or> url_username u \<noteq> [] \<or> url_password u \<noteq> [] \<or>
                   url_path u \<noteq> ''/'' \<or> url_search u \<noteq> [] \<or> url_hash u \<noteq> [] then
                  Inl (type_error (label @
                    '' must not contain credentials, a path, query, or fragment.''))
                else Inr (url_origin u)))"

section \<open>Assertions\<close>

text \<open>A merged limit may be \<open>undefined\<close>, which is no safe integer.\<close>

definition safe_at_least :: "int \<Rightarrow> js_number option \<Rightarrow> bool" where
  "safe_at_least lo v = (case v of None \<Rightarrow> False | Some n \<Rightarrow> int_at_least lo n)"

definition assert_positive :: "js_number option \<Rightarrow> string \<Rightarrow> bool \<times> thrown" where
  "assert_positive v label = (safe_at_least 1 v, range_error (label @ '' must be a positive safe integer.''))"

definition assert_non_negative :: "js_number option \<Rightarrow> string \<Rightarrow> bool \<times> thrown" where
  "assert_non_negative v label =
     (safe_at_least 0 v, range_error (label @ '' must be a non-negative safe integer.''))"

text \<open>\<open>value > bound\<close>: false of \<open>undefined\<close> and of NaN.\<close>

definition exceeds :: "js_number option \<Rightarrow> js_number \<Rightarrow> bool" where
  "exceeds v bound = (case v of None \<Rightarrow> False | Some n \<Rightarrow> js_less bound n)"

definition assert_port :: "js_number \<Rightarrow> bool \<times> thrown" where
  "assert_port v =
     (int_at_least 0 v \<and> \<not> js_less (Finite 65535) v,
      range_error ''server.port must be an integer between 0 and 65535.'')"

definition assert_timer :: "js_number option \<Rightarrow> string \<Rightarrow> bool \<times> thrown" where
  "assert_timer v label =
     (\<not> exceeds v (Finite 2147483647), range_error (label @ '' must not exceed the 2147483647 ms timer limit''))"

definition handler_policies :: "string list" where
  "handler_policies = [''drop'', ''reject'', ''close-session'']"

definition datagram_policies :: "string list" where
  "datagram_policies = [''drop-oldest'', ''drop-newest'', ''reject'', ''close-session'']"

definition assert_policy :: "string \<Rightarrow> string list \<Rightarrow> string \<Rightarrow> bool \<times> thrown" where
  "assert_policy v allowed label = (v \<in> set allowed, type_error (label @ '' is not a supported overflow policy.''))"

section \<open>Limits\<close>

definition merge_limits :: "limit_overrides \<Rightarrow> merged_limits" where
  "merge_limits v =
     \<lparr>ml_max_sessions = spread (Finite 1000) (lo_max_sessions v),
      ml_server_concurrent = spread (Finite 256) (lo_server_concurrent v),
      ml_server_pending = spread (Finite 1024) (lo_server_pending v),
      ml_queued_bytes = spread (Finite 16777216) (lo_queued_bytes v),
      ml_max_streams = spread (Finite 2048) (lo_max_streams v),
      ml_ip_sessions = spread (Finite 100) (lo_ip_sessions v),
      ml_ip_per_second = spread (Finite 10) (lo_ip_per_second v),
      ml_bidirectional = spread (Finite 100) (lo_bidirectional v),
      ml_unidirectional = spread (Finite 100) (lo_unidirectional v),
      ml_datagrams_per_second = spread (Finite 1000) (lo_datagrams_per_second v),
      ml_session_concurrent = spread (Finite 64) (lo_session_concurrent v),
      ml_session_pending = spread (Finite 128) (lo_session_pending v),
      ml_stream_lifetime = spread (Finite 300000) (lo_stream_lifetime v)\<rparr>"

text \<open>
  Addition of numbers, \<open>undefined\<close> counting as NaN. The sum of two safe integers that lies above the
  largest safe integer stays above it when it is rounded to a double.
\<close>

fun js_plus :: "js_number \<Rightarrow> js_number \<Rightarrow> js_number" where
  "js_plus (Finite a) (Finite b) = Finite (a + b)"
| "js_plus NaN b = NaN"
| "js_plus a NaN = NaN"
| "js_plus (Finite a) b = b"
| "js_plus a (Finite b) = a"
| "js_plus a b = (if a = b then a else NaN)"

definition limit_sum :: "js_number option \<Rightarrow> js_number option \<Rightarrow> js_number option" where
  "limit_sum v w = (case (v, w) of (Some a, Some b) \<Rightarrow> Some (js_plus a b) | _ \<Rightarrow> Some NaN)"

text \<open>\<open>validatePositiveLimits\<close>, in order.\<close>

definition limit_assertions :: "merged_limits \<Rightarrow> (bool \<times> thrown) list" where
  "limit_assertions l =
     [assert_positive (ml_max_sessions l) ''limits.server.maxSessions'',
      assert_positive (ml_server_concurrent l) ''limits.server.maxConcurrentHandlers'',
      assert_non_negative (ml_server_pending l) ''limits.server.maxPendingHandlers'',
      assert_positive (ml_queued_bytes l) ''limits.server.maxQueuedDatagramBytes'',
      assert_positive (ml_max_streams l) ''limits.server.maxStreams'',
      assert_positive (limit_sum (ml_server_concurrent l) (ml_server_pending l)) ''limits.server handler capacity'',
      assert_positive (ml_ip_sessions l) ''limits.ip.maxSessions'',
      assert_positive (ml_ip_per_second l) ''limits.ip.sessionsPerSecond'',
      assert_positive (ml_bidirectional l) ''limits.session.maxBidirectionalStreams'',
      assert_positive (ml_unidirectional l) ''limits.session.maxUnidirectionalStreams'',
      assert_positive (ml_datagrams_per_second l) ''limits.session.maxDatagramsPerSecond'',
      assert_positive (ml_session_concurrent l) ''limits.session.maxConcurrentHandlers'',
      assert_non_negative (ml_session_pending l) ''limits.session.maxPendingHandlers'',
      assert_positive (ml_stream_lifetime l) ''limits.stream.maxLifetimeMs'']"

section \<open>Normalisation\<close>

text \<open>\<open>options.execution?.x ?? limits.session.x\<close>: the merged limit may itself be \<open>undefined\<close>.\<close>

fun coalesce_limit :: "js_number js_prop \<Rightarrow> js_number option \<Rightarrow> js_number option" where
  "coalesce_limit (Given x) _ = Some x"
| "coalesce_limit _ d = d"

definition origin_label :: "nat \<Rightarrow> string" where
  "origin_label n = ''security.allowedOrigins['' @ show_nat n @ '']''"

text \<open>The locals of \<open>normalizeWebTransportModuleOptions\<close>, each with its default.\<close>

abbreviation "limits_of o' \<equiv> merge_limits (mo_limits o')"
abbreviation "concurrent_of o' \<equiv> coalesce_limit (mo_max_concurrent o') (ml_session_concurrent (limits_of o'))"
abbreviation "pending_of o' \<equiv> coalesce_limit (mo_max_pending o') (ml_session_pending (limits_of o'))"
abbreviation "queue_size_of o' \<equiv> Some (coalesce (mo_queue_size o') (Finite 256))"
abbreviation "require_origin_of o' \<equiv> coalesce (mo_require_origin o') True"
abbreviation "header_size_of o' \<equiv> Some (coalesce (mo_max_header_size o') (Finite 16384))"
abbreviation "datagram_size_of o' \<equiv> Some (coalesce (mo_max_datagram_size o') (Finite 65536))"
abbreviation "handshake_of o' \<equiv> Some (coalesce (mo_handshake_timeout o') (Finite 5000))"
abbreviation "idle_of o' \<equiv> Some (coalesce (mo_idle_timeout o') (Finite 60000))"
abbreviation "drain_of o' \<equiv> Some (coalesce (mo_drain_timeout o') (Finite 10000))"
abbreviation "force_close_of o' \<equiv> Some (coalesce (mo_force_close_timeout o') (Finite 15000))"
abbreviation "logs_of o' \<equiv> Some (coalesce (mo_max_logs o') (Finite 100))"
abbreviation "handler_overflow_of o' \<equiv> coalesce (mo_handler_overflow o') ''drop''"
abbreviation "queue_overflow_of o' \<equiv> coalesce (mo_queue_overflow o') ''drop-oldest''"

text \<open>The assertions before the origins are normalised, and those after, in the order of the code.\<close>

definition early_assertions :: "js_number \<Rightarrow> module_options \<Rightarrow> (bool \<times> thrown) list" where
  "early_assertions port o' =
     assert_port port # limit_assertions (limits_of o') @
     [assert_positive (concurrent_of o') ''execution.maxConcurrentHandlers'',
      assert_non_negative (pending_of o') ''execution.maxPendingHandlers'',
      assert_positive (queue_size_of o') ''datagrams.queue.size'',
      (\<not> exceeds (queue_size_of o') (Finite 4294967295),
       range_error ''datagrams.queue.size must not exceed 4294967295'')]"

definition late_assertions :: "string list \<Rightarrow> module_options \<Rightarrow> (bool \<times> thrown) list" where
  "late_assertions origins o' =
     [(\<not> (require_origin_of o' \<and> origins = []),
       type_error ''security.allowedOrigins must contain at least one origin when requireOrigin is enabled.''),
      assert_positive (header_size_of o') ''security.maxHeaderSize'',
      assert_positive (datagram_size_of o') ''security.maxDatagramSize'',
      assert_positive (handshake_of o') ''security.handshakeTimeoutMs'',
      assert_non_negative (idle_of o') ''security.idleTimeoutMs'',
      assert_positive (logs_of o') ''observability.maxLogsPerSecond'',
      assert_non_negative (drain_of o') ''shutdown.drainTimeoutMs'',
      assert_positive (force_close_of o') ''shutdown.forceCloseTimeoutMs'',
      assert_timer (handshake_of o') ''security.handshakeTimeoutMs'',
      assert_timer (idle_of o') ''security.idleTimeoutMs'',
      assert_timer (drain_of o') ''shutdown.drainTimeoutMs'',
      assert_timer (force_close_of o') ''shutdown.forceCloseTimeoutMs'',
      assert_timer (ml_stream_lifetime (limits_of o')) ''limits.stream.maxLifetimeMs'',
      assert_policy (handler_overflow_of o') handler_policies ''execution.overflow'',
      assert_policy (queue_overflow_of o') datagram_policies ''datagrams.queue.overflow'']"

text \<open>The object that is returned.\<close>

definition build_options :: "driver_capabilities \<Rightarrow> js_number \<Rightarrow> string list \<Rightarrow> module_options \<Rightarrow> option_values" where
  "build_options driver port origins o' =
     \<lparr>ov_driver = driver, ov_port = port, ov_limits = limits_of o',
      ov_max_concurrent = concurrent_of o', ov_max_pending = pending_of o',
      ov_handler_overflow = handler_overflow_of o',
      ov_queue_size = queue_size_of o', ov_queue_overflow = queue_overflow_of o',
      ov_allowed_origins = fold js_add origins [], ov_require_origin = require_origin_of o',
      ov_max_header_size = header_size_of o', ov_max_datagram_size = datagram_size_of o',
      ov_handshake_timeout = handshake_of o', ov_idle_timeout = idle_of o',
      ov_authenticate = mo_authenticate o',
      ov_route_datagram = mo_route_datagram o', ov_route_bidirectional = mo_route_bidirectional o',
      ov_route_unidirectional = mo_route_unidirectional o',
      ov_graceful = coalesce (mo_graceful o') True,
      ov_drain_timeout = drain_of o', ov_force_close_timeout = force_close_of o',
      ov_max_logs = logs_of o'\<rparr>"

definition normalize_origins ::
  "(string \<Rightarrow> url_parts option) \<Rightarrow> string list \<Rightarrow> thrown + string list" where
  "normalize_origins parse_url origins =
     mapE (\<lambda>(index, origin). normalize_origin parse_url origin (origin_label index))
       (zip [0..<length origins] origins)"

definition normalize_values ::
  "(string \<Rightarrow> url_parts option) \<Rightarrow> module_options \<Rightarrow> thrown + option_values" where
  "normalize_values parse_url o' =
    (case mo_driver o' of
       None \<Rightarrow> Inl (type_error ''WebTransportModule requires a driver.'')
     | Some driver \<Rightarrow>
    (case mo_port o' of
       None \<Rightarrow> Inl (type_error ''WebTransportModule requires server options.'')
     | Some port \<Rightarrow>
        bindE (assert_all (early_assertions port o')) (\<lambda>_.
        bindE (normalize_origins parse_url (coalesce (mo_allowed_origins o') [])) (\<lambda>origins.
        bindE (assert_all (late_assertions origins o')) (\<lambda>_.
        Inr (build_options driver port origins o'))))))"

section \<open>The values at the types of the runtime\<close>

text \<open>
  How the model of the runtime reads the object: a limit as an integer, a policy as a constructor. The
  default cases are for values that the assertions have refused.
\<close>

definition int_of_limit :: "js_number option \<Rightarrow> int" where
  "int_of_limit v = (case v of None \<Rightarrow> 0 | Some n \<Rightarrow> (case safe_int n of None \<Rightarrow> 0 | Some k \<Rightarrow> k))"

fun handler_policy :: "string \<Rightarrow> handler_overflow" where
  "handler_policy s =
     (if s = ''reject'' then RejectTask else if s = ''close-session'' then CloseSessionTask else DropTask)"

fun datagram_policy :: "string \<Rightarrow> overflow_policy" where
  "datagram_policy s =
     (if s = ''drop-newest'' then DropNewest else if s = ''reject'' then Reject
      else if s = ''close-session'' then CloseSession else DropOldest)"

definition typed_options :: "option_values \<Rightarrow> normalized_options" where
  "typed_options v =
     \<lparr>no_driver = ov_driver v, no_port = int_of_limit (Some (ov_port v)),
      no_max_sessions = int_of_limit (ml_max_sessions (ov_limits v)),
      no_server_concurrent = int_of_limit (ml_server_concurrent (ov_limits v)),
      no_server_pending = int_of_limit (ml_server_pending (ov_limits v)),
      no_queued_bytes = int_of_limit (ml_queued_bytes (ov_limits v)),
      no_max_streams = int_of_limit (ml_max_streams (ov_limits v)),
      no_ip_sessions = int_of_limit (ml_ip_sessions (ov_limits v)),
      no_ip_per_second = int_of_limit (ml_ip_per_second (ov_limits v)),
      no_bidirectional = int_of_limit (ml_bidirectional (ov_limits v)),
      no_unidirectional = int_of_limit (ml_unidirectional (ov_limits v)),
      no_datagrams_per_second = int_of_limit (ml_datagrams_per_second (ov_limits v)),
      no_session_concurrent = int_of_limit (ml_session_concurrent (ov_limits v)),
      no_session_pending = int_of_limit (ml_session_pending (ov_limits v)),
      no_stream_lifetime = int_of_limit (ml_stream_lifetime (ov_limits v)),
      no_max_concurrent = int_of_limit (ov_max_concurrent v),
      no_max_pending = int_of_limit (ov_max_pending v),
      no_handler_overflow = handler_policy (ov_handler_overflow v),
      no_queue_size = int_of_limit (ov_queue_size v),
      no_queue_overflow = datagram_policy (ov_queue_overflow v),
      no_allowed_origins = ov_allowed_origins v,
      no_require_origin = ov_require_origin v,
      no_max_header_size = int_of_limit (ov_max_header_size v),
      no_max_datagram_size = int_of_limit (ov_max_datagram_size v),
      no_handshake_timeout = int_of_limit (ov_handshake_timeout v),
      no_idle_timeout = int_of_limit (ov_idle_timeout v),
      no_authenticate = ov_authenticate v,
      no_route_datagram = ov_route_datagram v,
      no_route_bidirectional = ov_route_bidirectional v,
      no_route_unidirectional = ov_route_unidirectional v,
      no_graceful = ov_graceful v,
      no_drain_timeout = int_of_limit (ov_drain_timeout v),
      no_force_close_timeout = int_of_limit (ov_force_close_timeout v),
      no_max_logs = int_of_limit (ov_max_logs v)\<rparr>"

definition normalize_options ::
  "(string \<Rightarrow> url_parts option) \<Rightarrow> module_options \<Rightarrow> thrown + normalized_options" where
  "normalize_options parse_url o' = bindE (normalize_values parse_url o') (\<lambda>v. Inr (typed_options v))"

text \<open>The object whose values are exactly those of typed options.\<close>

fun handler_policy_name :: "handler_overflow \<Rightarrow> string" where
  "handler_policy_name DropTask = ''drop''"
| "handler_policy_name RejectTask = ''reject''"
| "handler_policy_name CloseSessionTask = ''close-session''"

fun datagram_policy_name :: "overflow_policy \<Rightarrow> string" where
  "datagram_policy_name DropOldest = ''drop-oldest''"
| "datagram_policy_name DropNewest = ''drop-newest''"
| "datagram_policy_name Reject = ''reject''"
| "datagram_policy_name CloseSession = ''close-session''"

definition limits_of_options :: "normalized_options \<Rightarrow> merged_limits" where
  "limits_of_options n =
     \<lparr>ml_max_sessions = Some (js_int (no_max_sessions n)),
      ml_server_concurrent = Some (js_int (no_server_concurrent n)),
      ml_server_pending = Some (js_int (no_server_pending n)),
      ml_queued_bytes = Some (js_int (no_queued_bytes n)),
      ml_max_streams = Some (js_int (no_max_streams n)),
      ml_ip_sessions = Some (js_int (no_ip_sessions n)),
      ml_ip_per_second = Some (js_int (no_ip_per_second n)),
      ml_bidirectional = Some (js_int (no_bidirectional n)),
      ml_unidirectional = Some (js_int (no_unidirectional n)),
      ml_datagrams_per_second = Some (js_int (no_datagrams_per_second n)),
      ml_session_concurrent = Some (js_int (no_session_concurrent n)),
      ml_session_pending = Some (js_int (no_session_pending n)),
      ml_stream_lifetime = Some (js_int (no_stream_lifetime n))\<rparr>"

definition values_of_options :: "normalized_options \<Rightarrow> option_values" where
  "values_of_options n =
     \<lparr>ov_driver = no_driver n, ov_port = js_int (no_port n), ov_limits = limits_of_options n,
      ov_max_concurrent = Some (js_int (no_max_concurrent n)),
      ov_max_pending = Some (js_int (no_max_pending n)),
      ov_handler_overflow = handler_policy_name (no_handler_overflow n),
      ov_queue_size = Some (js_int (no_queue_size n)),
      ov_queue_overflow = datagram_policy_name (no_queue_overflow n),
      ov_allowed_origins = no_allowed_origins n, ov_require_origin = no_require_origin n,
      ov_max_header_size = Some (js_int (no_max_header_size n)),
      ov_max_datagram_size = Some (js_int (no_max_datagram_size n)),
      ov_handshake_timeout = Some (js_int (no_handshake_timeout n)),
      ov_idle_timeout = Some (js_int (no_idle_timeout n)),
      ov_authenticate = no_authenticate n, ov_route_datagram = no_route_datagram n,
      ov_route_bidirectional = no_route_bidirectional n, ov_route_unidirectional = no_route_unidirectional n,
      ov_graceful = no_graceful n, ov_drain_timeout = Some (js_int (no_drain_timeout n)),
      ov_force_close_timeout = Some (js_int (no_force_close_timeout n)),
      ov_max_logs = Some (js_int (no_max_logs n))\<rparr>"

section \<open>What a normalised options object guarantees\<close>

definition timer_ok :: "int \<Rightarrow> int \<Rightarrow> bool" where
  "timer_ok lo n \<longleftrightarrow> lo \<le> n \<and> n \<le> 2147483647"

definition valid_options :: "normalized_options \<Rightarrow> bool" where
  "valid_options n \<longleftrightarrow>
     no_port n \<in> {0..65535} \<and>
     (\<forall>x \<in> {no_max_sessions n, no_server_concurrent n, no_queued_bytes n, no_max_streams n,
            no_server_concurrent n + no_server_pending n, no_ip_sessions n, no_ip_per_second n,
            no_bidirectional n, no_unidirectional n, no_datagrams_per_second n,
            no_session_concurrent n, no_max_concurrent n, no_max_header_size n,
            no_max_datagram_size n, no_max_logs n}. 1 \<le> x \<and> x \<le> max_safe) \<and>
     (\<forall>x \<in> {no_server_pending n, no_session_pending n, no_max_pending n}. 0 \<le> x \<and> x \<le> max_safe) \<and>
     1 \<le> no_queue_size n \<and> no_queue_size n \<le> 4294967295 \<and>
     timer_ok 1 (no_handshake_timeout n) \<and> timer_ok 0 (no_idle_timeout n) \<and>
     timer_ok 0 (no_drain_timeout n) \<and> timer_ok 1 (no_force_close_timeout n) \<and>
     timer_ok 1 (no_stream_lifetime n) \<and>
     distinct (no_allowed_origins n) \<and>
     (no_require_origin n \<longrightarrow> no_allowed_origins n \<noteq> [])"

lemma int_of_limit_range: "\<bar>int_of_limit v\<bar> \<le> max_safe"
  by (auto simp: int_of_limit_def max_safe_def split: option.splits dest!: safe_intD)

lemma int_of_limit_js_int [simp]: "\<bar>k\<bar> \<le> max_safe \<Longrightarrow> int_of_limit (Some (js_int k)) = k"
  by (simp add: int_of_limit_def)

lemma safe_at_leastD: "safe_at_least lo v \<Longrightarrow> Some (js_int (int_of_limit v)) = v \<and> lo \<le> int_of_limit v"
  by (auto simp: safe_at_least_def int_of_limit_def int_at_least_def split: option.splits dest: safe_intD)

lemma exceeds_js_int [simp]: "exceeds (Some (js_int k)) (Finite (numeral b)) \<longleftrightarrow> numeral b < k"
  by (simp add: exceeds_def)

lemma limit_sum_js_int [simp]: "limit_sum (Some (js_int a)) (Some (js_int b)) = Some (js_int (a + b))"
  by (simp add: limit_sum_def)

lemmas assertion_defs =
  assert_positive_def assert_non_negative_def assert_port_def assert_timer_def assert_policy_def
  handler_policies_def datagram_policies_def

lemma fold_js_add_distinct: "distinct acc \<Longrightarrow> distinct (fold js_add xs acc)"
  by (induction xs arbitrary: acc) auto

lemma fold_js_add_set: "set (fold js_add xs acc) = set xs \<union> set acc"
  by (induction xs arbitrary: acc) auto

text \<open>A given value that passes is the integer it is read as, and large enough.\<close>

definition read_at_least :: "int \<Rightarrow> js_number option \<Rightarrow> bool" where
  "read_at_least lo v \<longleftrightarrow> Some (js_int (int_of_limit v)) = v \<and> lo \<le> int_of_limit v"

lemma safe_at_least_read: "safe_at_least lo v \<Longrightarrow> read_at_least lo v"
  by (simp add: read_at_least_def safe_at_leastD)

lemma not_exceedsD: "\<not> exceeds v (Finite (numeral b)) \<Longrightarrow> read_at_least lo v \<Longrightarrow> int_of_limit v \<le> numeral b"
  unfolding read_at_least_def by (metis exceeds_js_int linorder_not_less)

lemma limit_assertionsD:
  assumes "\<forall>c \<in> set (limit_assertions l). fst c"
  shows "\<forall>f \<in> {ml_max_sessions, ml_server_concurrent, ml_queued_bytes, ml_max_streams, ml_ip_sessions,
            ml_ip_per_second, ml_bidirectional, ml_unidirectional, ml_datagrams_per_second,
            ml_session_concurrent, ml_stream_lifetime}. read_at_least 1 (f l)"
    and "\<forall>f \<in> {ml_server_pending, ml_session_pending}. read_at_least 0 (f l)"
    and "int_of_limit (ml_server_concurrent l) + int_of_limit (ml_server_pending l) \<le> max_safe"
proof -
  note a = assms [unfolded limit_assertions_def assert_positive_def assert_non_negative_def, simplified]
  show "\<forall>f \<in> {ml_max_sessions, ml_server_concurrent, ml_queued_bytes, ml_max_streams, ml_ip_sessions,
            ml_ip_per_second, ml_bidirectional, ml_unidirectional, ml_datagrams_per_second,
            ml_session_concurrent, ml_stream_lifetime}. read_at_least 1 (f l)"
    and pending: "\<forall>f \<in> {ml_server_pending, ml_session_pending}. read_at_least 0 (f l)"
    using a by (simp_all add: safe_at_least_read)
  have "read_at_least 1 (ml_server_concurrent l)" using a by (simp add: safe_at_least_read)
  with pending have "limit_sum (ml_server_concurrent l) (ml_server_pending l) =
      Some (js_int (int_of_limit (ml_server_concurrent l) + int_of_limit (ml_server_pending l)))"
    unfolding read_at_least_def by (metis insertI1 limit_sum_js_int)
  with a have "safe_at_least 1 (Some (js_int (int_of_limit (ml_server_concurrent l) + int_of_limit (ml_server_pending l))))"
    by simp
  then have "\<bar>int_of_limit (ml_server_concurrent l) + int_of_limit (ml_server_pending l)\<bar> \<le> max_safe"
    unfolding safe_at_least_def option.case int_at_least_js_int by blast
  then show "int_of_limit (ml_server_concurrent l) + int_of_limit (ml_server_pending l) \<le> max_safe" by simp
qed

lemma normalize_valuesD:
  assumes "normalize_values parse_url o' = Inr v"
  obtains driver port origins where
    "mo_driver o' = Some driver" "mo_port o' = Some port"
    "\<forall>c \<in> set (early_assertions port o'). fst c"
    "normalize_origins parse_url (coalesce (mo_allowed_origins o') []) = Inr origins"
    "\<forall>c \<in> set (late_assertions origins o'). fst c"
    "v = build_options driver port origins o'"
  using assms unfolding normalize_values_def
  by (auto simp only: bindE_Inr_iff assert_all_Inr sum.inject split: option.splits)

lemma normalize_optionsD:
  assumes "normalize_options parse_url o' = Inr n"
  obtains driver port origins where
    "mo_driver o' = Some driver" "mo_port o' = Some port"
    "\<forall>c \<in> set (early_assertions port o'). fst c"
    "normalize_origins parse_url (coalesce (mo_allowed_origins o') []) = Inr origins"
    "\<forall>c \<in> set (late_assertions origins o'). fst c"
    "n = typed_options (build_options driver port origins o')"
proof -
  from assms obtain v where "normalize_values parse_url o' = Inr v" "n = typed_options v"
    by (auto simp: normalize_options_def bindE_Inr_iff)
  with that show thesis by (metis normalize_valuesD)
qed

lemma early_assertionsD:
  assumes "\<forall>c \<in> set (early_assertions port o'). fst c"
  shows "read_at_least 0 (Some port)" and "int_of_limit (Some port) \<le> 65535"
    and "\<forall>c \<in> set (limit_assertions (limits_of o')). fst c"
    and "read_at_least 1 (concurrent_of o')" and "read_at_least 0 (pending_of o')"
    and "read_at_least 1 (queue_size_of o')" and "int_of_limit (queue_size_of o') \<le> 4294967295"
proof -
  note a = assms [unfolded early_assertions_def assertion_defs, simplified]
  from a have "safe_at_least 0 (Some port)" "\<not> exceeds (Some port) (Finite 65535)"
    by (simp_all add: safe_at_least_def exceeds_def)
  then show port: "read_at_least 0 (Some port)" "int_of_limit (Some port) \<le> 65535"
    using not_exceedsD safe_at_least_read by metis+
  from a show "\<forall>c \<in> set (limit_assertions (limits_of o')). fst c" by simp
  from a show r: "read_at_least 1 (concurrent_of o')" "read_at_least 0 (pending_of o')" "read_at_least 1 (queue_size_of o')"
    by (simp_all add: safe_at_least_read)
  from a show "int_of_limit (queue_size_of o') \<le> 4294967295" using not_exceedsD [OF _ r(3)] by simp
qed

lemma late_assertionsD:
  assumes "\<forall>c \<in> set (late_assertions origins o'). fst c"
  shows "require_origin_of o' \<longrightarrow> origins \<noteq> []"
    and "\<forall>v \<in> {header_size_of o', datagram_size_of o', handshake_of o', logs_of o', force_close_of o'}. read_at_least 1 v"
    and "\<forall>v \<in> {idle_of o', drain_of o'}. read_at_least 0 v"
    and "\<forall>v \<in> {handshake_of o', idle_of o', drain_of o', force_close_of o', ml_stream_lifetime (limits_of o')}.
           \<not> exceeds v (Finite 2147483647)"
    and "handler_overflow_of o' \<in> {''drop'', ''reject'', ''close-session''}"
    and "queue_overflow_of o' \<in> {''drop-oldest'', ''drop-newest'', ''reject'', ''close-session''}"
  using assms safe_at_least_read unfolding late_assertions_def assertion_defs by simp_all

lemma policy_names:
  "s \<in> {''drop'', ''reject'', ''close-session''} \<Longrightarrow> handler_policy_name (handler_policy s) = s"
  "s \<in> {''drop-oldest'', ''drop-newest'', ''reject'', ''close-session''} \<Longrightarrow> datagram_policy_name (datagram_policy s) = s"
  by auto

text \<open>What the assertions have seen is what the runtime reads.\<close>

lemma build_options_read:
  assumes "\<forall>c \<in> set (early_assertions port o'). fst c" and "\<forall>c \<in> set (late_assertions origins o'). fst c"
  shows "values_of_options (typed_options (build_options driver port origins o')) = build_options driver port origins o'"
proof -
  note e = early_assertionsD [OF assms(1)] and l = late_assertionsD [OF assms(2)]
  note m = limit_assertionsD [OF e(3)]
  have "limits_of_options (typed_options (build_options driver port origins o')) = limits_of o'"
    using m(1,2) by (simp add: limits_of_options_def typed_options_def build_options_def read_at_least_def)
  then show ?thesis
    using e(1,4-6) l(2,3) policy_names(1) [OF l(5)] policy_names(2) [OF l(6)]
    unfolding values_of_options_def typed_options_def build_options_def read_at_least_def
    by (simp del: handler_policy.simps datagram_policy.simps)
qed

lemma build_options_valid:
  assumes "\<forall>c \<in> set (early_assertions port o'). fst c" and "\<forall>c \<in> set (late_assertions origins o'). fst c"
  shows "valid_options (typed_options (build_options driver port origins o'))"
proof -
  note e = early_assertionsD [OF assms(1)] and l = late_assertionsD [OF assms(2)]
  note m = limit_assertionsD [OF e(3)]
  have top: "int_of_limit v \<le> max_safe" for v using int_of_limit_range [of v] by simp
  have life: "\<forall>v \<in> {handshake_of o', idle_of o', drain_of o', force_close_of o', ml_stream_lifetime (limits_of o')}.
      int_of_limit v \<le> 2147483647"
    using l(2,3,4) m(1) not_exceedsD by (metis insertCI insertE singletonD)
  have "fold js_add origins [] \<noteq> []" if "origins \<noteq> []"
    using that fold_js_add_set [of origins "[]"] by (metis set_empty sup_bot.right_neutral)
  then show ?thesis
    using e(1,2,4-7) l(1-3) m life top
    unfolding valid_options_def typed_options_def build_options_def timer_ok_def read_at_least_def
    by (simp add: fold_js_add_distinct add_increasing2)
qed

lemma normalize_valid:
  assumes "normalize_options parse_url o' = Inr n"
  shows "valid_options n"
  using normalize_optionsD [OF assms] build_options_valid by metis

section \<open>Origins in normal form\<close>

text \<open>
  What the development relies on of the platform's URL parser: the serialised origin of a parsed URL
  that is not opaque parses to a URL with the same origin, the path \<open>/\<close> and nothing else.
\<close>

definition origin_serialization :: "(string \<Rightarrow> url_parts option) \<Rightarrow> bool" where
  "origin_serialization parse_url \<longleftrightarrow>
     (\<forall>s u. parse_url s = Some u \<and> url_origin u \<noteq> ''null'' \<longrightarrow>
        url_origin u \<noteq> [] \<and>
        parse_url (url_origin u) =
          Some \<lparr>url_origin = url_origin u, url_username = [], url_password = [], url_path = ''/'',
                url_search = [], url_hash = []\<rparr>)"

lemma normalize_origin_fixed:
  assumes "origin_serialization parse_url" and "normalize_origin parse_url origin label = Inr r"
  shows "normalize_origin parse_url r label' = Inr r"
  using assms
  by (auto simp: normalize_origin_def origin_serialization_def split: if_splits option.splits)

lemma normalize_originsD:
  "normalize_origins parse_url origins = Inr rs \<Longrightarrow> r \<in> set rs \<Longrightarrow>
   \<exists>origin label. normalize_origin parse_url origin label = Inr r"
  unfolding normalize_origins_def using mapE_Inr_set by fastforce

section \<open>The properties\<close>

text \<open>
  C30. Normalisation answers every options object with a \<open>TypeError\<close>, a \<open>RangeError\<close> or an object whose
  values are, number by number and name by name, those of valid options: the port is an integer from 0
  to 65535, all limits of the server, of an address, of a session and of a stream are safe integers of
  the right sign (no fraction, no infinity, no NaN, nothing undefined), the total handler capacity is a
  safe integer, the queue size fits an array, every timer fits the platform's 32-bit timers, the two
  overflow policies are among the names of the documentation, and a required origin has a non-empty,
  duplicate-free allow list. These are the options the runtime reads.
\<close>

theorem normalized_options_valid:
  "case normalize_values parse_url o' of
     Inl e \<Rightarrow> (\<exists>name message. e = JsError name message \<and> name \<in> {''TypeError'', ''RangeError''})
   | Inr v \<Rightarrow> (\<exists>n. v = values_of_options n \<and> valid_options n \<and> normalize_options parse_url o' = Inr n)"
proof (cases "normalize_values parse_url o'")
  case (Inr v)
  from normalize_valuesD [OF Inr] obtain driver port origins where
    "\<forall>c \<in> set (early_assertions port o'). fst c" "\<forall>c \<in> set (late_assertions origins o'). fst c"
    "v = build_options driver port origins o'" by metis
  then have "v = values_of_options (typed_options v)" "valid_options (typed_options v)"
    using build_options_read build_options_valid by metis+
  moreover have "normalize_options parse_url o' = Inr (typed_options v)" by (simp add: normalize_options_def Inr)
  ultimately show ?thesis unfolding Inr by auto
next
  case (Inl e)
  have all: "assert_all cs = Inl e \<Longrightarrow> \<exists>c \<in> set cs. e = snd c" for cs and e :: thrown
    by (induction cs rule: assert_all.induct) (auto split: if_splits)
  have map: "mapE f xs = Inl e \<Longrightarrow> \<exists>x. f x = Inl e" for f and xs :: "(nat \<times> string) list" and e :: thrown
    by (induction xs) (auto simp: bindE_Inl_iff)
  have early: "\<exists>name message. snd c = JsError name message \<and> name \<in> {''TypeError'', ''RangeError''}"
    if "c \<in> set (early_assertions port o')" for c port
    using that by (auto simp: early_assertions_def limit_assertions_def assertion_defs range_error_def type_error_def)
  have late: "\<exists>name message. snd c = JsError name message \<and> name \<in> {''TypeError'', ''RangeError''}"
    if "c \<in> set (late_assertions origins o')" for c origins
    using that by (auto simp: late_assertions_def assertion_defs range_error_def type_error_def)
  have origins: "\<exists>name message. e = JsError name message \<and> name \<in> {''TypeError'', ''RangeError''}"
    if "normalize_origins parse_url os = Inl e" for os
    using map [OF that [unfolded normalize_origins_def]]
    by (auto simp: normalize_origin_def type_error_def split: if_splits option.splits)
  from Inl early late origins show ?thesis
    unfolding normalize_values_def
    by (auto simp: bindE_Inl_iff type_error_def split: option.splits dest!: all)
qed

text \<open>
  The allow list is in normal form: given the documented behaviour of the URL parser, every
  allowed origin of accepted options is a fixed point of \<open>normalizeWebTransportOrigin\<close>, so the
  normalised Origin header of a request is compared with like values.
\<close>

theorem allowed_origins_normal:
  assumes "origin_serialization parse_url" and "normalize_options parse_url o' = Inr n"
  shows "\<forall>r \<in> set (no_allowed_origins n). \<forall>label. normalize_origin parse_url r label = Inr r"
proof -
  from normalize_optionsD [OF assms(2)] obtain driver port origins where
    m: "normalize_origins parse_url (coalesce (mo_allowed_origins o') []) = Inr origins"
    and n: "n = typed_options (build_options driver port origins o')" by metis
  have "set (no_allowed_origins n) = set origins" by (simp add: n typed_options_def build_options_def fold_js_add_set)
  with normalize_originsD [OF m] normalize_origin_fixed [OF assms(1)] show ?thesis by blast
qed

text \<open>An example: a parser that knows one host, and options with the defaults.\<close>

definition example_parser :: "string \<Rightarrow> url_parts option" where
  "example_parser s =
     (if s \<in> {''https://a.example'', ''https://A.example/''} then
        Some \<lparr>url_origin = ''https://a.example'', url_username = [], url_password = [], url_path = ''/'',
              url_search = [], url_hash = []\<rparr>
      else None)"

definition no_overrides :: limit_overrides where
  "no_overrides =
     \<lparr>lo_max_sessions = Absent, lo_server_concurrent = Absent, lo_server_pending = Absent,
      lo_queued_bytes = Absent, lo_max_streams = Absent, lo_ip_sessions = Absent,
      lo_ip_per_second = Absent, lo_bidirectional = Absent, lo_unidirectional = Absent,
      lo_datagrams_per_second = Absent, lo_session_concurrent = Absent, lo_session_pending = Absent,
      lo_stream_lifetime = Absent\<rparr>"

definition default_options :: "driver_capabilities \<Rightarrow> string list \<Rightarrow> module_options" where
  "default_options driver origins =
     \<lparr>mo_driver = Some driver, mo_port = Some (Finite 4433), mo_limits = no_overrides,
      mo_max_concurrent = Absent, mo_max_pending = Absent, mo_handler_overflow = Absent,
      mo_queue_size = Absent, mo_queue_overflow = Absent, mo_allowed_origins = Given origins,
      mo_require_origin = Absent, mo_max_header_size = Absent, mo_max_datagram_size = Absent,
      mo_handshake_timeout = Absent, mo_idle_timeout = Absent, mo_authenticate = False,
      mo_route_datagram = False, mo_route_bidirectional = False, mo_route_unidirectional = False,
      mo_graceful = Absent, mo_drain_timeout = Absent, mo_force_close_timeout = Absent,
      mo_max_logs = Absent\<rparr>"

lemma default_options_accepted:
  assumes "normalize_origins parse_url origins = Inr rs" and "rs \<noteq> []"
  shows "normalize_options parse_url (default_options driver origins) =
     Inr (typed_options (build_options driver (Finite 4433) rs (default_options driver origins)))"
proof -
  let ?o = "default_options driver origins"
  have "assert_all (early_assertions (Finite 4433) ?o) = Inr ()"
    unfolding assert_all_Inr
    by (simp add: early_assertions_def limit_assertions_def assertion_defs default_options_def
        no_overrides_def merge_limits_def safe_at_least_def exceeds_def limit_sum_def max_safe_def)
  moreover have "assert_all (late_assertions rs ?o) = Inr ()"
    unfolding assert_all_Inr using assms(2)
    by (simp add: late_assertions_def assertion_defs default_options_def
        no_overrides_def merge_limits_def safe_at_least_def exceeds_def max_safe_def)
  moreover have "mo_driver ?o = Some driver" "mo_port ?o = Some (Finite 4433)"
    "coalesce (mo_allowed_origins ?o) [] = origins"
    by (simp_all add: default_options_def)
  ultimately show ?thesis
    using assms(1) by (simp add: normalize_options_def normalize_values_def del: assert_all_Inr)
qed

definition example_driver :: driver_capabilities where
  "example_driver =
     \<lparr>cap_datagrams = True, cap_bidirectional = True, cap_unidirectional = True, cap_graceful = True\<rparr>"

lemma example_origins: "normalize_origins example_parser [''https://A.example/''] = Inr [''https://a.example'']"
  by (simp add: normalize_origins_def normalize_origin_def example_parser_def)

lemma example_serialization: "origin_serialization example_parser"
  by (auto simp: origin_serialization_def example_parser_def)

theorem allowed_origins_normal_witness:
  "\<exists>n. normalize_options example_parser (default_options example_driver [''https://A.example/'']) = Inr n \<and>
       no_allowed_origins n = [''https://a.example''] \<and>
       normalize_origin example_parser ''https://a.example'' ''Origin header'' = Inr ''https://a.example''"
proof -
  note n = default_options_accepted [OF example_origins, of example_driver, simplified]
  have "no_allowed_origins (typed_options (build_options example_driver (Finite 4433) [''https://a.example'']
      (default_options example_driver [''https://A.example/'']))) = [''https://a.example'']"
    by (simp add: typed_options_def build_options_def js_add_def)
  with n allowed_origins_normal [OF example_serialization n] show ?thesis by simp
qed

text \<open>
  The defaults: options that give only a driver, a port and an allow list are accepted, with the
  documented limits. An override that is present with the value \<open>undefined\<close> is not a default: in the
  limits it is refused, because object spread copies it over the default, while everywhere else
  \<open>??\<close> treats it as absent.
\<close>

theorem option_defaults:
  assumes "normalize_origins parse_url origins = Inr rs" and "rs \<noteq> []"
  shows "(\<exists>n. normalize_options parse_url (default_options driver origins) = Inr n \<and>
       no_max_sessions n = 1000 \<and> no_ip_sessions n = 100 \<and> no_ip_per_second n = 10 \<and>
       no_max_concurrent n = 64 \<and> no_max_pending n = 128 \<and> no_queue_size n = 256 \<and>
       no_queue_overflow n = DropOldest \<and> no_handler_overflow n = DropTask \<and>
       no_require_origin n \<and> no_graceful n \<and> no_idle_timeout n = 60000) \<and>
     normalize_options parse_url
       ((default_options driver origins)\<lparr>mo_limits := no_overrides\<lparr>lo_max_sessions := Undefined\<rparr>\<rparr>) =
       Inl (range_error ''limits.server.maxSessions must be a positive safe integer.'') \<and>
     normalize_options parse_url ((default_options driver origins)\<lparr>mo_idle_timeout := Undefined\<rparr>) =
       normalize_options parse_url (default_options driver origins)"
proof (intro conjI)
  show "\<exists>n. normalize_options parse_url (default_options driver origins) = Inr n \<and>
       no_max_sessions n = 1000 \<and> no_ip_sessions n = 100 \<and> no_ip_per_second n = 10 \<and>
       no_max_concurrent n = 64 \<and> no_max_pending n = 128 \<and> no_queue_size n = 256 \<and>
       no_queue_overflow n = DropOldest \<and> no_handler_overflow n = DropTask \<and>
       no_require_origin n \<and> no_graceful n \<and> no_idle_timeout n = 60000"
    unfolding default_options_accepted [OF assms]
    by (simp add: typed_options_def build_options_def default_options_def no_overrides_def merge_limits_def
        int_of_limit_def max_safe_def)
  show "normalize_options parse_url
           ((default_options driver origins)\<lparr>mo_limits := no_overrides\<lparr>lo_max_sessions := Undefined\<rparr>\<rparr>) =
         Inl (range_error ''limits.server.maxSessions must be a positive safe integer.'')"
    by (simp add: normalize_options_def normalize_values_def early_assertions_def limit_assertions_def assertion_defs
        default_options_def no_overrides_def merge_limits_def safe_at_least_def max_safe_def)
  show "normalize_options parse_url ((default_options driver origins)\<lparr>mo_idle_timeout := Undefined\<rparr>) =
         normalize_options parse_url (default_options driver origins)"
    by (simp add: normalize_options_def normalize_values_def early_assertions_def late_assertions_def default_options_def
        build_options_def)
qed

theorem option_defaults_witness:
  "\<exists>n. normalize_options example_parser (default_options example_driver [''https://A.example/'']) = Inr n \<and>
       no_max_sessions n = 1000"
  using option_defaults [OF example_origins, of example_driver] by auto

end
