(* ===== verification/Gateway_Registry.thy ===== *)
theory Gateway_Registry
  imports Errors "HOL-Library.Multiset"
begin

text \<open>
  Gateways and their handlers: \<open>packages/nest-webtransport/src/routing/gateway-registry.ts\<close>, the decorators
  of \<open>decorators/\<close> and the discovery of \<open>discovery/gateway-explorer.ts\<close>. The platform's URL parser is
  the parameter \<open>url\<close>: the \<open>pathname\<close> of \<open>new URL(path, 'https://webtransport.invalid')\<close>, or \<open>None\<close>
  when the constructor throws.
\<close>

datatype handler_kind = SessionKind | DatagramKind | BidirectionalKind | UnidirectionalKind

fun kind_name :: "handler_kind \<Rightarrow> string" where
  "kind_name SessionKind = ''session''"
| "kind_name DatagramKind = ''datagram''"
| "kind_name BidirectionalKind = ''bidirectional-stream''"
| "kind_name UnidirectionalKind = ''unidirectional-stream''"

datatype parameter_kind = SessionParameter | StreamParameter | PayloadParameter | ContextParameter

record parameter_metadata =
  par_index :: nat
  par_kind :: parameter_kind
  par_pipes :: "nat list"

text \<open>A compiled handler; the provider's instance and method are its identity \<open>ch_id\<close>.\<close>

record compiled_handler =
  ch_path :: string
  ch_kind :: handler_kind
  ch_route :: "string option"
  ch_method :: string
  ch_parameters :: "parameter_metadata list"
  ch_id :: nat

section \<open>Paths and keys\<close>

text \<open>\<open>pathname.replace(/\/+$/, '')\<close>\<close>

definition strip_slashes :: "string \<Rightarrow> string" where
  "strip_slashes s = rev (dropWhile (\<lambda>c. c = CHR ''/'') (rev s))"

definition normalize_path :: "(string \<Rightarrow> string option) \<Rightarrow> string \<Rightarrow> string" where
  "normalize_path url path =
     (let p = (case url path of Some q \<Rightarrow> q | None \<Rightarrow> path);
          p' = (if take 1 p = ''/'' then p else CHR ''/'' # p)
      in if length p' > 1 then strip_slashes p' else p')"

definition nul :: char where
  "nul = CHR 0x00"

definition kind_key :: "(string \<Rightarrow> string option) \<Rightarrow> string \<Rightarrow> handler_kind \<Rightarrow> string" where
  "kind_key url path kind = normalize_path url path @ nul # kind_name kind"

definition registry_key ::
  "(string \<Rightarrow> string option) \<Rightarrow> string \<Rightarrow> handler_kind \<Rightarrow> string option \<Rightarrow> string" where
  "registry_key url path kind route =
     normalize_path url path @ nul # kind_name kind @ nul # (case route of Some r \<Rightarrow> r | None \<Rightarrow> [])"

section \<open>The registry\<close>

record gateway_registry =
  reg_handlers :: "(string \<times> compiled_handler list) list"
  reg_paths :: "string list"
  reg_kinds :: "string list"

definition clear_registry :: "gateway_registry \<Rightarrow> gateway_registry" where
  "clear_registry g = g\<lparr>reg_handlers := [], reg_paths := [], reg_kinds := []\<rparr>"

definition register_handler ::
  "(string \<Rightarrow> string option) \<Rightarrow> compiled_handler \<Rightarrow> gateway_registry \<Rightarrow> gateway_registry" where
  "register_handler url h g =
     (let key = registry_key url (ch_path h) (ch_kind h) (ch_route h);
          g1 = g\<lparr>reg_paths := js_add (normalize_path url (ch_path h)) (reg_paths g),
                 reg_kinds := js_add (kind_key url (ch_path h) (ch_kind h)) (reg_kinds g)\<rparr>
      in case map_of (reg_handlers g1) key of
           None \<Rightarrow> g1\<lparr>reg_handlers := AList.update key [h] (reg_handlers g1)\<rparr>
         | Some hs \<Rightarrow> g1\<lparr>reg_handlers := AList.update key (hs @ [h]) (reg_handlers g1)\<rparr>)"

definition find_handlers ::
  "(string \<Rightarrow> string option) \<Rightarrow> string \<Rightarrow> handler_kind \<Rightarrow> string option \<Rightarrow> gateway_registry
     \<Rightarrow> compiled_handler list" where
  "find_handlers url path kind route g =
     (let path' = normalize_path url path;
          exact = (if route = None \<or> route = Some [] then None
                   else map_of (reg_handlers g) (registry_key url path' kind route));
          fallback = map_of (reg_handlers g) (registry_key url path' kind None)
      in case exact of
           None \<Rightarrow> (case fallback of None \<Rightarrow> [] | Some f \<Rightarrow> f)
         | Some e \<Rightarrow> (case fallback of None \<Rightarrow> e | Some f \<Rightarrow> e @ f))"

definition registry_size :: "gateway_registry \<Rightarrow> nat" where
  "registry_size g = fold (\<lambda>(_, hs) count. count + length hs) (reg_handlers g) 0"

definition list_handlers :: "gateway_registry \<Rightarrow> compiled_handler list" where
  "list_handlers g = concat (map snd (reg_handlers g))"

definition has_path :: "(string \<Rightarrow> string option) \<Rightarrow> string \<Rightarrow> gateway_registry \<Rightarrow> bool" where
  "has_path url path g \<longleftrightarrow> normalize_path url path \<in> set (reg_paths g)"

definition has_handlers ::
  "(string \<Rightarrow> string option) \<Rightarrow> string \<Rightarrow> handler_kind \<Rightarrow> gateway_registry \<Rightarrow> bool" where
  "has_handlers url path kind g \<longleftrightarrow> kind_key url path kind \<in> set (reg_kinds g)"

definition empty_registry :: gateway_registry where
  "empty_registry = \<lparr>reg_handlers = [], reg_paths = [], reg_kinds = []\<rparr>"

definition register_all ::
  "(string \<Rightarrow> string option) \<Rightarrow> compiled_handler list \<Rightarrow> gateway_registry" where
  "register_all url hs = fold (register_handler url) hs empty_registry"

section \<open>Keys are injective\<close>

lemma nul_notin_kind [simp]: "nul \<notin> set (kind_name k)"
  by (cases k) (auto simp: nul_def)

lemma kind_name_inject [simp]: "kind_name k = kind_name k' \<longleftrightarrow> k = k'"
  by (cases k; cases k') auto

lemma split_at_nul:
  "nul \<notin> set p \<Longrightarrow> nul \<notin> set p' \<Longrightarrow> p @ nul # r = p' @ nul # r' \<longleftrightarrow> p = p' \<and> r = r'"
proof (induction p arbitrary: p')
  case Nil
  then show ?case by (cases p') auto
next
  case (Cons c p)
  then show ?case by (cases p') auto
qed

text \<open>The route a key stands for: no route and the empty route share one.\<close>

definition route_text :: "string option \<Rightarrow> string" where
  "route_text r = (case r of Some s \<Rightarrow> s | None \<Rightarrow> [])"

lemma registry_key_inject:
  assumes "nul \<notin> set (normalize_path url p)" and "nul \<notin> set (normalize_path url p')"
  shows "registry_key url p k r = registry_key url p' k' r' \<longleftrightarrow>
     normalize_path url p = normalize_path url p' \<and> k = k' \<and> route_text r = route_text r'"
proof -
  have e: "registry_key url p k r = normalize_path url p @ nul # (kind_name k @ nul # route_text r)" for p k r
    by (simp add: registry_key_def route_text_def)
  show ?thesis unfolding e split_at_nul [OF assms]
    by (simp add: split_at_nul [OF nul_notin_kind nul_notin_kind])
qed

lemma kind_key_inject:
  "nul \<notin> set (normalize_path url p) \<Longrightarrow> nul \<notin> set (normalize_path url p') \<Longrightarrow>
   kind_key url p k = kind_key url p' k' \<longleftrightarrow> normalize_path url p = normalize_path url p' \<and> k = k'"
  by (simp add: kind_key_def split_at_nul)

section \<open>What the registry holds\<close>

abbreviation key_of :: "(string \<Rightarrow> string option) \<Rightarrow> compiled_handler \<Rightarrow> string" where
  "key_of url h \<equiv> registry_key url (ch_path h) (ch_kind h) (ch_route h)"

definition holds :: "(string \<Rightarrow> string option) \<Rightarrow> compiled_handler list \<Rightarrow> gateway_registry \<Rightarrow> bool" where
  "holds url hs g \<longleftrightarrow>
     distinct (keys (reg_handlers g)) \<and>
     (\<forall>k. map_of (reg_handlers g) k =
        (let xs = filter (\<lambda>h. key_of url h = k) hs in if xs = [] then None else Some xs)) \<and>
     set (reg_paths g) = (\<lambda>h. normalize_path url (ch_path h)) ` set hs \<and>
     set (reg_kinds g) = (\<lambda>h. kind_key url (ch_path h) (ch_kind h)) ` set hs"

lemma register_holds: "holds url hs g \<Longrightarrow> holds url (hs @ [h]) (register_handler url h g)"
  by (auto simp: holds_def register_handler_def Let_def distinct_keys_update map_of_update
      split: option.splits)

lemma register_all_holds: "holds url hs (register_all url hs)"
proof (induction hs rule: rev_induct)
  case Nil
  then show ?case by (simp add: holds_def register_all_def empty_registry_def)
next
  case (snoc h hs)
  then show ?case by (simp add: register_all_def register_holds)
qed

section \<open>Decorators\<close>

text \<open>\<open>normalizeGatewayOptions\<close> of the gateway decorator, on a path that is a string.\<close>

definition gateway_decorator_path :: "string \<Rightarrow> thrown + string" where
  "gateway_decorator_path path =
     (if path = [] \<or> take 1 path \<noteq> ''/'' then
        Inl (type_error ''A WebTransport gateway path must be a non-empty absolute path.'')
      else Inr (if length path > 1 then strip_slashes path else path))"

record handler_metadata =
  hm_kind :: handler_kind
  hm_route :: "string option"

text \<open>\<open>createHandlerDecorator\<close>, applied to a property whose value is a function or not.\<close>

definition handler_decorator :: "handler_kind \<Rightarrow> string option \<Rightarrow> bool \<Rightarrow> thrown + handler_metadata" where
  "handler_decorator kind route on_method =
     (if route = Some [] then
        Inl (type_error ''A WebTransport handler route cannot be an empty string.'')
      else if \<not> on_method then
        Inl (type_error ''WebTransport event decorators can only be used on methods.'')
      else Inr \<lparr>hm_kind = kind, hm_route = route\<rparr>)"

definition parameter_decorator ::
  "parameter_kind \<Rightarrow> nat list \<Rightarrow> nat \<Rightarrow> parameter_metadata list \<Rightarrow> parameter_metadata list" where
  "parameter_decorator kind pipes index existing =
     sort_key par_index
       (filter (\<lambda>p. par_index p \<noteq> index) existing @ [\<lparr>par_index = index, par_kind = kind, par_pipes = pipes\<rparr>])"

text \<open>The decorators of one method, in the order in which they are evaluated.\<close>

definition decorate :: "(parameter_kind \<times> nat list \<times> nat) list \<Rightarrow> parameter_metadata list" where
  "decorate ds = fold (\<lambda>(kind, pipes, index) ps. parameter_decorator kind pipes index ps) ds []"

section \<open>Discovery\<close>

text \<open>
  A method found on an object of the prototype chain: whether its value is a function, the handler
  metadata of that function, and the parameter metadata that this object itself has for the name.
\<close>

record method_slot =
  slot_function :: bool
  slot_handler :: "handler_metadata option"
  slot_parameters :: "parameter_metadata list option"

type_synonym object_table = "(string \<times> method_slot) list"

text \<open>
  A provider: its class's gateway path (if it has a metatype with gateway metadata), the own
  properties of its instance (if it is instantiated), the prototype chain of its class, the method
  names that the framework's scanner returns for the prototype, and the identity of the instance.
\<close>

record provider =
  pv_gateway :: "string option"
  pv_instance :: "object_table option"
  pv_prototypes :: "object_table list"
  pv_methods :: "string list"
  pv_id :: nat

text \<open>\<open>Reflect.get\<close> along a chain of objects, and the first object that has the property itself.\<close>

fun lookup_chain :: "object_table list \<Rightarrow> string \<Rightarrow> method_slot option" where
  "lookup_chain [] name = None"
| "lookup_chain (t # ts) name = (case map_of t name of Some s \<Rightarrow> Some s | None \<Rightarrow> lookup_chain ts name)"

definition discovery_chain :: "provider \<Rightarrow> object_table list" where
  "discovery_chain p =
     (case pv_instance p of Some own \<Rightarrow> own # pv_prototypes p | None \<Rightarrow> pv_prototypes p)"

definition explore_method :: "string \<Rightarrow> provider \<Rightarrow> string \<Rightarrow> compiled_handler option" where
  "explore_method path p name =
     (case lookup_chain (discovery_chain p) name of
        None \<Rightarrow> None
      | Some s \<Rightarrow>
          if \<not> slot_function s then None
          else (case slot_handler s of
                  None \<Rightarrow> None
                | Some m \<Rightarrow>
                    let parameters =
                          (case lookup_chain (pv_prototypes p) name of
                             None \<Rightarrow> []
                           | Some d \<Rightarrow> (case slot_parameters d of Some ps \<Rightarrow> ps | None \<Rightarrow> []))
                    in Some \<lparr>ch_path = path, ch_kind = hm_kind m, ch_route = hm_route m,
                             ch_method = name, ch_parameters = parameters, ch_id = pv_id p\<rparr>))"

definition explore_provider ::
  "(string \<Rightarrow> string option) \<Rightarrow> provider \<Rightarrow> gateway_registry \<Rightarrow> gateway_registry" where
  "explore_provider url p g =
     (case pv_gateway p of
        None \<Rightarrow> g
      | Some path \<Rightarrow>
          if pv_instance p = None \<and> pv_prototypes p = [] then g
          else fold (\<lambda>name g. case explore_method path p name of None \<Rightarrow> g | Some h \<Rightarrow> register_handler url h g)
                 (pv_methods p) g)"

definition explore :: "(string \<Rightarrow> string option) \<Rightarrow> provider list \<Rightarrow> gateway_registry \<Rightarrow> gateway_registry" where
  "explore url ps g = fold (explore_provider url) ps (clear_registry g)"

text \<open>The handlers a list of providers declares, in discovery order.\<close>

definition declared_handlers :: "provider list \<Rightarrow> compiled_handler list" where
  "declared_handlers ps =
     concat (map (\<lambda>p. case pv_gateway p of
        None \<Rightarrow> []
      | Some path \<Rightarrow> if pv_instance p = None \<and> pv_prototypes p = [] then []
                     else List.map_filter (explore_method path p) (pv_methods p)) ps)"

lemma fold_methods:
  "fold (\<lambda>name g. case f name of None \<Rightarrow> g | Some h \<Rightarrow> register_handler url h g) names g =
   fold (register_handler url) (List.map_filter f names) g"
  by (induction names arbitrary: g) (auto simp: map_filter_simps split: option.splits)

lemma explore_register: "explore url ps empty_registry = register_all url (declared_handlers ps)"
proof -
  have p: "explore_provider url p g = fold (register_handler url) (declared_handlers [p]) g" for p g
    by (auto simp: explore_provider_def declared_handlers_def fold_methods split: option.splits)
  have "fold (explore_provider url) ps g = fold (register_handler url) (declared_handlers ps) g" for g
    by (induction ps arbitrary: g) (simp_all add: p declared_handlers_def)
  then show ?thesis
    by (simp add: explore_def register_all_def clear_registry_def empty_registry_def)
qed

lemma clear_registry_eq: "clear_registry g = empty_registry"
  by (simp add: clear_registry_def empty_registry_def)

lemma explore_holds: "holds url (declared_handlers ps) (explore url ps g)"
proof -
  have "explore url ps g = explore url ps empty_registry"
    by (simp add: explore_def clear_registry_eq)
  then show ?thesis by (simp add: explore_register register_all_holds)
qed

section \<open>Counting\<close>

lemma concat_update_append:
  "distinct (keys m) \<Longrightarrow> map_of m k = Some hs \<Longrightarrow>
   mset (concat (map snd (AList.update k (hs @ [h]) m))) = add_mset h (mset (concat (map snd m)))"
  by (induction m) auto

lemma concat_update_new:
  "map_of m k = None \<Longrightarrow> concat (map snd (AList.update k [h] m)) = concat (map snd m) @ [h]"
  by (induction m) (auto split: if_splits)

lemma register_list:
  "holds url hs g \<Longrightarrow>
   mset (list_handlers (register_handler url h g)) = add_mset h (mset (list_handlers g))"
  by (auto simp: register_handler_def list_handlers_def Let_def holds_def concat_update_append
      concat_update_new simp del: mset_concat split: option.splits)

lemma register_all_list: "mset (list_handlers (register_all url hs)) = mset hs"
proof (induction hs rule: rev_induct)
  case Nil
  then show ?case by (simp add: register_all_def empty_registry_def list_handlers_def)
next
  case (snoc h hs)
  then show ?case
    using register_list [OF register_all_holds, of url h hs] by (simp add: register_all_def)
qed

lemma registry_size_list: "registry_size g = length (list_handlers g)"
proof -
  have "fold (\<lambda>(_, hs) count. count + length hs) m n = n + length (concat (map snd m))"
    for m :: "(string \<times> compiled_handler list) list" and n
    by (induction m arbitrary: n) auto
  then show ?thesis by (simp add: registry_size_def list_handlers_def)
qed

section \<open>The properties\<close>

text \<open>The handlers of a list that serve a path and a kind, by route.\<close>

definition serving ::
  "(string \<Rightarrow> string option) \<Rightarrow> compiled_handler list \<Rightarrow> string \<Rightarrow> handler_kind \<Rightarrow> string
     \<Rightarrow> compiled_handler list" where
  "serving url hs path kind route =
     filter (\<lambda>h. normalize_path url (ch_path h) = normalize_path url path \<and> ch_kind h = kind \<and>
                 route_text (ch_route h) = route) hs"

text \<open>
  C31. Routing is exact: after discovery, \<open>find\<close> returns the handlers declared for the path and kind
  with the requested route, in declaration order, followed by those without a route; \<open>hasPath\<close> and
  \<open>hasHandlers\<close> say whether any handler is declared for the path, or for the path and kind; and the
  registry lists every declared handler exactly once. Whatever the registry held before is gone.
  The path must be a fixed point of the second normalisation that \<open>find\<close> applies, and normalised
  paths contain no NUL character, as the URL parser percent-encodes it.
\<close>

theorem registry_routing:
  assumes "\<forall>p \<in> insert path (ch_path ` set (declared_handlers ps)). nul \<notin> set (normalize_path url p)"
    and "normalize_path url (normalize_path url path) = normalize_path url path"
  shows "let hs = declared_handlers ps; g = explore url ps g0 in
     find_handlers url path kind route g =
       (if route_text route = [] then [] else serving url hs path kind (route_text route)) @
       serving url hs path kind [] \<and>
     (has_path url path g \<longleftrightarrow> (\<exists>h \<in> set hs. normalize_path url (ch_path h) = normalize_path url path)) \<and>
     (has_handlers url path kind g \<longleftrightarrow> (\<exists>r. serving url hs path kind r \<noteq> [])) \<and>
     mset (list_handlers g) = mset hs \<and> registry_size g = length hs"
proof -
  let ?hs = "declared_handlers ps" and ?g = "explore url ps g0"
  have h: "holds url ?hs ?g" by (rule explore_holds)
  have hp: "set (reg_paths ?g) = (\<lambda>h. normalize_path url (ch_path h)) ` set ?hs"
    using h by (simp add: holds_def)
  have hk: "set (reg_kinds ?g) = (\<lambda>h. kind_key url (ch_path h) (ch_kind h)) ` set ?hs"
    using h by (simp add: holds_def)
  have ne: "nul \<notin> set (normalize_path url path)" "\<forall>h \<in> set ?hs. nul \<notin> set (normalize_path url (ch_path h))"
    using assms(1) by auto
  have ne': "nul \<notin> set (normalize_path url (normalize_path url path))" using ne assms(2) by simp
  have f: "filter (\<lambda>h. key_of url h = registry_key url (normalize_path url path) kind r) ?hs =
      serving url ?hs path kind (route_text r)" for r
    unfolding serving_def
    by (rule filter_cong [OF refl]) (use ne ne' assms(2) in \<open>auto simp: registry_key_inject\<close>)
  have m: "map_of (reg_handlers ?g) (registry_key url (normalize_path url path) kind r) =
      (if serving url ?hs path kind (route_text r) = [] then None
       else Some (serving url ?hs path kind (route_text r)))" for r
    using h f [of r] by (simp add: holds_def Let_def)
  have "find_handlers url path kind route ?g =
       (if route_text route = [] then [] else serving url ?hs path kind (route_text route)) @
       serving url ?hs path kind []"
    using m [of route] m [of None] by (auto simp: find_handlers_def Let_def route_text_def split: option.splits)
  moreover have "has_path url path ?g \<longleftrightarrow> (\<exists>h \<in> set ?hs. normalize_path url (ch_path h) = normalize_path url path)"
    unfolding has_path_def hp by (auto intro: rev_image_eqI)
  moreover have "has_handlers url path kind ?g \<longleftrightarrow> (\<exists>r. serving url ?hs path kind r \<noteq> [])"
  proof -
    have "has_handlers url path kind ?g \<longleftrightarrow>
        (\<exists>h \<in> set ?hs. kind_key url (ch_path h) (ch_kind h) = kind_key url path kind)"
      unfolding has_handlers_def hk by (auto intro: rev_image_eqI)
    also have "\<dots> \<longleftrightarrow> (\<exists>h \<in> set ?hs. normalize_path url (ch_path h) = normalize_path url path \<and> ch_kind h = kind)"
      by (rule bex_cong [OF refl]) (use ne in \<open>simp add: kind_key_inject\<close>)
    also have "\<dots> \<longleftrightarrow> (\<exists>r. serving url ?hs path kind r \<noteq> [])"
      by (auto simp: serving_def filter_empty_conv)
    finally show ?thesis .
  qed
  moreover have "mset (list_handlers ?g) = mset ?hs"
    using register_all_list explore_register by (simp add: explore_def clear_registry_eq)
  moreover have "registry_size ?g = length ?hs"
    using \<open>mset (list_handlers ?g) = mset ?hs\<close> unfolding registry_size_list by (rule mset_eq_length)
  ultimately show ?thesis by (simp only: Let_def simp_thms)
qed

text \<open>
  An example of the parser on the paths that the witnesses use: a path that begins with two slashes
  is a network-path reference, whose first segment is a host; a dot segment is removed.
\<close>

definition example_url :: "string \<Rightarrow> string option" where
  "example_url s =
     (if s = ''//host/chat'' then Some ''/chat''
      else if s = ''/.//host/chat'' then Some ''//host/chat''
      else Some s)"

definition example_provider :: "string \<Rightarrow> provider" where
  "example_provider path =
     \<lparr>pv_gateway = Some path, pv_instance = Some [],
      pv_prototypes = [[(''message'', \<lparr>slot_function = True,
         slot_handler = Some \<lparr>hm_kind = DatagramKind, hm_route = None\<rparr>, slot_parameters = None\<rparr>)]],
      pv_methods = [''message''], pv_id = 0\<rparr>"

definition example_handler :: "string \<Rightarrow> compiled_handler" where
  "example_handler path =
     \<lparr>ch_path = path, ch_kind = DatagramKind, ch_route = None, ch_method = ''message'',
      ch_parameters = [], ch_id = 0\<rparr>"

lemma example_declared: "declared_handlers [example_provider path] = [example_handler path]"
  by (simp add: declared_handlers_def example_provider_def example_handler_def explore_method_def
      discovery_chain_def map_filter_simps)

lemma example_paths:
  "normalize_path example_url ''/chat'' = ''/chat''" "normalize_path example_url ''//host/chat'' = ''/chat''"
  "normalize_path example_url ''/.//host/chat'' = ''//host/chat''"
  by (simp_all add: normalize_path_def example_url_def strip_slashes_def Let_def)

theorem registry_routing_witness:
  "find_handlers example_url ''/chat'' DatagramKind (Some ''typing'')
     (explore example_url [example_provider ''/chat''] empty_registry) = [example_handler ''/chat'']"
proof -
  let ?ps = "[example_provider ''/chat'']"
  have a: "\<forall>p \<in> insert ''/chat'' (ch_path ` set (declared_handlers ?ps)).
      nul \<notin> set (normalize_path example_url p)"
    by (simp add: example_declared example_handler_def example_paths nul_def)
  have b: "normalize_path example_url (normalize_path example_url ''/chat'') = normalize_path example_url ''/chat''"
    by (simp add: example_paths)
  show ?thesis
    using registry_routing [OF a b, where kind = DatagramKind and route = "Some ''typing''" and ?g0.0 = empty_registry]
    by (simp add: Let_def example_declared example_handler_def serving_def route_text_def example_paths)
qed

text \<open>
  What the URL Standard says of a network-path reference \<open>//host/rest\<close> whose host is valid and whose rest is
  a plain absolute path, or empty: the path is the rest, and the rest stands for itself.
\<close>

definition plain_path :: "string \<Rightarrow> string" where
  "plain_path rest = (if rest = [] then ''/'' else rest)"

definition network_path :: "(string \<Rightarrow> string option) \<Rightarrow> string \<Rightarrow> string \<Rightarrow> bool" where
  "network_path url host rest \<longleftrightarrow>
     host \<noteq> [] \<and> take 1 (plain_path rest) = ''/'' \<and>
     url (''//'' @ host @ rest) = Some (plain_path rest) \<and> url (plain_path rest) = Some (plain_path rest)"

lemma strip_slashes_length: "length (strip_slashes s) \<le> length s"
proof -
  have "length (dropWhile P xs) \<le> length xs" for P and xs :: string
    using length_dropWhile_le by auto
  then show ?thesis by (simp add: strip_slashes_def) (metis length_rev)
qed

lemma network_path_normal:
  assumes "network_path url host rest"
  shows "normalize_path url (''//'' @ host @ rest) = normalize_path url (plain_path rest)"
    and "normalize_path url (plain_path rest) \<noteq> ''//'' @ host @ rest"
proof -
  from assms show "normalize_path url (''//'' @ host @ rest) = normalize_path url (plain_path rest)"
    by (simp only: normalize_path_def network_path_def option.case)
  have "length (normalize_path url (plain_path rest)) \<le> length (plain_path rest)"
    using assms strip_slashes_length by (simp add: normalize_path_def network_path_def Let_def)
  also have "\<dots> < length (''//'' @ host @ rest)" by (simp add: plain_path_def)
  finally show "normalize_path url (plain_path rest) \<noteq> ''//'' @ host @ rest" by auto
qed

lemma found_key:
  assumes "holds url hs g" "h \<in> set (find_handlers url path kind route g)"
  shows "h \<in> set hs \<and> (\<exists>r. key_of url h = registry_key url (normalize_path url path) kind r)"
proof -
  have m: "x \<in> set hs \<and> key_of url x = k" if "map_of (reg_handlers g) k = Some xs" "x \<in> set xs" for k x xs
    using assms(1) that by (auto simp: holds_def Let_def split: if_splits)
  from assms(2) have "\<exists>r xs. map_of (reg_handlers g) (registry_key url (normalize_path url path) kind r) = Some xs \<and> h \<in> set xs"
    by (cases "map_of (reg_handlers g) (registry_key url (normalize_path url path) kind None)";
        cases "map_of (reg_handlers g) (registry_key url (normalize_path url path) kind route)")
      (auto simp: find_handlers_def Let_def split: if_splits)
  with m show ?thesis by blast
qed

text \<open>
  C32. Two consequences of normalising with the URL parser, for every registry that discovery builds and
  every path \<open>//host/rest\<close> that the parser reads as a network-path reference. A session with this path
  is treated in every respect as one with the path \<open>/rest\<close>: it is admitted to the same gateway and
  served by the same handlers. And a gateway whose normalised path it is, as for \<open>/.//host/rest\<close>, is
  registered and announces its handlers, but \<open>find\<close>, which normalises twice, never returns one of
  them for the path of the gateway, for no kind and no route.
\<close>

theorem gateway_path_confusion:
  assumes "network_path url host rest"
    and "\<forall>p \<in> insert (plain_path rest) (ch_path ` set (declared_handlers ps)). nul \<notin> set (normalize_path url p)"
  shows "let g = explore url ps g0; path = ''//'' @ host @ rest in
     has_path url path g = has_path url (plain_path rest) g \<and>
     has_handlers url path kind g = has_handlers url (plain_path rest) kind g \<and>
     find_handlers url path kind route g = find_handlers url (plain_path rest) kind route g \<and>
     (\<forall>h \<in> set (declared_handlers ps). normalize_path url (ch_path h) = path \<longrightarrow>
        has_path url (ch_path h) g \<and> has_handlers url (ch_path h) (ch_kind h) g \<and>
        (\<forall>k r. h \<notin> set (find_handlers url (ch_path h) k r g)))"
proof -
  let ?g = "explore url ps g0" and ?path = "''//'' @ host @ rest"
  note n = network_path_normal [OF assms(1)]
  have held: "holds url (declared_handlers ps) ?g" by (rule explore_holds)
  have "has_path url ?path ?g = has_path url (plain_path rest) ?g"
    "has_handlers url ?path kind ?g = has_handlers url (plain_path rest) kind ?g"
    "find_handlers url ?path kind route ?g = find_handlers url (plain_path rest) kind route ?g"
    unfolding has_path_def has_handlers_def kind_key_def find_handlers_def n(1) by (rule refl)+
  moreover have "has_path url (ch_path h) ?g \<and> has_handlers url (ch_path h) (ch_kind h) ?g \<and>
      (\<forall>k r. h \<notin> set (find_handlers url (ch_path h) k r ?g))"
    if h: "h \<in> set (declared_handlers ps)" "normalize_path url (ch_path h) = ?path" for h
  proof (intro conjI allI notI)
    show "has_path url (ch_path h) ?g" "has_handlers url (ch_path h) (ch_kind h) ?g"
      using held h(1) by (auto simp: holds_def has_path_def has_handlers_def)
  next
    fix k r
    assume "h \<in> set (find_handlers url (ch_path h) k r ?g)"
    with found_key [OF held] h(2) obtain q where q: "key_of url h = registry_key url ?path k q" by metis
    have "nul \<notin> set (normalize_path url (ch_path h))" "nul \<notin> set (normalize_path url ?path)"
      using assms(2) h(1) n(1) by auto
    from registry_key_inject [OF this] q have "normalize_path url (ch_path h) = normalize_path url ?path" by blast
    with h(2) n show False by simp
  qed
  ultimately show ?thesis unfolding Let_def by blast
qed

theorem gateway_path_confusion_witness:
  "let g = explore example_url [example_provider ''/chat'', example_provider ''/.//host/chat''] empty_registry in
     find_handlers example_url ''//host/chat'' DatagramKind None g = find_handlers example_url ''/chat'' DatagramKind None g \<and>
     has_path example_url ''/.//host/chat'' g \<and>
     example_handler ''/.//host/chat'' \<notin> set (find_handlers example_url ''/.//host/chat'' DatagramKind None g)"
proof -
  let ?ps = "[example_provider ''/chat'', example_provider ''/.//host/chat'']"
  have d: "declared_handlers ?ps = [example_handler ''/chat'', example_handler ''/.//host/chat'']"
    using example_declared [of "''/chat''"] example_declared [of "''/.//host/chat''"] by (simp add: declared_handlers_def)
  have n: "network_path example_url ''host'' ''/chat''" by (simp add: network_path_def plain_path_def example_url_def)
  have p: "ch_path (example_handler p) = p" for p by (simp add: example_handler_def)
  have z: "\<forall>p \<in> insert (plain_path ''/chat'') (ch_path ` set (declared_handlers ?ps)). nul \<notin> set (normalize_path example_url p)"
    by (simp add: d p example_paths plain_path_def nul_def)
  note c = gateway_path_confusion [OF n z, where ?g0.0 = empty_registry and kind = DatagramKind and route = None]
  have "\<forall>h \<in> set (declared_handlers ?ps). normalize_path example_url (ch_path h) = ''//'' @ ''host'' @ ''/chat'' \<longrightarrow>
      has_path example_url (ch_path h) (explore example_url ?ps empty_registry) \<and>
      (\<forall>k r. h \<notin> set (find_handlers example_url (ch_path h) k r (explore example_url ?ps empty_registry)))"
    using c unfolding Let_def by blast
  then have "has_path example_url ''/.//host/chat'' (explore example_url ?ps empty_registry) \<and>
      example_handler ''/.//host/chat'' \<notin>
        set (find_handlers example_url ''/.//host/chat'' DatagramKind None (explore example_url ?ps empty_registry))"
    by (simp add: d p example_paths)
  with c show ?thesis by (simp add: Let_def plain_path_def)
qed

lemma decorate_snoc:
  "decorate (ds @ [(k, ps, i)]) = parameter_decorator k ps i (decorate ds)"
  by (simp add: decorate_def)

lemma parameter_decorator_set:
  "set (parameter_decorator k ps i existing) =
   insert \<lparr>par_index = i, par_kind = k, par_pipes = ps\<rparr> {p \<in> set existing. par_index p \<noteq> i}"
  by (auto simp: parameter_decorator_def)

lemma decorate_shape:
  "sorted (map par_index (decorate ds)) \<and> distinct (map par_index (decorate ds)) \<and>
   (\<forall>p. p \<in> set (decorate ds) \<longleftrightarrow>
      map_of (map (\<lambda>(k, ps, i). (i, (k, ps))) (rev ds)) (par_index p) = Some (par_kind p, par_pipes p))"
proof (induction ds rule: rev_induct)
  case Nil
  then show ?case by (simp add: decorate_def)
next
  case (snoc d ds)
  obtain k ps i where d: "d = (k, ps, i)" by (cases d) auto
  have "distinct (map par_index (parameter_decorator k ps i (decorate ds)))"
    using snoc by (auto simp: parameter_decorator_def distinct_map inj_on_def distinct_map_filter)
  moreover have "sorted (map par_index (parameter_decorator k ps i (decorate ds)))"
    by (simp add: parameter_decorator_def)
  moreover have "p \<in> set (parameter_decorator k ps i (decorate ds)) \<longleftrightarrow>
      map_of (map (\<lambda>(k, ps, i). (i, (k, ps))) (rev (ds @ [d]))) (par_index p) = Some (par_kind p, par_pipes p)" for p
  proof (cases "par_index p = i")
    case True
    then show ?thesis by (cases p) (auto simp: parameter_decorator_set d)
  next
    case False
    then have "p \<noteq> \<lparr>par_index = i, par_kind = k, par_pipes = ps\<rparr>" by auto
    moreover have "p \<in> set (decorate ds) \<longleftrightarrow>
        map_of (map (\<lambda>(k, ps, i). (i, (k, ps))) (rev ds)) (par_index p) = Some (par_kind p, par_pipes p)"
      using snoc.IH by blast
    ultimately show ?thesis using False by (simp only: parameter_decorator_set d) simp
  qed
  ultimately show ?case by (simp add: d decorate_snoc)
qed

text \<open>
  The parameter metadata of a method is sorted by index, holds one entry per decorated index, and
  the entry of an index is the one whose decorator was evaluated last.
\<close>

theorem parameter_metadata_sorted:
  "sorted (map par_index (decorate ds)) \<and> distinct (map par_index (decorate ds)) \<and>
   (\<forall>p. p \<in> set (decorate ds) \<longleftrightarrow>
      map_of (map (\<lambda>(k, ps, i). (i, (k, ps))) (rev ds)) (par_index p) = Some (par_kind p, par_pipes p))"
  by (rule decorate_shape)

end
