(* ===== verification/Runtime_State.thy ===== *)
theory Runtime_State
  imports Lifecycle Ip_Limits Handler_Budget Task_Scheduler Bounded_Queue Module_Options
    Gateway_Registry "HOL-Library.Word"
begin

text \<open>
  The state of \<open>WebTransportRuntime\<close> (\<open>packages/nest-webtransport/src/server/webtransport-runtime.ts\<close>) and
  the bookkeeping that its handlers share. The managed sessions are kept in creation order and
  referred to by their position, because the code shares and mutates them. The state carries the
  calls that the code makes to the outside (closing a session, resetting a stream, logging, starting
  the driver) as a trace. Strings stand for their UTF-8 encoding, time is in whole milliseconds.
\<close>

type_synonym bytes = "8 word list"

abbreviation byte_length :: "bytes \<Rightarrow> int" where
  "byte_length d \<equiv> int (length d)"

text \<open>What the runtime reads of a transport session.\<close>

record session_info =
  si_id :: string
  si_path :: string
  si_remote :: "string option"
  si_headers :: "(string \<times> string) list"
  si_max_datagram :: int

datatype stream_kind = Bidirectional | Unidirectional

datatype pump = DatagramPump | BidirectionalPump | UnidirectionalPump | DrainPump

text \<open>Where the asynchronous loop \<open>drainDatagrams\<close> is suspended.\<close>

datatype drain_point = NotDraining | AtCapacity | AtOutcome

text \<open>Where a stream pump is suspended; \<open>PumpEnding\<close> is its last call before it returns.\<close>

datatype stream_point = PumpStopped | PumpAtCapacity | PumpReading | PumpAtOutcome | PumpEnding

record managed =
  ms_info :: session_info
  ms_scheduler :: scheduler
  ms_datagrams :: "bytes bounded_queue"
  ms_ip :: string
  ms_pumps :: "pump list"
  ms_stream_waiters :: "nat list"
  ms_datagram_reader :: bool
  ms_bidirectional_reader :: bool
  ms_unidirectional_reader :: bool
  ms_bidirectional :: int
  ms_unidirectional :: int
  ms_window_started :: int
  ms_in_window :: int
  ms_drain :: drain_point
  ms_stream_points :: "stream_kind \<Rightarrow> stream_point"
  ms_queued_bytes :: int
  ms_last_activity :: int
  ms_idle_timer :: "int option"
  ms_finalized :: bool
  ms_session_aborted :: bool
  ms_intake_aborted :: bool
  ms_admission_aborted :: bool
  ms_admission :: "nat option"
  ms_accepting :: bool
  ms_retiring :: bool

text \<open>A stream that \<open>trackStream\<close> has charged; its position is the identity of its release closure.\<close>

record tracked_stream =
  st_session :: nat
  st_kind :: stream_kind
  st_released :: bool

datatype action =
    CloseCall session_info nat string
  | ResetCall nat "nat option"
  | LogCall string "string option"
  | DriverStart
  | DriverStop bool
  | SessionDrain nat
  | StopServer
  | StreamsIdle nat

datatype stop_point = NotStopping | StopDraining | StopForced | StopClosing | StopDriver

record runtime =
  rt_options :: normalized_options
  rt_registry :: gateway_registry
  rt_state :: server_state
  rt_sessions :: "(string \<times> nat) list"
  rt_outstanding :: "nat list"
  rt_managed :: "managed list"
  rt_ip :: ip_table
  rt_budget :: handler_budget
  rt_task_bytes :: "nat \<Rightarrow> int"
  rt_queued_bytes :: int
  rt_streams :: "tracked_stream list"
  rt_active_streams :: int
  rt_accepted :: int
  rt_rejected :: int
  rt_rejected_handlers :: int
  rt_dropped :: int
  rt_rejections :: "(string \<times> int) list"
  rt_drops :: "(string \<times> int) list"
  rt_subscribed :: bool
  rt_starting :: bool
  rt_stopping :: stop_point
  rt_trace :: "action list"

definition new_runtime :: "normalized_options \<Rightarrow> gateway_registry \<Rightarrow> runtime" where
  "new_runtime options registry =
     \<lparr>rt_options = options, rt_registry = registry, rt_state = STOPPED, rt_sessions = [],
      rt_outstanding = [], rt_managed = [], rt_ip = [],
      rt_budget = new_handler_budget (no_server_concurrent options) (no_server_pending options),
      rt_task_bytes = (\<lambda>_. 0), rt_queued_bytes = 0, rt_streams = [], rt_active_streams = 0,
      rt_accepted = 0, rt_rejected = 0, rt_rejected_handlers = 0, rt_dropped = 0,
      rt_rejections = [], rt_drops = [], rt_subscribed = False, rt_starting = False,
      rt_stopping = NotStopping, rt_trace = []\<rparr>"

definition session_at :: "nat \<Rightarrow> runtime \<Rightarrow> managed" where
  "session_at i s = rt_managed s ! i"

text \<open>An assignment to fields of the managed session \<open>i\<close>.\<close>

definition update_session :: "nat \<Rightarrow> (managed \<Rightarrow> managed) \<Rightarrow> runtime \<Rightarrow> runtime" where
  "update_session i f s = s\<lparr>rt_managed := (rt_managed s)[i := f (session_at i s)]\<rparr>"

definition emit :: "action \<Rightarrow> runtime \<Rightarrow> runtime" where
  "emit a s = s\<lparr>rt_trace := rt_trace s @ [a]\<rparr>"

definition ip_limits_of :: "normalized_options \<Rightarrow> ip_limits" where
  "ip_limits_of n =
     \<lparr>lim_records = nat (no_max_sessions n), lim_active = no_ip_sessions n,
      lim_per_second = nat (no_ip_per_second n)\<rparr>"

section \<open>Close codes and counters\<close>

definition CODE_REJECTED :: nat where "CODE_REJECTED = 256"
definition CODE_RESOURCE_LIMIT :: nat where "CODE_RESOURCE_LIMIT = 257"
definition CODE_NO_ROUTE :: nat where "CODE_NO_ROUTE = 258"
definition CODE_TIMEOUT :: nat where "CODE_TIMEOUT = 259"
definition CODE_INTERNAL_ERROR :: nat where "CODE_INTERNAL_ERROR = 260"

text \<open>\<open>counts[reason] = (counts[reason] ?? 0) + 1\<close>\<close>

definition bump :: "string \<Rightarrow> (string \<times> int) list \<Rightarrow> (string \<times> int) list" where
  "bump reason counts =
     AList.update reason ((case map_of counts reason of Some n \<Rightarrow> n | None \<Rightarrow> 0) + 1) counts"

definition record_rejection :: "string \<Rightarrow> runtime \<Rightarrow> runtime" where
  "record_rejection reason s =
     s\<lparr>rt_rejected := rt_rejected s + 1, rt_rejections := bump reason (rt_rejections s)\<rparr>"

definition record_datagram_drop :: "string \<Rightarrow> nat \<Rightarrow> runtime \<Rightarrow> runtime" where
  "record_datagram_drop reason i s =
     emit (LogCall ''datagram.dropped'' (Some reason))
       (s\<lparr>rt_dropped := rt_dropped s + 1, rt_drops := bump reason (rt_drops s)\<rparr>)"

text \<open>
  \<open>closeSession\<close>: the call of \<open>session.close\<close>; its outcome comes back as the abort of the session's
  signal, a failure or a timeout is only logged.
\<close>

definition close_session :: "session_info \<Rightarrow> nat \<Rightarrow> string \<Rightarrow> runtime \<Rightarrow> runtime" where
  "close_session info code reason s = emit (CloseCall info code reason) s"

section \<open>Activity\<close>

text \<open>\<open>touch\<close>, at time \<open>now\<close>: the timer is kept as the time at which it fires.\<close>

definition touch :: "int \<Rightarrow> nat \<Rightarrow> runtime \<Rightarrow> runtime" where
  "touch now i s =
     (let m = session_at i s; idle = no_idle_timeout (rt_options s) in
      if ms_finalized m \<or> ms_session_aborted m \<or> idle = 0 then s
      else update_session i
             (\<lambda>m. m\<lparr>ms_last_activity := now,
                    ms_idle_timer := (if ms_idle_timer m \<noteq> None then ms_idle_timer m else Some (now + idle))\<rparr>) s)"

text \<open>\<open>checkIdle\<close>, when the timer fires.\<close>

definition check_idle :: "int \<Rightarrow> nat \<Rightarrow> runtime \<Rightarrow> runtime" where
  "check_idle now i s =
     (let s1 = update_session i (\<lambda>m. m\<lparr>ms_idle_timer := None\<rparr>) s; m = session_at i s1 in
      if ms_finalized m \<or> ms_intake_aborted m then s1
      else if ms_bidirectional m > 0 \<or> ms_unidirectional m > 0 then touch now i s1
      else
        (let remaining = no_idle_timeout (rt_options s) - (now - ms_last_activity m) in
         if remaining > 0 then update_session i (\<lambda>m. m\<lparr>ms_idle_timer := Some (now + remaining)\<rparr>) s1
         else close_session (ms_info m) CODE_TIMEOUT ''Session idle timeout'' s1))"

section \<open>Settling\<close>

text \<open>
  \<open>settle\<close>, the \<open>onSettled\<close> callback that \<open>submit\<close> gives to the scheduler: it releases the task's
  reservation and discharges the bytes of its datagram. A task is known by its reservation.
\<close>

definition settle :: "nat \<Rightarrow> runtime \<Rightarrow> runtime" where
  "settle h s =
     s\<lparr>rt_budget := hb_release h (rt_budget s), rt_queued_bytes := rt_queued_bytes s - rt_task_bytes s h\<rparr>"

definition settle_all :: "nat list \<Rightarrow> runtime \<Rightarrow> runtime" where
  "settle_all hs s = fold settle hs s"

text \<open>An operation of the session's scheduler, with the callbacks it makes.\<close>

definition on_scheduler :: "nat \<Rightarrow> (scheduler \<Rightarrow> scheduler \<times> observation list) \<Rightarrow> runtime \<Rightarrow> runtime" where
  "on_scheduler i f s =
     (let (sch, os) = f (ms_scheduler (session_at i s))
      in settle_all (settled_ids os) (update_session i (\<lambda>m. m\<lparr>ms_scheduler := sch\<rparr>) s))"

definition clear_datagrams :: "nat \<Rightarrow> runtime \<Rightarrow> runtime" where
  "clear_datagrams i s =
     update_session i (\<lambda>m. m\<lparr>ms_queued_bytes := 0, ms_datagrams := clear_queue (ms_datagrams m)\<rparr>)
       (s\<lparr>rt_queued_bytes := rt_queued_bytes s - ms_queued_bytes (session_at i s)\<rparr>)"

section \<open>Intake, finalisation and retirement\<close>

definition stop_intake :: "nat \<Rightarrow> runtime \<Rightarrow> runtime" where
  "stop_intake i s =
     update_session i (\<lambda>m. m\<lparr>ms_datagram_reader := False, ms_bidirectional_reader := False,
                              ms_unidirectional_reader := False\<rparr>)
       (clear_datagrams i
         (on_scheduler i (close_scheduler False)
           (update_session i (\<lambda>m. m\<lparr>ms_intake_aborted := True\<rparr>) s)))"

definition finalize_session :: "nat \<Rightarrow> runtime \<Rightarrow> runtime" where
  "finalize_session i s =
     (if ms_finalized (session_at i s) then s
      else
        (let s1 = update_session i (\<lambda>m. m\<lparr>ms_finalized := True, ms_idle_timer := None\<rparr>) s;
             s2 = stop_intake i s1;
             s3 = update_session i (\<lambda>m. m\<lparr>ms_admission_aborted := True\<rparr>) s2;
             s4 = on_scheduler i (close_scheduler True) s3;
             s5 = clear_datagrams i s4;
             s6 = emit (StreamsIdle i) (update_session i (\<lambda>m. m\<lparr>ms_stream_waiters := []\<rparr>) s5);
             s7 = s6\<lparr>rt_sessions := AList.delete (si_id (ms_info (session_at i s6))) (rt_sessions s6)\<rparr>;
             s8 = emit (LogCall ''session.closed'' None) s7
         in update_session i (\<lambda>m. m\<lparr>ms_retiring := True\<rparr>) s8))"

text \<open>
  \<open>retireSession\<close> after its wait: the admission work has settled, the scheduler is idle and the pumps
  have ended. After finalisation no pump starts and no work is accepted, so these conditions stay.
\<close>

definition may_retire :: "nat \<Rightarrow> runtime \<Rightarrow> bool" where
  "may_retire i s \<longleftrightarrow>
     ms_retiring (session_at i s) \<and> ms_admission (session_at i s) = None \<and>
     is_idle (ms_scheduler (session_at i s)) \<and> ms_pumps (session_at i s) = []"

definition retire_session :: "int \<Rightarrow> nat \<Rightarrow> runtime \<Rightarrow> runtime" where
  "retire_session now i s =
     (if i \<in> set (rt_outstanding s) then
        s\<lparr>rt_outstanding := js_delete i (rt_outstanding s),
          rt_ip := release_ip_slot now (ms_ip (session_at i s)) (rt_ip s)\<rparr>
      else s)"

end
