(* ===== verification/Runtime_Sessions.thy ===== *)
theory Runtime_Sessions
  imports Runtime_State
begin

text \<open>
  Admission and streams of the runtime: \<open>validateSession\<close>, \<open>acceptSession\<close> up to and after its wait for
  the admission work, the pumps that it starts, and the tracking of streams. The URL parsers of the
  platform are parameters (\<open>parse_url\<close> for origins, \<open>url\<close> for gateway paths).
\<close>

section \<open>Validation\<close>

text \<open>\<open>measureHeaders\<close>\<close>

definition measure_headers :: "(string \<times> string) list \<Rightarrow> int" where
  "measure_headers hs = sum_list (map (\<lambda>(name, value). int (length name) + int (length value) + 4) hs)"

definition session_rejected :: "string \<Rightarrow> string \<Rightarrow> thrown option \<Rightarrow> thrown" where
  "session_rejected message code cause =
     new_error SessionRejectedError message
       \<lparr>opt_code = code, opt_recoverable = None, opt_scope = None, opt_cause = cause\<rparr>"

definition validate_session ::
  "(string \<Rightarrow> url_parts option) \<Rightarrow> session_info \<Rightarrow> runtime \<Rightarrow> thrown option" where
  "validate_session parse_url info s =
     (let n = rt_options s; origin = map_of (si_headers info) ''origin'' in
      if int (length (rt_outstanding s)) \<ge> no_max_sessions n then
        Some (session_rejected ''Global session limit exceeded.'' ''ERR_WEBTRANSPORT_GLOBAL_SESSION_LIMIT'' None)
      else if map_of (rt_sessions s) (si_id info) \<noteq> None then
        Some (session_rejected ''Duplicate session id.'' ''ERR_WEBTRANSPORT_DUPLICATE_SESSION_ID'' None)
      else if measure_headers (si_headers info) > no_max_header_size n then
        Some (session_rejected ''Session headers exceed the configured limit.'' ''ERR_WEBTRANSPORT_HEADER_LIMIT'' None)
      else
        (case origin of
           None \<Rightarrow>
             if no_require_origin n then
               Some (session_rejected ''An Origin header is required.'' ''ERR_WEBTRANSPORT_ORIGIN_REQUIRED'' None)
             else None
         | Some o' \<Rightarrow>
             (case normalize_origin parse_url o' ''Origin header'' of
                Inl cause \<Rightarrow>
                  Some (session_rejected ''Origin header is malformed.'' ''ERR_WEBTRANSPORT_ORIGIN_MALFORMED'' (Some cause))
              | Inr normalized \<Rightarrow>
                  if no_allowed_origins n \<noteq> [] \<and> normalized \<notin> set (no_allowed_origins n) then
                    Some (session_rejected ''Origin is not allowed.'' ''ERR_WEBTRANSPORT_ORIGIN_REJECTED'' None)
                  else None)))"

section \<open>Admission\<close>

text \<open>
  \<open>reserveIncomingReaders\<close>: a reader for every kind that has handlers; \<open>getReader\<close> may throw. The
  readers taken before are cancelled by the caller's error path.
\<close>

definition reserve_readers ::
  "(string \<Rightarrow> string option) \<Rightarrow> (handler_kind \<Rightarrow> bool) \<Rightarrow> session_info \<Rightarrow> runtime \<Rightarrow> (bool \<times> bool \<times> bool) option" where
  "reserve_readers url locked info s =
     (let wants = (\<lambda>kind. has_handlers url (si_path info) kind (rt_registry s)) in
      if wants DatagramKind \<and> locked DatagramKind then None
      else if wants BidirectionalKind \<and> locked BidirectionalKind then None
      else if wants UnidirectionalKind \<and> locked UnidirectionalKind then None
      else Some (wants DatagramKind, wants BidirectionalKind, wants UnidirectionalKind))"

definition new_managed ::
  "normalized_options \<Rightarrow> session_info \<Rightarrow> string \<Rightarrow> bool \<times> bool \<times> bool \<Rightarrow> int \<Rightarrow> managed" where
  "new_managed n info ip readers now =
     \<lparr>ms_info = info,
      ms_scheduler = new_scheduler (no_max_concurrent n) (no_max_pending n) (no_handler_overflow n),
      ms_datagrams = \<lparr>bq_capacity = nat (no_queue_size n), bq_overflow = no_queue_overflow n,
                      bq_items = [], bq_head = 0, bq_size = 0\<rparr>,
      ms_ip = ip, ms_pumps = [], ms_stream_waiters = [],
      ms_datagram_reader = fst readers, ms_bidirectional_reader = fst (snd readers),
      ms_unidirectional_reader = snd (snd readers),
      ms_bidirectional = 0, ms_unidirectional = 0, ms_window_started = now, ms_in_window = 0,
      ms_drain = NotDraining, ms_stream_points = (\<lambda>kind. PumpStopped), ms_queued_bytes = 0, ms_last_activity = now, ms_idle_timer = None,
      ms_finalized = False, ms_session_aborted = False, ms_intake_aborted = False,
      ms_admission_aborted = False, ms_admission = None, ms_accepting = False, ms_retiring = False\<rparr>"

text \<open>The constructor calls of \<open>acceptSession\<close> do not throw on valid options.\<close>

lemma new_managed_queue:
  "1 \<le> no_queue_size n \<Longrightarrow> no_queue_size n \<le> 4294967295 \<Longrightarrow>
   new_bounded_queue (js_int (no_queue_size n)) (no_queue_overflow n) =
     Inr (ms_datagrams (new_managed n info ip readers now))"
  by (simp add: new_bounded_queue_def new_managed_def nat_of_number_def max_safe_def)

text \<open>Registering the session once every resource is charged.\<close>

definition register_session :: "session_info \<Rightarrow> managed \<Rightarrow> runtime \<Rightarrow> runtime" where
  "register_session info m s =
     (let i = length (rt_managed s) in
      s\<lparr>rt_managed := rt_managed s @ [m], rt_sessions := AList.update (si_id info) i (rt_sessions s),
        rt_outstanding := js_add i (rt_outstanding s)\<rparr>)"

text \<open>
  The last part of the first segment: the session is touched, its admission work asks the budget for
  a slot, and \<open>acceptSession\<close> waits for it. The reservation \<open>h\<close> belongs to the work.
\<close>

definition begin_admission :: "int \<Rightarrow> nat \<Rightarrow> nat \<Rightarrow> runtime \<Rightarrow> runtime" where
  "begin_admission now i h s =
     (let s4 = touch now i s; s5 = s4\<lparr>rt_budget := fst (run_acquire False (rt_budget s4))\<rparr>
      in update_session i (\<lambda>m. m\<lparr>ms_admission := Some h, ms_accepting := True\<rparr>) s5)"

text \<open>
  \<open>acceptSession\<close> up to its wait for the admission. \<open>aborted\<close> is the state of the session's signal,
  \<open>driver_running\<close> whether the driver's statistics say \<open>RUNNING\<close>. The framework's context registry and
  \<open>AbortSignal.any\<close> are taken not to throw.
\<close>

definition accept_session ::
  "(string \<Rightarrow> url_parts option) \<Rightarrow> (string \<Rightarrow> string option) \<Rightarrow> bool \<Rightarrow> (handler_kind \<Rightarrow> bool) \<Rightarrow>
   int \<Rightarrow> session_info \<Rightarrow> bool \<Rightarrow> runtime \<Rightarrow> runtime" where
  "accept_session parse_url url driver_running locked now info aborted s =
     (if \<not> accepting_sessions (snapshot (rt_state s)) \<or> \<not> driver_running then
        close_session info CODE_REJECTED ''Server is not accepting sessions''
          (record_rejection ''server-unavailable'' s)
      else if \<not> has_path url (si_path info) (rt_registry s) then
        close_session info CODE_NO_ROUTE ''No WebTransport gateway for path'' (record_rejection ''no-route'' s)
      else
        (case validate_session parse_url info s of
           Some (WtError c message code rec scope cause) \<Rightarrow>
             close_session info CODE_REJECTED message
               (emit (LogCall ''session.rejected'' (Some code)) (record_rejection code s))
         | Some _ \<Rightarrow> s
         | None \<Rightarrow>
             let ip = (case si_remote info of Some a \<Rightarrow> a | None \<Rightarrow> ''<unknown>'');
                 (m1, ok) = acquire_ip_slot (ip_limits_of (rt_options s)) now ip (rt_ip s);
                 s1 = s\<lparr>rt_ip := m1\<rparr>
             in if \<not> ok then
                  close_session info CODE_RESOURCE_LIMIT ''Per-IP session limit exceeded''
                    (record_rejection ''ip-limit'' s1)
                else
                  (case hb_reserve (rt_budget s1) of
                     (b, None) \<Rightarrow>
                       let s2 = s1\<lparr>rt_ip := release_ip_slot now ip (rt_ip s1),
                                   rt_rejected_handlers := rt_rejected_handlers s1 + 1\<rparr>
                       in close_session info CODE_RESOURCE_LIMIT ''Server work limit exceeded''
                            (record_rejection ''handler-limit'' s2)
                   | (b, Some h) \<Rightarrow>
                       let s2 = s1\<lparr>rt_budget := b\<rparr> in
                       (case reserve_readers url locked info s2 of
                          None \<Rightarrow>
                            let s3 = s2\<lparr>rt_budget := hb_release h (rt_budget s2),
                                        rt_ip := release_ip_slot now ip (rt_ip s2)\<rparr>
                            in close_session info CODE_INTERNAL_ERROR ''Incoming reader setup failed''
                                 (emit (LogCall ''session.reader-reservation.failed'' None)
                                   (record_rejection ''reader-setup'' s3))
                        | Some readers \<Rightarrow>
                            let i = length (rt_managed s2);
                                m = (new_managed (rt_options s2) info ip readers now)
                                      \<lparr>ms_session_aborted := aborted\<rparr>;
                                s3 = register_session info m s2
                            in if aborted then
                                 finalize_session i (s3\<lparr>rt_budget := hb_release h (rt_budget s3)\<rparr>)
                               else begin_admission now i h s3))))"

text \<open>The admission work settles: \<open>finally(releaseAdmissionBudget)\<close> and \<open>releaseAdmission\<close>.\<close>

definition admission_settles :: "nat \<Rightarrow> runtime \<Rightarrow> runtime" where
  "admission_settles i s =
     (case ms_admission (session_at i s) of
        None \<Rightarrow> s
      | Some h \<Rightarrow>
          update_session i (\<lambda>m. m\<lparr>ms_admission := None\<rparr>)
            (s\<lparr>rt_budget := hb_release h (rt_budget s)\<rparr>))"

text \<open>The handshake timer fires: its callback aborts the admission.\<close>

definition handshake_timeout :: "nat \<Rightarrow> runtime \<Rightarrow> runtime" where
  "handshake_timeout i s =
     (if ms_accepting (session_at i s) then update_session i (\<lambda>m. m\<lparr>ms_admission_aborted := True\<rparr>) s else s)"

text \<open>\<open>acceptSession\<close> after its wait has thrown.\<close>

definition admission_fails :: "bool \<Rightarrow> nat \<Rightarrow> runtime \<Rightarrow> runtime" where
  "admission_fails timed_out i s =
     (if \<not> ms_accepting (session_at i s) then s
      else
        close_session (ms_info (session_at i s)) CODE_REJECTED ''Session rejected''
          (emit (LogCall ''session.rejected'' None)
            (record_rejection (if timed_out then ''admission-timeout'' else ''admission-failed'')
              (update_session i (\<lambda>m. m\<lparr>ms_accepting := False\<rparr>) s))))"

text \<open>A pump's promise settles; the pump's \<open>finally\<close> block has given up its reader.\<close>

definition end_pump :: "pump \<Rightarrow> nat \<Rightarrow> runtime \<Rightarrow> runtime" where
  "end_pump p i s =
     update_session i
       (\<lambda>m. m\<lparr>ms_pumps := js_delete p (ms_pumps m),
              ms_datagram_reader := (ms_datagram_reader m \<and> p \<noteq> DatagramPump),
              ms_bidirectional_reader := (ms_bidirectional_reader m \<and> p \<noteq> BidirectionalPump),
              ms_unidirectional_reader := (ms_unidirectional_reader m \<and> p \<noteq> UnidirectionalPump)\<rparr>) s"

text \<open>
  The head of the loop of a stream pump: its condition, and the wait for capacity of the scheduler.
  The waiters of a session's pumps are told apart by number.
\<close>

fun pump_waiter :: "pump \<Rightarrow> nat" where
  "pump_waiter DatagramPump = 0"
| "pump_waiter BidirectionalPump = 1"
| "pump_waiter UnidirectionalPump = 2"
| "pump_waiter DrainPump = 3"

fun stream_pump :: "stream_kind \<Rightarrow> pump" where
  "stream_pump Bidirectional = BidirectionalPump"
| "stream_pump Unidirectional = UnidirectionalPump"

definition set_point :: "stream_kind \<Rightarrow> stream_point \<Rightarrow> nat \<Rightarrow> runtime \<Rightarrow> runtime" where
  "set_point kind p i s = update_session i (\<lambda>m. m\<lparr>ms_stream_points := (ms_stream_points m)(kind := p)\<rparr>) s"

definition end_stream_pump :: "stream_kind \<Rightarrow> nat \<Rightarrow> runtime \<Rightarrow> runtime" where
  "end_stream_pump kind i s = end_pump (stream_pump kind) i (set_point kind PumpStopped i s)"

definition stream_pump_head :: "stream_kind \<Rightarrow> nat \<Rightarrow> runtime \<Rightarrow> runtime" where
  "stream_pump_head kind i s =
     (let m = session_at i s in
      if ms_session_aborted m \<or> ms_intake_aborted m then end_stream_pump kind i s
      else set_point kind PumpAtCapacity i
             (on_scheduler i (when_capacity_available (pump_waiter (stream_pump kind)) (ms_session_aborted m)) s))"

text \<open>Starting a pump: the pump's promise is registered; the pump has run up to its first wait.\<close>

definition start_pump :: "pump \<Rightarrow> nat \<Rightarrow> runtime \<Rightarrow> runtime" where
  "start_pump p i s =
     (let s1 = update_session i (\<lambda>m. m\<lparr>ms_pumps := js_add p (ms_pumps m)\<rparr>) s in
      if p = BidirectionalPump then stream_pump_head Bidirectional i s1
      else if p = UnidirectionalPump then stream_pump_head Unidirectional i s1
      else s1)"

text \<open>\<open>acceptSession\<close> after its wait has returned, which it does only when the work has settled.\<close>

definition admission_succeeds :: "nat \<Rightarrow> runtime \<Rightarrow> runtime" where
  "admission_succeeds i s =
     (if \<not> ms_accepting (session_at i s) \<or> ms_admission (session_at i s) \<noteq> None then s
      else
        (let s1 = update_session i (\<lambda>m. m\<lparr>ms_accepting := False\<rparr>) s; m = session_at i s1 in
         if ms_session_aborted m then finalize_session i s1
         else if ms_intake_aborted m \<or> rt_state s1 \<noteq> RUNNING then s1
         else
           (let s2 = emit (LogCall ''session.accepted'' None) (s1\<lparr>rt_accepted := rt_accepted s1 + 1\<rparr>);
                s3 = (if ms_datagram_reader m then start_pump DatagramPump i s2 else s2);
                s4 = (if ms_bidirectional_reader m then start_pump BidirectionalPump i s3 else s3)
            in if ms_unidirectional_reader m then start_pump UnidirectionalPump i s4 else s4)))"

end
