(* ===== verification/Runtime_Work.thy ===== *)
theory Runtime_Work
  imports Runtime_Sessions
begin

text \<open>
  The work of an admitted session: the datagram pump with its limits and its queue, the drain loop
  that moves queued datagrams into the scheduler, \<open>submit\<close>, the stream pumps with stream tracking,
  errors by scope, and the abort of the session's signal.
\<close>

section \<open>Submission\<close>

fun overflow_outcome :: "handler_overflow \<Rightarrow> submission" where
  "overflow_outcome DropTask = Dropped"
| "overflow_outcome RejectTask = Refused"
| "overflow_outcome CloseSessionTask = CloseTheSession"

text \<open>
  \<open>submit\<close>, for a task that carries \<open>n\<close> bytes of a datagram (none for a stream). When no reservation
  is to be had, \<open>onSettled\<close> is called at once.
\<close>

definition submit :: "nat \<Rightarrow> int \<Rightarrow> runtime \<Rightarrow> runtime \<times> submission" where
  "submit i n s =
     (case hb_reserve (rt_budget s) of
        (b, None) \<Rightarrow>
          (s\<lparr>rt_queued_bytes := rt_queued_bytes s - n, rt_rejected_handlers := rt_rejected_handlers s + 1\<rparr>,
           overflow_outcome (no_handler_overflow (rt_options s)))
      | (b, Some h) \<Rightarrow>
          (let s1 = s\<lparr>rt_budget := b, rt_task_bytes := (rt_task_bytes s)(h := n)\<rparr>;
               (sch, outcome, os) =
                 submit_task \<lparr>task_id = h, has_on_settled = True\<rparr> (ms_scheduler (session_at i s1));
               s2 = settle_all (settled_ids os) (update_session i (\<lambda>m. m\<lparr>ms_scheduler := sch\<rparr>) s1)
           in if outcome \<noteq> Started \<and> outcome \<noteq> Queued then
                (settle h (s2\<lparr>rt_rejected_handlers := rt_rejected_handlers s2 + 1\<rparr>), outcome)
              else (s2, outcome)))"

section \<open>Datagrams\<close>

definition consume_datagram_rate :: "int \<Rightarrow> int \<Rightarrow> managed \<Rightarrow> bool \<times> managed" where
  "consume_datagram_rate per_second now m =
     (let m1 = (if now - ms_window_started m \<ge> 1000 then m\<lparr>ms_window_started := now, ms_in_window := 0\<rparr>
                else m)
      in if ms_in_window m1 \<ge> per_second then (False, m1)
         else (True, m1\<lparr>ms_in_window := ms_in_window m1 + 1\<rparr>))"

definition maximum_datagram_size :: "nat \<Rightarrow> runtime \<Rightarrow> int" where
  "maximum_datagram_size i s =
     min (no_max_datagram_size (rt_options s)) (si_max_datagram (ms_info (session_at i s)))"

text \<open>The loop of \<open>drainDatagrams\<close> ends: its \<open>finally\<close> block clears the flag, its promise settles.\<close>

definition end_drain :: "nat \<Rightarrow> runtime \<Rightarrow> runtime" where
  "end_drain i s = end_pump DrainPump i (update_session i (\<lambda>m. m\<lparr>ms_drain := NotDraining\<rparr>) s)"

text \<open>The head of the loop: its condition, and the wait for capacity.\<close>

definition drain_head :: "nat \<Rightarrow> runtime \<Rightarrow> runtime" where
  "drain_head i s =
     (let m = session_at i s in
      if bq_is_empty (ms_datagrams m) \<or> ms_session_aborted m \<or> ms_intake_aborted m then end_drain i s
      else update_session i (\<lambda>m. m\<lparr>ms_drain := AtCapacity\<rparr>)
             (on_scheduler i (when_capacity_available (pump_waiter DrainPump) (ms_session_aborted m)) s))"

text \<open>\<open>startPump(managed, drainDatagrams(managed))\<close>, which runs up to the first wait.\<close>

definition start_drain :: "nat \<Rightarrow> runtime \<Rightarrow> runtime" where
  "start_drain i s =
     (if ms_drain (session_at i s) \<noteq> NotDraining then s
      else drain_head i (update_session i (\<lambda>m. m\<lparr>ms_pumps := js_add DrainPump (ms_pumps m)\<rparr>) s))"

text \<open>The loop body after \<open>whenCapacityAvailable\<close> has resolved.\<close>

definition drain_resume :: "nat \<Rightarrow> runtime \<Rightarrow> runtime" where
  "drain_resume i s =
     (let m = session_at i s in
      if ms_drain m \<noteq> AtCapacity then s
      else if \<not> has_capacity (ms_scheduler m) then
        (if \<not> ts_accepting (ms_scheduler m) \<or> ms_session_aborted m \<or> ms_intake_aborted m then end_drain i s
         else drain_head i s)
      else
        (case dequeue (ms_datagrams m) of
           (q, None) \<Rightarrow> end_drain i s
         | (q, Some d) \<Rightarrow>
             (let s1 = update_session i
                    (\<lambda>m. m\<lparr>ms_datagrams := q, ms_queued_bytes := ms_queued_bytes m - byte_length d\<rparr>) s;
                  (s2, outcome) = submit i (byte_length d) s1;
                  s3 = (if outcome \<noteq> Started \<and> outcome \<noteq> Queued then
                          record_datagram_drop ''handler-limit'' i s2 else s2);
                  s4 = (if outcome = CloseTheSession then
                          close_session (ms_info (session_at i s3)) CODE_RESOURCE_LIMIT
                            ''Handler queue limit exceeded'' s3
                        else s3)
              in update_session i (\<lambda>m. m\<lparr>ms_drain := AtOutcome\<rparr>) s4)))"

text \<open>\<open>handleSubmissionOutcome\<close> has returned: back to the head of the loop.\<close>

definition drain_continue :: "nat \<Rightarrow> runtime \<Rightarrow> runtime" where
  "drain_continue i s = (if ms_drain (session_at i s) \<noteq> AtOutcome then s else drain_head i s)"

fun outcome_reason :: "'a enqueue_result \<Rightarrow> string" where
  "outcome_reason Enqueued = ''enqueued''"
| "outcome_reason (DroppedOldest _) = ''dropped-oldest''"
| "outcome_reason (DroppedNewest _) = ''dropped-newest''"
| "outcome_reason (Rejected _) = ''rejected''"
| "outcome_reason (ClosingSession _) = ''close-session''"

definition replaced_bytes :: "bytes bounded_queue \<Rightarrow> int" where
  "replaced_bytes q =
     (if bq_is_full q \<and> bq_overflow q = DropOldest then
        (case peek q of Some d \<Rightarrow> byte_length d | None \<Rightarrow> 0)
      else 0)"

text \<open>The accounting of an enqueue result; a dropped value is discharged.\<close>

definition store_datagram :: "nat \<Rightarrow> bytes \<Rightarrow> runtime \<Rightarrow> runtime \<times> bytes enqueue_result" where
  "store_datagram i d s =
     (let (q, r) = enqueue d (ms_datagrams (session_at i s));
          added = (if accepted r then byte_length d else 0);
          removed = (case r of DroppedOldest (Some x) \<Rightarrow> byte_length x | _ \<Rightarrow> 0)
      in (update_session i
            (\<lambda>m. m\<lparr>ms_datagrams := q, ms_queued_bytes := ms_queued_bytes m + added - removed\<rparr>)
            (s\<lparr>rt_queued_bytes := rt_queued_bytes s + added - removed\<rparr>), r))"

text \<open>
  One iteration of \<open>pumpDatagrams\<close>, from the read value \<open>d\<close> to the next read. The pump reads only
  while it runs; when the session has ended in between, the loop is left. A pump that waits for a
  last call to the outside before it returns stays registered until it ends (\<open>end_pump\<close>).
\<close>

definition pump_datagram :: "int \<Rightarrow> nat \<Rightarrow> bytes \<Rightarrow> runtime \<Rightarrow> runtime" where
  "pump_datagram now i d s =
     (if DatagramPump \<notin> set (ms_pumps (session_at i s)) then s
      else if ms_intake_aborted (session_at i s) \<or> ms_session_aborted (session_at i s) then
        end_pump DatagramPump i s
      else
        (let s1 = touch now i s in
         if byte_length d > maximum_datagram_size i s1 then record_datagram_drop ''size-limit'' i s1
         else
           (let (ok, m) = consume_datagram_rate (no_datagrams_per_second (rt_options s1)) now (session_at i s1);
                s2 = update_session i (\<lambda>_. m) s1
            in if \<not> ok then record_datagram_drop ''rate-limit'' i s2
               else if rt_queued_bytes s2 - replaced_bytes (ms_datagrams (session_at i s2)) + byte_length d
                       > no_queued_bytes (rt_options s2) then
                 record_datagram_drop ''server-byte-limit'' i s2
               else
                 (let (s3, r) = store_datagram i d s2;
                      s4 = (if r \<noteq> Enqueued then record_datagram_drop (outcome_reason r) i s3 else s3)
                  in case r of
                       ClosingSession _ \<Rightarrow>
                         close_session (ms_info (session_at i s4)) CODE_RESOURCE_LIMIT
                           ''Datagram queue limit exceeded'' s4
                     | _ \<Rightarrow> start_drain i s4))))"

section \<open>Streams\<close>

definition session_streams :: "stream_kind \<Rightarrow> managed \<Rightarrow> int" where
  "session_streams kind m = (case kind of Bidirectional \<Rightarrow> ms_bidirectional m | Unidirectional \<Rightarrow> ms_unidirectional m)"

definition add_streams :: "stream_kind \<Rightarrow> int \<Rightarrow> managed \<Rightarrow> managed" where
  "add_streams kind n m =
     (case kind of
        Bidirectional \<Rightarrow> m\<lparr>ms_bidirectional := ms_bidirectional m + n\<rparr>
      | Unidirectional \<Rightarrow> m\<lparr>ms_unidirectional := ms_unidirectional m + n\<rparr>)"

text \<open>The \<open>release\<close> closure of a tracked stream.\<close>

definition release_stream :: "int \<Rightarrow> nat \<Rightarrow> runtime \<Rightarrow> runtime" where
  "release_stream now k s =
     (let t = rt_streams s ! k in
      if k \<ge> length (rt_streams s) \<or> st_released t then s
      else
        (let i = st_session t;
             s1 = update_session i (add_streams (st_kind t) (-1))
                    (s\<lparr>rt_streams := (rt_streams s)[k := t\<lparr>st_released := True\<rparr>],
                       rt_active_streams := rt_active_streams s - 1\<rparr>);
             m = session_at i s1
         in if ms_bidirectional m = 0 \<and> ms_unidirectional m = 0 then
              (let s2 = emit (StreamsIdle i) (update_session i (\<lambda>m. m\<lparr>ms_stream_waiters := []\<rparr>) s1)
               in if \<not> ms_finalized m \<and> \<not> ms_session_aborted m then touch now i s2 else s2)
            else s1))"

definition track_stream :: "int \<Rightarrow> nat \<Rightarrow> stream_kind \<Rightarrow> bool \<Rightarrow> runtime \<Rightarrow> runtime" where
  "track_stream now i kind stream_aborted s =
     (let k = length (rt_streams s);
          s1 = update_session i (add_streams kind 1)
                 (s\<lparr>rt_active_streams := rt_active_streams s + 1,
                    rt_streams := rt_streams s @ [\<lparr>st_session = i, st_kind = kind, st_released = False\<rparr>]\<rparr>)
      in if stream_aborted \<or> ms_session_aborted (session_at i s1) then release_stream now k s1 else s1)"

definition stream_limit :: "stream_kind \<Rightarrow> normalized_options \<Rightarrow> int" where
  "stream_limit kind n = (case kind of Bidirectional \<Rightarrow> no_bidirectional n | Unidirectional \<Rightarrow> no_unidirectional n)"

text \<open>\<open>handleStreamSubmissionOutcome\<close>; \<open>k\<close> is the stream.\<close>

definition stream_outcome :: "submission \<Rightarrow> nat \<Rightarrow> nat \<Rightarrow> runtime \<Rightarrow> runtime" where
  "stream_outcome outcome i k s =
     (if outcome = Started \<or> outcome = Queued then s
      else if outcome = CloseTheSession then
        close_session (ms_info (session_at i s)) CODE_RESOURCE_LIMIT ''Handler queue limit exceeded'' s
      else emit (ResetCall k (Some CODE_RESOURCE_LIMIT)) s)"

text \<open>The loop body after \<open>whenCapacityAvailable\<close> has resolved: the pump reads only with capacity.\<close>

definition stream_pump_resume :: "stream_kind \<Rightarrow> nat \<Rightarrow> runtime \<Rightarrow> runtime" where
  "stream_pump_resume kind i s =
     (let m = session_at i s in
      if ms_stream_points m kind \<noteq> PumpAtCapacity then s
      else if \<not> has_capacity (ms_scheduler m) then
        (if \<not> ts_accepting (ms_scheduler m) \<or> ms_session_aborted m \<or> ms_intake_aborted m then
           end_stream_pump kind i s
         else stream_pump_head kind i s)
      else set_point kind PumpReading i s)"

text \<open>
  \<open>pumpBidirectionalStreams\<close> and \<open>pumpUnidirectionalStreams\<close> from the stream that was read to the end
  of the loop body; the two functions differ in the limit, the counter and in whether a stream is
  reset or stopped. The pump then waits for the calls it has made.
\<close>

definition pump_stream :: "int \<Rightarrow> nat \<Rightarrow> stream_kind \<Rightarrow> bool \<Rightarrow> runtime \<Rightarrow> runtime" where
  "pump_stream now i kind stream_aborted s =
     (let k = length (rt_streams s) in
      if ms_stream_points (session_at i s) kind \<noteq> PumpReading then s
      else if ms_intake_aborted (session_at i s) \<or> ms_session_aborted (session_at i s) then
        set_point kind PumpEnding i (emit (ResetCall k (Some CODE_REJECTED)) s)
      else
        (let s1 = touch now i s in
         if rt_active_streams s1 \<ge> no_max_streams (rt_options s1) \<or>
            session_streams kind (session_at i s1) \<ge> stream_limit kind (rt_options s1) then
           set_point kind PumpAtOutcome i (emit (ResetCall k (Some CODE_RESOURCE_LIMIT)) s1)
         else
           (let s2 = track_stream now i kind stream_aborted s1;
                (s3, outcome) = submit i 0 s2
            in set_point kind PumpAtOutcome i (stream_outcome outcome i k s3))))"

definition pump_bidirectional_streams :: "int \<Rightarrow> nat \<Rightarrow> bool \<Rightarrow> runtime \<Rightarrow> runtime" where
  "pump_bidirectional_streams now i stream_aborted s = pump_stream now i Bidirectional stream_aborted s"

definition pump_unidirectional_streams :: "int \<Rightarrow> nat \<Rightarrow> bool \<Rightarrow> runtime \<Rightarrow> runtime" where
  "pump_unidirectional_streams now i stream_aborted s = pump_stream now i Unidirectional stream_aborted s"

text \<open>The calls have returned: back to the head of the loop, or out of it.\<close>

definition stream_pump_continue :: "stream_kind \<Rightarrow> nat \<Rightarrow> runtime \<Rightarrow> runtime" where
  "stream_pump_continue kind i s =
     (case ms_stream_points (session_at i s) kind of
        PumpAtOutcome \<Rightarrow> stream_pump_head kind i s
      | PumpEnding \<Rightarrow> end_stream_pump kind i s
      | _ \<Rightarrow> s)"

text \<open>The stream's own signal aborts.\<close>

definition stream_aborts :: "int \<Rightarrow> nat \<Rightarrow> runtime \<Rightarrow> runtime" where
  "stream_aborts now k s = release_stream now k s"

section \<open>The session's signal\<close>

text \<open>
  The session's signal aborts: the listener of \<open>acceptSession\<close> finalises the session, then the
  release closures of its streams run, in the order in which they were registered.
\<close>

definition session_stream_handles :: "nat \<Rightarrow> runtime \<Rightarrow> nat list" where
  "session_stream_handles i s =
     filter (\<lambda>k. st_session (rt_streams s ! k) = i) [0..<length (rt_streams s)]"

definition session_aborts :: "int \<Rightarrow> nat \<Rightarrow> runtime \<Rightarrow> runtime" where
  "session_aborts now i s =
     (let s1 = finalize_session i (update_session i (\<lambda>m. m\<lparr>ms_session_aborted := True\<rparr>) s)
      in fold (release_stream now) (session_stream_handles i s) s1)"

section \<open>Tasks and errors\<close>

text \<open>A task of the session's scheduler has come to its end.\<close>

definition task_ends :: "nat \<Rightarrow> nat \<Rightarrow> runtime \<Rightarrow> runtime" where
  "task_ends i k s = on_scheduler i (task_finally k) s"

text \<open>\<open>handleRuntimeError\<close>; the answer says whether the remaining handlers run.\<close>

definition handle_runtime_error :: "thrown \<Rightarrow> nat \<Rightarrow> nat option \<Rightarrow> runtime \<Rightarrow> runtime \<times> bool" where
  "handle_runtime_error e i stream s0 =
     (let s = emit (LogCall ''handler.error'' (thrown_code e)) s0 in
      if \<not> instance_of e WebTransportError then (s, True)
      else
        (case thrown_scope e of
           Some HANDLER \<Rightarrow> (s, True)
         | Some STREAM \<Rightarrow>
             ((case stream of Some k \<Rightarrow> emit (ResetCall k None) s | None \<Rightarrow> s), False)
         | Some SESSION \<Rightarrow>
             (close_session (ms_info (session_at i s)) CODE_INTERNAL_ERROR
                (case thrown_code e of Some c \<Rightarrow> c | None \<Rightarrow> []) s, False)
         | _ \<Rightarrow> (emit StopServer s, False)))"

end
