(* ===== verification/Runtime_Machine.thy ===== *)
theory Runtime_Machine
  imports Runtime_Work
begin

text \<open>
  Starting and stopping the runtime, and the runtime as a machine: its events are the atomic
  segments of the handlers, from one suspension point to the next, in any interleaving the
  environment chooses. An event whose handler is not suspended there does nothing.
\<close>

section \<open>Starting\<close>

text \<open>\<open>validateRegistryConfiguration\<close>: the check of one handler, and the loop.\<close>

definition check_handler :: "normalized_options \<Rightarrow> compiled_handler \<Rightarrow> thrown option" where
  "check_handler n h =
     (let check = (\<lambda>capable routed unsupported unrouted.
            if \<not> capable then Some (type_error unsupported)
            else (case ch_route h of
                    Some r \<Rightarrow> if \<not> routed then Some (type_error (unrouted r)) else None
                  | None \<Rightarrow> None))
      in case ch_kind h of
           SessionKind \<Rightarrow> None
         | DatagramKind \<Rightarrow>
             check (cap_datagrams (no_driver n)) (no_route_datagram n)
               ''The configured driver does not support datagram handlers.''
               (\<lambda>r. ''Named datagram handler \"'' @ r @ ''\" requires routing.datagram.'')
         | BidirectionalKind \<Rightarrow>
             check (cap_bidirectional (no_driver n)) (no_route_bidirectional n)
               ''The configured driver does not support bidirectional stream handlers.''
               (\<lambda>r. ''Named bidirectional stream handler \"'' @ r @ ''\" requires routing.bidirectionalStream.'')
         | UnidirectionalKind \<Rightarrow>
             check (cap_unidirectional (no_driver n)) (no_route_unidirectional n)
               ''The configured driver does not support unidirectional stream handlers.''
               (\<lambda>r. ''Named unidirectional stream handler \"'' @ r @ ''\" requires routing.unidirectionalStream.''))"

fun first_error :: "('a \<Rightarrow> 'e option) \<Rightarrow> 'a list \<Rightarrow> 'e option" where
  "first_error f [] = None"
| "first_error f (x # xs) = (case f x of Some e \<Rightarrow> Some e | None \<Rightarrow> first_error f xs)"

definition validate_registry :: "normalized_options \<Rightarrow> gateway_registry \<Rightarrow> thrown option" where
  "validate_registry n g = first_error (check_handler n) (list_handlers g)"

text \<open>
  \<open>onApplicationBootstrap\<close> up to the call of the driver. A start that is in flight is shared; in any
  state but \<open>STOPPED\<close> nothing happens.
\<close>

definition start_server :: "runtime \<Rightarrow> thrown + runtime" where
  "start_server s =
     (if rt_starting s then Inr s
      else if rt_state s = RUNNING then Inr s
      else if rt_state s \<noteq> STOPPED then Inr s
      else
        (case validate_registry (rt_options s) (rt_registry s) of
           Some e \<Rightarrow> Inl e
         | None \<Rightarrow>
             bindE (transition (rt_state s) STARTING) (\<lambda>(t, _).
               Inr (emit DriverStart (s\<lparr>rt_state := t, rt_subscribed := True, rt_starting := True\<rparr>)))))"

text \<open>\<open>performStart\<close> after the driver's answer.\<close>

definition start_settles :: "bool \<Rightarrow> runtime \<Rightarrow> runtime" where
  "start_settles ok s =
     (if \<not> rt_starting s then s
      else if ok then
        (let s1 = s\<lparr>rt_starting := False\<rparr> in
         if rt_state s1 = STARTING then
           emit (LogCall ''server.started'' None) (s1\<lparr>rt_state := transition_state RUNNING (rt_state s1)\<rparr>)
         else s1)
      else
        (let s1 = s\<lparr>rt_starting := False, rt_subscribed := False\<rparr> in
         if rt_state s1 = STARTING then
           s1\<lparr>rt_state := transition_state STOPPED (transition_state STOPPING (rt_state s1))\<rparr>
         else s1))"

section \<open>Stopping\<close>

definition drain_session :: "nat \<Rightarrow> runtime \<Rightarrow> runtime" where
  "drain_session i s =
     stop_intake i
       (if no_graceful (rt_options s) \<and> cap_graceful (no_driver (rt_options s)) then emit (SessionDrain i) s
        else s)"

text \<open>The segment after the drain wait: \<open>STOPPING\<close>, and the work of every session is cut off.\<close>

definition force_session :: "nat \<Rightarrow> runtime \<Rightarrow> runtime" where
  "force_session i s =
     on_scheduler i (close_scheduler True) (update_session i (\<lambda>m. m\<lparr>ms_admission_aborted := True\<rparr>) s)"

definition stop_force :: "runtime \<Rightarrow> runtime" where
  "stop_force s =
     (let s1 = (if rt_state s = DRAINING then s\<lparr>rt_state := transition_state STOPPING (rt_state s)\<rparr> else s)
      in (fold force_session (rt_outstanding s1) s1)\<lparr>rt_stopping := StopForced\<rparr>)"

text \<open>\<open>stop\<close> and \<open>performStop\<close> up to the first wait. A stop that is in flight is shared.\<close>

definition stop_server :: "runtime \<Rightarrow> runtime" where
  "stop_server s =
     (if rt_stopping s \<noteq> NotStopping \<or> rt_state s = STOPPED then s
      else
        (let s1 = (if rt_state s = RUNNING then s\<lparr>rt_state := transition_state DRAINING (rt_state s)\<rparr>
                   else if rt_state s = STARTING then s\<lparr>rt_state := transition_state STOPPING (rt_state s)\<rparr>
                   else s);
             s2 = s1\<lparr>rt_subscribed := False\<rparr>;
             s3 = fold drain_session (rt_outstanding s2) s2
         in if rt_state s3 = DRAINING \<and> no_graceful (rt_options s3) then s3\<lparr>rt_stopping := StopDraining\<rparr>
            else stop_force s3))"

text \<open>
  The next segment: after the drain wait, after the wait for a cancelled start (close every session),
  after the wait for the closes (stop the driver). Where the code does not wait in between, the model
  allows other events in between.
\<close>

definition stop_proceeds :: "runtime \<Rightarrow> runtime" where
  "stop_proceeds s =
     (case rt_stopping s of
        StopDraining \<Rightarrow> stop_force s
      | StopForced \<Rightarrow>
          (fold (\<lambda>(_, i) s. close_session (ms_info (session_at i s)) 0 ''Server shutting down'' s)
             (rt_sessions s) s)\<lparr>rt_stopping := StopClosing\<rparr>
      | StopClosing \<Rightarrow>
          (emit (DriverStop (no_graceful (rt_options s) \<and> cap_graceful (no_driver (rt_options s)))) s)
            \<lparr>rt_stopping := StopDriver\<rparr>
      | _ \<Rightarrow> s)"

text \<open>The driver has stopped, or failed to: the \<open>finally\<close> block.\<close>

definition stop_ends :: "bool \<Rightarrow> runtime \<Rightarrow> runtime" where
  "stop_ends ok s =
     (if rt_stopping s \<noteq> StopDriver then s
      else
        (let s1 = fold finalize_session (map snd (rt_sessions s)) s;
             s2 = s1\<lparr>rt_stopping := NotStopping\<rparr>
         in if ok \<and> rt_state s2 = STOPPING then
              emit (LogCall ''server.stopped'' None) (s2\<lparr>rt_state := transition_state STOPPED (rt_state s2)\<rparr>)
            else s2))"

section \<open>The machine\<close>

datatype runtime_event =
    SessionArrives bool "handler_kind \<Rightarrow> bool" int session_info bool
  | AdmissionSettles nat
  | HandshakeTimesOut nat
  | AdmissionFails bool nat
  | AdmissionSucceeds nat
  | DatagramArrives int nat bytes
  | DrainResumes nat
  | DrainContinues nat
  | StreamArrives int nat stream_kind bool
  | StreamPumpResumes nat stream_kind
  | StreamPumpContinues nat stream_kind
  | StreamAborts int nat
  | SessionAborts int nat
  | TaskEnds nat nat
  | PumpEnds pump nat
  | IdleTimerFires int nat
  | SessionTouched int nat
  | Retires int nat
  | BudgetRuns budget_event
  | HandlerFails thrown nat "nat option"
  | ServerStarts
  | StartSettles bool
  | ServerStops
  | StopProceeds
  | StopEnds bool

fun run_event :: "budget_event \<Rightarrow> bool" where
  "run_event ReserveBudget = False"
| "run_event (ReleaseBudget _) = False"
| "run_event _ = True"

definition at_session :: "nat \<Rightarrow> (runtime \<Rightarrow> runtime) \<Rightarrow> runtime \<Rightarrow> runtime" where
  "at_session i f s = (if i < length (rt_managed s) then f s else s)"

text \<open>
  Calls of \<open>handlerBudget.run\<close> by started tasks, and their ends, are the events \<open>BudgetRuns\<close>; a drain
  pump ends in its loop, so \<open>PumpEnds\<close> is for the other pumps.
\<close>

fun runtime_step ::
  "(string \<Rightarrow> url_parts option) \<Rightarrow> (string \<Rightarrow> string option) \<Rightarrow> runtime_event \<Rightarrow> runtime \<Rightarrow> runtime" where
  "runtime_step pu url (SessionArrives dr locked now info aborted) s =
     (if rt_subscribed s then accept_session pu url dr locked now info aborted s else s)"
| "runtime_step pu url (AdmissionSettles i) s = at_session i (admission_settles i) s"
| "runtime_step pu url (HandshakeTimesOut i) s = at_session i (handshake_timeout i) s"
| "runtime_step pu url (AdmissionFails timed_out i) s = at_session i (admission_fails timed_out i) s"
| "runtime_step pu url (AdmissionSucceeds i) s = at_session i (admission_succeeds i) s"
| "runtime_step pu url (DatagramArrives now i d) s = at_session i (pump_datagram now i d) s"
| "runtime_step pu url (DrainResumes i) s = at_session i (drain_resume i) s"
| "runtime_step pu url (DrainContinues i) s = at_session i (drain_continue i) s"
| "runtime_step pu url (StreamArrives now i kind aborted) s = at_session i
       (case kind of
          Bidirectional \<Rightarrow> pump_bidirectional_streams now i aborted
        | Unidirectional \<Rightarrow> pump_unidirectional_streams now i aborted) s"
| "runtime_step pu url (StreamPumpResumes i kind) s = at_session i (stream_pump_resume kind i) s"
| "runtime_step pu url (StreamPumpContinues i kind) s = at_session i (stream_pump_continue kind i) s"
| "runtime_step pu url (StreamAborts now k) s = stream_aborts now k s"
| "runtime_step pu url (SessionAborts now i) s = at_session i (session_aborts now i) s"
| "runtime_step pu url (TaskEnds i k) s = at_session i (task_ends i k) s"
| "runtime_step pu url (PumpEnds p i) s =
     (case p of
        DrainPump \<Rightarrow> s
      | DatagramPump \<Rightarrow> at_session i (end_pump p i) s
      | BidirectionalPump \<Rightarrow> at_session i (end_stream_pump Bidirectional i) s
      | UnidirectionalPump \<Rightarrow> at_session i (end_stream_pump Unidirectional i) s)"
| "runtime_step pu url (IdleTimerFires now i) s =
     at_session i (\<lambda>s. if ms_idle_timer (session_at i s) = None then s else check_idle now i s) s"
| "runtime_step pu url (SessionTouched now i) s = at_session i (touch now i) s"
| "runtime_step pu url (Retires now i) s =
     at_session i (\<lambda>s. if may_retire i s then retire_session now i s else s) s"
| "runtime_step pu url (BudgetRuns e) s =
     (if run_event e then s\<lparr>rt_budget := fst (budget_step e (rt_budget s))\<rparr> else s)"
| "runtime_step pu url (HandlerFails e i stream) s =
     at_session i (\<lambda>s. fst (handle_runtime_error e i stream s)) s"
| "runtime_step pu url ServerStarts s = (case start_server s of Inl _ \<Rightarrow> s | Inr s' \<Rightarrow> s')"
| "runtime_step pu url (StartSettles ok) s = start_settles ok s"
| "runtime_step pu url ServerStops s = stop_server s"
| "runtime_step pu url StopProceeds s = stop_proceeds s"
| "runtime_step pu url (StopEnds ok) s = stop_ends ok s"

definition runtime_run ::
  "(string \<Rightarrow> url_parts option) \<Rightarrow> (string \<Rightarrow> string option) \<Rightarrow> runtime_event list \<Rightarrow> runtime \<Rightarrow> runtime" where
  "runtime_run pu url es s = fold (runtime_step pu url) es s"

end
