(* ===== verification/Runtime_Ledger.thy ===== *)
theory Runtime_Ledger
  imports Runtime_Machine
begin

text \<open>
  The ledger of the runtime: every reservation of the server-wide budget that is not released belongs
  to exactly one task that a scheduler holds or to one pending admission, and the server-wide count of
  retained datagram bytes is the sum of what the sessions' queues and the schedulers' tasks retain.
  The lemmas show that every segment of every handler keeps the books balanced; between two steps of
  a segment the books may be open, which \<open>open_ledger\<close> accounts for.
\<close>

section \<open>The books\<close>

definition unreleased :: "handler_budget \<Rightarrow> nat multiset" where
  "unreleased b = mset (filter (\<lambda>h. \<not> hb_released b ! h) [0..<length (hb_released b)])"

definition held :: "managed \<Rightarrow> nat multiset" where
  "held m = mset (map task_id (ts_running (ms_scheduler m))) + mset (map task_id (ts_pending (ms_scheduler m)))"

definition claims :: "managed \<Rightarrow> nat multiset" where
  "claims m = held m + (case ms_admission m of Some h \<Rightarrow> {#h#} | None \<Rightarrow> {#})"

definition all_claims :: "managed list \<Rightarrow> nat multiset" where
  "all_claims ms = sum_list (map claims ms)"

definition bytes_of :: "(nat \<Rightarrow> int) \<Rightarrow> nat multiset \<Rightarrow> int" where
  "bytes_of f hs = \<Sum>\<^sub># (image_mset f hs)"

definition retained :: "(nat \<Rightarrow> int) \<Rightarrow> managed list \<Rightarrow> int" where
  "retained f ms = sum_list (map (\<lambda>m. ms_queued_bytes m + bytes_of f (held m)) ms)"

definition session_ok :: "managed \<Rightarrow> bool" where
  "session_ok m \<longleftrightarrow>
     sched_inv (ms_scheduler m) \<and> all_observed (ms_scheduler m) \<and> bq_inv (ms_datagrams m) \<and>
     ms_queued_bytes m = bq.weight byte_length (ms_datagrams m)"

text \<open>
  The open books: \<open>p\<close> are reservations of tasks that nobody holds any more but that are not settled,
  \<open>q\<close> reservations without a task, \<open>e\<close> bytes that are charged but in no queue and no task.
\<close>

definition open_ledger :: "int \<Rightarrow> nat multiset \<Rightarrow> nat multiset \<Rightarrow> runtime \<Rightarrow> bool" where
  "open_ledger e p q s \<longleftrightarrow>
     budget_inv (rt_budget s) \<and> (\<forall>m \<in> set (rt_managed s). session_ok m) \<and>
     unreleased (rt_budget s) = all_claims (rt_managed s) + p + q \<and>
     rt_queued_bytes s = retained (rt_task_bytes s) (rt_managed s) + bytes_of (rt_task_bytes s) p + e \<and>
     (\<forall>h. 0 \<le> rt_task_bytes s h) \<and> rt_queued_bytes s \<le> no_queued_bytes (rt_options s)"

abbreviation ledger :: "runtime \<Rightarrow> bool" where
  "ledger s \<equiv> open_ledger 0 {#} {#} s"

section \<open>Sums over the sessions\<close>

lemma sum_list_update_add:
  fixes f :: "'a \<Rightarrow> 'b :: comm_monoid_add"
  shows "i < length xs \<Longrightarrow> sum_list (map f (xs[i := y])) + f (xs ! i) = sum_list (map f xs) + f y"
proof (induction xs arbitrary: i)
  case (Cons x xs)
  then show ?case by (cases i) (simp_all add: ac_simps)
qed simp

lemma sum_list_update_same:
  fixes f :: "'a \<Rightarrow> 'b :: comm_monoid_add"
  shows "i < length xs \<Longrightarrow> f y = f (xs ! i) \<Longrightarrow> sum_list (map f (xs[i := y])) = sum_list (map f xs)"
  by (metis list_update_id map_update)

lemma bytes_of_simps [simp]:
  "bytes_of f {#} = 0" "bytes_of f (add_mset h hs) = f h + bytes_of f hs"
  "bytes_of f (a + b) = bytes_of f a + bytes_of f b"
  by (simp_all add: bytes_of_def)

lemma bytes_of_nonneg: "(\<And>h. 0 \<le> f h) \<Longrightarrow> 0 \<le> bytes_of f hs"
  unfolding bytes_of_def by (induction hs) auto

lemma bytes_of_upd: "h \<notin># hs \<Longrightarrow> bytes_of (f(h := n)) hs = bytes_of f hs"
  by (induction hs) (auto simp: bytes_of_def)

lemma in_all_claims: "m \<in> set ms \<Longrightarrow> claims m \<subseteq># all_claims ms"
  unfolding all_claims_def by (induction ms) (auto intro: mset_subset_eq_add_right subset_mset.add_increasing)

lemma retained_upd: "h \<notin># all_claims ms \<Longrightarrow> retained (f(h := n)) ms = retained f ms"
proof (induction ms)
  case (Cons m ms)
  then have "h \<notin># held m" "h \<notin># all_claims ms"
    by (auto simp: all_claims_def claims_def)
  with Cons.IH show ?case by (simp add: retained_def bytes_of_upd del: fun_upd_apply)
qed (simp add: retained_def)

section \<open>The books depend on a part of the state only\<close>

definition ledger_view :: "managed \<Rightarrow> scheduler \<times> bytes bounded_queue \<times> int \<times> nat option" where
  "ledger_view m = (ms_scheduler m, ms_datagrams m, ms_queued_bytes m, ms_admission m)"

definition ledger_part where
  "ledger_part s =
     (rt_budget s, map ledger_view (rt_managed s), rt_task_bytes s, rt_queued_bytes s, no_queued_bytes (rt_options s))"

lemma view_facts:
  assumes "ledger_view m = ledger_view m'"
  shows "claims m = claims m'" "held m = held m'" "session_ok m = session_ok m'"
    "ms_queued_bytes m = ms_queued_bytes m'"
  using assms by (simp_all add: ledger_view_def claims_def held_def session_ok_def)

lemma map_view_transfer:
  assumes "map ledger_view ms = map ledger_view ms'" and "\<And>m m'. ledger_view m = ledger_view m' \<Longrightarrow> f m = f m'"
  shows "map f ms = map f ms'"
  using assms(1)
proof (induction ms arbitrary: ms')
  case (Cons m ms)
  then obtain m' rest where ms': "ms' = m' # rest" "ledger_view m = ledger_view m'"
    "map ledger_view ms = map ledger_view rest" by (cases ms') auto
  with Cons.IH [OF ms'(3)] assms(2) [OF ms'(2)] show ?case by simp
qed simp

lemma ledger_cong:
  assumes "ledger_part s = ledger_part s'"
  shows "open_ledger e p q s = open_ledger e p q s'"
proof -
  have v: "map ledger_view (rt_managed s) = map ledger_view (rt_managed s')"
    using assms by (simp add: ledger_part_def)
  have "map claims (rt_managed s) = map claims (rt_managed s')"
    by (rule map_view_transfer [OF v]) (rule view_facts)
  moreover have "map (\<lambda>m. ms_queued_bytes m + bytes_of f (held m)) (rt_managed s) =
      map (\<lambda>m. ms_queued_bytes m + bytes_of f (held m)) (rt_managed s')" for f
    by (rule map_view_transfer [OF v]) (metis view_facts(2,4))
  moreover have "(\<forall>m \<in> set (rt_managed s). session_ok m) = (\<forall>m \<in> set (rt_managed s'). session_ok m)"
  proof -
    have all: "(\<forall>m \<in> set ms. session_ok m) = (\<forall>b \<in> set (map session_ok ms). b)" for ms by simp
    have "map session_ok (rt_managed s) = map session_ok (rt_managed s')"
      by (rule map_view_transfer [OF v]) (rule view_facts)
    then show ?thesis unfolding all by (rule arg_cong [where f = "\<lambda>l. \<forall>b \<in> set l. b"])
  qed
  ultimately show ?thesis
    using assms unfolding open_ledger_def all_claims_def retained_def ledger_part_def
    by (simp only: prod.inject)
qed

lemma part_update_session:
  "(\<And>m. ledger_view (f m) = ledger_view m) \<Longrightarrow> ledger_part (update_session i f s) = ledger_part s"
proof -
  assume f: "\<And>m. ledger_view (f m) = ledger_view m"
  have "map ledger_view ((rt_managed s)[i := f (rt_managed s ! i)]) = map ledger_view (rt_managed s)"
    by (metis f list_update_id map_update)
  then show ?thesis by (simp add: ledger_part_def update_session_def session_at_def)
qed

lemma part_neutral [simp]:
  "ledger_part (emit a s) = ledger_part s"
  "ledger_part (close_session info code reason s) = ledger_part s"
  "ledger_part (record_rejection reason s) = ledger_part s"
  "ledger_part (record_datagram_drop reason i s) = ledger_part s"
  by (simp_all add: emit_def close_session_def record_rejection_def record_datagram_drop_def ledger_part_def)

lemma part_touch [simp]: "ledger_part (touch now i s) = ledger_part s"
  unfolding touch_def Let_def by (simp add: part_update_session ledger_view_def)

lemma part_end_pump [simp]: "ledger_part (end_pump p i s) = ledger_part s"
  unfolding end_pump_def by (simp add: part_update_session ledger_view_def)

lemma part_check_idle [simp]: "ledger_part (check_idle now i s) = ledger_part s"
  unfolding check_idle_def Let_def by (simp add: part_update_session ledger_view_def)

section \<open>Reservations\<close>

lemma filter_upt_update:
  "h < n \<Longrightarrow> P h \<Longrightarrow> mset (filter P [0..<n]) = add_mset h (mset (filter (\<lambda>k. P k \<and> k \<noteq> h) [0..<n]))"
proof (induction n)
  case (Suc n)
  show ?case
  proof (cases "h = n")
    case True
    have "filter P [0..<n] = filter (\<lambda>k. P k \<and> k \<noteq> n) [0..<n]" by (rule filter_cong) auto
    with True Suc.prems show ?thesis by simp
  next
    case False
    with Suc show ?thesis by auto
  qed
qed simp

lemma unreleased_release:
  assumes "h \<in># unreleased b"
  shows "unreleased b = add_mset h (unreleased (hb_release h b))"
proof -
  have h: "h < length (hb_released b)" "\<not> hb_released b ! h"
    using assms by (auto simp: unreleased_def)
  then have r: "hb_released (hb_release h b) = (hb_released b)[h := True]"
    by (simp add: hb_release_def)
  have "filter (\<lambda>k. \<not> (hb_released b)[h := True] ! k) [0..<length (hb_released b)] =
      filter (\<lambda>k. \<not> hb_released b ! k \<and> k \<noteq> h) [0..<length (hb_released b)]"
    by (rule filter_cong) (use h in \<open>auto simp: nth_list_update split: if_splits\<close>)
  then show ?thesis
    unfolding unreleased_def r using filter_upt_update [of h _ "\<lambda>k. \<not> hb_released b ! k", OF h] by simp
qed

lemma unreleased_reserve:
  assumes "hb_reserve b = (b', Some h)"
  shows "unreleased b' = add_mset h (unreleased b)" and "h \<notin># unreleased b" and "h = length (hb_released b)"
proof -
  have r: "hb_released b' = hb_released b @ [False]" and h: "h = length (hb_released b)"
    using assms by (auto simp: hb_reserve_def split: if_splits)
  have "filter (\<lambda>k. \<not> (hb_released b @ [False]) ! k) [0..<length (hb_released b)] =
      filter (\<lambda>k. \<not> hb_released b ! k) [0..<length (hb_released b)]"
    by (rule filter_cong) (auto simp: nth_append)
  then show "unreleased b' = add_mset h (unreleased b)"
    unfolding unreleased_def r by (simp add: h)
  show "h \<notin># unreleased b" by (simp add: unreleased_def h)
  show "h = length (hb_released b)" by (rule h)
qed

lemma wake_loop_released: "hb_released (fst (wake_loop ws b)) = hb_released b"
  by (induction ws arbitrary: b) (auto simp: grant_run_def Let_def prod.case_eq_if)

lemma run_event_released: "run_event e \<Longrightarrow> hb_released (fst (budget_step e b)) = hb_released b"
  by (cases e)
    (auto simp: run_acquire_def run_abort_def run_finally_def wake_def wake_loop_released Let_def
      prod.case_eq_if)

lemma unreleased_run_event: "run_event e \<Longrightarrow> unreleased (fst (budget_step e b)) = unreleased b"
  by (simp add: unreleased_def run_event_released)

lemma size_unreleased: "budget_inv b \<Longrightarrow> int (size (unreleased b)) = hb_reserved b"
proof -
  have "length (filter (\<lambda>k. \<not> xs ! k) [0..<length xs]) = length (filter Not xs)" for xs :: "bool list"
  proof -
    have "filter Not xs = map (nth xs) (filter (\<lambda>k. \<not> xs ! k) [0..<length xs])"
      using filter_map [of Not "nth xs" "[0..<length xs]"] by (simp add: comp_def map_nth)
    then show ?thesis by simp
  qed
  note len = this
  assume "budget_inv b"
  then have "hb_reserved b = int (length (filter Not (hb_released b)))"
    by (simp add: budget_inv_def hb.balanced_def)
  then show ?thesis unfolding unreleased_def size_mset len by simp
qed

section \<open>One session changes\<close>

lemma rt_simps [simp]:
  "rt_options (update_session i f s) = rt_options s" "rt_budget (update_session i f s) = rt_budget s"
  "rt_task_bytes (update_session i f s) = rt_task_bytes s"
  "rt_queued_bytes (update_session i f s) = rt_queued_bytes s"
  "length (rt_managed (update_session i f s)) = length (rt_managed s)"
  by (simp_all add: update_session_def)

lemma session_at_update [simp]:
  "i < length (rt_managed s) \<Longrightarrow> session_at i (update_session i f s) = f (session_at i s)"
  by (simp add: update_session_def session_at_def)

lemma ledger_replace:
  assumes l: "open_ledger e p q s" and i: "i < length (rt_managed s)"
    and ok: "session_ok (f (session_at i s))"
    and cl: "claims (session_at i s) + p + q = claims (f (session_at i s)) + p' + q'"
    and bts: "ms_queued_bytes (f (session_at i s)) + bytes_of (rt_task_bytes s) (held (f (session_at i s))) +
        bytes_of (rt_task_bytes s) p' + e' =
      ms_queued_bytes (session_at i s) + bytes_of (rt_task_bytes s) (held (session_at i s)) +
        bytes_of (rt_task_bytes s) p + e + d"
    and bound: "rt_queued_bytes s + d \<le> no_queued_bytes (rt_options s)"
  shows "open_ledger e' p' q' (update_session i f (s\<lparr>rt_queued_bytes := rt_queued_bytes s + d\<rparr>))"
proof -
  let ?m = "rt_managed s ! i" and ?ms = "rt_managed s"
  let ?F = "rt_task_bytes s"
  have m: "session_at i s = ?m" by (simp add: session_at_def)
  have "all_claims (?ms[i := f ?m]) + claims ?m = all_claims ?ms + claims (f ?m)"
    unfolding all_claims_def by (rule sum_list_update_add [OF i])
  note ac = this
  have "all_claims (?ms[i := f ?m]) + p' + q' + (claims ?m + claims (f ?m)) =
      (all_claims (?ms[i := f ?m]) + claims ?m) + (claims (f ?m) + p' + q')" by (simp only: ac_simps)
  also have "\<dots> = (all_claims ?ms + claims (f ?m)) + (claims ?m + p + q)"
    using ac cl unfolding m by simp
  also have "\<dots> = all_claims ?ms + p + q + (claims ?m + claims (f ?m))" by (simp only: ac_simps)
  finally have "all_claims (?ms[i := f ?m]) + p' + q' + (claims ?m + claims (f ?m)) =
      all_claims ?ms + p + q + (claims ?m + claims (f ?m))" .
  then have a: "all_claims (?ms[i := f ?m]) + p' + q' = all_claims ?ms + p + q"
    by (rule add_right_imp_eq)
  have r: "retained ?F (?ms[i := f ?m]) + (ms_queued_bytes ?m + bytes_of ?F (held ?m)) =
      retained ?F ?ms + (ms_queued_bytes (f ?m) + bytes_of ?F (held (f ?m)))"
    unfolding retained_def by (rule sum_list_update_add [OF i])
  have "\<forall>m \<in> set (?ms[i := f ?m]). session_ok m"
    using l ok set_update_subset_insert [of ?ms i "f ?m"] by (auto simp: open_ledger_def m)
  with l a r bts bound show ?thesis
    by (simp add: open_ledger_def update_session_def session_at_def)
qed

lemmas ledger_replace_same = ledger_replace [where d = 0, simplified]

section \<open>Settling\<close>

lemma settle_ledger: "open_ledger e (add_mset h p) q s \<Longrightarrow> open_ledger e p q (settle h s)"
proof -
  assume l: "open_ledger e (add_mset h p) q s"
  then have "h \<in># unreleased (rt_budget s)" by (simp add: open_ledger_def)
  from unreleased_release [OF this] l have
    "unreleased (hb_release h (rt_budget s)) = all_claims (rt_managed s) + p + q"
    by (simp add: open_ledger_def)
  moreover have "rt_queued_bytes s - rt_task_bytes s h \<le> no_queued_bytes (rt_options s)"
  proof -
    have "0 \<le> rt_task_bytes s h" "rt_queued_bytes s \<le> no_queued_bytes (rt_options s)"
      using l by (simp_all add: open_ledger_def)
    then show ?thesis by linarith
  qed
  ultimately show ?thesis
    using l budget_release_inv [of "rt_budget s" h] by (simp add: open_ledger_def settle_def)
qed

lemma settle_all_ledger: "open_ledger e (mset hs + p) q s \<Longrightarrow> open_ledger e p q (settle_all hs s)"
  by (induction hs arbitrary: s) (auto simp: settle_all_def dest: settle_ledger)

text \<open>The operations of the scheduler that accept no task.\<close>

definition conserving :: "(scheduler \<Rightarrow> scheduler \<times> observation list) \<Rightarrow> bool" where
  "conserving f \<longleftrightarrow> (\<forall>s. sched_inv s \<and> all_observed s \<longrightarrow>
     sched_inv (fst (f s)) \<and> all_observed (fst (f s)) \<and>
     mset (map task_id (ts_running s)) + mset (map task_id (ts_pending s)) =
       mset (map task_id (ts_running (fst (f s)))) + mset (map task_id (ts_pending (fst (f s)))) +
       mset (settled_ids (snd (f s))))"

lemma conserving_ops: "conserving (close_scheduler d)" "conserving (when_capacity_available w a)"
  "conserving (task_finally k)"
proof -
  have acc: "accepted_ids (snd (sched_step e s)) = []" if "\<And>t. e \<noteq> SubmitTask t" for e s
    using that
  proof (cases e)
    case (TaskFinally i)
    then show ?thesis
      by (cases "i < length (ts_running s)")
        (auto simp: task_finally_run task_finally_none start_next_def start_task_def split: list.splits)
  qed (auto simp: close_scheduler_run when_capacity_available_def on_idle_def abort_waiter_def Let_def)
  have "conserving (sched_step e)" if "\<And>t. e \<noteq> SubmitTask t" for e
    unfolding conserving_def
  proof (intro allI impI)
    fix s
    assume "sched_inv s \<and> all_observed s"
    moreover have "observed_event e" using that by (cases e) (auto simp: observed_event_def)
    ultimately show "sched_inv (fst (sched_step e s)) \<and> all_observed (fst (sched_step e s)) \<and>
     mset (map task_id (ts_running s)) + mset (map task_id (ts_pending s)) =
       mset (map task_id (ts_running (fst (sched_step e s)))) +
       mset (map task_id (ts_pending (fst (sched_step e s)))) +
       mset (settled_ids (snd (sched_step e s)))"
      using step_conserves [of s e] sched_step_inv [of s e] acc [OF that, of s] by simp
  qed
  from this [of "CloseScheduler d"] this [of "WaitCapacity w a"] this [of "TaskFinally k"]
  show "conserving (close_scheduler d)" "conserving (when_capacity_available w a)" "conserving (task_finally k)"
    by (simp_all add: sched_step.simps [abs_def])
qed

section \<open>Every operation keeps the books\<close>

lemma ledger_neutral [simp]:
  "open_ledger e p q (emit a s) = open_ledger e p q s"
  "open_ledger e p q (close_session info code reason s) = open_ledger e p q s"
  "open_ledger e p q (record_rejection reason s) = open_ledger e p q s"
  "open_ledger e p q (record_datagram_drop reason i s) = open_ledger e p q s"
  "open_ledger e p q (touch now i s) = open_ledger e p q s"
  "open_ledger e p q (end_pump pu i s) = open_ledger e p q s"
  "open_ledger e p q (check_idle now i s) = open_ledger e p q s"
  by (rule ledger_cong, simp)+

lemma ledger_neutral_session [simp]:
  "(\<And>m. ledger_view (f m) = ledger_view m) \<Longrightarrow>
   open_ledger e p q (update_session i f s) = open_ledger e p q s"
  by (rule ledger_cong) (rule part_update_session)

lemma ledger_neutral_fields [simp]:
  "open_ledger e p q (s\<lparr>rt_state := a\<rparr>) = open_ledger e p q s"
  "open_ledger e p q (s\<lparr>rt_sessions := b\<rparr>) = open_ledger e p q s"
  "open_ledger e p q (s\<lparr>rt_outstanding := c\<rparr>) = open_ledger e p q s"
  "open_ledger e p q (s\<lparr>rt_ip := d\<rparr>) = open_ledger e p q s"
  "open_ledger e p q (s\<lparr>rt_rejected_handlers := f\<rparr>) = open_ledger e p q s"
  "open_ledger e p q (s\<lparr>rt_accepted := f\<rparr>) = open_ledger e p q s"
  "open_ledger e p q (s\<lparr>rt_stopping := g\<rparr>) = open_ledger e p q s"
  "open_ledger e p q (s\<lparr>rt_subscribed := h\<rparr>) = open_ledger e p q s"
  "open_ledger e p q (s\<lparr>rt_starting := h\<rparr>) = open_ledger e p q s"
  "open_ledger e p q (s\<lparr>rt_active_streams := k\<rparr>) = open_ledger e p q s"
  "open_ledger e p q (s\<lparr>rt_streams := l\<rparr>) = open_ledger e p q s"
  by (rule ledger_cong, simp add: ledger_part_def)+

lemma session_in: "i < length (rt_managed s) \<Longrightarrow> session_at i s \<in> set (rt_managed s)"
  by (simp add: session_at_def)

lemma ledger_session_ok: "open_ledger e p q s \<Longrightarrow> i < length (rt_managed s) \<Longrightarrow> session_ok (session_at i s)"
  using session_in by (auto simp: open_ledger_def)

lemma length_settle_all [simp]: "length (rt_managed (settle_all hs s)) = length (rt_managed s)"
  by (induction hs arbitrary: s) (simp_all add: settle_all_def settle_def)

lemma length_ops [simp]:
  "length (rt_managed (emit a s)) = length (rt_managed s)"
  "length (rt_managed (close_session info code reason s)) = length (rt_managed s)"
  "length (rt_managed (record_rejection reason s)) = length (rt_managed s)"
  "length (rt_managed (record_datagram_drop reason i s)) = length (rt_managed s)"
  "length (rt_managed (touch now i s)) = length (rt_managed s)"
  "length (rt_managed (end_pump pu i s)) = length (rt_managed s)"
  "length (rt_managed (on_scheduler i f s)) = length (rt_managed s)"
  "length (rt_managed (clear_datagrams i s)) = length (rt_managed s)"
  by (simp_all add: emit_def close_session_def record_rejection_def record_datagram_drop_def touch_def
      end_pump_def on_scheduler_def clear_datagrams_def Let_def prod.case_eq_if)

lemma length_stop_intake [simp]: "length (rt_managed (stop_intake i s)) = length (rt_managed s)"
  by (simp add: stop_intake_def)

lemma length_finalize [simp]: "length (rt_managed (finalize_session i s)) = length (rt_managed s)"
  by (simp add: finalize_session_def Let_def)

lemma on_scheduler_ledger:
  assumes c: "conserving f" and l: "open_ledger e p q s" and i: "i < length (rt_managed s)"
  shows "open_ledger e p q (on_scheduler i f s)"
proof -
  let ?m = "session_at i s"
  obtain sch os where f: "f (ms_scheduler ?m) = (sch, os)" by fastforce
  have ok: "session_ok ?m" by (rule ledger_session_ok [OF l i])
  with c f have sch: "sched_inv sch" "all_observed sch"
    and cons: "held ?m = held (?m\<lparr>ms_scheduler := sch\<rparr>) + mset (settled_ids os)"
    by (auto simp: conserving_def session_ok_def held_def dest!: spec [of _ "ms_scheduler ?m"])
  have "open_ledger e (mset (settled_ids os) + p) q (update_session i (\<lambda>m. m\<lparr>ms_scheduler := sch\<rparr>) s)"
    by (rule ledger_replace_same [OF l i])
      (use ok sch cons l in \<open>auto simp: session_ok_def claims_def open_ledger_def\<close>)
  then show ?thesis unfolding on_scheduler_def f by (simp add: settle_all_ledger)
qed

lemma clear_datagrams_ledger:
  assumes l: "open_ledger e p q s" and i: "i < length (rt_managed s)"
  shows "open_ledger e p q (clear_datagrams i s)"
proof -
  let ?m = "session_at i s"
  have ok: "session_ok ?m" by (rule ledger_session_ok [OF l i])
  have n: "0 \<le> ms_queued_bytes ?m"
    using ok bq.weight_nonneg [of byte_length] by (simp add: session_ok_def)
  have "open_ledger e p q (update_session i (\<lambda>m. m\<lparr>ms_queued_bytes := 0, ms_datagrams := clear_queue (ms_datagrams m)\<rparr>)
      (s\<lparr>rt_queued_bytes := rt_queued_bytes s + - ms_queued_bytes ?m\<rparr>))"
    by (rule ledger_replace [OF l i])
      (use ok l n in \<open>auto simp: session_ok_def claims_def held_def open_ledger_def bq.clr_weight bq.invar_clr\<close>)
  then show ?thesis by (simp add: clear_datagrams_def)
qed

lemma stop_intake_ledger:
  "open_ledger e p q s \<Longrightarrow> i < length (rt_managed s) \<Longrightarrow> open_ledger e p q (stop_intake i s)"
  by (simp add: stop_intake_def ledger_view_def clear_datagrams_ledger on_scheduler_ledger conserving_ops)

lemma finalize_ledger:
  "open_ledger e p q s \<Longrightarrow> i < length (rt_managed s) \<Longrightarrow> open_ledger e p q (finalize_session i s)"
  by (simp add: finalize_session_def Let_def ledger_view_def clear_datagrams_ledger on_scheduler_ledger
      conserving_ops stop_intake_ledger)

lemma stream_pump_neutral [simp]:
  "open_ledger e p q (set_point kind x i s) = open_ledger e p q s"
  "open_ledger e p q (end_stream_pump kind i s) = open_ledger e p q s"
  "length (rt_managed (set_point kind x i s)) = length (rt_managed s)"
  "length (rt_managed (end_stream_pump kind i s)) = length (rt_managed s)"
  by (simp_all add: set_point_def end_stream_pump_def ledger_view_def)

lemma stream_pump_head_ledger:
  "open_ledger e p q s \<Longrightarrow> i < length (rt_managed s) \<Longrightarrow> open_ledger e p q (stream_pump_head kind i s)"
  by (simp add: stream_pump_head_def Let_def on_scheduler_ledger conserving_ops)

lemma length_stream_pump_head [simp]: "length (rt_managed (stream_pump_head kind i s)) = length (rt_managed s)"
  by (simp add: stream_pump_head_def Let_def)

lemma stream_pump_ledger:
  "open_ledger e p q s \<Longrightarrow> i < length (rt_managed s) \<Longrightarrow> open_ledger e p q (stream_pump_resume kind i s)"
  "open_ledger e p q s \<Longrightarrow> i < length (rt_managed s) \<Longrightarrow> open_ledger e p q (stream_pump_continue kind i s)"
  by (simp_all add: stream_pump_resume_def stream_pump_continue_def Let_def stream_pump_head_ledger split: stream_point.split)

lemma start_pump_ledger:
  "open_ledger e p q s \<Longrightarrow> i < length (rt_managed s) \<Longrightarrow> open_ledger e p q (start_pump pu i s)"
  by (simp add: start_pump_def Let_def ledger_view_def stream_pump_head_ledger)

lemma length_start_pump [simp]: "length (rt_managed (start_pump pu i s)) = length (rt_managed s)"
  by (simp add: start_pump_def Let_def)

text \<open>Taking a reservation: it is charged to nobody yet.\<close>

lemma reserve_ledger:
  assumes l: "open_ledger e p q s" and r: "hb_reserve (rt_budget s) = (b, Some h)"
  shows "open_ledger e p (add_mset h q) (s\<lparr>rt_budget := b\<rparr>)"
proof -
  have "budget_inv b" using l r reserve_inv [of "rt_budget s"] by (simp add: open_ledger_def)
  with l unreleased_reserve(1) [OF r] show ?thesis by (simp add: open_ledger_def)
qed

lemma reserve_task_ledger:
  assumes l: "open_ledger (n + e) p {#} s" and r: "hb_reserve (rt_budget s) = (b, Some h)" and n: "0 \<le> n"
  shows "open_ledger e (add_mset h p) {#} (s\<lparr>rt_budget := b, rt_task_bytes := (rt_task_bytes s)(h := n)\<rparr>)"
proof -
  have u: "h \<notin># all_claims (rt_managed s) + p"
    using unreleased_reserve(2) [OF r] l by (simp add: open_ledger_def)
  have "budget_inv b" using l r reserve_inv [of "rt_budget s"] by (simp add: open_ledger_def)
  with l u n unreleased_reserve(1) [OF r] show ?thesis
    by (simp add: open_ledger_def retained_upd bytes_of_upd del: fun_upd_apply) simp
qed

lemma submit_cases:
  "submit_task t sch =
     (sch\<lparr>ts_active := ts_active sch + 1, ts_running := ts_running sch @ [t]\<rparr>, Started, [TaskStarted (task_id t)]) \<or>
   submit_task t sch = (sch\<lparr>ts_pending := ts_pending sch @ [t]\<rparr>, Queued, []) \<or>
   (\<exists>out. out \<noteq> Started \<and> out \<noteq> Queued \<and> submit_task t sch = (sch, out, []))"
  by (auto simp: submit_task_def start_task_def split: handler_overflow.split)

lemma submit_shape:
  assumes "submit_task t sch = (sch', out, os)" and "has_on_settled t"
  shows "settled_ids os = []"
    and "out \<noteq> Started \<and> out \<noteq> Queued \<longrightarrow> sch' = sch"
    and "out = Started \<or> out = Queued \<longrightarrow>
      mset (map task_id (ts_running sch')) + mset (map task_id (ts_pending sch')) =
      add_mset (task_id t) (mset (map task_id (ts_running sch)) + mset (map task_id (ts_pending sch)))"
    and "all_observed sch \<Longrightarrow> all_observed sch'"
  using submit_cases [of t sch] assms by (auto simp: all_observed_def)

lemma submit_ledger:
  assumes l: "open_ledger n {#} {#} s" and i: "i < length (rt_managed s)" and n: "0 \<le> n"
  shows "ledger (fst (submit i n s))"
proof -
  obtain b r where rb: "hb_reserve (rt_budget s) = (b, r)" by fastforce
  show ?thesis
  proof (cases r)
    case None
    then show ?thesis
      using l rb n by (simp add: submit_def open_ledger_def)
  next
    case (Some h)
    let ?s1 = "s\<lparr>rt_budget := b, rt_task_bytes := (rt_task_bytes s)(h := n)\<rparr>"
    let ?t = "\<lparr>task_id = h, has_on_settled = True\<rparr>"
    have l1: "open_ledger 0 {#h#} {#} ?s1"
      using reserve_task_ledger [of n 0 "{#}" s b h] l rb Some n by simp
    have m: "session_at i ?s1 = session_at i s" by (simp add: session_at_def)
    let ?sch = "ms_scheduler (session_at i s)"
    obtain sch out os where st: "submit_task ?t ?sch = (sch, out, os)" by (metis prod_cases3)
    note sr = submit_shape [OF st]
    have ok: "session_ok (session_at i ?s1)" using ledger_session_ok [OF l1] i by simp
    have sch: "sched_inv sch" "all_observed sch"
      using ok submit_task_inv [of ?sch ?t] sr(4) st by (simp_all add: session_ok_def m)
    have os: "settled_ids os = []" using sr(1) by simp
    have i1: "i < length (rt_managed ?s1)" using i by simp
    show ?thesis
    proof (cases "out = Started \<or> out = Queued")
      case True
      have h': "held (session_at i ?s1\<lparr>ms_scheduler := sch\<rparr>) = add_mset h (held (session_at i ?s1))"
        using sr(3) True by (auto simp: held_def m)
      have "ledger (update_session i (\<lambda>m. m\<lparr>ms_scheduler := sch\<rparr>) ?s1)"
        by (rule ledger_replace_same [OF l1 i1])
          (use ok sch h' l1 in \<open>auto simp: session_ok_def claims_def open_ledger_def\<close>)
      then show ?thesis
        using rb Some True st os m by (auto simp: submit_def Let_def settle_all_def)
    next
      case False
      have "open_ledger 0 {#h#} {#} (update_session i (\<lambda>m. m\<lparr>ms_scheduler := sch\<rparr>) ?s1)"
        by (rule ledger_replace_same [OF l1 i1])
          (use ok sch sr(2) False l1 in \<open>auto simp: session_ok_def claims_def held_def open_ledger_def m\<close>)
      then have "ledger (settle h (update_session i (\<lambda>m. m\<lparr>ms_scheduler := sch\<rparr>) ?s1
          \<lparr>rt_rejected_handlers := rt_rejected_handlers ?s1 + 1\<rparr>))"
        by (intro settle_ledger) simp
      then show ?thesis
        using rb Some False st os m by (simp add: submit_def Let_def settle_all_def update_session_def)
    qed
  qed
qed

lemma length_submit [simp]: "length (rt_managed (fst (submit i n s))) = length (rt_managed s)"
  by (simp add: submit_def Let_def prod.case_eq_if settle_def split: option.split)

section \<open>Datagrams and streams\<close>

lemma end_drain_ledger [simp]: "open_ledger e p q (end_drain i s) = open_ledger e p q s"
  by (simp add: end_drain_def ledger_view_def)

lemma length_end_drain [simp]: "length (rt_managed (end_drain i s)) = length (rt_managed s)"
  by (simp add: end_drain_def)

lemma drain_head_ledger:
  "open_ledger e p q s \<Longrightarrow> i < length (rt_managed s) \<Longrightarrow> open_ledger e p q (drain_head i s)"
  by (simp add: drain_head_def Let_def ledger_view_def on_scheduler_ledger conserving_ops)

lemma length_drain_head [simp]: "length (rt_managed (drain_head i s)) = length (rt_managed s)"
  by (simp add: drain_head_def Let_def)

lemma start_drain_ledger:
  "open_ledger e p q s \<Longrightarrow> i < length (rt_managed s) \<Longrightarrow> open_ledger e p q (start_drain i s)"
  by (simp add: start_drain_def ledger_view_def drain_head_ledger)

lemma length_start_drain [simp]: "length (rt_managed (start_drain i s)) = length (rt_managed s)"
  by (simp add: start_drain_def)

lemma take_datagram_ledger:
  assumes l: "ledger s" and i: "i < length (rt_managed s)"
    and d: "dequeue (ms_datagrams (session_at i s)) = (q, Some d)"
  shows "open_ledger (byte_length d) {#} {#} (update_session i
     (\<lambda>m. m\<lparr>ms_datagrams := q, ms_queued_bytes := ms_queued_bytes m - byte_length d\<rparr>) s)"
proof -
  have ok: "session_ok (session_at i s)" by (rule ledger_session_ok [OF l i])
  then have "bq.weight byte_length q + byte_length d = bq.weight byte_length (ms_datagrams (session_at i s))"
    "bq_inv q"
    using bq.deq_weight [of "ms_datagrams (session_at i s)" byte_length]
      bq.invar_deq [of "ms_datagrams (session_at i s)"] d
    by (auto simp: session_ok_def)
  with ok l show ?thesis
    by (intro ledger_replace_same [OF l i]) (auto simp: session_ok_def claims_def held_def open_ledger_def)
qed

lemma drain_resume_ledger:
  assumes l: "ledger s" and i: "i < length (rt_managed s)"
  shows "ledger (drain_resume i s)"
proof (cases "ms_drain (session_at i s) = AtCapacity \<and> has_capacity (ms_scheduler (session_at i s))")
  case False
  then show ?thesis using l i by (auto simp: drain_resume_def Let_def drain_head_ledger)
next
  case True
  obtain q r where d: "dequeue (ms_datagrams (session_at i s)) = (q, r)" by fastforce
  show ?thesis
  proof (cases r)
    case None
    with True d l show ?thesis by (simp add: drain_resume_def Let_def)
  next
    case (Some x)
    let ?s1 = "update_session i (\<lambda>m. m\<lparr>ms_datagrams := q, ms_queued_bytes := ms_queued_bytes m - byte_length x\<rparr>) s"
    have "ledger (fst (submit i (byte_length x) ?s1))"
      by (rule submit_ledger) (use take_datagram_ledger [OF l i] d Some i in simp_all)
    with True d Some show ?thesis
      by (simp add: drain_resume_def Let_def prod.case_eq_if ledger_view_def)
  qed
qed

lemma length_drain_resume [simp]: "length (rt_managed (drain_resume i s)) = length (rt_managed s)"
  by (simp add: drain_resume_def Let_def prod.case_eq_if split: option.split)

lemma store_change:
  assumes "enqueue d q = (q', r)" and "0 < bq_capacity q"
  shows "(if accepted r then byte_length d else 0) - (case r of DroppedOldest (Some x) \<Rightarrow> byte_length x | _ \<Rightarrow> 0)
     \<in> {0, byte_length d - replaced_bytes q}"
  using assms
  by (auto simp: enqueue_def replaced_bytes_def bq_is_full_def peek_def bq_is_empty_def Let_def
      split: if_splits overflow_policy.splits option.splits)

lemma store_datagram_ledger:
  assumes l: "ledger s" and i: "i < length (rt_managed s)"
    and room: "rt_queued_bytes s - replaced_bytes (ms_datagrams (session_at i s)) + byte_length d
      \<le> no_queued_bytes (rt_options s)"
  shows "ledger (fst (store_datagram i d s))"
proof -
  let ?q = "ms_datagrams (session_at i s)"
  obtain q r where e: "enqueue d ?q = (q, r)" by fastforce
  let ?x = "(if accepted r then byte_length d else 0) - (case r of DroppedOldest (Some x) \<Rightarrow> byte_length x | _ \<Rightarrow> 0)"
  have ok: "session_ok (session_at i s)" by (rule ledger_session_ok [OF l i])
  then have q: "bq_inv q" "bq.weight byte_length q = bq.weight byte_length ?q + ?x"
    using bq.enq_weight [of ?q byte_length d] bq.invar_enq [of ?q d] e
    by (simp_all add: session_ok_def bq.dropped_weight_def)
  have "rt_queued_bytes s + ?x \<le> no_queued_bytes (rt_options s)"
    using store_change [OF e] room l ok by (auto simp: open_ledger_def session_ok_def bq_inv_def)
  then have "ledger (update_session i (\<lambda>m. m\<lparr>ms_datagrams := q, ms_queued_bytes := ms_queued_bytes m + ?x\<rparr>)
      (s\<lparr>rt_queued_bytes := rt_queued_bytes s + ?x\<rparr>))"
    by (intro ledger_replace [OF l i]) (use ok q in \<open>simp_all add: session_ok_def claims_def held_def\<close>)
  then show ?thesis by (simp add: store_datagram_def e Let_def algebra_simps)
qed

lemma length_store [simp]: "length (rt_managed (fst (store_datagram i d s))) = length (rt_managed s)"
  by (simp add: store_datagram_def Let_def prod.case_eq_if)

lemma rate_view: "ledger_view (snd (consume_datagram_rate n now m)) = ledger_view m"
  by (simp add: consume_datagram_rate_def ledger_view_def Let_def)

text \<open>The iteration of the datagram pump, with its intermediate states named.\<close>

definition pump_state :: "int \<Rightarrow> nat \<Rightarrow> runtime \<Rightarrow> runtime" where
  "pump_state now i s =
     (let s1 = touch now i s in
      update_session i
        (\<lambda>_. snd (consume_datagram_rate (no_datagrams_per_second (rt_options s1)) now (session_at i s1))) s1)"

definition pump_room :: "nat \<Rightarrow> bytes \<Rightarrow> runtime \<Rightarrow> bool" where
  "pump_room i d s \<longleftrightarrow>
     rt_queued_bytes s - replaced_bytes (ms_datagrams (session_at i s)) + byte_length d
       \<le> no_queued_bytes (rt_options s)"

lemma pump_datagram_eq:
  "pump_datagram now i d s =
     (if DatagramPump \<notin> set (ms_pumps (session_at i s)) then s
      else if ms_intake_aborted (session_at i s) \<or> ms_session_aborted (session_at i s) then
        end_pump DatagramPump i s
      else if byte_length d > maximum_datagram_size i (touch now i s) then
        record_datagram_drop ''size-limit'' i (touch now i s)
      else if \<not> fst (consume_datagram_rate (no_datagrams_per_second (rt_options (touch now i s))) now
                   (session_at i (touch now i s))) then
        record_datagram_drop ''rate-limit'' i (pump_state now i s)
      else if \<not> pump_room i d (pump_state now i s) then
        record_datagram_drop ''server-byte-limit'' i (pump_state now i s)
      else
        (let st = store_datagram i d (pump_state now i s);
             s4 = (if snd st \<noteq> Enqueued then record_datagram_drop (outcome_reason (snd st)) i (fst st) else fst st)
         in case snd st of
              ClosingSession _ \<Rightarrow>
                close_session (ms_info (session_at i s4)) CODE_RESOURCE_LIMIT ''Datagram queue limit exceeded'' s4
            | _ \<Rightarrow> start_drain i s4))"
  unfolding pump_datagram_def pump_room_def pump_state_def Let_def prod.case_eq_if not_le ..

lemma pump_state_ledger:
  assumes "ledger s" and i: "i < length (rt_managed s)"
  shows "ledger (pump_state now i s)"
proof -
  let ?s1 = "touch now i s"
  have "map ledger_view ((rt_managed ?s1)[i := snd (consume_datagram_rate c now (rt_managed ?s1 ! i))]) =
      map ledger_view (rt_managed ?s1)" for c
    by (metis list_update_id map_update rate_view)
  then have "ledger_part (pump_state now i s) = ledger_part ?s1"
    using i by (simp add: pump_state_def Let_def ledger_part_def update_session_def session_at_def)
  from ledger_cong [OF this] assms(1) show ?thesis by simp
qed

lemma length_pump_state [simp]: "length (rt_managed (pump_state now i s)) = length (rt_managed s)"
  by (simp add: pump_state_def Let_def)

lemma pump_datagram_ledger:
  assumes l: "ledger s" and i: "i < length (rt_managed s)"
  shows "ledger (pump_datagram now i d s)"
proof -
  have l2: "ledger (pump_state now i s)" and i2: "i < length (rt_managed (pump_state now i s))"
    using pump_state_ledger [OF l i] i by simp_all
  have st: "ledger (fst (store_datagram i d (pump_state now i s)))" if "pump_room i d (pump_state now i s)"
    using store_datagram_ledger [OF l2 i2] that by (simp add: pump_room_def)
  show ?thesis
    unfolding pump_datagram_eq Let_def
    using l l2 i st by (simp add: start_drain_ledger split: enqueue_result.split)
qed

lemma add_streams_view [simp]: "ledger_view (add_streams kind n m) = ledger_view m"
  by (cases kind) (simp_all add: add_streams_def ledger_view_def)

lemma waiters_view [simp]: "ledger_view (m\<lparr>ms_stream_waiters := w\<rparr>) = ledger_view m"
  by (simp add: ledger_view_def)

lemma release_stream_ledger [simp]: "open_ledger e p q (release_stream now k s) = open_ledger e p q s"
  by (simp add: release_stream_def Let_def)

lemma length_release_stream [simp]: "length (rt_managed (release_stream now k s)) = length (rt_managed s)"
  by (simp add: release_stream_def Let_def)

lemma track_stream_ledger [simp]: "open_ledger e p q (track_stream now i kind a s) = open_ledger e p q s"
  by (simp add: track_stream_def Let_def)

lemma length_track_stream [simp]: "length (rt_managed (track_stream now i kind a s)) = length (rt_managed s)"
  by (simp add: track_stream_def Let_def)

lemma pump_stream_ledger:
  assumes l: "ledger s" and i: "i < length (rt_managed s)"
  shows "ledger (pump_stream now i kind a s)"
proof -
  have "ledger (fst (submit i 0 (track_stream now i kind a (touch now i s))))"
    by (rule submit_ledger) (use l i in simp_all)
  then show ?thesis
    using l by (simp add: pump_stream_def Let_def prod.case_eq_if stream_outcome_def)
qed

lemma session_aborts_ledger:
  assumes l: "ledger s" and i: "i < length (rt_managed s)"
  shows "ledger (session_aborts now i s)"
proof -
  have f: "ledger (fold (release_stream now) ks s) = ledger s" for ks s
    by (induction ks arbitrary: s) simp_all
  show ?thesis unfolding session_aborts_def Let_def f
    by (rule finalize_ledger) (use l i in \<open>simp_all add: ledger_view_def\<close>)
qed

lemma task_ends_ledger: "ledger s \<Longrightarrow> i < length (rt_managed s) \<Longrightarrow> ledger (task_ends i k s)"
  by (simp add: task_ends_def on_scheduler_ledger conserving_ops)

lemma handle_error_ledger: "ledger s \<Longrightarrow> ledger (fst (handle_runtime_error e i stream s))"
  by (auto simp: handle_runtime_error_def Let_def split: option.split error_scope.split)

section \<open>Admission\<close>

lemma release_reservation_ledger:
  assumes l: "open_ledger e p (add_mset h q) s"
  shows "open_ledger e p q (s\<lparr>rt_budget := hb_release h (rt_budget s)\<rparr>)"
proof -
  have "h \<in># unreleased (rt_budget s)" using l by (simp add: open_ledger_def)
  from unreleased_release [OF this] l budget_release_inv [of "rt_budget s" h] show ?thesis
    by (simp add: open_ledger_def)
qed

lemma admission_settles_ledger:
  assumes l: "ledger s" and i: "i < length (rt_managed s)"
  shows "ledger (admission_settles i s)"
proof (cases "ms_admission (session_at i s)")
  case None
  with l show ?thesis by (simp add: admission_settles_def)
next
  case (Some h)
  have "open_ledger 0 {#} {#h#} (update_session i (\<lambda>m. m\<lparr>ms_admission := None\<rparr>) s)"
    by (rule ledger_replace_same [OF l i])
      (use ledger_session_ok [OF l i] l Some in \<open>auto simp: session_ok_def claims_def held_def open_ledger_def\<close>)
  note r = release_reservation_ledger [OF this]
  have "s\<lparr>rt_managed := a, rt_budget := b\<rparr> = s\<lparr>rt_budget := b, rt_managed := a\<rparr>" for a b by simp
  with r Some show ?thesis
    by (simp add: admission_settles_def update_session_def session_at_def)
qed

lemma admission_succeeds_ledger:
  "ledger s \<Longrightarrow> i < length (rt_managed s) \<Longrightarrow> ledger (admission_succeeds i s)"
  by (simp add: admission_succeeds_def Let_def ledger_view_def finalize_ledger start_pump_ledger)

lemma new_managed_ok:
  assumes "valid_options n"
  shows "session_ok (new_managed n info ip readers now)" "claims (new_managed n info ip readers now) = {#}"
    "held (new_managed n info ip readers now) = {#}" "ms_queued_bytes (new_managed n info ip readers now) = 0"
proof -
  have "1 \<le> no_queue_size n" "no_queue_size n \<le> 4294967295" "1 \<le> no_max_concurrent n" "0 \<le> no_max_pending n"
    using assms by (simp_all add: valid_options_def)
  moreover from new_bounded_queue_inv [OF new_managed_queue [OF this(1,2)]]
  have "bq_inv (ms_datagrams (new_managed n info ip readers now))"
    "contents (ms_datagrams (new_managed n info ip readers now)) = []" by auto
  ultimately show "session_ok (new_managed n info ip readers now)"
    by (auto simp: session_ok_def bq.weight_def all_observed_def new_managed_def new_scheduler_inv)
      (auto simp: new_scheduler_def)
  show "claims (new_managed n info ip readers now) = {#}" "held (new_managed n info ip readers now) = {#}"
    "ms_queued_bytes (new_managed n info ip readers now) = 0"
    by (simp_all add: claims_def held_def new_managed_def new_scheduler_def)
qed

lemma register_ledger:
  assumes "open_ledger e p q s" and "session_ok m" "claims m = {#}" "held m = {#}" "ms_queued_bytes m = 0"
  shows "open_ledger e p q (register_session info m s)"
  using assms by (simp add: open_ledger_def register_session_def Let_def all_claims_def retained_def)

lemma run_event_ledger:
  assumes "run_event ev" and "open_ledger e p q s"
  shows "open_ledger e p q (s\<lparr>rt_budget := fst (budget_step ev (rt_budget s))\<rparr>)"
  using assms budget_step_inv [of "rt_budget s" ev] unreleased_run_event [OF assms(1)]
  by (simp add: open_ledger_def del: budget_step.simps)

lemma touch_admission [simp]: "ms_admission (session_at i (touch now i s)) = ms_admission (session_at i s)"
  by (cases "i < length (rt_managed s)")
    (auto simp: touch_def Let_def update_session_def session_at_def list_update_beyond)

lemma begin_admission_ledger:
  assumes l: "open_ledger 0 {#} {#h#} s" and i: "i < length (rt_managed s)"
    and n: "ms_admission (session_at i s) = None"
  shows "ledger (begin_admission now i h s)"
proof -
  let ?s5 = "(touch now i s)\<lparr>rt_budget := fst (run_acquire False (rt_budget (touch now i s)))\<rparr>"
  have l5: "open_ledger 0 {#} {#h#} ?s5"
    using run_event_ledger [of "RunBegin False" 0 "{#}" "{#h#}" "touch now i s"] l by simp
  have i5: "i < length (rt_managed ?s5)" using i by simp
  have a: "ms_admission (session_at i ?s5) = None" using n touch_admission [of i now s] by (simp add: session_at_def)
  have "ledger (update_session i (\<lambda>m. m\<lparr>ms_admission := Some h, ms_accepting := True\<rparr>) ?s5)"
    by (rule ledger_replace_same [OF l5 i5])
      (use ledger_session_ok [OF l5 i5] l5 a in \<open>auto simp: session_ok_def claims_def held_def open_ledger_def\<close>)
  then show ?thesis by (simp add: begin_admission_def Let_def)
qed

lemma budget_register [simp]: "rt_budget (register_session info m s) = rt_budget s"
  by (simp add: register_session_def Let_def)

lemma session_at_register [simp]:
  "session_at (length (rt_managed s)) (register_session info m s) = m"
  "length (rt_managed (register_session info m s)) = Suc (length (rt_managed s))"
  by (simp_all add: session_at_def register_session_def Let_def)

text \<open>
  \<open>acceptSession\<close>, outcome by outcome: refused before anything is charged, refused for its address or
  for lack of a reservation or a reader, ended before it began, or waiting for its admission.
\<close>

definition accepted_managed :: "runtime \<Rightarrow> session_info \<Rightarrow> string \<Rightarrow> bool \<times> bool \<times> bool \<Rightarrow> int \<Rightarrow> bool \<Rightarrow> managed" where
  "accepted_managed s info ip readers now aborted =
     (new_managed (rt_options s) info ip readers now)\<lparr>ms_session_aborted := aborted\<rparr>"

lemma validate_error:
  "validate_session pu info s = Some e \<Longrightarrow> \<exists>m code rec scope cause. e = WtError SessionRejectedError m code rec scope cause"
  by (auto simp: validate_session_def session_rejected_def new_error_eq Let_def split: if_splits option.splits sum.splits)

lemma accept_session_cases:
  obtains
    (refused) reason code message a where
      "accept_session pu url dr locked now info aborted s =
         close_session info code message (record_rejection reason s) \<or>
       accept_session pu url dr locked now info aborted s =
         close_session info code message (emit a (record_rejection reason s)) \<or>
       accept_session pu url dr locked now info aborted s = s"
  | (address) m1 ip where
      "acquire_ip_slot (ip_limits_of (rt_options s)) now ip (rt_ip s) = (m1, False)"
      "accept_session pu url dr locked now info aborted s =
         close_session info CODE_RESOURCE_LIMIT ''Per-IP session limit exceeded''
           (record_rejection ''ip-limit'' (s\<lparr>rt_ip := m1\<rparr>))"
  | (budget) m1 ip where
      "acquire_ip_slot (ip_limits_of (rt_options s)) now ip (rt_ip s) = (m1, True)"
      "accept_session pu url dr locked now info aborted s =
         close_session info CODE_RESOURCE_LIMIT ''Server work limit exceeded''
           (record_rejection ''handler-limit'' (s\<lparr>rt_ip := release_ip_slot now ip m1,
              rt_rejected_handlers := rt_rejected_handlers s + 1\<rparr>))"
  | (reader) m1 ip b h where
      "acquire_ip_slot (ip_limits_of (rt_options s)) now ip (rt_ip s) = (m1, True)"
      "hb_reserve (rt_budget s) = (b, Some h)"
      "accept_session pu url dr locked now info aborted s =
         close_session info CODE_INTERNAL_ERROR ''Incoming reader setup failed''
           (emit (LogCall ''session.reader-reservation.failed'' None)
             (record_rejection ''reader-setup'' (s\<lparr>rt_budget := hb_release h b,
                rt_ip := release_ip_slot now ip m1\<rparr>)))"
  | (admitted) m1 ip b h readers where
      "acquire_ip_slot (ip_limits_of (rt_options s)) now ip (rt_ip s) = (m1, True)"
      "hb_reserve (rt_budget s) = (b, Some h)"
      "rt_state s = RUNNING" "has_path url (si_path info) (rt_registry s)"
      "validate_session pu info s = None"
      "accept_session pu url dr locked now info aborted s =
         (let s3 = register_session info (accepted_managed s info ip readers now aborted)
                     (s\<lparr>rt_ip := m1, rt_budget := b\<rparr>)
          in if aborted then finalize_session (length (rt_managed s)) (s3\<lparr>rt_budget := hb_release h b\<rparr>)
             else begin_admission now (length (rt_managed s)) h s3)"
proof -
  define ip where "ip = (case si_remote info of Some a \<Rightarrow> a | None \<Rightarrow> ''<unknown>'')"
  obtain m1 ok where ac: "acquire_ip_slot (ip_limits_of (rt_options s)) now ip (rt_ip s) = (m1, ok)" by fastforce
  obtain b r where rb: "hb_reserve (rt_budget s) = (b, r)" by fastforce
  have acc: "accepting_sessions (snapshot st) \<longleftrightarrow> st = RUNNING" for st
    by (simp add: snapshot_def Let_def)
  consider (early) "rt_state s \<noteq> RUNNING \<or> \<not> dr \<or> \<not> has_path url (si_path info) (rt_registry s) \<or>
      validate_session pu info s \<noteq> None"
    | (late) "rt_state s = RUNNING" "dr" "has_path url (si_path info) (rt_registry s)"
      "validate_session pu info s = None" by blast
  then show thesis
  proof cases
    case early
    consider (unavailable) "rt_state s \<noteq> RUNNING \<or> \<not> dr"
      | (no_route) "rt_state s = RUNNING" "dr" "\<not> has_path url (si_path info) (rt_registry s)"
      | (invalid) e where "rt_state s = RUNNING" "dr" "has_path url (si_path info) (rt_registry s)"
          "validate_session pu info s = Some e"
      using early by blast
    then show ?thesis
    proof cases
      case unavailable
      then have "accept_session pu url dr locked now info aborted s =
          close_session info CODE_REJECTED ''Server is not accepting sessions''
            (record_rejection ''server-unavailable'' s)"
        by (auto simp: accept_session_def acc)
      then show ?thesis by (rule refused [OF disjI1])
    next
      case no_route
      then have "accept_session pu url dr locked now info aborted s =
          close_session info CODE_NO_ROUTE ''No WebTransport gateway for path'' (record_rejection ''no-route'' s)"
        by (simp add: accept_session_def acc)
      then show ?thesis by (rule refused [OF disjI1])
    next
      case invalid
      then obtain c m' code rec scope cause where "e = WtError c m' code rec scope cause"
        using validate_error by blast
      with invalid have "accept_session pu url dr locked now info aborted s =
          close_session info CODE_REJECTED m'
            (emit (LogCall ''session.rejected'' (Some code)) (record_rejection code s))"
        by (simp add: accept_session_def acc)
      then show ?thesis by (rule refused [OF disjI2 [OF disjI1]])
    qed
  next
    case late
    note d = accept_session_def [of pu url dr locked now info aborted s]
    show ?thesis
    proof (cases "ok")
      case False
      then show ?thesis
        using address [of ip m1] ac d late acc by (simp add: Let_def ip_def [symmetric])
    next
      case True
      show ?thesis
      proof (cases r)
        case None
        then show ?thesis
          using budget [of ip m1] ac rb True d late acc by (simp add: Let_def ip_def [symmetric])
      next
        case (Some h)
        show ?thesis
        proof (cases "reserve_readers url locked info (s\<lparr>rt_ip := m1, rt_budget := b\<rparr>)")
          case None
          then show ?thesis
            using reader [of ip m1 b h] ac rb True Some d late acc by (simp add: Let_def ip_def [symmetric])
        next
          case (Some readers)
          then show ?thesis
            using admitted [of ip m1 b h readers] ac rb True \<open>r = Some h\<close> d late acc
            by (simp add: Let_def ip_def [symmetric] accepted_managed_def)
        qed
      qed
    qed
  qed
qed

lemma accept_session_ledger:
  assumes l: "ledger s" and v: "valid_options (rt_options s)"
  shows "ledger (accept_session pu url dr locked now info aborted s)"
proof (cases rule: accept_session_cases [of pu url dr locked now info aborted s])
  case (refused reason code message a)
  with l show ?thesis by auto
next
  case (address m1 ip)
  with l show ?thesis by simp
next
  case (budget m1 ip)
  with l show ?thesis by simp
next
  case (reader m1 ip b h)
  have "ledger ((s\<lparr>rt_budget := b\<rparr>)\<lparr>rt_budget := hb_release h (rt_budget (s\<lparr>rt_budget := b\<rparr>))\<rparr>)"
    by (rule release_reservation_ledger [OF reserve_ledger [OF l reader(2)]])
  with reader(3) show ?thesis by simp
next
  case (admitted m1 ip b h readers)
  let ?m = "accepted_managed s info ip readers now aborted"
  let ?s2 = "s\<lparr>rt_ip := m1, rt_budget := b\<rparr>"
  let ?s3 = "register_session info ?m ?s2"
  note m = new_managed_ok [OF v, of info ip readers now]
  have "open_ledger 0 {#} {#h#} (s\<lparr>rt_budget := b, rt_ip := m1\<rparr>)"
    using reserve_ledger [OF l admitted(2)] by simp
  moreover have "s\<lparr>rt_budget := b, rt_ip := m1\<rparr> = ?s2" by simp
  ultimately have l2: "open_ledger 0 {#} {#h#} ?s2" by simp
  have l3: "open_ledger 0 {#} {#h#} ?s3"
    by (rule register_ledger [OF l2])
      (use m in \<open>simp_all add: accepted_managed_def session_ok_def claims_def held_def\<close>)
  have a: "rt_budget ?s3 = b" "ms_admission ?m = None" "length (rt_managed s) = length (rt_managed ?s2)"
    by (simp_all add: register_session_def Let_def accepted_managed_def new_managed_def)
  show ?thesis
  proof (cases aborted)
    case True
    have "ledger (?s3\<lparr>rt_budget := hb_release h (rt_budget ?s3)\<rparr>)"
      by (rule release_reservation_ledger [OF l3])
    then have "ledger (finalize_session (length (rt_managed s)) (?s3\<lparr>rt_budget := hb_release h b\<rparr>))"
      by (intro finalize_ledger) (simp_all add: a(1))
    with True admitted(6) show ?thesis by (simp add: Let_def)
  next
    case False
    have "session_at (length (rt_managed s)) ?s3 = ?m"
      using session_at_register(1) [of ?s2 info ?m] by simp
    then have "ledger (begin_admission now (length (rt_managed s)) h ?s3)"
      by (intro begin_admission_ledger [OF l3]) (simp_all add: a(2))
    with False admitted(6) show ?thesis by (simp add: Let_def)
  qed
qed

section \<open>Starting and stopping\<close>

lemma fold_ledger:
  assumes f: "\<And>x s. ledger s \<Longrightarrow> g x < length (rt_managed s) \<Longrightarrow>
      ledger (f x s) \<and> length (rt_managed (f x s)) = length (rt_managed s)"
    and l: "ledger s" and g: "\<forall>x \<in> set xs. g x < length (rt_managed s)"
  shows "ledger (fold f xs s)" and "length (rt_managed (fold f xs s)) = length (rt_managed s)"
proof -
  have "ledger (fold f xs s) \<and> length (rt_managed (fold f xs s)) = length (rt_managed s)"
    using l g
  proof (induction xs arbitrary: s)
    case (Cons x xs)
    then show ?case using f [of s x] by simp
  qed simp
  then show "ledger (fold f xs s)" and "length (rt_managed (fold f xs s)) = length (rt_managed s)" by auto
qed

text \<open>Positions that the runtime keeps are positions of managed sessions.\<close>

definition handles_ok :: "runtime \<Rightarrow> bool" where
  "handles_ok s \<longleftrightarrow>
     (\<forall>i \<in> set (rt_outstanding s). i < length (rt_managed s)) \<and>
     (\<forall>i \<in> snd ` set (rt_sessions s). i < length (rt_managed s))"

lemma drain_session_ledger:
  "ledger s \<Longrightarrow> i < length (rt_managed s) \<Longrightarrow>
   ledger (drain_session i s) \<and> length (rt_managed (drain_session i s)) = length (rt_managed s)"
  by (simp add: drain_session_def stop_intake_ledger)

lemma force_session_ledger:
  "ledger s \<Longrightarrow> i < length (rt_managed s) \<Longrightarrow>
   ledger (force_session i s) \<and> length (rt_managed (force_session i s)) = length (rt_managed s)"
  by (simp add: force_session_def on_scheduler_ledger conserving_ops ledger_view_def)

lemma stop_force_ledger:
  assumes "ledger s" and "\<forall>i \<in> set (rt_outstanding s). i < length (rt_managed s)"
  shows "ledger (stop_force s)"
  using fold_ledger(1) [where f = force_session and g = "\<lambda>i. i", OF force_session_ledger] assms
  by (simp add: stop_force_def Let_def)

end
