(* ===== verification/Runtime_Roster.thy ===== *)
theory Runtime_Roster
  imports Runtime_Ledger
begin

text \<open>
  The roster of the runtime: which sessions are registered, which are outstanding (charged to the
  server and to their address until their work has settled), and what the address records say. The
  roster depends on few fields, so most operations keep it because they do not touch them.
\<close>

section \<open>The fields the roster depends on\<close>

definition roster_view :: "managed \<Rightarrow> session_info \<times> string \<times> bool \<times> bool" where
  "roster_view m = (ms_info m, ms_ip m, ms_finalized m, ms_retiring m)"

definition roster_part where
  "roster_part s =
     (map roster_view (rt_managed s), rt_options s, rt_registry s, rt_state s, rt_sessions s,
      rt_outstanding s, rt_ip s, rt_subscribed s, rt_starting s, rt_stopping s)"

lemma roster_update_session:
  "(\<And>m. roster_view (f m) = roster_view m) \<Longrightarrow> roster_part (update_session i f s) = roster_part s"
proof -
  assume f: "\<And>m. roster_view (f m) = roster_view m"
  have "map roster_view ((rt_managed s)[i := f (rt_managed s ! i)]) = map roster_view (rt_managed s)"
    by (metis f list_update_id map_update)
  then show ?thesis by (simp add: roster_part_def update_session_def session_at_def)
qed

lemma roster_fields [simp]:
  "roster_part (s\<lparr>rt_rejected_handlers := a\<rparr>) = roster_part s"
  "roster_part (s\<lparr>rt_accepted := a\<rparr>) = roster_part s"
  "roster_part (s\<lparr>rt_active_streams := a\<rparr>) = roster_part s"
  "roster_part (s\<lparr>rt_streams := b\<rparr>) = roster_part s"
  "roster_part (s\<lparr>rt_budget := c\<rparr>) = roster_part s"
  "roster_part (s\<lparr>rt_task_bytes := d\<rparr>) = roster_part s"
  "roster_part (s\<lparr>rt_queued_bytes := a\<rparr>) = roster_part s"
  "roster_part (emit x s) = roster_part s"
  "roster_part (close_session info code reason s) = roster_part s"
  "roster_part (record_rejection reason s) = roster_part s"
  "roster_part (record_datagram_drop reason i s) = roster_part s"
  by (simp_all add: roster_part_def emit_def close_session_def record_rejection_def record_datagram_drop_def)

named_theorems roster_neutral \<open>operations that do not touch the roster\<close>

lemma roster_touch [roster_neutral]: "roster_part (touch now i s) = roster_part s"
  by (simp add: touch_def Let_def roster_update_session roster_view_def)

lemma roster_end_pump [roster_neutral]: "roster_part (end_pump p i s) = roster_part s"
  by (simp add: end_pump_def roster_update_session roster_view_def)

lemma roster_check_idle [roster_neutral]: "roster_part (check_idle now i s) = roster_part s"
  by (simp add: check_idle_def Let_def roster_update_session roster_view_def roster_neutral)

lemma roster_settle_all [roster_neutral]: "roster_part (settle_all hs s) = roster_part s"
  by (induction hs arbitrary: s) (simp_all add: settle_all_def settle_def)

lemma roster_on_scheduler [roster_neutral]: "roster_part (on_scheduler i f s) = roster_part s"
  by (simp add: on_scheduler_def Let_def prod.case_eq_if roster_neutral roster_update_session roster_view_def)

lemma roster_clear_datagrams [roster_neutral]: "roster_part (clear_datagrams i s) = roster_part s"
  by (simp add: clear_datagrams_def roster_update_session roster_view_def)

lemma roster_stop_intake [roster_neutral]: "roster_part (stop_intake i s) = roster_part s"
  by (simp add: stop_intake_def roster_neutral roster_update_session roster_view_def)

lemma roster_set_point [roster_neutral]: "roster_part (set_point kind x i s) = roster_part s"
  by (simp add: set_point_def roster_update_session roster_view_def)

lemma roster_stream_pump [roster_neutral]:
  "roster_part (end_stream_pump kind i s) = roster_part s"
  "roster_part (stream_pump_head kind i s) = roster_part s"
  "roster_part (stream_pump_resume kind i s) = roster_part s"
  "roster_part (stream_pump_continue kind i s) = roster_part s"
  by (simp_all add: end_stream_pump_def stream_pump_head_def stream_pump_resume_def stream_pump_continue_def
      Let_def roster_neutral split: stream_point.split)

lemma roster_start_pump [roster_neutral]: "roster_part (start_pump p i s) = roster_part s"
  by (simp add: start_pump_def Let_def roster_neutral roster_update_session roster_view_def)

lemma roster_submit [roster_neutral]: "roster_part (fst (submit i n s)) = roster_part s"
proof -
  have "roster_part (settle h s) = roster_part s" for h s by (simp add: settle_def)
  then show ?thesis
    by (simp add: submit_def Let_def prod.case_eq_if roster_neutral roster_update_session roster_view_def
        split: option.split)
qed

lemma roster_end_drain [roster_neutral]: "roster_part (end_drain i s) = roster_part s"
  by (simp add: end_drain_def roster_neutral roster_update_session roster_view_def)

lemma roster_drain_head [roster_neutral]: "roster_part (drain_head i s) = roster_part s"
  by (simp add: drain_head_def Let_def roster_neutral roster_update_session roster_view_def)

lemma roster_start_drain [roster_neutral]: "roster_part (start_drain i s) = roster_part s"
  by (simp add: start_drain_def roster_neutral roster_update_session roster_view_def)

lemma roster_drain_resume [roster_neutral]: "roster_part (drain_resume i s) = roster_part s"
  by (simp add: drain_resume_def Let_def prod.case_eq_if roster_neutral roster_update_session roster_view_def
      split: option.split)

lemma roster_drain_continue [roster_neutral]: "roster_part (drain_continue i s) = roster_part s"
  by (simp add: drain_continue_def roster_neutral)

lemma roster_pump_datagram [roster_neutral]: "roster_part (pump_datagram now i d s) = roster_part s"
proof -
  have c: "roster_view (snd (consume_datagram_rate n now m)) = roster_view m" for n m
    by (simp add: consume_datagram_rate_def Let_def roster_view_def)
  have "map roster_view ((rt_managed s)[i := snd (consume_datagram_rate n now (rt_managed s ! i))]) =
      map roster_view (rt_managed s)" for n and s :: runtime
    by (metis c list_update_id map_update)
  then have p: "roster_part (pump_state now i s) = roster_part s" for s
    using roster_touch [of now i s]
    by (simp add: pump_state_def Let_def roster_part_def update_session_def session_at_def)
  have st: "roster_part (fst (store_datagram i d s)) = roster_part s" for s
    by (simp add: store_datagram_def Let_def prod.case_eq_if roster_update_session roster_view_def)
  show ?thesis
    by (simp add: pump_datagram_eq Let_def roster_neutral p st split: enqueue_result.split)
qed

lemma roster_release_stream [roster_neutral]: "roster_part (release_stream now k s) = roster_part s"
proof -
  have "roster_view (add_streams kind n m) = roster_view m" for kind n m
    by (cases kind) (simp_all add: add_streams_def roster_view_def)
  then have a: "roster_part (update_session i (add_streams kind n) s) = roster_part s" for i kind n s
    by (rule roster_update_session)
  show ?thesis
    by (simp add: release_stream_def Let_def roster_neutral a)
      (simp add: roster_update_session roster_view_def a)
qed

lemma roster_track_stream [roster_neutral]: "roster_part (track_stream now i kind a s) = roster_part s"
proof -
  have "roster_view (add_streams kind n m) = roster_view m" for kind n m
    by (cases kind) (simp_all add: add_streams_def roster_view_def)
  then have "roster_part (update_session i (add_streams kind n) s) = roster_part s" for i kind n s
    by (rule roster_update_session)
  then show ?thesis by (simp add: track_stream_def Let_def roster_neutral)
qed

lemma roster_pump_stream [roster_neutral]: "roster_part (pump_stream now i kind a s) = roster_part s"
  by (simp add: pump_stream_def Let_def prod.case_eq_if stream_outcome_def roster_neutral)

lemma roster_stream_pumps [roster_neutral]:
  "roster_part (pump_bidirectional_streams now i a s) = roster_part s"
  "roster_part (pump_unidirectional_streams now i a s) = roster_part s"
  by (simp_all add: pump_bidirectional_streams_def pump_unidirectional_streams_def roster_neutral)

lemma roster_task_ends [roster_neutral]: "roster_part (task_ends i k s) = roster_part s"
  by (simp add: task_ends_def roster_neutral)

lemma roster_handle_error [roster_neutral]: "roster_part (fst (handle_runtime_error e i stream s)) = roster_part s"
  by (simp add: handle_runtime_error_def Let_def split: option.split error_scope.split)

lemma roster_admission [roster_neutral]:
  "roster_part (admission_settles i s) = roster_part s"
  "roster_part (handshake_timeout i s) = roster_part s"
  "roster_part (admission_fails timed_out i s) = roster_part s"
  "roster_part (begin_admission now i h s) = roster_part s"
  by (simp_all add: admission_settles_def handshake_timeout_def admission_fails_def begin_admission_def Let_def
      roster_neutral roster_update_session roster_view_def split: option.split)

lemma roster_drain_force [roster_neutral]:
  "roster_part (drain_session i s) = roster_part s" "roster_part (force_session i s) = roster_part s"
  by (simp_all add: drain_session_def force_session_def roster_neutral roster_update_session roster_view_def)

lemma roster_fold [roster_neutral]:
  "roster_part (fold (release_stream now) ks s) = roster_part s"
  "roster_part (fold drain_session is s) = roster_part s"
  "roster_part (fold force_session is s) = roster_part s"
proof -
  show "roster_part (fold (release_stream now) ks s) = roster_part s"
    by (induction ks arbitrary: s) (simp_all add: roster_neutral)
  show "roster_part (fold drain_session is s) = roster_part s"
    by (induction "is" arbitrary: s) (simp_all add: roster_neutral)
  show "roster_part (fold force_session is s) = roster_part s"
    by (induction "is" arbitrary: s) (simp_all add: roster_neutral)
qed

section \<open>The roster\<close>

type_synonym roster_entry = "session_info \<times> string \<times> bool \<times> bool"

abbreviation entry_id :: "roster_entry \<Rightarrow> string" where "entry_id v \<equiv> si_id (fst v)"
abbreviation entry_ip :: "roster_entry \<Rightarrow> string" where "entry_ip v \<equiv> fst (snd v)"
abbreviation entry_finalized :: "roster_entry \<Rightarrow> bool" where "entry_finalized v \<equiv> fst (snd (snd v))"
abbreviation entry_retiring :: "roster_entry \<Rightarrow> bool" where "entry_retiring v \<equiv> snd (snd (snd v))"

definition charged :: "roster_entry list \<Rightarrow> nat list \<Rightarrow> string \<Rightarrow> int" where
  "charged vs os a = int (length (filter (\<lambda>i. entry_ip (vs ! i) = a) os))"

definition roster_ok ::
  "normalized_options \<Rightarrow> (string \<times> nat) list \<Rightarrow> nat list \<Rightarrow> ip_table \<Rightarrow> roster_entry list \<Rightarrow> bool" where
  "roster_ok n ss os t vs \<longleftrightarrow>
     distinct os \<and> (\<forall>i \<in> set os. i < length vs) \<and> int (length os) \<le> no_max_sessions n \<and>
     distinct (keys ss) \<and>
     (\<forall>id i. map_of ss id = Some i \<longrightarrow> i \<in> set os \<and> entry_id (vs ! i) = id \<and> \<not> entry_finalized (vs ! i)) \<and>
     (\<forall>i < length vs. \<not> entry_finalized (vs ! i) \<longrightarrow> map_of ss (entry_id (vs ! i)) = Some i) \<and>
     (\<forall>i < length vs. entry_retiring (vs ! i) = entry_finalized (vs ! i)) \<and>
     ip_inv (ip_limits_of n) t \<and> (\<forall>a. active_of t a = charged vs os a)"

abbreviation entries :: "runtime \<Rightarrow> roster_entry list" where
  "entries s \<equiv> map roster_view (rt_managed s)"

definition roster :: "runtime \<Rightarrow> bool" where
  "roster s \<longleftrightarrow> roster_ok (rt_options s) (rt_sessions s) (rt_outstanding s) (rt_ip s) (entries s)"

lemma roster_cong: "roster_part s = roster_part s' \<Longrightarrow> roster s = roster s'"
  by (simp add: roster_part_def roster_def)

lemma roster_register:
  assumes r: "roster_ok n ss os t vs" and room: "int (length os) < no_max_sessions n"
    and new: "map_of ss (entry_id v) = None" and v: "\<not> entry_finalized v" "\<not> entry_retiring v"
    and t: "ip_inv (ip_limits_of n) t'"
      "\<forall>a. active_of t' a = active_of t a + (if a = entry_ip v then 1 else 0)"
  shows "roster_ok n (AList.update (entry_id v) (length vs) ss) (js_add (length vs) os) t' (vs @ [v])"
proof -
  have fresh: "length vs \<notin> set os" using r by (auto simp: roster_ok_def)
  have o: "js_add (length vs) os = os @ [length vs]" using fresh by (simp add: js_add_def)
  have nth: "i < length vs \<Longrightarrow> (vs @ [v]) ! i = vs ! i" for i by (simp add: nth_append)
  have "charged (vs @ [v]) (os @ [length vs]) a = charged vs os a + (if a = entry_ip v then 1 else 0)" for a
  proof -
    have "filter (\<lambda>i. entry_ip ((vs @ [v]) ! i) = a) os = filter (\<lambda>i. entry_ip (vs ! i) = a) os"
      by (rule filter_cong [OF refl]) (use r nth in \<open>auto simp: roster_ok_def\<close>)
    then show ?thesis by (simp add: charged_def)
  qed
  then show ?thesis
    unfolding roster_ok_def o
    using r room new v t fresh
    by (auto simp: roster_ok_def distinct_keys_update map_of_update nth_append less_Suc_eq)
qed

lemma roster_finalize:
  assumes r: "roster_ok n ss os t vs" and i: "i < length vs" and u: "\<not> entry_finalized (vs ! i)"
    and v: "fst v = fst (vs ! i)" "entry_ip v = entry_ip (vs ! i)" "entry_finalized v" "entry_retiring v"
  shows "roster_ok n (AList.delete (entry_id v) ss) os t (vs[i := v])"
proof -
  have m: "map_of ss (entry_id v) = Some i" using r i u v by (simp add: roster_ok_def)
  have ch: "charged (vs[i := v]) os a = charged vs os a" for a
    unfolding charged_def
    by (rule arg_cong [where f = "\<lambda>xs. int (length xs)"], rule filter_cong [OF refl])
      (use r v i in \<open>auto simp: roster_ok_def nth_list_update\<close>)
  have A: "j \<in> set os \<and> entry_id (vs[i := v] ! j) = id \<and> \<not> entry_finalized (vs[i := v] ! j)"
    if j: "map_of (AList.delete (entry_id v) ss) id = Some j" for id j
  proof -
    from j have ne: "id \<noteq> entry_id v" and s: "map_of ss id = Some j"
      by (auto simp: map_of_delete split: if_splits)
    then have e: "j \<in> set os" "entry_id (vs ! j) = id" "\<not> entry_finalized (vs ! j)"
      using r by (auto simp: roster_ok_def)
    with ne v(1) have "j \<noteq> i" by auto
    with e show ?thesis by simp
  qed
  have B: "map_of (AList.delete (entry_id v) ss) (entry_id (vs[i := v] ! j)) = Some j"
    if j: "j < length vs" "\<not> entry_finalized (vs[i := v] ! j)" for j
  proof -
    have "j \<noteq> i" using j v(3) i by auto
    with j r have s: "map_of ss (entry_id (vs ! j)) = Some j" by (simp add: roster_ok_def)
    then have "entry_id (vs ! j) \<noteq> entry_id v" using m \<open>j \<noteq> i\<close> by auto
    with s \<open>j \<noteq> i\<close> show ?thesis by (simp add: map_of_delete)
  qed
  have C: "entry_retiring (vs[i := v] ! j) = entry_finalized (vs[i := v] ! j)" if "j < length vs" for j
    using r v that i by (cases "j = i") (simp_all add: roster_ok_def)
  have D: "distinct (keys (AList.delete (entry_id v) ss))"
    using r unfolding roster_ok_def by (blast intro: distinct_keys_delete)
  show ?thesis
    using r A B C D unfolding roster_ok_def length_list_update ch by (elim conjE) (intro conjI allI impI; assumption?; blast)
qed

lemma roster_retire:
  assumes r: "roster_ok n ss os t vs" and i: "i \<in> set os" and f: "entry_finalized (vs ! i)"
  shows "roster_ok n ss (js_delete i os) (release_ip_slot now (entry_ip (vs ! i)) t) vs"
proof -
  let ?a = "entry_ip (vs ! i)"
  have d: "distinct os" using r by (simp add: roster_ok_def)
  have "length (js_delete i os) \<le> length os" by (simp add: js_delete_def)
  then have le: "int (length (js_delete i os)) \<le> no_max_sessions n" using r by (simp add: roster_ok_def)
  have ch: "charged vs (js_delete i os) a = charged vs os a - (if a = ?a then 1 else 0)" for a
    using i d
  proof (induction os)
    case (Cons x os)
    show ?case
    proof (cases "x = i")
      case True
      then have "js_delete i (x # os) = os" using Cons.prems by (simp add: js_delete_def filter_id_conv) auto
      with True show ?thesis by (simp add: charged_def)
    next
      case False
      then have "js_delete i (x # os) = x # js_delete i os" by (simp add: js_delete_def)
      with False Cons show ?thesis by (auto simp: charged_def)
    qed
  qed simp
  have pos: "1 \<le> charged vs os ?a"
  proof -
    have "i \<in> set (filter (\<lambda>j. entry_ip (vs ! j) = ?a) os)" using i by simp
    then have "filter (\<lambda>j. entry_ip (vs ! j) = ?a) os \<noteq> []" by (metis empty_iff empty_set)
    then show ?thesis by (cases "filter (\<lambda>j. entry_ip (vs ! j) = ?a) os") (simp_all add: charged_def)
  qed
  have "active_of (release_ip_slot now ?a t) a = charged vs (js_delete i os) a" for a
    using r pos by (auto simp: release_active ch roster_ok_def)
  then show ?thesis
    using r le f address_release_inv [of "ip_limits_of n" t now ?a] unfolding roster_ok_def by auto
qed

section \<open>Every operation keeps the roster\<close>

lemma roster_simps [simp]:
  "roster (s\<lparr>rt_state := a\<rparr>) = roster s" "roster (s\<lparr>rt_subscribed := b\<rparr>) = roster s"
  "roster (s\<lparr>rt_starting := b\<rparr>) = roster s" "roster (s\<lparr>rt_stopping := c\<rparr>) = roster s"
  "roster (emit x s) = roster s" "roster (s\<lparr>rt_budget := d\<rparr>) = roster s"
  "roster (s\<lparr>rt_accepted := f\<rparr>) = roster s" "roster (s\<lparr>rt_rejected_handlers := f\<rparr>) = roster s"
  "roster (close_session info code reason s) = roster s" "roster (record_rejection reason s) = roster s"
  by (simp_all add: roster_def emit_def close_session_def record_rejection_def)

lemma roster_same: "roster s \<Longrightarrow> roster_part (f s) = roster_part s \<Longrightarrow> roster (f s)"
  using roster_cong [of "f s" s] by simp

lemma roster_ok_ip:
  "roster_ok n ss os t vs \<Longrightarrow> ip_inv (ip_limits_of n) t' \<Longrightarrow> \<forall>a. active_of t' a = active_of t a \<Longrightarrow>
   roster_ok n ss os t' vs"
  unfolding roster_ok_def by (elim conjE) (intro conjI; assumption?; metis)

lemma roster_ip [simp]:
  "roster s \<Longrightarrow> ip_inv (ip_limits_of (rt_options s)) t \<Longrightarrow> \<forall>a. active_of t a = active_of (rt_ip s) a \<Longrightarrow>
   roster (s\<lparr>rt_ip := t\<rparr>)"
  by (simp add: roster_def) (rule roster_ok_ip)

text \<open>Finalising a session changes its entry and takes it off the map of sessions.\<close>

lemma finalize_part:
  assumes i: "i < length (rt_managed s)" and u: "\<not> ms_finalized (session_at i s)"
  shows "roster_part (finalize_session i s) =
    roster_part (s\<lparr>rt_managed := (rt_managed s)[i := (session_at i s)\<lparr>ms_finalized := True, ms_retiring := True\<rparr>],
      rt_sessions := AList.delete (si_id (ms_info (session_at i s))) (rt_sessions s)\<rparr>)"
proof -
  let ?s1 = "update_session i (\<lambda>m. m\<lparr>ms_finalized := True, ms_idle_timer := None\<rparr>) s"
  define s6 where "s6 = emit (StreamsIdle i) (update_session i (\<lambda>m. m\<lparr>ms_stream_waiters := []\<rparr>)
      (clear_datagrams i (on_scheduler i (close_scheduler True)
        (update_session i (\<lambda>m. m\<lparr>ms_admission_aborted := True\<rparr>) (stop_intake i ?s1)))))"
  have p: "roster_part s6 = roster_part ?s1"
    by (simp add: s6_def roster_neutral roster_update_session roster_view_def)
  then have v: "map roster_view (rt_managed s6) = map roster_view (rt_managed ?s1)"
    and g: "rt_sessions s6 = rt_sessions s" "rt_options s6 = rt_options s" "rt_registry s6 = rt_registry s"
      "rt_state s6 = rt_state s" "rt_outstanding s6 = rt_outstanding s" "rt_ip s6 = rt_ip s"
      "rt_subscribed s6 = rt_subscribed s" "rt_starting s6 = rt_starting s" "rt_stopping s6 = rt_stopping s"
    by (simp_all add: roster_part_def update_session_def)
  have len: "length (rt_managed s6) = length (rt_managed s)"
    using arg_cong [OF v, of length] by (simp add: update_session_def)
  with i have i6: "i < length (rt_managed s6)" by simp
  have "roster_view (rt_managed s6 ! i) = roster_view (rt_managed ?s1 ! i)"
    using arg_cong [OF v, of "\<lambda>xs. xs ! i"] i i6 by (simp add: update_session_def)
  then have vi: "roster_view (rt_managed s6 ! i) = (ms_info (session_at i s), ms_ip (session_at i s), True, ms_retiring (session_at i s))"
    using i by (simp add: update_session_def session_at_def roster_view_def)
  have f: "finalize_session i s = update_session i (\<lambda>m. m\<lparr>ms_retiring := True\<rparr>)
      (emit (LogCall ''session.closed'' None)
        (s6\<lparr>rt_sessions := AList.delete (si_id (ms_info (session_at i s6))) (rt_sessions s6)\<rparr>))"
    using u by (simp add: finalize_session_def Let_def s6_def)
  have "map roster_view ((rt_managed s6)[i := (rt_managed s6 ! i)\<lparr>ms_retiring := True\<rparr>]) =
      (map roster_view (rt_managed ?s1))[i := (ms_info (session_at i s), ms_ip (session_at i s), True, True)]"
    using vi by (simp add: map_update v roster_view_def)
  also have "\<dots> = map roster_view ((rt_managed s)[i := (session_at i s)\<lparr>ms_finalized := True, ms_retiring := True\<rparr>])"
    by (simp add: update_session_def map_update roster_view_def)
  finally show ?thesis
    unfolding f using vi g
    by (simp add: roster_part_def update_session_def session_at_def emit_def roster_view_def)
qed

lemma finalize_roster:
  assumes r: "roster s" and i: "i < length (rt_managed s)"
  shows "roster (finalize_session i s)"
proof (cases "ms_finalized (session_at i s)")
  case True
  with r show ?thesis by (simp add: finalize_session_def)
next
  case False
  let ?m = "session_at i s"
  let ?v = "(ms_info ?m, ms_ip ?m, True, True)"
  have vi: "entries s ! i = roster_view ?m" using i by (simp add: session_at_def)
  have "roster_ok (rt_options s) (AList.delete (entry_id ?v) (rt_sessions s)) (rt_outstanding s) (rt_ip s)
      ((entries s)[i := ?v])"
    by (rule roster_finalize) (use r i False vi in \<open>simp_all add: roster_def roster_view_def\<close>)
  then have "roster (s\<lparr>rt_managed := (rt_managed s)[i := ?m\<lparr>ms_finalized := True, ms_retiring := True\<rparr>],
      rt_sessions := AList.delete (si_id (ms_info ?m)) (rt_sessions s)\<rparr>)"
    by (simp add: roster_def map_update roster_view_def)
  then show ?thesis using roster_cong [OF finalize_part [OF i False]] by simp
qed

lemma retire_roster:
  assumes r: "roster s" and i: "i < length (rt_managed s)" and m: "may_retire i s"
  shows "roster (retire_session now i s)"
proof -
  have "entry_finalized (entries s ! i)"
    using r i m by (auto simp: roster_def roster_ok_def may_retire_def session_at_def roster_view_def)
  moreover have "entry_ip (entries s ! i) = ms_ip (session_at i s)"
    using i by (simp add: session_at_def roster_view_def)
  ultimately show ?thesis
    using r roster_retire [of "rt_options s" "rt_sessions s" "rt_outstanding s" "rt_ip s" "entries s" i now]
    by (auto simp: retire_session_def roster_def)
qed

lemma admission_succeeds_roster:
  assumes r: "roster s" and i: "i < length (rt_managed s)"
  shows "roster (admission_succeeds i s)"
proof -
  have u: "roster (update_session i (\<lambda>m. m\<lparr>ms_accepting := False\<rparr>) s)"
    by (rule roster_same [OF r]) (simp add: roster_update_session roster_view_def)
  have p: "roster (start_pump p i t)" if "roster t" for p t
    by (rule roster_same [OF that]) (rule roster_start_pump)
  show ?thesis
    using r i u by (simp add: admission_succeeds_def Let_def finalize_roster p)
qed

lemma session_aborts_roster:
  assumes r: "roster s" and i: "i < length (rt_managed s)"
  shows "roster (session_aborts now i s)"
proof -
  have "roster (update_session i (\<lambda>m. m\<lparr>ms_session_aborted := True\<rparr>) s)"
    by (rule roster_same [OF r]) (simp add: roster_update_session roster_view_def)
  then have "roster (finalize_session i (update_session i (\<lambda>m. m\<lparr>ms_session_aborted := True\<rparr>) s))"
    by (rule finalize_roster) (simp add: i)
  then show ?thesis
    unfolding session_aborts_def Let_def by (rule roster_same) (simp add: roster_neutral)
qed

lemma validate_none:
  assumes "validate_session pu info s = None"
  shows "int (length (rt_outstanding s)) < no_max_sessions (rt_options s)"
    and "map_of (rt_sessions s) (si_id info) = None"
  using assms by (auto simp: validate_session_def Let_def simp del: map_of_eq_None_iff split: if_splits)

lemma valid_ip_limits_of: "valid_options n \<Longrightarrow> valid_ip_limits (ip_limits_of n)"
  by (auto simp: valid_options_def valid_ip_limits_def ip_limits_of_def)

lemma accept_session_roster:
  assumes r: "roster s" and v: "valid_options (rt_options s)"
  shows "roster (accept_session pu url dr locked now info aborted s)"
proof -
  let ?lims = "ip_limits_of (rt_options s)"
  have ip: "ip_inv ?lims (rt_ip s)" "distinct (keys (rt_ip s))"
    using r by (auto simp: roster_def roster_ok_def ip_inv_def)
  have inv: "ip_inv ?lims m1" if "acquire_ip_slot ?lims now ip (rt_ip s) = (m1, ok)" for m1 ip ok
    using acquire_inv [OF valid_ip_limits_of [OF v] ip(1), of now ip] that by simp
  have act: "active_of m1 a = active_of (rt_ip s) a + (if ok \<and> a = ip then 1 else 0)"
    if "acquire_ip_slot ?lims now ip (rt_ip s) = (m1, ok)" for m1 ip ok a
    using acquire_active [OF ip(2), of ?lims now ip a] that by simp
  have pos: "0 \<le> active_of (rt_ip s) a" for a
    using r by (simp add: roster_def roster_ok_def charged_def)
  have undone: "active_of (release_ip_slot now ip m1) a = active_of (rt_ip s) a"
    if "acquire_ip_slot ?lims now ip (rt_ip s) = (m1, True)" for m1 ip a
    using act [OF that] pos [of ip] by (simp add: release_active)
  show ?thesis
  proof (cases rule: accept_session_cases [of pu url dr locked now info aborted s])
    case (refused reason code message a)
    with r show ?thesis by auto
  next
    case (address m1 ip)
    with r inv act show ?thesis by simp
  next
    case (budget m1 ip)
    with r inv undone address_release_inv [OF inv [OF budget(1)], of now ip] show ?thesis by simp
  next
    case (reader m1 ip b h)
    with r inv undone address_release_inv [OF inv [OF reader(1)], of now ip] show ?thesis by simp
  next
    case (admitted m1 ip b h readers)
    let ?m = "accepted_managed s info ip readers now aborted"
    let ?s2 = "s\<lparr>rt_ip := m1, rt_budget := b\<rparr>"
    let ?s3 = "register_session info ?m ?s2"
    have vm: "roster_view ?m = (info, ip, False, False)"
      by (simp add: roster_view_def accepted_managed_def new_managed_def)
    have "roster_ok (rt_options s) (AList.update (entry_id (roster_view ?m)) (length (entries s)) (rt_sessions s))
        (js_add (length (entries s)) (rt_outstanding s)) m1 (entries s @ [roster_view ?m])"
      by (rule roster_register [where t = "rt_ip s"])
        (use r validate_none [OF admitted(5)] inv [OF admitted(1)] act [OF admitted(1)] vm in
          \<open>simp_all add: roster_def\<close>)
    then have r3: "roster ?s3"
      by (simp add: roster_def register_session_def Let_def vm)
    have "roster (finalize_session (length (rt_managed s)) (?s3\<lparr>rt_budget := hb_release h b\<rparr>))"
      by (rule finalize_roster) (use r3 in simp_all)
    moreover have "roster (begin_admission now (length (rt_managed s)) h ?s3)"
      by (rule roster_same [OF r3]) (rule roster_admission)
    ultimately show ?thesis using admitted(6) by (cases aborted) (simp_all add: Let_def)
  qed
qed

section \<open>Starting and stopping\<close>

lemma roster_handles: "roster s \<Longrightarrow> handles_ok s"
  by (force simp: roster_def roster_ok_def handles_ok_def dest: map_of_is_SomeI)

lemma start_server_roster: "roster s \<Longrightarrow> start_server s = Inr s' \<Longrightarrow> roster s'"
  by (auto simp: start_server_def bindE_Inr_iff split: if_splits option.splits)

lemma start_settles_roster: "roster s \<Longrightarrow> roster (start_settles ok s)"
  by (simp add: start_settles_def Let_def)

lemma stop_force_roster: "roster s \<Longrightarrow> roster (stop_force s)"
proof -
  assume r: "roster s"
  have "roster (fold force_session is t)" if "roster t" for "is" t
    by (rule roster_same [OF that]) (rule roster_fold)
  with r show ?thesis by (simp add: stop_force_def Let_def)
qed

lemma stop_server_roster: "roster s \<Longrightarrow> roster (stop_server s)"
proof -
  assume r: "roster s"
  have "roster (fold drain_session is t)" if "roster t" for "is" t
    by (rule roster_same [OF that]) (rule roster_fold)
  with r show ?thesis by (simp add: stop_server_def Let_def stop_force_roster)
qed

lemma fold_close_roster:
  "roster (fold (\<lambda>(_, i) s. close_session (ms_info (session_at i s)) c r s) xs s) = roster s"
proof (induction xs arbitrary: s)
  case (Cons x xs)
  then show ?case by (cases x) simp
qed simp

lemma stop_proceeds_roster: "roster s \<Longrightarrow> roster (stop_proceeds s)"
  by (simp add: stop_proceeds_def stop_force_roster fold_close_roster split: stop_point.split)

lemma fold_finalize_roster:
  "roster s \<Longrightarrow> \<forall>i \<in> set is. i < length (rt_managed s) \<Longrightarrow> roster (fold finalize_session is s)"
proof (induction "is" arbitrary: s)
  case (Cons i "is")
  have "roster (finalize_session i s)" by (rule finalize_roster) (use Cons.prems in simp_all)
  from Cons.IH [OF this] Cons.prems show ?case by simp
qed simp

lemma stop_ends_roster: "roster s \<Longrightarrow> roster (stop_ends ok s)"
proof -
  assume r: "roster s"
  from roster_handles [OF r] have "\<forall>i \<in> set (map snd (rt_sessions s)). i < length (rt_managed s)"
    by (simp add: handles_ok_def)
  from fold_finalize_roster [OF r this] r show ?thesis by (simp add: stop_ends_def Let_def)
qed

lemma runtime_step_roster:
  assumes r: "roster s" and v: "valid_options (rt_options s)"
  shows "roster (runtime_step pu url e s)"
proof -
  have n: "roster (at_session i f s)" if "\<And>s. roster_part (f s) = roster_part s" for i f
    by (rule roster_same [OF r]) (simp add: at_session_def that)
  have m: "roster (at_session i f s)" if "i < length (rt_managed s) \<Longrightarrow> roster (f s)" for i f
    using that r by (simp add: at_session_def)
  show ?thesis
  proof (cases e)
    case (AdmissionSucceeds i)
    then show ?thesis by (simp add: m admission_succeeds_roster [OF r])
  next
    case (SessionAborts now i)
    then show ?thesis by (simp add: m session_aborts_roster [OF r])
  next
    case (Retires now i)
    then show ?thesis by (simp add: m retire_roster [OF r] r)
  next
    case (StreamAborts now k)
    then show ?thesis
      by (simp add: stream_aborts_def) (rule roster_same [OF r], rule roster_release_stream)
  next
    case ServerStarts
    then show ?thesis using r start_server_roster [OF r] by (auto split: sum.split)
  next
    case (PumpEnds p i)
  then show ?thesis by (cases p) (simp_all add: n roster_neutral r)
next
  case (StreamArrives now i kind aborted)
  then show ?thesis by (cases kind) (simp_all add: n roster_neutral)
next
  case (IdleTimerFires now i)
    then show ?thesis by (simp add: n roster_neutral)
  next
    case (DatagramArrives now i d)
    then show ?thesis by (simp add: n roster_neutral)
  qed (simp_all add: n roster_neutral r v accept_session_roster start_settles_roster stop_server_roster
      stop_proceeds_roster stop_ends_roster)
qed

end
