(* ===== verification/Runtime_Frame.thy ===== *)
theory Runtime_Frame
  imports Runtime_Machine
begin

text \<open>
  Frames of the runtime: a part of the state that most operations do not touch. The locale
  \<open>runtime_frame\<close> states which assignments leave the part alone and derives, once, that the operations
  built from them do; \<open>full_frame\<close> adds the assignments of the stream and session tables, so that no
  event of the machine changes the part. The interpretations are the static part (options, registry,
  limits of the budget) and the balance of the counters.
\<close>

section \<open>The budget's limits\<close>

lemma budget_caps [simp]:
  "hb_concurrency (hb_release i b) = hb_concurrency b" "hb_pending (hb_release i b) = hb_pending b"
  "hb_concurrency (fst (hb_reserve b)) = hb_concurrency b" "hb_pending (fst (hb_reserve b)) = hb_pending b"
  by (simp_all add: hb_release_def hb_reserve_def)

lemma wake_loop_caps [simp]:
  "hb_concurrency (fst (wake_loop ws b)) = hb_concurrency b \<and> hb_pending (fst (wake_loop ws b)) = hb_pending b"
  by (induction ws arbitrary: b) (auto simp: grant_run_def Let_def prod.case_eq_if)

lemma budget_run_caps [simp]:
  "hb_concurrency (fst (wake b)) = hb_concurrency b" "hb_pending (fst (wake b)) = hb_pending b"
  "hb_concurrency (fst (run_acquire a b)) = hb_concurrency b" "hb_pending (fst (run_acquire a b)) = hb_pending b"
  "hb_concurrency (fst (run_abort w b)) = hb_concurrency b" "hb_pending (fst (run_abort w b)) = hb_pending b"
  "hb_concurrency (fst (run_finally w b)) = hb_concurrency b" "hb_pending (fst (run_finally w b)) = hb_pending b"
  by (simp_all add: wake_def run_acquire_def run_abort_def run_finally_def grant_run_def Let_def prod.case_eq_if)

lemma budget_step_caps [simp]:
  "hb_concurrency (fst (budget_step e b)) = hb_concurrency b" "hb_pending (fst (budget_step e b)) = hb_pending b"
  by (cases e; simp add: prod.case_eq_if)+

section \<open>Operations that leave a part alone\<close>

text \<open>\<open>view\<close> is what the part depends on in a managed session.\<close>

locale runtime_frame =
  fixes part :: "runtime \<Rightarrow> 'p" and view :: "managed \<Rightarrow> 'v"
  assumes part_fields [simp]:
      "part (s\<lparr>rt_state := a\<rparr>) = part s" "part (s\<lparr>rt_sessions := b\<rparr>) = part s"
      "part (s\<lparr>rt_outstanding := c\<rparr>) = part s" "part (s\<lparr>rt_ip := e\<rparr>) = part s"
      "part (s\<lparr>rt_task_bytes := f\<rparr>) = part s" "part (s\<lparr>rt_queued_bytes := g\<rparr>) = part s"
      "part (s\<lparr>rt_accepted := g\<rparr>) = part s" "part (s\<lparr>rt_rejected_handlers := g\<rparr>) = part s"
      "part (s\<lparr>rt_subscribed := j\<rparr>) = part s" "part (s\<lparr>rt_starting := j\<rparr>) = part s"
      "part (s\<lparr>rt_stopping := k\<rparr>) = part s" "part (s\<lparr>rt_trace := l\<rparr>) = part s"
    and part_budget [simp]:
      "hb_concurrency b' = hb_concurrency (rt_budget s) \<Longrightarrow> hb_pending b' = hb_pending (rt_budget s) \<Longrightarrow>
       part (s\<lparr>rt_budget := b'\<rparr>) = part s"
    and part_records [simp]:
      "part (record_rejection r s) = part s" "part (record_datagram_drop r i s) = part s"
    and part_session: "view (h (session_at i s)) = view (session_at i s) \<Longrightarrow> part (update_session i h s) = part s"
    and view_fields [simp]:
      "view (m\<lparr>ms_scheduler := x1\<rparr>) = view m" "view (m\<lparr>ms_datagrams := x2\<rparr>) = view m"
      "view (m\<lparr>ms_pumps := x3\<rparr>) = view m" "view (m\<lparr>ms_stream_waiters := x4\<rparr>) = view m"
      "view (m\<lparr>ms_datagram_reader := x5\<rparr>) = view m" "view (m\<lparr>ms_bidirectional_reader := x5\<rparr>) = view m"
      "view (m\<lparr>ms_unidirectional_reader := x5\<rparr>) = view m" "view (m\<lparr>ms_window_started := x6\<rparr>) = view m"
      "view (m\<lparr>ms_in_window := x6\<rparr>) = view m" "view (m\<lparr>ms_drain := x7\<rparr>) = view m"
      "view (m\<lparr>ms_queued_bytes := x6\<rparr>) = view m" "view (m\<lparr>ms_last_activity := x6\<rparr>) = view m"
      "view (m\<lparr>ms_idle_timer := x8\<rparr>) = view m" "view (m\<lparr>ms_finalized := x5\<rparr>) = view m"
      "view (m\<lparr>ms_intake_aborted := x5\<rparr>) = view m" "view (m\<lparr>ms_admission_aborted := x5\<rparr>) = view m"
      "view (m\<lparr>ms_admission := x9\<rparr>) = view m" "view (m\<lparr>ms_accepting := x5\<rparr>) = view m"
      "view (m\<lparr>ms_retiring := x5\<rparr>) = view m" "view (m\<lparr>ms_stream_points := x10\<rparr>) = view m"
begin

lemma part_emit [simp]:
  "part (emit a s) = part s" "part (close_session info c r s) = part s" "part (settle h s) = part s"
  by (simp_all add: emit_def close_session_def settle_def)

lemma part_settle_all [simp]: "part (settle_all hs s) = part s"
  by (induction hs arbitrary: s) (simp_all add: settle_all_def)

lemma part_basic [simp]:
  "part (touch now i s) = part s" "part (check_idle now i s) = part s"
  "part (on_scheduler i f s) = part s" "part (clear_datagrams i s) = part s"
  "part (end_pump p i s) = part s" "part (retire_session now i s) = part s"
  by (simp_all add: touch_def check_idle_def on_scheduler_def clear_datagrams_def end_pump_def part_session
      retire_session_def Let_def prod.case_eq_if)

lemma part_stream_pump [simp]:
  "part (set_point kind q i s) = part s" "part (end_stream_pump kind i s) = part s"
  "part (stream_pump_head kind i s) = part s" "part (stream_pump_resume kind i s) = part s"
  "part (stream_pump_continue kind i s) = part s"
  by (simp_all add: set_point_def end_stream_pump_def stream_pump_head_def stream_pump_resume_def
      stream_pump_continue_def part_session Let_def split: stream_point.split)

lemma part_stop_intake [simp]: "part (stop_intake i s) = part s"
  by (simp add: stop_intake_def part_session)

lemma part_finalize [simp]: "part (finalize_session i s) = part s"
  by (simp add: finalize_session_def Let_def part_session)

lemma part_admission [simp]:
  "part (begin_admission now i h s) = part s" "part (admission_settles i s) = part s"
  "part (handshake_timeout i s) = part s" "part (admission_fails t i s) = part s"
  "part (start_pump p i s) = part s"
  by (simp_all add: begin_admission_def admission_settles_def handshake_timeout_def admission_fails_def
      start_pump_def Let_def part_session split: option.split)

lemma part_admission_succeeds [simp]: "part (admission_succeeds i s) = part s"
  by (simp add: admission_succeeds_def Let_def part_session)

lemma part_submit [simp]: "part (fst (submit i n s)) = part s"
  using budget_caps(3,4) [of "rt_budget s"]
  by (cases "hb_reserve (rt_budget s)") (simp add: submit_def Let_def prod.case_eq_if part_session split: option.split)

lemma part_drain [simp]:
  "part (end_drain i s) = part s" "part (drain_head i s) = part s"
  "part (start_drain i s) = part s" "part (drain_continue i s) = part s"
  by (simp_all add: end_drain_def drain_head_def start_drain_def drain_continue_def Let_def part_session)

lemma part_drain_resume [simp]: "part (drain_resume i s) = part s"
  by (simp add: drain_resume_def Let_def prod.case_eq_if part_session split: option.split)

lemma part_store [simp]: "part (fst (store_datagram i d s)) = part s"
  by (simp add: store_datagram_def Let_def prod.case_eq_if part_session)

lemma part_pump_datagram [simp]: "part (pump_datagram now i d s) = part s"
proof -
  have "view (snd (consume_datagram_rate n now m)) = view m" for n m
    by (simp add: consume_datagram_rate_def Let_def)
  then show ?thesis
    by (simp add: pump_datagram_def Let_def prod.case_eq_if part_session split: enqueue_result.split)
qed

lemma part_fold: "(\<And>x s. part (f x s) = part s) \<Longrightarrow> part (fold f xs s) = part s"
  by (induction xs arbitrary: s) simp_all

lemma part_tasks [simp]:
  "part (task_ends i k s) = part s" "part (fst (handle_runtime_error e i st s)) = part s"
  "part (stream_outcome r i k s) = part s"
  by (simp_all add: task_ends_def handle_runtime_error_def stream_outcome_def Let_def
      split: option.split error_scope.split)

lemma part_machine [simp]:
  "part (drain_session i s) = part s" "part (force_session i s) = part s" "part (start_settles ok s) = part s"
  by (simp_all add: drain_session_def force_session_def start_settles_def Let_def part_session)

lemma part_stop_force [simp]: "part (stop_force s) = part s"
  by (simp add: stop_force_def Let_def part_fold)

lemma part_stop [simp]: "part (stop_server s) = part s" "part (stop_ends ok s) = part s"
  by (simp_all add: stop_server_def stop_ends_def Let_def part_fold)

lemma part_stop_proceeds [simp]: "part (stop_proceeds s) = part s"
  by (cases "rt_stopping s") (simp_all add: stop_proceeds_def part_fold prod.case_eq_if)

lemma part_start_server: "start_server s = Inr s' \<Longrightarrow> part s' = part s"
  by (auto simp: start_server_def bindE_Inr_iff split: if_splits option.splits)

lemma part_at_session: "part (f s) = part s \<Longrightarrow> part (at_session i f s) = part s"
  by (simp add: at_session_def)

text \<open>The events that do not concern the stream table.\<close>

lemma part_step:
  assumes "\<And>dr locked now info aborted. e \<noteq> SessionArrives dr locked now info aborted"
    and "\<And>now i kind aborted. e \<noteq> StreamArrives now i kind aborted"
    and "\<And>now k. e \<noteq> StreamAborts now k" and "\<And>now i. e \<noteq> SessionAborts now i"
  shows "part (runtime_step pu url e s) = part s"
proof (cases e)
  case ServerStarts
  then show ?thesis by (cases "start_server s") (simp_all add: part_start_server)
qed (use assms in \<open>simp_all add: part_at_session split: pump.split del: budget_step.simps\<close>)

end

text \<open>A part that no event changes.\<close>

locale full_frame = runtime_frame +
  assumes part_tables [simp]:
      "part (s\<lparr>rt_streams := t\<rparr>) = part s" "part (s\<lparr>rt_active_streams := g\<rparr>) = part s"
      "part (s\<lparr>rt_managed := ms\<rparr>) = part s"
begin

lemma part_any_session [simp]: "part (update_session i h s) = part s"
  by (simp add: update_session_def)

lemma part_register [simp]: "part (register_session info mg s) = part s"
  by (simp add: register_session_def Let_def)

lemma part_release_stream [simp]: "part (release_stream now k s) = part s"
  by (simp add: release_stream_def Let_def)

lemma part_track_stream [simp]: "part (track_stream now i kind a s) = part s"
  by (simp add: track_stream_def Let_def)

lemma part_streams [simp]:
  "part (stream_aborts now k s) = part s" "part (pump_stream now i kind a s) = part s"
  "part (session_aborts now i s) = part s"
  "part (pump_bidirectional_streams now i a s) = part s" "part (pump_unidirectional_streams now i a s) = part s"
  by (simp_all add: stream_aborts_def pump_stream_def pump_bidirectional_streams_def pump_unidirectional_streams_def
      session_aborts_def Let_def prod.case_eq_if part_fold)

lemma part_accept [simp]: "part (accept_session pu url dr locked now info aborted s) = part s"
  by (simp add: accept_session_def Let_def prod.case_eq_if split: option.split thrown.split)

lemma part_any_step [simp]: "part (runtime_step pu url e s) = part s"
proof (cases e)
  case ServerStarts
  then show ?thesis by (cases "start_server s") (simp_all add: part_start_server)
qed (simp_all add: part_at_session split: pump.split stream_kind.split del: budget_step.simps)

lemma part_run: "part (runtime_run pu url es s) = part s"
  unfolding runtime_run_def by (rule part_fold) simp

end

section \<open>The static part\<close>

definition static_part :: "runtime \<Rightarrow> normalized_options \<times> gateway_registry \<times> int \<times> int" where
  "static_part s =
     (rt_options s, rt_registry s, hb_concurrency (rt_budget s), hb_pending (rt_budget s))"

interpretation static: full_frame static_part ms_info
  by unfold_locales
    (simp_all add: static_part_def record_rejection_def record_datagram_drop_def emit_def update_session_def)

lemma static_eqD:
  "static_part s = static_part s' \<Longrightarrow> rt_options s = rt_options s'"
  "static_part s = static_part s' \<Longrightarrow> rt_registry s = rt_registry s'"
  "static_part s = static_part s' \<Longrightarrow> hb_concurrency (rt_budget s) = hb_concurrency (rt_budget s')"
  "static_part s = static_part s' \<Longrightarrow> hb_pending (rt_budget s) = hb_pending (rt_budget s')"
  by (simp_all add: static_part_def)

lemmas static_step = static.part_any_step

lemmas run_options [simp] = static_eqD(1) [OF static.part_run]

lemma run_caps [simp]:
  "hb_capacity (rt_budget (runtime_run pu url es (new_runtime n g))) = no_server_concurrent n + no_server_pending n"
  "hb_concurrency (rt_budget (runtime_run pu url es (new_runtime n g))) = no_server_concurrent n"
  using static.part_run [of pu url es "new_runtime n g"]
  by (simp_all add: static_part_def hb_capacity_def new_runtime_def new_handler_budget_def)

section \<open>The balance of the counters\<close>

text \<open>
  A counter by reason, against its total. Every rejection and every drop is recorded under a reason,
  so the difference never changes.
\<close>

definition count_total :: "(string \<times> int) list \<Rightarrow> int" where
  "count_total counts = sum_list (map snd counts)"

lemma count_total_bump: "count_total (bump reason counts) = count_total counts + 1"
  unfolding bump_def by (induction counts) (auto simp: count_total_def split: option.splits)

lemma distinct_bump: "distinct (keys (bump reason counts)) = distinct (keys counts)"
  by (simp add: bump_def keys_update js_add_def)

definition balance :: "runtime \<Rightarrow> int \<times> int \<times> bool \<times> bool" where
  "balance s =
     (rt_rejected s - count_total (rt_rejections s), rt_dropped s - count_total (rt_drops s),
      distinct (keys (rt_rejections s)), distinct (keys (rt_drops s)))"

interpretation balance: full_frame balance ms_info
  by unfold_locales
    (simp_all add: balance_def record_rejection_def record_datagram_drop_def emit_def update_session_def count_total_bump
      distinct_bump)

text \<open>What has been counted under each reason is never negative, and counts only grow.\<close>

lemma bump_lookup:
  "map_of (bump reason counts) r =
     (if r = reason then Some ((case map_of counts reason of Some n \<Rightarrow> n | None \<Rightarrow> 0) + 1) else map_of counts r)"
  by (simp add: bump_def map_of_update)

end
