(* ===== verification/Runtime_Safety.thy ===== *)
theory Runtime_Safety
  imports Runtime_Roster Runtime_Frame
begin

text \<open>
  The runtime's accounting as an invariant of the whole machine: the books and the roster are kept by
  every event, so they hold in every reachable state. The properties spell out what that means for
  the limits of the server, of an address and of the handler budget.
\<close>

section \<open>The books at every step\<close>

lemma ledger_at_session:
  "ledger s \<Longrightarrow> (i < length (rt_managed s) \<Longrightarrow> ledger (f s)) \<Longrightarrow> ledger (at_session i f s)"
  by (simp add: at_session_def)

lemma drain_continue_ledger: "ledger s \<Longrightarrow> i < length (rt_managed s) \<Longrightarrow> ledger (drain_continue i s)"
  by (simp add: drain_continue_def drain_head_ledger)

lemma admission_fails_ledger: "ledger s \<Longrightarrow> ledger (admission_fails t i s)"
  by (simp add: admission_fails_def ledger_view_def)

lemma handshake_ledger: "ledger s \<Longrightarrow> ledger (handshake_timeout i s)"
  by (simp add: handshake_timeout_def ledger_view_def)

lemma retire_ledger: "ledger s \<Longrightarrow> ledger (retire_session now i s)"
  by (simp add: retire_session_def)

lemma start_server_ledger: "ledger s \<Longrightarrow> start_server s = Inr s' \<Longrightarrow> ledger s'"
  by (auto simp: start_server_def bindE_Inr_iff split: if_splits option.splits)

lemma start_settles_ledger: "ledger s \<Longrightarrow> ledger (start_settles ok s)"
  by (simp add: start_settles_def Let_def)

lemma ledger_relabel: "ledger s \<Longrightarrow> ledger (s\<lparr>rt_state := x\<rparr>)" "ledger s \<Longrightarrow> ledger (s\<lparr>rt_stopping := y\<rparr>)"
  "ledger s \<Longrightarrow> ledger (s\<lparr>rt_subscribed := z\<rparr>)"
  by (simp_all add: ledger_view_def)

lemma stop_server_ledger:
  assumes l: "ledger s" and h: "handles_ok s"
  shows "ledger (stop_server s)"
proof (cases "rt_stopping s \<noteq> NotStopping \<or> rt_state s = STOPPED")
  case True
  with l show ?thesis by (simp add: stop_server_def)
next
  case False
  define s2 where "s2 = (if rt_state s = RUNNING then s\<lparr>rt_state := transition_state DRAINING (rt_state s)\<rparr>
      else if rt_state s = STARTING then s\<lparr>rt_state := transition_state STOPPING (rt_state s)\<rparr>
      else s)\<lparr>rt_subscribed := False\<rparr>"
  define s3 where "s3 = fold drain_session (rt_outstanding s2) s2"
  have same: "rt_outstanding s2 = rt_outstanding s" "rt_managed s2 = rt_managed s"
    by (simp_all add: s2_def)
  have l2: "ledger s2" using l by (simp add: s2_def ledger_relabel)
  have l3: "ledger s3" "length (rt_managed s3) = length (rt_managed s2)"
    using fold_ledger [where f = drain_session and g = "\<lambda>i. i" and xs = "rt_outstanding s2", OF drain_session_ledger l2]
      h same by (simp_all add: handles_ok_def s3_def)
  have o3: "rt_outstanding s3 = rt_outstanding s2"
    using roster_fold(2) [of "rt_outstanding s2" s2] by (simp add: s3_def roster_part_def)
  have "stop_server s =
      (if rt_state s3 = DRAINING \<and> no_graceful (rt_options s3) then s3\<lparr>rt_stopping := StopDraining\<rparr>
       else stop_force s3)"
    using False unfolding stop_server_def Let_def s3_def s2_def by (simp only: if_False)
  moreover have "ledger (stop_force s3)"
    by (rule stop_force_ledger) (use h l3 o3 same in \<open>auto simp: handles_ok_def\<close>)
  ultimately show ?thesis using l3(1) by (simp add: ledger_relabel)
qed

lemma close_all_ledger:
  "ledger (fold (\<lambda>(_, i) s. close_session (ms_info (session_at i s)) c r s) xs s) = ledger s"
proof (induction xs arbitrary: s)
  case (Cons x xs)
  then show ?case by (cases x) simp
qed simp

lemma stop_proceeds_ledger:
  assumes l: "ledger s" and h: "handles_ok s"
  shows "ledger (stop_proceeds s)"
proof (cases "rt_stopping s")
  case StopDraining
  with l h show ?thesis by (simp add: stop_proceeds_def stop_force_ledger handles_ok_def)
next
  case StopForced
  have "ledger (fold (\<lambda>(_, i) s. close_session (ms_info (session_at i s)) 0 ''Server shutting down'' s)
      (rt_sessions s) s)"
    using l by (simp only: close_all_ledger)
  then show ?thesis unfolding stop_proceeds_def StopForced stop_point.case by (rule ledger_relabel(2))
next
  case StopClosing
  with l show ?thesis by (simp add: stop_proceeds_def ledger_relabel)
qed (use l in \<open>simp_all add: stop_proceeds_def\<close>)

lemma stop_ends_ledger:
  assumes l: "ledger s" and h: "handles_ok s"
  shows "ledger (stop_ends ok s)"
proof -
  have "ledger (fold finalize_session is t)" if "ledger t" "\<forall>i \<in> set is. i < length (rt_managed t)" for "is" t
    using fold_ledger(1) [where f = finalize_session and g = "\<lambda>i. i" and xs = "is" and s = t] that
    by (simp add: finalize_ledger)
  with l h show ?thesis by (simp add: stop_ends_def Let_def handles_ok_def)
qed

lemma runtime_step_ledger:
  assumes l: "ledger s" and v: "valid_options (rt_options s)" and h: "handles_ok s"
  shows "ledger (runtime_step pu url e s)"
proof (cases e)
  case (BudgetRuns ev)
  with l show ?thesis by (simp add: run_event_ledger del: budget_step.simps)
next
  case ServerStarts
  with l start_server_ledger [OF l] show ?thesis by (auto split: sum.split)
next
  case (PumpEnds p i)
  with l show ?thesis by (cases p) (auto intro!: ledger_at_session)
next
  case (StreamArrives now i kind aborted)
  with l show ?thesis
    by (cases kind) (auto simp: pump_bidirectional_streams_def pump_unidirectional_streams_def
        intro!: ledger_at_session pump_stream_ledger)
qed (use l v h in \<open>auto simp: accept_session_ledger stream_aborts_def admission_fails_ledger
      handshake_ledger retire_ledger handle_error_ledger start_settles_ledger stop_server_ledger
      stop_proceeds_ledger stop_ends_ledger
      intro!: ledger_at_session admission_settles_ledger admission_succeeds_ledger pump_datagram_ledger
        drain_resume_ledger drain_continue_ledger stream_pump_ledger session_aborts_ledger task_ends_ledger\<close>)

section \<open>The machine\<close>

definition accounts :: "runtime \<Rightarrow> bool" where
  "accounts s \<longleftrightarrow> valid_options (rt_options s) \<and> ledger s \<and> roster s"

lemma new_runtime_accounts: "valid_options n \<Longrightarrow> accounts (new_runtime n g)"
proof -
  assume v: "valid_options n"
  then have "budget_inv (new_handler_budget (no_server_concurrent n) (no_server_pending n))"
    by (intro new_handler_budget_inv) (simp_all add: valid_options_def)
  with v show ?thesis
    by (auto simp: accounts_def new_runtime_def open_ledger_def roster_def roster_ok_def unreleased_def
        new_handler_budget_def all_claims_def retained_def charged_def active_of_def ip_inv_def valid_options_def)
qed

lemma runtime_step_accounts: "accounts s \<Longrightarrow> accounts (runtime_step pu url e s)"
  by (simp add: accounts_def runtime_step_ledger runtime_step_roster roster_handles static_eqD(1) [OF static_step])

interpretation runtime_accounts: event_system "runtime_step pu url" accounts for pu url
  by unfold_locales (rule runtime_step_accounts)

lemma run_accounts: "valid_options n \<Longrightarrow> accounts (runtime_run pu url es (new_runtime n g))"
  unfolding runtime_run_def by (rule runtime_accounts.run_inv [OF new_runtime_accounts])

section \<open>What the accounts say\<close>

text \<open>The reservations of a session: its tasks that run or wait, and its admission while it is pending.\<close>

definition session_load :: "managed \<Rightarrow> int" where
  "session_load m =
     int (length (ts_running (ms_scheduler m))) + int (length (ts_pending (ms_scheduler m))) +
     (if ms_admission m = None then 0 else 1)"

text \<open>The datagram bytes a session retains: those queued, and those of its tasks.\<close>

definition session_bytes :: "(nat \<Rightarrow> int) \<Rightarrow> managed \<Rightarrow> int" where
  "session_bytes f m =
     sum_list (map byte_length (contents (ms_datagrams m))) +
     sum_list (map (\<lambda>t. f (task_id t)) (ts_running (ms_scheduler m))) +
     sum_list (map (\<lambda>t. f (task_id t)) (ts_pending (ms_scheduler m)))"

lemma size_all_claims: "int (size (all_claims ms)) = sum_list (map session_load ms)"
  by (induction ms)
    (auto simp: all_claims_def claims_def held_def session_load_def size_union split: option.split)

lemma retained_bytes:
  assumes "\<forall>m \<in> set ms. session_ok m"
  shows "retained f ms = sum_list (map (session_bytes f) ms)"
proof -
  have "ms_queued_bytes m + bytes_of f (held m) = session_bytes f m" if "session_ok m" for m
    using that by (simp add: session_ok_def bq.weight_def session_bytes_def held_def bytes_of_def
        sum_mset_sum_list comp_def flip: mset_map)
  with assms show ?thesis unfolding retained_def by (induction ms) auto
qed

lemma accounts_load: "accounts s \<Longrightarrow> hb_reserved (rt_budget s) = sum_list (map session_load (rt_managed s))"
  using size_unreleased [of "rt_budget s"] size_all_claims [of "rt_managed s"]
  by (simp add: accounts_def open_ledger_def)

lemma accounts_bytes:
  "accounts s \<Longrightarrow> rt_queued_bytes s = sum_list (map (session_bytes (rt_task_bytes s)) (rt_managed s))"
  by (simp add: accounts_def open_ledger_def retained_bytes)

section \<open>A run that admits a session\<close>

definition example_options :: module_options where
  "example_options = default_options example_driver [''https://A.example/'']"

definition example_normal :: normalized_options where
  "example_normal =
     \<lparr>no_driver = example_driver, no_port = 4433, no_max_sessions = 1000, no_server_concurrent = 256,
      no_server_pending = 1024, no_queued_bytes = 16777216, no_max_streams = 2048, no_ip_sessions = 100,
      no_ip_per_second = 10, no_bidirectional = 100, no_unidirectional = 100,
      no_datagrams_per_second = 1000, no_session_concurrent = 64, no_session_pending = 128,
      no_stream_lifetime = 300000, no_max_concurrent = 64, no_max_pending = 128,
      no_handler_overflow = DropTask, no_queue_size = 256, no_queue_overflow = DropOldest,
      no_allowed_origins = [''https://a.example''], no_require_origin = True, no_max_header_size = 16384,
      no_max_datagram_size = 65536, no_handshake_timeout = 5000, no_idle_timeout = 60000,
      no_authenticate = False, no_route_datagram = False, no_route_bidirectional = False,
      no_route_unidirectional = False, no_graceful = True, no_drain_timeout = 10000,
      no_force_close_timeout = 15000, no_max_logs = 100\<rparr>"

lemma example_accepted: "normalize_options example_parser example_options = Inr example_normal"
proof -
  have "typed_options (build_options example_driver (Finite 4433) [''https://a.example''] example_options) = example_normal"
    by (simp add: typed_options_def build_options_def example_options_def default_options_def no_overrides_def example_normal_def
        merge_limits_def int_of_limit_def max_safe_def js_add_def)
  then show ?thesis
    unfolding example_options_def by (simp add: default_options_accepted [OF example_origins])
qed

definition example_registry :: gateway_registry where
  "example_registry = register_all Some
     [\<lparr>ch_path = ''/chat'', ch_kind = DatagramKind, ch_route = None, ch_method = ''onDatagram'',
       ch_parameters = [], ch_id = 0\<rparr>]"

definition example_session :: session_info where
  "example_session = \<lparr>si_id = ''s1'', si_path = ''/chat'', si_remote = Some ''192.0.2.1'',
     si_headers = [(''origin'', ''https://A.example/'')], si_max_datagram = 1200\<rparr>"

definition example_events :: "runtime_event list" where
  "example_events =
     [ServerStarts, StartSettles True, SessionArrives True (\<lambda>_. False) 0 example_session False,
      BudgetRuns (RunFinally 0), AdmissionSettles 0, AdmissionSucceeds 0, DatagramArrives 5 0 [1, 2, 3]]"

abbreviation example_run :: runtime where
  "example_run \<equiv> runtime_run example_parser Some example_events (new_runtime example_normal example_registry)"

lemma example_run_facts:
  "rt_outstanding example_run = [0] \<and> rt_queued_bytes example_run = 3 \<and>
   map_of (rt_sessions example_run) ''s1'' = Some 0"
  by code_simp

section \<open>The properties of the accounts\<close>

lemma accepted_accounts:
  "normalize_options pu o' = Inr n \<Longrightarrow> accounts (runtime_run pu' url es (new_runtime n g))"
  by (intro run_accounts normalize_valid)

text \<open>
  C3. No reservation of the handler budget leaks, and the server's work limit holds: in every
  reachable state the reservations that are out are exactly the tasks that the sessions' schedulers
  run or keep waiting and the admissions that have not settled, and there are never more of them than
  \<open>maxConcurrentHandlers + maxPendingHandlers\<close>.
\<close>

theorem runtime_work_is_charged:
  assumes "normalize_options pu o' = Inr n"
  shows "let s = runtime_run pu' url es (new_runtime n g) in
     hb_reserved (rt_budget s) = sum_list (map session_load (rt_managed s)) \<and>
     hb_reserved (rt_budget s) \<le> no_server_concurrent n + no_server_pending n"
proof -
  let ?s = "runtime_run pu' url es (new_runtime n g)"
  have a: "accounts ?s" using assms by (rule accepted_accounts)
  then have "hb_reserved (rt_budget ?s) \<le> hb_capacity (rt_budget ?s)"
    by (simp add: accounts_def open_ledger_def budget_inv_def hb.balanced_def)
  with accounts_load [OF a] show ?thesis by (simp add: Let_def)
qed

theorem runtime_work_is_charged_witness:
  "normalize_options example_parser example_options = Inr example_normal \<and>
   hb_reserved (rt_budget example_run) = sum_list (map session_load (rt_managed example_run)) \<and>
   hb_reserved (rt_budget example_run) \<le> 1280"
  using runtime_work_is_charged [OF example_accepted, of example_parser Some example_events example_registry]
  by (simp add: Let_def example_accepted) (simp add: example_normal_def)

text \<open>
  C4. The server-wide byte counter of datagrams is exact and bounded: it is the sum of the bytes in
  the sessions' queues and the bytes of the datagrams whose tasks have not settled, it never exceeds
  \<open>maxQueuedDatagramBytes\<close> and never becomes negative.
\<close>

theorem runtime_bytes_are_charged:
  assumes "normalize_options pu o' = Inr n"
  shows "let s = runtime_run pu' url es (new_runtime n g) in
     rt_queued_bytes s = sum_list (map (session_bytes (rt_task_bytes s)) (rt_managed s)) \<and>
     0 \<le> rt_queued_bytes s \<and> rt_queued_bytes s \<le> no_queued_bytes n"
proof -
  let ?s = "runtime_run pu' url es (new_runtime n g)"
  have a: "accounts ?s" using assms by (rule accepted_accounts)
  then have t: "0 \<le> rt_task_bytes ?s h" for h by (simp add: accounts_def open_ledger_def)
  have "0 \<le> session_bytes (rt_task_bytes ?s) m" for m
    unfolding session_bytes_def by (intro add_nonneg_nonneg sum_list_nonneg) (auto simp: t)
  then have "0 \<le> sum_list (map (session_bytes (rt_task_bytes ?s)) (rt_managed ?s))"
    by (intro sum_list_nonneg) auto
  moreover have "rt_queued_bytes ?s \<le> no_queued_bytes n"
    using a by (simp add: accounts_def open_ledger_def new_runtime_def)
  ultimately show ?thesis using accounts_bytes [OF a] by (simp add: Let_def)
qed

theorem runtime_bytes_are_charged_witness:
  "rt_queued_bytes example_run = 3 \<and>
   3 = sum_list (map (session_bytes (rt_task_bytes example_run)) (rt_managed example_run))"
  using runtime_bytes_are_charged [OF example_accepted, of example_parser Some example_events example_registry]
    example_run_facts by (simp add: Let_def)

lemma accounts_sessions:
  assumes a: "accounts s"
  shows "distinct (rt_outstanding s)" "\<forall>i \<in> set (rt_outstanding s). i < length (rt_managed s)"
    "int (length (rt_outstanding s)) \<le> no_max_sessions (rt_options s)"
    "active_of (rt_ip s) x = int (length (filter (\<lambda>i. ms_ip (session_at i s) = x) (rt_outstanding s)))"
    "active_of (rt_ip s) x \<le> no_ip_sessions (rt_options s)"
    "map_of (rt_sessions s) k = Some i \<longleftrightarrow>
       i < length (rt_managed s) \<and> \<not> ms_finalized (session_at i s) \<and> si_id (ms_info (session_at i s)) = k"
    "i < length (rt_managed s) \<Longrightarrow> \<not> ms_finalized (session_at i s) \<Longrightarrow> i \<in> set (rt_outstanding s)"
proof -
  from a have r: "roster_ok (rt_options s) (rt_sessions s) (rt_outstanding s) (rt_ip s) (entries s)"
    by (simp add: accounts_def roster_def)
  show d: "distinct (rt_outstanding s)" and b: "\<forall>i \<in> set (rt_outstanding s). i < length (rt_managed s)"
    and "int (length (rt_outstanding s)) \<le> no_max_sessions (rt_options s)"
    using r by (simp_all add: roster_ok_def)
  from b have "filter (\<lambda>i. entry_ip (entries s ! i) = x) (rt_outstanding s) =
      filter (\<lambda>i. ms_ip (session_at i s) = x) (rt_outstanding s)"
    by (intro filter_cong) (simp_all add: roster_view_def session_at_def)
  with r show "active_of (rt_ip s) x = int (length (filter (\<lambda>i. ms_ip (session_at i s) = x) (rt_outstanding s)))"
    by (simp add: roster_ok_def charged_def)
  from r have i: "ip_inv (ip_limits_of (rt_options s)) (rt_ip s)" by (simp add: roster_ok_def)
  from a have "0 \<le> no_ip_sessions (rt_options s)" by (simp add: accounts_def valid_options_def)
  with i show "active_of (rt_ip s) x \<le> no_ip_sessions (rt_options s)"
    by (auto simp: active_of_def ip_inv_def record_ok_def ip_limits_of_def split: option.split)
  have fwd: "i \<in> set (rt_outstanding s) \<and> entry_id (entries s ! i) = k \<and> \<not> entry_finalized (entries s ! i)"
    if "map_of (rt_sessions s) k = Some i" for k i
    using r that by (simp add: roster_ok_def del: nth_map)
  have bwd: "map_of (rt_sessions s) (entry_id (entries s ! i)) = Some i"
    if "i < length (entries s)" "\<not> entry_finalized (entries s ! i)" for i
    using r that by (simp add: roster_ok_def del: nth_map)
  show "map_of (rt_sessions s) k = Some i \<longleftrightarrow>
       i < length (rt_managed s) \<and> \<not> ms_finalized (session_at i s) \<and> si_id (ms_info (session_at i s)) = k"
    using fwd [of k i] bwd [of i] b by (auto simp: session_at_def roster_view_def)
  show "i \<in> set (rt_outstanding s)" if "i < length (rt_managed s)" "\<not> ms_finalized (session_at i s)"
    using fwd bwd [of i] that by (simp add: session_at_def roster_view_def)
qed

text \<open>
  C2. The sessions that count: at most \<open>maxSessions\<close> sessions are outstanding; the slots that an
  address holds are exactly its outstanding sessions, at most \<open>maxSessionsPerIp\<close>; an id is registered
  for a session exactly while that session is not finalised, such a session is outstanding, and no two
  sessions that are not finalised share an id.
\<close>

theorem runtime_sessions_are_charged:
  assumes "normalize_options pu o' = Inr n"
  shows "let s = runtime_run pu' url es (new_runtime n g) in
     distinct (rt_outstanding s) \<and> int (length (rt_outstanding s)) \<le> no_max_sessions n \<and>
     (\<forall>a. active_of (rt_ip s) a = int (length (filter (\<lambda>i. ms_ip (session_at i s) = a) (rt_outstanding s))) \<and>
          active_of (rt_ip s) a \<le> no_ip_sessions n) \<and>
     (\<forall>k i. map_of (rt_sessions s) k = Some i \<longleftrightarrow>
        i < length (rt_managed s) \<and> \<not> ms_finalized (session_at i s) \<and> si_id (ms_info (session_at i s)) = k) \<and>
     (\<forall>i < length (rt_managed s). \<not> ms_finalized (session_at i s) \<longrightarrow> i \<in> set (rt_outstanding s))"
proof -
  have a: "accounts (runtime_run pu' url es (new_runtime n g))" using assms by (rule accepted_accounts)
  have o: "rt_options (runtime_run pu' url es (new_runtime n g)) = n" by (simp add: new_runtime_def)
  show ?thesis
    using accounts_sessions [OF a] unfolding Let_def o by simp
qed

theorem runtime_sessions_are_charged_witness:
  "rt_outstanding example_run = [0] \<and> active_of (rt_ip example_run) ''192.0.2.1'' \<le> 100 \<and>
   map_of (rt_sessions example_run) ''s1'' = Some 0 \<and> \<not> ms_finalized (session_at 0 example_run)"
  using runtime_sessions_are_charged [OF example_accepted, of example_parser Some example_events example_registry]
    example_run_facts by (simp add: Let_def)

end
