(* ===== verification/Runtime_Logs.thy ===== *)
theory Runtime_Logs
  imports Runtime_State
begin

text \<open>
  The logging of the runtime (\<open>log\<close> and \<open>logError\<close> of \<open>webtransport-runtime.ts\<close>) and the statistics
  that it publishes. Records go to the callbacks of the application, which may throw or return a
  promise; a fixed window and the number of promises that have not settled bound them. The lists
  \<open>lg_calls\<close> and \<open>lg_emitted\<close> are the history of the calls; the code does not keep them. Times are
  those of \<open>performance.now()\<close> in whole milliseconds, which never decrease. A callback that makes the
  runtime log before it returns is not modelled: its record would be counted inside the outer call.
\<close>

section \<open>Records\<close>

datatype log_level = DebugLevel | InfoLevel | WarnLevel | ErrorLevel

record log_record =
  le_level :: log_level
  le_event :: string
  le_session :: "string option"
  le_stream :: "string option"
  le_code :: "string option"
  le_error_name :: "string option"

text \<open>
  \<open>error instanceof Error ? error.name : 'UnknownError'\<close>; the name of the native library's errors is
  a parameter.
\<close>

fun thrown_name :: "string \<Rightarrow> thrown \<Rightarrow> string" where
  "thrown_name native (WtError c _ _ _ _ _) = error_name c"
| "thrown_name native (NativeError _ _ _) = native"
| "thrown_name native (DomException name _) = name"
| "thrown_name native (JsError name _) = name"
| "thrown_name native NonError = ''UnknownError''"

definition error_record :: "string \<Rightarrow> string \<Rightarrow> thrown \<Rightarrow> string option \<Rightarrow> nat option \<Rightarrow> log_record" where
  "error_record native event e session stream =
     \<lparr>le_level = ErrorLevel, le_event = event, le_session = session, le_stream = map_option show_nat stream,
      le_code = thrown_code e, le_error_name = Some (thrown_name native e)\<rparr>"

section \<open>The rate-limited log\<close>

text \<open>What a callback of the application does: it throws, returns, or returns a promise.\<close>

datatype callback_answer = CallbackThrows | CallbackReturns | CallbackPending

datatype log_call = OnErrorCall thrown log_record int | LoggerCall log_record int

record log_state =
  lg_limit :: int
  lg_window_at :: int
  lg_in_window :: int
  lg_pending :: int
  lg_suppressed :: int
  lg_requested :: int
  lg_emitted :: "(int \<times> int) list"
  lg_calls :: "log_call list"

definition new_log :: "normalized_options \<Rightarrow> log_state" where
  "new_log n =
     \<lparr>lg_limit = no_max_logs n, lg_window_at = 0, lg_in_window = 0, lg_pending = 0, lg_suppressed = 0,
      lg_requested = 0, lg_emitted = [], lg_calls = []\<rparr>"

text \<open>
  \<open>log(record, error)\<close> at time \<open>now\<close>, with \<open>stamp\<close> the wall clock. \<open>on_error\<close> is the answer of
  \<open>observability.onError\<close>, if it is configured, and \<open>logger\<close> the one of the logger.
\<close>

definition write_log ::
  "int \<Rightarrow> int \<Rightarrow> log_record \<Rightarrow> thrown option \<Rightarrow> callback_answer option \<Rightarrow> callback_answer \<Rightarrow> log_state \<Rightarrow> log_state" where
  "write_log now stamp r error on_error logger s0 =
     (let s = s0\<lparr>lg_requested := lg_requested s0 + 1\<rparr>;
          s1 = (if now - lg_window_at s \<ge> 1000 then s\<lparr>lg_window_at := now, lg_in_window := 0\<rparr> else s)
      in if lg_in_window s1 \<ge> lg_limit s1 \<or> lg_pending s1 \<ge> lg_limit s1 then
           s1\<lparr>lg_suppressed := lg_suppressed s1 + 1\<rparr>
         else
           (let s2 = s1\<lparr>lg_in_window := lg_in_window s1 + 1, lg_emitted := lg_emitted s1 @ [(lg_window_at s1, now)]\<rparr>;
                asked = (case (error, on_error) of (Some e, Some a) \<Rightarrow> [(OnErrorCall e r stamp, a)] | _ \<Rightarrow> []) @
                  [(LoggerCall r stamp, logger)];
                s3 = s2\<lparr>lg_calls := lg_calls s2 @ map fst asked\<rparr>
            in if CallbackPending \<in> snd ` set asked then s3\<lparr>lg_pending := lg_pending s3 + 1\<rparr> else s3))"

definition write_error ::
  "string \<Rightarrow> int \<Rightarrow> int \<Rightarrow> string \<Rightarrow> thrown \<Rightarrow> string option \<Rightarrow> nat option \<Rightarrow> callback_answer option \<Rightarrow> callback_answer
     \<Rightarrow> log_state \<Rightarrow> log_state" where
  "write_error native now stamp event e session stream on_error logger =
     write_log now stamp (error_record native event e session stream) (Some e) on_error logger"

text \<open>All promises of one record have settled.\<close>

definition callbacks_settle :: "log_state \<Rightarrow> log_state" where
  "callbacks_settle s = (if lg_pending s > 0 then s\<lparr>lg_pending := lg_pending s - 1\<rparr> else s)"

datatype log_event =
    WriteLog int int log_record callback_answer
  | WriteError string int int string thrown "string option" "nat option" "callback_answer option" callback_answer
  | CallbacksSettle

fun log_step :: "log_event \<Rightarrow> log_state \<Rightarrow> log_state" where
  "log_step (WriteLog now stamp r logger) s = write_log now stamp r None None logger s"
| "log_step (WriteError native now stamp event e session stream on_error logger) s =
     write_error native now stamp event e session stream on_error logger s"
| "log_step CallbacksSettle s = callbacks_settle s"

fun event_times :: "log_event list \<Rightarrow> int list" where
  "event_times [] = []"
| "event_times (WriteLog now _ _ _ # es) = now # event_times es"
| "event_times (WriteError _ now _ _ _ _ _ _ _ # es) = now # event_times es"
| "event_times (CallbacksSettle # es) = event_times es"

section \<open>Statistics\<close>

record runtime_stats =
  sta_accepted :: int
  sta_rejected :: int
  sta_rejections :: "(string \<times> int) list"
  sta_dropped :: int
  sta_drops :: "(string \<times> int) list"
  sta_queued_bytes :: int
  sta_active :: int
  sta_outstanding :: int
  sta_rejected_handlers :: int
  sta_suppressed :: int

definition get_stats :: "runtime \<Rightarrow> log_state \<Rightarrow> runtime_stats" where
  "get_stats s l =
     \<lparr>sta_accepted = rt_accepted s, sta_rejected = rt_rejected s, sta_rejections = rt_rejections s,
      sta_dropped = rt_dropped s, sta_drops = rt_drops s, sta_queued_bytes = rt_queued_bytes s,
      sta_active = hb_running (rt_budget s), sta_outstanding = hb_reserved (rt_budget s),
      sta_rejected_handlers = rt_rejected_handlers s, sta_suppressed = lg_suppressed l\<rparr>"

definition runtime_snapshot :: "runtime \<Rightarrow> lifecycle_snapshot" where
  "runtime_snapshot s = snapshot (rt_state s)"

definition active_sessions :: "runtime \<Rightarrow> nat" where
  "active_sessions s = length (rt_sessions s)"

section \<open>The bounds\<close>

text \<open>
  Emitted records carry the window they were counted in. Windows start at least a second apart, and
  no window counts more than the limit.
\<close>

definition in_window :: "int \<Rightarrow> (int \<times> int) list \<Rightarrow> int" where
  "in_window w es = int (length (filter (\<lambda>e. fst e = w) es))"

definition log_inv :: "log_state \<Rightarrow> bool" where
  "log_inv s \<longleftrightarrow>
     lg_requested s = int (length (lg_emitted s)) + lg_suppressed s \<and>
     0 \<le> lg_pending s \<and> lg_pending s \<le> max 0 (lg_limit s) \<and>
     lg_in_window s = in_window (lg_window_at s) (lg_emitted s) \<and>
     (\<forall>w. in_window w (lg_emitted s) \<le> max 0 (lg_limit s)) \<and>
     (\<forall>(w, t) \<in> set (lg_emitted s). w \<le> t \<and> t < w + 1000) \<and>
     (\<forall>(w, t) \<in> set (lg_emitted s). w = lg_window_at s \<or> w + 1000 \<le> lg_window_at s) \<and>
     (\<forall>(w, t) \<in> set (lg_emitted s). \<forall>(w', t') \<in> set (lg_emitted s). w = w' \<or> w + 1000 \<le> w' \<or> w' + 1000 \<le> w)"

lemma write_log_inv:
  assumes i: "log_inv s" and now: "lg_window_at s \<le> now"
  shows "log_inv (write_log now stamp r error on_error logger s)"
    and "lg_window_at (write_log now stamp r error on_error logger s) \<le> now"
proof -
  let ?w = "if now - lg_window_at s \<ge> 1000 then now else lg_window_at s"
  let ?n = "if now - lg_window_at s \<ge> 1000 then 0 else lg_in_window s"
  define s1 where "s1 = s\<lparr>lg_requested := lg_requested s + 1, lg_window_at := ?w, lg_in_window := ?n\<rparr>"
  have w: "?w \<le> now" "now < ?w + 1000" using now by auto
  have apart: "\<forall>(v, t) \<in> set (lg_emitted s). v = ?w \<or> v + 1000 \<le> ?w"
    using i by (fastforce simp: log_inv_def)
  have n: "?n = in_window ?w (lg_emitted s)"
  proof (cases "now - lg_window_at s \<ge> 1000")
    case True
    have "(now, t) \<notin> set (lg_emitted s)" for t
      using i True by (fastforce simp: log_inv_def)
    with True show ?thesis by (auto simp: in_window_def filter_empty_conv)
  qed (use i in \<open>simp add: log_inv_def\<close>)
  have eq: "write_log now stamp r error on_error logger s =
      (if ?n \<ge> lg_limit s \<or> lg_pending s \<ge> lg_limit s then s1\<lparr>lg_suppressed := lg_suppressed s + 1\<rparr>
       else let asked = (case (error, on_error) of (Some e, Some a) \<Rightarrow> [(OnErrorCall e r stamp, a)] | _ \<Rightarrow> []) @
                  [(LoggerCall r stamp, logger)]
            in s1\<lparr>lg_in_window := ?n + 1, lg_emitted := lg_emitted s @ [(?w, now)],
               lg_calls := lg_calls s @ map fst asked,
               lg_pending := lg_pending s + (if CallbackPending \<in> snd ` set asked then 1 else 0)\<rparr>)"
    by (cases s) (simp add: write_log_def s1_def Let_def)
  show "lg_window_at (write_log now stamp r error on_error logger s) \<le> now"
    unfolding eq using w by (simp add: s1_def Let_def)
  have acc: "lg_requested s = int (length (lg_emitted s)) + lg_suppressed s" "0 \<le> lg_pending s"
    "lg_pending s \<le> max 0 (lg_limit s)" "\<And>v. in_window v (lg_emitted s) \<le> max 0 (lg_limit s)"
    using i by (auto simp: log_inv_def)
  have sep: "\<forall>(v, t) \<in> set (lg_emitted s). v \<le> t \<and> t < v + 1000"
    "\<forall>(v, t) \<in> set (lg_emitted s). \<forall>(v', t') \<in> set (lg_emitted s). v = v' \<or> v + 1000 \<le> v' \<or> v' + 1000 \<le> v"
    using i by (simp_all add: log_inv_def)
  show "log_inv (write_log now stamp r error on_error logger s)"
  proof (cases "?n \<ge> lg_limit s \<or> lg_pending s \<ge> lg_limit s")
    case True
    have "log_inv (s1\<lparr>lg_suppressed := lg_suppressed s + 1\<rparr>)"
      using acc sep n apart unfolding log_inv_def by (simp add: s1_def)
    then show ?thesis unfolding eq using True by simp
  next
    case False
    let ?es = "lg_emitted s @ [(?w, now)]"
    have iw: "in_window v ?es = in_window v (lg_emitted s) + (if v = ?w then 1 else 0)" for v
      by (simp add: in_window_def)
    have "\<forall>(v, t) \<in> set ?es. v \<le> t \<and> t < v + 1000" using sep(1) w by auto
    moreover have "\<forall>(v, t) \<in> set ?es. v = ?w \<or> v + 1000 \<le> ?w" using apart by simp
    moreover have "\<forall>(v, t) \<in> set ?es. \<forall>(v', t') \<in> set ?es. v = v' \<or> v + 1000 \<le> v' \<or> v' + 1000 \<le> v"
      using sep(2) apart by fastforce
    moreover have "in_window v ?es \<le> max 0 (lg_limit s)" for v
      using acc(4) [of v] n False iw [of v] by (auto simp: max_def)
    ultimately show ?thesis
      unfolding eq using False acc(1-3) n iw [of ?w] by (simp add: log_inv_def s1_def Let_def)
  qed
qed

lemma callbacks_settle_inv: "log_inv s \<Longrightarrow> log_inv (callbacks_settle s)"
  by (auto simp: callbacks_settle_def log_inv_def)

lemma log_limit [simp]: "lg_limit (log_step e s) = lg_limit s"
  by (cases e) (simp_all add: write_error_def write_log_def callbacks_settle_def Let_def)

lemma log_run_inv:
  "log_inv s \<Longrightarrow> lg_window_at s \<le> t0 \<Longrightarrow> sorted (t0 # event_times es) \<Longrightarrow> log_inv (fold log_step es s)"
proof (induction es arbitrary: s t0)
  case (Cons e es)
  show ?case
  proof (cases e)
    case (WriteLog now stamp r logger)
    with Cons.prems have "log_inv (log_step e s)" "lg_window_at (log_step e s) \<le> now"
      by (simp_all add: write_log_inv)
    with Cons.IH [OF this] Cons.prems WriteLog show ?thesis by simp
  next
    case (WriteError native now stamp event x session stream on_error logger)
    with Cons.prems have "log_inv (log_step e s)" "lg_window_at (log_step e s) \<le> now"
      by (simp_all add: write_error_def write_log_inv)
    with Cons.IH [OF this] Cons.prems WriteError show ?thesis by simp
  next
    case CallbacksSettle
    with Cons.prems have "log_inv (log_step e s)" "lg_window_at (log_step e s) \<le> t0"
      by (simp_all add: callbacks_settle_inv) (simp add: callbacks_settle_def)
    with Cons.IH [OF this] Cons.prems CallbacksSettle show ?thesis by simp
  qed
qed simp

lemma fold_log_limit [simp]: "lg_limit (fold log_step es s) = lg_limit s"
  by (induction es arbitrary: s) simp_all

lemma length_filter_either:
  "\<forall>x \<in> set xs. P x \<longrightarrow> Q x \<or> R x \<Longrightarrow> length (filter P xs) \<le> length (filter Q xs) + length (filter R xs)"
  by (induction xs) auto

text \<open>Two windows meet an interval of one second, at most.\<close>

lemma interval_emitted:
  assumes i: "log_inv s"
  shows "int (length (filter (\<lambda>(w, t). a \<le> t \<and> t < a + 1000) (lg_emitted s))) \<le> 2 * max 0 (lg_limit s)"
proof -
  let ?P = "\<lambda>(w, t). a \<le> t \<and> t < a + 1000"
  let ?W = "fst ` set (filter ?P (lg_emitted s))"
  have near: "a - 1000 < w \<and> w < a + 1000" if "w \<in> ?W" for w
    using that i by (fastforce simp: log_inv_def)
  have apart: "w = w' \<or> w + 1000 \<le> w' \<or> w' + 1000 \<le> w" if "w \<in> ?W" "w' \<in> ?W" for w w'
    using that i by (fastforce simp: log_inv_def)
  have "\<exists>w1 w2. ?W \<subseteq> {w1, w2}"
  proof (cases "?W = {}")
    case False
    let ?m = "Min ?W"
    have m: "?m \<in> ?W" "\<And>w. w \<in> ?W \<Longrightarrow> ?m \<le> w" using False by (auto intro: Min_in)
    have one: "w = w'" if "w \<in> ?W" "w' \<in> ?W" "w \<noteq> ?m" "w' \<noteq> ?m" for w w'
      using that apart [OF m(1) that(1)] apart [OF m(1) that(2)] apart [OF that(1,2)] near [OF m(1)]
        near [OF that(1)] near [OF that(2)] m(2) [OF that(1)] m(2) [OF that(2)] by linarith
    show ?thesis
    proof (cases "\<exists>w \<in> ?W. w \<noteq> ?m")
      case True
      then obtain w where "w \<in> ?W" "w \<noteq> ?m" by blast
      with one have "?W \<subseteq> {?m, w}" by blast
      then show ?thesis by blast
    next
      case False
      then have "?W \<subseteq> {?m, ?m}" by blast
      then show ?thesis by blast
    qed
  qed auto
  then obtain w1 w2 where w: "?W \<subseteq> {w1, w2}" by blast
  have "length (filter ?P (lg_emitted s)) \<le>
      length (filter (\<lambda>e. fst e = w1) (lg_emitted s)) + length (filter (\<lambda>e. fst e = w2) (lg_emitted s))"
    by (rule length_filter_either) (use w in force)
  moreover have "in_window v (lg_emitted s) \<le> max 0 (lg_limit s)" for v using i by (simp add: log_inv_def)
  from add_mono [OF this [of w1] this [of w2]]
  have "int (length (filter (\<lambda>e. fst e = w1) (lg_emitted s)) + length (filter (\<lambda>e. fst e = w2) (lg_emitted s)))
      \<le> 2 * max 0 (lg_limit s)" by (simp add: in_window_def)
  ultimately show ?thesis by linarith
qed

lemma new_log_inv: "log_inv (new_log n)"
  by (simp add: log_inv_def new_log_def in_window_def)

text \<open>
  C8. Logging is bounded and loses nothing unnoticed: whatever is logged and however the callbacks of
  the application answer, every record was either handed to the logger or counted as suppressed; at
  most \<open>maxLogsPerSecond\<close> promises of callbacks are outstanding; no window, and so no interval of one
  second twice over, sees more than \<open>maxLogsPerSecond\<close> records.
\<close>

theorem logging_bounded:
  assumes "valid_options n" and "sorted (0 # event_times es)"
  shows "let s = fold log_step es (new_log n) in
     lg_requested s = int (length (lg_emitted s)) + lg_suppressed s \<and>
     0 \<le> lg_pending s \<and> lg_pending s \<le> no_max_logs n \<and>
     int (length (filter (\<lambda>(w, t). w = v) (lg_emitted s))) \<le> no_max_logs n \<and>
     int (length (filter (\<lambda>(w, t). a \<le> t \<and> t < a + 1000) (lg_emitted s))) \<le> 2 * no_max_logs n"
proof -
  let ?s = "fold log_step es (new_log n)"
  have i: "log_inv ?s"
    by (rule log_run_inv [OF new_log_inv _ assms(2)]) (simp add: new_log_def)
  have l: "max 0 (lg_limit ?s) = no_max_logs n" "max 0 (lg_limit (new_log n)) = no_max_logs n"
    using assms(1) by (simp_all add: new_log_def valid_options_def)
  have "(\<lambda>(w, t :: int). w = v) = (\<lambda>e. fst e = v)" by auto
  with i interval_emitted [OF i, of a] show ?thesis
    unfolding l by (simp add: Let_def log_inv_def l in_window_def)
qed

end
