(* ===== verification/Runtime_Streams.thy ===== *)
theory Runtime_Streams
  imports Runtime_Safety Runtime_Logs
begin

text \<open>
  The stream accounts of the runtime: every stream that is tracked is charged to the server and to its
  session until its release closure has run, once, and never longer than its session lives.
\<close>

section \<open>What is charged\<close>

definition open_streams :: "tracked_stream list \<Rightarrow> int" where
  "open_streams ts = int (length (filter (\<lambda>t. \<not> st_released t) ts))"

definition open_of :: "nat \<Rightarrow> stream_kind \<Rightarrow> tracked_stream list \<Rightarrow> int" where
  "open_of i kind ts = int (length (filter (\<lambda>t. \<not> st_released t \<and> st_session t = i \<and> st_kind t = kind) ts))"

definition stream_view :: "managed \<Rightarrow> int \<times> int \<times> bool" where
  "stream_view m = (ms_bidirectional m, ms_unidirectional m, ms_session_aborted m)"

definition stream_part where
  "stream_part s = (map stream_view (rt_managed s), rt_streams s, rt_active_streams s, rt_options s)"

text \<open>
  The accounts, as a relation on the part of the state they depend on. A session whose signal has been
  aborted has no stream left, except, for the sessions in \<open>X\<close>, while its abort is being handled.
\<close>

definition streams_ok :: "nat set \<Rightarrow> normalized_options \<Rightarrow> tracked_stream list \<Rightarrow> int \<Rightarrow> (int \<times> int \<times> bool) list \<Rightarrow> bool" where
  "streams_ok X n ts active vs \<longleftrightarrow>
     active = open_streams ts \<and> active \<le> max 0 (no_max_streams n) \<and>
     (\<forall>t \<in> set ts. st_session t < length vs) \<and>
     (\<forall>i < length vs.
        fst (vs ! i) = open_of i Bidirectional ts \<and> fst (snd (vs ! i)) = open_of i Unidirectional ts \<and>
        fst (vs ! i) \<le> max 0 (no_bidirectional n) \<and> fst (snd (vs ! i)) \<le> max 0 (no_unidirectional n) \<and>
        (i \<notin> X \<longrightarrow> snd (snd (vs ! i)) \<longrightarrow> fst (vs ! i) = 0 \<and> fst (snd (vs ! i)) = 0))"

definition streams_but :: "nat set \<Rightarrow> runtime \<Rightarrow> bool" where
  "streams_but X s \<longleftrightarrow>
     streams_ok X (rt_options s) (rt_streams s) (rt_active_streams s) (map stream_view (rt_managed s))"

interpretation streams: runtime_frame stream_part stream_view
proof unfold_locales
  fix h :: "managed \<Rightarrow> managed" and i s
  assume h: "stream_view (h (session_at i s)) = stream_view (session_at i s)"
  have "map stream_view ((rt_managed s)[i := h (session_at i s)]) = map stream_view (rt_managed s)"
    by (metis h list_update_id map_update session_at_def)
  then show "stream_part (update_session i h s) = stream_part s"
    by (simp add: stream_part_def update_session_def)
qed (simp_all add: stream_part_def stream_view_def record_rejection_def record_datagram_drop_def emit_def)

abbreviation streams_counted :: "runtime \<Rightarrow> bool" where
  "streams_counted \<equiv> streams_but {}"

lemma streams_but_part:
  "streams_but X s = (case stream_part s of (vs, ts, active, n) \<Rightarrow> streams_ok X n ts active vs)"
  by (simp add: streams_but_def stream_part_def)

lemma streams_cong: "stream_part s' = stream_part s \<Longrightarrow> streams_but X s' = streams_but X s"
  by (simp add: streams_but_part)

section \<open>Counting\<close>

lemma open_append:
  "open_streams (ts @ [t]) = open_streams ts + (if st_released t then 0 else 1)"
  "open_of i kind (ts @ [t]) =
     open_of i kind ts + (if \<not> st_released t \<and> st_session t = i \<and> st_kind t = kind then 1 else 0)"
  by (simp_all add: open_streams_def open_of_def)

lemma open_release:
  assumes "k < length ts" "\<not> st_released (ts ! k)"
  shows "open_streams (ts[k := (ts ! k)\<lparr>st_released := True\<rparr>]) = open_streams ts - 1"
    and "open_of i kind (ts[k := (ts ! k)\<lparr>st_released := True\<rparr>]) =
      open_of i kind ts - (if st_session (ts ! k) = i \<and> st_kind (ts ! k) = kind then 1 else 0)"
proof -
  let ?v = "(ts ! k)\<lparr>st_released := True\<rparr>"
  have drop: "Suc (length (filter P (ts[k := ?v]))) = length (filter P ts)" if "P (ts ! k)" "\<not> P ?v" for P
    by (rule length_filter_update) (use assms that in simp_all)
  show "open_streams (ts[k := ?v]) = open_streams ts - 1"
    using drop [of "\<lambda>t. \<not> st_released t"] assms by (simp add: open_streams_def)
  show "open_of i kind (ts[k := ?v]) = open_of i kind ts - (if st_session (ts ! k) = i \<and> st_kind (ts ! k) = kind then 1 else 0)"
  proof (cases "st_session (ts ! k) = i \<and> st_kind (ts ! k) = kind")
    case True
    then show ?thesis
      using drop [of "\<lambda>t. \<not> st_released t \<and> st_session t = i \<and> st_kind t = kind"] assms by (simp add: open_of_def)
  next
    case False
    let ?P = "\<lambda>t. \<not> st_released t \<and> st_session t = i \<and> st_kind t = kind"
    from False have n: "\<not> ?P (ts ! k)" "\<not> ?P ?v" by auto
    have "filter ?P (ts[k := ?v]) = filter ?P ts" by (rule filter_update_other [OF assms(1) n])
    with False show ?thesis by (simp add: open_of_def)
  qed
qed

section \<open>Tracking and releasing\<close>

lemma streams_ok_nth:
  "streams_ok X n ts active vs \<Longrightarrow> i < length vs \<Longrightarrow>
     fst (vs ! i) = open_of i Bidirectional ts \<and> fst (snd (vs ! i)) = open_of i Unidirectional ts"
  by (simp add: streams_ok_def)

definition charge_view :: "stream_kind \<Rightarrow> int \<Rightarrow> int \<times> int \<times> bool \<Rightarrow> int \<times> int \<times> bool" where
  "charge_view kind d v =
     (case kind of Bidirectional \<Rightarrow> (fst v + d, snd v) | Unidirectional \<Rightarrow> (fst v, fst (snd v) + d, snd (snd v)))"

lemma add_streams_charge: "stream_view (add_streams kind d m) = charge_view kind d (stream_view m)"
  by (cases kind) (simp_all add: stream_view_def add_streams_def charge_view_def)

lemma streams_ok_track:
  assumes ok: "streams_ok X n ts active vs" and i: "i < length vs" "\<not> snd (snd (vs ! i))"
    and room: "active < no_max_streams n"
      "kind = Bidirectional \<Longrightarrow> fst (vs ! i) < no_bidirectional n"
      "kind = Unidirectional \<Longrightarrow> fst (snd (vs ! i)) < no_unidirectional n"
  shows "streams_ok X n (ts @ [\<lparr>st_session = i, st_kind = kind, st_released = False\<rparr>]) (active + 1)
    (vs[i := charge_view kind 1 (vs ! i)])"
  using ok i room
  by (cases kind) (auto simp: streams_ok_def open_append charge_view_def nth_list_update)

lemma streams_ok_release:
  assumes ok: "streams_ok X n ts active vs" and k: "k < length ts" "\<not> st_released (ts ! k)"
  shows "streams_ok X n (ts[k := (ts ! k)\<lparr>st_released := True\<rparr>]) (active - 1)
    (vs[st_session (ts ! k) := charge_view (st_kind (ts ! k)) (-1) (vs ! st_session (ts ! k))])"
proof -
  let ?i = "st_session (ts ! k)" and ?kind = "st_kind (ts ! k)"
  have i: "?i < length vs" using ok k(1) by (simp add: streams_ok_def)
  have pos: "1 \<le> open_of ?i ?kind ts" "1 \<le> open_streams ts"
    using filter_pos_of_nth [of k ts "\<lambda>t. \<not> st_released t \<and> st_session t = ?i \<and> st_kind t = ?kind"]
      filter_pos_of_nth [of k ts "\<lambda>t. \<not> st_released t"] k
    by (simp_all add: open_of_def open_streams_def Suc_le_eq)
  have ses: "\<forall>t \<in> set (ts[k := (ts ! k)\<lparr>st_released := True\<rparr>]). st_session t < length vs"
    using ok i by (auto simp: streams_ok_def dest!: set_update_subset_insert [THEN subsetD])
  show ?thesis
    using ok pos ses i k
    by (cases ?kind) (auto simp: streams_ok_def open_release charge_view_def nth_list_update)
qed

section \<open>Every event keeps the accounts\<close>

definition charge :: "nat \<Rightarrow> stream_kind \<Rightarrow> int \<Rightarrow> tracked_stream list \<Rightarrow> runtime \<Rightarrow> runtime" where
  "charge i kind d ts s =
     update_session i (add_streams kind d) (s\<lparr>rt_streams := ts, rt_active_streams := rt_active_streams s + d\<rparr>)"

lemma charge_active_first:
  "charge i kind d ts s =
     update_session i (add_streams kind d) (s\<lparr>rt_active_streams := rt_active_streams s + d, rt_streams := ts\<rparr>)"
  by (cases s) (simp add: charge_def)

lemma charge_streams:
  "streams_but X (charge i kind d ts s) \<longleftrightarrow>
     streams_ok X (rt_options s) ts (rt_active_streams s + d)
       ((map stream_view (rt_managed s))[i := charge_view kind d (stream_view (session_at i s))])"
  by (simp add: charge_def streams_but_def update_session_def session_at_def map_update add_streams_charge)

lemma charge_fields [simp]:
  "rt_streams (charge i kind d ts s) = ts" "length (rt_managed (charge i kind d ts s)) = length (rt_managed s)"
  by (simp_all add: charge_def update_session_def)

lemma release_part:
  assumes "k < length (rt_streams s)" "\<not> st_released (rt_streams s ! k)"
  shows "stream_part (release_stream now k s) =
    stream_part (charge (st_session (rt_streams s ! k)) (st_kind (rt_streams s ! k)) (-1)
      ((rt_streams s)[k := (rt_streams s ! k)\<lparr>st_released := True\<rparr>]) s)"
proof -
  let ?c = "charge (st_session (rt_streams s ! k)) (st_kind (rt_streams s ! k)) (-1)
      ((rt_streams s)[k := (rt_streams s ! k)\<lparr>st_released := True\<rparr>]) s"
  have "update_session (st_session (rt_streams s ! k)) (add_streams (st_kind (rt_streams s ! k)) (-1))
      (s\<lparr>rt_streams := (rt_streams s)[k := (rt_streams s ! k)\<lparr>st_released := True\<rparr>],
         rt_active_streams := rt_active_streams s - 1\<rparr>) = ?c"
    by (simp add: charge_def)
  then show ?thesis
    using assms by (simp add: release_stream_def Let_def streams.part_session)
qed

lemma release_streams:
  assumes ok: "streams_but X s"
  shows "streams_but X (release_stream now k s)"
    and "length (rt_streams (release_stream now k s)) = length (rt_streams s)"
    and "map st_session (rt_streams (release_stream now k s)) = map st_session (rt_streams s)"
    and "st_released (rt_streams s ! j) \<Longrightarrow> st_released (rt_streams (release_stream now k s) ! j)"
    and "k < length (rt_streams s) \<Longrightarrow> st_released (rt_streams (release_stream now k s) ! k)"
proof -
  let ?s = "release_stream now k s"
  have "streams_but X ?s \<and> length (rt_streams ?s) = length (rt_streams s) \<and>
      map st_session (rt_streams ?s) = map st_session (rt_streams s) \<and>
      (st_released (rt_streams s ! j) \<longrightarrow> st_released (rt_streams ?s ! j)) \<and>
      (k < length (rt_streams s) \<longrightarrow> st_released (rt_streams ?s ! k))"
  proof (cases "k < length (rt_streams s) \<and> \<not> st_released (rt_streams s ! k)")
    case True
    let ?t = "rt_streams s ! k"
    let ?ts = "(rt_streams s)[k := ?t\<lparr>st_released := True\<rparr>]"
    let ?c = "charge (st_session ?t) (st_kind ?t) (-1) ?ts s"
    have p: "stream_part ?s = stream_part ?c" using release_part True by simp
    have "st_session ?t < length (rt_managed s)"
      using ok True by (simp add: streams_but_def streams_ok_def)
    then have "map stream_view (rt_managed s) ! st_session ?t = stream_view (session_at (st_session ?t) s)"
      by (simp add: session_at_def)
    with streams_ok_release [OF ok [unfolded streams_but_def], where k = k] True have "streams_but X ?c"
      unfolding charge_streams by (simp del: nth_map)
    moreover have "rt_streams ?s = ?ts" using p by (simp add: stream_part_def)
    moreover have "map st_session ?ts = map st_session (rt_streams s)"
      using True by (simp add: map_update) (metis list_update_id nth_map map_update)
    ultimately show ?thesis
      using True streams_cong [OF p] by (simp add: nth_list_update)
  next
    case False
    with ok show ?thesis by (auto simp: release_stream_def Let_def)
  qed
  then show "streams_but X ?s" "length (rt_streams ?s) = length (rt_streams s)"
    "map st_session (rt_streams ?s) = map st_session (rt_streams s)"
    "st_released (rt_streams s ! j) \<Longrightarrow> st_released (rt_streams ?s ! j)"
    "k < length (rt_streams s) \<Longrightarrow> st_released (rt_streams ?s ! k)" by simp_all
qed

lemma release_all_streams:
  assumes "streams_but X s"
  shows "streams_but X (fold (release_stream now) ks s) \<and>
    length (rt_streams (fold (release_stream now) ks s)) = length (rt_streams s) \<and>
    map st_session (rt_streams (fold (release_stream now) ks s)) = map st_session (rt_streams s) \<and>
    (\<forall>j < length (rt_streams s). j \<in> set ks \<or> st_released (rt_streams s ! j) \<longrightarrow>
       st_released (rt_streams (fold (release_stream now) ks s) ! j))"
  using assms
proof (induction ks arbitrary: s)
  case (Cons k ks)
  note r = release_streams [OF Cons.prems, where now = now and k = k]
  from Cons.IH [OF r(1)] r show ?case by (auto simp: r(2,3))
qed simp

lemma open_of_none: "(\<And>j. j < length ts \<Longrightarrow> st_session (ts ! j) = i \<Longrightarrow> st_released (ts ! j)) \<Longrightarrow> open_of i kind ts = 0"
  by (auto simp: open_of_def filter_empty_conv in_set_conv_nth)

lemma streams_ok_abort:
  "streams_ok X n ts a vs \<Longrightarrow> i < length vs \<Longrightarrow>
   streams_ok (insert i X) n ts a (vs[i := (fst (vs ! i), fst (snd (vs ! i)), b)])"
  unfolding streams_ok_def by (auto simp: nth_list_update)

lemma streams_ok_aborted:
  "streams_ok (insert i X) n ts a vs \<Longrightarrow> (\<And>kind. open_of i kind ts = 0) \<Longrightarrow> streams_ok X n ts a vs"
  unfolding streams_ok_def by (metis insert_iff)

lemma session_aborts_streams:
  assumes ok: "streams_counted s" and i: "i < length (rt_managed s)"
  shows "streams_counted (session_aborts now i s)"
proof -
  let ?s0 = "update_session i (\<lambda>m. m\<lparr>ms_session_aborted := True\<rparr>) s"
  let ?s1 = "finalize_session i ?s0"
  let ?ks = "session_stream_handles i s"
  let ?s2 = "fold (release_stream now) ?ks ?s1"
  have l: "rt_streams ?s0 = rt_streams s" by (simp add: update_session_def)
  have v: "map stream_view (rt_managed ?s0) =
      (map stream_view (rt_managed s))[i := (fst (map stream_view (rt_managed s) ! i), fst (snd (map stream_view (rt_managed s) ! i)), True)]"
    using i by (simp add: update_session_def session_at_def map_update stream_view_def)
  have "streams_but {i} ?s0"
    using streams_ok_abort [OF ok [unfolded streams_but_def]] i
    unfolding streams_but_def v by (simp add: update_session_def)
  then have s1: "streams_but {i} ?s1" by (simp add: streams_but_part)
  have st1: "rt_streams ?s1 = rt_streams s"
    using streams.part_finalize [of i ?s0] by (simp add: stream_part_def l)
  note a = release_all_streams [OF s1, where now = now and ks = ?ks, unfolded st1]
  have se: "st_session (rt_streams ?s2 ! j) = st_session (rt_streams s ! j)" if "j < length (rt_streams s)" for j
    using that a [THEN conjunct2, THEN conjunct1] a [THEN conjunct2, THEN conjunct2, THEN conjunct1] by (metis nth_map)
  have "open_of i kind (rt_streams ?s2) = 0" for kind
    by (rule open_of_none) (use a se in \<open>auto simp: session_stream_handles_def\<close>)
  with a have "streams_counted ?s2"
    unfolding streams_but_def by (blast intro: streams_ok_aborted)
  then show ?thesis by (simp add: session_aborts_def Let_def)
qed

lemma track_streams:
  assumes ok: "streams_counted s" and i: "i < length (rt_managed s)" "\<not> ms_session_aborted (session_at i s)"
    and room: "rt_active_streams s < no_max_streams (rt_options s)"
      "session_streams kind (session_at i s) < stream_limit kind (rt_options s)"
  shows "streams_counted (track_stream now i kind aborted s)"
proof -
  let ?t = "\<lparr>st_session = i, st_kind = kind, st_released = False\<rparr>"
  let ?c = "charge i kind 1 (rt_streams s @ [?t]) s"
  have v: "map stream_view (rt_managed s) ! i = stream_view (session_at i s)"
    using i by (simp add: session_at_def)
  have "streams_counted ?c"
    unfolding charge_streams v [symmetric]
    by (rule streams_ok_track)
      (use ok i room v in \<open>auto simp: streams_but_def stream_view_def session_streams_def stream_limit_def\<close>)
  moreover have "track_stream now i kind aborted s =
      (if aborted \<or> ms_session_aborted (session_at i ?c) then release_stream now (length (rt_streams s)) ?c else ?c)"
    by (simp add: track_stream_def charge_active_first Let_def)
  ultimately show ?thesis by (simp add: release_streams(1))
qed

lemma pump_stream_streams:
  assumes ok: "streams_counted s" and i: "i < length (rt_managed s)"
  shows "streams_counted (pump_stream now i kind aborted s)"
proof -
  let ?s1 = "touch now i s"
  have s1: "streams_counted ?s1" using ok by (simp add: streams_but_part)
  have a: "ms_session_aborted (session_at i ?s1) = ms_session_aborted (session_at i s)"
    "length (rt_managed ?s1) = length (rt_managed s)"
    using i by (simp_all add: touch_def Let_def update_session_def session_at_def)
  show ?thesis
    using ok s1 track_streams [OF s1, of i kind now aborted] a i
    by (simp add: pump_stream_def Let_def prod.case_eq_if streams_but_part not_le)
qed

lemma streams_ok_register:
  "streams_ok X n ts a vs \<Longrightarrow> streams_ok X n ts a (vs @ [(0, 0, b)])"
proof -
  assume ok: "streams_ok X n ts a vs"
  have "open_of (length vs) kind ts = 0" for kind
    by (rule open_of_none) (use ok nth_mem in \<open>fastforce simp: streams_ok_def\<close>)
  with ok show ?thesis unfolding streams_ok_def by (auto simp: nth_append less_Suc_eq)
qed

lemma accept_session_streams:
  assumes ok: "streams_counted s"
  shows "streams_counted (accept_session pu url dr locked now info aborted s)"
proof (cases rule: accept_session_cases [of pu url dr locked now info aborted s])
  case (admitted m1 ip b h readers)
  let ?m = "accepted_managed s info ip readers now aborted"
  let ?s3 = "register_session info ?m (s\<lparr>rt_ip := m1, rt_budget := b\<rparr>)"
  have "stream_view ?m = (0, 0, aborted)"
    by (simp add: stream_view_def accepted_managed_def new_managed_def)
  with streams_ok_register [OF ok [unfolded streams_but_def]] have "streams_counted ?s3"
    by (simp add: streams_but_def register_session_def Let_def)
  moreover have "hb_concurrency (hb_release h b) = hb_concurrency (rt_budget ?s3)"
    "hb_pending (hb_release h b) = hb_pending (rt_budget ?s3)"
    by (simp_all add: register_session_def Let_def)
  ultimately show ?thesis
    using admitted(6) by (cases aborted) (simp_all add: Let_def streams_but_part)
next
  case (reader m1 ip b h)
  then show ?thesis
    using ok budget_caps(3,4) [of "rt_budget s"] by (simp add: streams_but_part)
qed (use ok in \<open>auto simp: streams_but_part\<close>)

lemma runtime_step_streams:
  assumes ok: "streams_counted s"
  shows "streams_counted (runtime_step pu url e s)"
proof (cases e)
  case (StreamArrives now i kind aborted)
  with ok show ?thesis
    by (cases kind) (simp_all add: at_session_def pump_bidirectional_streams_def pump_unidirectional_streams_def
        pump_stream_streams)
next
  case (StreamAborts now k)
  with ok show ?thesis by (simp add: stream_aborts_def release_streams)
next
  case (SessionAborts now i)
  with ok show ?thesis by (simp add: at_session_def session_aborts_streams)
next
  case (SessionArrives dr locked now info aborted)
  with ok show ?thesis by (simp add: accept_session_streams)
qed (use ok in \<open>simp_all add: streams_but_part streams.part_step del: runtime_step.simps\<close>)

interpretation runtime_streams: event_system "runtime_step pu url" streams_counted for pu url
  by unfold_locales (rule runtime_step_streams)

lemma new_runtime_streams: "streams_counted (new_runtime n g)"
  by (simp add: streams_but_def streams_ok_def new_runtime_def open_streams_def)

section \<open>The properties\<close>

text \<open>
  C5. Streams: in every reachable state the server-wide number of active streams is the number of
  tracked streams that have not been released and is at most \<open>maxStreams\<close>; every session is charged
  for exactly its own open streams of each kind, within its limits; and a session whose signal has
  been aborted has none left.
\<close>

theorem runtime_streams_are_counted:
  assumes "normalize_options pu o' = Inr n"
  shows "let s = runtime_run pu' url es (new_runtime n g) in
     rt_active_streams s = open_streams (rt_streams s) \<and> rt_active_streams s \<le> no_max_streams n \<and>
     (\<forall>i < length (rt_managed s).
        ms_bidirectional (session_at i s) = open_of i Bidirectional (rt_streams s) \<and>
        ms_unidirectional (session_at i s) = open_of i Unidirectional (rt_streams s) \<and>
        ms_bidirectional (session_at i s) \<le> no_bidirectional n \<and>
        ms_unidirectional (session_at i s) \<le> no_unidirectional n \<and>
        (ms_session_aborted (session_at i s) \<longrightarrow>
           ms_bidirectional (session_at i s) = 0 \<and> ms_unidirectional (session_at i s) = 0))"
proof -
  let ?s = "runtime_run pu' url es (new_runtime n g)"
  have "streams_counted ?s"
    unfolding runtime_run_def by (rule runtime_streams.run_inv [OF new_runtime_streams])
  moreover have "rt_options ?s = n" by (simp add: new_runtime_def)
  moreover have "1 \<le> no_max_streams n" "1 \<le> no_bidirectional n" "1 \<le> no_unidirectional n"
    using normalize_valid [OF assms] by (simp_all add: valid_options_def)
  ultimately show ?thesis
    by (auto simp: Let_def streams_but_def streams_ok_def stream_view_def session_at_def)
qed

definition stream_events :: "runtime_event list" where
  "stream_events =
     take 6 example_events @
       [StreamPumpResumes 0 Bidirectional, StreamArrives 6 0 Bidirectional False,
        StreamPumpContinues 0 Bidirectional, StreamPumpResumes 0 Bidirectional,
        StreamArrives 7 0 Bidirectional False, StreamAborts 8 0]"

definition stream_registry :: gateway_registry where
  "stream_registry = register_all Some
     [\<lparr>ch_path = ''/chat'', ch_kind = BidirectionalKind, ch_route = None, ch_method = ''onStream'',
       ch_parameters = [], ch_id = 0\<rparr>]"

lemma stream_run_facts:
  "rt_active_streams (runtime_run example_parser Some stream_events (new_runtime example_normal stream_registry)) = 1"
  by code_simp

theorem runtime_streams_are_counted_witness:
  "let s = runtime_run example_parser Some stream_events (new_runtime example_normal stream_registry) in
     open_streams (rt_streams s) = 1 \<and> 1 \<le> no_max_streams example_normal"
  using runtime_streams_are_counted [OF example_accepted, of example_parser Some stream_events stream_registry]
    stream_run_facts by (simp add: Let_def)

text \<open>
  Counters: in every reachable state the number of rejected sessions is the sum of the rejections
  counted under each reason, and the number of dropped datagrams the sum of the drops: nothing is
  counted without its reason, or twice.
\<close>

theorem runtime_counters_balance:
  "let s = runtime_run pu url es (new_runtime n g) in
     rt_rejected s = count_total (rt_rejections s) \<and> rt_dropped s = count_total (rt_drops s)"
  using balance.part_run [of pu url es "new_runtime n g"]
  by (simp add: Let_def balance_def) (simp add: new_runtime_def count_total_def)

section \<open>An example of logging\<close>

text \<open>A logger that returns a promise, then one that throws.\<close>

definition example_logging :: "log_event list" where
  "example_logging =
     [WriteLog 10 5000 \<lparr>le_level = InfoLevel, le_event = ''server.started'', le_session = None, le_stream = None,
        le_code = None, le_error_name = None\<rparr> CallbackPending,
      WriteError ''NativeError'' 1500 6500 ''handler.error'' NonError (Some ''s1'') None (Some CallbackReturns) CallbackThrows]"

lemma example_logged:
  "map snd (lg_emitted (fold log_step example_logging (new_log example_normal))) = [10, 1500] \<and>
   lg_pending (fold log_step example_logging (new_log example_normal)) = 1"
  by code_simp

theorem logging_bounded_witness:
  "let s = fold log_step example_logging (new_log example_normal) in
     map snd (lg_emitted s) = [10, 1500] \<and> lg_requested s = 2 + lg_suppressed s \<and> 1 \<le> no_max_logs example_normal"
proof -
  have "length (lg_emitted (fold log_step example_logging (new_log example_normal))) = 2"
    using example_logged by (metis length_map length_Cons list.size(3) numeral_2_eq_2)
  then show ?thesis
    using logging_bounded [OF normalize_valid [OF example_accepted], of example_logging] example_logged
    by (simp add: Let_def example_logging_def)
qed

end
