(* ===== verification/Enhancer_Lookup.thy ===== *)
theory Enhancer_Lookup
  imports Errors
begin

text \<open>
  How the pipeline finds the module that provides an enhancer (\<open>findVisibleProviderHost\<close> in
  \<open>packages/nest-webtransport/src/execution/execution-pipeline.ts\<close>): a depth-first search through the
  modules that a module imports and the modules that those re-export, with one visited set for the
  whole search. The search ends on every module graph, cyclic ones included, and finds a module
  exactly when one is visible.
\<close>

type_synonym token = nat
type_synonym module_ref = nat

text \<open>
  What the search reads of a module of the framework's container. Modules refer to each other by their
  position in the container; \<open>nm_metatype\<close> is the class that stands for a module in an export list.
\<close>

record nest_module =
  nm_metatype :: token
  nm_providers :: "token list"
  nm_injectables :: "token list"
  nm_exports :: "token list"
  nm_imports :: "nat list"
  nm_module_ref :: "module_ref option"

type_synonym container = "nest_module list"

definition exports_provider :: "container \<Rightarrow> token \<Rightarrow> nat \<Rightarrow> bool" where
  "exports_provider g t k \<longleftrightarrow> t \<in> set (nm_exports (g ! k)) \<and> t \<in> set (nm_providers (g ! k))"

text \<open>
  \<open>findExported\<close> and its loop over the imports of the candidate. Both return the visited set that they
  leave behind.
\<close>

function find_exported :: "container \<Rightarrow> token \<Rightarrow> nat \<Rightarrow> nat list \<Rightarrow> nat option \<times> nat list"
  and find_reexported :: "container \<Rightarrow> token \<Rightarrow> nat \<Rightarrow> nat list \<Rightarrow> nat list \<Rightarrow> nat option \<times> nat list" where
  "find_exported g t candidate visited =
     (if candidate \<in> set visited \<or> length g \<le> candidate then (None, visited)
      else
        (let visited' = candidate # visited in
         if exports_provider g t candidate then (Some candidate, visited')
         else find_reexported g t candidate (nm_imports (g ! candidate)) visited'))"
| "find_reexported g t candidate [] visited = (None, visited)"
| "find_reexported g t candidate (imported # rest) visited =
     (if nm_metatype (g ! imported) \<notin> set (nm_exports (g ! candidate)) then
        find_reexported g t candidate rest visited
      else
        (case find_exported g t imported visited of
           (Some found, visited') \<Rightarrow> (Some found, visited')
         | (None, visited') \<Rightarrow> find_reexported g t candidate rest visited'))"
  by pat_completeness auto

text \<open>The visited set only grows, wherever the search is defined; this is what makes it end.\<close>

lemma visited_grows:
  "find_exported_find_reexported_dom (Inl (g, t, c, vs)) \<Longrightarrow> set vs \<subseteq> set (snd (find_exported g t c vs))"
  "find_exported_find_reexported_dom (Inr (g, t, c, is, vs)) \<Longrightarrow>
   set vs \<subseteq> set (snd (find_reexported g t c is vs))"
proof (induction g t c vs and g t c "is" vs rule: find_exported_find_reexported.pinduct)
  case (1 g t c vs)
  show ?case
    unfolding find_exported.psimps [OF 1(1)] using 1(2) [OF _ refl] by (auto simp: Let_def)
next
  case (2 g t c vs)
  show ?case by (simp add: find_reexported.psimps(1) [OF 2])
next
  case (3 g t c i rest vs)
  obtain r w where e: "find_exported g t i vs = (r, w)" by (cases "find_exported g t i vs")
  show ?case
    unfolding find_reexported.psimps(2) [OF 3(1)] e
    using 3(2) 3(3) 3(4) [of r w] e by (cases r) auto
qed

definition unvisited :: "container \<Rightarrow> nat list \<Rightarrow> nat" where
  "unvisited g vs = card ({..<length g} - set vs)"

lemma unvisited_mono: "set vs \<subseteq> set vs' \<Longrightarrow> unvisited g vs' \<le> unvisited g vs"
  unfolding unvisited_def by (intro card_mono) auto

lemma unvisited_visit: "c \<notin> set vs \<Longrightarrow> c < length g \<Longrightarrow> unvisited g (c # vs) < unvisited g vs"
  unfolding unvisited_def by (intro psubset_card_mono) auto

termination find_exported
proof (relation "measures [\<lambda>x. case x of Inl (g, t, c, vs) \<Rightarrow> unvisited g vs | Inr (g, t, c, is, vs) \<Rightarrow> unvisited g vs,
      \<lambda>x. case x of Inl _ \<Rightarrow> 0 | Inr (g, t, c, is, vs) \<Rightarrow> Suc (length is)]", goal_cases)
  case (5 g t c i rest vs x y)
  have "y = snd (find_exported g t i vs)" using 5(2) by (metis snd_conv)
  with visited_grows(1) [OF 5(4)] have "unvisited g y \<le> unvisited g vs" by (simp add: unvisited_mono)
  then show ?case by (simp add: le_less)
qed (auto simp: unvisited_visit)

declare find_exported.simps [simp del]

text \<open>\<open>findVisibleProviderHost\<close>, with its own loop over the imports of the host.\<close>

fun find_imported :: "container \<Rightarrow> token \<Rightarrow> nat list \<Rightarrow> nat list \<Rightarrow> nat option" where
  "find_imported g t [] visited = None"
| "find_imported g t (imported # rest) visited =
     (case find_exported g t imported visited of
        (Some found, _) \<Rightarrow> Some found
      | (None, visited') \<Rightarrow> find_imported g t rest visited')"

definition find_visible_provider_host :: "container \<Rightarrow> nat \<Rightarrow> token \<Rightarrow> nat option" where
  "find_visible_provider_host g host t =
     (if t \<in> set (nm_providers (g ! host)) \<or> t \<in> set (nm_injectables (g ! host)) then Some host
      else find_imported g t (nm_imports (g ! host)) [])"

section \<open>The specification\<close>

text \<open>A module re-exports a module that it imports and names in its export list.\<close>

definition reexports :: "container \<Rightarrow> nat \<Rightarrow> nat \<Rightarrow> bool" where
  "reexports g c i \<longleftrightarrow>
     c < length g \<and> i \<in> set (nm_imports (g ! c)) \<and> nm_metatype (g ! i) \<in> set (nm_exports (g ! c))"

inductive visible_from :: "container \<Rightarrow> token \<Rightarrow> nat \<Rightarrow> nat \<Rightarrow> bool" for g t where
  here: "c < length g \<Longrightarrow> exports_provider g t c \<Longrightarrow> visible_from g t c c"
| through: "reexports g c i \<Longrightarrow> visible_from g t i m \<Longrightarrow> visible_from g t c m"

inductive_cases visible_fromE: "visible_from g t c m"

definition visible_host :: "container \<Rightarrow> token \<Rightarrow> nat \<Rightarrow> nat \<Rightarrow> bool" where
  "visible_host g t host m \<longleftrightarrow>
     (if t \<in> set (nm_providers (g ! host)) \<or> t \<in> set (nm_injectables (g ! host)) then m = host
      else \<exists>i \<in> set (nm_imports (g ! host)). visible_from g t i m)"

section \<open>What is found is visible\<close>

lemma found_visible:
  "find_exported g t c vs = (Some m, vs') \<Longrightarrow> visible_from g t c m"
  "find_reexported g t c is vs = (Some m, vs') \<Longrightarrow> c < length g \<Longrightarrow> set is \<subseteq> set (nm_imports (g ! c)) \<Longrightarrow>
     \<exists>i \<in> set is. reexports g c i \<and> visible_from g t i m"
proof (induction g t c vs and g t c "is" vs arbitrary: m vs' and m vs' rule: find_exported_find_reexported.induct)
  case (1 g t c vs)
  show ?case
  proof (cases "exports_provider g t c")
    case True
    with 1(2) show ?thesis
      by (auto simp: find_exported.simps [of g t c vs] Let_def intro: visible_from.here split: if_splits)
  next
    case False
    with 1(2) have "find_reexported g t c (nm_imports (g ! c)) (c # vs) = (Some m, vs')" "c < length g"
      and "\<not> (c \<in> set vs \<or> length g \<le> c)"
      by (auto simp: find_exported.simps [of g t c vs] Let_def split: if_splits)
    with 1(1) [OF _ refl False] have "\<exists>i \<in> set (nm_imports (g ! c)). reexports g c i \<and> visible_from g t i m"
      by simp
    then show ?thesis by (auto intro: visible_from.through)
  qed
next
  case (3 g t c i rest vs)
  show ?case
  proof (cases "nm_metatype (g ! i) \<in> set (nm_exports (g ! c))")
    case True
    obtain r w where e: "find_exported g t i vs = (r, w)" by (cases "find_exported g t i vs")
    show ?thesis
    proof (cases r)
      case None
      with 3 True e show ?thesis by auto
    next
      case (Some m')
      with 3 True e have "visible_from g t i m" by auto
      moreover have "reexports g c i" using 3 True by (simp add: reexports_def)
      ultimately show ?thesis by auto
    qed
  next
    case False
    with 3 show ?thesis by auto
  qed
qed simp

section \<open>What is visible is found\<close>

text \<open>
  A search that fails leaves a visited set in which every new module exports nothing of interest and
  has all the modules that it re-exports.
\<close>

definition explored :: "container \<Rightarrow> token \<Rightarrow> nat set \<Rightarrow> nat set \<Rightarrow> bool" where
  "explored g t V V' \<longleftrightarrow>
     V \<subseteq> V' \<and> (\<forall>x \<in> V' - V. \<not> exports_provider g t x \<and> (\<forall>y. reexports g x y \<and> y < length g \<longrightarrow> y \<in> V'))"

lemma exploredD:
  "explored g t V V' \<Longrightarrow> z \<in> V' - V \<Longrightarrow>
   \<not> exports_provider g t z \<and> (\<forall>y. reexports g z y \<and> y < length g \<longrightarrow> y \<in> V')"
  unfolding explored_def by blast

lemma exploredI:
  "V \<subseteq> V' \<Longrightarrow>
   (\<And>z. z \<in> V' - V \<Longrightarrow> \<not> exports_provider g t z \<and> (\<forall>y. reexports g z y \<and> y < length g \<longrightarrow> y \<in> V')) \<Longrightarrow>
   explored g t V V'"
  unfolding explored_def by blast

lemma explored_refl: "explored g t V V"
  by (simp add: explored_def)

lemma explored_trans: "explored g t U V \<Longrightarrow> explored g t V W \<Longrightarrow> explored g t U W"
  unfolding explored_def by blast

lemma failed_explored:
  "find_exported g t c vs = (None, vs') \<Longrightarrow>
     explored g t (set vs) (set vs') \<and> (c < length g \<longrightarrow> c \<in> set vs')"
  "find_reexported g t c is vs = (None, vs') \<Longrightarrow>
     explored g t (set vs) (set vs') \<and>
     (\<forall>i \<in> set is. nm_metatype (g ! i) \<in> set (nm_exports (g ! c)) \<and> i < length g \<longrightarrow> i \<in> set vs')"
proof (induction g t c vs and g t c "is" vs arbitrary: vs' and vs' rule: find_exported_find_reexported.induct)
  case (1 g t c vs)
  show ?case
  proof (cases "c \<in> set vs \<or> length g \<le> c")
    case True
    with 1(2) show ?thesis by (auto simp: find_exported.simps [of g t c vs] explored_refl)
  next
    case False
    with 1(2) have n: "\<not> exports_provider g t c"
      and r: "find_reexported g t c (nm_imports (g ! c)) (c # vs) = (None, vs')"
      by (auto simp: find_exported.simps [of g t c vs] Let_def split: if_splits)
    from 1(1) [OF False refl n r] have x: "explored g t (set (c # vs)) (set vs')"
      and a: "\<forall>i \<in> set (nm_imports (g ! c)). nm_metatype (g ! i) \<in> set (nm_exports (g ! c)) \<and> i < length g \<longrightarrow> i \<in> set vs'"
      by simp_all
    have "\<not> exports_provider g t z \<and> (\<forall>y. reexports g z y \<and> y < length g \<longrightarrow> y \<in> set vs')"
      if "z \<in> set vs' - set vs" for z
    proof (cases "z = c")
      case True
      with a n show ?thesis by (simp add: reexports_def)
    next
      case False
      with that have "z \<in> set vs' - set (c # vs)" by simp
      with x show ?thesis by (rule exploredD)
    qed
    moreover have "set (c # vs) \<subseteq> set vs'" using x unfolding explored_def by (rule conjunct1)
    ultimately show ?thesis by (intro conjI impI exploredI) simp_all
  qed
next
  case (3 g t c i rest vs)
  show ?case
  proof (cases "nm_metatype (g ! i) \<in> set (nm_exports (g ! c))")
    case True
    obtain f w where x: "find_exported g t i vs = (f, w)" by (cases "find_exported g t i vs")
    with 3(4) True have "f = None" and r: "find_reexported g t c rest w = (None, vs')"
      by (cases f; simp)+
    with x have e: "find_exported g t i vs = (None, w)" by simp
    from True 3(2) e have one: "explored g t (set vs) (set w)" "i < length g \<longrightarrow> i \<in> set w" by simp_all
    from 3(3) [OF _ e [symmetric] refl r] True
    have two: "explored g t (set w) (set vs')"
      "\<forall>j \<in> set rest. nm_metatype (g ! j) \<in> set (nm_exports (g ! c)) \<and> j < length g \<longrightarrow> j \<in> set vs'"
      by simp_all
    from two(1) have "set w \<subseteq> set vs'" by (simp add: explored_def)
    with one two show ?thesis by (auto intro: explored_trans)
  next
    case False
    with 3 show ?thesis by auto
  qed
qed (simp add: explored_refl)

lemma imported_failed:
  "find_imported g t is vs = None \<Longrightarrow>
   \<exists>V. explored g t (set vs) V \<and> (\<forall>i \<in> set is. i < length g \<longrightarrow> i \<in> V)"
proof (induction "is" arbitrary: vs)
  case Nil
  then show ?case using explored_refl by auto
next
  case (Cons i rest)
  obtain f w where x: "find_exported g t i vs = (f, w)" by (cases "find_exported g t i vs")
  with Cons.prems have "f = None" and r: "find_imported g t rest w = None" by (cases f; simp)+
  with x have e: "find_exported g t i vs = (None, w)" by simp
  from Cons.IH [OF r] obtain V where V: "explored g t (set w) V" "\<forall>j \<in> set rest. j < length g \<longrightarrow> j \<in> V" by auto
  from failed_explored(1) [OF e] have w: "explored g t (set vs) (set w)" "i < length g \<longrightarrow> i \<in> set w" by simp_all
  moreover from V(1) have "set w \<subseteq> V" by (simp add: explored_def)
  ultimately show ?case using V explored_trans [OF w(1) V(1)] by (intro exI [of _ V]) auto
qed

lemma visible_bounded: "visible_from g t c m \<Longrightarrow> c < length g"
  by (induction rule: visible_from.induct) (auto simp: reexports_def)

lemma explored_hides:
  assumes "explored g t {} V"
  shows "visible_from g t c m \<Longrightarrow> c \<notin> V"
proof (induction rule: visible_from.induct)
  case (here c)
  with assms show ?case by (auto simp: explored_def)
next
  case (through c i m)
  then show ?case using assms visible_bounded [OF through(2)] by (auto simp: explored_def)
qed

lemma imported_found:
  "find_imported g t is vs = Some m \<Longrightarrow> \<exists>i \<in> set is. visible_from g t i m"
proof (induction "is" arbitrary: vs)
  case (Cons i rest)
  obtain f w where x: "find_exported g t i vs = (f, w)" by (cases "find_exported g t i vs")
  show ?case
  proof (cases f)
    case None
    with x Cons show ?thesis by simp
  next
    case (Some m')
    with x Cons.prems found_visible(1) [of g t i vs m' w] show ?thesis by simp
  qed
qed simp

text \<open>
  C18. The search for the module that provides an enhancer is exact, on every module graph: it always
  ends, a module that it returns is the host itself, where the enhancer is registered, or a module that
  exports it and that an import of the host leads to through re-exports, and it returns nothing only
  when there is no such module. Marking a module as visited before its imports are searched loses
  nothing, although one visited set serves the whole search.
\<close>

theorem visible_provider_exact:
  "(case find_visible_provider_host g host t of
      Some m \<Rightarrow> visible_host g t host m
    | None \<Rightarrow> \<forall>m. \<not> visible_host g t host m)"
proof (cases "t \<in> set (nm_providers (g ! host)) \<or> t \<in> set (nm_injectables (g ! host))")
  case True
  then show ?thesis by (auto simp: find_visible_provider_host_def visible_host_def)
next
  case False
  show ?thesis
  proof (cases "find_imported g t (nm_imports (g ! host)) []")
    case None
    from imported_failed [OF this] obtain V where
      V: "explored g t {} V" "\<forall>i \<in> set (nm_imports (g ! host)). i < length g \<longrightarrow> i \<in> V"
      by auto
    have "\<not> visible_from g t i m" if "i \<in> set (nm_imports (g ! host))" for i m
      using explored_hides [OF V(1), of i m] V(2) that visible_bounded by blast
    with None False show ?thesis by (auto simp: find_visible_provider_host_def visible_host_def)
  next
    case (Some m)
    with imported_found [OF this] False show ?thesis by (simp add: find_visible_provider_host_def visible_host_def)
  qed
qed

end
