(* ===== verification/Execution_Pipeline.thy ===== *)
theory Execution_Pipeline
  imports Enhancer_Lookup Gateway_Registry
begin

text \<open>
  The execution pipeline (\<open>packages/nest-webtransport/src/execution/execution-pipeline.ts\<close>): how one
  event is handed to a gateway method through guards, interceptors and pipes, and how what is thrown
  on the way reaches the exception filters. The framework's container and the user's enhancers and
  methods are parameters: computations on a state that they may change in any way. An observable is
  what its subscription ends with.
\<close>

section \<open>Computations\<close>

type_synonym obj = nat

text \<open>\<open>pw_created\<close> is \<open>createdEnhancers\<close> with the settled promises; the rest of the world is \<open>pw_world\<close>.\<close>

record 'w pipe_state =
  pw_world :: 'w
  pw_created :: "((module_ref \<times> token) \<times> (thrown + obj)) list"

type_synonym ('w, 'a) comp = "'w pipe_state \<Rightarrow> (thrown + 'a) \<times> 'w pipe_state"

definition ret :: "'a \<Rightarrow> ('w, 'a) comp" where
  "ret x s = (Inr x, s)"

definition raise_error :: "thrown \<Rightarrow> ('w, 'a) comp" where
  "raise_error e s = (Inl e, s)"

definition bind_comp :: "('w, 'a) comp \<Rightarrow> ('a \<Rightarrow> ('w, 'b) comp) \<Rightarrow> ('w, 'b) comp" where
  "bind_comp c f s = (case c s of (Inl e, s') \<Rightarrow> (Inl e, s') | (Inr x, s') \<Rightarrow> f x s')"

text \<open>
  \<open>Promise.all\<close> of calls that are made in order: every call runs, and the first that fails decides.
\<close>

fun all_settled :: "('w, 'a) comp list \<Rightarrow> ('w, 'a list) comp" where
  "all_settled [] s = (Inr [], s)"
| "all_settled (c # cs) s =
     (let (r, s1) = c s; (rs, s2) = all_settled cs s1
      in (bindE r (\<lambda>x. bindE rs (\<lambda>xs. Inr (x # xs))), s2))"

section \<open>The environment\<close>

datatype enhancer_kind = Guards | Interceptors | Pipes | Filters

datatype enhancer = EnhancerObject obj | EnhancerClass token

text \<open>What \<open>ModuleRef.get\<close> does: an instance, or the exception that it throws.\<close>

datatype get_result = Got obj | ScopedProvider | UnknownElement | GetFails thrown

text \<open>The arguments of a handler and of its pipes; \<open>None\<close> is \<open>undefined\<close>.\<close>

record 'v handler_arguments =
  ha_session :: "'v option"
  ha_stream :: "'v option"
  ha_datagram :: "'v option"
  ha_payload :: "'v option"
  ha_context :: "'v option"

record pipeline_parameter =
  pr_index :: nat
  pr_kind :: parameter_kind
  pr_pipes :: "enhancer list"
  pr_metatype :: "token option"

record pipeline_handler =
  ph_instance :: obj
  ph_metatype :: token
  ph_name :: string
  ph_token :: "token option"
  ph_module :: "module_ref option"
  ph_host :: "nat option"
  ph_method :: string
  ph_arity :: nat
  ph_parameters :: "pipeline_parameter list"
  ph_class_enhancers :: "enhancer_kind \<Rightarrow> enhancer list"
  ph_method_enhancers :: "enhancer_kind \<Rightarrow> enhancer list"

record ('w, 'v) environment =
  ne_container :: container
  ne_module :: module_ref
  ne_get :: "module_ref \<Rightarrow> token \<Rightarrow> bool \<Rightarrow> 'w pipe_state \<Rightarrow> get_result"
  ne_resolve :: "module_ref \<Rightarrow> token \<Rightarrow> nat option \<Rightarrow> bool \<Rightarrow> ('w, obj) comp"
  ne_create :: "module_ref \<Rightarrow> token \<Rightarrow> nat option \<Rightarrow> ('w, obj) comp"
  ne_global :: "enhancer_kind \<Rightarrow> obj list"
  ne_request :: "enhancer_kind \<Rightarrow> (module_ref option \<times> token) list"
  ne_aborted :: "'w pipe_state \<Rightarrow> thrown option"
  ne_callable :: "obj \<Rightarrow> string \<Rightarrow> bool"
  ne_guard :: "obj \<Rightarrow> ('w, bool) comp"
  ne_intercept :: "obj \<Rightarrow> ('w, ('w, 'v option) comp) comp \<Rightarrow> ('w, ('w, 'v option) comp) comp"
  ne_transform :: "obj \<Rightarrow> 'v option \<Rightarrow> parameter_kind \<Rightarrow> token option \<Rightarrow> ('w, 'v option) comp"
  ne_call :: "obj \<Rightarrow> string \<Rightarrow> 'v option list \<Rightarrow> ('w, 'v option) comp"
  ne_caught :: "obj \<Rightarrow> token list"
  ne_instance :: "thrown \<Rightarrow> token \<Rightarrow> bool"
  ne_catch :: "obj \<Rightarrow> thrown \<Rightarrow> ('w, 'v option) comp"
  ne_choose :: "'w pipe_state \<Rightarrow> nat"

definition throw_if_aborted :: "('w, 'v) environment \<Rightarrow> ('w, unit) comp" where
  "throw_if_aborted env s = (case ne_aborted env s of Some reason \<Rightarrow> (Inl reason, s) | None \<Rightarrow> (Inr (), s))"

section \<open>Resolving enhancers\<close>

definition provider_ref :: "('w, 'v) environment \<Rightarrow> nat option \<Rightarrow> token \<Rightarrow> module_ref option" where
  "provider_ref env host t =
     (case host of
        None \<Rightarrow> None
      | Some h \<Rightarrow>
          (case find_visible_provider_host (ne_container env) h t of
             None \<Rightarrow> None | Some m \<Rightarrow> nm_module_ref (ne_container env ! m)))"

fun resolve_enhancer ::
  "('w, 'v) environment \<Rightarrow> nat option \<Rightarrow> module_ref option \<Rightarrow> nat option \<Rightarrow> enhancer \<Rightarrow> ('w, obj) comp" where
  "resolve_enhancer env ctx owner host (EnhancerObject x) s = (Inr x, s)"
| "resolve_enhancer env ctx owner host (EnhancerClass t) s =
     (let m = (case provider_ref env host t of
                 Some p \<Rightarrow> p | None \<Rightarrow> (case owner of Some p \<Rightarrow> p | None \<Rightarrow> ne_module env));
          strict = (owner \<noteq> None)
      in case ne_get env m t strict s of
           Got x \<Rightarrow> (Inr x, s)
         | ScopedProvider \<Rightarrow> ne_resolve env m t ctx strict s
         | GetFails e \<Rightarrow> (Inl e, s)
         | UnknownElement \<Rightarrow>
             if ctx \<noteq> None then ne_create env m t ctx s
             else
               (case map_of (pw_created s) (m, t) of
                  Some r \<Rightarrow> (r, s)
                | None \<Rightarrow>
                    (case ne_create env m t None s of
                       (r, s') \<Rightarrow> (r, s'\<lparr>pw_created := AList.update (m, t) r (pw_created s')\<rparr>))))"

definition resolve_enhancers ::
  "('w, 'v) environment \<Rightarrow> nat option \<Rightarrow> module_ref option \<Rightarrow> nat option \<Rightarrow> enhancer list \<Rightarrow> ('w, obj list) comp" where
  "resolve_enhancers env ctx owner host es = all_settled (map (resolve_enhancer env ctx owner host) es)"

definition resolve_request_enhancers ::
  "('w, 'v) environment \<Rightarrow> nat option \<Rightarrow> (module_ref option \<times> token) list \<Rightarrow> ('w, obj list) comp" where
  "resolve_request_enhancers env ctx wrappers =
     (if ctx = None then ret []
      else all_settled (map (\<lambda>(owner, t).
        ne_resolve env (case owner of Some m \<Rightarrow> m | None \<Rightarrow> ne_module env) t ctx (owner \<noteq> None)) wrappers))"

definition resolve_gateway ::
  "('w, 'v) environment \<Rightarrow> pipeline_handler \<Rightarrow> nat option \<Rightarrow> ('w, obj) comp" where
  "resolve_gateway env h ctx =
     (if ctx = None then ret (ph_instance h)
      else ne_resolve env (case ph_module h of Some m \<Rightarrow> m | None \<Rightarrow> ne_module env)
             (case ph_token h of Some t \<Rightarrow> t | None \<Rightarrow> ph_metatype h) ctx (ph_module h \<noteq> None))"

text \<open>
  The enhancers of one kind in the order of the code: global, request-scoped, of the class, of the
  method; \<open>arrange\<close> is \<open>rev\<close> for the exception filters.
\<close>

definition stage_enhancers ::
  "('w, 'v) environment \<Rightarrow> pipeline_handler \<Rightarrow> nat option \<Rightarrow> enhancer_kind \<Rightarrow> (enhancer list \<Rightarrow> enhancer list)
     \<Rightarrow> ('w, obj list) comp" where
  "stage_enhancers env h ctx kind arrange =
     bind_comp (resolve_request_enhancers env ctx (ne_request env kind)) (\<lambda>request.
       resolve_enhancers env ctx (ph_module h) (ph_host h)
         (arrange (map EnhancerObject (ne_global env kind) @ map EnhancerObject request @
            ph_class_enhancers h kind @ ph_method_enhancers h kind)))"

section \<open>Guards\<close>

definition forbidden :: thrown where
  "forbidden = JsError ''ForbiddenException'' ''WebTransport session or event was rejected by a guard.''"

fun run_guards :: "('w, 'v) environment \<Rightarrow> obj list \<Rightarrow> ('w, unit) comp" where
  "run_guards env [] = ret ()"
| "run_guards env (guard # rest) =
     bind_comp (throw_if_aborted env) (\<lambda>_.
     bind_comp (ne_guard env guard) (\<lambda>allowed.
     bind_comp (throw_if_aborted env) (\<lambda>_.
       if \<not> allowed then raise_error forbidden else run_guards env rest)))"

definition activate_guards ::
  "('w, 'v) environment \<Rightarrow> pipeline_handler \<Rightarrow> nat option \<Rightarrow> ('w, unit) comp" where
  "activate_guards env h ctx = bind_comp (stage_enhancers env h ctx Guards (\<lambda>es. es)) (run_guards env)"

section \<open>Arguments\<close>

fun extract_parameter :: "parameter_kind \<Rightarrow> 'v handler_arguments \<Rightarrow> 'v option" where
  "extract_parameter SessionParameter a = ha_session a"
| "extract_parameter StreamParameter a = ha_stream a"
| "extract_parameter PayloadParameter a = ha_payload a"
| "extract_parameter ContextParameter a = ha_context a"

text \<open>
  \<open>WebTransportExecutionContextHost\<close>: what guards, interceptors and filters see of the arguments, as a
  plain argument list and in the four views of the framework.
\<close>

definition get_args :: "'v handler_arguments \<Rightarrow> 'v option list" where
  "get_args a = [ha_session a, ha_stream a, ha_datagram a, ha_payload a, ha_context a]"

definition get_arg_by_index :: "nat \<Rightarrow> 'v handler_arguments \<Rightarrow> 'v option" where
  "get_arg_by_index i a = (if i < length (get_args a) then get_args a ! i else None)"

datatype 'v context_view =
    RpcView "'v option" "'v option"
  | HttpView "'v option" "'v option" "'v option"
  | WsView "'v option" "'v option" string
  | WebTransportView "'v option" "'v option" "'v option" "'v option" "'v option"

definition switch_to_rpc :: "'v handler_arguments \<Rightarrow> 'v context_view" where
  "switch_to_rpc a = RpcView (get_arg_by_index 3 a) (get_arg_by_index 4 a)"

definition switch_to_http :: "'v handler_arguments \<Rightarrow> 'v context_view" where
  "switch_to_http a = HttpView (get_arg_by_index 0 a) None None"

definition switch_to_ws :: "'v handler_arguments \<Rightarrow> 'v context_view" where
  "switch_to_ws a = WsView (get_arg_by_index 0 a) (get_arg_by_index 3 a) []"

definition create_webtransport_host :: "'v option list \<Rightarrow> 'v context_view" where
  "create_webtransport_host args =
     WebTransportView (args ! 0) (args ! 1) (args ! 2) (args ! 3) (args ! 4)"

text \<open>
  The exported \<open>switchToWebTransport\<close>, for a context that has the method (\<open>own\<close> is its answer) and for
  one that has only an argument list.
\<close>

definition switch_to_webtransport :: "'v context_view option \<Rightarrow> 'v option list \<Rightarrow> 'v context_view" where
  "switch_to_webtransport own args = (case own of Some view \<Rightarrow> view | None \<Rightarrow> create_webtransport_host args)"

text \<open>A parameter decorator and the view of the context give the same value.\<close>

lemma parameter_in_view:
  "create_webtransport_host (get_args a) =
     WebTransportView (extract_parameter SessionParameter a) (extract_parameter StreamParameter a)
       (ha_datagram a) (extract_parameter PayloadParameter a) (extract_parameter ContextParameter a)"
  "switch_to_ws a = WsView (extract_parameter SessionParameter a) (extract_parameter PayloadParameter a) []"
  "switch_to_rpc a = RpcView (extract_parameter PayloadParameter a) (extract_parameter ContextParameter a)"
  by (simp_all add: create_webtransport_host_def get_args_def switch_to_ws_def switch_to_rpc_def get_arg_by_index_def)

text \<open>
  The parameters are prepared concurrently: each is a task that resolves its own pipes and then runs
  the shared pipes and its own, one after the other. \<open>pk_pipes\<close> is what is left of them.
\<close>

record 'v parameter_task =
  pk_parameter :: pipeline_parameter
  pk_pipes :: "obj list option"
  pk_value :: "'v option"

definition pending :: "'v parameter_task \<Rightarrow> bool" where
  "pending t \<longleftrightarrow> pk_pipes t \<noteq> Some []"

definition step_parameter ::
  "('w, 'v) environment \<Rightarrow> pipeline_handler \<Rightarrow> 'v handler_arguments \<Rightarrow> nat option \<Rightarrow> obj list
     \<Rightarrow> 'v parameter_task \<Rightarrow> ('w, 'v parameter_task) comp" where
  "step_parameter env h a ctx shared t =
     (case pk_pipes t of
        None \<Rightarrow>
          bind_comp (resolve_enhancers env ctx (ph_module h) (ph_host h) (pr_pipes (pk_parameter t))) (\<lambda>own.
            ret (t\<lparr>pk_pipes := Some (shared @ own), pk_value := extract_parameter (pr_kind (pk_parameter t)) a\<rparr>))
      | Some [] \<Rightarrow> ret t
      | Some (p # rest) \<Rightarrow>
          bind_comp (throw_if_aborted env) (\<lambda>_.
          bind_comp (ne_transform env p (pk_value t) (pr_kind (pk_parameter t)) (pr_metatype (pk_parameter t))) (\<lambda>v.
            ret (t\<lparr>pk_pipes := Some rest, pk_value := v\<rparr>))))"

definition task_work :: "obj list \<Rightarrow> 'v parameter_task \<Rightarrow> nat" where
  "task_work shared t =
     (case pk_pipes t of
        None \<Rightarrow> Suc (length shared + length (pr_pipes (pk_parameter t))) | Some ps \<Rightarrow> length ps)"

lemma all_settled_length: "all_settled cs s = (Inr xs, s') \<Longrightarrow> length xs = length cs"
  by (induction cs arbitrary: s xs s') (auto simp: Let_def bindE_Inr_iff split: prod.splits)

lemma step_parameter_work:
  assumes "step_parameter env h a ctx shared t s = (Inr t', s')" "pending t"
  shows "task_work shared t' < task_work shared t"
  using assms
  by (auto simp: step_parameter_def pending_def task_work_def bind_comp_def ret_def resolve_enhancers_def
      dest!: all_settled_length split: option.splits list.splits prod.splits sum.splits)

definition ready_tasks :: "'v parameter_task list \<Rightarrow> nat list" where
  "ready_tasks ts = filter (\<lambda>i. pending (ts ! i)) [0..<length ts]"

lemma chosen_ready:
  "ready_tasks ts \<noteq> [] \<Longrightarrow>
   ready_tasks ts ! (n mod length (ready_tasks ts)) < length ts \<and>
   pending (ts ! (ready_tasks ts ! (n mod length (ready_tasks ts))))"
  using nth_mem [of "n mod length (ready_tasks ts)" "ready_tasks ts"] by (simp add: ready_tasks_def)

text \<open>
  The tasks until all are done; \<open>ne_choose\<close> picks the one that goes on. A task that is done stores its
  value. The first failure ends the wait; what the other tasks do afterwards is not modelled.
\<close>

function run_parameters ::
  "('w, 'v) environment \<Rightarrow> pipeline_handler \<Rightarrow> 'v handler_arguments \<Rightarrow> nat option \<Rightarrow> obj list
     \<Rightarrow> 'v parameter_task list \<Rightarrow> 'v option list \<Rightarrow> ('w, 'v option list) comp" where
  "run_parameters env h a ctx shared ts args s =
     (if ready_tasks ts = [] then (Inr args, s)
      else
        (let i = ready_tasks ts ! (ne_choose env s mod length (ready_tasks ts)) in
         case step_parameter env h a ctx shared (ts ! i) s of
           (Inl e, s') \<Rightarrow> (Inl e, s')
         | (Inr t, s') \<Rightarrow>
             run_parameters env h a ctx shared (ts[i := t])
               (if pending t then args else args[pr_index (pk_parameter t) := pk_value t]) s'))"
  by pat_completeness auto

termination run_parameters
proof (relation "measure (\<lambda>(env, h, a, ctx, shared, ts, args, s). sum_list (map (task_work shared) ts))", goal_cases)
  case 1
  show ?case by simp
next
  case (2 env h a ctx shared ts args s i r s' t)
  have i: "i < length ts" "pending (ts ! i)" using chosen_ready [OF 2(1)] 2(2) by simp_all
  have "task_work shared t < task_work shared (ts ! i)"
    using step_parameter_work i(2) 2(3,4) by metis
  moreover have "sum_list (map (task_work shared) (ts[i := t])) + task_work shared (ts ! i) =
      sum_list (map (task_work shared) ts) + task_work shared t"
    using sum_list_update_nat [of i "map (task_work shared) ts" "task_work shared t"] i(1) by (simp add: map_update)
  ultimately show ?case by simp
qed

declare run_parameters.simps [simp del]

definition max_parameter :: "pipeline_parameter list \<Rightarrow> int" where
  "max_parameter ps = foldl (\<lambda>highest p. max highest (int (pr_index p))) (-1) ps"

definition create_arguments ::
  "('w, 'v) environment \<Rightarrow> pipeline_handler \<Rightarrow> 'v handler_arguments \<Rightarrow> nat option \<Rightarrow> ('w, 'v option list) comp" where
  "create_arguments env h a ctx =
     bind_comp (stage_enhancers env h ctx Pipes (\<lambda>es. es)) (\<lambda>shared.
       run_parameters env h a ctx shared
         (map (\<lambda>p. \<lparr>pk_parameter = p, pk_pipes = None, pk_value = None\<rparr>) (ph_parameters h))
         (replicate (nat (max (int (ph_arity h)) (max_parameter (ph_parameters h) + 1))) None))"

section \<open>Interceptors\<close>

text \<open>\<open>dispatch\<close>: the call of \<open>handle\<close> returns an observable, which is run when it is subscribed to.\<close>

fun dispatch ::
  "('w, 'v) environment \<Rightarrow> obj list \<Rightarrow> ('w, 'v option) comp \<Rightarrow> ('w, ('w, 'v option) comp) comp" where
  "dispatch env [] handler = bind_comp (throw_if_aborted env) (\<lambda>_. ret handler)"
| "dispatch env (i # rest) handler =
     bind_comp (throw_if_aborted env) (\<lambda>_.
       ret (bind_comp (ne_intercept env i (dispatch env rest handler)) (\<lambda>stream. stream)))"

definition run_interceptors ::
  "('w, 'v) environment \<Rightarrow> obj list \<Rightarrow> ('w, 'v option) comp \<Rightarrow> ('w, 'v option) comp" where
  "run_interceptors env is handler = bind_comp (dispatch env is handler) (\<lambda>stream. stream)"

section \<open>Exceptions\<close>

definition catches :: "('w, 'v) environment \<Rightarrow> thrown \<Rightarrow> obj \<Rightarrow> bool" where
  "catches env e f \<longleftrightarrow> ne_caught env f = [] \<or> (\<exists>c \<in> set (ne_caught env f). ne_instance env e c)"

fun first_filter :: "('w, 'v) environment \<Rightarrow> thrown \<Rightarrow> obj list \<Rightarrow> ('w, 'v option) comp" where
  "first_filter env e [] = raise_error e"
| "first_filter env e (f # fs) = (if catches env e f then ne_catch env f e else first_filter env e fs)"

definition handle_exception ::
  "('w, 'v) environment \<Rightarrow> pipeline_handler \<Rightarrow> nat option \<Rightarrow> thrown \<Rightarrow> ('w, 'v option) comp" where
  "handle_exception env h ctx e = bind_comp (stage_enhancers env h ctx Filters rev) (first_filter env e)"

section \<open>The pipeline\<close>

text \<open>What the interceptors wrap.\<close>

definition call_handler ::
  "('w, 'v) environment \<Rightarrow> pipeline_handler \<Rightarrow> 'v handler_arguments \<Rightarrow> nat option \<Rightarrow> obj \<Rightarrow> ('w, 'v option) comp" where
  "call_handler env h a ctx inst =
     bind_comp (throw_if_aborted env) (\<lambda>_.
     bind_comp (create_arguments env h a ctx) (\<lambda>args.
     bind_comp (throw_if_aborted env) (\<lambda>_.
       ne_call env inst (ph_method h) args)))"

text \<open>The body of the \<open>try\<close> block.\<close>

definition guarded_call ::
  "('w, 'v) environment \<Rightarrow> pipeline_handler \<Rightarrow> 'v handler_arguments \<Rightarrow> nat option \<Rightarrow> obj \<Rightarrow> ('w, 'v option) comp" where
  "guarded_call env h a ctx inst =
     bind_comp (activate_guards env h ctx) (\<lambda>_.
     bind_comp (stage_enhancers env h ctx Interceptors (\<lambda>es. es)) (\<lambda>interceptors.
     bind_comp (throw_if_aborted env) (\<lambda>_.
       run_interceptors env interceptors (call_handler env h a ctx inst))))"

definition not_callable :: "pipeline_handler \<Rightarrow> thrown" where
  "not_callable h = type_error (''WebTransport gateway method '' @ ph_name h @ ''.'' @ ph_method h @ '' is not callable.'')"

definition pipeline_invoke ::
  "('w, 'v) environment \<Rightarrow> pipeline_handler \<Rightarrow> 'v handler_arguments \<Rightarrow> nat option \<Rightarrow> ('w, 'v option) comp" where
  "pipeline_invoke env h a ctx =
     bind_comp (throw_if_aborted env) (\<lambda>_.
     bind_comp (resolve_gateway env h ctx) (\<lambda>inst.
     bind_comp (throw_if_aborted env) (\<lambda>_.
       if \<not> ne_callable env inst (ph_method h) then raise_error (not_callable h)
       else (\<lambda>s.
         case guarded_call env h a ctx inst s of
           (Inr v, s') \<Rightarrow> (Inr v, s')
         | (Inl e, s') \<Rightarrow>
             if ne_aborted env s' \<noteq> None then (Inl e, s') else handle_exception env h ctx e s'))))"

section \<open>Guards decide\<close>

lemma bind_comp_Inl: "c s = (Inl e, s') \<Longrightarrow> bind_comp c f s = (Inl e, s')"
  by (simp add: bind_comp_def)

lemma bind_comp_Inr: "c s = (Inr x, s') \<Longrightarrow> bind_comp c f s = f x s'"
  by (simp add: bind_comp_def)

lemma not_aborted: "ne_aborted env s = None \<Longrightarrow> bind_comp (throw_if_aborted env) f s = f () s"
  by (simp add: bind_comp_def throw_if_aborted_def)

lemma bind_comp_InrE:
  assumes "bind_comp c f s = (Inr y, s')"
  obtains x s1 where "c s = (Inr x, s1)" "f x s1 = (Inr y, s')"
  using assms by (auto simp: bind_comp_def split: prod.splits sum.splits)

text \<open>A guard approves when it answers true and the session is not aborted before or after.\<close>

definition approves :: "('w, 'v) environment \<Rightarrow> obj \<Rightarrow> bool" where
  "approves env g \<longleftrightarrow>
     (\<exists>s s'. ne_aborted env s = None \<and> ne_guard env g s = (Inr True, s') \<and> ne_aborted env s' = None)"

lemma throw_if_aborted_Inr: "throw_if_aborted env s = (Inr u, s') \<longleftrightarrow> ne_aborted env s = None \<and> s' = s"
  by (auto simp: throw_if_aborted_def split: option.splits)

lemma guards_approve: "run_guards env gs s = (Inr u, s') \<Longrightarrow> g \<in> set gs \<Longrightarrow> approves env g"
proof (induction gs arbitrary: s)
  case (Cons x xs)
  from Cons.prems(1) obtain b s1 where
    x: "ne_aborted env s = None" "ne_guard env x s = (Inr b, s1)" "ne_aborted env s1 = None"
    and r: "(if \<not> b then raise_error forbidden else run_guards env xs) s1 = (Inr u, s')"
    by (auto simp: throw_if_aborted_Inr elim!: bind_comp_InrE)
  then have b: "b" by (cases b) (simp_all add: raise_error_def)
  show ?case
  proof (cases "g = x")
    case True
    with x b show ?thesis by (auto simp: approves_def)
  next
    case False
    with Cons.prems(2) have "g \<in> set xs" by simp
    moreover from r b have "run_guards env xs s1 = (Inr u, s')" by simp
    ultimately show ?thesis by (intro Cons.IH)
  qed
qed simp

lemma guards_reject:
  assumes "run_guards env pre s0 = (Inr u, s1)" "ne_aborted env s1 = None"
    "ne_guard env g s1 = (Inr False, s2)" "ne_aborted env s2 = None"
  shows "run_guards env (pre @ g # post) s0 = (Inl forbidden, s2)"
  using assms(1)
proof (induction pre arbitrary: s0)
  case Nil
  with assms(2-4) show ?case
    by (simp add: ret_def not_aborted bind_comp_def [of "ne_guard env g"] raise_error_def)
next
  case (Cons x xs)
  from Cons.prems obtain b s3 where
    x: "ne_aborted env s0 = None" "ne_guard env x s0 = (Inr b, s3)" "ne_aborted env s3 = None"
    and r: "(if \<not> b then raise_error forbidden else run_guards env xs) s3 = (Inr u, s1)"
    by (auto simp: throw_if_aborted_Inr elim!: bind_comp_InrE)
  then have b: "b" by (cases b) (simp_all add: raise_error_def)
  with r have "run_guards env xs s3 = (Inr u, s1)" by simp
  with Cons.IH [OF this] x b show ?case by (simp add: not_aborted bind_comp_Inr)
qed

text \<open>The environment with other interceptors, pipes and methods.\<close>

definition other_code ::
  "(obj \<Rightarrow> ('w, ('w, 'v option) comp) comp \<Rightarrow> ('w, ('w, 'v option) comp) comp) \<Rightarrow>
   (obj \<Rightarrow> 'v option \<Rightarrow> parameter_kind \<Rightarrow> token option \<Rightarrow> ('w, 'v option) comp) \<Rightarrow>
   (obj \<Rightarrow> string \<Rightarrow> 'v option list \<Rightarrow> ('w, 'v option) comp) \<Rightarrow>
   ('w, 'v) environment \<Rightarrow> ('w, 'v) environment" where
  "other_code i t c env = env\<lparr>ne_intercept := i, ne_transform := t, ne_call := c\<rparr>"

lemma other_fields:
  "ne_container (other_code i t c env) = ne_container env" "ne_module (other_code i t c env) = ne_module env"
  "ne_get (other_code i t c env) = ne_get env" "ne_resolve (other_code i t c env) = ne_resolve env"
  "ne_create (other_code i t c env) = ne_create env" "ne_global (other_code i t c env) = ne_global env"
  "ne_request (other_code i t c env) = ne_request env" "ne_guard (other_code i t c env) = ne_guard env"
  "ne_aborted (other_code i t c env) = ne_aborted env"
  by (simp_all add: other_code_def)

lemma other_resolve [simp]: "resolve_enhancer (other_code i t c env) = resolve_enhancer env"
proof (intro ext)
  fix ctx owner host e s
  show "resolve_enhancer (other_code i t c env) ctx owner host e s = resolve_enhancer env ctx owner host e s"
    unfolding provider_ref_def by (cases e) (simp_all only: resolve_enhancer.simps provider_ref_def other_fields)
qed

lemma other_stage [simp]: "stage_enhancers (other_code i t c env) h ctx kind f = stage_enhancers env h ctx kind f"
proof -
  have "resolve_enhancers (other_code i t c env) = resolve_enhancers env"
    by (intro ext) (simp add: resolve_enhancers_def)
  moreover have "resolve_request_enhancers (other_code i t c env) = resolve_request_enhancers env"
    unfolding resolve_request_enhancers_def [abs_def] other_fields ..
  ultimately show ?thesis by (simp add: stage_enhancers_def other_fields)
qed

lemma other_throw [simp]: "throw_if_aborted (other_code i t c env) = throw_if_aborted env"
  by (intro ext) (simp add: throw_if_aborted_def other_fields)

lemma other_guards [simp]: "run_guards (other_code i t c env) = run_guards env"
proof (rule ext)
  fix gs
  show "run_guards (other_code i t c env) gs = run_guards env gs" by (induction gs) (simp_all add: other_fields cong: if_cong)
qed

lemma guarded_call_Inl:
  "activate_guards env h ctx s = (Inl e, s') \<Longrightarrow>
   guarded_call (other_code i t c env) h a ctx inst s = (Inl e, s')"
  unfolding guarded_call_def
  by (rule bind_comp_Inl) (simp add: activate_guards_def)

text \<open>
  C16. The guards decide. An event reaches its interceptors, its pipes and its method only after every
  guard that applies to it (global, request-scoped, of the class and of the method, in this order) has
  answered true while the session was not aborted; a guard that answers anything else ends the event
  with the framework's rejection without asking the guards after it; and when the guards fail, in
  whatever way, what the interceptors, pipes and methods are makes no difference at all.
\<close>

theorem guards_decide:
  "(case activate_guards env h ctx s of
      (Inl e, s') \<Rightarrow> guarded_call (other_code i t c env) h a ctx inst s = (Inl e, s')
    | (Inr _, s') \<Rightarrow>
        \<exists>gs s0. stage_enhancers env h ctx Guards (\<lambda>es. es) s = (Inr gs, s0) \<and> (\<forall>g \<in> set gs. approves env g)) \<and>
   (stage_enhancers env h ctx Guards (\<lambda>es. es) s = (Inr (pre @ g # post), s0) \<and>
      run_guards env pre s0 = (Inr (), s1) \<and> ne_aborted env s1 = None \<and>
      ne_guard env g s1 = (Inr False, s2) \<and> ne_aborted env s2 = None \<longrightarrow>
    guarded_call (other_code i t c env) h a ctx inst s = (Inl forbidden, s2))"
proof (rule conjI)
  show "case activate_guards env h ctx s of
      (Inl e, s') \<Rightarrow> guarded_call (other_code i t c env) h a ctx inst s = (Inl e, s')
    | (Inr _, s') \<Rightarrow>
        \<exists>gs s0. stage_enhancers env h ctx Guards (\<lambda>es. es) s = (Inr gs, s0) \<and> (\<forall>g \<in> set gs. approves env g)"
  proof (cases "activate_guards env h ctx s")
    case (Pair r s')
    show ?thesis
    proof (cases r)
      case (Inl e)
      with Pair show ?thesis by (simp add: guarded_call_Inl)
    next
      case (Inr u)
      with Pair obtain gs s0 where "stage_enhancers env h ctx Guards (\<lambda>es. es) s = (Inr gs, s0)"
        "run_guards env gs s0 = (Inr u, s')"
        by (auto simp: activate_guards_def elim!: bind_comp_InrE)
      with guards_approve [of env gs s0 u s'] Pair Inr show ?thesis by auto
    qed
  qed
next
  show "stage_enhancers env h ctx Guards (\<lambda>es. es) s = (Inr (pre @ g # post), s0) \<and>
      run_guards env pre s0 = (Inr (), s1) \<and> ne_aborted env s1 = None \<and>
      ne_guard env g s1 = (Inr False, s2) \<and> ne_aborted env s2 = None \<longrightarrow>
    guarded_call (other_code i t c env) h a ctx inst s = (Inl forbidden, s2)"
  proof (intro impI guarded_call_Inl)
    assume a: "stage_enhancers env h ctx Guards (\<lambda>es. es) s = (Inr (pre @ g # post), s0) \<and>
      run_guards env pre s0 = (Inr (), s1) \<and> ne_aborted env s1 = None \<and>
      ne_guard env g s1 = (Inr False, s2) \<and> ne_aborted env s2 = None"
    then have "run_guards env (pre @ g # post) s0 = (Inl forbidden, s2)" by (intro guards_reject) auto
    with a show "activate_guards env h ctx s = (Inl forbidden, s2)"
      by (simp add: activate_guards_def bind_comp_Inr)
  qed
qed

section \<open>Filters\<close>

lemma resolve_objects [simp]: "resolve_enhancers env ctx owner host (map EnhancerObject xs) s = (Inr xs, s)"
proof -
  have "all_settled (map (resolve_enhancer env ctx owner host) (map EnhancerObject xs)) s = (Inr xs, s)"
    by (induction xs) simp_all
  then show ?thesis by (simp add: resolve_enhancers_def)
qed

lemma stage_objects:
  assumes "ph_class_enhancers h kind = map EnhancerObject cs" "ph_method_enhancers h kind = map EnhancerObject ms"
  shows "stage_enhancers env h None kind (\<lambda>es. es) s = (Inr (ne_global env kind @ cs @ ms), s)"
    "stage_enhancers env h None kind rev s = (Inr (rev ms @ rev cs @ rev (ne_global env kind)), s)"
  using assms resolve_objects [of env None "ph_module h" "ph_host h" "ne_global env kind @ cs @ ms" s]
    resolve_objects [of env None "ph_module h" "ph_host h" "rev ms @ rev cs @ rev (ne_global env kind)" s]
  by (simp_all add: stage_enhancers_def resolve_request_enhancers_def bind_comp_def ret_def rev_map)

lemma first_filter_find:
  "first_filter env e fs s = (case find (catches env e) fs of None \<Rightarrow> (Inl e, s) | Some f \<Rightarrow> ne_catch env f e s)"
  by (induction fs) (simp_all add: raise_error_def)

lemma all_settled_append:
  "all_settled (cs @ ds) s =
     (case all_settled cs s of (r, s1) \<Rightarrow> case all_settled ds s1 of (q, s2) \<Rightarrow>
        (bindE r (\<lambda>xs. bindE q (\<lambda>ys. Inr (xs @ ys))), s2))"
proof (induction cs arbitrary: s)
  case Nil
  show ?case by (cases "all_settled ds s"; cases "fst (all_settled ds s)") auto
next
  case (Cons c cs)
  obtain r s1 where c: "c s = (r, s1)" by (cases "c s")
  obtain q s2 where cs: "all_settled cs s1 = (q, s2)" by (cases "all_settled cs s1")
  obtain p s3 where ds: "all_settled ds s2 = (p, s3)" by (cases "all_settled ds s2")
  show ?case by (cases r; cases q; cases p) (simp_all add: c cs ds Cons.IH)
qed

lemma resolve_enhancers_append:
  "resolve_enhancers env ctx owner host (es @ fs) s =
     (case resolve_enhancers env ctx owner host es s of (r, s1) \<Rightarrow>
      case resolve_enhancers env ctx owner host fs s1 of (q, s2) \<Rightarrow>
        (bindE r (\<lambda>xs. bindE q (\<lambda>ys. Inr (xs @ ys))), s2))"
  by (simp add: resolve_enhancers_def all_settled_append)

text \<open>
  C17. What a handler, a guard, an interceptor or a pipe throws is offered to the exception filters, the
  innermost and last declared first: those of the method, then of the class, then the request-scoped
  global ones of the event's context, then the global ones, each class among them resolved through the
  module that provides it. The first that catches the exception answers in place of the handler, without
  the others. What no filter catches is thrown on unchanged, and so is everything once the session has
  been aborted; when a filter cannot be resolved, that failure is thrown instead. This holds for every
  context, for the request-scoped ones of the runtime as for none.
\<close>

theorem exceptions_filtered:
  assumes "ne_aborted env s = None" "resolve_gateway env h ctx s = (Inr inst, s0)" "ne_aborted env s0 = None"
    and "ne_callable env inst (ph_method h)" "guarded_call env h a ctx inst s0 = (Inl e, s1)"
  shows "pipeline_invoke env h a ctx s =
     (if ne_aborted env s1 \<noteq> None then (Inl e, s1)
      else case resolve_request_enhancers env ctx (ne_request env Filters) s1 of
        (Inl e', s2) \<Rightarrow> (Inl e', s2)
      | (Inr request, s2) \<Rightarrow>
          (case resolve_enhancers env ctx (ph_module h) (ph_host h) (rev (ph_method_enhancers h Filters)) s2 of (rm, s3) \<Rightarrow>
           case resolve_enhancers env ctx (ph_module h) (ph_host h) (rev (ph_class_enhancers h Filters)) s3 of (rc, s4) \<Rightarrow>
           case (rm, rc) of
             (Inl e', _) \<Rightarrow> (Inl e', s4)
           | (Inr _, Inl e') \<Rightarrow> (Inl e', s4)
           | (Inr ms, Inr cs) \<Rightarrow>
               (case find (catches env e) (ms @ cs @ rev request @ rev (ne_global env Filters)) of
                  None \<Rightarrow> (Inl e, s4) | Some f \<Rightarrow> ne_catch env f e s4)))"
proof -
  have objects: "resolve_enhancers env ctx (ph_module h) (ph_host h)
      (map EnhancerObject xs @ map EnhancerObject ys) u = (Inr (xs @ ys), u)" for xs ys u
    using resolve_objects [of env ctx "ph_module h" "ph_host h" "xs @ ys" u] by simp
  have filters: "resolve_enhancers env ctx (ph_module h) (ph_host h)
      (rev (map EnhancerObject (ne_global env Filters) @ map EnhancerObject request @
         ph_class_enhancers h Filters @ ph_method_enhancers h Filters)) s2 =
    (case resolve_enhancers env ctx (ph_module h) (ph_host h) (rev (ph_method_enhancers h Filters)) s2 of (rm, s3) \<Rightarrow>
     case resolve_enhancers env ctx (ph_module h) (ph_host h) (rev (ph_class_enhancers h Filters)) s3 of (rc, s4) \<Rightarrow>
       (bindE rm (\<lambda>ms. bindE rc (\<lambda>cs. Inr (ms @ cs @ rev request @ rev (ne_global env Filters)))), s4))"
    for request s2
  proof -
    obtain rm s3 where m: "resolve_enhancers env ctx (ph_module h) (ph_host h) (rev (ph_method_enhancers h Filters)) s2 = (rm, s3)"
      by (cases "resolve_enhancers env ctx (ph_module h) (ph_host h) (rev (ph_method_enhancers h Filters)) s2")
    obtain rc s4 where c: "resolve_enhancers env ctx (ph_module h) (ph_host h) (rev (ph_class_enhancers h Filters)) s3 = (rc, s4)"
      by (cases "resolve_enhancers env ctx (ph_module h) (ph_host h) (rev (ph_class_enhancers h Filters)) s3")
    show ?thesis
      by (cases rm; cases rc)
        (simp_all add: rev_map resolve_enhancers_append m c objects)
  qed
  have "handle_exception env h ctx e s1 =
      (case resolve_request_enhancers env ctx (ne_request env Filters) s1 of
        (Inl e', s2) \<Rightarrow> (Inl e', s2)
      | (Inr request, s2) \<Rightarrow>
          (case resolve_enhancers env ctx (ph_module h) (ph_host h) (rev (ph_method_enhancers h Filters)) s2 of (rm, s3) \<Rightarrow>
           case resolve_enhancers env ctx (ph_module h) (ph_host h) (rev (ph_class_enhancers h Filters)) s3 of (rc, s4) \<Rightarrow>
           case (rm, rc) of
             (Inl e', _) \<Rightarrow> (Inl e', s4)
           | (Inr _, Inl e') \<Rightarrow> (Inl e', s4)
           | (Inr ms, Inr cs) \<Rightarrow>
               (case find (catches env e) (ms @ cs @ rev request @ rev (ne_global env Filters)) of
                  None \<Rightarrow> (Inl e, s4) | Some f \<Rightarrow> ne_catch env f e s4)))"
    unfolding handle_exception_def stage_enhancers_def bind_comp_def filters
    by (auto simp: first_filter_find split: prod.split sum.split)
  then show ?thesis
    using assms by (simp add: pipeline_invoke_def not_aborted bind_comp_Inr)
qed

end
