(* ===== verification/Runtime_Dispatch.thy ===== *)
theory Runtime_Dispatch
  imports Runtime_Work Execution_Pipeline
begin

text \<open>
  What the runtime does with an event once its task runs: \<open>dispatchDatagram\<close> and the two stream
  dispatchers resolve a route, look the handlers up in the registry and hand the event to one handler
  after the other through the execution pipeline; \<open>authenticateAndRunSessionHandlers\<close> does the same
  for a session that is being admitted. Routing functions, the authenticator and the user code behind
  the pipeline are computations that may change the whole world, and so may let any other event of
  the runtime happen. The functions return, besides the result of the code, the invocations they made.
\<close>

section \<open>The server around a runtime\<close>

record ('u, 'v) server_world =
  sw_runtime :: runtime
  sw_principal :: "nat \<Rightarrow> 'v option"
  sw_user :: 'u

type_synonym ('u, 'v) world_state = "('u, 'v) server_world pipe_state"

text \<open>\<open>WebTransportRouteResolution\<close>: an absent \<open>payload\<close> differs from one that is \<open>undefined\<close>.\<close>

record 'v resolution =
  re_route :: "string option"
  re_payload :: "'v js_prop"
  re_value :: "'v option"

datatype 'v principal = PrincipalFalse | PrincipalUndefined | Principal 'v

text \<open>
  \<open>sv_environment\<close> is the pipeline's environment for one invocation, \<open>sv_reason\<close> the reason with which
  the signal of a session's context was aborted, \<open>sv_stream\<close> the transport stream that is reset or
  stopped when a routed value is.
\<close>

record ('u, 'v) server =
  sv_environment :: "nat \<Rightarrow> 'v handler_arguments \<Rightarrow> (('u, 'v) server_world, 'v) environment"
  sv_handler :: "compiled_handler \<Rightarrow> pipeline_handler"
  sv_context_id :: "nat \<Rightarrow> nat option"
  sv_url :: "string \<Rightarrow> string option"
  sv_session :: "nat \<Rightarrow> 'v"
  sv_context :: "nat \<Rightarrow> 'v"
  sv_stream :: "'v \<Rightarrow> nat option"
  sv_reason :: "nat \<Rightarrow> ('u, 'v) world_state \<Rightarrow> thrown option"
  sv_datagram_route :: "('v \<Rightarrow> nat \<Rightarrow> (('u, 'v) server_world, 'v resolution) comp) option"
  sv_bidirectional_route :: "('v \<Rightarrow> nat \<Rightarrow> (('u, 'v) server_world, 'v resolution) comp) option"
  sv_unidirectional_route :: "('v \<Rightarrow> nat \<Rightarrow> (('u, 'v) server_world, 'v resolution) comp) option"
  sv_authenticate :: "(nat \<Rightarrow> (('u, 'v) server_world, 'v principal) comp) option"

definition world_runtime :: "('u, 'v) world_state \<Rightarrow> runtime" where
  "world_runtime s = sw_runtime (pw_world s)"

definition on_runtime :: "(runtime \<Rightarrow> runtime) \<Rightarrow> ('u, 'v) world_state \<Rightarrow> ('u, 'v) world_state" where
  "on_runtime f s = s\<lparr>pw_world := (pw_world s)\<lparr>sw_runtime := f (sw_runtime (pw_world s))\<rparr>\<rparr>"

section \<open>Signals\<close>

definition abort_error :: thrown where
  "abort_error = DomException ''AbortError'' ''WebTransport session admission was cancelled''"

text \<open>\<open>context.signal\<close> is aborted with the session's signal or with the admission controller.\<close>

definition context_aborted :: "nat \<Rightarrow> ('u, 'v) world_state \<Rightarrow> bool" where
  "context_aborted i s \<longleftrightarrow>
     ms_session_aborted (session_at i (world_runtime s)) \<or> ms_admission_aborted (session_at i (world_runtime s))"

definition context_reason :: "('u, 'v) server \<Rightarrow> nat \<Rightarrow> ('u, 'v) world_state \<Rightarrow> thrown option" where
  "context_reason S i s =
     (if context_aborted i s then Some (case sv_reason S i s of Some e \<Rightarrow> e | None \<Rightarrow> NonError) else None)"

text \<open>\<open>throwIfAdmissionEnded\<close>\<close>

definition admission_ended :: "('u, 'v) server \<Rightarrow> nat \<Rightarrow> ('u, 'v) world_state \<Rightarrow> thrown option" where
  "admission_ended S i s =
     (if \<not> context_aborted i s \<and> \<not> ms_finalized (session_at i (world_runtime s)) then None
      else Some (case sv_reason S i s of Some e \<Rightarrow> e | None \<Rightarrow> abort_error))"

section \<open>One handler\<close>

text \<open>\<open>pipeline.invoke\<close>; the signal the pipeline looks at is the one of the session's context.\<close>

definition invoke_handler ::
  "('u, 'v) server \<Rightarrow> nat \<Rightarrow> 'v handler_arguments \<Rightarrow> compiled_handler
     \<Rightarrow> ('u, 'v) world_state \<Rightarrow> thrown option \<times> ('u, 'v) world_state" where
  "invoke_handler S i a h s =
     (case pipeline_invoke ((sv_environment S i a)\<lparr>ne_aborted := context_reason S i\<rparr>) (sv_handler S h) a
             (sv_context_id S i) s of
        (Inl e, s') \<Rightarrow> (Some e, s')
      | (Inr v, s') \<Rightarrow> (None, s'))"

type_synonym invocation = "compiled_handler \<times> thrown option"

type_synonym ('u, 'v) dispatched = "invocation list \<times> thrown option \<times> ('u, 'v) world_state"

definition after_invocation :: "invocation \<Rightarrow> ('u, 'v) dispatched \<Rightarrow> ('u, 'v) dispatched" where
  "after_invocation c r = (c # fst r, snd r)"

text \<open>
  The loop over the handlers of an event. An error of a handler is handled on the spot; its scope says
  whether the remaining handlers run.
\<close>

fun dispatch_loop ::
  "('u, 'v) server \<Rightarrow> nat \<Rightarrow> 'v handler_arguments \<Rightarrow> nat option \<Rightarrow> compiled_handler list
     \<Rightarrow> ('u, 'v) world_state \<Rightarrow> ('u, 'v) dispatched" where
  "dispatch_loop S i a stream [] s = ([], None, s)"
| "dispatch_loop S i a stream (h # hs) s =
     (case context_reason S i s of
        Some e \<Rightarrow> ([], Some e, s)
      | None \<Rightarrow>
          (case invoke_handler S i a h s of
             (None, s1) \<Rightarrow> after_invocation (h, None) (dispatch_loop S i a stream hs s1)
           | (Some e, s1) \<Rightarrow>
               (case handle_runtime_error e i stream (world_runtime s1) of
                  (t, goes_on) \<Rightarrow>
                    (let s2 = on_runtime (\<lambda>_. t) s1 in
                     if goes_on then after_invocation (h, Some e) (dispatch_loop S i a stream hs s2)
                     else ([(h, Some e)], None, s2)))))"

section \<open>Events\<close>

text \<open>The route of an event, from a routing function or by default, and the abort check after it.\<close>

definition resolve_route ::
  "('u, 'v) server \<Rightarrow> nat \<Rightarrow> ('v \<Rightarrow> nat \<Rightarrow> (('u, 'v) server_world, 'v resolution) comp) option \<Rightarrow> 'v
     \<Rightarrow> (('u, 'v) server_world, 'v resolution) comp" where
  "resolve_route S i route x s =
     (case (case route of
              Some f \<Rightarrow> f x i s
            | None \<Rightarrow> (Inr \<lparr>re_route = None, re_payload = Given x, re_value = Some x\<rparr>, s)) of
        (Inl e, s1) \<Rightarrow> (Inl e, s1)
      | (Inr r, s1) \<Rightarrow> (case context_reason S i s1 of Some e \<Rightarrow> (Inl e, s1) | None \<Rightarrow> (Inr r, s1)))"

definition routed_value :: "'v \<Rightarrow> 'v resolution \<Rightarrow> 'v" where
  "routed_value x r = (case re_value r of Some v \<Rightarrow> v | None \<Rightarrow> x)"

fun routed_payload :: "'v \<Rightarrow> 'v js_prop \<Rightarrow> 'v option" where
  "routed_payload v Absent = Some v"
| "routed_payload v Undefined = None"
| "routed_payload v (Given p) = Some p"

definition event_handlers ::
  "('u, 'v) server \<Rightarrow> nat \<Rightarrow> handler_kind \<Rightarrow> string option \<Rightarrow> ('u, 'v) world_state \<Rightarrow> compiled_handler list" where
  "event_handlers S i kind route s =
     find_handlers (sv_url S) (si_path (ms_info (session_at i (world_runtime s)))) kind route
       (rt_registry (world_runtime s))"

definition dispatch_datagram ::
  "('u, 'v) server \<Rightarrow> nat \<Rightarrow> 'v \<Rightarrow> ('u, 'v) world_state \<Rightarrow> ('u, 'v) dispatched" where
  "dispatch_datagram S i datagram s =
     (case resolve_route S i (sv_datagram_route S) datagram s of
        (Inl e, s1) \<Rightarrow> ([], Some e, s1)
      | (Inr r, s1) \<Rightarrow>
          (let value = routed_value datagram r in
           dispatch_loop S i
             \<lparr>ha_session = Some (sv_session S i), ha_stream = None, ha_datagram = Some value,
              ha_payload = routed_payload value (re_payload r), ha_context = Some (sv_context S i)\<rparr>
             None (event_handlers S i DatagramKind (re_route r) s1) s1))"

text \<open>
  A stream without handlers is refused: reset when it is bidirectional, stopped when it is not. A
  stream error is handled on the routed value, which need not be the stream that came in.
\<close>

definition dispatch_stream ::
  "('u, 'v) server \<Rightarrow> handler_kind \<Rightarrow> ('v \<Rightarrow> nat \<Rightarrow> (('u, 'v) server_world, 'v resolution) comp) option
     \<Rightarrow> nat \<Rightarrow> 'v \<Rightarrow> nat \<Rightarrow> ('u, 'v) world_state \<Rightarrow> ('u, 'v) dispatched" where
  "dispatch_stream S kind route i stream k s =
     (case resolve_route S i route stream s of
        (Inl e, s1) \<Rightarrow> ([], Some e, s1)
      | (Inr r, s1) \<Rightarrow>
          (let value = routed_value stream r; handlers = event_handlers S i kind (re_route r) s1 in
           if handlers = [] then ([], None, on_runtime (emit (ResetCall k (Some CODE_NO_ROUTE))) s1)
           else
             dispatch_loop S i
               \<lparr>ha_session = Some (sv_session S i), ha_stream = Some value, ha_datagram = None,
                ha_payload = routed_payload value (re_payload r), ha_context = Some (sv_context S i)\<rparr>
               (sv_stream S value) handlers s1))"

definition dispatch_bidirectional_stream ::
  "('u, 'v) server \<Rightarrow> nat \<Rightarrow> 'v \<Rightarrow> nat \<Rightarrow> ('u, 'v) world_state \<Rightarrow> ('u, 'v) dispatched" where
  "dispatch_bidirectional_stream S = dispatch_stream S BidirectionalKind (sv_bidirectional_route S)"

definition dispatch_unidirectional_stream ::
  "('u, 'v) server \<Rightarrow> nat \<Rightarrow> 'v \<Rightarrow> nat \<Rightarrow> ('u, 'v) world_state \<Rightarrow> ('u, 'v) dispatched" where
  "dispatch_unidirectional_stream S = dispatch_stream S UnidirectionalKind (sv_unidirectional_route S)"

section \<open>Admission\<close>

fun session_handlers_loop ::
  "('u, 'v) server \<Rightarrow> nat \<Rightarrow> 'v handler_arguments \<Rightarrow> compiled_handler list
     \<Rightarrow> ('u, 'v) world_state \<Rightarrow> ('u, 'v) dispatched" where
  "session_handlers_loop S i a [] s = ([], None, s)"
| "session_handlers_loop S i a (h # hs) s =
     (case admission_ended S i s of
        Some e \<Rightarrow> ([], Some e, s)
      | None \<Rightarrow>
          (case invoke_handler S i a h s of
             (Some e, s1) \<Rightarrow> ([(h, Some e)], Some e, s1)
           | (None, s1) \<Rightarrow>
               (case admission_ended S i s1 of
                  Some e \<Rightarrow> ([(h, None)], Some e, s1)
                | None \<Rightarrow> after_invocation (h, None) (session_handlers_loop S i a hs s1))))"

definition authentication_rejected :: thrown where
  "authentication_rejected =
     session_rejected ''Session authentication failed.'' ''ERR_WEBTRANSPORT_AUTHENTICATION_REJECTED'' None"

text \<open>The authentication: the check of the principal, which is stored unless it is \<open>undefined\<close>.\<close>

definition authenticate_session ::
  "('u, 'v) server \<Rightarrow> nat \<Rightarrow> (('u, 'v) server_world, unit) comp" where
  "authenticate_session S i s =
     (case sv_authenticate S of
        None \<Rightarrow> (Inr (), s)
      | Some f \<Rightarrow>
          (case f i s of
             (Inl e, s1) \<Rightarrow> (Inl e, s1)
           | (Inr p, s1) \<Rightarrow>
               (case admission_ended S i s1 of
                  Some e \<Rightarrow> (Inl e, s1)
                | None \<Rightarrow>
                    (case p of
                       PrincipalFalse \<Rightarrow> (Inl authentication_rejected, s1)
                     | PrincipalUndefined \<Rightarrow> (Inr (), s1)
                     | Principal v \<Rightarrow>
                         (Inr (), s1\<lparr>pw_world := (pw_world s1)\<lparr>sw_principal := (sw_principal (pw_world s1))(i := Some v)\<rparr>\<rparr>)))))"

definition authenticate_and_run ::
  "('u, 'v) server \<Rightarrow> nat \<Rightarrow> ('u, 'v) world_state \<Rightarrow> ('u, 'v) dispatched" where
  "authenticate_and_run S i s =
     (case admission_ended S i s of
        Some e \<Rightarrow> ([], Some e, s)
      | None \<Rightarrow>
          (case authenticate_session S i s of
             (Inl e, s1) \<Rightarrow> ([], Some e, s1)
           | (Inr _, s1) \<Rightarrow>
               session_handlers_loop S i
                 \<lparr>ha_session = Some (sv_session S i), ha_stream = None, ha_datagram = None,
                  ha_payload = Some (sv_session S i), ha_context = Some (sv_context S i)\<rparr>
                 (event_handlers S i SessionKind None s1) s1))"

end
