(* ===== verification/Dispatch_Order.thy ===== *)
theory Dispatch_Order
  imports Runtime_Dispatch Runtime_Safety
begin

text \<open>
  What the dispatch of an event and the admission of a session guarantee about the handlers that run:
  which, in which order, and what ends the sequence early.
\<close>

section \<open>Handlers of an event\<close>

text \<open>An error that ends an event: one of the library whose scope is wider than the handler.\<close>

definition stops :: "thrown \<Rightarrow> bool" where
  "stops e \<longleftrightarrow> instance_of e WebTransportError \<and> thrown_scope e \<noteq> Some HANDLER"

lemma runtime_error_flow: "snd (handle_runtime_error e i k s) \<longleftrightarrow> \<not> stops e"
  by (cases e) (auto simp: handle_runtime_error_def stops_def Let_def split: error_scope.splits)

definition ends_event :: "invocation \<Rightarrow> bool" where
  "ends_event c \<longleftrightarrow> (case snd c of Some e \<Rightarrow> stops e | None \<Rightarrow> False)"

text \<open>
  The invocations are the handlers in registry order; only the last of them can have ended the event,
  and handlers are left out only then or when the dispatch was aborted.
\<close>

definition covers :: "compiled_handler list \<Rightarrow> ('u, 'v) dispatched \<Rightarrow> bool" where
  "covers hs d \<longleftrightarrow>
     map fst (fst d) = take (length (fst d)) hs \<and>
     (\<forall>c \<in> set (butlast (fst d)). \<not> ends_event c) \<and>
     (fst (snd d) \<noteq> None \<longrightarrow> length (fst d) < length hs \<and> (\<forall>c \<in> set (fst d). \<not> ends_event c)) \<and>
     (length (fst d) < length hs \<longrightarrow> fst (snd d) \<noteq> None \<or> fst d \<noteq> [] \<and> ends_event (last (fst d)))"

lemma covers_Nil: "covers [] ([], None, s)"
  by (simp add: covers_def)

lemma covers_aborted: "covers (h # hs) ([], Some e, s)"
  by (simp add: covers_def)

lemma covers_stopped: "stops e \<Longrightarrow> covers (h # hs) ([(h, Some e)], None, s)"
  by (simp add: covers_def ends_event_def)

lemma covers_next:
  "covers hs d \<Longrightarrow> \<not> ends_event (h, r) \<Longrightarrow> covers (h # hs) (after_invocation (h, r) d)"
  by (cases "fst d") (auto simp: covers_def after_invocation_def)

lemma dispatch_loop_covers: "covers hs (dispatch_loop S i a k hs s)"
proof (induction hs arbitrary: s)
  case (Cons h hs)
  show ?case
    using runtime_error_flow
    by (auto simp: Let_def prod.case_eq_if ends_event_def intro!: covers_aborted covers_stopped covers_next Cons.IH
        split: option.splits) 
qed (simp add: covers_Nil)

text \<open>
  C6. Dispatch: the handlers of an event run in registry order, exact routes before fallbacks. An error
  of one handler keeps the next from running only if it is an error of the library with a scope wider
  than the handler; apart from that handlers are left out only when the session's context is aborted,
  and then the dispatch throws. A stream that no handler wants is reset or stopped with the close code
  for a missing route, and nothing is invoked.
\<close>

theorem event_handlers_run:
  assumes "resolve_route S i (sv_datagram_route S) x s = (Inr r, s1)"
    and "resolve_route S i (sv_bidirectional_route S) y t = (Inr q, t1)"
    and "resolve_route S i (sv_unidirectional_route S) z u = (Inr p, u1)"
  shows "covers (event_handlers S i DatagramKind (re_route r) s1) (dispatch_datagram S i x s) \<and>
    covers (event_handlers S i BidirectionalKind (re_route q) t1) (dispatch_bidirectional_stream S i y k t) \<and>
    covers (event_handlers S i UnidirectionalKind (re_route p) u1) (dispatch_unidirectional_stream S i z k u) \<and>
    (event_handlers S i BidirectionalKind (re_route q) t1 = [] \<longrightarrow>
       dispatch_bidirectional_stream S i y k t = ([], None, on_runtime (emit (ResetCall k (Some CODE_NO_ROUTE))) t1)) \<and>
    (event_handlers S i UnidirectionalKind (re_route p) u1 = [] \<longrightarrow>
       dispatch_unidirectional_stream S i z k u = ([], None, on_runtime (emit (ResetCall k (Some CODE_NO_ROUTE))) u1))"
  using assms
  by (simp add: dispatch_datagram_def dispatch_bidirectional_stream_def dispatch_unidirectional_stream_def
      dispatch_stream_def Let_def dispatch_loop_covers covers_Nil)

section \<open>Handlers of a session\<close>

text \<open>The invocations are the handlers in registry order, and none but the last has failed.\<close>

lemma after_invocation_simps [simp]:
  "fst (after_invocation c d) = c # fst d" "snd (after_invocation c d) = snd d"
  by (simp_all add: after_invocation_def)

definition admits :: "compiled_handler list \<Rightarrow> ('u, 'v) dispatched \<Rightarrow> bool" where
  "admits hs d \<longleftrightarrow>
     map fst (fst d) = take (length (fst d)) hs \<and>
     (\<forall>c \<in> set (butlast (fst d)). snd c = None) \<and>
     (fst (snd d) = None \<longrightarrow> length (fst d) = length hs \<and> (\<forall>c \<in> set (fst d). snd c = None))"

lemma admits_next: "admits hs d \<Longrightarrow> admits (h # hs) (after_invocation (h, None) d)"
  by (cases "fst d") (auto simp: admits_def)

lemma admits_failed: "admits (h # hs) ([], Some e, s)" "admits (h # hs) ([(h, r)], Some e, s)"
  by (simp_all add: admits_def)

lemma session_handlers_admit: "admits hs (session_handlers_loop S i a hs s)"
proof (induction hs arbitrary: s)
  case Nil
  show ?case by (simp add: admits_def)
next
  case (Cons h hs)
  show ?case
    by (auto simp: prod.case_eq_if intro!: admits_failed admits_next Cons.IH split: option.splits)
qed

lemma session_handlers_end:
  "admission_ended S i s = None \<Longrightarrow> session_handlers_loop S i a hs s = (calls, None, s') \<Longrightarrow> admission_ended S i s' = None"
proof (induction hs arbitrary: s calls)
  case (Cons h hs)
  obtain r s1 where v: "invoke_handler S i a h s = (r, s1)" by (cases "invoke_handler S i a h s")
  with Cons.prems have r: "r = None" "admission_ended S i s1 = None"
    by (auto split: option.splits)
  obtain l where "session_handlers_loop S i a hs s1 = (l, None, s')"
    using Cons.prems v r by (cases "session_handlers_loop S i a hs s1") (auto simp: after_invocation_def)
  with r Cons.IH show ?case by blast
qed simp

lemma authenticated_open:
  assumes "admission_ended S i s = None" "authenticate_session S i s = (Inr u, s1)"
  shows "admission_ended S i s1 = None"
  using assms
  by (auto simp: authenticate_session_def admission_ended_def context_aborted_def world_runtime_def
      split: option.splits prod.splits sum.splits principal.splits if_splits)

text \<open>
  C7. Admission: session handlers run only when the admission has not ended and the authenticator, if
  there is one, has returned something other than \<open>false\<close>; they run in registry order, and the first
  failure is the last invocation. The admission succeeds only when every handler has run without a
  failure and neither the session nor the admission has been aborted meanwhile; a session whose
  authenticator answers \<open>false\<close> is rejected with the authentication code before any handler runs.
\<close>

theorem admission_gates_handlers:
  assumes "authenticate_and_run S i s = (calls, failure, s')"
  shows "(calls \<noteq> [] \<or> failure = None \<longrightarrow>
        admission_ended S i s = None \<and>
        (\<exists>s1. authenticate_session S i s = (Inr (), s1) \<and>
           admits (event_handlers S i SessionKind None s1) (calls, failure, s'))) \<and>
      (failure = None \<longrightarrow> admission_ended S i s' = None) \<and>
      (admission_ended S i s = None \<longrightarrow> sv_authenticate S = Some f \<longrightarrow> f i s = (Inr PrincipalFalse, s2) \<longrightarrow>
         admission_ended S i s2 = None \<longrightarrow> calls = [] \<and> failure = Some authentication_rejected)"
proof (intro conjI impI)
  assume c: "calls \<noteq> [] \<or> failure = None"
  with assms show e: "admission_ended S i s = None"
    by (auto simp: authenticate_and_run_def split: option.splits)
  from assms c e obtain s1 a where "authenticate_session S i s = (Inr (), s1)"
    "session_handlers_loop S i a (event_handlers S i SessionKind None s1) s1 = (calls, failure, s')"
    by (auto simp: authenticate_and_run_def split: prod.splits sum.splits)
  then show "\<exists>s1. authenticate_session S i s = (Inr (), s1) \<and>
      admits (event_handlers S i SessionKind None s1) (calls, failure, s')"
    by (metis session_handlers_admit)
next
  assume "failure = None"
  with assms show "admission_ended S i s' = None"
    by (auto simp: authenticate_and_run_def intro: session_handlers_end authenticated_open
        split: option.splits prod.splits sum.splits)
qed (use assms in \<open>simp_all add: authenticate_and_run_def authenticate_session_def\<close>)

section \<open>An example\<close>

text \<open>
  Four datagram handlers, of which the second fails with an error of its own and the third with an
  error that ends the session; a session handler; an authenticator that refuses. No stream handlers.
\<close>

definition scripted_env :: "(string \<Rightarrow> ('w, 'v option) comp) \<Rightarrow> ('w, 'v) environment" where
  "scripted_env script =
     \<lparr>ne_container = [], ne_module = 0, ne_get = (\<lambda>m t b s. UnknownElement),
      ne_resolve = (\<lambda>m t ctx b. raise_error NonError), ne_create = (\<lambda>m t ctx. raise_error NonError),
      ne_global = (\<lambda>k. []), ne_request = (\<lambda>k. []), ne_aborted = (\<lambda>s. None), ne_callable = (\<lambda>x m. True),
      ne_guard = (\<lambda>g. ret True), ne_intercept = (\<lambda>i next'. next'), ne_transform = (\<lambda>p v k m. ret v),
      ne_call = (\<lambda>x m args. script m), ne_caught = (\<lambda>f. []), ne_instance = (\<lambda>e c. False),
      ne_catch = (\<lambda>f e. raise_error e), ne_choose = (\<lambda>s. 0)\<rparr>"

definition session_ending :: thrown where
  "session_ending = WtError WebTransportSessionError ''gone'' ''ERR_GONE'' False SESSION None"

definition example_script :: "string \<Rightarrow> ('w, 'v option) comp" where
  "example_script m =
     (if m = ''fails'' then raise_error NonError else if m = ''ends'' then raise_error session_ending else ret None)"

definition plain_handler :: "compiled_handler \<Rightarrow> pipeline_handler" where
  "plain_handler h =
     \<lparr>ph_instance = 0, ph_metatype = 0, ph_name = ''Chat'', ph_token = None, ph_module = None, ph_host = None,
      ph_method = ch_method h, ph_arity = 0, ph_parameters = [], ph_class_enhancers = (\<lambda>k. []),
      ph_method_enhancers = (\<lambda>k. [])\<rparr>"

definition example_server :: "(unit, nat) server" where
  "example_server =
     \<lparr>sv_environment = (\<lambda>i a. scripted_env example_script), sv_handler = plain_handler,
      sv_context_id = (\<lambda>i. None), sv_url = Some, sv_session = (\<lambda>i. 100 + i), sv_context = (\<lambda>i. 200 + i),
      sv_stream = Some, sv_reason = (\<lambda>i s. Some abort_error), sv_datagram_route = None,
      sv_bidirectional_route = None, sv_unidirectional_route = None,
      sv_authenticate = Some (\<lambda>i. ret PrincipalFalse)\<rparr>"

definition chat_handler :: "handler_kind \<Rightarrow> string \<Rightarrow> nat \<Rightarrow> compiled_handler" where
  "chat_handler kind m k =
     \<lparr>ch_path = ''/chat'', ch_kind = kind, ch_route = None, ch_method = m, ch_parameters = [], ch_id = k\<rparr>"

definition chat_handlers :: "compiled_handler list" where
  "chat_handlers =
     [chat_handler DatagramKind ''runs'' 0, chat_handler DatagramKind ''fails'' 1,
      chat_handler DatagramKind ''ends'' 2, chat_handler DatagramKind ''runs'' 3]"

definition example_world :: "(unit, nat) world_state" where
  "example_world =
     \<lparr>pw_world =
        \<lparr>sw_runtime =
           (new_runtime example_normal (register_all Some (chat_handler SessionKind ''runs'' 4 # chat_handlers)))
             \<lparr>rt_managed := [new_managed example_normal example_session ''192.0.2.1'' (True, False, False) 0]\<rparr>,
         sw_principal = (\<lambda>i. None), sw_user = ()\<rparr>,
      pw_created = []\<rparr>"

lemma example_routes:
  "resolve_route example_server 0 (sv_datagram_route example_server) x example_world =
     (Inr \<lparr>re_route = None, re_payload = Given x, re_value = Some x\<rparr>, example_world)"
  "resolve_route example_server 0 (sv_bidirectional_route example_server) x example_world =
     (Inr \<lparr>re_route = None, re_payload = Given x, re_value = Some x\<rparr>, example_world)"
  "resolve_route example_server 0 (sv_unidirectional_route example_server) x example_world =
     (Inr \<lparr>re_route = None, re_payload = Given x, re_value = Some x\<rparr>, example_world)"
  by (simp_all add: resolve_route_def context_reason_def context_aborted_def world_runtime_def example_world_def
      session_at_def new_managed_def example_server_def)

lemma example_found:
  "event_handlers example_server 0 DatagramKind None example_world = chat_handlers"
  "event_handlers example_server 0 BidirectionalKind None example_world = []"
  "event_handlers example_server 0 UnidirectionalKind None example_world = []"
  by code_simp+

theorem event_handlers_run_witness:
  "covers chat_handlers (dispatch_datagram example_server 0 7 example_world) \<and>
   map snd (fst (dispatch_datagram example_server 0 7 example_world)) = [None, Some NonError, Some session_ending] \<and>
   dispatch_bidirectional_stream example_server 0 8 5 example_world =
     ([], None, on_runtime (emit (ResetCall 5 (Some CODE_NO_ROUTE))) example_world)"
proof -
  have "map snd (fst (dispatch_datagram example_server 0 7 example_world)) = [None, Some NonError, Some session_ending]"
    by code_simp
  then show ?thesis
    using event_handlers_run [OF example_routes, of 7 8 5 9] by (simp add: example_found)
qed

theorem admission_gates_handlers_witness:
  "fst (authenticate_and_run example_server 0 example_world) = [] \<and>
   fst (snd (authenticate_and_run example_server 0 example_world)) = Some authentication_rejected"
proof -
  obtain calls failure s' where r: "authenticate_and_run example_server 0 example_world = (calls, failure, s')"
    by (cases "authenticate_and_run example_server 0 example_world")
  have "admission_ended example_server 0 example_world = None"
    by (simp add: admission_ended_def context_aborted_def world_runtime_def example_world_def session_at_def new_managed_def)
  then show ?thesis
    using admission_gates_handlers [OF r, where f = "\<lambda>i. ret PrincipalFalse" and ?s2.0 = example_world] r
    by (simp add: example_server_def ret_def)
qed

end
