(* ===== verification/Driver_Errors.thy ===== *)
theory Driver_Errors
  imports Errors "HOL-Library.Word"
begin

text \<open>
  The error boundary of the driver (\<open>packages/driver-rwebtransport/src/error.mapper.ts\<close>): every value the
  native library throws is turned into an error of the core hierarchy, according to the part of the
  driver that called it. Messages are ASCII text.
\<close>

datatype error_target = DriverTarget | SessionTarget | StreamTarget

record mapping_options =
  map_target :: error_target
  map_operation :: "string option"
  map_code :: "string option"

fun default_code :: "error_target \<Rightarrow> string" where
  "default_code DriverTarget = ''RWEBTRANSPORT_DRIVER_ERROR''"
| "default_code SessionTarget = ''RWEBTRANSPORT_SESSION_ERROR''"
| "default_code StreamTarget = ''RWEBTRANSPORT_STREAM_ERROR''"

fun default_message :: "error_target \<Rightarrow> string" where
  "default_message DriverTarget = ''rwebtransport driver operation failed''"
| "default_message SessionTarget = ''rwebtransport session operation failed''"
| "default_message StreamTarget = ''rwebtransport stream operation failed''"

fun target_scope :: "error_target \<Rightarrow> error_scope" where
  "target_scope DriverTarget = SERVER"
| "target_scope SessionTarget = SESSION"
| "target_scope StreamTarget = STREAM"

text \<open>\<open>message.trim().length > 0\<close>\<close>

definition white_space :: "char \<Rightarrow> bool" where
  "white_space c \<longleftrightarrow> (of_char c :: nat) \<in> {9, 10, 11, 12, 13, 32}"

definition has_text :: "string \<Rightarrow> bool" where
  "has_text s \<longleftrightarrow> (\<exists>c \<in> set s. \<not> white_space c)"

text \<open>\<open>error.message\<close> and \<open>error.name\<close> of the values that are instances of \<open>Error\<close>.\<close>

fun message_of :: "thrown \<Rightarrow> string option" where
  "message_of (WtError _ m _ _ _ _) = Some m"
| "message_of (NativeError m _ _) = Some m"
| "message_of (DomException _ m) = Some m"
| "message_of (JsError _ m) = Some m"
| "message_of NonError = None"

fun name_of :: "thrown \<Rightarrow> string option" where
  "name_of (WtError k _ _ _ _ _) = Some (error_name k)"
| "name_of (NativeError _ _ _) = Some ''WebTransportError''"
| "name_of (DomException n _) = Some n"
| "name_of (JsError n _) = Some n"
| "name_of NonError = None"

definition error_message :: "thrown \<Rightarrow> mapping_options \<Rightarrow> string" where
  "error_message e o' =
     (let detail = (case message_of e of
                      Some m \<Rightarrow> if has_text m then m else default_message (map_target o')
                    | None \<Rightarrow> default_message (map_target o'))
      in case map_operation o' of None \<Rightarrow> detail | Some op \<Rightarrow> op @ '': '' @ detail)"

definition is_abort_error :: "thrown \<Rightarrow> bool" where
  "is_abort_error e \<longleftrightarrow> name_of e = Some ''AbortError''"

definition is_timeout_error :: "thrown \<Rightarrow> bool" where
  "is_timeout_error e \<longleftrightarrow> name_of e = Some ''TimeoutError''"

definition code_or :: "mapping_options \<Rightarrow> string \<Rightarrow> string" where
  "code_or o' d = (case map_code o' of Some c \<Rightarrow> c | None \<Rightarrow> d)"

definition map_native_error :: "thrown \<Rightarrow> mapping_options \<Rightarrow> thrown" where
  "map_native_error e o' =
     (if instance_of e WebTransportError then e
      else
        (let message = error_message e o';
             code = code_or o' (default_code (map_target o'));
             scope = target_scope (map_target o');
             options = (\<lambda>c. \<lparr>opt_code = c, opt_recoverable = None, opt_scope = None, opt_cause = Some e\<rparr>)
         in if is_timeout_error e then
              new_error WebTransportTimeoutError message
                ((options (code_or o' ''RWEBTRANSPORT_TIMEOUT''))\<lparr>opt_scope := Some scope\<rparr>)
            else if is_abort_error e \<and> map_target o' = StreamTarget then
              new_error StreamClosedError message (options (code_or o' ''RWEBTRANSPORT_STREAM_ABORTED''))
            else if is_abort_error e \<and> map_target o' = SessionTarget then
              new_error SessionClosedError message (options (code_or o' ''RWEBTRANSPORT_SESSION_ABORTED''))
            else if map_target o' = DriverTarget then
              new_error WebTransportDriverError message ((options code)\<lparr>opt_recoverable := Some False\<rparr>)
            else if map_target o' = StreamTarget then
              (case e of
                 NativeError _ _ (Some _) \<Rightarrow>
                   new_error StreamResetError message (options (code_or o' ''RWEBTRANSPORT_STREAM_RESET''))
               | _ \<Rightarrow> new_error WebTransportStreamError message (options code))
            else
              (case e of
                 NativeError _ NativeStream _ \<Rightarrow>
                   new_error WebTransportStreamError message
                     (options (code_or o' ''RWEBTRANSPORT_STREAM_ERROR''))
               | _ \<Rightarrow> new_error WebTransportSessionError message (options code))))"

text \<open>\<open>createNativeStreamError\<close>; \<open>code >>> 0\<close> keeps the low 32 bits of an integer.\<close>

definition native_stream_error :: "int \<Rightarrow> string \<Rightarrow> thrown" where
  "native_stream_error code message =
     NativeError message NativeStream (Some (unat (word_of_int code :: 32 word)))"

section \<open>The boundary\<close>

text \<open>The class an error of another library is mapped to.\<close>

fun mapped_class :: "error_target \<Rightarrow> thrown \<Rightarrow> error_class" where
  "mapped_class t e =
     (if is_timeout_error e then WebTransportTimeoutError
      else if t = DriverTarget then WebTransportDriverError
      else if is_abort_error e then (if t = StreamTarget then StreamClosedError else SessionClosedError)
      else (case (t, e) of
              (StreamTarget, NativeError _ _ (Some _)) \<Rightarrow> StreamResetError
            | (StreamTarget, _) \<Rightarrow> WebTransportStreamError
            | (_, NativeError _ NativeStream _) \<Rightarrow> WebTransportStreamError
            | _ \<Rightarrow> WebTransportSessionError))"

text \<open>The code of a mapped error when the caller gave none: one code per class.\<close>

fun class_code :: "error_class \<Rightarrow> string" where
  "class_code WebTransportTimeoutError = ''RWEBTRANSPORT_TIMEOUT''"
| "class_code StreamClosedError = ''RWEBTRANSPORT_STREAM_ABORTED''"
| "class_code SessionClosedError = ''RWEBTRANSPORT_SESSION_ABORTED''"
| "class_code StreamResetError = ''RWEBTRANSPORT_STREAM_RESET''"
| "class_code WebTransportStreamError = ''RWEBTRANSPORT_STREAM_ERROR''"
| "class_code WebTransportDriverError = ''RWEBTRANSPORT_DRIVER_ERROR''"
| "class_code _ = ''RWEBTRANSPORT_SESSION_ERROR''"

text \<open>The specification of the mapping for a value \<open>e\<close> that is no error of the core.\<close>

definition mapped_spec :: "thrown \<Rightarrow> mapping_options \<Rightarrow> thrown" where
  "mapped_spec e o' =
     (let k = mapped_class (map_target o') e in
      WtError k (error_message e o') (code_or o' (class_code k))
        (k \<notin> {WebTransportDriverError, WebTransportSessionError})
        (if k = WebTransportStreamError then STREAM else target_scope (map_target o')) (Some e))"

lemma abort_not_timeout [simp]: "is_abort_error e \<Longrightarrow> \<not> is_timeout_error e"
  by (simp add: is_abort_error_def is_timeout_error_def)

lemma foreign_cases:
  assumes "\<not> instance_of e WebTransportError"
  obtains m src c where "e = NativeError m src c" | n m where "e = DomException n m"
    | n m where "e = JsError n m" | "e = NonError"
proof (cases e)
  case (WtError k m c r s x)
  then have "instance_of e WebTransportError" by (cases k) simp_all
  with assms show thesis by contradiction
qed (auto intro: that)

lemma native_names [simp]:
  "\<not> is_abort_error (NativeError m s c)" "\<not> is_timeout_error (NativeError m s c)"
  by (simp_all add: is_abort_error_def is_timeout_error_def)

lemma map_native_class:
  assumes "\<not> instance_of e WebTransportError"
  shows "map_native_error e o' = mapped_spec e o'"
  using assms
proof (cases e rule: foreign_cases)
  case (1 m src c)
  then show ?thesis
    by (cases "map_target o'"; cases src; cases c)
      (simp_all add: map_native_error_def mapped_spec_def Let_def new_error_eq class_recoverable_def)
next
  case (2 n m)
  then show ?thesis
    by (cases "map_target o'")
      (auto simp: map_native_error_def mapped_spec_def Let_def new_error_eq class_recoverable_def)
next
  case (3 n m)
  then show ?thesis
    by (cases "map_target o'")
      (auto simp: map_native_error_def mapped_spec_def Let_def new_error_eq class_recoverable_def)
next
  case 4
  then show ?thesis
    by (cases "map_target o'")
      (auto simp: map_native_error_def mapped_spec_def Let_def new_error_eq class_recoverable_def
        is_abort_error_def is_timeout_error_def)
qed

lemma mapped_is_error: "instance_of (map_native_error e o') WebTransportError"
proof (cases "instance_of e WebTransportError")
  case False
  have "instance_of (WtError k m c r s x) WebTransportError" for k m c r s x by (cases k) simp_all
  with map_native_class [OF False, of o'] show ?thesis by (simp add: mapped_spec_def Let_def)
qed (simp add: map_native_error_def)

lemma map_core_error: "instance_of e WebTransportError \<Longrightarrow> map_native_error e o' = e"
  by (simp add: map_native_error_def)

text \<open>
  C33. The type of the error boundary: whatever is thrown, the mapped value is a \<open>WebTransportError\<close>;
  an error of the core hierarchy passes unchanged, so mapping again, as the outer adapters do, changes
  nothing. Any other value becomes the cause of an error whose class depends on the target and on the
  value only (\<open>mapped_class\<close>), whose scope is the scope of the target (a stream failure seen by the
  session stays a stream failure), and whose code is the caller's code or the one of the class.
\<close>

theorem mapped_errors_typed:
  "instance_of (map_native_error e o') WebTransportError \<and>
   map_native_error (map_native_error e o') o2 = map_native_error e o' \<and>
   map_native_error e o' = (if instance_of e WebTransportError then e else mapped_spec e o')"
  using mapped_is_error [of e o'] map_core_error [OF mapped_is_error, of e o' o2] map_native_class [of e o']
    map_core_error [of e o'] by auto

text \<open>The stream code that a stream error carries, through the errors that it caused.\<close>

fun stream_code :: "thrown \<Rightarrow> nat option" where
  "stream_code (NativeError _ _ c) = c"
| "stream_code (WtError _ _ _ _ _ (Some e)) = stream_code e"
| "stream_code _ = None"

text \<open>
  A stream code survives the way through the boundary: a stream that was reset with a code of 32
  bits is reported as \<open>StreamResetError\<close> at stream scope with that code behind it, and a code outside
  of the 32 bits is reported modulo \<open>2 ^ 32\<close>.
\<close>

theorem stream_code_roundtrip:
  assumes "map_target o' = StreamTarget"
  shows "stream_code (map_native_error (native_stream_error code m) o') = Some (nat (code mod 2 ^ 32)) \<and>
     instance_of (map_native_error (native_stream_error code m) o') StreamResetError \<and>
     thrown_scope (map_native_error (native_stream_error code m) o') = Some STREAM \<and>
     (0 \<le> code \<and> code < 2 ^ 32 \<longrightarrow>
      map_option int (stream_code (map_native_error (native_stream_error code m) o')) = Some code)"
proof -
  have n: "unat (word_of_int code :: 32 word) = nat (code mod 2 ^ 32)"
    by (simp add: unat_eq_nat_uint uint_word_of_int)
  have "stream_code (map_native_error (native_stream_error code m) o') = Some (nat (code mod 2 ^ 32))"
    "instance_of (map_native_error (native_stream_error code m) o') StreamResetError"
    "thrown_scope (map_native_error (native_stream_error code m) o') = Some STREAM"
    using assms n by (simp_all add: native_stream_error_def map_native_error_def Let_def new_error_eq)
  then show ?thesis by simp
qed

theorem stream_code_roundtrip_witness:
  "stream_code (map_native_error (native_stream_error 4294967553 ''reset'')
     \<lparr>map_target = StreamTarget, map_operation = Some ''read stream'', map_code = None\<rparr>) = Some 257"
  using stream_code_roundtrip [of "\<lparr>map_target = StreamTarget, map_operation = Some ''read stream'', map_code = None\<rparr>"
    4294967553 "''reset''"] by simp

end
