(* ===== verification/Driver_Streams.thy ===== *)
theory Driver_Streams
  imports Driver_Errors
begin

text \<open>
  The stream adapters of the driver (\<open>packages/driver-rwebtransport/src/stream.adapter.ts\<close>): one
  lifecycle with an abort signal per stream, and a bridge per half that couples a native stream to a
  core stream. The events are what the platform streams, the native library, the application and the
  session do, in any order; the calls the adapter makes to them are kept as a trace. A receive stream
  has a readable bridge, a send stream a writable one, a bidirectional stream both.
\<close>

datatype stream_action =
    StreamOpened | StreamClosed | BytesReceived nat | BytesSent nat
  | CancelNative thrown | AbortNative thrown | CloseNative
  | CloseReadable | ErrorReadable thrown | ErrorWritable thrown

record readable_bridge =
  rb_finished :: bool
  rb_stop :: bool

record writable_bridge =
  wb_finished :: bool
  wb_closing :: bool
  wb_reset :: bool

record stream_adapter =
  sa_remaining :: int
  sa_closed :: bool
  sa_reason :: "thrown option"
  sa_read :: "readable_bridge option"
  sa_write :: "writable_bridge option"
  sa_trace :: "stream_action list"

definition stream_emit :: "stream_action \<Rightarrow> stream_adapter \<Rightarrow> stream_adapter" where
  "stream_emit a s = s\<lparr>sa_trace := sa_trace s @ [a]\<rparr>"

definition stream_mapping :: "string \<Rightarrow> mapping_options" where
  "stream_mapping operation = \<lparr>map_target = StreamTarget, map_operation = Some operation, map_code = None\<rparr>"

section \<open>Stream ids and session termination\<close>

definition stream_id :: "js_number \<Rightarrow> thrown + nat" where
  "stream_id v =
     (if int_at_least 0 v then Inr (nat_of_number v)
      else Inl (new_error WebTransportProtocolError ''rwebtransport returned an invalid stream id''
        \<lparr>opt_code = ''RWEBTRANSPORT_INVALID_STREAM_ID'', opt_recoverable = Some False,
         opt_scope = Some STREAM, opt_cause = None\<rparr>))"

text \<open>\<open>/session (?:closed|ended)/i\<close> on ASCII text.\<close>

definition lower :: "char \<Rightarrow> char" where
  "lower c = (let n = of_char c :: nat in if 65 \<le> n \<and> n \<le> 90 then char_of (n + 32) else c)"

fun has_infix :: "string \<Rightarrow> string \<Rightarrow> bool" where
  "has_infix p [] = (p = [])"
| "has_infix p (c # s) = (take (length p) (c # s) = p \<or> has_infix p s)"

definition is_session_termination :: "thrown \<Rightarrow> bool" where
  "is_session_termination reason =
     (case thrown_scope reason of
        Some s \<Rightarrow> s = SESSION
      | None \<Rightarrow>
          is_abort_error reason \<or>
          (case message_of reason of
             Some m \<Rightarrow> has_infix ''session closed'' (map lower m) \<or> has_infix ''session ended'' (map lower m)
           | None \<Rightarrow> False))"

section \<open>The bridges\<close>

text \<open>\<open>ReadableBridge.stop\<close> and \<open>performStop\<close> up to its wait.\<close>

definition read_stop :: "thrown \<Rightarrow> stream_adapter \<Rightarrow> stream_adapter" where
  "read_stop reason s =
     (case sa_read s of
        None \<Rightarrow> s
      | Some b \<Rightarrow>
          if rb_stop b then s
          else
            (let s1 = s\<lparr>sa_read := Some (b\<lparr>rb_stop := True\<rparr>)\<rparr>
             in if rb_finished b then s1 else stream_emit (CancelNative reason) s1))"

text \<open>\<open>WritableBridge.reset\<close> and \<open>performReset\<close> up to its wait.\<close>

definition write_reset :: "thrown \<Rightarrow> stream_adapter \<Rightarrow> stream_adapter" where
  "write_reset reason s =
     (case sa_write s of
        None \<Rightarrow> s
      | Some b \<Rightarrow>
          if wb_closing b \<or> wb_reset b then s
          else
            (let s1 = s\<lparr>sa_write := Some (b\<lparr>wb_reset := True\<rparr>)\<rparr>
             in if wb_finished b then s1 else stream_emit (AbortNative reason) s1))"

text \<open>The abort listener of the readable bridge.\<close>

definition read_listener :: "thrown \<Rightarrow> stream_adapter \<Rightarrow> stream_adapter" where
  "read_listener reason s =
     (case sa_read s of
        None \<Rightarrow> s
      | Some b \<Rightarrow>
          if rb_finished b then s else read_stop reason (stream_emit (ErrorReadable reason) s))"

text \<open>A signal aborted without a reason gets an \<open>AbortError\<close>.\<close>

definition default_abort :: thrown where
  "default_abort = DomException ''AbortError'' ''This operation was aborted''"

lemma read_listener_frame [simp]:
  "sa_closed (read_listener r s) = sa_closed s" "sa_write (read_listener r s) = sa_write s"
  "sa_remaining (read_listener r s) = sa_remaining s" "sa_reason (read_listener r s) = sa_reason s"
  by (simp_all add: read_listener_def read_stop_def stream_emit_def Let_def split: option.split)

text \<open>
  \<open>StreamLifecycle.abort\<close>, \<open>StreamLifecycle.finishPart\<close>, \<open>WritableBridge.finish\<close> and the abort
  listener of the writable bridge, which call each other: the abort runs the listeners, a listener may
  finish its half, and the last half that finishes aborts.
\<close>

function abort_stream :: "thrown option \<Rightarrow> stream_adapter \<Rightarrow> stream_adapter"
  and finish_part :: "stream_adapter \<Rightarrow> stream_adapter"
  and finish_write :: "stream_adapter \<Rightarrow> stream_adapter"
  and write_listener :: "thrown \<Rightarrow> stream_adapter \<Rightarrow> stream_adapter" where
  "abort_stream r s =
     (if sa_closed s then s
      else
        (let reason = (case r of Some e \<Rightarrow> e | None \<Rightarrow> default_abort);
             s1 = s\<lparr>sa_closed := True, sa_reason := Some reason\<rparr>
         in stream_emit StreamClosed (write_listener reason (read_listener reason s1))))"
| "finish_part s =
     (if sa_closed s then s
      else
        (let s1 = s\<lparr>sa_remaining := max 0 (sa_remaining s - 1)\<rparr>
         in if sa_remaining s1 = 0 then abort_stream None s1 else s1))"
| "finish_write s =
     (case sa_write s of
        None \<Rightarrow> s
      | Some b \<Rightarrow> if wb_finished b then s else finish_part (s\<lparr>sa_write := Some (b\<lparr>wb_finished := True\<rparr>)\<rparr>))"
| "write_listener reason s =
     (case sa_write s of
        None \<Rightarrow> s
      | Some b \<Rightarrow>
          if wb_finished b \<or> wb_closing b then s
          else
            (let s1 = stream_emit (ErrorWritable reason) s
             in if wb_reset b \<or> is_session_termination reason then finish_write s1 else write_reset reason s1))"
  by pat_completeness auto

text \<open>
  The calls end: an abort is never inside another abort, because the first thing it does is to mark
  the lifecycle as closed.
\<close>

termination
  by (relation "measure (\<lambda>x. case x of
       Inl (Inl (r, s)) \<Rightarrow> if sa_closed s then 0 else 4
     | Inl (Inr s) \<Rightarrow> if sa_closed s then 0 else 5
     | Inr (Inl s) \<Rightarrow> if sa_closed s then 1 else 6
     | Inr (Inr (r, s)) \<Rightarrow> if sa_closed s then 2 else 7)")
    (auto simp: stream_emit_def Let_def)

declare abort_stream.simps [simp del] finish_part.simps [simp del] finish_write.simps [simp del]
  write_listener.simps [simp del]

text \<open>\<open>ReadableBridge.finish\<close>\<close>

definition finish_read :: "bool \<Rightarrow> stream_adapter \<Rightarrow> stream_adapter" where
  "finish_read count_as_part s =
     (case sa_read s of
        None \<Rightarrow> s
      | Some b \<Rightarrow>
          (let s1 = s\<lparr>sa_read := Some (b\<lparr>rb_finished := True\<rparr>)\<rparr>
           in if \<not> rb_finished b \<and> count_as_part then finish_part s1 else s1))"

section \<open>The adapters\<close>

datatype stream_shape = ReceiveStream | SendStream | BidiStream

text \<open>
  The constructors: the lifecycle counts the stream and subscribes to the session, whose signal may
  have been aborted already; then the bridges are built, and each looks at the signal.
\<close>

definition new_adapter :: "stream_shape \<Rightarrow> thrown option \<Rightarrow> stream_adapter" where
  "new_adapter shape parent =
     (let s0 = \<lparr>sa_remaining = (if shape = BidiStream then 2 else 1), sa_closed = False, sa_reason = None,
                sa_read = None, sa_write = None, sa_trace = [StreamOpened]\<rparr>;
          s1 = (case parent of Some r \<Rightarrow> abort_stream (Some r) s0 | None \<Rightarrow> s0);
          s2 = (if shape = SendStream then s1
                else (let s' = s1\<lparr>sa_read := Some \<lparr>rb_finished = False, rb_stop = False\<rparr>\<rparr>
                      in case sa_reason s' of Some r \<Rightarrow> read_listener r s' | None \<Rightarrow> s'))
      in if shape = ReceiveStream then s2
         else (let s' = s2\<lparr>sa_write := Some \<lparr>wb_finished = False, wb_closing = False, wb_reset = False\<rparr>\<rparr>
               in case sa_reason s' of Some r \<Rightarrow> write_listener r s' | None \<Rightarrow> s'))"

text \<open>The three adapters: the id is checked before anything is counted.\<close>

definition receive_adapter :: "js_number \<Rightarrow> thrown option \<Rightarrow> thrown + nat \<times> stream_adapter" where
  "receive_adapter native_id parent =
     bindE (stream_id native_id) (\<lambda>i. Inr (i, new_adapter ReceiveStream parent))"

definition send_adapter :: "js_number \<Rightarrow> thrown option \<Rightarrow> thrown + nat \<times> stream_adapter" where
  "send_adapter native_id parent =
     bindE (stream_id native_id) (\<lambda>i. Inr (i, new_adapter SendStream parent))"

definition bidi_adapter :: "js_number \<Rightarrow> js_number \<Rightarrow> thrown option \<Rightarrow> thrown + nat \<times> stream_adapter" where
  "bidi_adapter readable_id writable_id parent =
     (if readable_id \<noteq> writable_id \<or> readable_id = NaN then
        Inl (new_error WebTransportProtocolError ''bidirectional stream halves have different ids''
          \<lparr>opt_code = ''RWEBTRANSPORT_BIDI_STREAM_ID_MISMATCH'', opt_recoverable = Some False,
           opt_scope = Some STREAM, opt_cause = None\<rparr>)
      else bindE (stream_id readable_id) (\<lambda>i. Inr (i, new_adapter BidiStream parent)))"

text \<open>\<open>stop\<close> of a receive stream, \<open>reset\<close> of a send stream and of a bidirectional stream, up to the wait.\<close>

definition native_reset_message :: "stream_adapter \<Rightarrow> string" where
  "native_reset_message s =
     (if sa_write s = None then ''receive stream stopped by application'' else ''stream reset by application'')"

definition core_reset_error :: "stream_adapter \<Rightarrow> thrown" where
  "core_reset_error s =
     (if sa_write s = None then
        new_error WebTransportStreamError ''receive stream stopped by application''
          (with_code ''RWEBTRANSPORT_RECEIVE_STREAM_STOPPED'')
      else if sa_read s = None then
        new_error WebTransportStreamError ''send stream reset by application''
          (with_code ''RWEBTRANSPORT_SEND_STREAM_RESET'')
      else
        new_error WebTransportStreamError ''bidirectional stream reset by application''
          (with_code ''RWEBTRANSPORT_BIDI_STREAM_RESET''))"

definition reset_stream :: "int \<Rightarrow> stream_adapter \<Rightarrow> stream_adapter" where
  "reset_stream code s =
     (let native = native_stream_error code (native_reset_message s)
      in abort_stream (Some (core_reset_error s)) (write_reset native (read_stop native s)))"

section \<open>Events\<close>

datatype stream_event =
    ReadDone | ReadValue nat | ReadFails thrown | ReaderClosedFails thrown | CancelRequested thrown
  | CancelSettles | StopSettles
  | WriteSucceeds nat | WriteFails thrown | CloseRequested | CloseSettles "thrown option"
  | AbortRequested thrown | AbortSettles | WriterClosed | WriterClosedFails thrown | ResetSettles
  | Reset int | ParentAborts thrown

fun stream_step :: "stream_event \<Rightarrow> stream_adapter \<Rightarrow> stream_adapter" where
  "stream_step ReadDone s = finish_read True (stream_emit CloseReadable s)"
| "stream_step (ReadValue n) s = stream_emit (BytesReceived n) s"
| "stream_step (ReadFails e) s =
     (let mapped = map_native_error e (stream_mapping ''read stream'')
      in finish_read False (abort_stream (Some mapped) (stream_emit (ErrorReadable mapped) s)))"
| "stream_step (ReaderClosedFails e) s =
     (case sa_read s of
        None \<Rightarrow> s
      | Some b \<Rightarrow>
          if rb_finished b then s
          else
            (let mapped = map_native_error e (stream_mapping ''receive stream closed'')
             in abort_stream (Some mapped) (finish_read False (stream_emit (ErrorReadable mapped) s))))"
| "stream_step (CancelRequested reason) s = stream_emit (CancelNative reason) s"
| "stream_step CancelSettles s = finish_read True s"
| "stream_step StopSettles s = finish_read True s"
| "stream_step (WriteSucceeds n) s = stream_emit (BytesSent n) s"
| "stream_step (WriteFails e) s =
     finish_write (abort_stream (Some (map_native_error e (stream_mapping ''write stream''))) s)"
| "stream_step CloseRequested s =
     (case sa_write s of
        None \<Rightarrow> s
      | Some b \<Rightarrow> stream_emit CloseNative (s\<lparr>sa_write := Some (b\<lparr>wb_closing := True\<rparr>)\<rparr>))"
| "stream_step (CloseSettles err) s =
     finish_write
       (case err of
          None \<Rightarrow> s
        | Some e \<Rightarrow> abort_stream (Some (map_native_error e (stream_mapping ''close send stream''))) s)"
| "stream_step (AbortRequested reason) s =
     (case sa_write s of
        None \<Rightarrow> s
      | Some b \<Rightarrow> if wb_closing b then s else stream_emit (AbortNative reason) s)"
| "stream_step AbortSettles s = finish_write s"
| "stream_step WriterClosed s = finish_write s"
| "stream_step (WriterClosedFails e) s =
     (case sa_write s of
        None \<Rightarrow> s
      | Some b \<Rightarrow>
          if wb_finished b \<or> wb_closing b then s
          else
            (let mapped = map_native_error e (stream_mapping ''send stream closed'')
             in finish_write (abort_stream (Some mapped) (stream_emit (ErrorWritable mapped) s))))"
| "stream_step ResetSettles s = finish_write s"
| "stream_step (Reset code) s = reset_stream code s"
| "stream_step (ParentAborts reason) s = abort_stream (Some reason) s"

text \<open>
  An event of a half that the stream does not have, or that answers a call that was not made, does not
  happen.
\<close>

fun read_event :: "stream_event \<Rightarrow> bool" where
  "read_event ReadDone = True" | "read_event (ReadValue _) = True" | "read_event (ReadFails _) = True"
| "read_event (CancelRequested _) = True" | "read_event CancelSettles = True" | "read_event StopSettles = True"
| "read_event _ = False"

fun write_event :: "stream_event \<Rightarrow> bool" where
  "write_event (WriteSucceeds _) = True" | "write_event (WriteFails _) = True"
| "write_event (CloseSettles _) = True" | "write_event AbortSettles = True" | "write_event WriterClosed = True"
| "write_event ResetSettles = True" | "write_event _ = False"

definition stream_next :: "stream_event \<Rightarrow> stream_adapter \<Rightarrow> stream_adapter" where
  "stream_next e s =
     (if (read_event e \<and> sa_read s = None) \<or> (write_event e \<and> sa_write s = None) then s else stream_step e s)"

definition stream_run :: "stream_event list \<Rightarrow> stream_adapter \<Rightarrow> stream_adapter" where
  "stream_run es s = fold stream_next es s"

section \<open>What an abort does\<close>

lemma abort_closed [simp]: "sa_closed s \<Longrightarrow> abort_stream r s = s"
  by (simp add: abort_stream.simps)

lemma finish_part_closed [simp]: "sa_closed s \<Longrightarrow> finish_part s = s"
  by (simp add: finish_part.simps)

lemma finish_write_closed:
  "sa_closed s \<Longrightarrow> finish_write s =
     (case sa_write s of None \<Rightarrow> s | Some b \<Rightarrow> s\<lparr>sa_write := Some (b\<lparr>wb_finished := True\<rparr>)\<rparr>)"
  by (auto simp: finish_write.simps split: option.split)

text \<open>The two counts that the driver's metrics are made of.\<close>

abbreviation times_opened :: "stream_adapter \<Rightarrow> nat" where
  "times_opened s \<equiv> count_list (sa_trace s) StreamOpened"

abbreviation times_closed :: "stream_adapter \<Rightarrow> nat" where
  "times_closed s \<equiv> count_list (sa_trace s) StreamClosed"

lemma stream_emit_simps [simp]:
  "sa_closed (stream_emit a s) = sa_closed s" "sa_reason (stream_emit a s) = sa_reason s"
  "sa_remaining (stream_emit a s) = sa_remaining s" "sa_read (stream_emit a s) = sa_read s"
  "sa_write (stream_emit a s) = sa_write s" "sa_trace (stream_emit a s) = sa_trace s @ [a]"
  by (simp_all add: stream_emit_def)

text \<open>A half that is finished, or whose native side is being ended, so that it will be.\<close>

definition read_ending :: "stream_adapter \<Rightarrow> bool" where
  "read_ending s \<longleftrightarrow> (case sa_read s of None \<Rightarrow> True | Some b \<Rightarrow> rb_finished b \<or> rb_stop b)"

definition write_ending :: "stream_adapter \<Rightarrow> bool" where
  "write_ending s \<longleftrightarrow> (case sa_write s of None \<Rightarrow> True | Some b \<Rightarrow> wb_finished b \<or> wb_closing b \<or> wb_reset b)"

lemma read_listener_ends:
  "read_ending (read_listener r s)" "times_opened (read_listener r s) = times_opened s"
  "times_closed (read_listener r s) = times_closed s"
  by (auto simp: read_listener_def read_stop_def read_ending_def Let_def split: option.split)

lemma write_listener_ends:
  assumes "sa_closed s"
  shows "write_ending (write_listener r s)" "times_opened (write_listener r s) = times_opened s"
    "times_closed (write_listener r s) = times_closed s" "sa_closed (write_listener r s)"
    "sa_read (write_listener r s) = sa_read s" "sa_reason (write_listener r s) = sa_reason s"
  using assms
  by (auto simp: write_listener.simps write_reset_def write_ending_def finish_write_closed Let_def split: option.split)

lemma abort_open:
  assumes "\<not> sa_closed s"
  shows "sa_closed (abort_stream r s)" "sa_reason (abort_stream r s) = Some (case r of Some e \<Rightarrow> e | None \<Rightarrow> default_abort)"
    "read_ending (abort_stream r s)" "write_ending (abort_stream r s)"
    "times_opened (abort_stream r s) = times_opened s" "times_closed (abort_stream r s) = Suc (times_closed s)"
proof -
  define s1 where "s1 = s\<lparr>sa_closed := True, sa_reason := Some (case r of Some e \<Rightarrow> e | None \<Rightarrow> default_abort)\<rparr>"
  define x where "x = (case r of Some e \<Rightarrow> e | None \<Rightarrow> default_abort)"
  have e: "abort_stream r s = stream_emit StreamClosed (write_listener x (read_listener x s1))"
    using assms by (simp add: abort_stream.simps [of r s] s1_def x_def Let_def)
  have c: "sa_closed (read_listener x s1)" by (simp add: s1_def)
  note w = write_listener_ends [OF c, of x] and l = read_listener_ends [of x s1]
  show "sa_closed (abort_stream r s)" "sa_reason (abort_stream r s) = Some (case r of Some e \<Rightarrow> e | None \<Rightarrow> default_abort)"
    using w by (simp_all add: e s1_def)
  show "read_ending (abort_stream r s)" using w(5) l(1) by (simp add: e read_ending_def)
  show "write_ending (abort_stream r s)" using w(1) by (simp add: e write_ending_def)
  show "times_opened (abort_stream r s) = times_opened s" "times_closed (abort_stream r s) = Suc (times_closed s)"
    using w(2,3) l(2,3) by (simp_all add: e s1_def)
qed

section \<open>The lifecycle invariant\<close>

definition read_open :: "stream_adapter \<Rightarrow> int" where
  "read_open s = (case sa_read s of None \<Rightarrow> 0 | Some b \<Rightarrow> if rb_finished b then 0 else 1)"

definition write_open :: "stream_adapter \<Rightarrow> int" where
  "write_open s = (case sa_write s of None \<Rightarrow> 0 | Some b \<Rightarrow> if wb_finished b then 0 else 1)"

definition stream_inv :: "stream_adapter \<Rightarrow> bool" where
  "stream_inv s \<longleftrightarrow>
     times_opened s = 1 \<and> times_closed s = (if sa_closed s then 1 else 0) \<and>
     (sa_closed s \<longleftrightarrow> sa_reason s \<noteq> None) \<and>
     (if sa_closed s then read_ending s \<and> write_ending s
      else sa_remaining s = read_open s + write_open s \<and> 1 \<le> read_open s + write_open s)"

lemma parts_emit [simp]:
  "read_ending (stream_emit a s) = read_ending s" "write_ending (stream_emit a s) = write_ending s"
  "read_open (stream_emit a s) = read_open s" "write_open (stream_emit a s) = write_open s"
  by (simp_all add: read_ending_def write_ending_def read_open_def write_open_def)

named_theorems stream_intros \<open>operations that keep the lifecycle invariant\<close>

lemma emit_inv [stream_intros]:
  "stream_inv s \<Longrightarrow> a \<noteq> StreamOpened \<Longrightarrow> a \<noteq> StreamClosed \<Longrightarrow> stream_inv (stream_emit a s)"
  by (simp add: stream_inv_def)

lemma abort_inv:
  assumes "times_opened s = 1" "times_closed s = 0" "\<not> sa_closed s"
  shows "stream_inv (abort_stream r s)"
  using abort_open [OF assms(3), of r] assms by (simp add: stream_inv_def)

lemma abort_stream_inv [stream_intros]: "stream_inv s \<Longrightarrow> stream_inv (abort_stream r s)"
proof (cases "sa_closed s")
  case False
  assume "stream_inv s"
  with False show ?thesis by (intro abort_inv) (simp_all add: stream_inv_def)
qed simp

text \<open>A half has just been marked as finished: \<open>remaining\<close> counts it still.\<close>

lemma finish_part_inv:
  assumes "times_opened s = 1" "times_closed s = 0" "\<not> sa_closed s" "sa_reason s = None"
    and "sa_remaining s = 1 + (read_open s + write_open s)" "0 \<le> read_open s + write_open s"
  shows "stream_inv (finish_part s)"
proof (cases "read_open s + write_open s = 0")
  case True
  with assms have "finish_part s = abort_stream None (s\<lparr>sa_remaining := 0\<rparr>)"
    by (simp add: finish_part.simps Let_def)
  moreover have "stream_inv (abort_stream None (s\<lparr>sa_remaining := 0\<rparr>))"
    by (rule abort_inv) (use assms in simp_all)
  ultimately show ?thesis by simp
next
  case False
  with assms show ?thesis
    by (simp add: finish_part.simps Let_def stream_inv_def read_open_def write_open_def)
qed

lemma open_bounds: "0 \<le> read_open s" "0 \<le> write_open s"
  by (simp_all add: read_open_def write_open_def split: option.split)

lemma finish_write_inv [stream_intros]:
  assumes "stream_inv s"
  shows "stream_inv (finish_write s)"
proof (cases "sa_write s")
  case None
  with assms show ?thesis by (simp add: finish_write.simps)
next
  case (Some b)
  show ?thesis
  proof (cases "wb_finished b")
    case True
    with Some assms show ?thesis by (simp add: finish_write.simps)
  next
    case False
    let ?s = "s\<lparr>sa_write := Some (b\<lparr>wb_finished := True\<rparr>)\<rparr>"
    have e: "finish_write s = finish_part ?s" using Some False by (simp add: finish_write.simps)
    show ?thesis
    proof (cases "sa_closed s")
      case True
      with assms Some show ?thesis by (simp add: e stream_inv_def read_ending_def write_ending_def)
    next
      case False
      with assms Some \<open>\<not> wb_finished b\<close> show ?thesis unfolding e
        by (intro finish_part_inv) (auto simp: stream_inv_def read_open_def write_open_def)
    qed
  qed
qed

lemma finish_read_inv [stream_intros]:
  assumes "stream_inv s"
  shows "stream_inv (finish_read True s)"
proof (cases "sa_read s")
  case None
  with assms show ?thesis by (simp add: finish_read_def)
next
  case (Some b)
  show ?thesis
  proof (cases "rb_finished b")
    case True
    with Some have "finish_read True s = s" by (cases s; cases b) (simp add: finish_read_def)
    with assms show ?thesis by simp
  next
    case False
    let ?s = "s\<lparr>sa_read := Some (b\<lparr>rb_finished := True\<rparr>)\<rparr>"
    have e: "finish_read True s = finish_part ?s" using Some False by (simp add: finish_read_def Let_def)
    show ?thesis
    proof (cases "sa_closed s")
      case True
      with assms Some show ?thesis by (simp add: e stream_inv_def read_ending_def write_ending_def)
    next
      case False
      with assms Some \<open>\<not> rb_finished b\<close> show ?thesis unfolding e
        by (intro finish_part_inv) (auto simp: stream_inv_def read_open_def write_open_def)
    qed
  qed
qed

lemma finish_read_uncounted:
  assumes "stream_inv s" "sa_closed s"
  shows "stream_inv (finish_read False s)"
  using assms by (auto simp: finish_read_def stream_inv_def read_ending_def write_ending_def split: option.split)

lemma read_stop_inv [stream_intros]: "stream_inv s \<Longrightarrow> stream_inv (read_stop r s)"
  by (auto simp: read_stop_def Let_def stream_inv_def read_ending_def write_ending_def read_open_def write_open_def
      split: option.splits)

lemma write_reset_inv [stream_intros]: "stream_inv s \<Longrightarrow> stream_inv (write_reset r s)"
  by (auto simp: write_reset_def Let_def stream_inv_def read_ending_def write_ending_def read_open_def write_open_def
      split: option.splits)

lemma reset_stream_inv [stream_intros]: "stream_inv s \<Longrightarrow> stream_inv (reset_stream code s)"
  by (simp add: reset_stream_def Let_def stream_intros)

lemma finish_read_frame [simp]:
  "sa_closed (finish_read False s) = sa_closed s" "sa_reason (finish_read False s) = sa_reason s"
  "times_opened (finish_read False s) = times_opened s" "times_closed (finish_read False s) = times_closed s"
  by (simp_all add: finish_read_def split: option.split)

lemma abort_is_closed [simp]: "sa_closed (abort_stream r s)"
  using abort_open(1) by (cases "sa_closed s") simp_all

lemma reader_closed_inv:
  assumes "stream_inv s"
  shows "stream_inv (abort_stream r (finish_read False s))"
proof (cases "sa_closed s")
  case True
  with assms show ?thesis by (simp add: finish_read_uncounted)
next
  case False
  with assms show ?thesis by (intro abort_inv) (simp_all add: stream_inv_def)
qed

lemma stream_next_inv: "stream_inv s \<Longrightarrow> stream_inv (stream_next e s)"
proof -
  assume i: "stream_inv s"
  have closing: "stream_inv (s\<lparr>sa_write := Some (b\<lparr>wb_closing := True\<rparr>)\<rparr>)" if "sa_write s = Some b" for b
    using i that by (auto simp: stream_inv_def read_ending_def write_ending_def read_open_def write_open_def)
  from i show ?thesis
    by (cases e)
      (auto simp: stream_next_def Let_def stream_intros finish_read_uncounted reader_closed_inv closing
        split: option.split)
qed

lemma new_adapter_inv: "stream_inv (new_adapter shape parent)"
proof (cases parent)
  case None
  then show ?thesis
    by (cases shape) (simp_all add: new_adapter_def Let_def stream_inv_def read_open_def write_open_def)
next
  case (Some r)
  define s0 where "s0 = \<lparr>sa_remaining = (if shape = BidiStream then 2 else 1), sa_closed = False, sa_reason = None,
                sa_read = None, sa_write = None, sa_trace = [StreamOpened]\<rparr>"
  have s1: "abort_stream (Some r) s0 = s0\<lparr>sa_closed := True, sa_reason := Some r, sa_trace := [StreamOpened, StreamClosed]\<rparr>"
    by (simp add: s0_def abort_stream.simps read_listener_def write_listener.simps stream_emit_def Let_def)
  show ?thesis
    unfolding new_adapter_def Some Let_def s0_def [symmetric] option.case s1
    by (cases shape)
      (auto simp: s0_def Let_def stream_inv_def read_listener_def read_stop_def
        write_listener.simps write_reset_def finish_write_closed read_ending_def write_ending_def)
qed

interpretation stream_lifecycle: event_system stream_next stream_inv
  by unfold_locales (rule stream_next_inv)

lemma stream_run_inv: "stream_inv (stream_run es (new_adapter shape parent))"
  unfolding stream_run_def by (rule stream_lifecycle.run_inv [OF new_adapter_inv])

text \<open>A closed stream stays closed, and a stream that is adapted after its session has ended is closed.\<close>

lemma finish_keeps_closed [simp]: "sa_closed s \<Longrightarrow> sa_closed (finish_write s)" "sa_closed s \<Longrightarrow> sa_closed (finish_read c s)"
  by (auto simp: finish_write_closed finish_read_def Let_def split: option.split)

lemma stop_reset_frame [simp]: "sa_closed (read_stop r s) = sa_closed s" "sa_closed (write_reset r s) = sa_closed s"
  by (simp_all add: read_stop_def write_reset_def Let_def split: option.split)

lemma stream_next_closed: "sa_closed s \<Longrightarrow> sa_closed (stream_next e s)"
  by (cases e) (simp_all add: stream_next_def reset_stream_def Let_def split: option.split)

lemma new_adapter_closed: "sa_closed (new_adapter shape (Some r))"
  by (cases shape)
    (simp_all add: new_adapter_def Let_def write_listener_ends abort_stream.simps split: option.split)

text \<open>
  C12. The life of a stream adapter, whatever the platform, the native library, the application and the
  session do and in whatever order: the stream is counted as opened once, and as closed exactly once,
  when its signal is aborted; until then as many parts are outstanding as there are unfinished halves,
  and at least one; from then on every half is finished or its native side is being cancelled, closed
  or reset, so that no native lock is kept.
\<close>

theorem stream_lifecycle_sound:
  "let s = stream_run es (new_adapter shape parent) in
     times_opened s = 1 \<and> times_closed s = (if sa_closed s then 1 else 0) \<and>
     (sa_closed s \<longleftrightarrow> sa_reason s \<noteq> None) \<and>
     (if sa_closed s then read_ending s \<and> write_ending s
      else sa_remaining s = read_open s + write_open s \<and> 1 \<le> sa_remaining s)"
  using stream_run_inv [of es shape parent] by (simp add: Let_def stream_inv_def)

section \<open>How a stream ends\<close>

definition native_aborts :: "stream_adapter \<Rightarrow> thrown list" where
  "native_aborts s = concat (map (\<lambda>a. case a of AbortNative r \<Rightarrow> [r] | _ \<Rightarrow> []) (sa_trace s))"

lemma native_aborts_emit [simp]:
  "native_aborts (stream_emit a s) = native_aborts s @ (case a of AbortNative r \<Rightarrow> [r] | _ \<Rightarrow> [])"
  by (simp add: native_aborts_def)

lemma native_aborts_fields [simp]:
  "native_aborts (s\<lparr>sa_write := w\<rparr>) = native_aborts s" "native_aborts (s\<lparr>sa_read := x\<rparr>) = native_aborts s"
  "native_aborts (s\<lparr>sa_remaining := n\<rparr>) = native_aborts s" "native_aborts (s\<lparr>sa_closed := c\<rparr>) = native_aborts s"
  "native_aborts (s\<lparr>sa_reason := y\<rparr>) = native_aborts s"
  by (simp_all add: native_aborts_def)

definition closing :: "stream_adapter \<Rightarrow> bool" where
  "closing s \<longleftrightarrow> (case sa_write s of None \<Rightarrow> False | Some b \<Rightarrow> wb_closing b)"

text \<open>An operation that neither resets a stream whose close has begun nor takes its close back.\<close>

definition orderly :: "(stream_adapter \<Rightarrow> stream_adapter) \<Rightarrow> bool" where
  "orderly f \<longleftrightarrow> (\<forall>s. closing s \<longrightarrow> closing (f s) \<and> native_aborts (f s) = native_aborts s)"

lemma orderlyD: "orderly f \<Longrightarrow> closing s \<Longrightarrow> closing (f s) \<and> native_aborts (f s) = native_aborts s"
  by (simp add: orderly_def)

lemma closing_emit [simp]: "closing (stream_emit a s) = closing s"
  by (simp add: closing_def)

lemma orderly_read: "orderly (read_stop r)" "orderly (read_listener r)"
  by (auto simp: orderly_def read_stop_def read_listener_def closing_def Let_def split: option.splits)

lemma orderly_write: "orderly (write_reset r)" "orderly (write_listener r)"
  by (auto simp: orderly_def write_reset_def write_listener.simps closing_def Let_def split: option.splits)

lemma orderly_abort: "orderly (abort_stream r)"
  unfolding orderly_def
proof (intro allI impI)
  fix s
  assume c: "closing s"
  define x where "x = (case r of Some e \<Rightarrow> e | None \<Rightarrow> default_abort)"
  have "closing (s\<lparr>sa_closed := True, sa_reason := Some x\<rparr>)" using c by (simp add: closing_def)
  from orderlyD [OF orderly_read(2) this, of x] orderlyD [OF orderly_write(2), of "read_listener x (s\<lparr>sa_closed := True, sa_reason := Some x\<rparr>)" x] c
  show "closing (abort_stream r s) \<and> native_aborts (abort_stream r s) = native_aborts s"
    by (simp add: abort_stream.simps [of r s] Let_def x_def)
qed

lemma orderly_finish: "orderly finish_part" "orderly finish_write" "orderly (finish_read c)"
proof -
  show p: "orderly finish_part"
    unfolding orderly_def using orderlyD [OF orderly_abort, of "s\<lparr>sa_remaining := 0\<rparr>" None for s]
    by (auto simp: finish_part.simps Let_def closing_def)
  show "orderly finish_write"
    unfolding orderly_def
  proof (intro allI impI)
    fix s
    assume "closing s"
    then show "closing (finish_write s) \<and> native_aborts (finish_write s) = native_aborts s"
      using orderlyD [OF p, of "s\<lparr>sa_write := Some (the (sa_write s)\<lparr>wb_finished := True\<rparr>)\<rparr>"]
      by (auto simp: finish_write.simps closing_def split: option.splits)
  qed
  show "orderly (finish_read c)"
    unfolding orderly_def
  proof (intro allI impI)
    fix s
    assume "closing s"
    then show "closing (finish_read c s) \<and> native_aborts (finish_read c s) = native_aborts s"
      using orderlyD [OF p, of "s\<lparr>sa_read := Some (the (sa_read s)\<lparr>rb_finished := True\<rparr>)\<rparr>"]
      by (auto simp: finish_read_def closing_def Let_def split: option.splits)
  qed
qed

lemmas orderly_ops = orderly_read orderly_write orderly_abort orderly_finish

lemma closing_set: "closing (s\<lparr>sa_write := Some (b\<lparr>wb_closing := True\<rparr>)\<rparr>)"
  by (simp add: closing_def)

lemma orderly_next: "orderly (stream_next e)"
  unfolding orderly_def
proof (intro allI impI)
  fix s
  assume c: "closing s"
  note o = orderlyD [OF orderly_abort] orderlyD [OF orderly_finish(2)] orderlyD [OF orderly_finish(3)]
    orderlyD [OF orderly_read(1)] orderlyD [OF orderly_write(1)]
  from c obtain b where b: "sa_write s = Some b" "wb_closing b" by (auto simp: closing_def split: option.splits)
  with c show "closing (stream_next e s) \<and> native_aborts (stream_next e s) = native_aborts s"
    by (cases e) (auto simp: stream_next_def Let_def o reset_stream_def closing_set split: option.split)
qed

lemma orderly_run: "closing s \<Longrightarrow> native_aborts (stream_run es s) = native_aborts s \<and> closing (stream_run es s)"
  unfolding stream_run_def
proof (induction es arbitrary: s)
  case (Cons e es)
  with orderlyD [OF orderly_next, of s e] show ?case by simp
qed simp

text \<open>
  How an open send half ends. A reset by the application reaches the native stream once, with the
  application's code, and aborts the core stream; when the session ends, the half is finished without
  a reset of its own; and once an orderly close has begun, nothing that happens afterwards turns it
  into a reset.
\<close>

theorem send_half_endings:
  assumes "sa_write s = Some b" "\<not> sa_closed s" "\<not> wb_finished b" "\<not> wb_closing b" "\<not> wb_reset b"
    and "is_session_termination r"
  shows "native_aborts (stream_next (Reset code) s) =
       native_aborts s @ [native_stream_error code (native_reset_message s)] \<and>
     sa_reason (stream_next (Reset code) s) = Some (core_reset_error s) \<and>
     native_aborts (stream_next (ParentAborts r) s) = native_aborts s \<and>
     map_option wb_finished (sa_write (stream_next (ParentAborts r) s)) = Some True \<and>
     native_aborts (stream_run es (stream_next CloseRequested s)) = native_aborts s"
proof -
  define n where "n = native_stream_error code (native_reset_message s)"
  have r: "sa_write (read_stop n s) = Some b" "\<not> sa_closed (read_stop n s)" "native_aborts (read_stop n s) = native_aborts s"
    using assms by (auto simp: read_stop_def Let_def split: option.split)
  have l: "native_aborts (read_listener x t) = native_aborts t" for x t
    by (auto simp: read_listener_def read_stop_def Let_def split: option.split)
  have reset: "native_aborts (stream_next (Reset code) s) = native_aborts s @ [n]"
    using assms r
    by (simp add: stream_next_def reset_stream_def n_def [symmetric] Let_def write_reset_def abort_stream.simps
        write_listener.simps finish_write_closed l)
  moreover have "sa_reason (stream_next (Reset code) s) = Some (core_reset_error s)"
    using assms r abort_open(2) [of "write_reset n (read_stop n s)"]
    by (simp add: stream_next_def reset_stream_def n_def [symmetric] Let_def write_reset_def)
  moreover have "native_aborts (stream_next (ParentAborts r) s) = native_aborts s"
    "map_option wb_finished (sa_write (stream_next (ParentAborts r) s)) = Some True"
    using assms
    by (simp_all add: stream_next_def abort_stream.simps [of "Some r" s] write_listener.simps finish_write_closed Let_def l)
  moreover have "native_aborts (stream_run es (stream_next CloseRequested s)) = native_aborts s"
    using assms orderly_run [of "stream_next CloseRequested s" es]
    by (simp add: stream_next_def closing_def)
  ultimately show ?thesis by (simp add: n_def)
qed

theorem send_half_endings_witness:
  "native_aborts (stream_next (Reset 257) (new_adapter SendStream None)) =
       [NativeError ''stream reset by application'' NativeStream (Some 257)] \<and>
   native_aborts (stream_run [WriterClosedFails NonError, Reset 3, CloseSettles None]
       (stream_next CloseRequested (new_adapter SendStream None))) = []"
proof -
  have n: "new_adapter SendStream None =
      \<lparr>sa_remaining = 1, sa_closed = False, sa_reason = None, sa_read = None,
       sa_write = Some \<lparr>wb_finished = False, wb_closing = False, wb_reset = False\<rparr>, sa_trace = [StreamOpened]\<rparr>"
    by (simp add: new_adapter_def Let_def)
  have t: "is_session_termination default_abort"
    by (simp add: is_session_termination_def default_abort_def is_abort_error_def)
  show ?thesis
    using send_half_endings [of "new_adapter SendStream None"
        "\<lparr>wb_finished = False, wb_closing = False, wb_reset = False\<rparr>" default_abort 257
        "[WriterClosedFails NonError, Reset 3, CloseSettles None]"] t
    by (simp add: n native_aborts_def native_stream_error_def native_reset_message_def)
qed

end
