(* ===== verification/Driver_Datagrams.thy ===== *)
theory Driver_Datagrams
  imports Driver_Streams
begin

text \<open>
  The datagram channel of a native session (\<open>packages/driver-rwebtransport/src/datagram.adapter.ts\<close>): a
  reader and a writer of the native channel behind a core readable and a core writable, released
  exactly once each.
\<close>

datatype datagram_action =
    DgReceived nat | DgSent nat | DgCancelNative "thrown option" | DgAbortNative "thrown option" | DgCloseNative
  | DgCloseReadable | DgErrorReadable thrown | DgErrorWritable thrown | DgReleaseReader | DgReleaseWriter

record datagram_adapter =
  dg_reader_released :: bool
  dg_writer_released :: bool
  dg_write_closing :: bool
  dg_received :: nat
  dg_sent :: nat
  dg_trace :: "datagram_action list"

definition new_datagrams :: datagram_adapter where
  "new_datagrams =
     \<lparr>dg_reader_released = False, dg_writer_released = False, dg_write_closing = False,
      dg_received = 0, dg_sent = 0, dg_trace = []\<rparr>"

definition dg_emit :: "datagram_action \<Rightarrow> datagram_adapter \<Rightarrow> datagram_adapter" where
  "dg_emit a d = d\<lparr>dg_trace := dg_trace d @ [a]\<rparr>"

definition release_reader :: "datagram_adapter \<Rightarrow> datagram_adapter" where
  "release_reader d =
     (if dg_reader_released d then d else dg_emit DgReleaseReader (d\<lparr>dg_reader_released := True\<rparr>))"

definition release_writer :: "datagram_adapter \<Rightarrow> datagram_adapter" where
  "release_writer d =
     (if dg_writer_released d then d else dg_emit DgReleaseWriter (d\<lparr>dg_writer_released := True\<rparr>))"

definition session_mapping :: "string \<Rightarrow> mapping_options" where
  "session_mapping operation = \<lparr>map_target = SessionTarget, map_operation = Some operation, map_code = None\<rparr>"

text \<open>\<open>close\<close> up to its wait; \<open>CloseDone\<close> is what follows when both calls have settled.\<close>

definition close_datagrams :: "thrown option \<Rightarrow> datagram_adapter \<Rightarrow> datagram_adapter" where
  "close_datagrams reason d =
     (let error = (case reason of Some r \<Rightarrow> r | None \<Rightarrow> DomException ''AbortError'' ''Datagram session closed'');
          d1 = dg_emit (DgErrorReadable error) d;
          d2 = (if dg_write_closing d1 then d1 else dg_emit (DgErrorWritable error) d1);
          d3 = dg_emit (DgCancelNative reason) d2
      in if \<not> dg_write_closing d3 \<and>
            \<not> (case reason of Some r \<Rightarrow> is_session_termination r | None \<Rightarrow> False)
         then dg_emit (DgAbortNative reason) d3 else d3)"

datatype datagram_event =
    DgReadDone | DgReadValue nat | DgReadFails thrown | DgReaderClosedFails thrown
  | DgCancelRequested thrown | DgCancelSettles
  | DgWriteSucceeds nat | DgCloseRequested | DgAbortRequested thrown | DgEndSettles
  | DgWriterClosed | DgWriterClosedFails thrown | DgCloseDone

fun datagram_step :: "datagram_event \<Rightarrow> datagram_adapter \<Rightarrow> datagram_adapter" where
  "datagram_step DgReadDone d = release_reader (dg_emit DgCloseReadable d)"
| "datagram_step (DgReadValue n) d = dg_emit (DgReceived n) (d\<lparr>dg_received := dg_received d + 1\<rparr>)"
| "datagram_step (DgReadFails e) d =
     release_reader (dg_emit (DgErrorReadable (map_native_error e (session_mapping ''read datagram''))) d)"
| "datagram_step (DgReaderClosedFails e) d =
     (if dg_reader_released d then d
      else release_reader
        (dg_emit (DgErrorReadable (map_native_error e (session_mapping ''datagram reader closed''))) d))"
| "datagram_step (DgCancelRequested r) d = dg_emit (DgCancelNative (Some r)) d"
| "datagram_step DgCancelSettles d = release_reader d"
| "datagram_step (DgWriteSucceeds n) d = dg_emit (DgSent n) (d\<lparr>dg_sent := dg_sent d + 1\<rparr>)"
| "datagram_step DgCloseRequested d = dg_emit DgCloseNative (d\<lparr>dg_write_closing := True\<rparr>)"
| "datagram_step (DgAbortRequested r) d = dg_emit (DgAbortNative (Some r)) (d\<lparr>dg_write_closing := True\<rparr>)"
| "datagram_step DgEndSettles d = release_writer d"
| "datagram_step DgWriterClosed d = release_writer d"
| "datagram_step (DgWriterClosedFails e) d =
     (if dg_writer_released d then d
      else release_writer
        (if dg_write_closing d then d
         else dg_emit (DgErrorWritable (map_native_error e (session_mapping ''datagram writer closed''))) d))"
| "datagram_step DgCloseDone d = release_writer (release_reader d)"

section \<open>The channel's invariant\<close>

definition received_actions :: "datagram_adapter \<Rightarrow> nat list" where
  "received_actions d = concat (map (\<lambda>a. case a of DgReceived n \<Rightarrow> [n] | _ \<Rightarrow> []) (dg_trace d))"

definition sent_actions :: "datagram_adapter \<Rightarrow> nat list" where
  "sent_actions d = concat (map (\<lambda>a. case a of DgSent n \<Rightarrow> [n] | _ \<Rightarrow> []) (dg_trace d))"

definition datagram_inv :: "datagram_adapter \<Rightarrow> bool" where
  "datagram_inv d \<longleftrightarrow>
     count_list (dg_trace d) DgReleaseReader = (if dg_reader_released d then 1 else 0) \<and>
     count_list (dg_trace d) DgReleaseWriter = (if dg_writer_released d then 1 else 0) \<and>
     dg_received d = length (received_actions d) \<and> dg_sent d = length (sent_actions d)"

lemmas datagram_defs =
  dg_emit_def release_reader_def release_writer_def received_actions_def sent_actions_def Let_def

lemma new_datagrams_inv: "datagram_inv new_datagrams"
  by (simp add: new_datagrams_def datagram_inv_def datagram_defs)

lemma close_datagrams_inv: "datagram_inv d \<Longrightarrow> datagram_inv (close_datagrams reason d)"
  by (auto simp: close_datagrams_def datagram_inv_def datagram_defs)

lemma datagram_step_inv: "datagram_inv d \<Longrightarrow> datagram_inv (datagram_step e d)"
  by (cases e) (auto simp: datagram_inv_def datagram_defs)

interpretation datagram_channel: event_system datagram_step datagram_inv
  by unfold_locales (rule datagram_step_inv)

end
