(* ===== verification/Driver_Sessions.thy ===== *)
theory Driver_Sessions
  imports Driver_Datagrams
begin

text \<open>
  The session adapter of the driver (\<open>packages/driver-rwebtransport/src/session.adapter.ts\<close>) with its
  streams, its datagram channel and the bridges of its incoming streams. A session owns its streams:
  the order of the list is the order in which they were adapted, and a stream that has not closed is
  subscribed to the session.
\<close>

datatype session_state = CONNECTING | CONNECTED | CLOSING | CLOSED

datatype session_action =
    NativeClose nat string | NativeDrain | ClosedEvent "thrown option" | DatagramsDropped int
  | StreamDelivered stream_shape nat | StreamDiscarded stream_shape | IncomingClosed stream_shape
  | IncomingErrored stream_shape thrown

record session_adapter =
  sx_id :: string
  sx_path :: string
  sx_headers :: "(string \<times> string) list"
  sx_remote :: string
  sx_port :: int
  sx_state :: session_state
  sx_close_called :: bool
  sx_terminal :: "thrown option"
  sx_reason :: "thrown option"
  sx_resolved :: bool
  sx_notified :: bool
  sx_streams :: "stream_adapter list"
  sx_datagrams :: datagram_adapter
  sx_bidi_finished :: bool
  sx_uni_finished :: bool
  sx_observed :: int
  sx_trace :: "session_action list"

text \<open>What the constructor reads of a native session.\<close>

record native_session =
  ns_path :: string
  ns_headers :: "(string \<times> string) list"
  ns_origin :: "string option"
  ns_remote :: string
  ns_port :: int

text \<open>Header names are in lower case, as \<open>Headers\<close> keeps them.\<close>

definition new_session :: "native_session \<Rightarrow> string \<Rightarrow> session_adapter" where
  "new_session native session_id =
     \<lparr>sx_id = session_id, sx_path = ns_path native,
      sx_headers = (case ns_origin native of
          Some o' \<Rightarrow> AList.update ''origin'' o' (ns_headers native) | None \<Rightarrow> ns_headers native),
      sx_remote = ns_remote native, sx_port = ns_port native, sx_state = CONNECTED,
      sx_close_called = False, sx_terminal = None, sx_reason = None, sx_resolved = False,
      sx_notified = False, sx_streams = [], sx_datagrams = new_datagrams,
      sx_bidi_finished = False, sx_uni_finished = False, sx_observed = 0, sx_trace = []\<rparr>"

definition sx_emit :: "session_action \<Rightarrow> session_adapter \<Rightarrow> session_adapter" where
  "sx_emit a s = s\<lparr>sx_trace := sx_trace s @ [a]\<rparr>"

section \<open>Closing\<close>

text \<open>
  \<open>finish\<close>: the first call decides. The stream listeners are those of the streams that have not
  closed, because a stream unsubscribes when it closes.
\<close>

definition finish_session :: "thrown option \<Rightarrow> session_adapter \<Rightarrow> session_adapter" where
  "finish_session error s =
     (if sx_state s = CLOSED then s
      else
        (let reason = (case error of Some e \<Rightarrow> e | None \<Rightarrow> DomException ''AbortError'' ''Session closed'');
             s1 = s\<lparr>sx_state := CLOSED, sx_terminal := error, sx_reason := Some reason\<rparr>;
             s2 = s1\<lparr>sx_streams := map (\<lambda>t. if sa_closed t then t else stream_next (ParentAborts reason) t)
                                    (sx_streams s1)\<rparr>;
             s3 = s2\<lparr>sx_resolved := True, sx_bidi_finished := True, sx_uni_finished := True,
                     sx_datagrams := close_datagrams (Some reason) (sx_datagrams s2)\<rparr>
         in if sx_notified s3 then s3
            else sx_emit (ClosedEvent error) (s3\<lparr>sx_notified := True\<rparr>)))"

text \<open>
  \<open>close\<close>; \<open>failure\<close> is what \<open>native.close\<close> throws. A second call returns the promise of the first.
\<close>

definition call_close :: "nat \<Rightarrow> string \<Rightarrow> thrown option \<Rightarrow> session_adapter \<Rightarrow> session_adapter" where
  "call_close code reason failure s =
     (if sx_close_called s \<or> sx_state s = CLOSED then s
      else
        (let s1 = sx_emit (NativeClose code reason) (s\<lparr>sx_state := CLOSING, sx_close_called := True\<rparr>)
         in case failure of
              None \<Rightarrow> s1
            | Some e \<Rightarrow> finish_session (Some (map_native_error e (session_mapping ''close session''))) s1))"

text \<open>What the promise of \<open>close\<close> settles with, once the session has closed.\<close>

definition close_outcome :: "session_adapter \<Rightarrow> thrown + unit" where
  "close_outcome s =
     (case sx_terminal s of
        None \<Rightarrow> Inr () | Some e \<Rightarrow> Inl (map_native_error e (session_mapping ''close session'')))"

definition assert_connected :: "session_adapter \<Rightarrow> thrown + unit" where
  "assert_connected s =
     guardE (sx_state s = CONNECTED)
       (new_error SessionClosedError ''WebTransport session is not connected''
         (with_code ''RWEBTRANSPORT_SESSION_NOT_CONNECTED''))"

definition call_drain :: "thrown option \<Rightarrow> session_adapter \<Rightarrow> session_adapter \<times> (thrown + unit)" where
  "call_drain failure s =
     (if sx_state s \<noteq> CONNECTED then (s, Inr ())
      else (sx_emit NativeDrain s,
            case failure of
              None \<Rightarrow> Inr () | Some e \<Rightarrow> Inl (map_native_error e (session_mapping ''drain session''))))"

definition export_keying :: "js_number \<Rightarrow> session_adapter \<Rightarrow> thrown + nat" where
  "export_keying len s =
     bindE (assert_connected s) (\<lambda>_.
       if int_at_least 1 len then Inr (nat_of_number len)
       else Inl (range_error ''keying material length must be a positive safe integer''))"

section \<open>Streams\<close>

text \<open>A native stream: its kind and the ids of its halves (a stream with one half has one id twice).\<close>

datatype native_stream = NativeStreamOf stream_shape js_number js_number

fun adapt_stream :: "native_stream \<Rightarrow> thrown option \<Rightarrow> thrown + nat \<times> stream_adapter" where
  "adapt_stream (NativeStreamOf ReceiveStream i _) parent = receive_adapter i parent"
| "adapt_stream (NativeStreamOf SendStream i _) parent = send_adapter i parent"
| "adapt_stream (NativeStreamOf BidiStream i j) parent = bidi_adapter i j parent"

text \<open>
  \<open>createBidirectionalStream\<close> and \<open>createUnidirectionalStream\<close> after their wait for the native stream:
  by then the session may have closed.
\<close>

definition create_mapping :: "stream_shape \<Rightarrow> mapping_options" where
  "create_mapping shape =
     session_mapping (if shape = BidiStream then ''create bidirectional stream'' else ''create unidirectional stream'')"

definition create_stream ::
  "stream_shape \<Rightarrow> thrown + native_stream \<Rightarrow> session_adapter \<Rightarrow> session_adapter \<times> (thrown + nat)" where
  "create_stream shape native s =
     (case bindE native (\<lambda>n. adapt_stream n (sx_reason s)) of
        Inl e \<Rightarrow> (s, Inl (map_native_error e (create_mapping shape)))
      | Inr (i, t) \<Rightarrow> (s\<lparr>sx_streams := sx_streams s @ [t]\<rparr>, Inr i))"

text \<open>\<open>mapIncomingStream\<close>: the flag of the bridge, its \<open>release\<close>, and \<open>pull\<close> after its read.\<close>

definition bridge_finished :: "stream_shape \<Rightarrow> session_adapter \<Rightarrow> bool" where
  "bridge_finished shape s = (if shape = BidiStream then sx_bidi_finished s else sx_uni_finished s)"

definition finish_bridge :: "stream_shape \<Rightarrow> session_adapter \<Rightarrow> session_adapter" where
  "finish_bridge shape s =
     (if shape = BidiStream then s\<lparr>sx_bidi_finished := True\<rparr> else s\<lparr>sx_uni_finished := True\<rparr>)"

datatype pull_result = PullDone | PullValue native_stream | PullFails thrown

definition pull_error :: "stream_shape \<Rightarrow> thrown \<Rightarrow> session_adapter \<Rightarrow> session_adapter" where
  "pull_error shape e s =
     finish_bridge shape
       (sx_emit (IncomingErrored shape (map_native_error e (session_mapping ''read incoming stream''))) s)"

definition pull_incoming :: "stream_shape \<Rightarrow> pull_result \<Rightarrow> session_adapter \<Rightarrow> session_adapter" where
  "pull_incoming shape r s =
     (case r of
        PullFails e \<Rightarrow> pull_error shape e s
      | PullDone \<Rightarrow>
          if bridge_finished shape s then s
          else finish_bridge shape (sx_emit (IncomingClosed shape) s)
      | PullValue native \<Rightarrow>
          if bridge_finished shape s then sx_emit (StreamDiscarded shape) s
          else
            (case adapt_stream native (sx_reason s) of
               Inl e \<Rightarrow> pull_error shape e s
             | Inr (i, t) \<Rightarrow> sx_emit (StreamDelivered shape i) (s\<lparr>sx_streams := sx_streams s @ [t]\<rparr>)))"

section \<open>Statistics\<close>

record native_stats =
  nst_dropped_incoming :: nat
  nst_expired_incoming :: nat
  nst_expired_outgoing :: nat
  nst_lost_outgoing :: nat
  nst_bytes_received :: nat
  nst_bytes_sent :: nat
  nst_packets_lost :: nat
  nst_rtt :: rat

record connection_stats =
  cs_session :: string
  cs_remote :: string
  cs_port :: int
  cs_bytes_received :: nat
  cs_bytes_sent :: nat
  cs_datagrams_received :: nat
  cs_datagrams_sent :: nat
  cs_packets_lost :: nat
  cs_rtt :: rat

definition native_dropped :: "native_stats \<Rightarrow> int" where
  "native_dropped n =
     int (nst_dropped_incoming n + nst_expired_incoming n + nst_expired_outgoing n + nst_lost_outgoing n)"

text \<open>\<open>captureConnectionStats\<close> after the native answer.\<close>

definition capture_stats :: "native_stats \<Rightarrow> session_adapter \<Rightarrow> session_adapter \<times> connection_stats" where
  "capture_stats n s =
     (let dropped = native_dropped n;
          newly = max 0 (dropped - sx_observed s);
          s1 = s\<lparr>sx_observed := max (sx_observed s) dropped\<rparr>;
          s2 = (if newly > 0 then sx_emit (DatagramsDropped newly) s1 else s1)
      in (s2, \<lparr>cs_session = sx_id s, cs_remote = sx_remote s, cs_port = sx_port s,
               cs_bytes_received = nst_bytes_received n, cs_bytes_sent = nst_bytes_sent n,
               cs_datagrams_received = dg_received (sx_datagrams s), cs_datagrams_sent = dg_sent (sx_datagrams s),
               cs_packets_lost = nst_packets_lost n, cs_rtt = nst_rtt n\<rparr>))"

section \<open>Events\<close>

datatype session_event =
    ReadyFails thrown
  | NativeClosed "thrown option"
  | CallClose nat string "thrown option"
  | CallDrain "thrown option"
  | StreamCreated stream_shape "thrown + native_stream"
  | Pulled stream_shape pull_result
  | IncomingCancelled stream_shape
  | StreamHappens nat stream_event
  | DatagramHappens datagram_event
  | StatsCaptured native_stats

text \<open>The session alone aborts its streams as their parent.\<close>

fun parent_event :: "stream_event \<Rightarrow> bool" where
  "parent_event (ParentAborts _) = True"
| "parent_event _ = False"

fun session_step :: "session_event \<Rightarrow> session_adapter \<Rightarrow> session_adapter" where
  "session_step (ReadyFails e) s =
     finish_session (Some (map_native_error e (session_mapping ''establish session''))) s"
| "session_step (NativeClosed None) s = finish_session None s"
| "session_step (NativeClosed (Some e)) s =
     finish_session (Some (map_native_error e (session_mapping ''session closed''))) s"
| "session_step (CallClose code reason failure) s = call_close code reason failure s"
| "session_step (CallDrain failure) s = fst (call_drain failure s)"
| "session_step (StreamCreated shape native) s = fst (create_stream shape native s)"
| "session_step (Pulled shape r) s = pull_incoming shape r s"
| "session_step (IncomingCancelled shape) s = finish_bridge shape s"
| "session_step (StreamHappens k e) s =
     (if k < length (sx_streams s) \<and> \<not> parent_event e then
        s\<lparr>sx_streams := (sx_streams s)[k := stream_next e (sx_streams s ! k)]\<rparr>
      else s)"
| "session_step (DatagramHappens e) s = s\<lparr>sx_datagrams := datagram_step e (sx_datagrams s)\<rparr>"
| "session_step (StatsCaptured n) s = fst (capture_stats n s)"

definition session_run :: "session_event list \<Rightarrow> session_adapter \<Rightarrow> session_adapter" where
  "session_run es s = fold session_step es s"

section \<open>The session's invariant\<close>

definition reported_drops :: "session_adapter \<Rightarrow> int" where
  "reported_drops s = sum_list (map (\<lambda>a. case a of DatagramsDropped n \<Rightarrow> n | _ \<Rightarrow> 0) (sx_trace s))"

definition closed_events :: "session_adapter \<Rightarrow> nat" where
  "closed_events s = length (filter (\<lambda>a. case a of ClosedEvent _ \<Rightarrow> True | _ \<Rightarrow> False) (sx_trace s))"

definition native_closes :: "session_adapter \<Rightarrow> nat" where
  "native_closes s = length (filter (\<lambda>a. case a of NativeClose _ _ \<Rightarrow> True | _ \<Rightarrow> False) (sx_trace s))"

definition session_inv :: "session_adapter \<Rightarrow> bool" where
  "session_inv s \<longleftrightarrow>
     (\<forall>t \<in> set (sx_streams s). stream_inv t) \<and> datagram_inv (sx_datagrams s) \<and>
     sx_notified s = (sx_state s = CLOSED) \<and> sx_resolved s = (sx_state s = CLOSED) \<and>
     (sx_reason s \<noteq> None) = (sx_state s = CLOSED) \<and>
     closed_events s = (if sx_state s = CLOSED then 1 else 0) \<and>
     native_closes s = (if sx_close_called s then 1 else 0) \<and>
     (sx_state s = CONNECTED \<longrightarrow> \<not> sx_close_called s) \<and>
     (sx_state s = CLOSED \<longrightarrow>
        (\<forall>t \<in> set (sx_streams s). sa_closed t) \<and> sx_bidi_finished s \<and> sx_uni_finished s) \<and>
     reported_drops s = sx_observed s \<and> 0 \<le> sx_observed s"

lemma sx_emit_simps [simp]:
  "sx_streams (sx_emit a s) = sx_streams s" "sx_datagrams (sx_emit a s) = sx_datagrams s"
  "sx_notified (sx_emit a s) = sx_notified s" "sx_state (sx_emit a s) = sx_state s"
  "sx_resolved (sx_emit a s) = sx_resolved s" "sx_reason (sx_emit a s) = sx_reason s"
  "sx_close_called (sx_emit a s) = sx_close_called s" "sx_bidi_finished (sx_emit a s) = sx_bidi_finished s"
  "sx_uni_finished (sx_emit a s) = sx_uni_finished s" "sx_observed (sx_emit a s) = sx_observed s"
  "sx_trace (sx_emit a s) = sx_trace s @ [a]"
  by (simp_all add: sx_emit_def)

lemmas session_counts = reported_drops_def closed_events_def native_closes_def

lemma new_session_inv: "session_inv (new_session native i)"
  by (simp add: session_inv_def new_session_def new_datagrams_inv session_counts)

lemma session_emit_inv:
  assumes "session_inv s"
    and "case a of DatagramsDropped _ \<Rightarrow> False | ClosedEvent _ \<Rightarrow> False | NativeClose _ _ \<Rightarrow> False | _ \<Rightarrow> True"
  shows "session_inv (sx_emit a s)"
  using assms by (cases a) (auto simp: session_inv_def session_counts)

lemma finish_session_inv:
  assumes "session_inv s"
  shows "session_inv (finish_session e s)"
proof (cases "sx_state s = CLOSED")
  case True
  with assms show ?thesis by (simp add: finish_session_def)
next
  case False
  have "sa_closed (stream_next (ParentAborts r) t)" for r t by (simp add: stream_next_def)
  with False assms show ?thesis
    by (auto simp: finish_session_def Let_def session_inv_def session_counts close_datagrams_inv stream_next_inv)
qed

lemma finish_bridge_inv: "session_inv s \<Longrightarrow> session_inv (finish_bridge shape s)"
  by (auto simp: finish_bridge_def session_inv_def session_counts)

lemma adapt_stream_inv:
  assumes "adapt_stream n parent = Inr (i, t)"
  shows "stream_inv t \<and> (parent \<noteq> None \<longrightarrow> sa_closed t)"
proof -
  obtain shape x y where n: "n = NativeStreamOf shape x y" by (cases n) auto
  from assms n have "t = new_adapter shape parent"
    by (cases shape) (auto simp: receive_adapter_def send_adapter_def bidi_adapter_def bindE_Inr_iff split: if_splits)
  moreover have "sa_closed (new_adapter shape parent)" if "parent \<noteq> None"
    using that new_adapter_closed by auto
  ultimately show ?thesis using new_adapter_inv by blast
qed

lemma add_stream_inv:
  assumes "session_inv s" "stream_inv t" "sx_reason s \<noteq> None \<longrightarrow> sa_closed t"
  shows "session_inv (s\<lparr>sx_streams := sx_streams s @ [t]\<rparr>)"
  using assms by (auto simp: session_inv_def session_counts)

lemma add_adapted_inv:
  "session_inv s \<Longrightarrow> adapt_stream n (sx_reason s) = Inr (i, t) \<Longrightarrow>
   session_inv (s\<lparr>sx_streams := sx_streams s @ [t]\<rparr>)"
  using adapt_stream_inv [of n "sx_reason s" i t] by (simp add: add_stream_inv)

lemma pull_error_inv: "session_inv s \<Longrightarrow> session_inv (pull_error shape e s)"
  by (simp add: pull_error_def finish_bridge_inv session_emit_inv)

lemma pull_incoming_inv: "session_inv s \<Longrightarrow> session_inv (pull_incoming shape r s)"
  by (auto simp: pull_incoming_def pull_error_inv finish_bridge_inv session_emit_inv add_adapted_inv
      split: pull_result.split sum.split)

lemma create_stream_inv: "session_inv s \<Longrightarrow> session_inv (fst (create_stream shape n s))"
  by (auto simp: create_stream_def bindE_Inr_iff add_adapted_inv split: sum.split)

lemma call_close_inv: "session_inv s \<Longrightarrow> session_inv (call_close code r f s)"
proof -
  assume i: "session_inv s"
  have "session_inv (sx_emit (NativeClose code r) (s\<lparr>sx_state := CLOSING, sx_close_called := True\<rparr>))"
    if "\<not> sx_close_called s" "sx_state s \<noteq> CLOSED"
    using i that by (auto simp: session_inv_def session_counts)
  with i show ?thesis
    by (auto simp: call_close_def Let_def finish_session_inv split: option.split)
qed

lemma capture_stats_inv: "session_inv s \<Longrightarrow> session_inv (fst (capture_stats n s))"
  by (auto simp: capture_stats_def Let_def session_inv_def session_counts)

lemma session_step_inv: "session_inv s \<Longrightarrow> session_inv (session_step e s)"
proof (cases e)
  case (StreamHappens k ev)
  assume i: "session_inv s"
  have "sa_closed t \<Longrightarrow> sa_closed (stream_next ev t)" for t by (rule stream_next_closed)
  with i StreamHappens show ?thesis
    by (auto simp: session_inv_def session_counts stream_next_inv dest!: set_update_subset_insert [THEN subsetD])
next
  case (NativeClosed r)
  then show "session_inv s \<Longrightarrow> ?thesis" by (cases r) (simp_all add: finish_session_inv)
next
  case (DatagramHappens ev)
  then show "session_inv s \<Longrightarrow> ?thesis" by (auto simp: session_inv_def session_counts datagram_step_inv)
qed (simp_all add: finish_session_inv call_close_inv create_stream_inv pull_incoming_inv finish_bridge_inv
    capture_stats_inv call_drain_def session_emit_inv)

interpretation session_life: event_system session_step session_inv
  by unfold_locales (rule session_step_inv)

lemma session_run_inv: "session_inv (session_run es (new_session native i))"
  unfolding session_run_def by (rule session_life.run_inv [OF new_session_inv])

section \<open>A closed session is final\<close>

definition verdict :: "session_adapter \<Rightarrow> session_state \<times> thrown option \<times> thrown option" where
  "verdict s = (sx_state s, sx_terminal s, sx_reason s)"

lemma verdict_simps [simp]:
  "verdict (sx_emit a s) = verdict s" "verdict (finish_bridge shape s) = verdict s"
  "verdict (s\<lparr>sx_streams := x\<rparr>) = verdict s" "verdict (s\<lparr>sx_datagrams := d\<rparr>) = verdict s"
  "verdict (s\<lparr>sx_observed := n\<rparr>) = verdict s"
  by (simp_all add: verdict_def sx_emit_def finish_bridge_def)

lemma final_step: "sx_state s = CLOSED \<Longrightarrow> verdict (session_step e s) = verdict s"
proof (cases e)
  case (NativeClosed r)
  assume "sx_state s = CLOSED"
  with NativeClosed show ?thesis by (cases r) (simp_all add: finish_session_def)
qed (simp_all add: finish_session_def call_close_def call_drain_def create_stream_def pull_incoming_def
    pull_error_def capture_stats_def Let_def split: sum.split pull_result.split)

lemma final_run: "sx_state s = CLOSED \<Longrightarrow> verdict (session_run es s) = verdict s"
  unfolding session_run_def
proof (induction es arbitrary: s)
  case (Cons e es)
  from final_step [OF Cons.prems, of e] have v: "verdict (session_step e s) = verdict s" .
  with Cons.prems have "sx_state (session_step e s) = CLOSED" by (simp add: verdict_def)
  with Cons.IH v show ?case by simp
qed simp

lemma open_streams:
  assumes "\<forall>t \<in> set ts. stream_inv t"
  shows "sum_list (map times_opened ts) = sum_list (map times_closed ts) + length (filter (\<lambda>t. \<not> sa_closed t) ts)"
  using assms by (induction ts) (auto simp: stream_inv_def)

section \<open>An ended bridge delivers nothing\<close>

text \<open>The streams of a kind that the application has been given, and one that comes too late.\<close>

definition delivered :: "stream_shape \<Rightarrow> session_adapter \<Rightarrow> nat list" where
  "delivered shape s =
     concat (map (\<lambda>a. case a of StreamDelivered sh i \<Rightarrow> if sh = shape then [i] else [] | _ \<Rightarrow> []) (sx_trace s))"

lemma delivered_simps [simp]:
  "delivered shape (s\<lparr>sx_streams := x\<rparr>) = delivered shape s" "delivered shape (s\<lparr>sx_datagrams := d\<rparr>) = delivered shape s"
  "delivered shape (s\<lparr>sx_observed := n\<rparr>) = delivered shape s" "delivered shape (finish_bridge k s) = delivered shape s"
  by (simp_all add: delivered_def finish_bridge_def)

lemma delivered_emit:
  "delivered shape (sx_emit a s) =
   delivered shape s @ (case a of StreamDelivered sh i \<Rightarrow> if sh = shape then [i] else [] | _ \<Rightarrow> [])"
  by (simp add: delivered_def)

lemma bridge_finished_simps [simp]:
  "bridge_finished shape (sx_emit a s) = bridge_finished shape s"
  "bridge_finished shape (s\<lparr>sx_streams := x\<rparr>) = bridge_finished shape s"
  "bridge_finished shape s \<Longrightarrow> bridge_finished shape (finish_bridge k s)"
  by (simp_all add: bridge_finished_def finish_bridge_def)

lemma delivered_finish: "delivered shape (finish_session e s) = delivered shape s"
  by (simp add: finish_session_def Let_def delivered_def)

lemma bridge_finish: "bridge_finished shape s \<Longrightarrow> bridge_finished shape (finish_session e s)"
  by (simp add: finish_session_def Let_def bridge_finished_def)

text \<open>A read that answers after the end of its bridge, and one of the other bridge.\<close>

lemma pull_after_end:
  "bridge_finished shape s \<Longrightarrow> delivered shape (pull_incoming k r s) = delivered shape s"
  by (cases "k = shape") (auto simp: pull_incoming_def pull_error_def delivered_emit split: pull_result.split sum.split)

lemma bridge_pull: "bridge_finished shape s \<Longrightarrow> bridge_finished shape (pull_incoming k r s)"
  by (auto simp: pull_incoming_def pull_error_def split: pull_result.split sum.split)

lemma call_close_delivered:
  "delivered shape (call_close code r f s) = delivered shape s \<and>
   (bridge_finished shape s \<longrightarrow> bridge_finished shape (call_close code r f s))"
proof -
  let ?s1 = "sx_emit (NativeClose code r) (s\<lparr>sx_state := CLOSING, sx_close_called := True\<rparr>)"
  have d: "delivered shape ?s1 = delivered shape s" by (simp add: delivered_def)
  have "bridge_finished shape ?s1 = bridge_finished shape s" by (simp add: bridge_finished_def)
  with d show ?thesis
    by (auto simp: call_close_def Let_def delivered_finish bridge_finish split: option.split)
qed

lemma ended_step:
  "bridge_finished shape s \<Longrightarrow>
   delivered shape (session_step e s) = delivered shape s \<and> bridge_finished shape (session_step e s)"
proof (cases e)
  case (NativeClosed r)
  then show "bridge_finished shape s \<Longrightarrow> ?thesis" by (cases r) (simp_all add: delivered_finish bridge_finish)
next
  case (StatsCaptured n)
  then show "bridge_finished shape s \<Longrightarrow> ?thesis"
    by (simp add: capture_stats_def Let_def delivered_emit) (simp add: bridge_finished_def)
next
  case (DatagramHappens ev)
  then show "bridge_finished shape s \<Longrightarrow> ?thesis" by simp (simp add: bridge_finished_def)
qed (simp_all add: delivered_finish bridge_finish call_close_delivered pull_after_end bridge_pull delivered_emit
    call_drain_def create_stream_def split: sum.split)

lemma ended_run: "bridge_finished shape s \<Longrightarrow> delivered shape (session_run es s) = delivered shape s"
  unfolding session_run_def by (induction es arbitrary: s) (simp_all add: ended_step)

text \<open>
  C11. The life of a session adapter with all its streams, in any order of events: the closed callback
  is made exactly once, when the session's signal is aborted, and \<open>native.close\<close> is called at most once;
  from then on every stream is closed and every half of it is ended. The driver's count of open
  streams, opened minus closed, is the number of streams that are open, so it is zero for a closed
  session. The bridge of a kind of incoming streams that has ended, as both have when the session has
  closed, delivers no stream any more, whatever happens afterwards: a native stream that a read in
  progress still answers is discarded. What a session closed with never changes.
\<close>

theorem session_lifecycle_sound:
  "let s = session_run es (new_session native i) in
     closed_events s = (if sx_state s = CLOSED then 1 else 0) \<and> native_closes s \<le> 1 \<and>
     (sx_reason s \<noteq> None) = (sx_state s = CLOSED) \<and>
     sum_list (map times_opened (sx_streams s)) =
       sum_list (map times_closed (sx_streams s)) + length (filter (\<lambda>t. \<not> sa_closed t) (sx_streams s)) \<and>
     (sx_state s = CLOSED \<longrightarrow>
        (\<forall>t \<in> set (sx_streams s). sa_closed t \<and> read_ending t \<and> write_ending t) \<and>
        bridge_finished BidiStream s \<and> bridge_finished ReceiveStream s \<and>
        verdict (session_run es' s) = verdict s) \<and>
     (bridge_finished shape s \<longrightarrow>
        delivered shape (session_run es' s) = delivered shape s \<and>
        session_step (Pulled shape (PullValue stream)) s = sx_emit (StreamDiscarded shape) s)"
proof -
  let ?s = "session_run es (new_session native i)"
  have inv: "session_inv ?s" by (rule session_run_inv)
  then have "closed_events ?s = (if sx_state ?s = CLOSED then 1 else 0)" "native_closes ?s \<le> 1"
    "(sx_reason ?s \<noteq> None) = (sx_state ?s = CLOSED)"
    by (simp_all add: session_inv_def)
  moreover have "sum_list (map times_opened (sx_streams ?s)) =
      sum_list (map times_closed (sx_streams ?s)) + length (filter (\<lambda>t. \<not> sa_closed t) (sx_streams ?s))"
    by (rule open_streams) (use inv in \<open>simp add: session_inv_def\<close>)
  moreover have "(\<forall>t \<in> set (sx_streams ?s). sa_closed t \<and> read_ending t \<and> write_ending t) \<and>
      bridge_finished BidiStream ?s \<and> bridge_finished ReceiveStream ?s \<and> verdict (session_run es' ?s) = verdict ?s"
    if "sx_state ?s = CLOSED"
    using inv that final_run [OF that] by (auto simp: session_inv_def stream_inv_def bridge_finished_def)
  moreover have "delivered shape (session_run es' ?s) = delivered shape ?s \<and>
      session_step (Pulled shape (PullValue stream)) ?s = sx_emit (StreamDiscarded shape) ?s"
    if "bridge_finished shape ?s"
    using ended_run [OF that] that by (simp add: pull_incoming_def)
  ultimately show ?thesis by (simp add: Let_def)
qed

definition example_native :: native_session where
  "example_native = \<lparr>ns_path = ''/chat'', ns_headers = [(''user-agent'', ''test'')],
     ns_origin = Some ''https://a.example'', ns_remote = ''192.0.2.1'', ns_port = 4433\<rparr>"

theorem session_lifecycle_sound_witness:
  "let s = session_run [StreamCreated SendStream (Inr (NativeStreamOf SendStream (Finite 3) (Finite 3))),
        Pulled ReceiveStream (PullValue (NativeStreamOf ReceiveStream (Finite 2) (Finite 2))),
        CallClose 0 ''bye'' None, NativeClosed None,
        StreamCreated BidiStream (Inr (NativeStreamOf BidiStream (Finite 4) (Finite 4)))]
      (new_session example_native ''s1'')
   in sx_state s = CLOSED \<and> length (sx_streams s) = 3 \<and> closed_events s = 1 \<and> (\<forall>t \<in> set (sx_streams s). sa_closed t) \<and>
      delivered ReceiveStream s = [2] \<and>
      session_step (Pulled ReceiveStream (PullValue (NativeStreamOf ReceiveStream (Finite 6) (Finite 6)))) s =
        sx_emit (StreamDiscarded ReceiveStream) s"
proof -
  let ?es = "[StreamCreated SendStream (Inr (NativeStreamOf SendStream (Finite 3) (Finite 3))),
        Pulled ReceiveStream (PullValue (NativeStreamOf ReceiveStream (Finite 2) (Finite 2))),
        CallClose 0 ''bye'' None, NativeClosed None,
        StreamCreated BidiStream (Inr (NativeStreamOf BidiStream (Finite 4) (Finite 4)))]"
  have "sx_state (session_run ?es (new_session example_native ''s1'')) = CLOSED \<and>
      length (sx_streams (session_run ?es (new_session example_native ''s1''))) = 3 \<and>
      delivered ReceiveStream (session_run ?es (new_session example_native ''s1'')) = [2]"
    by (simp add: session_run_def new_session_def create_stream_def send_adapter_def bidi_adapter_def receive_adapter_def
        stream_id_def call_close_def finish_session_def pull_incoming_def bridge_finished_def delivered_def sx_emit_def
        Let_def max_safe_def)
  with session_lifecycle_sound [of ?es example_native "''s1''" "[]" ReceiveStream
      "NativeStreamOf ReceiveStream (Finite 6) (Finite 6)"]
  show ?thesis by (simp add: Let_def del: session_step.simps)
qed

text \<open>The snapshots among the events.\<close>

definition captured :: "session_event list \<Rightarrow> int list" where
  "captured es = concat (map (\<lambda>e. case e of StatsCaptured n \<Rightarrow> [native_dropped n] | _ \<Rightarrow> []) es)"

lemma observed_step:
  "sx_observed (session_step e s) = fold max (captured [e]) (sx_observed s)"
proof (cases e)
  case (NativeClosed r)
  then show ?thesis by (cases r) (simp_all add: captured_def finish_session_def Let_def)
qed (auto simp: captured_def finish_session_def call_close_def call_drain_def create_stream_def pull_incoming_def
    pull_error_def finish_bridge_def capture_stats_def Let_def split: sum.split pull_result.split option.split)

lemma observed_run: "sx_observed (session_run es s) = fold max (captured es) (sx_observed s)"
  unfolding session_run_def
proof (induction es arbitrary: s)
  case (Cons e es)
  have "captured (e # es) = captured [e] @ captured es" by (simp add: captured_def)
  with Cons.IH [of "session_step e s"] observed_step [of e s] show ?case by simp
qed (simp add: captured_def)

text \<open>
  Lost datagrams are reported once: whatever snapshots of the native counters are taken, in whatever
  order they answer, the drops that a session has reported in total are the largest total that a
  snapshot has shown.
\<close>

theorem drops_reported_once:
  "reported_drops (session_run es (new_session native i)) = fold max (captured es) 0"
  using session_run_inv [of es native i] observed_run [of es "new_session native i"]
  by (simp add: session_inv_def) (simp add: new_session_def)

end
