(* ===== verification/Driver_Server.thy ===== *)
theory Driver_Server
  imports Driver_Sessions
begin

text \<open>
  The server adapter of the driver (\<open>packages/driver-rwebtransport/src/server.adapter.ts\<close>): the checks
  on the server options, one start and one stop per adapter, and the pump that hands native sessions
  to the driver and keeps going when one of them fails.
\<close>

section \<open>Options\<close>

datatype credential = PathCredential string | PemCredential string | BytesCredential "nat list"

record tls_options =
  tls_certificate :: credential
  tls_key :: credential
  tls_passphrase :: "string option"

record server_options =
  so_port :: js_number
  so_host :: "string option"
  so_tls :: "tls_options option"
  so_protocols :: "string list option"

record adapter_options =
  ao_origins :: "string list option"
  ao_reuse_port :: "bool option"
  ao_headers :: "(string \<times> string) list option"

record native_server_options =
  nso_port :: int
  nso_cert :: string
  nso_key :: string
  nso_host :: "string option"
  nso_protocols :: "string list option"
  nso_origins :: "string list option"
  nso_reuse_port :: "bool option"
  nso_headers :: "(string \<times> string) list option"

definition fatal_driver_error :: "string \<Rightarrow> string \<Rightarrow> thrown" where
  "fatal_driver_error message code =
     new_error WebTransportDriverError message
       \<lparr>opt_code = code, opt_recoverable = Some False, opt_scope = None, opt_cause = None\<rparr>"

definition credential_path :: "credential \<Rightarrow> string \<Rightarrow> thrown + string" where
  "credential_path c name =
     (case c of
        PathCredential p \<Rightarrow>
          if \<not> has_text p then
            Inl (fatal_driver_error (name @ '' path must not be empty'') ''RWEBTRANSPORT_TLS_PATH_EMPTY'')
          else Inr p
      | _ \<Rightarrow>
          Inl (fatal_driver_error
            (''rwebtransport requires '' @ name @ '' to be provided as a filesystem path'')
            ''RWEBTRANSPORT_TLS_PATH_REQUIRED''))"

text \<open>\<open>Number.isInteger\<close>\<close>

fun whole_number :: "js_number \<Rightarrow> int option" where
  "whole_number (Finite r) = (let (n, d) = quotient_of r in if d = 1 then Some n else None)"
| "whole_number _ = None"

definition native_options :: "server_options \<Rightarrow> adapter_options \<Rightarrow> thrown + native_server_options" where
  "native_options so ao =
     (case so_tls so of
        None \<Rightarrow> Inl (fatal_driver_error ''rwebtransport requires TLS certificate and key paths'' ''RWEBTRANSPORT_TLS_REQUIRED'')
      | Some tls \<Rightarrow>
          if tls_passphrase tls \<noteq> None then
            Inl (fatal_driver_error ''rwebtransport does not support encrypted private keys''
              ''RWEBTRANSPORT_TLS_PASSPHRASE_UNSUPPORTED'')
          else
            (case whole_number (so_port so) of
               None \<Rightarrow>
                 Inl (fatal_driver_error ''server port must be an integer between 0 and 65535'' ''RWEBTRANSPORT_INVALID_PORT'')
             | Some port \<Rightarrow>
                 if port < 0 \<or> port > 65535 then
                   Inl (fatal_driver_error ''server port must be an integer between 0 and 65535'' ''RWEBTRANSPORT_INVALID_PORT'')
                 else
                   bindE (credential_path (tls_certificate tls) ''certificate'') (\<lambda>cert.
                   bindE (credential_path (tls_key tls) ''private key'') (\<lambda>key.
                     Inr \<lparr>nso_port = port, nso_cert = cert, nso_key = key, nso_host = so_host so,
                          nso_protocols = so_protocols so, nso_origins = ao_origins ao,
                          nso_reuse_port = ao_reuse_port ao, nso_headers = ao_headers ao\<rparr>))))"

section \<open>Start and stop\<close>

datatype server_action =
    CreateServer native_server_options | CloseServer | CancelReader | ReportError thrown
  | DispatchSession nat | CloseRejected nat

record server_adapter =
  sv_server :: bool
  sv_start_called :: bool
  sv_stop_called :: bool
  sv_stopping :: bool
  sv_ready :: bool
  sv_reader :: bool
  sv_trace :: "server_action list"

definition new_server_adapter :: server_adapter where
  "new_server_adapter =
     \<lparr>sv_server = False, sv_start_called = False, sv_stop_called = False, sv_stopping = False,
      sv_ready = False, sv_reader = False, sv_trace = []\<rparr>"

definition sv_emit :: "server_action \<Rightarrow> server_adapter \<Rightarrow> server_adapter" where
  "sv_emit a s = s\<lparr>sv_trace := sv_trace s @ [a]\<rparr>"

definition driver_mapping :: "string \<Rightarrow> string option \<Rightarrow> mapping_options" where
  "driver_mapping operation code = \<lparr>map_target = DriverTarget, map_operation = Some operation, map_code = code\<rparr>"

text \<open>
  \<open>start\<close> and \<open>performStart\<close> up to the wait for the server; \<open>aborted\<close> is the reason of a signal that
  has been aborted already, \<open>failure\<close> what the factory throws.
\<close>

definition adapter_start ::
  "server_options \<Rightarrow> adapter_options \<Rightarrow> thrown option option \<Rightarrow> thrown option \<Rightarrow> server_adapter
     \<Rightarrow> server_adapter \<times> (thrown + unit)" where
  "adapter_start so ao aborted failure s =
     (if sv_start_called s then (s, Inr ())
      else
        (let s1 = s\<lparr>sv_start_called := True\<rparr> in
         case aborted of
           Some reason \<Rightarrow>
             (s1, Inl (map_native_error
                (case reason of Some r \<Rightarrow> r | None \<Rightarrow> DomException ''AbortError'' ''Server start was aborted'')
                (driver_mapping ''start server'' (Some ''RWEBTRANSPORT_START_ABORTED''))))
         | None \<Rightarrow>
             (case bindE (native_options so ao) (\<lambda>n. case failure of Some e \<Rightarrow> Inl e | None \<Rightarrow> Inr n) of
                Inl e \<Rightarrow>
                  (s1, Inl (map_native_error e
                     (driver_mapping ''create server'' (Some ''RWEBTRANSPORT_SERVER_CREATE_FAILED''))))
              | Inr n \<Rightarrow> (sv_emit (CreateServer n) (s1\<lparr>sv_server := True, sv_reader := True\<rparr>), Inr ()))))"

text \<open>\<open>stop\<close> and \<open>performStop\<close> up to its wait, and what follows it.\<close>

definition adapter_stop :: "server_adapter \<Rightarrow> server_adapter" where
  "adapter_stop s =
     (if sv_stop_called s then s
      else
        (let s1 = s\<lparr>sv_stop_called := True, sv_stopping := True\<rparr>
         in if sv_server s1 then sv_emit CloseServer s1 else s1))"

definition adapter_stopped :: "server_adapter \<Rightarrow> server_adapter" where
  "adapter_stopped s =
     (if sv_stopping s \<and> sv_server s then
        (if sv_reader s then sv_emit CancelReader (s\<lparr>sv_reader := False, sv_server := False\<rparr>)
         else s\<lparr>sv_server := False\<rparr>)
      else s)"

text \<open>The race of \<open>performStart\<close>: what comes first, and how the start ends.\<close>

datatype start_race = RaceReady | RaceClosed | RaceAborted "thrown option" | RaceFails thrown

definition start_outcome :: "start_race \<Rightarrow> thrown + unit" where
  "start_outcome r =
     (let failed = (\<lambda>e. Inl (map_native_error e (driver_mapping ''start server'' (Some ''RWEBTRANSPORT_SERVER_START_FAILED''))))
      in case r of
           RaceReady \<Rightarrow> Inr ()
         | RaceClosed \<Rightarrow>
             failed (fatal_driver_error ''rwebtransport server closed before becoming ready''
               ''RWEBTRANSPORT_SERVER_CLOSED_DURING_START'')
         | RaceAborted reason \<Rightarrow>
             failed (case reason of Some e \<Rightarrow> e | None \<Rightarrow> DomException ''AbortError'' ''Server start was aborted'')
         | RaceFails e \<Rightarrow> failed e)"

definition start_race_ends :: "start_race \<Rightarrow> server_adapter \<Rightarrow> server_adapter" where
  "start_race_ends r s =
     (if \<not> sv_server s then s
      else case start_outcome r of Inr _ \<Rightarrow> s\<lparr>sv_ready := True\<rparr> | Inl _ \<Rightarrow> adapter_stop s)"

text \<open>The native server closes after it was ready; without a stop that is an error.\<close>

definition server_closes :: "thrown option \<Rightarrow> server_adapter \<Rightarrow> server_adapter" where
  "server_closes failure s =
     (if sv_stopping s \<or> \<not> sv_ready s then s
      else sv_emit (ReportError
        (case failure of
           None \<Rightarrow> fatal_driver_error ''Native server closed unexpectedly'' ''RWEBTRANSPORT_SERVER_CLOSED''
         | Some e \<Rightarrow> map_native_error e (driver_mapping ''native server closed'' None))) s)"

section \<open>The session pump\<close>

datatype pump_read = PumpSession nat "thrown option" | PumpDone | PumpFails thrown

text \<open>
  One iteration of \<open>pumpSessions\<close> for the native session \<open>n\<close>, whose dispatch may throw, or the end of
  the loop. The reader is given up when the loop is left.
\<close>

definition pump_session :: "pump_read \<Rightarrow> server_adapter \<Rightarrow> server_adapter" where
  "pump_session r s =
     (if \<not> sv_reader s then s
      else case r of
        PumpSession n None \<Rightarrow> sv_emit (DispatchSession n) s
      | PumpSession n (Some e) \<Rightarrow>
          sv_emit (ReportError (map_native_error e (session_mapping ''dispatch accepted session'')))
            (sv_emit (CloseRejected n) (sv_emit (DispatchSession n) s))
      | PumpDone \<Rightarrow> s\<lparr>sv_reader := False\<rparr>
      | PumpFails e \<Rightarrow>
          (let s1 = (if sv_stopping s then s
                     else sv_emit (ReportError (map_native_error e
                       (driver_mapping ''accept sessions'' (Some ''RWEBTRANSPORT_SESSION_PUMP_FAILED'')))) s)
           in s1\<lparr>sv_reader := False\<rparr>))"

section \<open>Refusals are typed\<close>

lemma fatal_driver_error_shape:
  "fatal_driver_error m c = WtError WebTransportDriverError m c False SERVER None"
  by (simp add: fatal_driver_error_def new_error_eq)

lemma native_options_cases:
  "case native_options so ao of
     Inl e \<Rightarrow> \<exists>m c. e = WtError WebTransportDriverError m c False SERVER None
   | Inr n \<Rightarrow> nso_port n \<in> {0..65535} \<and> has_text (nso_cert n) \<and> has_text (nso_key n)"
  by (auto simp: native_options_def credential_path_def fatal_driver_error_shape bindE_Inr_iff bindE_Inl_iff
      split: option.split credential.splits if_splits sum.split)

text \<open>The reason for which server options are refused: the first of the list.\<close>

definition credential_refusal :: "credential \<Rightarrow> string option" where
  "credential_refusal c =
     (case c of
        PathCredential p \<Rightarrow> if \<forall>ch \<in> set p. white_space ch then Some ''RWEBTRANSPORT_TLS_PATH_EMPTY'' else None
      | _ \<Rightarrow> Some ''RWEBTRANSPORT_TLS_PATH_REQUIRED'')"

definition refusal :: "server_options \<Rightarrow> string option" where
  "refusal so =
     (case so_tls so of
        None \<Rightarrow> Some ''RWEBTRANSPORT_TLS_REQUIRED''
      | Some tls \<Rightarrow>
          if tls_passphrase tls \<noteq> None then Some ''RWEBTRANSPORT_TLS_PASSPHRASE_UNSUPPORTED''
          else if so_port so \<notin> js_int ` {0..65535} then Some ''RWEBTRANSPORT_INVALID_PORT''
          else (case credential_refusal (tls_certificate tls) of
                  Some code \<Rightarrow> Some code
                | None \<Rightarrow> credential_refusal (tls_key tls)))"

lemma whole_number_Some: "whole_number v = Some p \<longleftrightarrow> v = js_int p"
proof (cases v)
  case (Finite r)
  obtain a b where q: "quotient_of r = (a, b)" by (cases "quotient_of r")
  show ?thesis
  proof
    assume "whole_number v = Some p"
    with Finite q have "b = 1" "a = p" by (auto split: if_splits)
    with quotient_of_div [OF q] Finite show "v = js_int p" by simp
  qed simp
qed simp_all

lemma credential_path_Inr: "credential_path c name = Inr p \<longleftrightarrow> c = PathCredential p \<and> has_text p"
  by (auto simp: credential_path_def split: credential.splits)

lemma credential_path_Inl:
  "credential_path c name = Inl e \<Longrightarrow> \<exists>m code. e = fatal_driver_error m code \<and> credential_refusal c = Some code"
  by (auto simp: credential_path_def credential_refusal_def has_text_def split: credential.splits if_splits)

lemma credential_refusal_None: "c = PathCredential p \<Longrightarrow> has_text p \<Longrightarrow> credential_refusal c = None"
  by (auto simp: credential_refusal_def has_text_def)

lemma native_options_Inr:
  "native_options so ao = Inr n \<longleftrightarrow>
    (\<exists>tls. so_tls so = Some tls \<and> tls_passphrase tls = None \<and>
       so_port so = js_int (nso_port n) \<and> nso_port n \<in> {0..65535} \<and>
       tls_certificate tls = PathCredential (nso_cert n) \<and> has_text (nso_cert n) \<and>
       tls_key tls = PathCredential (nso_key n) \<and> has_text (nso_key n)) \<and>
    nso_host n = so_host so \<and> nso_protocols n = so_protocols so \<and> nso_origins n = ao_origins ao \<and>
    nso_reuse_port n = ao_reuse_port ao \<and> nso_headers n = ao_headers ao"
proof -
  have port: "(case whole_number v of None \<Rightarrow> Inl e | Some p \<Rightarrow> if p < 0 \<or> p > 65535 then Inl e else r p) = Inr m \<longleftrightarrow>
      (\<exists>p \<in> {0..65535}. v = js_int p \<and> r p = Inr m)" for v :: js_number and e :: thrown and r and m :: native_server_options
    by (cases "whole_number v") (auto simp: whole_number_Some [symmetric])
  show ?thesis
    unfolding native_options_def
    by (cases "so_tls so"; cases n) (auto simp: port bindE_Inr_iff credential_path_Inr)
qed

lemma native_options_Inl:
  "native_options so ao = Inl e \<Longrightarrow> \<exists>m code. e = fatal_driver_error m code \<and> refusal so = Some code"
proof -
  assume a: "native_options so ao = Inl e"
  have port: "so_port so \<in> js_int ` {0..65535} \<longleftrightarrow> (\<exists>p. whole_number (so_port so) = Some p \<and> 0 \<le> p \<and> p \<le> 65535)"
    by (auto simp: whole_number_Some)
  from a show ?thesis
    unfolding native_options_def refusal_def port
    by (auto simp: bindE_Inl_iff credential_path_Inr credential_refusal_None
        split: option.splits if_splits dest!: credential_path_Inl)
qed

text \<open>
  C34. The options a native server is created with. \<open>start\<close> creates the server exactly when TLS is
  configured without a passphrase, the port is an integer between 0 and 65535, and certificate and key are
  given as file names that are not blank; the server then gets that port, those file names, and host,
  protocols, origins, port sharing and response headers as they were given. In every other case nothing
  is created, and the caller gets a driver error that is not recoverable, has server scope, names the first
  reason by its code, and passes the error boundary of the adapter and of the driver unchanged. When the
  native constructor throws, its error is mapped and no server is kept.
\<close>

theorem server_options_checked:
  "(adapter_start so ao None None new_server_adapter =
      (new_server_adapter\<lparr>sv_start_called := True, sv_server := True, sv_reader := True, sv_trace := [CreateServer n]\<rparr>, Inr ()) \<longleftrightarrow>
    (\<exists>tls. so_tls so = Some tls \<and> tls_passphrase tls = None \<and>
       so_port so = js_int (nso_port n) \<and> nso_port n \<in> {0..65535} \<and>
       tls_certificate tls = PathCredential (nso_cert n) \<and> has_text (nso_cert n) \<and>
       tls_key tls = PathCredential (nso_key n) \<and> has_text (nso_key n)) \<and>
    nso_host n = so_host so \<and> nso_protocols n = so_protocols so \<and> nso_origins n = ao_origins ao \<and>
    nso_reuse_port n = ao_reuse_port ao \<and> nso_headers n = ao_headers ao) \<and>
   (case adapter_start so ao None None new_server_adapter of
      (s, Inl e) \<Rightarrow>
        s = new_server_adapter\<lparr>sv_start_called := True\<rparr> \<and>
        (\<exists>message code. e = WtError WebTransportDriverError message code False SERVER None \<and> refusal so = Some code) \<and>
        map_native_error e o' = e \<and>
        adapter_start so ao None (Some thrown) new_server_adapter = (s, Inl e)
    | (s, Inr _) \<Rightarrow>
        adapter_start so ao None (Some thrown) new_server_adapter =
          (new_server_adapter\<lparr>sv_start_called := True\<rparr>,
           Inl (map_native_error thrown (driver_mapping ''create server'' (Some ''RWEBTRANSPORT_SERVER_CREATE_FAILED'')))))"
proof (cases "native_options so ao")
  case (Inl e)
  from native_options_Inl [OF Inl] obtain m code where e: "e = fatal_driver_error m code" and r: "refusal so = Some code"
    by blast
  then have "map_native_error e p = e" for p by (simp add: map_core_error fatal_driver_error_shape)
  with Inl e r native_options_Inr [of so ao n] show ?thesis
    by (simp add: adapter_start_def new_server_adapter_def Let_def fatal_driver_error_shape)
next
  case (Inr m)
  then have "native_options so ao = Inr n \<longleftrightarrow> m = n" by auto
  moreover have "adapter_start so ao None None new_server_adapter =
      (new_server_adapter\<lparr>sv_start_called := True, sv_server := True, sv_reader := True, sv_trace := [CreateServer m]\<rparr>, Inr ())"
    by (simp add: adapter_start_def new_server_adapter_def sv_emit_def Let_def Inr)
  moreover have "adapter_start so ao None (Some thrown) new_server_adapter =
      (new_server_adapter\<lparr>sv_start_called := True\<rparr>,
       Inl (map_native_error thrown (driver_mapping ''create server'' (Some ''RWEBTRANSPORT_SERVER_CREATE_FAILED''))))"
    by (simp add: adapter_start_def new_server_adapter_def Let_def Inr)
  ultimately show ?thesis
    unfolding native_options_Inr [symmetric] by (simp add: new_server_adapter_def)
qed

end
