(* ===== verification/Driver_Machine.thy ===== *)
theory Driver_Machine
  imports Driver_Server Lifecycle
begin

text \<open>
  The driver (\<open>packages/driver-rwebtransport/src/driver.ts\<close>): the sessions it has accepted, the tasks
  that run session callbacks, start and stop with the promises they share, the cached connection
  statistics and the counters. Sessions are kept in the order in which they were accepted and referred
  to by their position; the counters are driven by the calls that the adapters make, which are the
  actions that a step appends to their traces.
\<close>

section \<open>Options\<close>

record driver_options =
  do_drain_timeout :: js_number
  do_max_sessions :: js_number
  do_stats_interval :: js_number
  do_max_callbacks :: js_number

definition finite_between :: "rat \<Rightarrow> js_number \<Rightarrow> bool" where
  "finite_between lo v = (case v of Finite r \<Rightarrow> lo \<le> r \<and> r \<le> 2147483647 | _ \<Rightarrow> False)"

text \<open>The assertions of the constructor, in order.\<close>

definition driver_assertions :: "driver_options \<Rightarrow> (bool \<times> thrown) list" where
  "driver_assertions d =
     [(finite_between 1 (do_stats_interval d),
        range_error ''connectionStatsIntervalMs must be between 1 and 2147483647''),
      (int_at_least 1 (do_max_sessions d), range_error ''maxSessions must be a positive safe integer''),
      (int_at_least 1 (do_max_callbacks d),
        range_error ''maxPendingSessionCallbacks must be a positive safe integer''),
      (finite_between 0 (do_drain_timeout d),
        range_error ''defaultDrainTimeoutMs must be a finite non-negative number'')]"

definition stop_timeout_ok :: "driver_options \<Rightarrow> js_number option \<Rightarrow> bool" where
  "stop_timeout_ok d timeout =
     finite_between 0 (case timeout of Some t \<Rightarrow> t | None \<Rightarrow> do_drain_timeout d)"

section \<open>State\<close>

datatype driver_action = StartServer nat | StopNative nat | RejectNative | DiagnosticError thrown

datatype start_point = NoStart | StartQueued | StartRunning nat

datatype driver_stop_point = NoStop | StopDrains | StopCloses bool

record driver_metrics =
  dm_streams_active :: int
  dm_streams_total :: int
  dm_datagrams_received :: int
  dm_datagrams_sent :: int
  dm_datagrams_dropped :: int
  dm_bytes_received :: int
  dm_bytes_sent :: int

record driver =
  dv_options :: driver_options
  dv_state :: server_state
  dv_callbacks :: "nat list"
  dv_all :: "session_adapter list"
  dv_sessions :: "(string \<times> nat) list"
  dv_connections :: "(string \<times> connection_stats) list"
  dv_tasks :: "nat list"
  dv_server :: "nat option"
  dv_servers :: nat
  dv_start :: start_point
  dv_stop :: driver_stop_point
  dv_refreshing :: bool
  dv_last_refresh :: "int option"
  dv_total :: int
  dv_rejected :: int
  dv_metrics :: driver_metrics
  dv_trace :: "driver_action list"

definition no_metrics :: driver_metrics where
  "no_metrics =
     \<lparr>dm_streams_active = 0, dm_streams_total = 0, dm_datagrams_received = 0, dm_datagrams_sent = 0,
      dm_datagrams_dropped = 0, dm_bytes_received = 0, dm_bytes_sent = 0\<rparr>"

definition new_driver :: "driver_options \<Rightarrow> thrown + driver" where
  "new_driver d =
     bindE (assert_all (driver_assertions d)) (\<lambda>_.
       Inr \<lparr>dv_options = d, dv_state = STOPPED, dv_callbacks = [], dv_all = [], dv_sessions = [],
            dv_connections = [], dv_tasks = [], dv_server = None, dv_servers = 0, dv_start = NoStart,
            dv_stop = NoStop, dv_refreshing = False, dv_last_refresh = None, dv_total = 0,
            dv_rejected = 0, dv_metrics = no_metrics, dv_trace = []\<rparr>)"

definition dv_emit :: "driver_action \<Rightarrow> driver \<Rightarrow> driver" where
  "dv_emit a s = s\<lparr>dv_trace := dv_trace s @ [a]\<rparr>"

section \<open>Metrics\<close>

text \<open>The object \<open>metrics\<close> of the constructor, one equation per callback.\<close>

fun count_stream :: "stream_action \<Rightarrow> driver_metrics \<Rightarrow> driver_metrics" where
  "count_stream StreamOpened m =
     m\<lparr>dm_streams_active := dm_streams_active m + 1, dm_streams_total := dm_streams_total m + 1\<rparr>"
| "count_stream StreamClosed m = m\<lparr>dm_streams_active := max 0 (dm_streams_active m - 1)\<rparr>"
| "count_stream (BytesReceived n) m = m\<lparr>dm_bytes_received := dm_bytes_received m + int n\<rparr>"
| "count_stream (BytesSent n) m = m\<lparr>dm_bytes_sent := dm_bytes_sent m + int n\<rparr>"
| "count_stream _ m = m"

fun count_datagram :: "datagram_action \<Rightarrow> driver_metrics \<Rightarrow> driver_metrics" where
  "count_datagram (DgReceived n) m =
     m\<lparr>dm_datagrams_received := dm_datagrams_received m + 1, dm_bytes_received := dm_bytes_received m + int n\<rparr>"
| "count_datagram (DgSent n) m =
     m\<lparr>dm_datagrams_sent := dm_datagrams_sent m + 1, dm_bytes_sent := dm_bytes_sent m + int n\<rparr>"
| "count_datagram _ m = m"

fun count_session :: "session_action \<Rightarrow> driver_metrics \<Rightarrow> driver_metrics" where
  "count_session (DatagramsDropped n) m = m\<lparr>dm_datagrams_dropped := dm_datagrams_dropped m + n\<rparr>"
| "count_session _ m = m"

text \<open>The calls that a step of a session makes: what it appends to the traces.\<close>

definition added :: "'a list \<Rightarrow> 'a list \<Rightarrow> 'a list" where
  "added old new = drop (length old) new"

definition old_trace :: "session_adapter \<Rightarrow> nat \<Rightarrow> stream_action list" where
  "old_trace s k = (if k < length (sx_streams s) then sa_trace (sx_streams s ! k) else [])"

definition stream_calls :: "session_adapter \<Rightarrow> session_adapter \<Rightarrow> stream_action list" where
  "stream_calls s s' =
     concat (map (\<lambda>k. added (old_trace s k) (sa_trace (sx_streams s' ! k))) [0..<length (sx_streams s')])"

definition count_step :: "session_adapter \<Rightarrow> session_adapter \<Rightarrow> driver_metrics \<Rightarrow> driver_metrics" where
  "count_step s s' m =
     fold count_session (added (sx_trace s) (sx_trace s'))
       (fold count_datagram (added (dg_trace (sx_datagrams s)) (dg_trace (sx_datagrams s')))
         (fold count_stream (stream_calls s s') m))"

section \<open>Sessions\<close>

definition driver_session :: "nat \<Rightarrow> driver \<Rightarrow> session_adapter" where
  "driver_session k s = dv_all s ! k"

text \<open>\<open>sessionClosed\<close>, the callback of a session that has closed.\<close>

definition session_closed :: "nat \<Rightarrow> driver \<Rightarrow> driver" where
  "session_closed k s =
     (let session = sx_id (driver_session k s) in
      if map_of (dv_sessions s) session = None then s
      else s\<lparr>dv_sessions := AList.delete session (dv_sessions s),
             dv_connections := AList.delete session (dv_connections s)\<rparr>)"

text \<open>Something happens to session \<open>k\<close>; its callbacks run.\<close>

definition on_session :: "nat \<Rightarrow> (session_adapter \<Rightarrow> session_adapter) \<Rightarrow> driver \<Rightarrow> driver" where
  "on_session k f s =
     (if k \<ge> length (dv_all s) then s
      else
        (let old = driver_session k s; new = f old;
             s1 = s\<lparr>dv_all := (dv_all s)[k := new], dv_metrics := count_step old new (dv_metrics s)\<rparr>
         in if sx_notified new \<and> \<not> sx_notified old then session_closed k s1 else s1))"

text \<open>
  \<open>acceptSession\<close>; \<open>session_id\<close> is what the id factory returns, \<open>failure\<close> what \<open>native.close\<close> throws.
  The native session is one that the library has just delivered: its headers are valid and its streams
  are not locked, so that the constructor of its adapter does not throw.
\<close>

definition accept_native :: "native_session \<Rightarrow> string \<Rightarrow> thrown option \<Rightarrow> driver \<Rightarrow> driver" where
  "accept_native native session_id failure s0 =
     (let s = s0\<lparr>dv_total := dv_total s0 + 1\<rparr> in
      if int (length (dv_sessions s)) \<ge> int (nat_of_number (do_max_sessions (dv_options s))) \<or>
         int (length (dv_tasks s)) \<ge> int (nat_of_number (do_max_callbacks (dv_options s))) then
        dv_emit RejectNative (s\<lparr>dv_rejected := dv_rejected s + 1\<rparr>)
      else
        (let k = length (dv_all s);
             s1 = s\<lparr>dv_all := dv_all s @ [new_session native session_id],
                    dv_sessions := AList.update session_id k (dv_sessions s)\<rparr>
         in if dv_state s1 \<in> {DRAINING, STOPPING, STOPPED} \<or> dv_callbacks s1 = [] then
              on_session k (call_close 1 ''server is not accepting sessions'' failure)
                (s1\<lparr>dv_rejected := dv_rejected s1 + 1\<rparr>)
            else s1\<lparr>dv_tasks := dv_tasks s1 @ [k]\<rparr>))"

text \<open>\<open>dispatchSession\<close>: a callback of session \<open>k\<close> throws; the task ends when its close has settled.\<close>

definition callback_fails :: "nat \<Rightarrow> thrown option \<Rightarrow> driver \<Rightarrow> driver" where
  "callback_fails k failure s =
     (if k \<notin> set (dv_tasks s) then s
      else on_session k (call_close 1 ''session callback failed'' failure) (s\<lparr>dv_rejected := dv_rejected s + 1\<rparr>))"

definition task_settles :: "nat \<Rightarrow> driver \<Rightarrow> driver" where
  "task_settles k s = s\<lparr>dv_tasks := js_delete k (dv_tasks s)\<rparr>"

section \<open>Start and stop\<close>

text \<open>\<open>performStart\<close> up to the wait for the server.\<close>

definition driver_perform_start :: "driver \<Rightarrow> driver" where
  "driver_perform_start s =
     (let n = dv_servers s in
      dv_emit (StartServer n)
        (s\<lparr>dv_state := STARTING, dv_last_refresh := None, dv_server := Some n, dv_servers := n + 1,
           dv_start := StartRunning n\<rparr>))"

definition driver_start :: "driver \<Rightarrow> driver" where
  "driver_start s =
     (if dv_state s = RUNNING then s
      else if dv_start s \<noteq> NoStart then s
      else if dv_stop s = NoStop then driver_perform_start s
      else s\<lparr>dv_start := StartQueued\<rparr>)"

text \<open>The server's answer to \<open>performStart\<close>.\<close>

definition driver_start_settles :: "bool \<Rightarrow> driver \<Rightarrow> driver" where
  "driver_start_settles ok s =
     (case dv_start s of
        StartRunning n \<Rightarrow>
          if ok then
            (if dv_server s = Some n \<and> dv_state s = STARTING then s\<lparr>dv_state := RUNNING, dv_start := NoStart\<rparr>
             else s\<lparr>dv_start := NoStart\<rparr>)
          else
            s\<lparr>dv_state := STOPPED, dv_server := (if dv_server s = Some n then None else dv_server s),
              dv_start := NoStart\<rparr>
      | _ \<Rightarrow> s)"

text \<open>\<open>performStop\<close> from the state \<open>STOPPING\<close> to its last wait: the server and every session are closed.\<close>

definition begin_closing :: "bool \<Rightarrow> (nat \<Rightarrow> thrown option) \<Rightarrow> driver \<Rightarrow> driver" where
  "begin_closing starting failure s =
     (let s1 = s\<lparr>dv_state := STOPPING, dv_stop := StopCloses starting\<rparr>;
          s2 = (case dv_server s1 of Some n \<Rightarrow> dv_emit (StopNative n) s1 | None \<Rightarrow> s1)
      in fold (\<lambda>(_, k). on_session k (call_close 0 ''server shutdown'' (failure k))) (dv_sessions s2) s2)"

definition driver_perform_stop ::
  "bool \<Rightarrow> js_number option \<Rightarrow> (nat \<Rightarrow> thrown option) \<Rightarrow> driver \<Rightarrow> driver" where
  "driver_perform_stop graceful timeout failure s =
     (if \<not> stop_timeout_ok (dv_options s) timeout then s
      else if dv_server s = None then s\<lparr>dv_state := STOPPED\<rparr>
      else
        (let starting = (dv_state s = STARTING) in
         if \<not> starting \<and> dv_state s \<noteq> STOPPING \<and> graceful then
           (fold (\<lambda>(_, k). on_session k (\<lambda>t. fst (call_drain None t))) (dv_sessions s)
              (s\<lparr>dv_state := DRAINING\<rparr>))\<lparr>dv_stop := StopDrains\<rparr>
         else begin_closing starting failure s))"

definition driver_stop ::
  "bool \<Rightarrow> js_number option \<Rightarrow> (nat \<Rightarrow> thrown option) \<Rightarrow> driver \<Rightarrow> driver" where
  "driver_stop graceful timeout failure s =
     (if dv_stop s \<noteq> NoStop then s
      else if dv_state s = STOPPED \<and> dv_start s = NoStart then s
      else driver_perform_stop graceful timeout failure s)"

text \<open>\<open>waitForDrainWork\<close> has returned: everything has drained, or the time or the signal ended the wait.\<close>

definition drain_work_ends :: "(nat \<Rightarrow> thrown option) \<Rightarrow> driver \<Rightarrow> driver" where
  "drain_work_ends failure s = (if dv_stop s = StopDrains then begin_closing False failure s else s)"

text \<open>
  \<open>waitForStop\<close> has returned or thrown, and \<open>finally\<close> has cleared the promise; a start that waited for
  the stop begins, or fails with it. A stop that began during a start waits for that start, too.
\<close>

definition start_running :: "driver \<Rightarrow> bool" where
  "start_running s = (case dv_start s of StartRunning _ \<Rightarrow> True | _ \<Rightarrow> False)"

definition driver_stop_settles :: "bool \<Rightarrow> driver \<Rightarrow> driver" where
  "driver_stop_settles ok s =
     (case dv_stop s of
        StopCloses starting \<Rightarrow>
          if ok \<and> starting \<and> start_running s then s
          else if ok then
            (let s1 = s\<lparr>dv_server := None, dv_state := STOPPED, dv_stop := NoStop\<rparr>
             in if dv_start s1 = StartQueued then driver_perform_start s1 else s1)
          else
            (let s1 = s\<lparr>dv_state := STOPPING, dv_stop := NoStop\<rparr>
             in if dv_start s1 = StartQueued then s1\<lparr>dv_start := NoStart\<rparr> else s1)
      | _ \<Rightarrow> s)"

definition handle_server_error :: "thrown \<Rightarrow> (nat \<Rightarrow> thrown option) \<Rightarrow> driver \<Rightarrow> driver" where
  "handle_server_error e failure s =
     (if dv_state s = RUNNING \<or> dv_state s = STARTING then
        driver_stop False None failure (dv_emit (DiagnosticError e) s)
      else s)"

section \<open>Statistics\<close>

record driver_stats =
  dst_captured_at :: int
  dst_state :: server_state
  dst_sessions :: "int \<times> int \<times> int"
  dst_streams :: "int \<times> int"
  dst_datagrams :: "int \<times> int \<times> int"
  dst_bytes :: "int \<times> int"
  dst_connections :: "connection_stats list"

text \<open>\<open>refreshConnectionStats\<close> up to its wait.\<close>

definition refresh_stats :: "int \<Rightarrow> driver \<Rightarrow> driver" where
  "refresh_stats now s =
     (if dv_refreshing s \<or> dv_sessions s = [] \<or>
         (case dv_last_refresh s of
            None \<Rightarrow> False
          | Some t \<Rightarrow> now \<ge> t \<and> js_less (js_int (now - t)) (do_stats_interval (dv_options s)))
      then s
      else s\<lparr>dv_refreshing := True, dv_last_refresh := Some now\<rparr>)"

definition get_stats :: "int \<Rightarrow> driver \<Rightarrow> driver \<times> driver_stats" where
  "get_stats now s0 =
     (let s = refresh_stats now s0; m = dv_metrics s in
      (s, \<lparr>dst_captured_at = now, dst_state = dv_state s,
           dst_sessions = (int (length (dv_sessions s)), dv_total s, dv_rejected s),
           dst_streams = (dm_streams_active m, dm_streams_total m),
           dst_datagrams = (dm_datagrams_received m, dm_datagrams_sent m, dm_datagrams_dropped m),
           dst_bytes = (dm_bytes_received m, dm_bytes_sent m),
           dst_connections = map snd (dv_connections s)\<rparr>))"

text \<open>\<open>captureSessionStats\<close> after the native answer.\<close>

definition capture_session :: "nat \<Rightarrow> native_stats \<Rightarrow> driver \<Rightarrow> driver" where
  "capture_session k n s =
     (if k \<ge> length (dv_all s) then s
      else
        (let stats = snd (capture_stats n (driver_session k s));
             s1 = on_session k (\<lambda>t. fst (capture_stats n t)) s;
             session = sx_id (driver_session k s)
         in if map_of (dv_sessions s1) session \<noteq> None then
              s1\<lparr>dv_connections := AList.update session stats (dv_connections s1)\<rparr>
            else s1))"

section \<open>Events\<close>

datatype driver_event =
    CallStart
  | StartAnswers bool
  | CallStop bool "js_number option" "nat \<Rightarrow> thrown option"
  | DrainWorkEnds "nat \<Rightarrow> thrown option"
  | StopAnswers bool
  | ServerFails thrown "nat \<Rightarrow> thrown option"
  | Subscribe nat
  | Unsubscribe nat
  | NativeArrives native_session string "thrown option"
  | CallbackThrows nat "thrown option"
  | TaskSettles nat
  | SessionHappens nat session_event
  | GetStats int
  | StatsAnswer nat native_stats
  | RefreshEnds

text \<open>The snapshots of a session are taken by \<open>captureSessionStats\<close> and by \<open>sessionClosed\<close> alone.\<close>

fun driver_step :: "driver_event \<Rightarrow> driver \<Rightarrow> driver" where
  "driver_step CallStart s = driver_start s"
| "driver_step (StartAnswers ok) s = driver_start_settles ok s"
| "driver_step (CallStop graceful timeout failure) s = driver_stop graceful timeout failure s"
| "driver_step (DrainWorkEnds failure) s = drain_work_ends failure s"
| "driver_step (StopAnswers ok) s = driver_stop_settles ok s"
| "driver_step (ServerFails e failure) s = handle_server_error e failure s"
| "driver_step (Subscribe c) s = s\<lparr>dv_callbacks := js_add c (dv_callbacks s)\<rparr>"
| "driver_step (Unsubscribe c) s = s\<lparr>dv_callbacks := js_delete c (dv_callbacks s)\<rparr>"
| "driver_step (NativeArrives native i failure) s = accept_native native i failure s"
| "driver_step (CallbackThrows k failure) s = callback_fails k failure s"
| "driver_step (TaskSettles k) s = task_settles k s"
| "driver_step (SessionHappens k e) s = on_session k (session_step e) s"
| "driver_step (GetStats now) s = fst (get_stats now s)"
| "driver_step (StatsAnswer k n) s = capture_session k n s"
| "driver_step RefreshEnds s = s\<lparr>dv_refreshing := False\<rparr>"

definition driver_run :: "driver_event list \<Rightarrow> driver \<Rightarrow> driver" where
  "driver_run es s = fold driver_step es s"

end
