(* ===== verification/Driver_Growth.thy ===== *)
theory Driver_Growth
  imports Driver_Machine "HOL-Library.Sublist"
begin

text \<open>
  Traces only grow: every operation of a stream, of a datagram channel and of a session appends to the
  traces it keeps, and the first action of a stream is that it was opened. The counters of the driver
  are exact because of this.
\<close>

section \<open>Streams\<close>

abbreviation grows :: "stream_adapter \<Rightarrow> stream_adapter \<Rightarrow> bool" where
  "grows s s' \<equiv> prefix (sa_trace s) (sa_trace s')"

lemma grows_trans: "grows s t \<Longrightarrow> grows t u \<Longrightarrow> grows s u"
  by (rule prefix_order.trans)

lemma grows_emit: "grows s t \<Longrightarrow> grows s (stream_emit a t)"
  by (simp add: prefix_prefix)

lemma grows_read: "grows s (read_stop r s)" "grows s (read_listener r s)"
  by (auto simp: read_stop_def read_listener_def Let_def split: option.split)

lemma grows_reset: "grows s (write_reset r s)"
  by (auto simp: write_reset_def Let_def split: option.split)

lemma grows_listener: "sa_closed s \<Longrightarrow> grows s (write_listener r s)"
  by (auto simp: write_listener.simps write_reset_def finish_write_closed Let_def split: option.split)

lemma grows_abort: "grows s (abort_stream r s)"
proof (cases "sa_closed s")
  case False
  define x where "x = (case r of Some e \<Rightarrow> e | None \<Rightarrow> default_abort)"
  define s1 where "s1 = s\<lparr>sa_closed := True, sa_reason := Some x\<rparr>"
  have "grows s s1" "sa_closed (read_listener x s1)" by (simp_all add: s1_def)
  moreover have "grows s1 (read_listener x s1)" by (rule grows_read)
  moreover have "grows (read_listener x s1) (write_listener x (read_listener x s1))"
    using calculation(2) by (rule grows_listener)
  ultimately have "grows s (write_listener x (read_listener x s1))" by (blast intro: grows_trans)
  with False show ?thesis
    by (simp add: abort_stream.simps [of r s] Let_def x_def [symmetric] s1_def [symmetric] prefix_prefix)
qed simp

lemma grows_part: "grows s (finish_part s)"
  using grows_abort [of "s\<lparr>sa_remaining := 0\<rparr>" None] by (auto simp: finish_part.simps Let_def)

lemma grows_finish: "grows s (finish_write s)" "grows s (finish_read c s)"
proof -
  show "grows s (finish_write s)"
    using grows_part [of "s\<lparr>sa_write := Some (the (sa_write s)\<lparr>wb_finished := True\<rparr>)\<rparr>"]
    by (auto simp: finish_write.simps split: option.split)
  show "grows s (finish_read c s)"
    using grows_part [of "s\<lparr>sa_read := Some (the (sa_read s)\<lparr>rb_finished := True\<rparr>)\<rparr>"]
    by (auto simp: finish_read_def Let_def split: option.split)
qed

lemmas grows_ops = grows_read grows_reset grows_abort grows_part grows_finish

lemma grows_step: "grows s (stream_step e s)"
proof -
  have after: "grows s (f (stream_emit a s))" if "\<And>t. grows t (f t)" for f a
    by (rule grows_trans [OF _ that]) simp
  have rf: "grows t (finish_read c (abort_stream r t))" for t c r
    by (rule grows_trans [OF grows_abort grows_finish(2)])
  have wf: "grows t (finish_write (abort_stream r t))" for t r
    by (rule grows_trans [OF grows_abort grows_finish(1)])
  have fr: "grows t (abort_stream r (finish_read c t))" for t c r
    by (rule grows_trans [OF grows_finish(2) grows_abort])
  have fre: "grows s (abort_stream r (finish_read c (stream_emit a s)))" for r c a
    by (rule grows_trans [OF _ fr]) simp
  have wfe: "grows s (finish_write (abort_stream r (stream_emit a s)))" for r a
    by (rule grows_trans [OF _ wf]) simp
  show ?thesis
  proof (cases e)
    case (ReadFails x)
    then show ?thesis unfolding ReadFails stream_step.simps Let_def by (intro after rf)
  next
    case (ReaderClosedFails x)
    then show ?thesis unfolding ReaderClosedFails stream_step.simps Let_def
      by (cases "sa_read s") (simp_all add: fre)
  next
    case (WriteFails x)
    then show ?thesis by (simp add: wf)
  next
    case (CloseSettles x)
    then show ?thesis by (cases x) (simp_all add: grows_finish wf)
  next
    case (WriterClosedFails x)
    then show ?thesis unfolding WriterClosedFails stream_step.simps Let_def
      by (cases "sa_write s") (simp_all add: wfe)
  next
    case (Reset c)
    have "grows s (write_reset n (read_stop n s))" for n by (rule grows_trans [OF grows_read(1) grows_reset])
    then have "grows s (abort_stream r (write_reset n (read_stop n s)))" for n r
      by (rule grows_trans [OF _ grows_abort])
    with Reset show ?thesis by (simp add: reset_stream_def Let_def)
  next
    case ReadDone
    then show ?thesis unfolding ReadDone stream_step.simps by (intro after grows_finish)
  qed (auto simp: grows_ops split: option.split)
qed

lemma grows_next: "grows s (stream_next e s)"
  by (simp add: stream_next_def grows_step)

lemma new_adapter_grows: "prefix [StreamOpened] (sa_trace (new_adapter shape parent))"
proof -
  define s0 where "s0 = \<lparr>sa_remaining = (if shape = BidiStream then 2 else 1 :: int), sa_closed = False, sa_reason = None,
                sa_read = None, sa_write = None, sa_trace = [StreamOpened]\<rparr>"
  have s1: "prefix [StreamOpened] (sa_trace (case parent of Some r \<Rightarrow> abort_stream (Some r) s0 | None \<Rightarrow> s0))"
    using grows_abort [of s0] by (auto simp: s0_def split: option.split)
  have l: "prefix [StreamOpened] (sa_trace t) \<Longrightarrow> prefix [StreamOpened] (sa_trace (read_listener r t))" for t r
    using grows_read(2) [of t r] by (rule prefix_order.trans [rotated])
  have w: "prefix [StreamOpened] (sa_trace t) \<Longrightarrow> sa_closed t \<Longrightarrow> prefix [StreamOpened] (sa_trace (write_listener r t))" for t r
    using grows_listener [of t r] by (blast intro: prefix_order.trans)
  show ?thesis
    unfolding new_adapter_def Let_def s0_def [symmetric]
    using s1 by (auto intro!: l w split: option.split simp: abort_open s0_def)
qed

section \<open>Sessions\<close>

definition session_grows :: "session_adapter \<Rightarrow> session_adapter \<Rightarrow> bool" where
  "session_grows s s' \<longleftrightarrow>
     sx_id s' = sx_id s \<and> (sx_notified s \<longrightarrow> sx_notified s') \<and>
     prefix (sx_trace s) (sx_trace s') \<and> prefix (dg_trace (sx_datagrams s)) (dg_trace (sx_datagrams s')) \<and>
     length (sx_streams s) \<le> length (sx_streams s') \<and>
     (\<forall>k < length (sx_streams s). grows (sx_streams s ! k) (sx_streams s' ! k))"

definition opens_first :: "session_adapter \<Rightarrow> bool" where
  "opens_first s \<longleftrightarrow> (\<forall>t \<in> set (sx_streams s). prefix [StreamOpened] (sa_trace t))"

lemma session_grows_refl [simp]: "session_grows s s"
  by (simp add: session_grows_def)

lemma session_grows_trans: "session_grows s t \<Longrightarrow> session_grows t u \<Longrightarrow> session_grows s u"
  unfolding session_grows_def by (auto intro: prefix_order.trans)

lemma grows_session_emit [simp]: "session_grows s (sx_emit a s)"
  by (simp add: session_grows_def sx_emit_def)

lemma grows_session_fields [simp]:
  "session_grows s (s\<lparr>sx_state := a, sx_close_called := b\<rparr>)" "session_grows s (s\<lparr>sx_observed := n\<rparr>)"
  "session_grows s (finish_bridge shape s)"
  by (simp_all add: session_grows_def finish_bridge_def)

lemma grows_datagram_step: "prefix (dg_trace d) (dg_trace (datagram_step e d))"
  by (cases e) (auto simp: dg_emit_def release_reader_def release_writer_def)

lemma grows_close_datagrams: "prefix (dg_trace d) (dg_trace (close_datagrams r d))"
  by (simp add: close_datagrams_def dg_emit_def Let_def)

lemma grows_session_finish: "session_grows s (finish_session e s)"
proof (cases "sx_state s = CLOSED")
  case False
  have g: "grows t (if sa_closed t then t else stream_next (ParentAborts r) t)" for t r
    by (simp add: grows_next)
  show ?thesis
    using False by (simp add: finish_session_def Let_def session_grows_def sx_emit_def g grows_close_datagrams)
qed (simp add: finish_session_def)

lemma grows_session_stream: "session_grows s (s\<lparr>sx_streams := sx_streams s @ [t]\<rparr>)"
  by (simp add: session_grows_def nth_append)

lemma grows_call_close: "session_grows s (call_close code r f s)"
proof -
  have e: "session_grows s (sx_emit a (s\<lparr>sx_state := x, sx_close_called := b\<rparr>))" for a x b
    by (rule session_grows_trans [OF grows_session_fields(1) grows_session_emit])
  have "session_grows s (finish_session z (sx_emit a (s\<lparr>sx_state := x, sx_close_called := b\<rparr>)))" for a x b z
    by (rule session_grows_trans [OF e grows_session_finish])
  with e show ?thesis by (simp add: call_close_def Let_def split: option.split)
qed

lemma grows_call_drain: "session_grows s (fst (call_drain f s))"
  by (simp add: call_drain_def)

lemma grows_create: "session_grows s (fst (create_stream shape n s))"
  by (auto simp: create_stream_def grows_session_stream split: sum.split)

lemma grows_pull: "session_grows s (pull_incoming shape r s)"
proof -
  have e: "session_grows s (finish_bridge shape (sx_emit a s))" for a
    by (rule session_grows_trans [OF grows_session_emit grows_session_fields(3)])
  have d: "session_grows s (sx_emit a (s\<lparr>sx_streams := sx_streams s @ [t]\<rparr>))" for a t
    by (rule session_grows_trans [OF grows_session_stream grows_session_emit])
  show ?thesis
    by (auto simp: pull_incoming_def pull_error_def e d split: pull_result.split sum.split)
qed

lemma grows_capture: "session_grows s (fst (capture_stats n s))"
proof -
  have "session_grows s (sx_emit a (s\<lparr>sx_observed := x\<rparr>))" for a x
    by (rule session_grows_trans [OF grows_session_fields(2) grows_session_emit])
  then show ?thesis by (simp add: capture_stats_def Let_def)
qed

lemma grows_session_step: "session_grows s (session_step e s)"
proof (cases e)
  case (NativeClosed r)
  then show ?thesis by (cases r) (simp_all add: grows_session_finish)
next
  case (StreamHappens k ev)
  then show ?thesis by (auto simp: session_grows_def nth_list_update grows_next)
next
  case (DatagramHappens ev)
  then show ?thesis by (simp add: session_grows_def grows_datagram_step)
qed (simp_all add: grows_session_finish grows_call_close grows_call_drain grows_create grows_pull grows_capture)

lemma opens_first_new: "opens_first (new_session native i)"
  by (simp add: opens_first_def new_session_def)

text \<open>New streams come from \<open>new_adapter\<close>, old ones grow.\<close>

lemma adapt_opens: "adapt_stream n p = Inr (i, t) \<Longrightarrow> prefix [StreamOpened] (sa_trace t)"
proof -
  assume a: "adapt_stream n p = Inr (i, t)"
  obtain shape x y where n: "n = NativeStreamOf shape x y" by (cases n) auto
  from a n have "t = new_adapter shape p"
    by (cases shape) (auto simp: receive_adapter_def send_adapter_def bidi_adapter_def bindE_Inr_iff split: if_splits)
  then show ?thesis using new_adapter_grows by simp
qed

lemma opens_first_finish: "opens_first s \<Longrightarrow> opens_first (finish_session e s)"
  using grows_next by (auto simp: opens_first_def finish_session_def Let_def intro: prefix_order.trans)

lemma opens_first_simps [simp]:
  "opens_first (sx_emit a s) = opens_first s" "opens_first (finish_bridge shape s) = opens_first s"
  "opens_first (s\<lparr>sx_state := x, sx_close_called := b\<rparr>) = opens_first s"
  "opens_first (s\<lparr>sx_observed := n\<rparr>) = opens_first s" "opens_first (s\<lparr>sx_datagrams := d\<rparr>) = opens_first s"
  by (simp_all add: opens_first_def finish_bridge_def)

lemma opens_first_add:
  "opens_first s \<Longrightarrow> adapt_stream n p = Inr (i, t) \<Longrightarrow> opens_first (s\<lparr>sx_streams := sx_streams s @ [t]\<rparr>)"
  using adapt_opens by (auto simp: opens_first_def)

lemma opens_first_ops:
  "opens_first s \<Longrightarrow> opens_first (call_close code r f s)"
  "opens_first s \<Longrightarrow> opens_first (fst (call_drain f s))"
  "opens_first s \<Longrightarrow> opens_first (fst (capture_stats n s))"
  "opens_first s \<Longrightarrow> opens_first (fst (create_stream shape ns s))"
  "opens_first s \<Longrightarrow> opens_first (pull_incoming shape pr s)"
  by (auto simp: call_close_def call_drain_def capture_stats_def create_stream_def pull_incoming_def pull_error_def
      Let_def bindE_Inr_iff opens_first_finish opens_first_add
      split: option.split sum.split pull_result.split)

lemma opens_first_step: "opens_first s \<Longrightarrow> opens_first (session_step e s)"
proof (cases e)
  case (NativeClosed r)
  then show "opens_first s \<Longrightarrow> ?thesis" by (cases r) (simp_all add: opens_first_finish)
next
  case (StreamHappens k ev)
  assume o: "opens_first s"
  have "prefix [StreamOpened] (sa_trace (stream_next ev t))" if "prefix [StreamOpened] (sa_trace t)" for t
    using that grows_next by (rule prefix_order.trans)
  with StreamHappens o show ?thesis
    by (auto simp: opens_first_def dest!: set_update_subset_insert [THEN subsetD])
qed (simp_all add: opens_first_finish opens_first_ops)

end
