(* ===== verification/Driver_Counters.thy ===== *)
theory Driver_Counters
  imports Driver_Growth
begin

text \<open>
  The counters of the driver are exact. They are updated by callbacks, one per action of an adapter,
  and one of them is clipped at zero; the lemmas show that the updates of a step are the difference of
  what the session itself accounts for, before and after, and that the clipping never takes effect.
\<close>

section \<open>What a session accounts for\<close>

fun stream_bytes_in :: "stream_action \<Rightarrow> int" where
  "stream_bytes_in (BytesReceived n) = int n" | "stream_bytes_in _ = 0"

fun stream_bytes_out :: "stream_action \<Rightarrow> int" where
  "stream_bytes_out (BytesSent n) = int n" | "stream_bytes_out _ = 0"

definition tally :: "('a \<Rightarrow> int) \<Rightarrow> 'a list \<Rightarrow> int" where
  "tally h xs = sum_list (map h xs)"

definition session_metrics :: "session_adapter \<Rightarrow> driver_metrics" where
  "session_metrics t =
     \<lparr>dm_streams_active = int (length (filter (\<lambda>x. \<not> sa_closed x) (sx_streams t))),
      dm_streams_total = int (length (sx_streams t)),
      dm_datagrams_received = int (dg_received (sx_datagrams t)),
      dm_datagrams_sent = int (dg_sent (sx_datagrams t)),
      dm_datagrams_dropped = reported_drops t,
      dm_bytes_received = tally (\<lambda>x. tally stream_bytes_in (sa_trace x)) (sx_streams t) +
        int (sum_list (received_actions (sx_datagrams t))),
      dm_bytes_sent = tally (\<lambda>x. tally stream_bytes_out (sa_trace x)) (sx_streams t) +
        int (sum_list (sent_actions (sx_datagrams t)))\<rparr>"

definition total_metrics :: "session_adapter list \<Rightarrow> driver_metrics" where
  "total_metrics ts =
     \<lparr>dm_streams_active = tally (\<lambda>t. dm_streams_active (session_metrics t)) ts,
      dm_streams_total = tally (\<lambda>t. dm_streams_total (session_metrics t)) ts,
      dm_datagrams_received = tally (\<lambda>t. dm_datagrams_received (session_metrics t)) ts,
      dm_datagrams_sent = tally (\<lambda>t. dm_datagrams_sent (session_metrics t)) ts,
      dm_datagrams_dropped = tally (\<lambda>t. dm_datagrams_dropped (session_metrics t)) ts,
      dm_bytes_received = tally (\<lambda>t. dm_bytes_received (session_metrics t)) ts,
      dm_bytes_sent = tally (\<lambda>t. dm_bytes_sent (session_metrics t)) ts\<rparr>"

section \<open>Tallies\<close>

lemma tally_simps [simp]:
  "tally h [] = 0" "tally h (x # xs) = h x + tally h xs" "tally h (xs @ ys) = tally h xs + tally h ys"
  by (simp_all add: tally_def)

lemma tally_nonneg: "(\<And>x. x \<in> set xs \<Longrightarrow> 0 \<le> h x) \<Longrightarrow> 0 \<le> tally h xs"
  unfolding tally_def by (rule sum_list_nonneg) auto

lemma tally_concat: "tally h (concat xss) = tally (tally h) xss"
  by (induction xss) simp_all

lemma tally_map: "tally h (map f xs) = tally (\<lambda>x. h (f x)) xs"
  by (induction xs) simp_all

lemma tally_cong: "(\<And>x. x \<in> set xs \<Longrightarrow> g x = h x) \<Longrightarrow> tally g xs = tally h xs"
  by (induction xs) simp_all

lemma tally_diff: "tally (\<lambda>x. g x - h x) xs = tally g xs - tally h xs"
  by (induction xs) simp_all

lemma tally_zero: "(\<And>x. x \<in> set xs \<Longrightarrow> h x = 0) \<Longrightarrow> tally h xs = 0"
  by (induction xs) simp_all

lemma tally_update: "k < length xs \<Longrightarrow> tally h (xs[k := v]) = tally h xs - h (xs ! k) + h v"
  by (induction xs arbitrary: k) (auto split: nat.splits)

lemma tally_member: "(\<And>x. x \<in> set xs \<Longrightarrow> 0 \<le> h x) \<Longrightarrow> y \<in> set xs \<Longrightarrow> h y \<le> tally h xs"
proof (induction xs)
  case (Cons x xs)
  have "0 \<le> h x" "0 \<le> tally h xs" using Cons.prems tally_nonneg [of xs h] by auto
  with Cons show ?case by (cases "y = x") fastforce+
qed simp

lemma tally_nth: "tally (\<lambda>k. h (xs ! k)) [0..<length xs] = tally h xs"
  by (metis map_nth tally_map)

lemma tally_added: "prefix old new \<Longrightarrow> tally h (added old new) = tally h new - tally h old"
  by (auto simp: prefix_def added_def)

section \<open>The updates of a step\<close>

fun balance_of :: "stream_action \<Rightarrow> int" where
  "balance_of StreamOpened = 1" | "balance_of StreamClosed = -1" | "balance_of _ = 0"

fun opened_of :: "stream_action \<Rightarrow> int" where
  "opened_of StreamOpened = 1" | "opened_of _ = 0"

text \<open>A list of actions that never closes more streams than there are: \<open>n\<close> are open at its start.\<close>

fun fits :: "int \<Rightarrow> stream_action list \<Rightarrow> bool" where
  "fits n [] \<longleftrightarrow> 0 \<le> n"
| "fits n (a # xs) \<longleftrightarrow> 0 \<le> n \<and> fits (n + balance_of a) xs"

lemma fits_append: "fits n (xs @ ys) \<longleftrightarrow> fits n xs \<and> fits (n + tally balance_of xs) ys"
proof (induction xs arbitrary: n)
  case Nil
  then show ?case by (cases ys) auto
next
  case (Cons x xs)
  then show ?case by (simp add: add.assoc)
qed

lemma fits_nonneg: "fits n xs \<Longrightarrow> 0 \<le> n \<and> 0 \<le> n + tally balance_of xs"
proof (induction xs arbitrary: n)
  case (Cons x xs)
  then have "0 \<le> n + balance_of x + tally balance_of xs" by simp
  with Cons show ?case by (simp add: add.assoc)
qed simp

lemma fits_mono: "fits m xs \<Longrightarrow> m \<le> n \<Longrightarrow> fits n xs"
proof (induction xs arbitrary: m n)
  case (Cons x xs)
  have "fits (n + balance_of x) xs"
    by (rule Cons.IH [of "m + balance_of x"]) (use Cons.prems in simp_all)
  moreover have "0 \<le> n" using Cons.prems by simp
  ultimately show ?case by simp
qed simp

lemma balance_count: "tally balance_of xs = int (count_list xs StreamOpened) - int (count_list xs StreamClosed)"
proof (induction xs)
  case (Cons x xs)
  then show ?case by (cases x) simp_all
qed simp

lemma fits_one: "int (count_list xs StreamClosed) \<le> n \<Longrightarrow> fits n xs"
proof (induction xs arbitrary: n)
  case (Cons x xs)
  have "fits (n + balance_of x) xs" using Cons.prems by (intro Cons.IH) (cases x; simp)
  with Cons.prems show ?case by (simp split: if_splits)
qed simp

lemma stream_fits:
  assumes "stream_inv t" "prefix [StreamOpened] (sa_trace t)"
  shows "fits 0 (sa_trace t)"
proof -
  from assms(2) obtain r where r: "sa_trace t = StreamOpened # r" by (auto simp: prefix_def)
  with assms(1) have "int (count_list r StreamClosed) \<le> 1" by (auto simp: stream_inv_def split: if_splits)
  with r fits_one show ?thesis by simp
qed

lemma stream_balance: "stream_inv t \<Longrightarrow> tally balance_of (sa_trace t) = (if sa_closed t then 0 else 1)"
  by (simp add: balance_count stream_inv_def)

lemma opened_count: "tally opened_of xs = int (count_list xs StreamOpened)"
proof (induction xs)
  case (Cons x xs)
  then show ?case by (cases x) simp_all
qed simp

lemma count_streams:
  assumes "fits (dm_streams_active m) xs"
  shows "fold count_stream xs m =
      m\<lparr>dm_streams_active := dm_streams_active m + tally balance_of xs,
        dm_streams_total := dm_streams_total m + tally opened_of xs,
        dm_bytes_received := dm_bytes_received m + tally stream_bytes_in xs,
        dm_bytes_sent := dm_bytes_sent m + tally stream_bytes_out xs\<rparr>"
  using assms
proof (induction xs arbitrary: m)
  case (Cons x xs)
  have n: "0 \<le> dm_streams_active m + balance_of x"
    using Cons.prems fits_nonneg [of "dm_streams_active m + balance_of x" xs] by simp
  then have a: "dm_streams_active (count_stream x m) = dm_streams_active m + balance_of x"
    by (cases x) simp_all
  with Cons show ?case using n by (cases x) simp_all
qed simp

lemma count_datagrams:
  "fold count_datagram xs m =
     m\<lparr>dm_datagrams_received := dm_datagrams_received m + tally (\<lambda>a. case a of DgReceived n \<Rightarrow> 1 | _ \<Rightarrow> 0) xs,
       dm_bytes_received := dm_bytes_received m + tally (\<lambda>a. case a of DgReceived n \<Rightarrow> int n | _ \<Rightarrow> 0) xs,
       dm_datagrams_sent := dm_datagrams_sent m + tally (\<lambda>a. case a of DgSent n \<Rightarrow> 1 | _ \<Rightarrow> 0) xs,
       dm_bytes_sent := dm_bytes_sent m + tally (\<lambda>a. case a of DgSent n \<Rightarrow> int n | _ \<Rightarrow> 0) xs\<rparr>"
proof (induction xs arbitrary: m)
  case (Cons x xs)
  then show ?case by (cases x) simp_all
qed simp

lemma count_sessions:
  "fold count_session xs m =
     m\<lparr>dm_datagrams_dropped := dm_datagrams_dropped m + tally (\<lambda>a. case a of DatagramsDropped n \<Rightarrow> n | _ \<Rightarrow> 0) xs\<rparr>"
proof (induction xs arbitrary: m)
  case (Cons x xs)
  then show ?case by (cases x) simp_all
qed simp

section \<open>The calls of the streams\<close>

lemma old_trace_grows:
  assumes "session_grows s s'" "k < length (sx_streams s')"
  shows "prefix (old_trace s k) (sa_trace (sx_streams s' ! k))"
  using assms by (simp add: session_grows_def old_trace_def)

lemma tally_old: "length (sx_streams s) \<le> n \<Longrightarrow>
  tally (\<lambda>k. tally h (old_trace s k)) [0..<n] = tally (\<lambda>x. tally h (sa_trace x)) (sx_streams s)"
proof -
  assume n: "length (sx_streams s) \<le> n"
  then have u: "[0..<n] = [0..<length (sx_streams s)] @ [length (sx_streams s)..<n]"
    by (metis le0 le_add_diff_inverse upt_add_eq_append)
  have "tally (\<lambda>k. tally h (old_trace s k)) [0..<length (sx_streams s)] =
      tally (\<lambda>k. tally h (sa_trace (sx_streams s ! k))) [0..<length (sx_streams s)]"
    by (rule tally_cong) (simp add: old_trace_def)
  also have "\<dots> = tally (\<lambda>x. tally h (sa_trace x)) (sx_streams s)"
    by (rule tally_nth)
  finally show ?thesis
    by (simp add: u) (rule tally_zero, simp add: old_trace_def)
qed

lemma tally_calls:
  assumes "session_grows s s'"
  shows "tally h (stream_calls s s') =
    tally (\<lambda>x. tally h (sa_trace x)) (sx_streams s') - tally (\<lambda>x. tally h (sa_trace x)) (sx_streams s)"
proof -
  let ?n = "length (sx_streams s')"
  have "tally h (stream_calls s s') =
      tally (\<lambda>k. tally h (sa_trace (sx_streams s' ! k)) - tally h (old_trace s k)) [0..<?n]"
    unfolding stream_calls_def tally_concat tally_map
    by (rule tally_cong) (simp add: tally_added old_trace_grows [OF assms])
  also have "\<dots> = tally (\<lambda>k. tally h (sa_trace (sx_streams s' ! k))) [0..<?n] -
      tally (\<lambda>k. tally h (old_trace s k)) [0..<?n]"
    by (rule tally_diff)
  finally show ?thesis
    using assms by (simp add: tally_old session_grows_def tally_nth [where h = "\<lambda>x. tally h (sa_trace x)" for h])
qed

lemma fits_pieces:
  assumes "\<And>k. k \<in> set ks \<Longrightarrow> prefix (old k) (new k) \<and> fits 0 (new k)"
    and "tally (\<lambda>k. tally balance_of (old k)) ks \<le> n"
  shows "fits n (concat (map (\<lambda>k. added (old k) (new k)) ks))"
  using assms
proof (induction ks arbitrary: n)
  case (Cons k ks)
  from Cons.prems(1) [of k] obtain p where p: "new k = old k @ p" and f: "fits 0 (old k @ p)"
    by (auto simp: prefix_def)
  have a: "added (old k) (new k) = p" by (simp add: p added_def)
  have nonneg: "0 \<le> tally (\<lambda>k. tally balance_of (old k)) ks"
  proof (rule tally_nonneg)
    fix j assume "j \<in> set ks"
    with Cons.prems(1) [of j] show "0 \<le> tally balance_of (old j)"
      by (auto simp: prefix_def fits_append dest: fits_nonneg)
  qed
  have piece: "fits (tally balance_of (old k)) p" using f by (simp add: fits_append)
  then have "0 \<le> tally balance_of (old k) + tally balance_of p" by (simp add: fits_nonneg)
  with Cons.prems(2) have "fits (n + tally balance_of p) (concat (map (\<lambda>k. added (old k) (new k)) ks))"
    using Cons.prems(1) by (intro Cons.IH) auto
  moreover have "fits n p" using piece Cons.prems(2) nonneg by (auto elim: fits_mono)
  ultimately show ?case by (simp add: a fits_append)
qed simp

text \<open>What is known of every session: its invariant, and that its streams start with their opening.\<close>

definition sound_session :: "session_adapter \<Rightarrow> bool" where
  "sound_session t \<longleftrightarrow> session_inv t \<and> opens_first t"

lemma sound_streams: "sound_session t \<Longrightarrow> x \<in> set (sx_streams t) \<Longrightarrow> stream_inv x \<and> fits 0 (sa_trace x)"
  by (simp add: sound_session_def session_inv_def opens_first_def stream_fits)

lemma sound_active:
  assumes "sound_session t"
  shows "dm_streams_active (session_metrics t) = tally (\<lambda>x. tally balance_of (sa_trace x)) (sx_streams t)"
proof -
  have "int (length (filter (\<lambda>x. \<not> sa_closed x) xs)) = tally (\<lambda>x. tally balance_of (sa_trace x)) xs"
    if "\<And>x. x \<in> set xs \<Longrightarrow> stream_inv x" for xs
    using that by (induction xs) (auto simp: stream_balance)
  with assms show ?thesis by (simp add: session_metrics_def sound_streams)
qed

lemma stream_opened: "stream_inv t \<Longrightarrow> times_opened t = 1"
  by (simp add: stream_inv_def)

lemma sound_total:
  assumes "sound_session t"
  shows "dm_streams_total (session_metrics t) = tally (\<lambda>x. tally opened_of (sa_trace x)) (sx_streams t)"
proof -
  have "int (length xs) = tally (\<lambda>x. tally opened_of (sa_trace x)) xs"
    if "\<And>x. x \<in> set xs \<Longrightarrow> stream_inv x" for xs
    using that by (induction xs) (auto simp: opened_count stream_opened)
  with assms show ?thesis by (simp add: session_metrics_def sound_streams)
qed

lemma calls_fit:
  assumes "sound_session s" "sound_session s'" "session_grows s s'"
    and "dm_streams_active (session_metrics s) \<le> n"
  shows "fits n (stream_calls s s')"
  unfolding stream_calls_def
proof (rule fits_pieces)
  show "tally (\<lambda>k. tally balance_of (old_trace s k)) [0..<length (sx_streams s')] \<le> n"
    using assms by (simp add: tally_old session_grows_def sound_active)
next
  fix k
  assume "k \<in> set [0..<length (sx_streams s')]"
  then show "prefix (old_trace s k) (sa_trace (sx_streams s' ! k)) \<and> fits 0 (sa_trace (sx_streams s' ! k))"
    using assms by (simp add: old_trace_grows sound_streams)
qed

section \<open>The other counters\<close>

lemma datagram_tallies:
  "tally (\<lambda>a. case a of DgReceived n \<Rightarrow> 1 | _ \<Rightarrow> 0) (dg_trace d) = int (length (received_actions d))"
  "tally (\<lambda>a. case a of DgReceived n \<Rightarrow> int n | _ \<Rightarrow> 0) (dg_trace d) = int (sum_list (received_actions d))"
  "tally (\<lambda>a. case a of DgSent n \<Rightarrow> 1 | _ \<Rightarrow> 0) (dg_trace d) = int (length (sent_actions d))"
  "tally (\<lambda>a. case a of DgSent n \<Rightarrow> int n | _ \<Rightarrow> 0) (dg_trace d) = int (sum_list (sent_actions d))"
proof -
  have "tally (\<lambda>a. case a of DgReceived n \<Rightarrow> 1 | _ \<Rightarrow> 0) xs =
        int (length (concat (map (\<lambda>a. case a of DgReceived n \<Rightarrow> [n] | _ \<Rightarrow> []) xs)))"
    "tally (\<lambda>a. case a of DgReceived n \<Rightarrow> int n | _ \<Rightarrow> 0) xs =
        int (sum_list (concat (map (\<lambda>a. case a of DgReceived n \<Rightarrow> [n] | _ \<Rightarrow> []) xs)))"
    "tally (\<lambda>a. case a of DgSent n \<Rightarrow> 1 | _ \<Rightarrow> 0) xs =
        int (length (concat (map (\<lambda>a. case a of DgSent n \<Rightarrow> [n] | _ \<Rightarrow> []) xs)))"
    "tally (\<lambda>a. case a of DgSent n \<Rightarrow> int n | _ \<Rightarrow> 0) xs =
        int (sum_list (concat (map (\<lambda>a. case a of DgSent n \<Rightarrow> [n] | _ \<Rightarrow> []) xs)))" for xs
    by (induction xs) (auto split: datagram_action.split)
  then show
    "tally (\<lambda>a. case a of DgReceived n \<Rightarrow> 1 | _ \<Rightarrow> 0) (dg_trace d) = int (length (received_actions d))"
    "tally (\<lambda>a. case a of DgReceived n \<Rightarrow> int n | _ \<Rightarrow> 0) (dg_trace d) = int (sum_list (received_actions d))"
    "tally (\<lambda>a. case a of DgSent n \<Rightarrow> 1 | _ \<Rightarrow> 0) (dg_trace d) = int (length (sent_actions d))"
    "tally (\<lambda>a. case a of DgSent n \<Rightarrow> int n | _ \<Rightarrow> 0) (dg_trace d) = int (sum_list (sent_actions d))"
    by (simp_all add: received_actions_def sent_actions_def)
qed

lemma drops_tally:
  "tally (\<lambda>a. case a of DatagramsDropped n \<Rightarrow> n | _ \<Rightarrow> 0) (sx_trace t) = reported_drops t"
  by (simp add: tally_def reported_drops_def)

lemma sound_datagrams:
  assumes "sound_session t"
  shows "dg_received (sx_datagrams t) = length (received_actions (sx_datagrams t))"
    "dg_sent (sx_datagrams t) = length (sent_actions (sx_datagrams t))"
  using assms by (simp_all add: sound_session_def session_inv_def datagram_inv_def)

text \<open>The updates of a step are the difference of what the session accounts for.\<close>

lemma count_step_exact:
  assumes "sound_session s" "sound_session s'" "session_grows s s'"
    and "dm_streams_active (session_metrics s) \<le> dm_streams_active m"
  shows "count_step s s' m =
    \<lparr>dm_streams_active = dm_streams_active m - dm_streams_active (session_metrics s) + dm_streams_active (session_metrics s'),
     dm_streams_total = dm_streams_total m - dm_streams_total (session_metrics s) + dm_streams_total (session_metrics s'),
     dm_datagrams_received = dm_datagrams_received m - dm_datagrams_received (session_metrics s) +
       dm_datagrams_received (session_metrics s'),
     dm_datagrams_sent = dm_datagrams_sent m - dm_datagrams_sent (session_metrics s) + dm_datagrams_sent (session_metrics s'),
     dm_datagrams_dropped = dm_datagrams_dropped m - dm_datagrams_dropped (session_metrics s) +
       dm_datagrams_dropped (session_metrics s'),
     dm_bytes_received = dm_bytes_received m - dm_bytes_received (session_metrics s) + dm_bytes_received (session_metrics s'),
     dm_bytes_sent = dm_bytes_sent m - dm_bytes_sent (session_metrics s) + dm_bytes_sent (session_metrics s')\<rparr>"
proof -
  note calls = tally_calls [OF assms(3)]
  have dg: "prefix (dg_trace (sx_datagrams s)) (dg_trace (sx_datagrams s'))" "prefix (sx_trace s) (sx_trace s')"
    using assms(3) by (simp_all add: session_grows_def)
  have act: "dm_streams_active (session_metrics t) = tally (\<lambda>x. tally balance_of (sa_trace x)) (sx_streams t)"
    "dm_streams_total (session_metrics t) = tally (\<lambda>x. tally opened_of (sa_trace x)) (sx_streams t)"
    if "sound_session t" for t
    using that by (rule sound_active, rule sound_total)
  show ?thesis
    unfolding count_step_def count_streams [OF calls_fit [OF assms]] count_datagrams count_sessions
    by (simp add: calls act assms tally_added dg datagram_tallies drops_tally)
      (simp add: session_metrics_def sound_datagrams assms)
qed

lemma count_step_total:
  assumes "k < length ts" "\<And>t. t \<in> set ts \<Longrightarrow> sound_session t" "sound_session t'" "session_grows (ts ! k) t'"
  shows "count_step (ts ! k) t' (total_metrics ts) = total_metrics (ts[k := t'])"
proof -
  have "dm_streams_active (session_metrics (ts ! k)) \<le> tally (\<lambda>t. dm_streams_active (session_metrics t)) ts"
    using assms(1) by (intro tally_member) (auto simp: session_metrics_def)
  with assms show ?thesis
    by (subst count_step_exact) (simp_all add: total_metrics_def tally_update)
qed

end
