(* ===== verification/Driver_Safety.thy ===== *)
theory Driver_Safety
  imports Driver_Counters
begin

text \<open>
  What holds of the driver after every sequence of events: the session table and the statistics refer
  to sessions that are open, the limits are kept, the counters are those of the sessions, and the state
  agrees with the start and the stop that are under way.
\<close>

section \<open>The invariant\<close>

definition indexed :: "driver \<Rightarrow> bool" where
  "indexed s \<longleftrightarrow>
     distinct (keys (dv_sessions s)) \<and>
     (\<forall>(i, k) \<in> set (dv_sessions s).
        k < length (dv_all s) \<and> sx_id (dv_all s ! k) = i \<and> sx_state (dv_all s ! k) \<noteq> CLOSED) \<and>
     distinct (keys (dv_connections s)) \<and> set (keys (dv_connections s)) \<subseteq> set (keys (dv_sessions s)) \<and>
     (distinct (map sx_id (dv_all s)) \<longrightarrow>
        (\<forall>k < length (dv_all s). sx_state (dv_all s ! k) \<noteq> CLOSED \<longrightarrow> (sx_id (dv_all s ! k), k) \<in> set (dv_sessions s)))"

definition capped :: "driver \<Rightarrow> bool" where
  "capped s \<longleftrightarrow>
     length (dv_sessions s) \<le> nat_of_number (do_max_sessions (dv_options s)) \<and>
     length (dv_tasks s) \<le> nat_of_number (do_max_callbacks (dv_options s))"

definition refusals :: "driver \<Rightarrow> nat" where
  "refusals s = count_list (dv_trace s) RejectNative"

definition phased :: "driver \<Rightarrow> bool" where
  "phased s \<longleftrightarrow>
     (dv_state s = RUNNING \<longrightarrow> dv_start s = NoStart \<and> dv_stop s = NoStop \<and> dv_server s \<noteq> None) \<and>
     (dv_state s = STARTING \<longrightarrow> (\<exists>n. dv_start s = StartRunning n \<and> dv_server s = Some n) \<and> dv_stop s = NoStop) \<and>
     (dv_state s = DRAINING \<longleftrightarrow> dv_stop s = StopDrains) \<and>
     (dv_state s = DRAINING \<longrightarrow> dv_server s \<noteq> None \<and> (\<forall>n. dv_start s \<noteq> StartRunning n)) \<and>
     (dv_state s = STOPPED \<and> dv_start s \<noteq> NoStart \<and> dv_stop s = NoStop \<longrightarrow> dv_server s = None) \<and>
     (dv_start s = StartQueued \<longrightarrow> dv_stop s \<noteq> NoStop)"

definition driver_inv :: "driver \<Rightarrow> bool" where
  "driver_inv s \<longleftrightarrow>
     (\<forall>t \<in> set (dv_all s). sound_session t) \<and> dv_metrics s = total_metrics (dv_all s) \<and>
     indexed s \<and> capped s \<and> dv_total s = int (length (dv_all s) + refusals s) \<and> phased s"

section \<open>Session operations\<close>

definition sound_operation :: "(session_adapter \<Rightarrow> session_adapter) \<Rightarrow> bool" where
  "sound_operation f \<longleftrightarrow> (\<forall>t. sound_session t \<longrightarrow> sound_session (f t) \<and> session_grows t (f t))"

lemma sound_operations [simp]:
  "sound_operation (call_close code r failure)" "sound_operation (\<lambda>t. fst (call_drain d t))"
  "sound_operation (session_step e)" "sound_operation (\<lambda>t. fst (capture_stats n t))"
  using session_step_inv [of _ "CallDrain d"]
  by (simp_all add: sound_operation_def sound_session_def grows_call_close grows_call_drain grows_session_step
      grows_capture opens_first_ops opens_first_step call_close_inv session_step_inv capture_stats_inv)

lemma session_closed_frame [simp]:
  "dv_all (session_closed k s) = dv_all s" "dv_metrics (session_closed k s) = dv_metrics s"
  "dv_options (session_closed k s) = dv_options s" "dv_tasks (session_closed k s) = dv_tasks s"
  "dv_state (session_closed k s) = dv_state s" "dv_server (session_closed k s) = dv_server s"
  "dv_start (session_closed k s) = dv_start s" "dv_stop (session_closed k s) = dv_stop s"
  "dv_trace (session_closed k s) = dv_trace s" "dv_total (session_closed k s) = dv_total s"
  "dv_callbacks (session_closed k s) = dv_callbacks s" "dv_rejected (session_closed k s) = dv_rejected s"
  by (simp_all add: session_closed_def Let_def)

lemma on_session_frame [simp]:
  "dv_options (on_session k f s) = dv_options s" "dv_tasks (on_session k f s) = dv_tasks s"
  "dv_state (on_session k f s) = dv_state s" "dv_server (on_session k f s) = dv_server s"
  "dv_start (on_session k f s) = dv_start s" "dv_stop (on_session k f s) = dv_stop s"
  "dv_trace (on_session k f s) = dv_trace s" "dv_total (on_session k f s) = dv_total s"
  "dv_callbacks (on_session k f s) = dv_callbacks s" "dv_rejected (on_session k f s) = dv_rejected s"
  "length (dv_all (on_session k f s)) = length (dv_all s)"
  by (simp_all add: on_session_def Let_def)

lemma on_session_all:
  "k < length (dv_all s) \<Longrightarrow> dv_all (on_session k f s) = (dv_all s)[k := f (dv_all s ! k)]"
  by (simp add: on_session_def driver_session_def Let_def)

lemma on_session_metrics:
  "k < length (dv_all s) \<Longrightarrow>
   dv_metrics (on_session k f s) = count_step (dv_all s ! k) (f (dv_all s ! k)) (dv_metrics s)"
  by (simp add: on_session_def driver_session_def Let_def)

lemma closed_delete:
  "dv_sessions (session_closed k s) = AList.delete (sx_id (driver_session k s)) (dv_sessions s)"
  "set (keys (dv_connections s)) \<subseteq> set (keys (dv_sessions s)) \<Longrightarrow>
   dv_connections (session_closed k s) = AList.delete (sx_id (driver_session k s)) (dv_connections s)"
proof -
  let ?i = "sx_id (driver_session k s)"
  show "dv_sessions (session_closed k s) = AList.delete ?i (dv_sessions s)"
    by (simp add: session_closed_def Let_def map_of_eq_None_iff delete_id)
  assume "set (keys (dv_connections s)) \<subseteq> set (keys (dv_sessions s))"
  then have "?i \<notin> set (keys (dv_sessions s)) \<Longrightarrow> AList.delete ?i (dv_connections s) = dv_connections s"
    by (intro delete_id) auto
  then show "dv_connections (session_closed k s) = AList.delete ?i (dv_connections s)"
    by (simp add: session_closed_def Let_def map_of_eq_None_iff)
qed

lemma sound_id: "sound_operation f \<Longrightarrow> sound_session t \<Longrightarrow> sx_id (f t) = sx_id t"
  by (auto simp: sound_operation_def session_grows_def)

lemma sound_notified: "sound_session t \<Longrightarrow> sx_notified t = (sx_state t = CLOSED)"
  by (simp add: sound_session_def session_inv_def)

lemma closed_stays:
  assumes "sound_operation f" "sound_session t" "sx_state t = CLOSED"
  shows "sx_state (f t) = CLOSED"
proof -
  have "sound_session (f t)" "session_grows t (f t)" using assms(1,2) by (simp_all add: sound_operation_def)
  then show ?thesis using assms sound_notified by (auto simp: session_grows_def)
qed

text \<open>The two ways in which a session event changes the tables.\<close>

lemma on_session_tables:
  assumes "k < length (dv_all s)" "sound_operation f" "\<forall>t \<in> set (dv_all s). sound_session t"
    and "set (keys (dv_connections s)) \<subseteq> set (keys (dv_sessions s))"
  shows "(if sx_state (f (dv_all s ! k)) = CLOSED \<and> sx_state (dv_all s ! k) \<noteq> CLOSED then
       dv_sessions (on_session k f s) = AList.delete (sx_id (dv_all s ! k)) (dv_sessions s) \<and>
       dv_connections (on_session k f s) = AList.delete (sx_id (dv_all s ! k)) (dv_connections s)
     else dv_sessions (on_session k f s) = dv_sessions s \<and> dv_connections (on_session k f s) = dv_connections s)"
proof -
  have t: "sound_session (dv_all s ! k)" using assms(1,3) by simp
  then have t': "sound_session (f (dv_all s ! k))" using assms(2) by (simp add: sound_operation_def)
  have i: "sx_id (f (dv_all s ! k)) = sx_id (dv_all s ! k)" using assms(2) t by (rule sound_id)
  show ?thesis
    using assms(1,4) i sound_notified [OF t] sound_notified [OF t']
    by (simp add: on_session_def driver_session_def Let_def closed_delete)
qed

lemma set_delete: "set (AList.delete i m) = {x \<in> set m. fst x \<noteq> i}"
  by (auto simp: AList.delete_eq)

lemma indexed_on_session:
  assumes "k < length (dv_all s)" "sound_operation f" "\<forall>t \<in> set (dv_all s). sound_session t" "indexed s"
  shows "indexed (on_session k f s)"
proof -
  have t: "sound_session (dv_all s ! k)" using assms(1,3) by simp
  have i: "sx_id (f (dv_all s ! k)) = sx_id (dv_all s ! k)" using assms(2) t by (rule sound_id)
  have c: "sx_state (dv_all s ! k) = CLOSED \<Longrightarrow> sx_state (f (dv_all s ! k)) = CLOSED"
    using assms(2) t by (rule closed_stays)
  have ids: "map sx_id (dv_all (on_session k f s)) = map sx_id (dv_all s)"
    using assms(1) i by (simp add: on_session_all map_update list_update_same_conv)
  have nth: "dv_all (on_session k f s) ! j = (if j = k then f (dv_all s ! k) else dv_all s ! j)" for j
    using assms(1) by (simp add: on_session_all)
  note tables = on_session_tables [OF assms(1,2,3)]
  show ?thesis
  proof (cases "sx_state (f (dv_all s ! k)) = CLOSED \<and> sx_state (dv_all s ! k) \<noteq> CLOSED")
    case True
    have other: "sx_id (dv_all s ! j) \<noteq> sx_id (dv_all s ! k)"
      if "distinct (map sx_id (dv_all s))" "j < length (dv_all s)" "j \<noteq> k" for j
      using that assms(1) nth_eq_iff_index_eq [of "map sx_id (dv_all s)" j k] by simp
    from True assms(1,4) tables i other show ?thesis
      by (auto simp: indexed_def nth ids set_delete keys_delete distinct_keys_delete)
  next
    case False
    with assms(4) tables i c show ?thesis by (auto simp: indexed_def nth ids)
  qed
qed

lemma driver_on_session:
  assumes "sound_operation f" "driver_inv s"
  shows "driver_inv (on_session k f s)"
proof (cases "k < length (dv_all s)")
  case True
  have all: "\<forall>t \<in> set (dv_all s). sound_session t" and ix: "indexed s"
    using assms(2) by (simp_all add: driver_inv_def)
  have t: "sound_session (dv_all s ! k)" using True all by simp
  have f: "sound_session (f (dv_all s ! k))" "session_grows (dv_all s ! k) (f (dv_all s ! k))"
    using assms(1) t by (simp_all add: sound_operation_def)
  have "\<forall>t \<in> set (dv_all (on_session k f s)). sound_session t"
    using all f(1) True by (auto simp: on_session_all dest!: set_update_subset_insert [THEN subsetD])
  moreover have "dv_metrics (on_session k f s) = total_metrics (dv_all (on_session k f s))"
    using count_step_total [OF True _ f] all assms(2)
    by (simp add: driver_inv_def on_session_all on_session_metrics True)
  moreover have "indexed (on_session k f s)" using True assms(1) all ix by (rule indexed_on_session)
  moreover have "length (dv_sessions (on_session k f s)) \<le> length (dv_sessions s)"
    using on_session_tables [OF True assms(1) all] ix length_delete_le
    by (auto simp: indexed_def split: if_splits)
  ultimately show ?thesis
    using assms(2) by (auto simp: driver_inv_def capped_def refusals_def phased_def)
qed (use assms in \<open>simp add: on_session_def\<close>)

lemma driver_on_sessions:
  assumes "\<And>k. sound_operation (f k)" "driver_inv s"
  shows "driver_inv (fold (\<lambda>(_, k). on_session k (f k)) m s)"
  using assms(2)
proof (induction m arbitrary: s)
  case (Cons x m)
  then show ?case by (cases x) (simp add: driver_on_session assms(1))
qed simp

lemma on_sessions_frame [simp]:
  "dv_options (fold (\<lambda>(_, k). on_session k (f k)) m s) = dv_options s"
  "dv_state (fold (\<lambda>(_, k). on_session k (f k)) m s) = dv_state s"
  "dv_server (fold (\<lambda>(_, k). on_session k (f k)) m s) = dv_server s"
  "dv_start (fold (\<lambda>(_, k). on_session k (f k)) m s) = dv_start s"
  "dv_stop (fold (\<lambda>(_, k). on_session k (f k)) m s) = dv_stop s"
proof -
  have "dv_options (fold (\<lambda>(_, k). on_session k (f k)) m s) = dv_options s \<and>
      dv_state (fold (\<lambda>(_, k). on_session k (f k)) m s) = dv_state s \<and>
      dv_server (fold (\<lambda>(_, k). on_session k (f k)) m s) = dv_server s \<and>
      dv_start (fold (\<lambda>(_, k). on_session k (f k)) m s) = dv_start s \<and>
      dv_stop (fold (\<lambda>(_, k). on_session k (f k)) m s) = dv_stop s"
  proof (induction m arbitrary: s)
    case (Cons x m)
    then show ?case by (cases x) simp
  qed simp
  then show "dv_options (fold (\<lambda>(_, k). on_session k (f k)) m s) = dv_options s"
    "dv_state (fold (\<lambda>(_, k). on_session k (f k)) m s) = dv_state s"
    "dv_server (fold (\<lambda>(_, k). on_session k (f k)) m s) = dv_server s"
    "dv_start (fold (\<lambda>(_, k). on_session k (f k)) m s) = dv_start s"
    "dv_stop (fold (\<lambda>(_, k). on_session k (f k)) m s) = dv_stop s"
    by simp_all
qed

section \<open>Driver operations\<close>

text \<open>The parts of the invariant that do not read the lifecycle.\<close>

definition tables_inv :: "driver \<Rightarrow> bool" where
  "tables_inv s \<longleftrightarrow>
     (\<forall>t \<in> set (dv_all s). sound_session t) \<and> dv_metrics s = total_metrics (dv_all s) \<and>
     indexed s \<and> capped s \<and> dv_total s = int (length (dv_all s) + refusals s)"

lemma driver_inv_split: "driver_inv s \<longleftrightarrow> tables_inv s \<and> phased s"
  by (auto simp: driver_inv_def tables_inv_def)

lemma tables_fields [simp]:
  "tables_inv (s\<lparr>dv_state := x\<rparr>) = tables_inv s" "tables_inv (s\<lparr>dv_start := p\<rparr>) = tables_inv s"
  "tables_inv (s\<lparr>dv_stop := q\<rparr>) = tables_inv s" "tables_inv (s\<lparr>dv_server := n\<rparr>) = tables_inv s"
  "tables_inv (s\<lparr>dv_servers := j\<rparr>) = tables_inv s" "tables_inv (s\<lparr>dv_rejected := r\<rparr>) = tables_inv s"
  "tables_inv (s\<lparr>dv_refreshing := b\<rparr>) = tables_inv s" "tables_inv (s\<lparr>dv_last_refresh := l\<rparr>) = tables_inv s"
  "tables_inv (s\<lparr>dv_callbacks := c\<rparr>) = tables_inv s"
  by (simp_all add: tables_inv_def indexed_def capped_def refusals_def)

lemma phased_fields [simp]:
  "phased (s\<lparr>dv_rejected := r\<rparr>) = phased s" "phased (s\<lparr>dv_refreshing := b\<rparr>) = phased s"
  "phased (s\<lparr>dv_last_refresh := l\<rparr>) = phased s" "phased (s\<lparr>dv_callbacks := c\<rparr>) = phased s"
  "phased (s\<lparr>dv_tasks := ts\<rparr>) = phased s" "phased (s\<lparr>dv_connections := cs\<rparr>) = phased s"
  "phased (s\<lparr>dv_total := n\<rparr>) = phased s" "phased (s\<lparr>dv_servers := j\<rparr>) = phased s"
  "phased (s\<lparr>dv_all := a, dv_sessions := m\<rparr>) = phased s"
  by (simp_all add: phased_def)

lemma tables_emit [simp]:
  "a \<noteq> RejectNative \<Longrightarrow> tables_inv (dv_emit a s) = tables_inv s" "phased (dv_emit a s) = phased s"
  by (simp_all add: tables_inv_def indexed_def capped_def refusals_def phased_def dv_emit_def)

lemma tables_on_sessions:
  "(\<And>k. sound_operation (f k)) \<Longrightarrow> tables_inv s \<Longrightarrow> tables_inv (fold (\<lambda>(_, k). on_session k (f k)) m s)"
proof -
  assume f: "\<And>k. sound_operation (f k)" and t: "tables_inv s"
  have "phased (s\<lparr>dv_state := STOPPED, dv_start := NoStart, dv_stop := NoStop\<rparr>)" by (simp add: phased_def)
  then have p: "driver_inv (s\<lparr>dv_state := STOPPED, dv_start := NoStart, dv_stop := NoStop\<rparr>)"
    using t by (simp add: driver_inv_split)
  have "on_session k g (u\<lparr>dv_state := STOPPED, dv_start := NoStart, dv_stop := NoStop\<rparr>) =
      (on_session k g u)\<lparr>dv_state := STOPPED, dv_start := NoStart, dv_stop := NoStop\<rparr>" for k g u
    by (simp add: on_session_def session_closed_def driver_session_def Let_def)
  then have "fold (\<lambda>(_, k). on_session k (f k)) m (u\<lparr>dv_state := STOPPED, dv_start := NoStart, dv_stop := NoStop\<rparr>) =
      (fold (\<lambda>(_, k). on_session k (f k)) m u)\<lparr>dv_state := STOPPED, dv_start := NoStart, dv_stop := NoStop\<rparr>" for u
    by (induction m arbitrary: u) (auto simp: prod.case_eq_if)
  with driver_on_sessions [where f = f and m = m, OF f p] show ?thesis by (simp add: driver_inv_split)
qed

lemma perform_start_inv: "tables_inv s \<Longrightarrow> dv_stop s = NoStop \<Longrightarrow> driver_inv (driver_perform_start s)"
  by (simp add: driver_perform_start_def Let_def driver_inv_split) (simp add: phased_def)

lemma driver_invD: "driver_inv s \<Longrightarrow> tables_inv s" "driver_inv s \<Longrightarrow> phased s"
  by (simp_all add: driver_inv_split)

lemma driver_invI: "tables_inv s \<Longrightarrow> phased s \<Longrightarrow> driver_inv s"
  by (simp add: driver_inv_split)

lemma driver_fields [simp]:
  "driver_inv (s\<lparr>dv_rejected := r\<rparr>) = driver_inv s" "driver_inv (s\<lparr>dv_refreshing := b\<rparr>) = driver_inv s"
  "driver_inv (s\<lparr>dv_last_refresh := l\<rparr>) = driver_inv s" "driver_inv (s\<lparr>dv_callbacks := c\<rparr>) = driver_inv s"
  by (simp_all add: driver_inv_split)

lemma driver_start_inv: "driver_inv s \<Longrightarrow> driver_inv (driver_start s)"
proof -
  assume i: "driver_inv s"
  have "driver_inv (s\<lparr>dv_start := StartQueued\<rparr>)" if "dv_stop s \<noteq> NoStop" "dv_start s = NoStart" "dv_state s \<noteq> RUNNING"
    using driver_invD [OF i] that by (intro driver_invI) (auto simp: phased_def)
  with i driver_invD(1) [OF i] show ?thesis by (simp add: driver_start_def perform_start_inv)
qed

lemma start_settles_inv: "driver_inv s \<Longrightarrow> driver_inv (driver_start_settles ok s)"
  by (auto simp: driver_start_settles_def driver_inv_split phased_def split: start_point.split)

lemma begin_closing_inv: "tables_inv s \<Longrightarrow> driver_inv (begin_closing b failure s)"
  by (auto simp: begin_closing_def Let_def driver_inv_split tables_on_sessions split: option.split)
    (simp_all add: phased_def dv_emit_def)

lemma driver_stop_inv: "driver_inv s \<Longrightarrow> driver_inv (driver_stop graceful timeout failure s)"
proof -
  assume i: "driver_inv s"
  have "driver_inv ((fold (\<lambda>(_, k). on_session k (\<lambda>t. fst (call_drain None t))) (dv_sessions s)
      (s\<lparr>dv_state := DRAINING\<rparr>))\<lparr>dv_stop := StopDrains\<rparr>)"
    if "dv_server s \<noteq> None" "dv_state s \<noteq> STARTING" "dv_state s \<noteq> STOPPING" "dv_stop s = NoStop"
      "dv_state s = STOPPED \<longrightarrow> dv_start s \<noteq> NoStart"
    using driver_invD [OF i] that
    by (intro driver_invI) (cases "dv_state s"; simp add: tables_on_sessions phased_def)+
  moreover have "driver_inv (s\<lparr>dv_state := STOPPED\<rparr>)" if "dv_server s = None" "dv_stop s = NoStop"
    using driver_invD [OF i] that by (intro driver_invI) (auto simp: phased_def)
  ultimately show ?thesis
    using i driver_invD(1) [OF i] by (simp add: driver_stop_def driver_perform_stop_def Let_def begin_closing_inv)
qed

lemma drain_ends_inv: "driver_inv s \<Longrightarrow> driver_inv (drain_work_ends failure s)"
  by (simp add: drain_work_ends_def begin_closing_inv driver_invD)

lemma stop_settles_inv: "driver_inv s \<Longrightarrow> driver_inv (driver_stop_settles ok s)"
proof -
  assume i: "driver_inv s"
  have "driver_inv (s\<lparr>dv_server := None, dv_state := STOPPED, dv_stop := NoStop\<rparr>)" if "dv_start s \<noteq> StartQueued"
    using driver_invD [OF i] that by (intro driver_invI) (auto simp: phased_def)
  moreover have "driver_inv (driver_perform_start (s\<lparr>dv_server := None, dv_state := STOPPED, dv_stop := NoStop\<rparr>))"
    using driver_invD [OF i] by (simp add: perform_start_inv)
  moreover have "driver_inv (s\<lparr>dv_state := STOPPING, dv_stop := NoStop\<rparr>)" if "dv_start s \<noteq> StartQueued"
    using driver_invD [OF i] that by (intro driver_invI) (auto simp: phased_def)
  moreover have "driver_inv (s\<lparr>dv_state := STOPPING, dv_stop := NoStop, dv_start := NoStart\<rparr>)"
    using driver_invD [OF i] by (intro driver_invI) (auto simp: phased_def)
  ultimately show ?thesis
    using i by (simp add: driver_stop_settles_def Let_def split: driver_stop_point.split)
qed

lemma server_error_inv: "driver_inv s \<Longrightarrow> driver_inv (handle_server_error e failure s)"
proof -
  assume i: "driver_inv s"
  have "driver_inv (dv_emit (DiagnosticError e) s)" using driver_invD [OF i] by (intro driver_invI) simp_all
  with i show ?thesis by (simp add: handle_server_error_def driver_stop_inv)
qed

section \<open>Sessions that arrive\<close>

lemma new_session_sound [simp]: "sound_session (new_session native i)"
  by (simp add: sound_session_def new_session_inv opens_first_new)

lemma new_session_metrics: "session_metrics (new_session native i) = no_metrics"
  by (simp add: session_metrics_def new_session_def new_datagrams_def no_metrics_def reported_drops_def
      received_actions_def sent_actions_def)

lemma total_metrics_new: "total_metrics (ts @ [new_session native i]) = total_metrics ts"
  by (simp add: total_metrics_def new_session_metrics no_metrics_def)

lemma set_update: "distinct (keys m) \<Longrightarrow> set (AList.update i v m) = insert (i, v) {x \<in> set m. fst x \<noteq> i}"
proof (induction m)
  case (Cons x m)
  then show ?case by (cases x) (force simp: image_iff)
qed simp

lemma indexed_add:
  assumes "indexed s"
  shows "indexed (s\<lparr>dv_all := dv_all s @ [new_session native i],
      dv_sessions := AList.update i (length (dv_all s)) (dv_sessions s)\<rparr>)"
proof -
  have n: "sx_id (new_session native i) = i" "sx_state (new_session native i) = CONNECTED"
    by (simp_all add: new_session_def)
  have d: "distinct (keys (dv_sessions s))" using assms by (simp add: indexed_def)
  show ?thesis
    using assms n
    by (auto simp: indexed_def set_update [OF d] keys_update nth_append less_Suc_eq)
qed

lemma accept_inv: "driver_inv s \<Longrightarrow> driver_inv (accept_native native i failure s)"
proof -
  assume inv: "driver_inv s"
  define u where "u = s\<lparr>dv_total := dv_total s + 1\<rparr>"
  define v where "v = u\<lparr>dv_all := dv_all u @ [new_session native i],
      dv_sessions := AList.update i (length (dv_all u)) (dv_sessions u)\<rparr>"
  have refused: "driver_inv (dv_emit RejectNative (u\<lparr>dv_rejected := dv_rejected u + 1\<rparr>))"
    using inv by (simp add: driver_inv_def u_def indexed_def capped_def refusals_def dv_emit_def phased_def)
  have acc: "driver_inv v \<and> driver_inv (v\<lparr>dv_tasks := dv_tasks v @ [length (dv_all u)]\<rparr>)"
    if cap: "length (dv_sessions u) < nat_of_number (do_max_sessions (dv_options u))"
      "length (dv_tasks u) < nat_of_number (do_max_callbacks (dv_options u))"
  proof -
    have ix: "indexed v"
    proof -
      have "indexed u" using inv by (simp add: driver_inv_def u_def indexed_def)
      then show ?thesis unfolding v_def by (rule indexed_add)
    qed
    then have ix': "indexed (v\<lparr>dv_tasks := ts\<rparr>)" for ts by (simp add: indexed_def)
    have c: "length (dv_sessions v) \<le> Suc (length (dv_sessions u))" by (simp add: v_def length_update)
    have "phased v" "phased (v\<lparr>dv_tasks := ts\<rparr>)" for ts using inv by (simp_all add: driver_inv_def v_def u_def)
    then show ?thesis
      using inv ix ix' c cap
      by (simp add: driver_inv_def capped_def v_def u_def total_metrics_new refusals_def)
  qed
  have rejected: "driver_inv (on_session k (call_close c r failure) (v\<lparr>dv_rejected := dv_rejected v + 1\<rparr>))"
    if "driver_inv v" for k c r
    by (rule driver_on_session) (use that in simp_all)
  show ?thesis
    using refused acc rejected
    unfolding accept_native_def Let_def u_def [symmetric] v_def [symmetric] by (simp add: not_le)
qed

lemma callback_fails_inv: "driver_inv s \<Longrightarrow> driver_inv (callback_fails k failure s)"
  by (simp add: callback_fails_def driver_on_session)

lemma length_js_delete_le: "length (js_delete x xs) \<le> length xs"
  by (simp add: js_delete_def)

lemma task_settles_inv: "driver_inv s \<Longrightarrow> driver_inv (task_settles k s)"
  using length_js_delete_le [of k "dv_tasks s"]
  by (simp add: task_settles_def driver_inv_def indexed_def capped_def refusals_def)

lemma capture_session_inv: "driver_inv s \<Longrightarrow> driver_inv (capture_session k n s)"
proof -
  assume i: "driver_inv s"
  let ?u = "on_session k (\<lambda>t. fst (capture_stats n t)) s"
  have u: "driver_inv ?u" using i by (simp add: driver_on_session)
  have "driver_inv (?u\<lparr>dv_connections := AList.update id' st (dv_connections ?u)\<rparr>)"
    if "map_of (dv_sessions ?u) id' \<noteq> None" for id' st
    using u that
    by (auto simp: driver_inv_def indexed_def capped_def refusals_def keys_update distinct_keys_update
        map_of_eq_None_iff)
  with i u show ?thesis by (simp add: capture_session_def Let_def)
qed

lemma get_stats_inv: "driver_inv s \<Longrightarrow> driver_inv (fst (get_stats now s))"
  by (simp add: get_stats_def refresh_stats_def Let_def)

lemma driver_step_inv: "driver_inv s \<Longrightarrow> driver_inv (driver_step e s)"
  by (cases e) (simp_all add: driver_start_inv start_settles_inv driver_stop_inv drain_ends_inv stop_settles_inv
      server_error_inv accept_inv callback_fails_inv task_settles_inv driver_on_session get_stats_inv
      capture_session_inv)

interpretation driver_life: event_system driver_step driver_inv
  by unfold_locales (rule driver_step_inv)

lemma new_driver_inv: "new_driver d = Inr s \<Longrightarrow> driver_inv s"
  by (auto simp: new_driver_def bindE_Inr_iff driver_inv_def indexed_def capped_def refusals_def phased_def
      total_metrics_def no_metrics_def)

lemma driver_run_inv: "new_driver d = Inr s \<Longrightarrow> driver_inv (driver_run es s)"
  unfolding driver_run_def by (rule driver_life.run_inv [OF new_driver_inv])

section \<open>Capacity\<close>

definition open_session :: "session_adapter \<Rightarrow> bool" where
  "open_session t \<longleftrightarrow> sx_state t \<noteq> CLOSED"

lemma indexed_positions:
  assumes "indexed s" "distinct (map sx_id (dv_all s))"
  shows "length (dv_sessions s) = length (filter open_session (dv_all s))"
proof -
  let ?P = "{k. k < length (dv_all s) \<and> open_session (dv_all s ! k)}"
  have ids: "\<And>x. x \<in> set (dv_sessions s) \<Longrightarrow> fst x = sx_id (dv_all s ! snd x)"
    using assms(1) by (auto simp: indexed_def)
  have inj: "inj_on snd (set (dv_sessions s))"
    by (rule inj_onI) (simp add: prod_eq_iff ids)
  have "set (map snd (dv_sessions s)) = ?P"
  proof (intro equalityI subsetI)
    fix k
    assume "k \<in> set (map snd (dv_sessions s))"
    with assms(1) show "k \<in> ?P" by (fastforce simp: indexed_def open_session_def)
  next
    fix k
    assume "k \<in> ?P"
    with assms have "(sx_id (dv_all s ! k), k) \<in> set (dv_sessions s)" by (simp add: indexed_def open_session_def)
    then show "k \<in> set (map snd (dv_sessions s))" by force
  qed
  then have "card ?P = card (set (map snd (dv_sessions s)))" by simp
  also have "\<dots> = length (map snd (dv_sessions s))"
    using assms(1) inj by (intro distinct_card) (simp add: indexed_def distinct_map)
  finally show ?thesis by (simp add: length_filter_conv_card)
qed

text \<open>
  C10. The driver never holds more sessions or more running session callbacks than configured, whatever
  the peers and the application do; every session it holds is open and is found under its id, its
  statistics exist only while it is open, and, when no two sessions get the same id, it holds every
  session that is open. Every session that has arrived was either adapted or refused.
\<close>

theorem driver_capacity:
  assumes "new_driver d = Inr s0"
  shows "let s = driver_run es s0 in
      length (dv_sessions s) \<le> nat_of_number (do_max_sessions (dv_options s)) \<and>
      length (dv_tasks s) \<le> nat_of_number (do_max_callbacks (dv_options s)) \<and>
      (\<forall>(i, k) \<in> set (dv_sessions s). open_session (dv_all s ! k) \<and> sx_id (dv_all s ! k) = i) \<and>
      set (keys (dv_connections s)) \<subseteq> set (keys (dv_sessions s)) \<and>
      (distinct (map sx_id (dv_all s)) \<longrightarrow>
         length (dv_sessions s) = length (filter open_session (dv_all s))) \<and>
      dv_total s = int (length (dv_all s) + refusals s)"
proof -
  let ?s = "driver_run es s0"
  have inv: "driver_inv ?s" using assms by (rule driver_run_inv)
  then have ix: "indexed ?s" and "capped ?s" and "dv_total ?s = int (length (dv_all ?s) + refusals ?s)"
    by (simp_all add: driver_inv_def)
  moreover have "\<forall>(i, k) \<in> set (dv_sessions ?s). open_session (dv_all ?s ! k) \<and> sx_id (dv_all ?s ! k) = i"
    using ix by (fastforce simp: indexed_def open_session_def)
  moreover have "set (keys (dv_connections ?s)) \<subseteq> set (keys (dv_sessions ?s))"
    using ix by (simp add: indexed_def)
  ultimately show ?thesis using indexed_positions [OF ix] by (simp add: Let_def capped_def)
qed

definition example_driver_options :: driver_options where
  "example_driver_options =
     \<lparr>do_drain_timeout = Finite 10000, do_max_sessions = Finite 1, do_stats_interval = Finite 1000,
      do_max_callbacks = Finite 1024\<rparr>"

definition new_driver_state :: driver where
  "new_driver_state =
     \<lparr>dv_options = example_driver_options, dv_state = STOPPED, dv_callbacks = [], dv_all = [], dv_sessions = [],
      dv_connections = [], dv_tasks = [], dv_server = None, dv_servers = 0, dv_start = NoStart,
      dv_stop = NoStop, dv_refreshing = False, dv_last_refresh = None, dv_total = 0,
      dv_rejected = 0, dv_metrics = no_metrics, dv_trace = []\<rparr>"

lemma example_new_driver: "new_driver example_driver_options = Inr new_driver_state"
  by (simp add: new_driver_def driver_assertions_def example_driver_options_def finite_between_def new_driver_state_def
      max_safe_def)

text \<open>The second session of two is refused.\<close>

definition example_arrivals :: "driver_event list" where
  "example_arrivals =
     [Subscribe 0, CallStart, StartAnswers True, NativeArrives example_native ''s1'' None,
      NativeArrives example_native ''s2'' None]"

theorem driver_capacity_witness:
  "let s = driver_run example_arrivals new_driver_state in
     length (dv_sessions s) \<le> 1 \<and> keys (dv_sessions s) = [''s1''] \<and> dv_total s = 2 \<and> refusals s = 1"
proof -
  have "keys (dv_sessions (driver_run example_arrivals new_driver_state)) = [''s1''] \<and>
      dv_total (driver_run example_arrivals new_driver_state) = 2 \<and>
      length (dv_all (driver_run example_arrivals new_driver_state)) = 1 \<and>
      do_max_sessions (dv_options (driver_run example_arrivals new_driver_state)) = Finite 1"
    by (simp add: driver_run_def example_arrivals_def new_driver_state_def example_driver_options_def driver_start_def
        driver_perform_start_def driver_start_settles_def dv_emit_def accept_native_def js_add_def Let_def max_safe_def)
  with driver_capacity [OF example_new_driver, of example_arrivals] show ?thesis by (simp add: Let_def)
qed

section \<open>The counters\<close>

lemma total_streams:
  "dm_streams_active (total_metrics ts) = int (length (filter (\<lambda>x. \<not> sa_closed x) (concat (map sx_streams ts))))"
  "dm_streams_total (total_metrics ts) = int (length (concat (map sx_streams ts)))"
  by (induction ts) (simp_all add: total_metrics_def session_metrics_def)

text \<open>
  C9. The statistics are exact. The driver counts with callbacks, and it clips the number of open
  streams at zero; after every sequence of events, however, its counters are what the sessions
  themselves account for: the streams that are open and the streams there have been, the datagrams and
  the bytes that were moved, and the datagrams that the snapshots have shown as lost.
\<close>

theorem driver_metrics_exact:
  assumes "new_driver d = Inr s0"
  shows "let s = driver_run es s0; stats = snd (get_stats now s) in
      dv_metrics s = total_metrics (dv_all s) \<and>
      dst_streams stats =
        (int (length (filter (\<lambda>x. \<not> sa_closed x) (concat (map sx_streams (dv_all s))))),
         int (length (concat (map sx_streams (dv_all s))))) \<and>
      fst (dst_sessions stats) = int (length (dv_sessions s))"
proof -
  let ?s = "driver_run es s0"
  have "driver_inv ?s" using assms by (rule driver_run_inv)
  then have "dv_metrics ?s = total_metrics (dv_all ?s)" by (simp add: driver_inv_def)
  then show ?thesis by (simp add: Let_def get_stats_def refresh_stats_def total_streams)
qed

definition example_traffic :: "driver_event list" where
  "example_traffic =
     [Subscribe 0, CallStart, StartAnswers True, NativeArrives example_native ''s1'' None,
      SessionHappens 0 (StreamCreated SendStream (Inr (NativeStreamOf SendStream (Finite 3) (Finite 3)))),
      SessionHappens 0 (StreamCreated SendStream (Inr (NativeStreamOf SendStream (Finite 7) (Finite 7)))),
      SessionHappens 0 (StreamHappens 1 (Reset 0))]"

theorem driver_metrics_exact_witness:
  "dst_streams (snd (get_stats 5 (driver_run example_traffic new_driver_state))) = (1, 2)"
proof -
  have "map (map sa_closed) (map sx_streams (dv_all (driver_run example_traffic new_driver_state))) = [[False, True]]"
    by (simp add: driver_run_def example_traffic_def new_driver_state_def example_driver_options_def driver_start_def
        driver_perform_start_def driver_start_settles_def dv_emit_def accept_native_def js_add_def Let_def max_safe_def
        on_session_def driver_session_def new_session_def create_stream_def send_adapter_def stream_id_def
        new_adapter_def stream_next_def reset_stream_def session_closed_def)
  then have "\<exists>x y. concat (map sx_streams (dv_all (driver_run example_traffic new_driver_state))) = [x, y] \<and>
      \<not> sa_closed x \<and> sa_closed y"
    by (auto simp: map_eq_Cons_conv)
  with driver_metrics_exact [OF example_new_driver, of example_traffic 5] show ?thesis by (auto simp: Let_def)
qed

section \<open>Start and stop\<close>

definition servers_started :: "driver \<Rightarrow> nat" where
  "servers_started s = length (filter (\<lambda>a. case a of StartServer _ \<Rightarrow> True | _ \<Rightarrow> False) (dv_trace s))"

lemma servers_started_simps [simp]:
  "servers_started (dv_emit a s) = servers_started s + (case a of StartServer _ \<Rightarrow> 1 | _ \<Rightarrow> 0)"
  "servers_started (on_session k f s) = servers_started s"
  by (simp_all add: servers_started_def dv_emit_def split: driver_action.split)

lemma servers_on_sessions [simp]:
  "servers_started (fold (\<lambda>(_, k). on_session k (f k)) m s) = servers_started s"
proof (induction m arbitrary: s)
  case (Cons x m)
  then show ?case by (cases x) simp
qed simp

lemma begin_closing_servers [simp]:
  "servers_started (begin_closing b failure s) = servers_started s" "dv_stop (begin_closing b failure s) = StopCloses b"
proof -
  have "servers_started (u\<lparr>dv_state := x, dv_stop := y\<rparr>) = servers_started u" for u x y
    by (simp add: servers_started_def)
  then show "servers_started (begin_closing b failure s) = servers_started s"
    by (simp add: begin_closing_def Let_def split: option.split)
  show "dv_stop (begin_closing b failure s) = StopCloses b"
    by (simp add: begin_closing_def Let_def dv_emit_def split: option.split)
qed

lemma servers_fields [simp]:
  "servers_started (s\<lparr>dv_start := p\<rparr>) = servers_started s" "servers_started (s\<lparr>dv_rejected := r\<rparr>) = servers_started s"
  "servers_started (s\<lparr>dv_callbacks := c\<rparr>) = servers_started s" "servers_started (s\<lparr>dv_tasks := ts\<rparr>) = servers_started s"
  "servers_started (s\<lparr>dv_refreshing := b\<rparr>) = servers_started s" "servers_started (s\<lparr>dv_connections := cs\<rparr>) = servers_started s"
  "servers_started (s\<lparr>dv_refreshing := b, dv_last_refresh := l\<rparr>) = servers_started s"
  "servers_started (s\<lparr>dv_state := x, dv_server := n, dv_start := p\<rparr>) = servers_started s"
  "servers_started (s\<lparr>dv_state := x, dv_start := p\<rparr>) = servers_started s"
  "servers_started (s\<lparr>dv_state := x\<rparr>) = servers_started s"
  "servers_started (s\<lparr>dv_state := x, dv_server := n\<rparr>) = servers_started s"
  "servers_started (s\<lparr>dv_stop := q\<rparr>) = servers_started s"
  "servers_started (s\<lparr>dv_total := t\<rparr>) = servers_started s"
  "servers_started (s\<lparr>dv_all := a, dv_sessions := m\<rparr>) = servers_started s"
  by (simp_all add: servers_started_def)

lemma dv_emit_frame [simp]:
  "dv_stop (dv_emit a s) = dv_stop s" "dv_state (dv_emit a s) = dv_state s" "dv_start (dv_emit a s) = dv_start s"
  "dv_server (dv_emit a s) = dv_server s" "dv_options (dv_emit a s) = dv_options s"
  by (simp_all add: dv_emit_def)

lemma accept_frame:
  "servers_started (accept_native native i failure s) = servers_started s"
  "dv_stop (accept_native native i failure s) = dv_stop s"
  by (simp_all add: accept_native_def Let_def)

lemma waiting_step:
  assumes "dv_stop s \<noteq> NoStop" "\<And>ok. e \<noteq> StopAnswers ok"
  shows "servers_started (driver_step e s) = servers_started s \<and> dv_stop (driver_step e s) \<noteq> NoStop"
  using assms
  by (cases e)
    (auto simp: driver_start_def driver_start_settles_def driver_stop_def driver_perform_stop_def drain_work_ends_def handle_server_error_def
      accept_frame callback_fails_def task_settles_def get_stats_def refresh_stats_def capture_session_def Let_def
      split: start_point.split)

text \<open>
  C35. A start that is requested while a stop is under way waits for it: until the stop has settled, no
  event starts a server. The order of the calls is not kept further than that: a stop requested after
  the waiting start returns the promise of the stop that is under way, so that the driver runs once
  both have settled, although the last call was a stop.
\<close>

theorem start_waits_for_stop:
  assumes "dv_stop s \<noteq> NoStop"
  shows "((\<forall>ok. e \<noteq> StopAnswers ok) \<longrightarrow>
        servers_started (driver_step e s) = servers_started s \<and> dv_stop (driver_step e s) \<noteq> NoStop) \<and>
      (dv_stop s = StopCloses b \<and> dv_start s = StartQueued \<longrightarrow>
        dv_state (driver_run [CallStop graceful timeout failure, StopAnswers True, StartAnswers True] s) = RUNNING)"
  using waiting_step [OF assms, of e] assms
  by (auto simp: driver_run_def driver_stop_def driver_perform_stop_def driver_stop_settles_def start_running_def driver_perform_start_def
      driver_start_settles_def dv_emit_def Let_def)

theorem start_waits_for_stop_witness:
  "let s = driver_run [CallStart, StartAnswers True, CallStop False None (\<lambda>_. None), CallStart] new_driver_state in
     dv_state s = STOPPING \<and> servers_started s = 1 \<and>
     dv_state (driver_run [CallStop True None (\<lambda>_. None), StopAnswers True, StartAnswers True] s) = RUNNING"
proof -
  let ?s = "driver_run [CallStart, StartAnswers True, CallStop False None (\<lambda>_. None), CallStart] new_driver_state"
  have "dv_state ?s = STOPPING \<and> servers_started ?s = 1 \<and> dv_stop ?s = StopCloses False \<and> dv_start ?s = StartQueued"
    by (simp add: driver_run_def new_driver_state_def example_driver_options_def driver_start_def driver_perform_start_def
        driver_start_settles_def driver_stop_def driver_perform_stop_def stop_timeout_ok_def finite_between_def begin_closing_def dv_emit_def
        servers_started_def Let_def)
  with start_waits_for_stop [of ?s CallStart False True None "\<lambda>_. None"] show ?thesis by (simp add: Let_def)
qed

end
