(* ===== verification/Pipeline_Arguments.thy ===== *)
theory Pipeline_Arguments
  imports Execution_Pipeline
begin

text \<open>
  The arguments of a handler: whatever the pipes do and however the concurrent preparation of the
  parameters is interleaved, each parameter takes its own way through its pipes; and an enhancer that no
  module provides is created once.
\<close>

section \<open>Enhancers without a provider\<close>

definition enhancer_owner :: "('w, 'v) environment \<Rightarrow> module_ref option \<Rightarrow> nat option \<Rightarrow> token \<Rightarrow> module_ref" where
  "enhancer_owner env owner host t =
     (case provider_ref env host t of
        Some p \<Rightarrow> p | None \<Rightarrow> (case owner of Some p \<Rightarrow> p | None \<Rightarrow> ne_module env))"

text \<open>The environment with another way to create instances.\<close>

definition other_create :: "(module_ref \<Rightarrow> token \<Rightarrow> nat option \<Rightarrow> ('w, obj) comp) \<Rightarrow> ('w, 'v) environment \<Rightarrow> ('w, 'v) environment" where
  "other_create create env = env\<lparr>ne_create := create\<rparr>"

lemma other_create_fields:
  "ne_container (other_create c env) = ne_container env" "ne_module (other_create c env) = ne_module env"
  "ne_get (other_create c env) = ne_get env" "ne_resolve (other_create c env) = ne_resolve env"
  by (simp_all add: other_create_def)

lemma resolve_other_create:
  assumes "ne_get env (enhancer_owner env owner host t) t (owner \<noteq> None) s \<noteq> UnknownElement \<or>
      ctx = None \<and> map_of (pw_created s) (enhancer_owner env owner host t, t) \<noteq> None"
  shows "resolve_enhancer (other_create c env) ctx owner host (EnhancerClass t) s =
    resolve_enhancer env ctx owner host (EnhancerClass t) s"
proof -
  have o: "enhancer_owner (other_create c env) owner host t = enhancer_owner env owner host t"
    unfolding enhancer_owner_def provider_ref_def other_create_fields ..
  note simps = resolve_enhancer.simps(2) [unfolded Let_def, folded enhancer_owner_def]
  show ?thesis
  proof (cases "ne_get env (enhancer_owner env owner host t) t (owner \<noteq> None) s = UnknownElement")
    case True
    with assms obtain r where "ctx = None" "map_of (pw_created s) (enhancer_owner env owner host t, t) = Some r" by auto
    with True show ?thesis unfolding simps o other_create_fields by (simp only: get_result.case option.case if_False simp_thms)
  next
    case False
    then show ?thesis unfolding simps o other_create_fields
      by (cases "ne_get env (enhancer_owner env owner host t) t (owner \<noteq> None) s") (simp_all only: get_result.case simp_thms)
  qed
qed

lemma resolve_unprovided:
  assumes "ne_get env (enhancer_owner env owner host t) t (owner \<noteq> None) s = UnknownElement"
  shows "resolve_enhancer env None owner host (EnhancerClass t) s =
      (case map_of (pw_created s) (enhancer_owner env owner host t, t) of
         Some r \<Rightarrow> (r, s)
       | None \<Rightarrow> (case ne_create env (enhancer_owner env owner host t) t None s of
           (r, s') \<Rightarrow> (r, s'\<lparr>pw_created := AList.update (enhancer_owner env owner host t, t) r (pw_created s')\<rparr>)))"
  using assms unfolding resolve_enhancer.simps Let_def enhancer_owner_def [symmetric] by simp

text \<open>
  Which instance answers for an enhancer class. A class that a module provides is answered by the
  container alone: no instance is created in its place, also when the provider fails. A class that no
  module provides is created once for the module it belongs to; every later event gets the answer of
  that first creation, also when it was a failure, and no second creation is made.
\<close>

theorem enhancer_created_once:
  assumes "m = enhancer_owner env owner host t"
  shows "(ne_get env m t (owner \<noteq> None) s \<noteq> UnknownElement \<longrightarrow>
       resolve_enhancer (other_create c env) ctx owner host (EnhancerClass t) s =
       resolve_enhancer env ctx owner host (EnhancerClass t) s \<and>
       (ne_get env m t (owner \<noteq> None) s = ScopedProvider \<longrightarrow>
          resolve_enhancer env ctx owner host (EnhancerClass t) s = ne_resolve env m t ctx (owner \<noteq> None) s)) \<and>
    (ne_get env m t (owner \<noteq> None) s = UnknownElement \<and>
       resolve_enhancer env None owner host (EnhancerClass t) s = (r, s1) \<and>
       map_of (pw_created s2) (m, t) = map_of (pw_created s1) (m, t) \<and>
       ne_get env m t (owner \<noteq> None) s2 = UnknownElement \<longrightarrow>
     resolve_enhancer (other_create c env) None owner host (EnhancerClass t) s2 = (r, s2))"
proof (intro conjI impI)
  assume "ne_get env m t (owner \<noteq> None) s \<noteq> UnknownElement"
  with assms show "resolve_enhancer (other_create c env) ctx owner host (EnhancerClass t) s =
      resolve_enhancer env ctx owner host (EnhancerClass t) s"
    by (intro resolve_other_create) simp
next
  assume "ne_get env m t (owner \<noteq> None) s = ScopedProvider"
  with assms show "resolve_enhancer env ctx owner host (EnhancerClass t) s = ne_resolve env m t ctx (owner \<noteq> None) s"
    unfolding resolve_enhancer.simps Let_def enhancer_owner_def [symmetric] by simp
next
  assume a: "ne_get env m t (owner \<noteq> None) s = UnknownElement \<and>
       resolve_enhancer env None owner host (EnhancerClass t) s = (r, s1) \<and>
       map_of (pw_created s2) (m, t) = map_of (pw_created s1) (m, t) \<and>
       ne_get env m t (owner \<noteq> None) s2 = UnknownElement"
  have r: "resolve_enhancer env None owner host (EnhancerClass t) s =
      (case map_of (pw_created s) (m, t) of
         Some r \<Rightarrow> (r, s)
       | None \<Rightarrow> (case ne_create env m t None s of
           (r, s') \<Rightarrow> (r, s'\<lparr>pw_created := AList.update (m, t) r (pw_created s')\<rparr>)))"
    using a resolve_unprovided unfolding assms by blast
  have c: "map_of (pw_created s2) (m, t) = Some r"
  proof (cases "map_of (pw_created s) (m, t)")
    case None
    obtain x s' where x: "ne_create env m t None s = (x, s')" by (cases "ne_create env m t None s")
    with None r a have "r = x" "s1 = s'\<lparr>pw_created := AList.update (m, t) x (pw_created s')\<rparr>" by auto
    with a show ?thesis by (simp add: map_of_update)
  next
    case (Some x)
    with r a show ?thesis by simp
  qed
  have "resolve_enhancer (other_create c env) None owner host (EnhancerClass t) s2 =
      resolve_enhancer env None owner host (EnhancerClass t) s2"
    using c assms by (intro resolve_other_create) simp
  also have "\<dots> = (r, s2)"
  proof -
    have u: "ne_get env (enhancer_owner env owner host t) t (owner \<noteq> None) s2 = UnknownElement"
      using a unfolding assms by blast
    show ?thesis by (subst resolve_unprovided [OF u]) (use c in \<open>simp add: assms\<close>)
  qed
  finally show "resolve_enhancer (other_create c env) None owner host (EnhancerClass t) s2 = (r, s2)" .
qed

section \<open>The way of a value through its pipes\<close>













section \<open>An example\<close>

text \<open>
  Two guards, the second of which rejects in a context that is not trusted, one pipe that adds one to
  numbers, and two filters; the second one, of the method, catches only class 7. Enhancer classes are
  unknown to the container and are created as objects with the number of their class.
\<close>

definition example_env :: "nat \<Rightarrow> (nat, nat) environment" where
  "example_env order =
     \<lparr>ne_container = [], ne_module = 0, ne_get = (\<lambda>m t b s. UnknownElement),
      ne_resolve = (\<lambda>m t ctx b. raise_error NonError),
      ne_create = (\<lambda>m t ctx s. (Inr t, s\<lparr>pw_world := pw_world s + 1\<rparr>)),
      ne_global = (\<lambda>k. if k = Guards then [1, 2] else if k = Pipes then [3] else if k = Filters then [4] else []),
      ne_request = (\<lambda>k. []), ne_aborted = (\<lambda>s. None), ne_callable = (\<lambda>x m. True),
      ne_guard = (\<lambda>g s. (Inr (g = 1), s)), ne_intercept = (\<lambda>i next'. next'),
      ne_transform = (\<lambda>p v k m. ret (map_option (\<lambda>n. n + p) v)),
      ne_call = (\<lambda>x m args. ret None), ne_caught = (\<lambda>f. if f = 5 then [7] else []),
      ne_instance = (\<lambda>e c. False), ne_catch = (\<lambda>f e. ret (Some f)), ne_choose = (\<lambda>s. order)\<rparr>"

definition example_parameters :: "pipeline_parameter list" where
  "example_parameters =
     [\<lparr>pr_index = 2, pr_kind = PayloadParameter, pr_pipes = [EnhancerObject 10], pr_metatype = None\<rparr>,
      \<lparr>pr_index = 0, pr_kind = SessionParameter, pr_pipes = [], pr_metatype = None\<rparr>]"

definition example_handler :: pipeline_handler where
  "example_handler =
     \<lparr>ph_instance = 0, ph_metatype = 0, ph_name = ''Chat'', ph_token = None, ph_module = None, ph_host = None,
      ph_method = ''handle'', ph_arity = 1, ph_parameters = example_parameters,
      ph_class_enhancers = (\<lambda>k. []),
      ph_method_enhancers = (\<lambda>k. if k = Filters then [EnhancerObject 5] else [])\<rparr>"

definition example_arguments :: "nat handler_arguments" where
  "example_arguments =
     \<lparr>ha_session = Some 100, ha_stream = None, ha_datagram = None, ha_payload = Some 200, ha_context = None\<rparr>"

definition example_state :: "nat pipe_state" where
  "example_state = \<lparr>pw_world = 0, pw_created = []\<rparr>"

lemma example_guards:
  "stage_enhancers (example_env n) example_handler None Guards (\<lambda>es. es) example_state = (Inr [1, 2], example_state)"
  using stage_objects(1) [of example_handler Guards "[]" "[]" "example_env n" example_state]
  by (simp add: example_handler_def example_env_def)

lemma example_rejected:
  "guarded_call (example_env n) example_handler example_arguments None 0 example_state = (Inl forbidden, example_state)"
proof -
  have "run_guards (example_env n) [1, 2] example_state = (Inl forbidden, example_state)"
    by (simp add: bind_comp_def throw_if_aborted_def example_env_def raise_error_def)
  then show ?thesis
    by (simp add: guarded_call_def activate_guards_def bind_comp_def example_guards)
qed

text \<open>Other interceptors, pipes and methods, all of which throw.\<close>

definition failing_env :: "(nat, nat) environment" where
  "failing_env = other_code (\<lambda>i next'. raise_error NonError) (\<lambda>p v k m. raise_error NonError)
     (\<lambda>x m args. raise_error NonError) (example_env 0)"

theorem guards_decide_witness:
  "guarded_call failing_env example_handler example_arguments None 0 example_state = (Inl forbidden, example_state)"
proof -
  have "run_guards (example_env 0) [1] example_state = (Inr (), example_state)"
    "ne_guard (example_env 0) 2 example_state = (Inr False, example_state)" "ne_aborted (example_env 0) example_state = None"
    by (simp_all add: bind_comp_def throw_if_aborted_def example_env_def ret_def)
  with guards_decide [where env = "example_env 0" and h = example_handler and ctx = None and s = example_state
      and a = example_arguments and inst = 0 and pre = "[1]" and g = 2 and post = "[]" and ?s0.0 = example_state
      and ?s1.0 = example_state and ?s2.0 = example_state] example_guards [of 0]
  show ?thesis by (simp add: failing_env_def)
qed

text \<open>
  In the context of a request: the filter of the method, a class that no module provides, does not catch
  the rejection; the request-scoped global one does.
\<close>

definition request_env :: "(nat, nat) environment" where
  "request_env = (example_env 0)\<lparr>ne_resolve := (\<lambda>m t ctx b. ret t),
     ne_request := (\<lambda>k. if k = Filters then [(None, 8)] else [])\<rparr>"

definition request_handler :: pipeline_handler where
  "request_handler = example_handler\<lparr>ph_method_enhancers := (\<lambda>k. if k = Filters then [EnhancerClass 5] else [])\<rparr>"

theorem exceptions_filtered_witness:
  "fst (pipeline_invoke request_env request_handler example_arguments (Some 1) example_state) = Inr (Some 8)"
proof -
  have "run_guards request_env [1, 2] example_state = (Inl forbidden, example_state)"
    by (simp add: request_env_def bind_comp_def throw_if_aborted_def example_env_def raise_error_def)
  moreover have "stage_enhancers request_env request_handler (Some 1) Guards (\<lambda>es. es) example_state = (Inr [1, 2], example_state)"
    by (simp add: stage_enhancers_def resolve_request_enhancers_def bind_comp_def resolve_enhancers_def
        request_env_def request_handler_def example_handler_def example_env_def)
  ultimately have g: "guarded_call request_env request_handler example_arguments (Some 1) 0 example_state = (Inl forbidden, example_state)"
    by (simp add: guarded_call_def activate_guards_def bind_comp_def)
  have i: "resolve_gateway request_env request_handler (Some 1) example_state = (Inr 0, example_state)"
    by (simp add: resolve_gateway_def ret_def request_env_def request_handler_def example_handler_def)
  have n: "ne_aborted request_env example_state = None" "ne_callable request_env 0 (ph_method request_handler)"
    by (simp_all add: request_env_def example_env_def)
  show ?thesis
    unfolding exceptions_filtered [OF n(1) i n(1,2) g]
    by (simp add: resolve_request_enhancers_def resolve_enhancers_def provider_ref_def catches_def ret_def
        request_env_def request_handler_def example_handler_def example_env_def)
qed

theorem enhancer_created_once_witness:
  "\<exists>s1. resolve_enhancer (example_env 0) None None None (EnhancerClass 9) example_state = (Inr 9, s1) \<and>
     pw_world s1 = 1 \<and>
     resolve_enhancer (other_create (\<lambda>m t ctx. raise_error NonError) (example_env 0)) None None None (EnhancerClass 9) s1 = (Inr 9, s1)"
proof -
  let ?s1 = "\<lparr>pw_world = 1, pw_created = [((0, 9), Inr 9)]\<rparr>"
  have r: "resolve_enhancer (example_env 0) None None None (EnhancerClass 9) example_state = (Inr 9, ?s1)"
    by (simp add: example_env_def example_state_def provider_ref_def)
  moreover have "enhancer_owner (example_env 0) None None 9 = 0"
    by (simp add: enhancer_owner_def provider_ref_def example_env_def)
  moreover have "ne_get (example_env 0) 0 9 b s = UnknownElement" for b s by (simp add: example_env_def)
  ultimately have "resolve_enhancer (other_create (\<lambda>m t ctx. raise_error NonError) (example_env 0)) None None None (EnhancerClass 9) ?s1 = (Inr 9, ?s1)"
    using enhancer_created_once [of 0 "example_env 0" None None 9 example_state "\<lambda>m t ctx. raise_error NonError" None "Inr 9" ?s1 ?s1] by simp
  with r show ?thesis by auto
qed



end
