(* ===== verification/Testing_Readable.thy ===== *)
theory Testing_Readable
  imports Bounded_Queue "HOL-Library.Sublist"
begin

text \<open>
  What the in-memory transport of the testing package uses of the platform's \<open>ReadableStream\<close>: a queue
  with a high-water mark that counts chunks, the read requests of its reader, and when the platform
  calls \<open>pull\<close>. A call of \<open>pull\<close> is under way until a later microtask settles it (\<open>rs_pulling\<close>), and the
  demand that arises meanwhile is remembered (\<open>rs_pull_again\<close>). \<open>rs_delivered\<close> is what the reads have
  returned.
\<close>

datatype readable_state = StreamReadable | StreamClosed | StreamErrored thrown

record 'a readable =
  rs_state :: readable_state
  rs_close_requested :: bool
  rs_queue :: "'a list"
  rs_reads :: nat
  rs_mark :: nat
  rs_pulling :: bool
  rs_pull_again :: bool
  rs_delivered :: "'a list"

definition new_readable :: "nat \<Rightarrow> 'a readable" where
  "new_readable mark =
     \<lparr>rs_state = StreamReadable, rs_close_requested = False, rs_queue = [], rs_reads = 0, rs_mark = mark,
      rs_pulling = False, rs_pull_again = False, rs_delivered = []\<rparr>"

text \<open>\<open>desiredSize\<close>; the code reads the \<open>null\<close> of an errored stream as zero.\<close>

definition desired_size :: "'a readable \<Rightarrow> int" where
  "desired_size r = (if rs_state r = StreamReadable then int (rs_mark r) - int (length (rs_queue r)) else 0)"

definition can_enqueue :: "'a readable \<Rightarrow> bool" where
  "can_enqueue r \<longleftrightarrow> rs_state r = StreamReadable \<and> \<not> rs_close_requested r"

definition should_pull :: "'a readable \<Rightarrow> bool" where
  "should_pull r \<longleftrightarrow> can_enqueue r \<and> (rs_reads r > 0 \<or> desired_size r > 0)"

definition enqueue_chunk :: "'a \<Rightarrow> 'a readable \<Rightarrow> 'a readable" where
  "enqueue_chunk v r =
     (if \<not> can_enqueue r then r
      else if rs_reads r > 0 then r\<lparr>rs_reads := rs_reads r - 1, rs_delivered := rs_delivered r @ [v]\<rparr>
      else r\<lparr>rs_queue := rs_queue r @ [v]\<rparr>)"

definition close_readable :: "'a readable \<Rightarrow> 'a readable" where
  "close_readable r =
     (if \<not> can_enqueue r then r
      else if rs_queue r = [] then r\<lparr>rs_close_requested := True, rs_state := StreamClosed, rs_reads := 0\<rparr>
      else r\<lparr>rs_close_requested := True\<rparr>)"

definition error_readable :: "thrown \<Rightarrow> 'a readable \<Rightarrow> 'a readable" where
  "error_readable e r =
     (if rs_state r \<noteq> StreamReadable then r else r\<lparr>rs_state := StreamErrored e, rs_queue := [], rs_reads := 0\<rparr>)"

definition cancel_readable :: "'a readable \<Rightarrow> 'a readable" where
  "cancel_readable r =
     (if rs_state r \<noteq> StreamReadable then r else r\<lparr>rs_state := StreamClosed, rs_queue := [], rs_reads := 0\<rparr>)"

text \<open>A read up to the call of \<open>pull\<close>.\<close>

definition take_chunk :: "'a readable \<Rightarrow> 'a readable" where
  "take_chunk r =
     (if rs_state r \<noteq> StreamReadable then r
      else case rs_queue r of
        [] \<Rightarrow> r\<lparr>rs_reads := rs_reads r + 1\<rparr>
      | v # rest \<Rightarrow>
          (let r1 = r\<lparr>rs_queue := rest, rs_delivered := rs_delivered r @ [v]\<rparr>
           in if rest = [] \<and> rs_close_requested r1 then r1\<lparr>rs_state := StreamClosed\<rparr> else r1))"

text \<open>\<open>releaseLock\<close> with reads outstanding: they are rejected.\<close>

definition release_reads :: "'a readable \<Rightarrow> 'a readable" where
  "release_reads r = r\<lparr>rs_reads := 0\<rparr>"

lemmas readable_defs =
  desired_size_def can_enqueue_def should_pull_def enqueue_chunk_def close_readable_def error_readable_def
  cancel_readable_def take_chunk_def release_reads_def Let_def

text \<open>Every operation keeps the mark, and a read waits only at an empty queue.\<close>

definition readable_inv :: "'a readable \<Rightarrow> bool" where
  "readable_inv r \<longleftrightarrow>
     (rs_reads r > 0 \<longrightarrow> rs_queue r = [] \<and> can_enqueue r) \<and>
     (rs_state r \<noteq> StreamReadable \<longrightarrow> rs_queue r = []) \<and>
     (rs_state r = StreamReadable \<and> rs_close_requested r \<longrightarrow> rs_queue r \<noteq> [])"

lemma readable_ops_inv [intro]:
  "readable_inv r \<Longrightarrow> readable_inv (enqueue_chunk v r)" "readable_inv r \<Longrightarrow> readable_inv (close_readable r)"
  "readable_inv r \<Longrightarrow> readable_inv (error_readable e r)" "readable_inv r \<Longrightarrow> readable_inv (cancel_readable r)"
  "readable_inv r \<Longrightarrow> readable_inv (take_chunk r)" "readable_inv r \<Longrightarrow> readable_inv (release_reads r)"
  by (auto simp: readable_inv_def readable_defs split: list.split if_splits)

lemma readable_marks [simp]:
  "rs_mark (enqueue_chunk v r) = rs_mark r" "rs_mark (close_readable r) = rs_mark r"
  "rs_mark (error_readable e r) = rs_mark r" "rs_mark (cancel_readable r) = rs_mark r"
  "rs_mark (take_chunk r) = rs_mark r" "rs_mark (release_reads r) = rs_mark r"
  "rs_pulling (enqueue_chunk v r) = rs_pulling r" "rs_pulling (close_readable r) = rs_pulling r"
  "rs_pulling (error_readable e r) = rs_pulling r" "rs_pulling (cancel_readable r) = rs_pulling r"
  "rs_pulling (take_chunk r) = rs_pulling r" "rs_pulling (release_reads r) = rs_pulling r"
  "rs_pull_again (enqueue_chunk v r) = rs_pull_again r" "rs_pull_again (close_readable r) = rs_pull_again r"
  "rs_pull_again (error_readable e r) = rs_pull_again r" "rs_pull_again (cancel_readable r) = rs_pull_again r"
  "rs_pull_again (take_chunk r) = rs_pull_again r" "rs_pull_again (release_reads r) = rs_pull_again r"
  by (simp_all add: readable_defs split: list.split)

text \<open>What has been read, with what can still be read.\<close>

definition carried :: "'a readable \<Rightarrow> 'a list" where
  "carried r = rs_delivered r @ rs_queue r"

lemma carried_enqueue: "can_enqueue r \<Longrightarrow> readable_inv r \<Longrightarrow> carried (enqueue_chunk v r) = carried r @ [v]"
  by (auto simp: carried_def readable_inv_def enqueue_chunk_def)

lemma carried_simps [simp]:
  "carried (close_readable r) = carried r" "carried (release_reads r) = carried r" "carried (take_chunk r) = carried r"
  "carried (error_readable e r) = (if rs_state r = StreamReadable then rs_delivered r else carried r)"
  "carried (cancel_readable r) = (if rs_state r = StreamReadable then rs_delivered r else carried r)"
  by (auto simp: carried_def readable_defs split: list.split)

end
