(* ===== verification/Testing_Queue.thy ===== *)
theory Testing_Queue
  imports Testing_Readable
begin

text \<open>
  \<open>BoundedValueQueue\<close> of \<open>packages/testing/src/internal/bounded-stream.ts\<close>: a bounded queue behind a
  demand-driven stream, with the four overflow policies. The logs at the end of the state record which
  values were accepted and which of those were lost again; the code does not keep them.
\<close>

datatype queue_state = QueueOpen | QueueClosing | QueueClosed | QueueAborted

datatype 'a push_result = Accepted | AcceptedDropped 'a | NotAccepted 'a

datatype 'a queue_call = OnDrop 'a | OnCloseSession thrown

record 'a value_queue =
  vq_capacity :: nat
  vq_overflow :: overflow_policy
  vq_values :: "'a list"
  vq_waiting :: bool
  vq_state :: queue_state
  vq_stream :: "'a readable"
  vq_calls :: "'a queue_call list"
  vq_accepted :: "'a list"
  vq_lost :: nat

definition positive_integer :: "js_number \<Rightarrow> string \<Rightarrow> thrown + nat" where
  "positive_integer value name =
     (if int_at_least 1 value then Inr (nat_of_number value)
      else Inl (range_error (name @ '' must be a positive integer'')))"

definition new_value_queue :: "js_number \<Rightarrow> overflow_policy \<Rightarrow> thrown + 'a value_queue" where
  "new_value_queue capacity policy =
     bindE (positive_integer capacity ''capacity'') (\<lambda>n.
       Inr \<lparr>vq_capacity = n, vq_overflow = policy, vq_values = [], vq_waiting = False, vq_state = QueueOpen,
            vq_stream = new_readable 0, vq_calls = [], vq_accepted = [], vq_lost = 0\<rparr>)"

definition abort_reason :: "thrown option \<Rightarrow> string \<Rightarrow> thrown" where
  "abort_reason reason fallback = (case reason of Some e \<Rightarrow> e | None \<Rightarrow> DomException ''AbortError'' fallback)"

section \<open>Pulling\<close>

definition finish_close :: "'a value_queue \<Rightarrow> 'a value_queue" where
  "finish_close q =
     (if vq_state q = QueueClosed then q
      else q\<lparr>vq_state := QueueClosed, vq_waiting := False, vq_stream := close_readable (vq_stream q)\<rparr>)"

text \<open>\<open>controller.enqueue\<close> inside a call of \<open>pull\<close>: further demand is remembered.\<close>

definition enqueue_pulling :: "'a \<Rightarrow> 'a value_queue \<Rightarrow> 'a value_queue" where
  "enqueue_pulling v q =
     (let r = enqueue_chunk v (vq_stream q)
      in q\<lparr>vq_stream := (if should_pull r then r\<lparr>rs_pull_again := True\<rparr> else r)\<rparr>)"

definition flush_one :: "'a value_queue \<Rightarrow> 'a value_queue" where
  "flush_one q =
     (case vq_values q of
        value # rest \<Rightarrow>
          (let q1 = enqueue_pulling value (q\<lparr>vq_values := rest\<rparr>)
           in if rest = [] \<and> vq_state q1 = QueueClosing then finish_close q1 else q1)
      | [] \<Rightarrow>
          if vq_state q = QueueClosing then finish_close q
          else if vq_state q = QueueOpen then q\<lparr>vq_waiting := True\<rparr>
          else q)"

text \<open>The platform calls \<open>pull\<close> when there is demand, one call at a time.\<close>

definition call_pull :: "'a value_queue \<Rightarrow> 'a value_queue" where
  "call_pull q =
     (if \<not> should_pull (vq_stream q) then q
      else if rs_pulling (vq_stream q) then q\<lparr>vq_stream := (vq_stream q)\<lparr>rs_pull_again := True\<rparr>\<rparr>
      else flush_one (q\<lparr>vq_stream := (vq_stream q)\<lparr>rs_pulling := True\<rparr>\<rparr>))"

definition pull_settles :: "'a value_queue \<Rightarrow> 'a value_queue" where
  "pull_settles q =
     (if \<not> rs_pulling (vq_stream q) then q
      else if rs_pull_again (vq_stream q) then
        call_pull (q\<lparr>vq_stream := (vq_stream q)\<lparr>rs_pulling := False, rs_pull_again := False\<rparr>\<rparr>)
      else q\<lparr>vq_stream := (vq_stream q)\<lparr>rs_pulling := False\<rparr>\<rparr>)"

section \<open>Operations\<close>

definition queue_closed_error :: thrown where
  "queue_closed_error = DomException ''InvalidStateError'' ''The queue is closed''"

definition queue_full_error :: thrown where
  "queue_full_error = DomException ''QuotaExceededError'' ''The bounded queue is full''"

definition vq_call :: "'a queue_call \<Rightarrow> 'a value_queue \<Rightarrow> 'a value_queue" where
  "vq_call c q = q\<lparr>vq_calls := vq_calls q @ [c]\<rparr>"

definition push_value :: "'a \<Rightarrow> 'a value_queue \<Rightarrow> 'a value_queue \<times> (thrown + 'a push_result)" where
  "push_value value q =
     (if vq_state q \<noteq> QueueOpen then (q, Inl queue_closed_error)
      else if vq_waiting q then
        (call_pull (q\<lparr>vq_waiting := False, vq_stream := enqueue_chunk value (vq_stream q),
                      vq_accepted := vq_accepted q @ [value]\<rparr>), Inr Accepted)
      else if length (vq_values q) < vq_capacity q then
        (q\<lparr>vq_values := vq_values q @ [value], vq_accepted := vq_accepted q @ [value]\<rparr>, Inr Accepted)
      else if vq_overflow q = DropOldest then
        (case vq_values q of
           [] \<Rightarrow> (q\<lparr>vq_values := [value], vq_accepted := vq_accepted q @ [value]\<rparr>, Inr Accepted)
         | dropped # rest \<Rightarrow>
             ((vq_call (OnDrop dropped) q)\<lparr>vq_values := rest @ [value], vq_accepted := vq_accepted q @ [value],
                vq_lost := vq_lost q + 1\<rparr>, Inr (AcceptedDropped dropped)))
      else
        (let q1 = vq_call (OnDrop value) q in
         if vq_overflow q = DropNewest then (q1, Inr (NotAccepted value))
         else if vq_overflow q = CloseSession then (vq_call (OnCloseSession queue_full_error) q1, Inl queue_full_error)
         else (q1, Inl queue_full_error)))"

definition close_queue :: "bool \<Rightarrow> 'a value_queue \<Rightarrow> 'a value_queue" where
  "close_queue discard q =
     (if vq_state q \<noteq> QueueOpen \<and> vq_state q \<noteq> QueueClosing then q
      else
        (let q1 = (if discard then q\<lparr>vq_values := [], vq_lost := vq_lost q + length (vq_values q)\<rparr> else q);
             q2 = q1\<lparr>vq_state := QueueClosing\<rparr>
         in if vq_values q2 = [] then finish_close q2 else q2))"

definition abort_queue :: "thrown option \<Rightarrow> 'a value_queue \<Rightarrow> 'a value_queue" where
  "abort_queue reason q =
     (if vq_state q = QueueClosed \<or> vq_state q = QueueAborted then q
      else q\<lparr>vq_state := QueueAborted, vq_values := [], vq_waiting := False,
             vq_lost := vq_lost q + length (vq_values q) + length (rs_queue (vq_stream q)),
             vq_stream := error_readable (abort_reason reason ''The bounded queue was aborted'') (vq_stream q)\<rparr>)"

text \<open>A read of the consumer, and its \<open>cancel\<close>, which the platform passes on.\<close>

definition read_value :: "'a value_queue \<Rightarrow> 'a value_queue" where
  "read_value q = call_pull (q\<lparr>vq_stream := take_chunk (vq_stream q)\<rparr>)"

definition cancel_queue :: "thrown option \<Rightarrow> 'a value_queue \<Rightarrow> 'a value_queue" where
  "cancel_queue reason q =
     (if rs_state (vq_stream q) \<noteq> StreamReadable then q
      else abort_queue (Some (abort_reason reason ''The queue consumer cancelled''))
        (q\<lparr>vq_stream := cancel_readable (vq_stream q), vq_lost := vq_lost q + length (rs_queue (vq_stream q))\<rparr>))"

datatype 'a value_event =
  PushValue 'a | ReadValue | ReleaseReads | PullSettles | CloseValues bool | AbortValues "thrown option"
  | CancelValues "thrown option"

fun value_step :: "'a value_event \<Rightarrow> 'a value_queue \<Rightarrow> 'a value_queue" where
  "value_step (PushValue v) q = fst (push_value v q)"
| "value_step ReadValue q = read_value q"
| "value_step ReleaseReads q = q\<lparr>vq_stream := release_reads (vq_stream q)\<rparr>"
| "value_step PullSettles q = pull_settles q"
| "value_step (CloseValues discard) q = close_queue discard q"
| "value_step (AbortValues reason) q = abort_queue reason q"
| "value_step (CancelValues reason) q = cancel_queue reason q"

section \<open>The invariant\<close>

definition value_books :: "'a value_queue \<Rightarrow> bool" where
  "value_books q \<longleftrightarrow>
     subseq (carried (vq_stream q) @ vq_values q) (vq_accepted q) \<and>
     length (vq_accepted q) = length (carried (vq_stream q)) + length (vq_values q) + vq_lost q"

definition value_phase :: "'a value_queue \<Rightarrow> bool" where
  "value_phase q \<longleftrightarrow>
     (case vq_state q of
        QueueOpen \<Rightarrow> can_enqueue (vq_stream q)
      | QueueClosing \<Rightarrow> can_enqueue (vq_stream q) \<and> vq_values q \<noteq> []
      | QueueClosed \<Rightarrow> \<not> can_enqueue (vq_stream q) \<and> vq_values q = []
      | QueueAborted \<Rightarrow> rs_state (vq_stream q) \<noteq> StreamReadable \<and> vq_values q = []) \<and>
     (vq_waiting q \<longrightarrow> vq_state q = QueueOpen \<and> vq_values q = [] \<and> rs_queue (vq_stream q) = [])"

definition value_bounds :: "'a value_queue \<Rightarrow> bool" where
  "value_bounds q \<longleftrightarrow>
     1 \<le> vq_capacity q \<and> length (vq_values q) \<le> vq_capacity q \<and> rs_mark (vq_stream q) = 0 \<and>
     length (rs_queue (vq_stream q)) \<le> 1"

text \<open>A read that waits is answered by the next value, or by a call of \<open>pull\<close> that is still to come.\<close>

definition value_demand :: "'a value_queue \<Rightarrow> bool" where
  "value_demand q \<longleftrightarrow>
     (rs_reads (vq_stream q) > 0 \<longrightarrow>
        vq_waiting q \<or> rs_pulling (vq_stream q) \<and> rs_pull_again (vq_stream q))"

definition value_inv :: "'a value_queue \<Rightarrow> bool" where
  "value_inv q \<longleftrightarrow>
     readable_inv (vq_stream q) \<and> value_books q \<and> value_phase q \<and> value_bounds q \<and> value_demand q"

text \<open>Everything but the demand, which does not hold while a read is being handled.\<close>

definition value_sound :: "'a value_queue \<Rightarrow> bool" where
  "value_sound q \<longleftrightarrow> readable_inv (vq_stream q) \<and> value_books q \<and> value_phase q \<and> value_bounds q"

lemma value_inv_split: "value_inv q \<longleftrightarrow> value_sound q \<and> value_demand q"
  by (auto simp: value_inv_def value_sound_def)

lemmas value_parts = value_sound_def value_books_def value_phase_def value_bounds_def

lemma pull_flags [simp]:
  "can_enqueue (r\<lparr>rs_pulling := b\<rparr>) = can_enqueue r" "can_enqueue (r\<lparr>rs_pull_again := c\<rparr>) = can_enqueue r"
  "can_enqueue (r\<lparr>rs_pulling := b, rs_pull_again := c\<rparr>) = can_enqueue r"
  "carried (r\<lparr>rs_pulling := b\<rparr>) = carried r" "carried (r\<lparr>rs_pull_again := c\<rparr>) = carried r"
  "carried (r\<lparr>rs_pulling := b, rs_pull_again := c\<rparr>) = carried r"
  "readable_inv (r\<lparr>rs_pulling := b\<rparr>) = readable_inv r" "readable_inv (r\<lparr>rs_pull_again := c\<rparr>) = readable_inv r"
  "readable_inv (r\<lparr>rs_pulling := b, rs_pull_again := c\<rparr>) = readable_inv r"
  by (simp_all add: can_enqueue_def carried_def readable_inv_def)

lemma sound_flags [simp]:
  "value_sound (q\<lparr>vq_stream := (vq_stream q)\<lparr>rs_pulling := b\<rparr>\<rparr>) = value_sound q"
  "value_sound (q\<lparr>vq_stream := (vq_stream q)\<lparr>rs_pull_again := c\<rparr>\<rparr>) = value_sound q"
  "value_sound (q\<lparr>vq_stream := (vq_stream q)\<lparr>rs_pulling := b, rs_pull_again := c\<rparr>\<rparr>) = value_sound q"
  by (simp_all add: value_parts cong: queue_state.case_cong)

lemma sound_open: "value_sound q \<Longrightarrow> should_pull (vq_stream q) \<Longrightarrow> vq_state q = QueueOpen \<or> vq_state q = QueueClosing"
  by (auto simp: value_parts should_pull_def can_enqueue_def split: queue_state.splits)

lemma should_pull_reads: "value_sound q \<Longrightarrow> should_pull (vq_stream q) \<longleftrightarrow> can_enqueue (vq_stream q) \<and> rs_reads (vq_stream q) > 0"
  by (auto simp: value_parts should_pull_def desired_size_def)

lemma reads_empty: "value_sound q \<Longrightarrow> rs_reads (vq_stream q) > 0 \<Longrightarrow> rs_queue (vq_stream q) = [] \<and> can_enqueue (vq_stream q)"
  by (simp add: value_sound_def readable_inv_def)

section \<open>Preservation\<close>

lemma finish_close_sound:
  assumes "readable_inv (vq_stream q)" "value_books q" "value_bounds q" "vq_values q = []" "can_enqueue (vq_stream q)"
    "vq_state q \<noteq> QueueClosed"
  shows "value_sound (finish_close q)" "rs_reads (vq_stream (finish_close q)) = 0"
  using assms
  by (auto simp: finish_close_def value_parts readable_inv_def close_readable_def can_enqueue_def)
    (auto simp: carried_def)

lemma flush_one_inv:
  assumes "value_sound q" "rs_reads (vq_stream q) > 0" "rs_pulling (vq_stream q)"
  shows "value_inv (flush_one q)"
proof -
  have e: "rs_queue (vq_stream q) = []" "can_enqueue (vq_stream q)"
    using reads_empty [OF assms(1,2)] by simp_all
  show ?thesis
  proof (cases "vq_values q")
    case Nil
    have "vq_state q = QueueOpen" using assms(1) Nil e(2)
      by (auto simp: value_parts can_enqueue_def split: queue_state.splits)
    with Nil assms e show ?thesis
      by (auto simp: flush_one_def value_inv_split value_demand_def value_parts)
  next
    case (Cons v rest)
    define r where "r = enqueue_chunk v (vq_stream q)"
    define q1 where "q1 = enqueue_pulling v (q\<lparr>vq_values := rest\<rparr>)"
    have w: "\<not> vq_waiting q" using assms(1) Cons by (auto simp: value_parts)
    have r: "readable_inv r" "can_enqueue r" "carried r = carried (vq_stream q) @ [v]" "rs_queue r = []"
      "rs_reads r = rs_reads (vq_stream q) - 1" "rs_pulling r"
      using assms e carried_enqueue [OF e(2), of v]
      by (auto simp: r_def value_sound_def enqueue_chunk_def can_enqueue_def readable_inv_def)
    have q1: "vq_stream q1 = (if should_pull r then r\<lparr>rs_pull_again := True\<rparr> else r)" "vq_values q1 = rest"
      "vq_state q1 = vq_state q" "vq_waiting q1 = vq_waiting q" "vq_accepted q1 = vq_accepted q"
      "vq_lost q1 = vq_lost q" "vq_capacity q1 = vq_capacity q"
      by (simp_all add: q1_def enqueue_pulling_def r_def Let_def)
    have books: "value_books q1" using assms(1) Cons r(3) by (simp add: value_parts q1)
    have bounds: "value_bounds q1" using assms(1) Cons r(4) by (simp add: value_parts q1) (simp add: r_def)
    have demand: "rs_reads (vq_stream q1) > 0 \<longrightarrow> rs_pulling (vq_stream q1) \<and> rs_pull_again (vq_stream q1)"
      using r by (simp add: q1 should_pull_def)
    have inv: "readable_inv (vq_stream q1)" "can_enqueue (vq_stream q1)" using r by (simp_all add: q1)
    show ?thesis
    proof (cases "rest = [] \<and> vq_state q = QueueClosing")
      case True
      then have f: "flush_one q = finish_close q1"
        unfolding flush_one_def Cons list.case Let_def q1_def [symmetric] q1(3) by (simp only: simp_thms if_True)
      have "vq_values q1 = []" "vq_state q1 \<noteq> QueueClosed" using True q1 by simp_all
      from finish_close_sound [OF inv(1) books bounds this(1) inv(2) this(2)] show ?thesis
        by (simp add: f value_inv_split value_demand_def)
    next
      case False
      then have f: "flush_one q = q1"
        unfolding flush_one_def Cons list.case Let_def q1_def [symmetric] q1(3) by (simp only: simp_thms if_False)
      have "value_phase q1" using assms(1) False Cons w inv(2) q1
        by (auto simp: value_parts split: queue_state.splits)
      with books bounds demand inv show ?thesis by (simp add: f value_inv_def value_demand_def)
    qed
  qed
qed

lemma call_pull_inv: "value_sound q \<Longrightarrow> value_inv (call_pull q)"
proof -
  assume s: "value_sound q"
  have d: "value_demand q" if "\<not> should_pull (vq_stream q)"
    using that should_pull_reads [OF s] reads_empty [OF s] by (auto simp: value_demand_def)
  have "value_inv (flush_one (q\<lparr>vq_stream := (vq_stream q)\<lparr>rs_pulling := True\<rparr>\<rparr>))" if "should_pull (vq_stream q)"
    using that s should_pull_reads [OF s] by (intro flush_one_inv) simp_all
  with s d show ?thesis by (auto simp: call_pull_def value_inv_split) (simp add: value_demand_def)
qed

lemma pull_settles_inv: "value_inv q \<Longrightarrow> value_inv (pull_settles q)"
proof -
  assume i: "value_inv q"
  have "value_inv (call_pull (q\<lparr>vq_stream := (vq_stream q)\<lparr>rs_pulling := False, rs_pull_again := False\<rparr>\<rparr>))"
    using i by (intro call_pull_inv) (simp add: value_inv_split)
  moreover have "value_inv (q\<lparr>vq_stream := (vq_stream q)\<lparr>rs_pulling := False\<rparr>\<rparr>)" if "\<not> rs_pull_again (vq_stream q)"
    using i that by (simp add: value_inv_split) (simp add: value_demand_def)
  ultimately show ?thesis using i by (simp add: pull_settles_def)
qed

lemma read_value_inv: "value_inv q \<Longrightarrow> value_inv (read_value q)"
proof -
  assume i: "value_inv q"
  let ?r = "take_chunk (vq_stream q)"
  have "value_sound (q\<lparr>vq_stream := ?r\<rparr>)"
  proof (cases "rs_state (vq_stream q) = StreamReadable")
    case True
    have c: "can_enqueue ?r = can_enqueue (vq_stream q)" "rs_queue ?r = tl (rs_queue (vq_stream q))"
      "rs_state ?r \<noteq> StreamReadable \<longrightarrow> \<not> can_enqueue (vq_stream q)"
      using True by (auto simp: take_chunk_def can_enqueue_def Let_def split: list.split)
    have "readable_inv ?r" using i by (auto simp: value_inv_def)
    with i c True show ?thesis
      by (auto simp: value_inv_def value_parts split: queue_state.splits)
  next
    case False
    with i show ?thesis by (simp add: take_chunk_def value_inv_split)
  qed
  then show ?thesis by (simp add: read_value_def call_pull_inv)
qed

lemma push_value_inv: "value_inv q \<Longrightarrow> value_inv (fst (push_value v q))"
proof -
  assume i: "value_inv q"
  have sub: "subseq (c @ xs @ [v]) (acc @ [v])" if "subseq (c @ xs) acc" for c xs acc
    using that list_emb_append_mono [of "(=)" "c @ xs" acc "[v]" "[v]"] by simp
  show ?thesis
  proof (cases "vq_state q = QueueOpen")
    case False
    with i show ?thesis by (simp add: push_value_def)
  next
    case open': True
    show ?thesis
    proof (cases "vq_waiting q")
      case True
      let ?q = "q\<lparr>vq_waiting := False, vq_stream := enqueue_chunk v (vq_stream q), vq_accepted := vq_accepted q @ [v]\<rparr>"
      have e: "can_enqueue (vq_stream q)" "rs_queue (vq_stream q) = []" "vq_values q = []" "readable_inv (vq_stream q)"
        using i open' True by (auto simp: value_inv_def value_phase_def)
      have c: "carried (enqueue_chunk v (vq_stream q)) = carried (vq_stream q) @ [v]" "can_enqueue (enqueue_chunk v (vq_stream q))"
        "length (rs_queue (enqueue_chunk v (vq_stream q))) \<le> 1"
        using carried_enqueue [OF e(1,4), of v] e by (auto simp: enqueue_chunk_def can_enqueue_def)
      have "value_sound ?q"
        using i e c open' sub [of "carried (vq_stream q)" "[]" "vq_accepted q"]
        by (auto simp: value_inv_def value_parts)
      with open' True show ?thesis by (simp add: push_value_def call_pull_inv)
    next
      case False
      have s: "subseq (carried (vq_stream q) @ vq_values q) (vq_accepted q)" using i by (simp add: value_inv_def value_books_def)
      show ?thesis
      proof (cases "vq_overflow q = DropOldest \<and> \<not> length (vq_values q) < vq_capacity q")
        case True
        then obtain d rest where vs: "vq_values q = d # rest" using i
          by (cases "vq_values q") (auto simp: value_inv_def value_bounds_def)
        have "subseq (carried (vq_stream q) @ rest) (carried (vq_stream q) @ d # rest)"
          by (intro list_emb_append_mono) auto
        with s vs have "subseq (carried (vq_stream q) @ rest) (vq_accepted q)" by (auto intro: subseq_order.trans)
        from sub [OF this] True False open' vs i show ?thesis
          by (simp add: push_value_def vq_call_def value_inv_def value_demand_def value_parts)
      next
        case other: False
        with False open' i sub [OF s] show ?thesis
          by (auto simp: push_value_def vq_call_def Let_def value_inv_def value_demand_def value_parts split: list.split)
      qed
    qed
  qed
qed

lemma subseq_prefix: "subseq (xs @ ys) zs \<Longrightarrow> subseq xs zs"
  using list_emb_append_mono [of "(=)" xs xs "[]" ys] by (auto intro: subseq_order.trans)

lemma close_queue_inv: "value_inv q \<Longrightarrow> value_inv (close_queue discard q)"
proof -
  assume i: "value_inv q"
  define q1 where "q1 = (if discard then q\<lparr>vq_values := [], vq_lost := vq_lost q + length (vq_values q)\<rparr> else q)\<lparr>vq_state := QueueClosing\<rparr>"
  show ?thesis
  proof (cases "vq_state q = QueueOpen \<or> vq_state q = QueueClosing")
    case True
    have c: "can_enqueue (vq_stream q)" "\<not> vq_waiting q \<or> vq_values q = []"
      using i True by (auto simp: value_inv_def value_phase_def split: queue_state.splits)
    have p: "readable_inv (vq_stream q1)" "value_books q1" "value_bounds q1" "can_enqueue (vq_stream q1)"
      "vq_state q1 \<noteq> QueueClosed"
      using i c by (auto simp: q1_def value_inv_def value_books_def value_bounds_def dest: subseq_prefix)
    have f: "value_inv (finish_close q1)" if "vq_values q1 = []"
      using finish_close_sound [OF p(1,2,3) that p(4,5)] by (simp add: value_inv_split value_demand_def)
    have "value_inv q1" if "vq_values q1 \<noteq> []"
    proof -
      have q: "q1 = q\<lparr>vq_state := QueueClosing\<rparr>" "vq_values q \<noteq> []" using that by (auto simp: q1_def split: if_splits)
      with i c show ?thesis by (auto simp: value_inv_def value_books_def value_phase_def value_bounds_def value_demand_def)
    qed
    with f have "value_inv (if vq_values q1 = [] then finish_close q1 else q1)" by simp
    moreover have "close_queue discard q = (if vq_values q1 = [] then finish_close q1 else q1)"
      using True by (auto simp: close_queue_def q1_def Let_def)
    ultimately show ?thesis by simp
  qed (use i in \<open>simp add: close_queue_def\<close>)
qed

lemma abort_queue_inv: "value_inv q \<Longrightarrow> value_inv (abort_queue reason q)"
proof (cases "vq_state q = QueueClosed \<or> vq_state q = QueueAborted")
  case False
  assume i: "value_inv q"
  with False have "rs_state (vq_stream q) = StreamReadable"
    by (auto simp: value_inv_def value_phase_def can_enqueue_def split: queue_state.splits)
  with i False show ?thesis
    by (auto simp: abort_queue_def value_inv_def value_books_def value_phase_def value_bounds_def value_demand_def
        readable_inv_def error_readable_def carried_def dest: subseq_prefix)
qed (simp add: abort_queue_def)

lemma cancel_queue_inv: "value_inv q \<Longrightarrow> value_inv (cancel_queue reason q)"
proof (cases "rs_state (vq_stream q) = StreamReadable")
  case True
  assume i: "value_inv q"
  with True show ?thesis
    by (auto simp: cancel_queue_def abort_queue_def value_inv_def value_books_def value_phase_def value_bounds_def
        value_demand_def readable_inv_def error_readable_def cancel_readable_def can_enqueue_def carried_def
        dest: subseq_prefix split: queue_state.splits)
qed (simp add: cancel_queue_def)

lemma release_inv: "value_inv q \<Longrightarrow> value_inv (q\<lparr>vq_stream := release_reads (vq_stream q)\<rparr>)"
  by (auto simp: value_inv_def value_books_def value_phase_def value_bounds_def value_demand_def readable_inv_def
      release_reads_def can_enqueue_def carried_def split: queue_state.splits)

lemma value_step_inv: "value_inv q \<Longrightarrow> value_inv (value_step e q)"
  by (cases e) (simp_all add: push_value_inv read_value_inv release_inv pull_settles_inv close_queue_inv
      abort_queue_inv cancel_queue_inv)

interpretation value_life: event_system value_step value_inv
  by unfold_locales (rule value_step_inv)

lemma new_value_queue_inv: "new_value_queue capacity policy = Inr q \<Longrightarrow> value_inv q"
  using nat_of_number_pos [of capacity]
  by (auto simp: new_value_queue_def positive_integer_def bindE_Inr_iff new_readable_def value_inv_def value_books_def
      value_phase_def value_bounds_def value_demand_def readable_inv_def can_enqueue_def carried_def split: if_splits)

text \<open>
  C37. The bounded queue of the in-memory transport, whatever its producer, its consumer and the platform
  do and in whatever order: it never holds more values than its capacity, and its stream at most one
  more; what the consumer has read, followed by what is still held, are accepted values in the order in
  which they were accepted, and exactly all of them as long as none was dropped or discarded; and a
  consumer that waits is never forgotten: the next value goes to it, or a call of \<open>pull\<close> is to come.
\<close>

theorem value_queue_sound:
  assumes "new_value_queue capacity policy = Inr q0"
  shows "let q = fold value_step es q0 in
      length (vq_values q) \<le> vq_capacity q \<and> length (rs_queue (vq_stream q)) \<le> 1 \<and>
      subseq (rs_delivered (vq_stream q) @ rs_queue (vq_stream q) @ vq_values q) (vq_accepted q) \<and>
      (vq_lost q = 0 \<longrightarrow> rs_delivered (vq_stream q) @ rs_queue (vq_stream q) @ vq_values q = vq_accepted q) \<and>
      (rs_reads (vq_stream q) > 0 \<longrightarrow>
         vq_waiting q \<and> vq_values q = [] \<or> rs_pulling (vq_stream q) \<and> rs_pull_again (vq_stream q))"
proof -
  let ?q = "fold value_step es q0"
  have "value_inv ?q" by (rule value_life.run_inv [OF new_value_queue_inv [OF assms]])
  then have b: "value_bounds ?q" and k: "value_books ?q" and d: "value_demand ?q" and p: "value_phase ?q"
    by (simp_all add: value_inv_def)
  have "carried (vq_stream ?q) @ vq_values ?q = vq_accepted ?q" if "vq_lost ?q = 0"
    using k that by (intro subseq_same_length) (simp_all add: value_books_def)
  with b k d p show ?thesis
    by (auto simp: Let_def value_bounds_def value_books_def value_demand_def value_phase_def carried_def)
qed

text \<open>Three values for a queue of two, then two reads, the second of which waits for the fourth value.\<close>

definition example_queue :: "nat value_queue" where
  "example_queue =
     \<lparr>vq_capacity = 2, vq_overflow = DropOldest, vq_values = [], vq_waiting = False, vq_state = QueueOpen,
      vq_stream = new_readable 0, vq_calls = [], vq_accepted = [], vq_lost = 0\<rparr>"

lemma example_queue_new: "new_value_queue (Finite 2) DropOldest = Inr example_queue"
  by (simp add: new_value_queue_def positive_integer_def example_queue_def max_safe_def)

theorem value_queue_sound_witness:
  "let q = fold value_step [PushValue 1, PushValue 2, PushValue 3, ReadValue, ReadValue, PullSettles, ReadValue,
        PullSettles, PushValue 4] example_queue
   in length (vq_values q) \<le> 2 \<and> rs_delivered (vq_stream q) = [2, 3, 4] \<and>
      subseq (rs_delivered (vq_stream q)) [1, 2, 3, 4]"
proof -
  let ?q = "fold value_step [PushValue 1, PushValue 2, PushValue 3, ReadValue, ReadValue, PullSettles, ReadValue,
        PullSettles, PushValue 4] example_queue"
  have "rs_delivered (vq_stream ?q) = [2, 3, 4] \<and> vq_accepted ?q = [1, 2, 3, 4] \<and> vq_capacity ?q = 2 \<and>
      rs_queue (vq_stream ?q) = [] \<and> vq_values ?q = []"
    by (simp add: example_queue_def new_readable_def push_value_def read_value_def pull_settles_def call_pull_def
        flush_one_def enqueue_pulling_def vq_call_def readable_defs)
  with value_queue_sound [OF example_queue_new, of "[PushValue 1, PushValue 2, PushValue 3, ReadValue, ReadValue,
        PullSettles, ReadValue, PullSettles, PushValue 4]"]
  show ?thesis by (simp add: Let_def)
qed

end
