(* ===== verification/Testing_Pipe.thy ===== *)
theory Testing_Pipe
  imports Testing_Queue
begin

text \<open>
  \<open>BoundedBytePipe\<close> of \<open>packages/testing/src/internal/bounded-stream.ts\<close>: a byte pipe whose writer waits
  for room instead of growing a queue. A write is cut at its waits; the platform's \<open>WritableStream\<close>
  starts the next write of the sink only when the one before it has settled. The logs at the end of
  the state are what the theorems are about; the code does not keep them.
\<close>

datatype pipe_state = PipeOpen | PipeClosed | PipeAborted

datatype write_phase = NoWrite | WaitsForRoom "nat list" | HasRoom "nat list"

datatype waiter = NoWaiter | WaiterPending | WaiterResolved | WaiterRejected thrown

datatype pipe_call = OnBytes nat | OnTerminal | WriteFails thrown | WriteSucceeds | ErrorsWritable thrown

record byte_pipe =
  bp_capacity :: nat
  bp_max_chunk :: nat
  bp_stream :: "nat list readable"
  bp_state :: pipe_state
  bp_waiter :: waiter
  bp_notified :: bool
  bp_listener :: bool
  bp_write :: write_phase
  bp_calls :: "pipe_call list"
  bp_moved :: "nat list list"
  bp_cancelled :: bool

definition bp_call :: "pipe_call \<Rightarrow> byte_pipe \<Rightarrow> byte_pipe" where
  "bp_call c p = p\<lparr>bp_calls := bp_calls p @ [c]\<rparr>"

text \<open>The constructor; the platform calls \<open>pull\<close> once the stream has started.\<close>

definition new_byte_pipe :: "js_number \<Rightarrow> js_number \<Rightarrow> thrown + byte_pipe" where
  "new_byte_pipe capacity max_chunk =
     bindE (positive_integer capacity ''capacity'') (\<lambda>n.
     bindE (positive_integer max_chunk ''maxChunkSize'') (\<lambda>m.
       Inr \<lparr>bp_capacity = n, bp_max_chunk = m, bp_stream = (new_readable n)\<lparr>rs_pulling := True\<rparr>,
            bp_state = PipeOpen, bp_waiter = NoWaiter, bp_notified = False, bp_listener = True,
            bp_write = NoWrite, bp_calls = [], bp_moved = [], bp_cancelled = False\<rparr>))"

section \<open>Capacity\<close>

definition release_waiter :: "byte_pipe \<Rightarrow> byte_pipe" where
  "release_waiter p = (if bp_waiter p = WaiterPending then p\<lparr>bp_waiter := WaiterResolved\<rparr> else p)"

definition reject_waiter :: "thrown \<Rightarrow> byte_pipe \<Rightarrow> byte_pipe" where
  "reject_waiter e p = (if bp_waiter p = WaiterPending then p\<lparr>bp_waiter := WaiterRejected e\<rparr> else p)"

definition notify_terminal :: "byte_pipe \<Rightarrow> byte_pipe" where
  "notify_terminal p =
     (if bp_notified p then p else bp_call OnTerminal (p\<lparr>bp_notified := True, bp_listener := False\<rparr>))"

text \<open>\<open>pull\<close> releases the writer.\<close>

definition pipe_pull :: "byte_pipe \<Rightarrow> byte_pipe" where
  "pipe_pull p =
     (if \<not> should_pull (bp_stream p) then p
      else if rs_pulling (bp_stream p) then p\<lparr>bp_stream := (bp_stream p)\<lparr>rs_pull_again := True\<rparr>\<rparr>
      else release_waiter (p\<lparr>bp_stream := (bp_stream p)\<lparr>rs_pulling := True\<rparr>\<rparr>))"

definition pipe_pull_settles :: "byte_pipe \<Rightarrow> byte_pipe" where
  "pipe_pull_settles p =
     (if \<not> rs_pulling (bp_stream p) then p
      else if rs_pull_again (bp_stream p) then
        pipe_pull (p\<lparr>bp_stream := (bp_stream p)\<lparr>rs_pulling := False, rs_pull_again := False\<rparr>\<rparr>)
      else p\<lparr>bp_stream := (bp_stream p)\<lparr>rs_pulling := False\<rparr>\<rparr>)"

section \<open>Ends\<close>

definition pipe_close :: "byte_pipe \<Rightarrow> byte_pipe" where
  "pipe_close p =
     (if bp_state p \<noteq> PipeOpen then p
      else notify_terminal
        ((release_waiter (p\<lparr>bp_state := PipeClosed\<rparr>))\<lparr>bp_stream := close_readable (bp_stream p)\<rparr>))"

definition pipe_abort :: "thrown option \<Rightarrow> bool \<Rightarrow> byte_pipe \<Rightarrow> byte_pipe" where
  "pipe_abort reason error_writable p =
     (if bp_state p \<noteq> PipeOpen then p
      else
        (let error = abort_reason reason ''The virtual stream was aborted'';
             p1 = reject_waiter error (p\<lparr>bp_state := PipeAborted\<rparr>);
             p2 = p1\<lparr>bp_stream := error_readable error (bp_stream p1)\<rparr>
         in notify_terminal (if error_writable then bp_call (ErrorsWritable error) p2 else p2)))"

section \<open>A write of the sink\<close>

definition pipe_closed_error :: thrown where
  "pipe_closed_error = DomException ''InvalidStateError'' ''The virtual stream is closed''"

definition write_fails :: "thrown \<Rightarrow> byte_pipe \<Rightarrow> byte_pipe" where
  "write_fails e p = bp_call (WriteFails e) (pipe_abort (Some e) True (p\<lparr>bp_write := NoWrite, bp_waiter := NoWaiter\<rparr>))"

text \<open>The loop of \<open>waitForCapacity\<close> from the test of its condition to its next wait.\<close>

definition wait_for_capacity :: "nat list \<Rightarrow> byte_pipe \<Rightarrow> byte_pipe" where
  "wait_for_capacity chunk p =
     (if bp_state p \<noteq> PipeOpen then write_fails pipe_closed_error p
      else if desired_size (bp_stream p) \<le> 0 then p\<lparr>bp_write := WaitsForRoom chunk, bp_waiter := WaiterPending\<rparr>
      else p\<lparr>bp_write := HasRoom chunk, bp_waiter := NoWaiter\<rparr>)"

definition chunk_error :: "nat \<Rightarrow> nat \<Rightarrow> thrown" where
  "chunk_error given limit =
     range_error (''Chunk size '' @ show_nat given @ '' exceeds the '' @ show_nat limit @ '' byte limit'')"

text \<open>\<open>write\<close> up to its wait; \<open>None\<close> is a chunk that is no \<open>Uint8Array\<close>.\<close>

definition sink_write :: "nat list option \<Rightarrow> byte_pipe \<Rightarrow> byte_pipe" where
  "sink_write chunk p =
     (if bp_write p \<noteq> NoWrite then p
      else case chunk of
        None \<Rightarrow> write_fails (type_error ''Virtual streams only accept Uint8Array chunks'') p
      | Some bytes \<Rightarrow>
          if length bytes > bp_max_chunk p then write_fails (chunk_error (length bytes) (bp_max_chunk p)) p
          else wait_for_capacity bytes p)"

definition write_resumes :: "byte_pipe \<Rightarrow> byte_pipe" where
  "write_resumes p =
     (case bp_write p of
        NoWrite \<Rightarrow> p
      | WaitsForRoom chunk \<Rightarrow>
          (case bp_waiter p of
             WaiterResolved \<Rightarrow> wait_for_capacity chunk p
           | WaiterRejected e \<Rightarrow> write_fails e p
           | _ \<Rightarrow> p)
      | HasRoom chunk \<Rightarrow>
          if bp_state p \<noteq> PipeOpen then write_fails pipe_closed_error p
          else
            bp_call WriteSucceeds (bp_call (OnBytes (length chunk))
              (pipe_pull (p\<lparr>bp_write := NoWrite, bp_stream := enqueue_chunk chunk (bp_stream p),
                            bp_moved := bp_moved p @ [chunk]\<rparr>))))"

datatype pipe_event =
  SinkWrite "nat list option" | WriteResumes | SinkClose | SinkAborts "thrown option" | SignalAborts "thrown option"
  | PipeAborts "thrown option" | PipeCloses | ReadPipe | ReleasePipe | PipePullSettles | CancelPipe "thrown option"

fun pipe_step :: "pipe_event \<Rightarrow> byte_pipe \<Rightarrow> byte_pipe" where
  "pipe_step (SinkWrite chunk) p = sink_write chunk p"
| "pipe_step WriteResumes p = write_resumes p"
| "pipe_step SinkClose p = (if bp_write p = NoWrite then pipe_close p else p)"
| "pipe_step (SinkAborts reason) p =
     (if bp_write p = NoWrite then
        pipe_abort (Some (abort_reason reason ''The sending side aborted the stream'')) True p
      else p)"
| "pipe_step (SignalAborts reason) p = (if bp_listener p then pipe_abort reason False p else p)"
| "pipe_step (PipeAborts reason) p = pipe_abort reason True p"
| "pipe_step PipeCloses p = pipe_close p"
| "pipe_step ReadPipe p = pipe_pull (p\<lparr>bp_stream := take_chunk (bp_stream p)\<rparr>)"
| "pipe_step ReleasePipe p = p\<lparr>bp_stream := release_reads (bp_stream p)\<rparr>"
| "pipe_step PipePullSettles p = pipe_pull_settles p"
| "pipe_step (CancelPipe reason) p =
     (if rs_state (bp_stream p) \<noteq> StreamReadable then p
      else pipe_abort (Some (abort_reason reason ''The receiving side cancelled the stream'')) True
        (p\<lparr>bp_stream := cancel_readable (bp_stream p), bp_cancelled := True\<rparr>))"

section \<open>The invariant\<close>

definition terminal_calls :: "byte_pipe \<Rightarrow> nat" where
  "terminal_calls p = count_list (bp_calls p) OnTerminal"

definition bytes_counted :: "byte_pipe \<Rightarrow> nat" where
  "bytes_counted p = sum_list (map (\<lambda>c. case c of OnBytes n \<Rightarrow> n | _ \<Rightarrow> 0) (bp_calls p))"

definition pipe_books :: "byte_pipe \<Rightarrow> bool" where
  "pipe_books p \<longleftrightarrow>
     bp_notified p = (bp_state p \<noteq> PipeOpen) \<and> terminal_calls p = (if bp_state p = PipeOpen then 0 else 1) \<and>
     prefix (carried (bp_stream p)) (bp_moved p) \<and>
     (bp_state p \<noteq> PipeAborted \<and> \<not> bp_cancelled p \<longrightarrow> carried (bp_stream p) = bp_moved p) \<and>
     (bp_state p = PipeOpen \<longrightarrow> \<not> bp_cancelled p) \<and>
     bytes_counted p = sum_list (map length (bp_moved p)) \<and>
     (\<forall>c \<in> set (bp_moved p). length c \<le> bp_max_chunk p)"

definition pipe_room :: "byte_pipe \<Rightarrow> bool" where
  "pipe_room p \<longleftrightarrow>
     rs_mark (bp_stream p) = bp_capacity p \<and> length (rs_queue (bp_stream p)) \<le> bp_capacity p \<and>
     (bp_state p = PipeOpen) = can_enqueue (bp_stream p) \<and>
     (case bp_write p of
        NoWrite \<Rightarrow> bp_waiter p = NoWaiter
      | WaitsForRoom c \<Rightarrow> bp_waiter p \<noteq> NoWaiter \<and> length c \<le> bp_max_chunk p
      | HasRoom c \<Rightarrow> bp_waiter p = NoWaiter \<and> length c \<le> bp_max_chunk p \<and>
          (bp_state p = PipeOpen \<longrightarrow> length (rs_queue (bp_stream p)) < bp_capacity p))"

text \<open>A writer that waits is woken: there is no room, or a call of \<open>pull\<close> is to come.\<close>

definition pipe_wakes :: "byte_pipe \<Rightarrow> bool" where
  "pipe_wakes p \<longleftrightarrow>
     (bp_waiter p = WaiterPending \<longrightarrow>
        bp_state p = PipeOpen \<and>
        (length (rs_queue (bp_stream p)) < bp_capacity p \<longrightarrow>
           rs_pulling (bp_stream p) \<and> rs_pull_again (bp_stream p)))"

definition pipe_inv :: "byte_pipe \<Rightarrow> bool" where
  "pipe_inv p \<longleftrightarrow> readable_inv (bp_stream p) \<and> pipe_books p \<and> pipe_room p \<and> pipe_wakes p"

lemmas pipe_parts = pipe_inv_def pipe_books_def pipe_room_def pipe_wakes_def

lemma bp_call_frame [simp]:
  "bp_stream (bp_call c p) = bp_stream p" "bp_state (bp_call c p) = bp_state p" "bp_waiter (bp_call c p) = bp_waiter p"
  "bp_write (bp_call c p) = bp_write p" "bp_moved (bp_call c p) = bp_moved p" "bp_notified (bp_call c p) = bp_notified p"
  "bp_cancelled (bp_call c p) = bp_cancelled p" "bp_capacity (bp_call c p) = bp_capacity p" "bp_max_chunk (bp_call c p) = bp_max_chunk p"
  "terminal_calls (bp_call c p) = terminal_calls p + (if c = OnTerminal then 1 else 0)"
  "bytes_counted (bp_call c p) = bytes_counted p + (case c of OnBytes n \<Rightarrow> n | _ \<Rightarrow> 0)"
  by (simp_all add: bp_call_def terminal_calls_def bytes_counted_def)

lemma call_counts [simp]:
  "terminal_calls (p\<lparr>bp_stream := r, bp_cancelled := d\<rparr>) = terminal_calls p"
  "bytes_counted (p\<lparr>bp_stream := r, bp_cancelled := d\<rparr>) = bytes_counted p"
  "terminal_calls (p\<lparr>bp_stream := r\<rparr>) = terminal_calls p" "bytes_counted (p\<lparr>bp_stream := r\<rparr>) = bytes_counted p"
  "terminal_calls (p\<lparr>bp_waiter := w\<rparr>) = terminal_calls p" "bytes_counted (p\<lparr>bp_waiter := w\<rparr>) = bytes_counted p"
  "terminal_calls (p\<lparr>bp_write := x\<rparr>) = terminal_calls p" "bytes_counted (p\<lparr>bp_write := x\<rparr>) = bytes_counted p"
  "terminal_calls (p\<lparr>bp_state := y\<rparr>) = terminal_calls p" "bytes_counted (p\<lparr>bp_state := y\<rparr>) = bytes_counted p"
  "terminal_calls (p\<lparr>bp_moved := z\<rparr>) = terminal_calls p" "bytes_counted (p\<lparr>bp_moved := z\<rparr>) = bytes_counted p"
  "terminal_calls (p\<lparr>bp_notified := n\<rparr>) = terminal_calls p" "bytes_counted (p\<lparr>bp_notified := n\<rparr>) = bytes_counted p"
  "terminal_calls (p\<lparr>bp_listener := l\<rparr>) = terminal_calls p" "bytes_counted (p\<lparr>bp_listener := l\<rparr>) = bytes_counted p"
  by (simp_all add: terminal_calls_def bytes_counted_def)

lemma desired_room:
  "can_enqueue r \<Longrightarrow> desired_size r \<le> 0 \<longleftrightarrow> rs_mark r \<le> length (rs_queue r)"
  by (simp add: desired_size_def can_enqueue_def)

section \<open>Preservation\<close>

lemma pipe_pull_inv:
  assumes "readable_inv (bp_stream p)" "pipe_books p" "pipe_room p" "bp_waiter p = WaiterPending \<longrightarrow> bp_state p = PipeOpen"
  shows "pipe_inv (pipe_pull p)"
proof -
  have w: "should_pull (bp_stream p)" if "bp_state p = PipeOpen" "length (rs_queue (bp_stream p)) < bp_capacity p"
    using that assms(3) by (auto simp: should_pull_def pipe_room_def desired_size_def can_enqueue_def)
  from assms w show ?thesis
    by (auto simp: pipe_pull_def release_waiter_def pipe_parts split: write_phase.splits)
qed

lemma pipe_pull_settles_inv: "pipe_inv p \<Longrightarrow> pipe_inv (pipe_pull_settles p)"
proof -
  assume i: "pipe_inv p"
  have "pipe_inv (pipe_pull (p\<lparr>bp_stream := (bp_stream p)\<lparr>rs_pulling := False, rs_pull_again := False\<rparr>\<rparr>))"
    using i by (intro pipe_pull_inv) (simp_all add: pipe_parts split: write_phase.splits)
  moreover have "pipe_inv (p\<lparr>bp_stream := (bp_stream p)\<lparr>rs_pulling := False\<rparr>\<rparr>)" if "\<not> rs_pull_again (bp_stream p)"
    using i that by (simp add: pipe_parts split: write_phase.splits)
  ultimately show ?thesis using i by (simp add: pipe_pull_settles_def)
qed

lemma pipe_close_inv: "pipe_inv p \<Longrightarrow> pipe_inv (pipe_close p)"
proof -
  assume i: "pipe_inv p"
  have "readable_inv (close_readable (bp_stream p))" using i by (auto simp: pipe_inv_def)
  moreover have "length (rs_queue (close_readable (bp_stream p))) \<le> length (rs_queue (bp_stream p))"
    "bp_state p = PipeOpen \<longrightarrow> \<not> can_enqueue (close_readable (bp_stream p))"
    using i by (auto simp: pipe_inv_def close_readable_def can_enqueue_def)
  ultimately show ?thesis using i
    by (auto simp: pipe_close_def notify_terminal_def release_waiter_def pipe_parts split: write_phase.splits)
qed

lemma error_readable_facts:
  "readable_inv r \<Longrightarrow> readable_inv (error_readable e r)" "\<not> can_enqueue (error_readable e r)"
  "length (rs_queue (error_readable e r)) \<le> length (rs_queue r)" "prefix (carried (error_readable e r)) (carried r)"
  by (simp add: readable_ops_inv) (auto simp: error_readable_def can_enqueue_def carried_def)

lemma pipe_abort_inv:
  assumes "readable_inv (bp_stream p)" "pipe_books p" "pipe_room p" "pipe_wakes p"
  shows "pipe_inv (pipe_abort reason w p)"
proof (cases "bp_state p = PipeOpen")
  case True
  define e where "e = abort_reason reason ''The virtual stream was aborted''"
  note f = error_readable_facts [where r = "bp_stream p" and e = e]
  have "prefix (carried (error_readable e (bp_stream p))) (bp_moved p)"
    using f(4) assms(2) by (auto simp: pipe_books_def intro: prefix_order.trans)
  with True assms f show ?thesis
    by (auto simp: pipe_abort_def Let_def e_def [symmetric] notify_terminal_def reject_waiter_def pipe_parts
        split: write_phase.splits)
qed (use assms in \<open>simp add: pipe_abort_def pipe_inv_def\<close>)

lemma write_fails_inv: "pipe_inv p \<Longrightarrow> pipe_inv (write_fails e p)"
proof -
  assume i: "pipe_inv p"
  have "pipe_inv (pipe_abort (Some e) True (p\<lparr>bp_write := NoWrite, bp_waiter := NoWaiter\<rparr>))"
    using i by (intro pipe_abort_inv) (simp_all add: pipe_parts split: write_phase.splits)
  then show ?thesis by (simp add: write_fails_def pipe_parts split: write_phase.splits)
qed

lemma wait_for_capacity_inv:
  assumes "pipe_inv p" "length c \<le> bp_max_chunk p"
  shows "pipe_inv (wait_for_capacity c p)"
proof -
  have "bp_state p = PipeOpen \<Longrightarrow> desired_size (bp_stream p) \<le> 0 \<longleftrightarrow> \<not> length (rs_queue (bp_stream p)) < bp_capacity p"
    using assms(1) desired_room [of "bp_stream p"] by (auto simp: pipe_inv_def pipe_room_def)
  with assms show ?thesis
    by (auto simp: wait_for_capacity_def write_fails_inv) (auto simp: pipe_parts split: write_phase.splits)
qed

lemma write_resumes_inv: "pipe_inv p \<Longrightarrow> pipe_inv (write_resumes p)"
proof -
  assume i: "pipe_inv p"
  show ?thesis
  proof (cases "bp_write p")
    case NoWrite
    with i show ?thesis by (simp add: write_resumes_def)
  next
    case (WaitsForRoom c)
    with i have "length c \<le> bp_max_chunk p" by (simp add: pipe_parts)
    with i WaitsForRoom show ?thesis
      by (auto simp: write_resumes_def wait_for_capacity_inv write_fails_inv split: waiter.split)
  next
    case (HasRoom c)
    show ?thesis
    proof (cases "bp_state p = PipeOpen")
      case True
      let ?r = "enqueue_chunk c (bp_stream p)"
      let ?p = "p\<lparr>bp_write := NoWrite, bp_stream := ?r, bp_moved := bp_moved p @ [c]\<rparr>"
      have s: "can_enqueue (bp_stream p)" "readable_inv (bp_stream p)" "length (rs_queue (bp_stream p)) < bp_capacity p"
        "length c \<le> bp_max_chunk p" "bp_waiter p = NoWaiter"
        using i HasRoom True by (simp_all add: pipe_parts)
      have r: "carried ?r = carried (bp_stream p) @ [c]" "can_enqueue ?r" "length (rs_queue ?r) \<le> bp_capacity p"
        "readable_inv ?r"
        using s carried_enqueue [OF s(1,2), of c] by (auto simp: enqueue_chunk_def can_enqueue_def readable_inv_def)
      define p' where "p' = bp_call WriteSucceeds (bp_call (OnBytes (length c)) ?p)"
      have "pipe_inv (pipe_pull p')"
        using i True r s by (intro pipe_pull_inv) (simp_all add: p'_def pipe_parts)
      moreover have "bp_call x (bp_call y (pipe_pull ?p)) = pipe_pull (bp_call x (bp_call y ?p))" for x y
        using s(5) by (simp add: pipe_pull_def release_waiter_def bp_call_def)
      ultimately show ?thesis using HasRoom True by (simp add: write_resumes_def p'_def)
    next
      case False
      with HasRoom i show ?thesis by (simp add: write_resumes_def write_fails_inv)
    qed
  qed
qed

lemma pipe_read_inv: "pipe_inv p \<Longrightarrow> pipe_inv (pipe_pull (p\<lparr>bp_stream := take_chunk (bp_stream p)\<rparr>))"
proof -
  assume i: "pipe_inv p"
  let ?r = "take_chunk (bp_stream p)"
  have "readable_inv ?r" using i by (auto simp: pipe_inv_def)
  moreover have "can_enqueue ?r = can_enqueue (bp_stream p)" "length (rs_queue ?r) \<le> length (rs_queue (bp_stream p))"
    by (auto simp: take_chunk_def can_enqueue_def Let_def split: list.split)
  ultimately show ?thesis
    using i by (intro pipe_pull_inv) (auto simp: pipe_parts split: write_phase.splits)
qed

lemma pipe_cancel_inv:
  assumes "pipe_inv p" "rs_state (bp_stream p) = StreamReadable"
  shows "pipe_inv (pipe_abort reason w (p\<lparr>bp_stream := cancel_readable (bp_stream p), bp_cancelled := True\<rparr>))"
proof -
  let ?r = "cancel_readable (bp_stream p)"
  have pre: "prefix (rs_delivered (bp_stream p)) (bp_moved p)"
    using assms by (auto simp: pipe_inv_def pipe_books_def carried_def dest: append_prefixD)
  have r: "readable_inv ?r" "\<not> can_enqueue ?r" "rs_queue ?r = []" "carried ?r = rs_delivered (bp_stream p)"
    "error_readable e ?r = ?r" "rs_delivered ?r = rs_delivered (bp_stream p)" "rs_state ?r = StreamClosed" for e
    using assms(2) by (auto simp: cancel_readable_def readable_inv_def can_enqueue_def error_readable_def carried_def)
  show ?thesis
  proof (cases "bp_state p = PipeOpen")
    case True
    with assms r pre show ?thesis
      by (auto simp: pipe_abort_def Let_def notify_terminal_def reject_waiter_def pipe_parts split: write_phase.splits)
  next
    case False
    with assms r pre show ?thesis by (auto simp: pipe_abort_def pipe_parts split: write_phase.splits)
  qed
qed

lemma pipe_release_inv: "pipe_inv p \<Longrightarrow> pipe_inv (p\<lparr>bp_stream := release_reads (bp_stream p)\<rparr>)"
proof -
  assume i: "pipe_inv p"
  have "readable_inv (release_reads (bp_stream p))" using i by (auto simp: pipe_inv_def)
  moreover have "can_enqueue (release_reads (bp_stream p)) = can_enqueue (bp_stream p)"
    "rs_queue (release_reads (bp_stream p)) = rs_queue (bp_stream p)"
    by (auto simp: release_reads_def can_enqueue_def)
  ultimately show ?thesis using i by (simp add: pipe_parts split: write_phase.splits)
qed

lemma sink_write_inv: "pipe_inv p \<Longrightarrow> pipe_inv (sink_write c p)"
  by (auto simp: sink_write_def write_fails_inv wait_for_capacity_inv split: option.split)

lemma pipe_step_inv: "pipe_inv p \<Longrightarrow> pipe_inv (pipe_step e p)"
  using pipe_abort_inv [of p]
  by (cases e) (simp_all add: pipe_close_inv pipe_read_inv pipe_pull_settles_inv write_resumes_inv
      pipe_cancel_inv pipe_release_inv sink_write_inv, simp_all add: pipe_inv_def)

interpretation pipe_life: event_system pipe_step pipe_inv
  by unfold_locales (rule pipe_step_inv)

lemma new_byte_pipe_inv: "new_byte_pipe capacity max_chunk = Inr p \<Longrightarrow> pipe_inv p"
  by (auto simp: new_byte_pipe_def positive_integer_def bindE_Inr_iff new_readable_def pipe_parts readable_inv_def
      can_enqueue_def carried_def terminal_calls_def bytes_counted_def split: if_splits)

text \<open>
  C25. The byte pipe of the in-memory transport, whatever the writer, the reader and the platform do and
  in whatever order: it never holds more chunks than its capacity, nor a chunk that is too large; what
  the reader has received, followed by what is still held, is what was written, in order and complete
  unless the pipe was aborted or cancelled, and a prefix of it then; every byte that went in was counted
  once; the end is announced exactly once, when the pipe leaves its open state; and a writer that waits
  waits only while the pipe is open and full, or is about to be woken.
\<close>

theorem byte_pipe_sound:
  assumes "new_byte_pipe capacity max_chunk = Inr p0"
  shows "let p = fold pipe_step es p0 in
      length (rs_queue (bp_stream p)) \<le> bp_capacity p \<and>
      (\<forall>c \<in> set (bp_moved p). length c \<le> bp_max_chunk p) \<and>
      prefix (rs_delivered (bp_stream p) @ rs_queue (bp_stream p)) (bp_moved p) \<and>
      (bp_state p \<noteq> PipeAborted \<and> \<not> bp_cancelled p \<longrightarrow>
         rs_delivered (bp_stream p) @ rs_queue (bp_stream p) = bp_moved p) \<and>
      bytes_counted p = sum_list (map length (bp_moved p)) \<and>
      terminal_calls p = (if bp_state p = PipeOpen then 0 else 1) \<and>
      (bp_waiter p = WaiterPending \<longrightarrow>
         bp_state p = PipeOpen \<and>
         (length (rs_queue (bp_stream p)) = bp_capacity p \<or> rs_pulling (bp_stream p) \<and> rs_pull_again (bp_stream p)))"
proof -
  let ?p = "fold pipe_step es p0"
  have "pipe_inv ?p" by (rule pipe_life.run_inv [OF new_byte_pipe_inv [OF assms]])
  then have b: "pipe_books ?p" and r: "pipe_room ?p" and w: "pipe_wakes ?p" by (simp_all add: pipe_inv_def)
  from r have "length (rs_queue (bp_stream ?p)) \<le> bp_capacity ?p" by (simp add: pipe_room_def)
  with b w show ?thesis by (auto simp: Let_def pipe_books_def pipe_wakes_def carried_def)
qed

text \<open>A pipe for one chunk: the second write waits until the first chunk has been read.\<close>

definition example_pipe :: byte_pipe where
  "example_pipe =
     \<lparr>bp_capacity = 1, bp_max_chunk = 4, bp_stream = (new_readable 1)\<lparr>rs_pulling := True\<rparr>,
      bp_state = PipeOpen, bp_waiter = NoWaiter, bp_notified = False, bp_listener = True,
      bp_write = NoWrite, bp_calls = [], bp_moved = [], bp_cancelled = False\<rparr>"

lemma example_pipe_new: "new_byte_pipe (Finite 1) (Finite 4) = Inr example_pipe"
  by (simp add: new_byte_pipe_def positive_integer_def example_pipe_def max_safe_def)

definition example_writes :: "pipe_event list" where
  "example_writes =
     [PipePullSettles, SinkWrite (Some [1, 2]), WriteResumes, SinkWrite (Some [3]), WriteResumes, ReadPipe,
      WriteResumes, WriteResumes, ReadPipe]"

theorem byte_pipe_sound_witness:
  "let p = fold pipe_step example_writes example_pipe in
     rs_delivered (bp_stream p) = [[1, 2], [3]] \<and> bp_moved p = [[1, 2], [3]] \<and> bytes_counted p = 3 \<and>
     bp_waiter (fold pipe_step (take 5 example_writes) example_pipe) = WaiterPending"
proof -
  let ?p = "fold pipe_step example_writes example_pipe"
  have "rs_delivered (bp_stream ?p) = [[1, 2], [3]]" "bp_moved ?p = [[1, 2], [3]]"
    "bp_waiter (fold pipe_step (take 5 example_writes) example_pipe) = WaiterPending"
    by (simp_all add: example_writes_def example_pipe_def new_readable_def sink_write_def wait_for_capacity_def
        write_resumes_def pipe_pull_def pipe_pull_settles_def release_waiter_def bp_call_def readable_defs)
  with byte_pipe_sound [OF example_pipe_new, of example_writes] show ?thesis by (simp add: Let_def)
qed

end
