(* ===== verification/Testing_Streams.thy ===== *)
theory Testing_Streams
  imports Testing_Pipe
begin

text \<open>
  The streams of the in-memory transport, \<open>packages/testing/src/mock-stream.ts\<close>: a pair of endpoints over
  one byte pipe (unidirectional) or two (bidirectional), and the lifecycle the pipes share. The lifecycle
  ends when its last pipe has ended or when the pair is reset; it then aborts the signal of the stream and
  tells the session. \<open>sp_ends\<close> counts the calls of \<open>onTerminal\<close>; the code does not keep it.
\<close>

datatype stream_signal = SignalOpen | SignalAborted "thrown option"

record stream_pair =
  sp_id :: nat
  sp_from_server :: bool
  sp_pipes :: "byte_pipe list"
  sp_remaining :: nat
  sp_notified :: bool
  sp_signal :: stream_signal
  sp_ends :: nat

section \<open>The lifecycle\<close>

definition lifecycle_notify :: "stream_pair \<Rightarrow> stream_pair" where
  "lifecycle_notify t =
     (if sp_notified t then t
      else t\<lparr>sp_notified := True,
             sp_signal := (case sp_signal t of SignalOpen \<Rightarrow> SignalAborted None | aborted \<Rightarrow> aborted),
             sp_ends := sp_ends t + 1\<rparr>)"

definition pipe_terminated :: "stream_pair \<Rightarrow> stream_pair" where
  "pipe_terminated t =
     (let t1 = t\<lparr>sp_remaining := sp_remaining t - 1\<rparr>
      in if sp_remaining t1 = 0 then lifecycle_notify t1 else t1)"

text \<open>An operation of one pipe; its \<open>onTerminal\<close> is \<open>pipeTerminated\<close>.\<close>

definition on_pipe :: "nat \<Rightarrow> pipe_event \<Rightarrow> stream_pair \<Rightarrow> stream_pair" where
  "on_pipe i e t =
     (if i \<ge> length (sp_pipes t) then t
      else
        (let p = sp_pipes t ! i; p' = pipe_step e p; t1 = t\<lparr>sp_pipes := (sp_pipes t)[i := p']\<rparr>
         in if bp_notified p' \<and> \<not> bp_notified p then pipe_terminated t1 else t1))"

text \<open>\<open>MockStreamResetError\<close>, which adds only its code to \<open>StreamResetError\<close>.\<close>

definition mock_reset_error :: "nat \<Rightarrow> nat \<Rightarrow> thrown option \<Rightarrow> thrown" where
  "mock_reset_error stream code cause =
     new_error StreamResetError
       (''Virtual stream '' @ show_nat stream @ '' was reset with code '' @ show_nat code)
       \<lparr>opt_code = ''TEST_STREAM_RESET'', opt_recoverable = Some True, opt_scope = Some STREAM, opt_cause = cause\<rparr>"

definition lifecycle_reset :: "nat \<Rightarrow> thrown option \<Rightarrow> stream_pair \<Rightarrow> stream_pair" where
  "lifecycle_reset code cause t =
     (if sp_signal t \<noteq> SignalOpen then t
      else
        (let e = mock_reset_error (sp_id t) code cause
         in lifecycle_notify
              (fold (\<lambda>i. on_pipe i (PipeAborts (Some e))) [0..<length (sp_pipes t)]
                (t\<lparr>sp_signal := SignalAborted (Some e)\<rparr>))))"

text \<open>\<open>createMockBidirectionalStreamPair\<close> and \<open>createMockUnidirectionalStreamPair\<close>.\<close>

definition create_stream_pair ::
  "nat \<Rightarrow> bool \<Rightarrow> bool \<Rightarrow> js_number js_prop \<Rightarrow> js_number js_prop \<Rightarrow> thrown + stream_pair" where
  "create_stream_pair stream from_server bidirectional queue_size max_chunk =
     bindE (new_byte_pipe (coalesce queue_size (Finite 16)) (coalesce max_chunk (Finite 65536))) (\<lambda>p.
       (let n = (if bidirectional then 2 else 1)
        in Inr \<lparr>sp_id = stream, sp_from_server = from_server, sp_pipes = replicate n p, sp_remaining = n,
                sp_notified = False, sp_signal = SignalOpen, sp_ends = 0\<rparr>))"

section \<open>The pipes of a pair\<close>

definition open_pipes :: "stream_pair \<Rightarrow> nat" where
  "open_pipes t = length (filter (\<lambda>p. \<not> bp_notified p) (sp_pipes t))"

definition pair_books :: "stream_pair \<Rightarrow> bool" where
  "pair_books t \<longleftrightarrow>
     (\<forall>p \<in> set (sp_pipes t). pipe_inv p) \<and> sp_remaining t = open_pipes t \<and>
     sp_notified t = (open_pipes t = 0) \<and> sp_ends t = (if sp_notified t then 1 else 0) \<and>
     (sp_notified t \<longrightarrow> sp_signal t \<noteq> SignalOpen)"

definition pair_inv :: "stream_pair \<Rightarrow> bool" where
  "pair_inv t \<longleftrightarrow> pair_books t \<and> (sp_signal t \<noteq> SignalOpen \<longrightarrow> sp_notified t)"

lemma notified_iff: "pipe_inv p \<Longrightarrow> bp_notified p \<longleftrightarrow> bp_state p \<noteq> PipeOpen"
  by (simp add: pipe_inv_def pipe_books_def)

lemma abort_ends: "bp_state (pipe_abort reason w p) \<noteq> PipeOpen"
  by (simp add: pipe_abort_def Let_def notify_terminal_def reject_waiter_def bp_call_def)

lemma ended_stays: "bp_state p \<noteq> PipeOpen \<Longrightarrow> bp_state (pipe_step e p) \<noteq> PipeOpen"
  by (cases e) (auto simp: sink_write_def write_resumes_def write_fails_def wait_for_capacity_def pipe_abort_def
      pipe_close_def pipe_pull_def pipe_pull_settles_def release_waiter_def bp_call_def Let_def
      split: option.split write_phase.split waiter.split)

lemma notified_stays: "pipe_inv p \<Longrightarrow> bp_notified p \<Longrightarrow> bp_notified (pipe_step e p)"
  using ended_stays [of p e] pipe_step_inv [of p e] by (simp add: notified_iff)

lemma lifecycle_notify_simps [simp]:
  "sp_notified (lifecycle_notify t)" "sp_pipes (lifecycle_notify t) = sp_pipes t" "sp_id (lifecycle_notify t) = sp_id t"
  "sp_from_server (lifecycle_notify t) = sp_from_server t" "sp_remaining (lifecycle_notify t) = sp_remaining t"
  "open_pipes (lifecycle_notify t) = open_pipes t"
  by (simp_all add: lifecycle_notify_def open_pipes_def)

lemma length_filter_same:
  "i < length xs \<Longrightarrow> P (xs ! i) = P v \<Longrightarrow> length (filter P (xs[i := v])) = length (filter P xs)"
proof (induction xs arbitrary: i)
  case (Cons x xs)
  then show ?case by (cases i) auto
qed simp

lemma on_pipe_books:
  assumes b: "pair_books t"
  shows "pair_books (on_pipe i e t)"
proof (cases "i < length (sp_pipes t)")
  case True
  define p where "p = sp_pipes t ! i"
  define p' where "p' = pipe_step e p"
  define t1 where "t1 = t\<lparr>sp_pipes := (sp_pipes t)[i := p']\<rparr>"
  have inv: "pipe_inv p" "pipe_inv p'"
    using b True pipe_step_inv by (auto simp: pair_books_def p_def p'_def)
  have all: "\<forall>q \<in> set (sp_pipes t1). pipe_inv q"
    using b inv True by (auto simp: pair_books_def t1_def dest: set_update_subset_insert [THEN subsetD])
  show ?thesis
  proof (cases "bp_notified p' \<and> \<not> bp_notified p")
    case ends: True
    have n: "Suc (open_pipes t1) = open_pipes t"
      using length_filter_update [of i "sp_pipes t" "\<lambda>q. \<not> bp_notified q" p'] True ends
      by (simp add: open_pipes_def t1_def p_def)
    with b have r: "sp_remaining t1 - 1 = open_pipes t1" "\<not> sp_notified t1" "sp_ends t1 = 0"
      by (simp_all add: pair_books_def t1_def)
    define t2 where "t2 = t1\<lparr>sp_remaining := open_pipes t1\<rparr>"
    have f: "open_pipes t2 = open_pipes t1" "sp_remaining t2 = open_pipes t1" "\<not> sp_notified t2" "sp_ends t2 = 0"
      "sp_pipes t2 = sp_pipes t1"
      using r by (simp_all add: t2_def open_pipes_def)
    have "on_pipe i e t = (if open_pipes t1 = 0 then lifecycle_notify t2 else t2)"
      using True ends r by (simp add: on_pipe_def Let_def p_def [symmetric] p'_def [symmetric] t1_def [symmetric]
          pipe_terminated_def t2_def)
    moreover have "pair_books (lifecycle_notify t2)" if "open_pipes t1 = 0"
      using f all that by (simp add: pair_books_def) (simp add: lifecycle_notify_def split: stream_signal.split)
    moreover have "pair_books t2" if "open_pipes t1 \<noteq> 0"
      using f all that by (simp add: pair_books_def)
    ultimately show ?thesis by simp
  next
    case False
    have same: "bp_notified p' = bp_notified p" using False notified_stays [OF inv(1)] by (auto simp: p'_def)
    have "open_pipes t1 = open_pipes t"
      using length_filter_same [of i "sp_pipes t" "\<lambda>q. \<not> bp_notified q" p'] True same
      by (simp add: open_pipes_def t1_def p_def)
    with all b show ?thesis
      using True False by (auto simp: on_pipe_def Let_def p_def [symmetric] p'_def [symmetric] pair_books_def t1_def)
  qed
qed (simp add: on_pipe_def b)

lemma on_pipe_signal:
  "sp_signal t \<noteq> SignalOpen \<Longrightarrow> sp_signal (on_pipe i e t) = sp_signal t"
  "length (sp_pipes (on_pipe i e t)) = length (sp_pipes t)" "sp_id (on_pipe i e t) = sp_id t"
  "sp_from_server (on_pipe i e t) = sp_from_server t"
  by (auto simp: on_pipe_def pipe_terminated_def lifecycle_notify_def Let_def split: stream_signal.split)

lemma on_pipe_inv: "pair_inv t \<Longrightarrow> pair_inv (on_pipe i e t)"
proof -
  assume t: "pair_inv t"
  have "sp_notified (on_pipe i e t)" if "sp_signal (on_pipe i e t) \<noteq> SignalOpen"
    using that t by (auto simp: on_pipe_def pipe_terminated_def lifecycle_notify_def Let_def pair_inv_def split: if_splits)
  with t show ?thesis by (simp add: pair_inv_def on_pipe_books)
qed

text \<open>A pipe that has ended stays so, whatever happens to the others.\<close>

lemma on_pipe_ended:
  assumes "j < length (sp_pipes t)"
  shows "bp_state (sp_pipes t ! j) \<noteq> PipeOpen \<or> i = j \<and> (\<exists>reason. e = PipeAborts reason) \<Longrightarrow>
    bp_state (sp_pipes (on_pipe i e t) ! j) \<noteq> PipeOpen"
  using assms by (auto simp: on_pipe_def pipe_terminated_def Let_def nth_list_update ended_stays abort_ends)

definition abort_pipes :: "thrown option \<Rightarrow> nat list \<Rightarrow> stream_pair \<Rightarrow> stream_pair" where
  "abort_pipes reason js t = fold (\<lambda>i. on_pipe i (PipeAborts reason)) js t"

lemma abort_pipes_facts:
  "pair_books t \<Longrightarrow> pair_books (abort_pipes reason js t)"
  "length (sp_pipes (abort_pipes reason js t)) = length (sp_pipes t)"
  "sp_signal t \<noteq> SignalOpen \<Longrightarrow> sp_signal (abort_pipes reason js t) = sp_signal t"
  "sp_id (abort_pipes reason js t) = sp_id t" "sp_from_server (abort_pipes reason js t) = sp_from_server t"
  unfolding abort_pipes_def by (induction js arbitrary: t) (simp_all add: on_pipe_books on_pipe_signal)

lemma abort_pipes_ends:
  "j < length (sp_pipes t) \<Longrightarrow> bp_state (sp_pipes t ! j) \<noteq> PipeOpen \<or> j \<in> set js \<Longrightarrow>
   bp_state (sp_pipes (abort_pipes reason js t) ! j) \<noteq> PipeOpen"
  unfolding abort_pipes_def
proof (induction js arbitrary: t)
  case (Cons i js)
  have "bp_state (sp_pipes (on_pipe i (PipeAborts reason) t) ! j) \<noteq> PipeOpen \<or> j \<in> set js"
    using Cons.prems on_pipe_ended [OF Cons.prems(1), of i "PipeAborts reason"] by auto
  with Cons.prems show ?case by (simp add: Cons.IH on_pipe_signal)
qed simp

lemma lifecycle_reset_inv: "pair_inv t \<Longrightarrow> pair_inv (lifecycle_reset code cause t) \<and> sp_notified (lifecycle_reset code cause t)"
proof -
  assume t: "pair_inv t"
  show ?thesis
  proof (cases "sp_signal t = SignalOpen")
    case True
    define e where "e = mock_reset_error (sp_id t) code cause"
    define t1 where "t1 = t\<lparr>sp_signal := SignalAborted (Some e)\<rparr>"
    define t2 where "t2 = abort_pipes (Some e) [0..<length (sp_pipes t)] t1"
    have b: "pair_books t1" using t by (simp add: t1_def pair_inv_def pair_books_def open_pipes_def)
    have n: "length (sp_pipes t2) = length (sp_pipes t)" by (simp add: t2_def t1_def abort_pipes_facts)
    have "pipe_inv p \<and> bp_state p \<noteq> PipeOpen" if "p \<in> set (sp_pipes t2)" for p
    proof -
      from that obtain j where j: "j < length (sp_pipes t2)" "p = sp_pipes t2 ! j" by (auto simp: in_set_conv_nth)
      with n have "j < length (sp_pipes t1)" "j \<in> set [0..<length (sp_pipes t)]" by (simp_all add: t1_def)
      with j have "bp_state p \<noteq> PipeOpen" unfolding t2_def by (simp add: abort_pipes_ends)
      moreover from abort_pipes_facts(1) [OF b] that have "pipe_inv p" by (auto simp: t2_def pair_books_def)
      ultimately show ?thesis by simp
    qed
    then have "open_pipes t2 = 0" by (auto simp: open_pipes_def notified_iff)
    with abort_pipes_facts(1) [OF b] have "pair_books t2" "sp_notified t2"
      by (auto simp: t2_def pair_books_def)
    moreover have "lifecycle_reset code cause t = t2"
      using \<open>sp_notified t2\<close> True
      by (simp add: lifecycle_reset_def Let_def e_def [symmetric] t1_def [symmetric]
          abort_pipes_def [symmetric] t2_def [symmetric] lifecycle_notify_def)
    ultimately show ?thesis by (simp add: pair_inv_def)
  next
    case False
    with t show ?thesis by (simp add: lifecycle_reset_def pair_inv_def)
  qed
qed

lemma create_stream_pair_inv:
  assumes "create_stream_pair stream from_server bidirectional queue_size max_chunk = Inr t"
  shows "pair_inv t \<and> \<not> sp_notified t \<and> sp_id t = stream \<and> sp_from_server t = from_server"
proof -
  obtain p where p: "new_byte_pipe (coalesce queue_size (Finite 16)) (coalesce max_chunk (Finite 65536)) = Inr p"
    using assms by (auto simp: create_stream_pair_def bindE_Inr_iff)
  then have "pipe_inv p" "\<not> bp_notified p"
    by (auto simp: new_byte_pipe_inv) (auto simp: new_byte_pipe_def bindE_Inr_iff)
  moreover have "t = \<lparr>sp_id = stream, sp_from_server = from_server,
      sp_pipes = replicate (if bidirectional then 2 else 1) p, sp_remaining = (if bidirectional then 2 else 1),
      sp_notified = False, sp_signal = SignalOpen, sp_ends = 0\<rparr>"
    using assms p by (simp add: create_stream_pair_def Let_def)
  ultimately show ?thesis
    by (simp add: pair_inv_def pair_books_def open_pipes_def)
qed

end
