(* ===== verification/Testing_Connection.thy ===== *)
theory Testing_Connection
  imports Testing_Streams Driver_Sessions
begin

text \<open>
  The sessions of the in-memory transport, \<open>packages/testing/src/mock-session.ts\<close>, with their datagram
  channels, \<open>mock-datagram.ts\<close>: two endpoints over one connection, which owns the streams, the two
  datagram queues, the four queues of incoming streams and the termination. The endpoint \<open>Client\<close> is the
  \<open>first\<close> of the code, \<open>Server\<close> the \<open>second\<close>. A stream is named by its place in \<open>vc_pairs\<close>, which stands
  for the identity of the pair; \<open>vc_hooks\<close> records the calls of the statistics hooks.
\<close>

datatype endpoint = Client | Server

fun peer_of :: "endpoint \<Rightarrow> endpoint" where
  "peer_of Client = Server"
| "peer_of Server = Client"

datatype stats_hook =
  StreamOpened | StreamClosed | DatagramSent nat | DatagramReceived nat | DatagramDropped
  | BytesSent nat | BytesReceived nat | SessionEnded

record close_info =
  ci_code :: nat
  ci_reason :: string
  ci_aborted :: bool
  ci_error :: "thrown option"

datatype end_phase = NotTerminated | Terminating | Terminated

record connection =
  vc_id :: string
  vc_path :: string
  vc_remote :: string
  vc_port :: nat
  vc_stream_queue :: js_number
  vc_stream_chunk :: js_number
  vc_max_datagram :: nat
  vc_state :: session_state
  vc_close_info :: "close_info option"
  vc_signal :: "thrown option"
  vc_termination :: end_phase
  vc_closed :: "close_info option"
  vc_next_stream :: nat
  vc_pairs :: "stream_pair list"
  vc_streams :: "nat list"
  vc_received :: "endpoint \<Rightarrow> nat list value_queue"
  vc_errored :: "endpoint \<Rightarrow> thrown option"
  vc_incoming :: "endpoint \<Rightarrow> bool \<Rightarrow> nat value_queue"
  vc_hooks :: "stats_hook list"

section \<open>Construction\<close>

record pair_options =
  po_id :: "string option"
  po_path :: string
  po_remote :: "string option"
  po_port :: "nat option"
  po_incoming_queue :: "js_number option"
  po_stream_queue :: "js_number option"
  po_stream_chunk :: "js_number option"
  po_datagram_queue :: "js_number option"
  po_max_datagram :: "nat option"
  po_overflow :: "overflow_policy option"

definition or_default :: "'a option \<Rightarrow> 'a \<Rightarrow> 'a" where
  "or_default v d = (case v of Some x \<Rightarrow> x | None \<Rightarrow> d)"

text \<open>\<open>createMockWebTransportSessionPair\<close>; \<open>n\<close> is the counter of sessions without an identifier.\<close>

definition new_connection :: "nat \<Rightarrow> pair_options \<Rightarrow> thrown + connection" where
  "new_connection n options =
     (if take 1 (po_path options) \<noteq> ''/'' then
        Inl (type_error (''A virtual session path must start with '' @ [CHR 0x22, CHR 0x2F, CHR 0x22]))
      else
        bindE (new_value_queue (or_default (po_datagram_queue options) (Finite 64))
                 (or_default (po_overflow options) DropOldest)) (\<lambda>datagrams.
        bindE (new_value_queue (or_default (po_incoming_queue options) (Finite 16)) Reject) (\<lambda>streams.
          Inr \<lparr>vc_id = or_default (po_id options) (''mock-session-'' @ show_nat n), vc_path = po_path options,
               vc_remote = or_default (po_remote options) ''127.0.0.1'', vc_port = or_default (po_port options) 0,
               vc_stream_queue = or_default (po_stream_queue options) (Finite 16),
               vc_stream_chunk = or_default (po_stream_chunk options) (Finite 65536),
               vc_max_datagram = or_default (po_max_datagram options) 1200,
               vc_state = CONNECTED, vc_close_info = None, vc_signal = None, vc_termination = NotTerminated,
               vc_closed = None, vc_next_stream = 0, vc_pairs = [], vc_streams = [],
               vc_received = (\<lambda>ep. datagrams), vc_errored = (\<lambda>ep. None), vc_incoming = (\<lambda>ep kind. streams),
               vc_hooks = []\<rparr>)))"

section \<open>Streams\<close>

definition vc_hook :: "stats_hook \<Rightarrow> connection \<Rightarrow> connection" where
  "vc_hook h c = c\<lparr>vc_hooks := vc_hooks c @ [h]\<rparr>"

definition connection_closed_error :: "connection \<Rightarrow> string \<Rightarrow> string \<Rightarrow> thrown" where
  "connection_closed_error c outcome code =
     new_error SessionClosedError (''Virtual session '' @ vc_id c @ '' '' @ outcome)
       \<lparr>opt_code = code, opt_recoverable = Some True, opt_scope = Some SESSION, opt_cause = None\<rparr>"

definition assert_connected :: "connection \<Rightarrow> thrown + unit" where
  "assert_connected c =
     guardE (vc_state c = CONNECTED) (connection_closed_error c ''is closed'' ''TEST_SESSION_CLOSED'')"

definition start_stream :: "stream_pair \<Rightarrow> connection \<Rightarrow> connection" where
  "start_stream t c =
     vc_hook StreamOpened (c\<lparr>vc_pairs := vc_pairs c @ [t], vc_streams := js_add (length (vc_pairs c)) (vc_streams c)\<rparr>)"

definition finish_stream :: "nat \<Rightarrow> connection \<Rightarrow> connection" where
  "finish_stream k c =
     (if k \<in> set (vc_streams c) then vc_hook StreamClosed (c\<lparr>vc_streams := js_delete k (vc_streams c)\<rparr>) else c)"

text \<open>An operation of a stream; its \<open>onTerminal\<close> is \<open>#finishStream\<close>.\<close>

definition on_stream :: "nat \<Rightarrow> (stream_pair \<Rightarrow> stream_pair) \<Rightarrow> connection \<Rightarrow> connection" where
  "on_stream k f c =
     (if k \<ge> length (vc_pairs c) then c
      else
        (let t = vc_pairs c ! k; t' = f t; c1 = c\<lparr>vc_pairs := (vc_pairs c)[k := t']\<rparr>
         in if sp_ends t' > sp_ends t then finish_stream k c1 else c1))"

definition reset_tracked :: "nat \<Rightarrow> thrown option \<Rightarrow> nat \<Rightarrow> connection \<Rightarrow> connection" where
  "reset_tracked code cause k c = on_stream k (lifecycle_reset code cause) c"

text \<open>\<open>#recordStreamBytes\<close>, from the calls of \<open>onBytes\<close>; the first pipe of a pair carries what its owner sends.\<close>

definition record_stream_bytes :: "bool \<Rightarrow> nat \<Rightarrow> stats_hook" where
  "record_stream_bytes from_server n = (if from_server then BytesSent n else BytesReceived n)"

definition byte_calls :: "pipe_call list \<Rightarrow> nat list" where
  "byte_calls calls = concat (map (\<lambda>x. case x of OnBytes n \<Rightarrow> [n] | _ \<Rightarrow> []) calls)"

definition pair_event :: "nat \<Rightarrow> nat \<Rightarrow> pipe_event \<Rightarrow> connection \<Rightarrow> connection" where
  "pair_event k i e c =
     (if k \<ge> length (vc_pairs c) \<or> i \<ge> length (sp_pipes (vc_pairs c ! k)) then c
      else
        (let t = vc_pairs c ! k; p = sp_pipes t ! i; c1 = on_stream k (on_pipe i e) c;
             calls = drop (length (bp_calls p)) (bp_calls (pipe_step e p));
             from_server = (sp_from_server t = (i = 0))
         in fold vc_hook (map (record_stream_bytes from_server) (byte_calls calls)) c1))"

section \<open>Termination\<close>

definition end_datagrams :: "bool \<Rightarrow> thrown \<Rightarrow> connection \<Rightarrow> connection" where
  "end_datagrams aborted reason c =
     c\<lparr>vc_received := (\<lambda>ep. (if aborted then abort_queue (Some reason) else close_queue True) (vc_received c ep)),
       vc_errored := (\<lambda>ep. case vc_errored c ep of None \<Rightarrow> Some reason | Some e \<Rightarrow> Some e)\<rparr>"

definition end_incoming :: "bool \<Rightarrow> thrown \<Rightarrow> connection \<Rightarrow> connection" where
  "end_incoming aborted reason c =
     c\<lparr>vc_incoming := (\<lambda>ep kind. (if aborted then abort_queue (Some reason) else close_queue True) (vc_incoming c ep kind))\<rparr>"

text \<open>\<open>#terminate\<close> up to its wait for the resets, which are settled by then.\<close>

definition terminate :: "close_info \<Rightarrow> connection \<Rightarrow> connection" where
  "terminate info c =
     (if vc_state c = CLOSED then c\<lparr>vc_termination := Terminated\<rparr>
      else
        (let reason = (case ci_error info of Some e \<Rightarrow> e
                       | None \<Rightarrow> connection_closed_error c ''closed'' ''TEST_SESSION_CLOSED'');
             c1 = c\<lparr>vc_state := CLOSING, vc_close_info := Some info, vc_signal := Some reason\<rparr>;
             c2 = fold (reset_tracked (ci_code info) (Some reason)) (vc_streams c1) c1;
             c3 = end_incoming (ci_aborted info) reason (end_datagrams (ci_aborted info) reason c2)
         in c3\<lparr>vc_termination := Terminating\<rparr>))"

definition begin_termination :: "close_info \<Rightarrow> connection \<Rightarrow> connection" where
  "begin_termination info c = (if vc_termination c \<noteq> NotTerminated then c else terminate info c)"

definition termination_settles :: "connection \<Rightarrow> connection" where
  "termination_settles c =
     (if vc_termination c \<noteq> Terminating then c
      else vc_hook SessionEnded
             (c\<lparr>vc_state := CLOSED, vc_closed := vc_close_info c, vc_termination := Terminated\<rparr>))"

definition close_connection :: "nat option \<Rightarrow> string option \<Rightarrow> connection \<Rightarrow> connection" where
  "close_connection code reason c =
     begin_termination
       \<lparr>ci_code = or_default code 0, ci_reason = or_default reason [], ci_aborted = False, ci_error = None\<rparr> c"

text \<open>\<open>text\<close> is \<open>String\<close> of a value that is no error.\<close>

definition abort_connection :: "(thrown \<Rightarrow> string) \<Rightarrow> thrown option \<Rightarrow> connection \<Rightarrow> connection" where
  "abort_connection to_text reason c =
     (let e = or_default reason (connection_closed_error c ''was aborted'' ''TEST_SESSION_ABORTED'')
      in begin_termination
           \<lparr>ci_code = 0, ci_reason = or_default (message_of e) (to_text e), ci_aborted = True, ci_error = Some e\<rparr> c)"

section \<open>Opening streams\<close>

text \<open>\<open>onDrop\<close> of a queue of incoming streams resets the stream, or stops it, which is the same.\<close>

definition drop_stream :: "nat queue_call \<Rightarrow> connection \<Rightarrow> connection" where
  "drop_stream x c = (case x of OnDrop k \<Rightarrow> reset_tracked 0 None k c | OnCloseSession _ \<Rightarrow> c)"

definition accept_stream :: "endpoint \<Rightarrow> bool \<Rightarrow> nat \<Rightarrow> connection \<Rightarrow> connection \<times> (thrown + unit)" where
  "accept_stream ep kind k c =
     (case assert_connected c of
        Inl e \<Rightarrow> (c, Inl e)
      | Inr _ \<Rightarrow>
          (let q = vc_incoming c ep kind; (q', result) = push_value k q;
               c1 = c\<lparr>vc_incoming := (vc_incoming c)(ep := (vc_incoming c ep)(kind := q'))\<rparr>
           in (fold drop_stream (drop (length (vq_calls q)) (vq_calls q')) c1,
               case result of Inl e \<Rightarrow> Inl e | Inr _ \<Rightarrow> Inr ())))"

definition stream_queue_full :: "bool \<Rightarrow> thrown \<Rightarrow> thrown" where
  "stream_queue_full bidirectional cause =
     new_error WebTransportResourceLimitError
       (''Incoming '' @ (if bidirectional then ''bidirectional'' else ''unidirectional'') @ '' stream queue is full'')
       \<lparr>opt_code = ''TEST_STREAM_QUEUE_FULL'', opt_recoverable = Some True, opt_scope = Some STREAM,
        opt_cause = Some cause\<rparr>"

definition create_stream :: "endpoint \<Rightarrow> bool \<Rightarrow> connection \<Rightarrow> connection \<times> (thrown + nat)" where
  "create_stream owner bidirectional c =
     (case assert_connected c of
        Inl e \<Rightarrow> (c, Inl e)
      | Inr _ \<Rightarrow>
          (let n = vc_next_stream c; c0 = c\<lparr>vc_next_stream := n + 1\<rparr> in
           case create_stream_pair n (owner = Server) bidirectional (Given (vc_stream_queue c)) (Given (vc_stream_chunk c)) of
             Inl e \<Rightarrow> (c0, Inl e)
           | Inr t \<Rightarrow>
               (let k = length (vc_pairs c); (c1, outcome) = accept_stream (peer_of owner) bidirectional k (start_stream t c0)
                in case outcome of
                     Inr _ \<Rightarrow> (c1, Inr k)
                   | Inl cause \<Rightarrow> (reset_tracked 0 (Some cause) k c1, Inl (stream_queue_full bidirectional cause)))))"

section \<open>Datagrams\<close>

definition datagram_call :: "(thrown \<Rightarrow> string) \<Rightarrow> endpoint \<Rightarrow> nat list queue_call \<Rightarrow> connection \<Rightarrow> connection" where
  "datagram_call to_text ep x c =
     (case x of
        OnDrop _ \<Rightarrow> if ep = Server then vc_hook DatagramDropped c else c
      | OnCloseSession e \<Rightarrow> abort_connection to_text (Some e) c)"

definition deliver :: "(thrown \<Rightarrow> string) \<Rightarrow> endpoint \<Rightarrow> nat list \<Rightarrow> connection \<Rightarrow> connection \<times> (thrown + unit)" where
  "deliver to_text target datagram c =
     (case assert_connected c of
        Inl e \<Rightarrow> (c, Inl e)
      | Inr _ \<Rightarrow>
          (let c1 = vc_hook ((case target of Client \<Rightarrow> DatagramSent | Server \<Rightarrow> DatagramReceived) (length datagram)) c;
               q = vc_received c1 target; (q', result) = push_value datagram q;
               c2 = c1\<lparr>vc_received := (vc_received c1)(target := q')\<rparr>
           in (fold (datagram_call to_text target) (drop (length (vq_calls q)) (vq_calls q')) c2,
               case result of Inl e \<Rightarrow> Inl e | Inr _ \<Rightarrow> Inr ())))"

definition datagram_too_large :: "nat \<Rightarrow> nat \<Rightarrow> thrown" where
  "datagram_too_large n limit =
     new_error WebTransportResourceLimitError
       (''Datagram size '' @ show_nat n @ '' exceeds the '' @ show_nat limit @ '' byte limit'')
       \<lparr>opt_code = ''TEST_DATAGRAM_TOO_LARGE'', opt_recoverable = Some True, opt_scope = Some HANDLER, opt_cause = None\<rparr>"

text \<open>
  A write of the platform: an errored \<open>WritableStream\<close> does not call its sink again, and a sink that
  throws errors its stream. \<open>None\<close> is a datagram that is no \<open>Uint8Array\<close>.
\<close>

definition sink_datagram :: "(thrown \<Rightarrow> string) \<Rightarrow> endpoint \<Rightarrow> nat list option \<Rightarrow> connection \<Rightarrow> connection \<times> (thrown + unit)" where
  "sink_datagram to_text ep datagram c =
     (case datagram of
        None \<Rightarrow> (c, Inl (type_error ''Virtual datagrams must be Uint8Array values''))
      | Some bytes \<Rightarrow>
          if length bytes > vc_max_datagram c then (c, Inl (datagram_too_large (length bytes) (vc_max_datagram c)))
          else deliver to_text (peer_of ep) bytes c)"

definition write_datagram :: "(thrown \<Rightarrow> string) \<Rightarrow> endpoint \<Rightarrow> nat list option \<Rightarrow> connection \<Rightarrow> connection \<times> (thrown + unit)" where
  "write_datagram to_text ep datagram c =
     (case vc_errored c ep of
        Some e \<Rightarrow> (c, Inl e)
      | None \<Rightarrow>
          (case sink_datagram to_text ep datagram c of
             (c1, Inr _) \<Rightarrow> (c1, Inr ())
           | (c1, Inl e) \<Rightarrow>
               (c1\<lparr>vc_errored := (vc_errored c1)(ep := (case vc_errored c1 ep of None \<Rightarrow> Some e | x \<Rightarrow> x))\<rparr>, Inl e)))"

section \<open>Steps\<close>

text \<open>What the consumer of a queue and the platform do.\<close>

datatype consumer_event = ReadNext | ReleaseRead | PullDone | CancelRead "thrown option"

fun consumer_step :: "consumer_event \<Rightarrow> 'a value_queue \<Rightarrow> 'a value_queue" where
  "consumer_step ReadNext q = value_step value_event.ReadValue q"
| "consumer_step ReleaseRead q = value_step ReleaseReads q"
| "consumer_step PullDone q = value_step PullSettles q"
| "consumer_step (CancelRead reason) q = value_step (CancelValues reason) q"

datatype connection_event =
  CreateStream endpoint bool | OnStream nat nat pipe_event | ResetStream nat nat
  | WriteDatagram endpoint "nat list option" | ReceiveDatagram endpoint consumer_event
  | ReceiveStream endpoint bool consumer_event
  | CloseConnection "nat option" "string option" | AbortConnection "thrown option" | TerminationSettles

fun connection_step :: "(thrown \<Rightarrow> string) \<Rightarrow> connection_event \<Rightarrow> connection \<Rightarrow> connection" where
  "connection_step to_text (CreateStream ep bidirectional) c = fst (create_stream ep bidirectional c)"
| "connection_step to_text (OnStream k i e) c = pair_event k i e c"
| "connection_step to_text (ResetStream k code) c = reset_tracked code None k c"
| "connection_step to_text (WriteDatagram ep datagram) c = fst (write_datagram to_text ep datagram c)"
| "connection_step to_text (ReceiveDatagram ep e) c =
     c\<lparr>vc_received := (vc_received c)(ep := consumer_step e (vc_received c ep))\<rparr>"
| "connection_step to_text (ReceiveStream ep kind e) c =
     c\<lparr>vc_incoming := (vc_incoming c)(ep := (vc_incoming c ep)(kind := consumer_step e (vc_incoming c ep kind)))\<rparr>"
| "connection_step to_text (CloseConnection code reason) c = close_connection code reason c"
| "connection_step to_text (AbortConnection reason) c = abort_connection to_text reason c"
| "connection_step to_text TerminationSettles c = termination_settles c"

end
