(* ===== verification/Testing_Sessions.thy ===== *)
theory Testing_Sessions
  imports Testing_Connection
begin

text \<open>
  What holds of a session of the in-memory transport in every state: each stream that is open is
  counted, and only those; a session that has begun to end has no stream, no open queue and an aborted
  signal; and its end is announced once. The driver of the testing package rests on these.
\<close>

section \<open>The invariant\<close>

definition balanced :: "stats_hook list \<Rightarrow> bool" where
  "balanced hs \<longleftrightarrow> (\<forall>n. count_list (take n hs) StreamClosed \<le> count_list (take n hs) StreamOpened)"

definition stream_books :: "connection \<Rightarrow> bool" where
  "stream_books c \<longleftrightarrow>
     (\<forall>t \<in> set (vc_pairs c). pair_inv t) \<and> distinct (vc_streams c) \<and>
     set (vc_streams c) = {k. k < length (vc_pairs c) \<and> \<not> sp_notified (vc_pairs c ! k)} \<and>
     count_list (vc_hooks c) StreamOpened = length (vc_pairs c) \<and>
     count_list (vc_hooks c) StreamClosed + length (vc_streams c) = length (vc_pairs c) \<and>
     balanced (vc_hooks c)"

definition queue_books :: "connection \<Rightarrow> bool" where
  "queue_books c \<longleftrightarrow>
     (\<forall>ep. value_inv (vc_received c ep)) \<and> (\<forall>ep kind. value_inv (vc_incoming c ep kind)) \<and>
     count_list (vc_hooks c) DatagramDropped \<le> length (filter (\<lambda>h. \<exists>n. h = DatagramReceived n) (vc_hooks c))"

fun phase_state :: "end_phase \<Rightarrow> session_state" where
  "phase_state NotTerminated = CONNECTED"
| "phase_state Terminating = CLOSING"
| "phase_state Terminated = CLOSED"

definition end_books :: "connection \<Rightarrow> bool" where
  "end_books c \<longleftrightarrow>
     vc_state c = phase_state (vc_termination c) \<and>
     vc_closed c = (if vc_termination c = Terminated then vc_close_info c else None) \<and>
     (vc_signal c = None \<longleftrightarrow> vc_termination c = NotTerminated) \<and>
     (vc_close_info c = None \<longleftrightarrow> vc_termination c = NotTerminated) \<and>
     count_list (vc_hooks c) SessionEnded = (if vc_termination c = Terminated then 1 else 0)"

definition all_ended :: "connection \<Rightarrow> bool" where
  "all_ended c \<longleftrightarrow>
     vc_streams c = [] \<and> (\<forall>ep. vc_errored c ep \<noteq> None \<and> vq_state (vc_received c ep) \<noteq> QueueOpen) \<and>
     (\<forall>ep kind. vq_state (vc_incoming c ep kind) \<noteq> QueueOpen)"

definition connection_inv :: "connection \<Rightarrow> bool" where
  "connection_inv c \<longleftrightarrow>
     stream_books c \<and> queue_books c \<and> end_books c \<and> (vc_termination c \<noteq> NotTerminated \<longrightarrow> all_ended c)"

lemma balanced_snoc [simp]:
  "balanced (hs @ [h]) \<longleftrightarrow>
     balanced hs \<and> count_list (hs @ [h]) StreamClosed \<le> count_list (hs @ [h]) StreamOpened"
proof -
  have "(\<forall>n. P (take n (hs @ [h]))) \<longleftrightarrow> (\<forall>n. P (take n hs)) \<and> P (hs @ [h])" for P :: "stats_hook list \<Rightarrow> bool"
  proof -
    have "take n (hs @ [h]) = (if n \<le> length hs then take n hs else hs @ [h])" for n by simp
    moreover have "take n hs = (if n \<le> length hs then take n (hs @ [h]) else take (length hs) (hs @ [h]))" for n by simp
    ultimately show ?thesis by (metis take_all_iff nle_le length_append_singleton Suc_n_not_le_n)
  qed
  from this [of "\<lambda>xs. count_list xs StreamClosed \<le> count_list xs StreamOpened"] show ?thesis
    by (simp add: balanced_def)
qed

lemma balanced_two [simp]: "balanced (hs @ [g, h]) \<longleftrightarrow> balanced ((hs @ [g]) @ [h])"
  by simp

lemma vc_hook_simps [simp]:
  "vc_pairs (vc_hook h c) = vc_pairs c" "vc_streams (vc_hook h c) = vc_streams c" "vc_state (vc_hook h c) = vc_state c"
  "vc_termination (vc_hook h c) = vc_termination c" "vc_signal (vc_hook h c) = vc_signal c"
  "vc_close_info (vc_hook h c) = vc_close_info c" "vc_closed (vc_hook h c) = vc_closed c"
  "vc_received (vc_hook h c) = vc_received c" "vc_errored (vc_hook h c) = vc_errored c"
  "vc_incoming (vc_hook h c) = vc_incoming c" "vc_hooks (vc_hook h c) = vc_hooks c @ [h]"
  by (simp_all add: vc_hook_def)

section \<open>Streams\<close>

lemma on_pipe_notified: "sp_notified t \<Longrightarrow> sp_notified (on_pipe i e t)"
  by (simp add: on_pipe_def pipe_terminated_def Let_def)

lemma lifecycle_reset_notified: "pair_inv t \<Longrightarrow> sp_notified (lifecycle_reset code cause t)"
  using lifecycle_reset_inv by simp

definition keeps_pairs :: "(stream_pair \<Rightarrow> stream_pair) \<Rightarrow> bool" where
  "keeps_pairs f \<longleftrightarrow> (\<forall>t. pair_inv t \<longrightarrow> pair_inv (f t) \<and> (sp_notified t \<longrightarrow> sp_notified (f t)))"

lemma keeps_pairs_ops [simp]: "keeps_pairs (on_pipe i e)" "keeps_pairs (lifecycle_reset code cause)"
  by (simp_all add: keeps_pairs_def on_pipe_inv on_pipe_notified lifecycle_reset_inv)

lemma ends_notified: "pair_inv t \<Longrightarrow> sp_ends t = (if sp_notified t then 1 else 0)"
  by (simp add: pair_inv_def pair_books_def)

lemma on_stream_books:
  assumes b: "stream_books c" and f: "keeps_pairs f"
  shows "stream_books (on_stream k f c)"
proof (cases "k < length (vc_pairs c)")
  case True
  define t where "t = vc_pairs c ! k"
  have i: "pair_inv t" "pair_inv (f t)" "sp_notified t \<Longrightarrow> sp_notified (f t)"
    using b f True by (auto simp: stream_books_def keeps_pairs_def t_def)
  have flip: "sp_ends (f t) > sp_ends t \<longleftrightarrow> sp_notified (f t) \<and> \<not> sp_notified t"
    using i by (auto simp: ends_notified)
  have all: "\<forall>u \<in> set ((vc_pairs c)[k := f t]). pair_inv u"
    using b i by (auto simp: stream_books_def dest: set_update_subset_insert [THEN subsetD])
  have mem: "k \<in> set (vc_streams c) \<longleftrightarrow> \<not> sp_notified t"
    using b True by (simp add: stream_books_def t_def)
  show ?thesis
  proof (cases "sp_notified (f t) \<and> \<not> sp_notified t")
    case ends: True
    have "k \<in> set (vc_streams c)" using mem ends by simp
    then obtain n where "length (vc_streams c) = Suc n"
      by (metis length_pos_if_in_set gr0_implies_Suc)
    moreover have "set (js_delete k (vc_streams c)) =
        {j. j < length (vc_pairs c) \<and> \<not> sp_notified ((vc_pairs c)[k := f t] ! j)}"
      using b ends True by (auto simp: stream_books_def nth_list_update t_def)
    ultimately show ?thesis
      using b ends flip mem True all
      by (auto simp: on_stream_def Let_def t_def [symmetric] finish_stream_def stream_books_def length_js_delete
          simp del: set_js_delete)
  next
    case False
    have "set (vc_streams c) = {j. j < length (vc_pairs c) \<and> \<not> sp_notified ((vc_pairs c)[k := f t] ! j)}"
      using b False i(3) True by (auto simp: stream_books_def nth_list_update t_def)
    with b False flip all True show ?thesis
      by (auto simp: on_stream_def Let_def t_def [symmetric] stream_books_def)
  qed
qed (simp add: on_stream_def b)

lemma on_stream_frame [simp]:
  "vc_state (on_stream k f c) = vc_state c" "vc_termination (on_stream k f c) = vc_termination c"
  "vc_signal (on_stream k f c) = vc_signal c" "vc_close_info (on_stream k f c) = vc_close_info c"
  "vc_closed (on_stream k f c) = vc_closed c" "vc_received (on_stream k f c) = vc_received c"
  "vc_errored (on_stream k f c) = vc_errored c" "vc_incoming (on_stream k f c) = vc_incoming c"
  "length (vc_pairs (on_stream k f c)) = length (vc_pairs c)"
  "set (vc_streams (on_stream k f c)) \<subseteq> set (vc_streams c)"
  "\<exists>hs. vc_hooks (on_stream k f c) = vc_hooks c @ hs \<and> set hs \<subseteq> {StreamClosed}"
  by (auto simp: on_stream_def finish_stream_def Let_def)

text \<open>What an operation that touches only streams and their counters leaves alone.\<close>

definition streams_only :: "connection \<Rightarrow> connection \<Rightarrow> bool" where
  "streams_only c c' \<longleftrightarrow>
     vc_state c' = vc_state c \<and> vc_termination c' = vc_termination c \<and> vc_signal c' = vc_signal c \<and>
     vc_close_info c' = vc_close_info c \<and> vc_closed c' = vc_closed c \<and> vc_received c' = vc_received c \<and>
     vc_errored c' = vc_errored c \<and> vc_incoming c' = vc_incoming c \<and>
     (\<exists>hs. vc_hooks c' = vc_hooks c @ hs \<and>
       SessionEnded \<notin> set hs \<and> DatagramDropped \<notin> set hs)"

lemma streams_only_refl [simp]: "streams_only c c"
  by (simp add: streams_only_def)

lemma streams_only_trans: "streams_only a b \<Longrightarrow> streams_only b c \<Longrightarrow> streams_only a c"
  by (auto simp: streams_only_def)

lemma on_stream_only: "streams_only c (on_stream k f c)"
proof -
  obtain hs where "vc_hooks (on_stream k f c) = vc_hooks c @ hs" "set hs \<subseteq> {StreamClosed}"
    using on_stream_frame(11) [of k f c] by blast
  then show ?thesis unfolding streams_only_def by (intro conjI exI [of _ hs]) auto
qed

lemma streams_only_books:
  assumes "streams_only c c'"
  shows "queue_books c \<Longrightarrow> queue_books c'" "end_books c \<Longrightarrow> end_books c'"
    "all_ended c \<Longrightarrow> vc_streams c' = [] \<Longrightarrow> all_ended c'"
  using assms by (auto simp: streams_only_def queue_books_def end_books_def all_ended_def count_list_append
      simp flip: count_list_0_iff)

lemma streams_only_inv:
  assumes "connection_inv c" "streams_only c c'" "stream_books c'"
    and "vc_streams c = [] \<Longrightarrow> vc_termination c \<noteq> NotTerminated \<Longrightarrow> vc_streams c' = []"
  shows "connection_inv c'"
proof -
  have "vc_termination c' = vc_termination c" using assms(2) by (simp add: streams_only_def)
  with assms streams_only_books [OF assms(2)] show ?thesis
    by (auto simp: connection_inv_def) (simp add: all_ended_def)
qed

lemma on_stream_inv: "connection_inv c \<Longrightarrow> keeps_pairs f \<Longrightarrow> connection_inv (on_stream k f c)"
  using on_stream_frame(10) [of k f c]
  by (intro streams_only_inv [OF _ on_stream_only] on_stream_books) (auto simp: connection_inv_def)

lemma reset_tracked_inv: "connection_inv c \<Longrightarrow> connection_inv (reset_tracked code cause k c)"
  by (simp add: reset_tracked_def on_stream_inv)

text \<open>A reset takes the stream off the set of open streams.\<close>

lemma reset_tracked_closes:
  assumes "stream_books c"
  shows "set (vc_streams (reset_tracked code cause k c)) = set (vc_streams c) - {k}"
proof (cases "k < length (vc_pairs c)")
  case True
  define f where "f = lifecycle_reset code cause"
  have t: "pair_inv (vc_pairs c ! k)" using assms True by (simp add: stream_books_def)
  have p: "vc_pairs (on_stream k f c) = (vc_pairs c)[k := f (vc_pairs c ! k)]"
    using True by (simp add: on_stream_def finish_stream_def Let_def)
  have "stream_books (on_stream k f c)" using assms by (simp add: on_stream_books f_def)
  then have "set (vc_streams (on_stream k f c)) =
      {j. j < length (vc_pairs c) \<and> \<not> sp_notified ((vc_pairs c)[k := f (vc_pairs c ! k)] ! j)}"
    by (simp add: stream_books_def p)
  also have "\<dots> = set (vc_streams c) - {k}"
    using assms True lifecycle_reset_notified [OF t] by (auto simp: stream_books_def nth_list_update f_def)
  finally show ?thesis by (simp add: reset_tracked_def f_def)
next
  case False
  with assms show ?thesis by (auto simp: reset_tracked_def on_stream_def stream_books_def)
qed

lemma reset_all:
  assumes "stream_books c"
  shows "stream_books (fold (reset_tracked code cause) ks c) \<and>
    set (vc_streams (fold (reset_tracked code cause) ks c)) = set (vc_streams c) - set ks \<and>
    streams_only c (fold (reset_tracked code cause) ks c)"
  using assms
proof (induction ks arbitrary: c)
  case (Cons k ks)
  let ?c = "reset_tracked code cause k c"
  have "stream_books ?c" using Cons.prems by (simp add: reset_tracked_def on_stream_books)
  from Cons.IH [OF this] reset_tracked_closes [OF Cons.prems, of code cause k] show ?case
    using streams_only_trans [OF on_stream_only [of c k "lifecycle_reset code cause"]]
    by (auto simp: reset_tracked_def)
qed simp

section \<open>Queues\<close>

lemma pulling_keeps [simp]:
  "vq_calls (finish_close q) = vq_calls q" "vq_calls (flush_one q) = vq_calls q" "vq_calls (call_pull q) = vq_calls q"
  by (auto simp: finish_close_def flush_one_def call_pull_def enqueue_pulling_def Let_def split: list.split)

lemma queue_ended_stays:
  "vq_state q \<noteq> QueueOpen \<Longrightarrow> vq_state (call_pull q) \<noteq> QueueOpen"
  "vq_state q \<noteq> QueueOpen \<Longrightarrow> vq_state (value_step e q) \<noteq> QueueOpen"
  by (auto simp: finish_close_def flush_one_def call_pull_def enqueue_pulling_def Let_def split: list.split)
    (cases e; auto simp: push_value_def read_value_def call_pull_def flush_one_def finish_close_def pull_settles_def
      enqueue_pulling_def close_queue_def abort_queue_def cancel_queue_def Let_def split: list.splits if_splits)

lemma queue_ends:
  "vq_state (abort_queue reason q) \<noteq> QueueOpen" "vq_state (close_queue True q) \<noteq> QueueOpen"
  by (auto simp: abort_queue_def close_queue_def finish_close_def Let_def)

lemma push_calls:
  "\<exists>x e. drop (length (vq_calls q)) (vq_calls (fst (push_value v q))) \<in> {[], [OnDrop x], [OnDrop x, OnCloseSession e]}"
  by (auto simp: push_value_def vq_call_def Let_def split: list.split)

lemma consumer_step_inv: "value_inv q \<Longrightarrow> value_inv (consumer_step e q)"
  by (cases e) (simp_all only: consumer_step.simps value_step_inv)

lemma consumer_ended: "vq_state q \<noteq> QueueOpen \<Longrightarrow> vq_state (consumer_step e q) \<noteq> QueueOpen"
  by (cases e) (simp_all only: consumer_step.simps queue_ended_stays not_False_eq_True)

section \<open>Termination\<close>

lemma connection_inv_parts:
  assumes "connection_inv c"
  shows "stream_books c" "queue_books c" "end_books c" "vc_termination c \<noteq> NotTerminated \<Longrightarrow> all_ended c"
  using assms by (simp_all add: connection_inv_def)

lemma connected_iff: "connection_inv c \<Longrightarrow> vc_state c = CONNECTED \<longleftrightarrow> vc_termination c = NotTerminated"
  by (cases "vc_termination c") (auto simp: connection_inv_def end_books_def)

lemma end_queues_frame [simp]:
  "vc_pairs (end_incoming w r c) = vc_pairs c" "vc_streams (end_incoming w r c) = vc_streams c"
  "vc_hooks (end_incoming w r c) = vc_hooks c" "vc_state (end_incoming w r c) = vc_state c"
  "vc_signal (end_incoming w r c) = vc_signal c" "vc_close_info (end_incoming w r c) = vc_close_info c"
  "vc_closed (end_incoming w r c) = vc_closed c" "vc_termination (end_incoming w r c) = vc_termination c"
  "vc_pairs (end_datagrams w r c) = vc_pairs c" "vc_streams (end_datagrams w r c) = vc_streams c"
  "vc_hooks (end_datagrams w r c) = vc_hooks c" "vc_state (end_datagrams w r c) = vc_state c"
  "vc_signal (end_datagrams w r c) = vc_signal c" "vc_close_info (end_datagrams w r c) = vc_close_info c"
  "vc_closed (end_datagrams w r c) = vc_closed c" "vc_termination (end_datagrams w r c) = vc_termination c"
  by (simp_all add: end_incoming_def end_datagrams_def)

lemma terminate_inv:
  assumes c: "connection_inv c" and n: "vc_termination c = NotTerminated"
  shows "connection_inv (terminate info c) \<and> vc_termination (terminate info c) = Terminating \<and>
    vc_close_info (terminate info c) = Some info"
proof -
  define reason where "reason = (case ci_error info of Some e \<Rightarrow> e
      | None \<Rightarrow> connection_closed_error c ''closed'' ''TEST_SESSION_CLOSED'')"
  define c1 where "c1 = c\<lparr>vc_state := CLOSING, vc_close_info := Some info, vc_signal := Some reason\<rparr>"
  define c2 where "c2 = fold (reset_tracked (ci_code info) (Some reason)) (vc_streams c) c1"
  define c3 where "c3 = end_incoming (ci_aborted info) reason (end_datagrams (ci_aborted info) reason c2)"
  have t: "terminate info c = c3\<lparr>vc_termination := Terminating\<rparr>"
    using c n by (simp add: terminate_def connected_iff [symmetric] Let_def reason_def [symmetric] c1_def [symmetric]
        c2_def [symmetric] c3_def [symmetric])
  have "stream_books c1" using connection_inv_parts [OF c] by (simp add: c1_def stream_books_def)
  from reset_all [OF this, of "ci_code info" "Some reason" "vc_streams c"]
  have r: "stream_books c2" "set (vc_streams c2) = set (vc_streams c1) - set (vc_streams c)" "streams_only c1 c2"
    by (simp_all add: c2_def)
  then have r2: "vc_streams c2 = []" by (simp add: c1_def)
  have e: "all_ended (c3\<lparr>vc_termination := Terminating\<rparr>)"
    using r2 by (auto simp: all_ended_def c3_def end_incoming_def end_datagrams_def queue_ends split: option.split)
  have "queue_books c1" using connection_inv_parts(2) [OF c] by (simp add: c1_def queue_books_def)
  with streams_only_books(1) [OF r(3)] have q: "queue_books c2" by simp
  then have "queue_books (c3\<lparr>vc_termination := Terminating\<rparr>)"
    by (auto simp: queue_books_def c3_def end_incoming_def end_datagrams_def abort_queue_inv close_queue_inv)
  moreover have "end_books (c3\<lparr>vc_termination := Terminating\<rparr>)"
    using r(3) connection_inv_parts(3) [OF c] n
    by (auto simp: end_books_def c3_def c1_def streams_only_def count_list_append simp flip: count_list_0_iff)
  moreover have "stream_books (c3\<lparr>vc_termination := Terminating\<rparr>)"
    using r(1) by (simp add: stream_books_def c3_def)
  moreover have "vc_close_info c3 = Some info" using r(3) by (simp add: c3_def c1_def streams_only_def)
  ultimately show ?thesis using e by (simp add: t connection_inv_def)
qed

lemma begin_termination_inv: "connection_inv c \<Longrightarrow> connection_inv (begin_termination info c)"
  using terminate_inv by (auto simp: begin_termination_def)

lemma begin_termination_phase:
  "connection_inv c \<Longrightarrow> vc_termination (begin_termination info c) =
     (if vc_termination c = NotTerminated then Terminating else vc_termination c)"
  using terminate_inv by (auto simp: begin_termination_def)

lemma close_abort_inv:
  "connection_inv c \<Longrightarrow> connection_inv (close_connection code message c)"
  "connection_inv c \<Longrightarrow> connection_inv (abort_connection to_text reason c)"
  by (simp_all add: close_connection_def abort_connection_def Let_def begin_termination_inv)

lemma close_abort_phase:
  assumes "connection_inv c"
  shows "vc_termination (close_connection code message c) =
      (if vc_termination c = NotTerminated then Terminating else vc_termination c)"
    "vc_termination (abort_connection to_text reason c) =
      (if vc_termination c = NotTerminated then Terminating else vc_termination c)"
  using assms by (simp_all add: close_connection_def abort_connection_def Let_def begin_termination_phase)

lemma termination_settles_inv: "connection_inv c \<Longrightarrow> connection_inv (termination_settles c)"
  by (auto simp: termination_settles_def connection_inv_def stream_books_def queue_books_def end_books_def all_ended_def)

section \<open>Opening streams and datagrams\<close>

lemma drop_stream_inv: "connection_inv c \<Longrightarrow> connection_inv (drop_stream x c)"
  by (simp add: drop_stream_def reset_tracked_inv split: queue_call.split)

lemma fold_inv: "(\<And>x c. P c \<Longrightarrow> P (f x c)) \<Longrightarrow> P c \<Longrightarrow> P (fold f xs c)"
  by (induction xs arbitrary: c) auto

lemma incoming_update_inv:
  assumes "connection_inv c" "value_inv q" "vc_termination c \<noteq> NotTerminated \<longrightarrow> vq_state q \<noteq> QueueOpen"
  shows "connection_inv (c\<lparr>vc_incoming := (vc_incoming c)(ep := (vc_incoming c ep)(kind := q))\<rparr>)"
  using assms by (auto simp: connection_inv_def stream_books_def queue_books_def end_books_def all_ended_def)

lemma received_update_inv:
  assumes "connection_inv c" "value_inv q" "vc_termination c \<noteq> NotTerminated \<longrightarrow> vq_state q \<noteq> QueueOpen"
  shows "connection_inv (c\<lparr>vc_received := (vc_received c)(ep := q)\<rparr>)"
  using assms by (auto simp: connection_inv_def stream_books_def queue_books_def end_books_def all_ended_def)

lemma assert_connected_Inr: "assert_connected c = Inr u \<longleftrightarrow> vc_state c = CONNECTED"
  by (simp add: assert_connected_def)

lemma accept_stream_inv: "connection_inv c \<Longrightarrow> connection_inv (fst (accept_stream ep kind k c))"
proof -
  assume c: "connection_inv c"
  obtain q' result where p: "push_value k (vc_incoming c ep kind) = (q', result)" by fastforce
  have "value_inv (vc_incoming c ep kind)" using connection_inv_parts(2) [OF c] by (simp add: queue_books_def)
  from push_value_inv [OF this, of k] p have q: "value_inv q'" by simp
  show ?thesis
  proof (cases "vc_state c = CONNECTED")
    case True
    with c q have "connection_inv (c\<lparr>vc_incoming := (vc_incoming c)(ep := (vc_incoming c ep)(kind := q'))\<rparr>)"
      by (intro incoming_update_inv) (simp_all add: connected_iff)
    from fold_inv [where P = connection_inv, OF drop_stream_inv this] True p show ?thesis
      by (simp add: accept_stream_def assert_connected_def guardE_def Let_def)
  next
    case False
    with c show ?thesis by (simp add: accept_stream_def assert_connected_def guardE_def)
  qed
qed

lemma start_stream_inv:
  assumes c: "connection_inv c" and t: "pair_inv t" "\<not> sp_notified t" and o': "vc_state c = CONNECTED"
  shows "connection_inv (start_stream t c)"
proof -
  have b: "stream_books c" by (rule connection_inv_parts [OF c])
  have new: "length (vc_pairs c) \<notin> set (vc_streams c)" using b by (simp add: stream_books_def)
  have "{k. k < length (vc_pairs c @ [t]) \<and> \<not> sp_notified ((vc_pairs c @ [t]) ! k)} =
      insert (length (vc_pairs c)) {k. k < length (vc_pairs c) \<and> \<not> sp_notified (vc_pairs c ! k)}"
    using t(2) by (auto simp: nth_append less_Suc_eq)
  with b t new have "stream_books (start_stream t c)"
    by (simp add: stream_books_def start_stream_def) (simp add: js_add_def)
  moreover have "vc_termination c = NotTerminated" using c o' by (simp add: connected_iff)
  ultimately show ?thesis
    using c by (simp add: connection_inv_def start_stream_def queue_books_def end_books_def)
qed

lemma create_mock_stream_inv: "connection_inv c \<Longrightarrow> connection_inv (fst (create_stream owner bidirectional c))"
proof -
  assume c: "connection_inv c"
  show ?thesis
  proof (cases "vc_state c = CONNECTED")
    case True
    define c0 where "c0 = c\<lparr>vc_next_stream := Suc (vc_next_stream c)\<rparr>"
    have c0: "connection_inv c0" "vc_state c0 = CONNECTED"
      using c True by (simp_all add: c0_def connection_inv_def stream_books_def queue_books_def end_books_def all_ended_def)
    show ?thesis
    proof (cases "create_stream_pair (vc_next_stream c) (owner = Server) bidirectional (Given (vc_stream_queue c))
        (Given (vc_stream_chunk c))")
      case (Inl e)
      with c0 True show ?thesis
        by (simp add: create_stream_def assert_connected_def guardE_def Let_def c0_def [symmetric])
    next
      case (Inr t)
      from create_stream_pair_inv [OF this] c0 have "connection_inv (start_stream t c0)" by (simp add: start_stream_inv)
      from accept_stream_inv [OF this, of "peer_of owner" bidirectional "length (vc_pairs c)"] Inr True show ?thesis
        by (auto simp: create_stream_def assert_connected_def guardE_def Let_def c0_def [symmetric] reset_tracked_inv
            split: prod.split sum.split)
    qed
  next
    case False
    with c show ?thesis by (simp add: create_stream_def assert_connected_def guardE_def)
  qed
qed

lemma plain_hook_inv:
  assumes "connection_inv c" "h \<notin> {StreamOpened, StreamClosed, DatagramDropped, SessionEnded}"
  shows "connection_inv (vc_hook h c)"
proof -
  have "count_list (vc_hooks c @ [h]) x = count_list (vc_hooks c) x"
    if "x \<in> {StreamOpened, StreamClosed, DatagramDropped, SessionEnded}" for x
    using assms(2) that by auto
  moreover have "balanced (vc_hooks c)"
    "count_list (vc_hooks c) StreamClosed \<le> count_list (vc_hooks c) StreamOpened"
    using connection_inv_parts(1) [OF assms(1)] by (auto simp: stream_books_def)
  ultimately show ?thesis
    using assms(1) by (simp add: connection_inv_def stream_books_def queue_books_def end_books_def all_ended_def)
qed

lemma dropped_hook_inv:
  assumes "connection_inv c"
    and "Suc (count_list (vc_hooks c) DatagramDropped) \<le> length (filter (\<lambda>h. \<exists>n. h = DatagramReceived n) (vc_hooks c))"
  shows "connection_inv (vc_hook DatagramDropped c)"
  using assms by (simp add: connection_inv_def stream_books_def queue_books_def end_books_def all_ended_def)

lemma deliver_inv:
  assumes c: "connection_inv c"
  shows "connection_inv (fst (deliver to_text target datagram c))"
proof (cases "vc_state c = CONNECTED")
  case True
  define h where "h = (case target of Client \<Rightarrow> DatagramSent | Server \<Rightarrow> DatagramReceived) (length datagram)"
  define q where "q = vc_received c target"
  define calls where "calls = drop (length (vq_calls q)) (vq_calls (fst (push_value datagram q)))"
  define c2 where "c2 = (vc_hook h c)\<lparr>vc_received := (vc_received c)(target := fst (push_value datagram q))\<rparr>"
  have d: "fst (deliver to_text target datagram c) = fold (datagram_call to_text target) calls c2"
    using True by (simp add: deliver_def assert_connected_def guardE_def Let_def h_def [symmetric] q_def [symmetric]
        calls_def c2_def split: prod.split)
  have n: "vc_termination c = NotTerminated" using c True by (simp add: connected_iff)
  have "value_inv q" using connection_inv_parts(2) [OF c] by (simp add: queue_books_def q_def)
  then have q': "value_inv (fst (push_value datagram q))" by (rule push_value_inv)
  have h': "h = DatagramSent (length datagram) \<and> target = Client \<or> h = DatagramReceived (length datagram) \<and> target = Server"
    by (cases target) (simp_all add: h_def)
  then have "h \<notin> {StreamOpened, StreamClosed, DatagramDropped, SessionEnded}" by auto
  from received_update_inv [OF plain_hook_inv [OF c this] q'] n have c2: "connection_inv c2"
    by (simp add: c2_def)
  have "connection_inv (vc_hook DatagramDropped c2)" if "target = Server"
    using h' that connection_inv_parts(2) [OF c]
    by (intro dropped_hook_inv [OF c2]) (auto simp: c2_def queue_books_def)
  with c2 have dropped: "connection_inv (datagram_call to_text target (OnDrop x) c2)" for x
    by (simp add: datagram_call_def)
  have "datagram_call to_text target (OnCloseSession e) s = abort_connection to_text (Some e) s" for e s
    by (simp add: datagram_call_def)
  with c2 dropped push_calls [of q datagram] show ?thesis
    by (auto simp: d calls_def [symmetric] close_abort_inv)
next
  case False
  with c show ?thesis by (simp add: deliver_def assert_connected_def guardE_def)
qed

lemma errored_update_inv:
  "connection_inv c \<Longrightarrow> (vc_errored c ep = None \<longrightarrow> e \<noteq> None) \<Longrightarrow>
   connection_inv (c\<lparr>vc_errored := (vc_errored c)(ep := (case vc_errored c ep of None \<Rightarrow> e | x \<Rightarrow> x))\<rparr>)"
  by (auto simp: connection_inv_def stream_books_def queue_books_def end_books_def all_ended_def split: option.split)

lemma write_datagram_inv: "connection_inv c \<Longrightarrow> connection_inv (fst (write_datagram to_text ep datagram c))"
proof -
  assume c: "connection_inv c"
  obtain c1 r where s: "sink_datagram to_text ep datagram c = (c1, r)" by fastforce
  have "connection_inv (fst (sink_datagram to_text ep datagram c))"
    using c by (simp add: sink_datagram_def deliver_inv split: option.split)
  with s have "connection_inv c1" by simp
  with c s show ?thesis
    by (simp add: write_datagram_def errored_update_inv split: option.split sum.split)
qed

section \<open>Every step\<close>

lemma byte_hooks_inv:
  "connection_inv c \<Longrightarrow> \<forall>h \<in> set hs. \<exists>n. h = BytesSent n \<or> h = BytesReceived n \<Longrightarrow> connection_inv (fold vc_hook hs c)"
proof (induction hs arbitrary: c)
  case (Cons h hs)
  then have "h \<notin> {StreamOpened, StreamClosed, DatagramDropped, SessionEnded}" by auto
  then have "connection_inv (vc_hook h c)" by (rule plain_hook_inv [OF Cons.prems(1)])
  with Cons show ?case by simp
qed simp

lemma pair_event_inv: "connection_inv c \<Longrightarrow> connection_inv (pair_event k i e c)"
proof -
  assume c: "connection_inv c"
  have "connection_inv (fold vc_hook (map (record_stream_bytes w) ns) (on_stream k (on_pipe i e) c))" for w ns
    using c by (intro byte_hooks_inv on_stream_inv) (auto simp: record_stream_bytes_def)
  with c show ?thesis by (simp add: pair_event_def Let_def)
qed

lemma connection_step_inv: "connection_inv c \<Longrightarrow> connection_inv (connection_step to_text e c)"
proof -
  assume c: "connection_inv c"
  have q: "value_inv (vc_received c ep)" "value_inv (vc_incoming c ep kind)" for ep kind
    using connection_inv_parts(2) [OF c] by (simp_all add: queue_books_def)
  have o': "vq_state (vc_received c ep) \<noteq> QueueOpen" "vq_state (vc_incoming c ep kind) \<noteq> QueueOpen"
    if "vc_termination c \<noteq> NotTerminated" for ep kind
    using connection_inv_parts(4) [OF c that] by (simp_all add: all_ended_def)
  show ?thesis
    using c q o' by (cases e) (simp_all add: create_mock_stream_inv pair_event_inv reset_tracked_inv write_datagram_inv
        close_abort_inv termination_settles_inv received_update_inv incoming_update_inv consumer_step_inv consumer_ended
        del: consumer_step.simps)
qed

interpretation connection_life: event_system "connection_step to_text" connection_inv for to_text
  by unfold_locales (rule connection_step_inv)

lemma new_connection_inv: "new_connection n options = Inr c \<Longrightarrow> connection_inv c \<and> vc_hooks c = []"
proof -
  assume n: "new_connection n options = Inr c"
  then obtain q r where q: "new_value_queue (or_default (po_datagram_queue options) (Finite 64))
        (or_default (po_overflow options) DropOldest) = Inr q"
      "new_value_queue (or_default (po_incoming_queue options) (Finite 16)) Reject = Inr r"
      "vc_received c = (\<lambda>ep. q)" "vc_incoming c = (\<lambda>ep kind. r)"
    by (auto simp: new_connection_def bindE_Inr_iff split: if_splits)
  have "value_inv q" "value_inv r" using q(1,2) by (simp_all add: new_value_queue_inv)
  with n q(3,4) show ?thesis
    by (auto simp: new_connection_def bindE_Inr_iff connection_inv_def stream_books_def queue_books_def end_books_def
        balanced_def split: if_splits)
qed

section \<open>Progress\<close>

text \<open>The hooks only ever add to the log, and a session that has begun to end does not begin again.\<close>

definition conn_grows :: "connection \<Rightarrow> connection \<Rightarrow> bool" where
  "conn_grows c c' \<longleftrightarrow>
     prefix (vc_hooks c) (vc_hooks c') \<and> (vc_termination c \<noteq> NotTerminated \<longrightarrow> vc_termination c' \<noteq> NotTerminated)"

lemma conn_grows_refl [simp]: "conn_grows c c"
  by (simp add: conn_grows_def)

lemma conn_grows_trans: "conn_grows a b \<Longrightarrow> conn_grows b c \<Longrightarrow> conn_grows a c"
  by (auto simp: conn_grows_def dest: prefix_order.trans)

lemma conn_grows_fold: "(\<And>x c. conn_grows c (f x c)) \<Longrightarrow> conn_grows a c \<Longrightarrow> conn_grows a (fold f xs c)"
proof (induction xs arbitrary: c)
  case (Cons x xs)
  from conn_grows_trans [OF Cons.prems(2,1)] Cons.prems(1) show ?case by (simp add: Cons.IH)
qed simp

lemma conn_grows_hook [simp]: "conn_grows c (vc_hook h c)"
  by (simp add: conn_grows_def)

lemma conn_grows_on_stream [simp]: "conn_grows c (on_stream k f c)" "conn_grows c (reset_tracked code cause k c)"
proof -
  show g: "conn_grows c (on_stream k f c)" for f
  proof -
    obtain hs where "vc_hooks (on_stream k f c) = vc_hooks c @ hs" using on_stream_frame(11) [of k f c] by blast
    then show ?thesis by (simp add: conn_grows_def)
  qed
  show "conn_grows c (reset_tracked code cause k c)" by (simp add: reset_tracked_def g)
qed

lemma conn_grows_begin_termination: "conn_grows c (begin_termination info c)"
proof -
  have "conn_grows (c\<lparr>vc_state := CLOSING, vc_close_info := Some info, vc_signal := Some r\<rparr>)
      (fold (reset_tracked code cause) ks (c\<lparr>vc_state := CLOSING, vc_close_info := Some info, vc_signal := Some r\<rparr>))"
    for r code cause ks
    by (rule conn_grows_fold) simp_all
  then show ?thesis
    by (auto simp: begin_termination_def terminate_def conn_grows_def Let_def)
qed

lemma conn_grows_close_abort [simp]:
  "conn_grows c (close_connection code message c)" "conn_grows c (abort_connection to_text reason c)"
  by (simp_all add: close_connection_def abort_connection_def Let_def conn_grows_begin_termination)

lemma conn_grows_updates [simp]:
  "conn_grows c (c'\<lparr>vc_incoming := x\<rparr>) = conn_grows c c'" "conn_grows c (c'\<lparr>vc_received := y\<rparr>) = conn_grows c c'"
  "conn_grows c (c'\<lparr>vc_errored := z\<rparr>) = conn_grows c c'"
  by (simp_all add: conn_grows_def)

lemma conn_grows_accept: "conn_grows c (fst (accept_stream ep kind k c))"
proof -
  have "conn_grows c (fold drop_stream xs (c\<lparr>vc_incoming := x\<rparr>))" for xs x
    by (rule conn_grows_fold) (simp_all add: drop_stream_def split: queue_call.split)
  then show ?thesis
    by (simp add: accept_stream_def Let_def split: sum.split prod.split)
qed

lemma conn_grows_create: "conn_grows c (fst (create_stream owner bidirectional c))"
proof -
  have s: "conn_grows c (start_stream t (c\<lparr>vc_next_stream := n\<rparr>))" for t n
    by (simp add: conn_grows_def start_stream_def)
  have g: "conn_grows c c1" if "accept_stream ep kind k (start_stream t (c\<lparr>vc_next_stream := n\<rparr>)) = (c1, r)" for ep kind k t n c1 r
    using conn_grows_trans [OF s [of t n] conn_grows_accept [of _ ep kind k]] that by simp
  moreover have "conn_grows c (reset_tracked code cause k c1)" if "conn_grows c c1" for code cause k c1
    using that by (rule conn_grows_trans) simp
  ultimately show ?thesis
    by (auto simp: create_stream_def Let_def conn_grows_def [of c "_\<lparr>vc_next_stream := _\<rparr>"] split: sum.split prod.split)
qed

lemma conn_grows_deliver: "conn_grows c (fst (deliver to_text target datagram c))"
proof -
  have "conn_grows c (fold (datagram_call to_text target) xs ((vc_hook h c)\<lparr>vc_received := x\<rparr>))" for xs h x
    by (rule conn_grows_fold) (simp_all add: datagram_call_def split: queue_call.split)
  then show ?thesis
    by (simp add: deliver_def Let_def split: sum.split prod.split)
qed

lemma conn_grows_write: "conn_grows c (fst (write_datagram to_text ep datagram c))"
proof -
  have "conn_grows c (fst (sink_datagram to_text ep datagram c))"
    by (auto simp: sink_datagram_def conn_grows_deliver split: option.split)
  then show ?thesis
    by (auto simp: write_datagram_def split: option.split sum.split prod.split)
qed

lemma conn_grows_step: "conn_grows c (connection_step to_text e c)"
proof (cases e)
  case (OnStream k i x)
  have "conn_grows c (fold vc_hook hs (on_stream k g c))" for hs g
    by (rule conn_grows_fold) simp_all
  with OnStream show ?thesis by (simp add: pair_event_def Let_def)
next
  case TerminationSettles
  then show ?thesis by (simp add: termination_settles_def conn_grows_def)
qed (simp_all add: conn_grows_create conn_grows_write)

definition forward :: "(connection \<Rightarrow> connection) \<Rightarrow> bool" where
  "forward f \<longleftrightarrow> (\<forall>c. connection_inv c \<longrightarrow> connection_inv (f c) \<and> conn_grows c (f c))"

lemma forward_ops [simp]:
  "forward (connection_step to_text e)" "forward (close_connection code message)" "forward (abort_connection to_text reason)"
  by (simp_all add: forward_def connection_step_inv conn_grows_step close_abort_inv)

end
