(* ===== verification/Testing_Driver.thy ===== *)
theory Testing_Driver
  imports Testing_Sessions Lifecycle
begin

text \<open>
  The in-memory driver of the testing package, \<open>packages/testing/src/virtual-driver.ts\<close>, and its client,
  \<open>test-client.ts\<close>. A session is named by its place in \<open>vd_connections\<close>; \<open>vd_table\<close> is the map of live
  sessions. A connect is cut at its waits for the session callbacks (\<open>vd_connects\<close>), a stop at its wait
  for the terminations (\<open>vd_stops\<close>, the sessions each stop waits for). Stops that overlap wait for the
  same terminations, so the platform runs their ends one right after the other: \<open>StopsSettle\<close>.
\<close>

section \<open>State\<close>

record virtual_options =
  vo_max_sessions :: "js_number option"
  vo_incoming_queue :: "js_number option"
  vo_stream_queue :: "js_number option"
  vo_stream_chunk :: "js_number option"
  vo_datagram_queue :: "js_number option"
  vo_max_datagram :: "js_number option"
  vo_overflow :: "overflow_policy option"
  vo_remote :: "string option"
  vo_first_port :: "nat option"

record virtual_stats =
  vs_sessions_active :: nat
  vs_sessions_total :: nat
  vs_sessions_rejected :: nat
  vs_streams_active :: nat
  vs_streams_total :: nat
  vs_datagrams_received :: nat
  vs_datagrams_sent :: nat
  vs_datagrams_dropped :: nat
  vs_bytes_received :: nat
  vs_bytes_sent :: nat

text \<open>The signal of a start or a stop: none, one that is not aborted, or one with its reason.\<close>

datatype stop_signal = NoSignal | LiveSignal | AbortedSignal thrown

datatype connect_phase = CallingBack "nat list" | AbortingConnect thrown | ConnectDone "thrown option"

record virtual_driver =
  vd_max_sessions :: nat
  vd_pair_options :: pair_options
  vd_first_port :: nat
  vd_callbacks :: "nat list"
  vd_subscriptions :: "(nat \<times> bool) list"
  vd_connections :: "connection list"
  vd_table :: "nat list"
  vd_ended :: "nat list"
  vd_connects :: "connect_phase list"
  vd_stats :: virtual_stats
  vd_state :: server_state
  vd_server_options :: "stop_signal option"
  vd_next_session :: nat
  vd_listening :: bool
  vd_stops :: "nat list list"

text \<open>The constructor: defaults, then the assertion on each limit in the order of the object's entries.\<close>

definition new_virtual_driver :: "virtual_options \<Rightarrow> thrown + virtual_driver" where
  "new_virtual_driver options =
     bindE (positive_integer (or_default (vo_max_sessions options) (Finite 1024)) ''maxSessions'') (\<lambda>sessions.
     bindE (positive_integer (or_default (vo_incoming_queue options) (Finite 16)) ''incomingStreamQueueSize'') (\<lambda>incoming.
     bindE (positive_integer (or_default (vo_stream_queue options) (Finite 16)) ''streamQueueSize'') (\<lambda>queue.
     bindE (positive_integer (or_default (vo_stream_chunk options) (Finite 65536)) ''streamMaxChunkSize'') (\<lambda>chunk.
     bindE (positive_integer (or_default (vo_datagram_queue options) (Finite 64)) ''datagramQueueSize'') (\<lambda>datagrams.
     bindE (positive_integer (or_default (vo_max_datagram options) (Finite 1200)) ''maxDatagramSize'') (\<lambda>datagram.
       Inr \<lparr>vd_max_sessions = sessions,
            vd_pair_options =
              \<lparr>po_id = None, po_path = [], po_remote = Some (or_default (vo_remote options) ''127.0.0.1''),
               po_port = None, po_incoming_queue = Some (js_int (int incoming)),
               po_stream_queue = Some (js_int (int queue)), po_stream_chunk = Some (js_int (int chunk)),
               po_datagram_queue = Some (js_int (int datagrams)), po_max_datagram = Some datagram,
               po_overflow = Some (or_default (vo_overflow options) DropOldest)\<rparr>,
            vd_first_port = or_default (vo_first_port options) 40000,
            vd_callbacks = [], vd_subscriptions = [], vd_connections = [], vd_table = [], vd_ended = [], vd_connects = [],
            vd_stats = \<lparr>vs_sessions_active = 0, vs_sessions_total = 0, vs_sessions_rejected = 0,
                        vs_streams_active = 0, vs_streams_total = 0, vs_datagrams_received = 0,
                        vs_datagrams_sent = 0, vs_datagrams_dropped = 0, vs_bytes_received = 0, vs_bytes_sent = 0\<rparr>,
            vd_state = STOPPED, vd_server_options = None, vd_next_session = 1, vd_listening = False,
            vd_stops = []\<rparr>))))))"

section \<open>The hooks of a session\<close>

definition count_hook :: "stats_hook \<Rightarrow> virtual_stats \<Rightarrow> virtual_stats" where
  "count_hook h x =
     (case h of
        StreamOpened \<Rightarrow> x\<lparr>vs_streams_active := vs_streams_active x + 1, vs_streams_total := vs_streams_total x + 1\<rparr>
      | StreamClosed \<Rightarrow> x\<lparr>vs_streams_active := vs_streams_active x - 1\<rparr>
      | DatagramSent n \<Rightarrow> x\<lparr>vs_datagrams_sent := vs_datagrams_sent x + 1, vs_bytes_sent := vs_bytes_sent x + n\<rparr>
      | DatagramReceived n \<Rightarrow>
          x\<lparr>vs_datagrams_received := vs_datagrams_received x + 1, vs_bytes_received := vs_bytes_received x + n\<rparr>
      | DatagramDropped \<Rightarrow> x\<lparr>vs_datagrams_dropped := vs_datagrams_dropped x + 1\<rparr>
      | BytesSent n \<Rightarrow> x\<lparr>vs_bytes_sent := vs_bytes_sent x + n\<rparr>
      | BytesReceived n \<Rightarrow> x\<lparr>vs_bytes_received := vs_bytes_received x + n\<rparr>
      | SessionEnded \<Rightarrow> x)"

text \<open>\<open>onClosed\<close> runs once for each session: the flag of its closure is \<open>vd_ended\<close>.\<close>

definition session_ended :: "nat \<Rightarrow> virtual_driver \<Rightarrow> virtual_driver" where
  "session_ended i d =
     (if i \<in> set (vd_ended d) then d
      else d\<lparr>vd_ended := i # vd_ended d, vd_table := js_delete i (vd_table d),
             vd_stats := (vd_stats d)\<lparr>vs_sessions_active := vs_sessions_active (vd_stats d) - 1\<rparr>\<rparr>)"

definition apply_hook :: "nat \<Rightarrow> stats_hook \<Rightarrow> virtual_driver \<Rightarrow> virtual_driver" where
  "apply_hook i h d = (if h = SessionEnded then session_ended i d else d\<lparr>vd_stats := count_hook h (vd_stats d)\<rparr>)"

text \<open>An operation of a session, with the hooks it calls.\<close>

definition on_connection :: "nat \<Rightarrow> (connection \<Rightarrow> connection) \<Rightarrow> virtual_driver \<Rightarrow> virtual_driver" where
  "on_connection i f d =
     (if i \<ge> length (vd_connections d) then d
      else
        (let c = vd_connections d ! i; c' = f c
         in fold (apply_hook i) (drop (length (vc_hooks c)) (vc_hooks c'))
              (d\<lparr>vd_connections := (vd_connections d)[i := c']\<rparr>)))"

section \<open>Start and stop\<close>

definition already_started :: thrown where
  "already_started =
     new_error WebTransportDriverError ''The virtual driver is already started''
       \<lparr>opt_code = ''TEST_DRIVER_ALREADY_STARTED'', opt_recoverable = Some True, opt_scope = Some SERVER, opt_cause = None\<rparr>"

definition stopped_immediately :: thrown where
  "stopped_immediately =
     new_error WebTransportDriverError ''The virtual driver stopped immediately''
       \<lparr>opt_code = ''TEST_DRIVER_STOPPED'', opt_recoverable = Some True, opt_scope = Some SERVER, opt_cause = None\<rparr>"

definition start_virtual :: "stop_signal \<Rightarrow> virtual_driver \<Rightarrow> virtual_driver \<times> (thrown + unit)" where
  "start_virtual signal d =
     (if vd_state d \<noteq> STOPPED then (d, Inl already_started)
      else case signal of
        AbortedSignal e \<Rightarrow> (d, Inl e)
      | _ \<Rightarrow>
          (let d1 = d\<lparr>vd_state := STARTING, vd_server_options := Some signal\<rparr>;
               d2 = (if signal = LiveSignal then d1\<lparr>vd_listening := True\<rparr> else d1)
           in (d2\<lparr>vd_state := RUNNING\<rparr>, Inr ())))"

definition stop_virtual :: "(thrown \<Rightarrow> string) \<Rightarrow> bool option \<Rightarrow> stop_signal \<Rightarrow> virtual_driver \<Rightarrow> virtual_driver" where
  "stop_virtual to_text graceful signal d =
     (if vd_state d = STOPPED then d
      else
        (let g = or_default graceful True;
             d1 = d\<lparr>vd_state := (if g then DRAINING else STOPPING)\<rparr>;
             sessions = vd_table d1;
             aborted = (case signal of AbortedSignal _ \<Rightarrow> True | _ \<Rightarrow> False);
             f = (if g \<and> \<not> aborted then close_connection None None
                  else abort_connection to_text
                         (Some (case signal of AbortedSignal e \<Rightarrow> e | _ \<Rightarrow> stopped_immediately)))
         in (fold (\<lambda>i. on_connection i f) sessions d1)\<lparr>vd_stops := vd_stops d1 @ [sessions]\<rparr>))"

definition stops_settle :: "virtual_driver \<Rightarrow> virtual_driver" where
  "stops_settle d =
     (if vd_stops d \<noteq> [] \<and>
         (\<forall>i \<in> set (concat (vd_stops d)). vc_termination (vd_connections d ! i) = Terminated)
      then d\<lparr>vd_stops := [], vd_listening := False, vd_server_options := None, vd_state := STOPPED\<rparr>
      else d)"

text \<open>The listener of the signal that \<open>start\<close> was given; it is called once.\<close>

definition start_signal_aborts :: "(thrown \<Rightarrow> string) \<Rightarrow> virtual_driver \<Rightarrow> virtual_driver" where
  "start_signal_aborts to_text d =
     (if vd_listening d then stop_virtual to_text (Some False) NoSignal (d\<lparr>vd_listening := False\<rparr>) else d)"

section \<open>Callbacks and sessions\<close>

definition on_session :: "nat \<Rightarrow> virtual_driver \<Rightarrow> virtual_driver" where
  "on_session callback d =
     d\<lparr>vd_callbacks := js_add callback (vd_callbacks d), vd_subscriptions := vd_subscriptions d @ [(callback, True)]\<rparr>"

definition unsubscribe_virtual :: "nat \<Rightarrow> virtual_driver \<Rightarrow> virtual_driver" where
  "unsubscribe_virtual j d =
     (if j \<ge> length (vd_subscriptions d) \<or> \<not> snd (vd_subscriptions d ! j) then d
      else d\<lparr>vd_subscriptions := (vd_subscriptions d)[j := (fst (vd_subscriptions d ! j), False)],
             vd_callbacks := js_delete (fst (vd_subscriptions d ! j)) (vd_callbacks d)\<rparr>)"

definition reject_session :: "virtual_driver \<Rightarrow> virtual_driver" where
  "reject_session d = d\<lparr>vd_stats := (vd_stats d)\<lparr>vs_sessions_rejected := vs_sessions_rejected (vd_stats d) + 1\<rparr>\<rparr>"

definition not_ready :: thrown where
  "not_ready =
     new_error SessionRejectedError ''The virtual driver is not accepting sessions''
       \<lparr>opt_code = ''TEST_DRIVER_NOT_READY'', opt_recoverable = Some True, opt_scope = Some SESSION, opt_cause = None\<rparr>"

definition session_limit :: thrown where
  "session_limit =
     new_error WebTransportResourceLimitError ''The virtual session limit was reached''
       \<lparr>opt_code = ''TEST_SESSION_LIMIT'', opt_recoverable = Some True, opt_scope = Some SESSION, opt_cause = None\<rparr>"

definition callback_rejected :: "thrown \<Rightarrow> thrown" where
  "callback_rejected cause =
     new_error SessionRejectedError ''A virtual session callback rejected the connection''
       \<lparr>opt_code = ''TEST_SESSION_CALLBACK_REJECTED'', opt_recoverable = Some True, opt_scope = Some SESSION,
        opt_cause = Some cause\<rparr>"

definition calling_back :: "nat list \<Rightarrow> connect_phase" where
  "calling_back callbacks = (if callbacks = [] then ConnectDone None else CallingBack callbacks)"

definition session_options :: "string \<Rightarrow> virtual_driver \<Rightarrow> pair_options" where
  "session_options path d =
     (vd_pair_options d)
       \<lparr>po_id := Some (''virtual-session-'' @ show_nat (vd_next_session d)), po_path := path,
        po_port := Some (vd_first_port d + vd_next_session d - 1)\<rparr>"

text \<open>\<open>connect\<close> up to its first wait; the result is the place of the session.\<close>

definition connect_virtual :: "string \<Rightarrow> virtual_driver \<Rightarrow> virtual_driver \<times> (thrown + nat)" where
  "connect_virtual path d =
     (if vd_state d \<noteq> RUNNING then (reject_session d, Inl not_ready)
      else if length (vd_table d) \<ge> vd_max_sessions d then (reject_session d, Inl session_limit)
      else
        (let d1 = d\<lparr>vd_next_session := vd_next_session d + 1\<rparr>
         in case new_connection 0 (session_options path d) of
              Inl e \<Rightarrow> (d1, Inl e)
            | Inr c \<Rightarrow>
                (let i = length (vd_connections d1)
                 in (d1\<lparr>vd_connections := vd_connections d1 @ [c], vd_table := js_add i (vd_table d1),
                        vd_connects := vd_connects d1 @ [calling_back (vd_callbacks d1)],
                        vd_stats := (vd_stats d1)\<lparr>vs_sessions_active := vs_sessions_active (vd_stats d1) + 1,
                                      vs_sessions_total := vs_sessions_total (vd_stats d1) + 1\<rparr>\<rparr>, Inr i))))"

text \<open>A callback settles: the next one is called, or the connection is rejected.\<close>

definition callback_settles :: "(thrown \<Rightarrow> string) \<Rightarrow> nat \<Rightarrow> thrown option \<Rightarrow> virtual_driver \<Rightarrow> virtual_driver" where
  "callback_settles to_text i failure d =
     (if i \<ge> length (vd_connects d) then d
      else case vd_connects d ! i of
        CallingBack (callback # rest) \<Rightarrow>
          (case failure of
             None \<Rightarrow> d\<lparr>vd_connects := (vd_connects d)[i := calling_back rest]\<rparr>
           | Some cause \<Rightarrow>
               on_connection i (abort_connection to_text (Some cause))
                 (reject_session (d\<lparr>vd_connects := (vd_connects d)[i := AbortingConnect cause]\<rparr>)))
      | _ \<Rightarrow> d)"

definition connect_settles :: "nat \<Rightarrow> virtual_driver \<Rightarrow> virtual_driver" where
  "connect_settles i d =
     (if i \<ge> length (vd_connects d) then d
      else case vd_connects d ! i of
        AbortingConnect cause \<Rightarrow>
          if vc_termination (vd_connections d ! i) = Terminated
          then d\<lparr>vd_connects := (vd_connects d)[i := ConnectDone (Some (callback_rejected cause))]\<rparr> else d
      | _ \<Rightarrow> d)"

datatype virtual_event =
  StartVirtual stop_signal | StopVirtual "bool option" stop_signal | StopsSettle | StartSignalAborts
  | OnSession nat | Unsubscribe nat | Connect string | CallbackSettles nat "thrown option" | ConnectSettles nat
  | OnConnection nat connection_event

fun virtual_step :: "(thrown \<Rightarrow> string) \<Rightarrow> virtual_event \<Rightarrow> virtual_driver \<Rightarrow> virtual_driver" where
  "virtual_step to_text (StartVirtual signal) d = fst (start_virtual signal d)"
| "virtual_step to_text (StopVirtual graceful signal) d = stop_virtual to_text graceful signal d"
| "virtual_step to_text StopsSettle d = stops_settle d"
| "virtual_step to_text StartSignalAborts d = start_signal_aborts to_text d"
| "virtual_step to_text (OnSession callback) d = on_session callback d"
| "virtual_step to_text (Unsubscribe j) d = unsubscribe_virtual j d"
| "virtual_step to_text (Connect path) d = fst (connect_virtual path d)"
| "virtual_step to_text (CallbackSettles i failure) d = callback_settles to_text i failure d"
| "virtual_step to_text (ConnectSettles i) d = connect_settles i d"
| "virtual_step to_text (OnConnection i e) d = on_connection i (connection_step to_text e) d"

section \<open>The client\<close>

text \<open>
  \<open>TestClientSession\<close>: what each call asks of the session of the client, up to its wait. A receive
  releases its lock when the read has settled.
\<close>

datatype client_call =
  SendDatagram "nat list" | GetDatagram | OpenStream bool | GetStream bool
  | CloseClient "nat option" "string option" | AbortClient "thrown option"

fun client_event :: "client_call \<Rightarrow> connection_event" where
  "client_event (SendDatagram datagram) = WriteDatagram Client (Some datagram)"
| "client_event GetDatagram = ReceiveDatagram Client ReadNext"
| "client_event (OpenStream bidirectional) = CreateStream Client bidirectional"
| "client_event (GetStream bidirectional) = ReceiveStream Client bidirectional ReadNext"
| "client_event (CloseClient code reason) = CloseConnection code reason"
| "client_event (AbortClient reason) = AbortConnection reason"

end
