(* ===== verification/Testing_Driver_Safety.thy ===== *)
theory Testing_Driver_Safety
  imports Testing_Driver
begin

text \<open>
  The counters of the in-memory driver are exact: a test that reads them sees the sessions and streams
  that there are. The counters of the streams and the datagrams are functions of the hooks the sessions
  have called, the counter of the sessions is the size of the table, and a stopped driver has nothing
  left. A stop always completes once its sessions have ended.
\<close>

section \<open>What the hooks count\<close>

definition opened :: "stats_hook list \<Rightarrow> nat" where
  "opened hs = count_list hs StreamOpened"

definition ended :: "stats_hook list \<Rightarrow> nat" where
  "ended hs = count_list hs StreamClosed"

definition arrived :: "stats_hook list \<Rightarrow> nat" where
  "arrived hs = length (filter (\<lambda>h. \<exists>n. h = DatagramReceived n) hs)"

definition bytes_out :: "stats_hook list \<Rightarrow> nat" where
  "bytes_out hs = sum_list (map (\<lambda>h. case h of BytesSent n \<Rightarrow> n | DatagramSent n \<Rightarrow> n | _ \<Rightarrow> 0) hs)"

definition bytes_in :: "stats_hook list \<Rightarrow> nat" where
  "bytes_in hs = sum_list (map (\<lambda>h. case h of BytesReceived n \<Rightarrow> n | DatagramReceived n \<Rightarrow> n | _ \<Rightarrow> 0) hs)"

lemma hook_sums [simp]:
  "opened [] = 0" "ended [] = 0" "arrived [] = 0" "bytes_out [] = 0" "bytes_in [] = 0"
  "opened (xs @ ys) = opened xs + opened ys" "ended (xs @ ys) = ended xs + ended ys"
  "arrived (xs @ ys) = arrived xs + arrived ys" "bytes_out (xs @ ys) = bytes_out xs + bytes_out ys"
  "bytes_in (xs @ ys) = bytes_in xs + bytes_in ys"
  by (simp_all add: opened_def ended_def arrived_def bytes_out_def bytes_in_def count_list_append)

lemma apply_hooks_frame [simp]:
  "vd_connections (fold (apply_hook i) hs d) = vd_connections d" "vd_state (fold (apply_hook i) hs d) = vd_state d"
  "vd_stops (fold (apply_hook i) hs d) = vd_stops d" "vd_max_sessions (fold (apply_hook i) hs d) = vd_max_sessions d"
  "vd_connects (fold (apply_hook i) hs d) = vd_connects d" "vd_listening (fold (apply_hook i) hs d) = vd_listening d"
  "vs_sessions_total (vd_stats (fold (apply_hook i) hs d)) = vs_sessions_total (vd_stats d)"
  "vs_sessions_rejected (vd_stats (fold (apply_hook i) hs d)) = vs_sessions_rejected (vd_stats d)"
  by (induction hs arbitrary: d) (simp_all add: apply_hook_def session_ended_def count_hook_def split: stats_hook.split)

lemma apply_hooks_counts:
  "vs_streams_total (vd_stats (fold (apply_hook i) hs d)) = vs_streams_total (vd_stats d) + opened hs"
  "vs_datagrams_received (vd_stats (fold (apply_hook i) hs d)) = vs_datagrams_received (vd_stats d) + arrived hs"
  "vs_bytes_sent (vd_stats (fold (apply_hook i) hs d)) = vs_bytes_sent (vd_stats d) + bytes_out hs"
  "vs_bytes_received (vd_stats (fold (apply_hook i) hs d)) = vs_bytes_received (vd_stats d) + bytes_in hs"
  "vs_datagrams_dropped (vd_stats (fold (apply_hook i) hs d)) = vs_datagrams_dropped (vd_stats d) + count_list hs DatagramDropped"
  by (induction hs arbitrary: d)
    (auto simp: apply_hook_def session_ended_def count_hook_def opened_def arrived_def bytes_out_def bytes_in_def
      split: stats_hook.split)

lemma balanced_take: "balanced (xs @ ys) \<Longrightarrow> n \<le> length ys \<Longrightarrow> ended xs + ended (take n ys) \<le> opened xs + opened (take n ys)"
proof -
  assume b: "balanced (xs @ ys)" and n: "n \<le> length ys"
  from b have "count_list (take (length xs + n) (xs @ ys)) StreamClosed \<le> count_list (take (length xs + n) (xs @ ys)) StreamOpened"
    unfolding balanced_def by blast
  with n show ?thesis by (simp add: opened_def ended_def count_list_append)
qed

text \<open>\<open>Math.max(0, \<dots>)\<close> never cuts the number of active streams off.\<close>

lemma apply_hooks_active:
  assumes "\<And>n. n \<le> length hs \<Longrightarrow> ended (take n hs) \<le> vs_streams_active (vd_stats d) + opened (take n hs)"
  shows "vs_streams_active (vd_stats (fold (apply_hook i) hs d)) + ended hs = vs_streams_active (vd_stats d) + opened hs"
  using assms
proof (induction hs arbitrary: d)
  case (Cons h hs)
  let ?d = "apply_hook i h d"
  have one: "ended [h] \<le> vs_streams_active (vd_stats d) + opened [h]" using Cons.prems [of 1] by simp
  have step: "vs_streams_active (vd_stats ?d) + ended [h] = vs_streams_active (vd_stats d) + opened [h]"
    using one by (cases h) (simp_all add: apply_hook_def session_ended_def count_hook_def opened_def ended_def)
  have "ended (take n hs) \<le> vs_streams_active (vd_stats ?d) + opened (take n hs)" if "n \<le> length hs" for n
    using Cons.prems [of "Suc n"] that step hook_sums(6,7) [of "[h]" "take n hs"] by simp
  from Cons.IH [OF this] step show ?case
    using hook_sums(6,7) [of "[h]" hs] by simp
qed simp

lemma apply_hooks_sessions:
  "let d' = fold (apply_hook i) hs d in
     if SessionEnded \<in> set hs \<and> i \<notin> set (vd_ended d)
     then vd_ended d' = i # vd_ended d \<and> vd_table d' = js_delete i (vd_table d) \<and>
       vs_sessions_active (vd_stats d') = vs_sessions_active (vd_stats d) - 1
     else vd_ended d' = vd_ended d \<and> vd_table d' = vd_table d \<and>
       vs_sessions_active (vd_stats d') = vs_sessions_active (vd_stats d)"
proof (induction hs arbitrary: d)
  case (Cons h hs)
  have "vd_ended (apply_hook i h d) = vd_ended d" "vd_table (apply_hook i h d) = vd_table d"
    "vs_sessions_active (vd_stats (apply_hook i h d)) = vs_sessions_active (vd_stats d)" if "h \<noteq> SessionEnded"
    using that by (simp_all add: apply_hook_def count_hook_def split: stats_hook.split)
  with Cons.IH [of "apply_hook i h d"] show ?case
    by (cases "h = SessionEnded") (auto simp: Let_def apply_hook_def session_ended_def)
qed simp

section \<open>The invariant\<close>

definition total_of :: "(stats_hook list \<Rightarrow> nat) \<Rightarrow> virtual_driver \<Rightarrow> nat" where
  "total_of f d = sum_list (map (\<lambda>c. f (vc_hooks c)) (vd_connections d))"

definition counts_exact :: "virtual_driver \<Rightarrow> bool" where
  "counts_exact d \<longleftrightarrow>
     vs_streams_total (vd_stats d) = total_of opened d \<and>
     vs_streams_active (vd_stats d) + total_of ended d = total_of opened d \<and>
     vs_datagrams_received (vd_stats d) = total_of arrived d \<and>
     vs_datagrams_dropped (vd_stats d) = total_of (\<lambda>hs. count_list hs DatagramDropped) d \<and>
     vs_bytes_sent (vd_stats d) = total_of bytes_out d \<and> vs_bytes_received (vd_stats d) = total_of bytes_in d"

definition table_exact :: "virtual_driver \<Rightarrow> bool" where
  "table_exact d \<longleftrightarrow>
     distinct (vd_table d) \<and>
     set (vd_table d) = {i. i < length (vd_connections d) \<and> vc_termination (vd_connections d ! i) \<noteq> Terminated} \<and>
     set (vd_ended d) = {i. i < length (vd_connections d) \<and> vc_termination (vd_connections d ! i) = Terminated} \<and>
     vs_sessions_active (vd_stats d) = length (vd_table d) \<and> length (vd_table d) \<le> vd_max_sessions d \<and>
     vs_sessions_total (vd_stats d) = length (vd_connections d)"

definition stop_phase :: "virtual_driver \<Rightarrow> bool" where
  "stop_phase d \<longleftrightarrow>
     (case vd_state d of
        STARTING \<Rightarrow> False
      | RUNNING \<Rightarrow> vd_stops d = []
      | STOPPED \<Rightarrow> vd_stops d = [] \<and> vd_table d = []
      | _ \<Rightarrow> vd_stops d \<noteq> [] \<and> set (vd_table d) \<subseteq> set (concat (vd_stops d)) \<and>
          (\<forall>i \<in> set (vd_table d). vc_termination (vd_connections d ! i) \<noteq> NotTerminated)) \<and>
     (\<forall>i \<in> set (concat (vd_stops d)). i < length (vd_connections d))"

definition virtual_inv :: "virtual_driver \<Rightarrow> bool" where
  "virtual_inv d \<longleftrightarrow>
     (\<forall>c \<in> set (vd_connections d). connection_inv c) \<and> counts_exact d \<and> table_exact d \<and> stop_phase d"

lemma total_of_update:
  "i < length (vd_connections d) \<Longrightarrow>
   total_of f (d\<lparr>vd_connections := (vd_connections d)[i := c']\<rparr>) + f (vc_hooks (vd_connections d ! i)) =
   total_of f d + f (vc_hooks c')"
  using sum_list_update_nat [of i "map (\<lambda>c. f (vc_hooks c)) (vd_connections d)" "f (vc_hooks c')"]
  by (simp add: total_of_def map_update)

lemma total_of_mono: "(\<And>c. c \<in> set (vd_connections d) \<Longrightarrow> f (vc_hooks c) \<le> g (vc_hooks c)) \<Longrightarrow> total_of f d \<le> total_of g d"
  by (auto simp: total_of_def intro: sum_list_mono)

lemma total_of_fold [simp]: "total_of f (fold (apply_hook i) hs d) = total_of f d"
  by (simp add: total_of_def)

section \<open>An operation of one session\<close>

lemma ended_le_opened: "connection_inv c \<Longrightarrow> ended (vc_hooks c) \<le> opened (vc_hooks c)"
  using connection_inv_parts(1) [of c] by (auto simp: stream_books_def ended_def opened_def)

lemma total_split:
  assumes "i < length (vd_connections d)" "\<And>c. c \<in> set (vd_connections d) \<Longrightarrow> connection_inv c"
  shows "total_of ended d + opened (vc_hooks (vd_connections d ! i)) \<le> total_of opened d + ended (vc_hooks (vd_connections d ! i))"
proof -
  let ?c = "vd_connections d ! i"
  define e where "e = map (\<lambda>c. ended (vc_hooks c)) (vd_connections d)"
  define p where "p = map (\<lambda>c. opened (vc_hooks c)) (vd_connections d)"
  have "sum_list (e[i := 0]) \<le> sum_list (p[i := 0])"
    using assms ended_le_opened by (intro sum_list_mono2) (auto simp: e_def p_def nth_list_update)
  moreover have "sum_list (e[i := 0]) + ended (vc_hooks ?c) = total_of ended d"
    "sum_list (p[i := 0]) + opened (vc_hooks ?c) = total_of opened d"
    using assms(1) sum_list_update_nat [of i e 0] sum_list_update_nat [of i p 0]
    by (simp_all add: e_def p_def total_of_def)
  ultimately show ?thesis by simp
qed

text \<open>What an operation of a session does to the table.\<close>

lemma on_connection_table:
  assumes d: "virtual_inv d" and f: "forward f" and i: "i < length (vd_connections d)"
  defines "c \<equiv> vd_connections d ! i"
  shows "vd_connections (on_connection i f d) = (vd_connections d)[i := f c] \<and> table_exact (on_connection i f d) \<and>
    set (vd_table (on_connection i f d)) \<subseteq> set (vd_table d)"
proof -
  have c: "connection_inv c" using d i by (auto simp: virtual_inv_def c_def)
  with f have c': "connection_inv (f c)" "conn_grows c (f c)" by (simp_all add: forward_def)
  define hs where "hs = drop (length (vc_hooks c)) (vc_hooks (f c))"
  have h: "vc_hooks (f c) = vc_hooks c @ hs"
    using c'(2) unfolding hs_def conn_grows_def prefix_def by auto
  define d1 where "d1 = d\<lparr>vd_connections := (vd_connections d)[i := f c]\<rparr>"
  have o': "on_connection i f d = fold (apply_hook i) hs d1"
    using i by (simp add: on_connection_def Let_def c_def [symmetric] hs_def [symmetric] d1_def)
  have n: "count_list (vc_hooks x) SessionEnded = (if vc_termination x = Terminated then 1 else 0)" if "connection_inv x" for x
    using connection_inv_parts(3) [OF that] by (simp add: end_books_def)
  have none: "count_list hs SessionEnded = 0 \<longleftrightarrow> SessionEnded \<notin> set hs" by (simp add: count_list_0_iff)
  have new: "SessionEnded \<in> set hs \<longleftrightarrow> vc_termination (f c) = Terminated \<and> vc_termination c \<noteq> Terminated"
    using n [OF c] n [OF c'(1)] none by (auto simp: h count_list_append split: if_splits)
  have stays: "vc_termination (f c) = Terminated" if "vc_termination c = Terminated"
    using n [OF c] n [OF c'(1)] that by (auto simp: h count_list_append split: if_splits)
  have t: "table_exact d" using d by (simp add: virtual_inv_def)
  have s: "set (vd_ended d1) = set (vd_ended d)" "vd_table d1 = vd_table d" by (simp_all add: d1_def)
  have fresh: "i \<notin> set (vd_ended d)" "i \<in> set (vd_table d)" if "vc_termination c \<noteq> Terminated"
    using t that i by (auto simp: table_exact_def c_def)
  note r = apply_hooks_sessions [of i hs d1, unfolded Let_def]
  have "set (vd_table (fold (apply_hook i) hs d1)) \<subseteq> set (vd_table d)"
    using r by (auto simp: s split: if_splits)
  moreover have "table_exact (fold (apply_hook i) hs d1)"
  proof (cases "SessionEnded \<in> set hs")
    case True
    with new have v: "vc_termination (f c) = Terminated" "vc_termination c \<noteq> Terminated" by simp_all
    with r True fresh have e: "vd_ended (fold (apply_hook i) hs d1) = i # vd_ended d"
        "vd_table (fold (apply_hook i) hs d1) = js_delete i (vd_table d)"
        "vs_sessions_active (vd_stats (fold (apply_hook i) hs d1)) = vs_sessions_active (vd_stats d) - 1"
      by (simp_all add: d1_def)
    have old: "set (vd_table d) = {j. j < length (vd_connections d) \<and> vc_termination (vd_connections d ! j) \<noteq> Terminated}"
      "set (vd_ended d) = {j. j < length (vd_connections d) \<and> vc_termination (vd_connections d ! j) = Terminated}"
      "distinct (vd_table d)" "vs_sessions_active (vd_stats d) = length (vd_table d)"
      "length (vd_table d) \<le> vd_max_sessions d" "vs_sessions_total (vd_stats d) = length (vd_connections d)"
      using t by (simp_all add: table_exact_def)
    have T: "vc_termination (vd_connections d1 ! j) = (if j = i then Terminated else vc_termination (vd_connections d ! j))"
      if "j < length (vd_connections d)" for j
      using that v(1) by (simp add: d1_def nth_list_update)
    have len: "length (vd_connections d1) = length (vd_connections d)" by (simp add: d1_def)
    have "set (js_delete i (vd_table d)) =
        {j. j < length (vd_connections d1) \<and> vc_termination (vd_connections d1 ! j) \<noteq> Terminated}"
      unfolding len set_js_delete old(1) using T by (auto split: if_splits)
    moreover have "set (i # vd_ended d) =
        {j. j < length (vd_connections d1) \<and> vc_termination (vd_connections d1 ! j) = Terminated}"
      unfolding len list.set old(2) using T i by (auto split: if_splits)
    moreover have "length (js_delete i (vd_table d)) = length (vd_table d) - 1"
      using old(3) fresh(2) [OF v(2)] by (simp add: length_js_delete)
    ultimately show ?thesis
      using old unfolding table_exact_def e by (simp add: len) (simp add: d1_def)
  next
    case False
    with r have e: "vd_ended (fold (apply_hook i) hs d1) = vd_ended d" "vd_table (fold (apply_hook i) hs d1) = vd_table d"
        "vs_sessions_active (vd_stats (fold (apply_hook i) hs d1)) = vs_sessions_active (vd_stats d)"
      by (simp_all add: d1_def)
    have "vc_termination (f c) = Terminated \<longleftrightarrow> vc_termination c = Terminated" using False new stays by auto
    with t i show ?thesis
      unfolding table_exact_def e by (auto simp: d1_def nth_list_update c_def)
  qed
  ultimately show ?thesis by (simp add: o' d1_def)
qed

lemma on_connection_counts:
  assumes d: "virtual_inv d" and f: "forward f" and i: "i < length (vd_connections d)"
  shows "counts_exact (on_connection i f d)"
proof -
  define c where "c = vd_connections d ! i"
  have all: "\<And>x. x \<in> set (vd_connections d) \<Longrightarrow> connection_inv x" using d by (simp add: virtual_inv_def)
  have c: "connection_inv c" using all i by (simp add: c_def)
  with f have c': "connection_inv (f c)" "conn_grows c (f c)" by (simp_all add: forward_def)
  define hs where "hs = drop (length (vc_hooks c)) (vc_hooks (f c))"
  have h: "vc_hooks (f c) = vc_hooks c @ hs"
    using c'(2) unfolding hs_def conn_grows_def prefix_def by auto
  define d1 where "d1 = d\<lparr>vd_connections := (vd_connections d)[i := f c]\<rparr>"
  have o': "on_connection i f d = fold (apply_hook i) hs d1"
    using i by (simp add: on_connection_def Let_def c_def [symmetric] hs_def [symmetric] d1_def)
  have st: "vd_stats d1 = vd_stats d" by (simp add: d1_def)
  have tot: "total_of g d1 = total_of g d + g hs" if "\<And>xs ys. g (xs @ ys) = g xs + g ys" for g
    using total_of_update [OF i, of g "f c"] that [of "vc_hooks c" hs]
    by (simp add: d1_def [symmetric] h c_def [symmetric])
  have b: "balanced (vc_hooks c @ hs)" using connection_inv_parts(1) [OF c'(1)] by (simp add: stream_books_def h)
  have e: "counts_exact d" using d by (simp add: virtual_inv_def)
  have "ended (take n hs) \<le> vs_streams_active (vd_stats d1) + opened (take n hs)" if "n \<le> length hs" for n
    using balanced_take [OF b that] total_split [OF i all] e by (simp add: counts_exact_def c_def st)
  from apply_hooks_active [OF this, of i] e show ?thesis
    by (simp add: o' counts_exact_def apply_hooks_counts st tot count_list_append)
qed

lemma on_connection_inv:
  assumes d: "virtual_inv d" and f: "forward f"
  shows "virtual_inv (on_connection i f d)"
proof (cases "i < length (vd_connections d)")
  case True
  note t = on_connection_table [OF d f True]
  have c: "connection_inv (vd_connections d ! i)" using d True by (simp add: virtual_inv_def)
  with f have c': "connection_inv (f (vd_connections d ! i))" "conn_grows (vd_connections d ! i) (f (vd_connections d ! i))"
    by (simp_all add: forward_def)
  have fr: "vd_state (on_connection i f d) = vd_state d" "vd_stops (on_connection i f d) = vd_stops d"
    using True by (simp_all add: on_connection_def Let_def)
  have "\<forall>x \<in> set (vd_connections (on_connection i f d)). connection_inv x"
    using t c' d by (auto simp: virtual_inv_def dest: set_update_subset_insert [THEN subsetD])
  moreover have "vc_termination (vd_connections (on_connection i f d) ! j) \<noteq> NotTerminated"
    if "vc_termination (vd_connections d ! j) \<noteq> NotTerminated" for j
    using t that c'(2) True by (cases "j = i") (auto simp: conn_grows_def)
  then have "stop_phase (on_connection i f d)"
    using d t by (auto simp: virtual_inv_def stop_phase_def fr split: server_state.splits)
  ultimately show ?thesis using t on_connection_counts [OF d f True] by (simp add: virtual_inv_def)
qed (simp add: on_connection_def d)

lemma on_connections_inv:
  "virtual_inv d \<Longrightarrow> forward f \<Longrightarrow> virtual_inv (fold (\<lambda>i. on_connection i f) is d)"
  by (induction "is" arbitrary: d) (simp_all add: on_connection_inv)

section \<open>Every step\<close>

text \<open>Fields the invariant does not read.\<close>

lemma virtual_inv_irrelevant [simp]:
  "virtual_inv (d\<lparr>vd_connects := a\<rparr>) = virtual_inv d" "virtual_inv (d\<lparr>vd_listening := b\<rparr>) = virtual_inv d"
  "virtual_inv (d\<lparr>vd_callbacks := x, vd_subscriptions := y\<rparr>) = virtual_inv d"
  "virtual_inv (d\<lparr>vd_subscriptions := y, vd_callbacks := x\<rparr>) = virtual_inv d"
  "virtual_inv (d\<lparr>vd_next_session := n\<rparr>) = virtual_inv d" "virtual_inv (d\<lparr>vd_server_options := o'\<rparr>) = virtual_inv d"
  "virtual_inv (reject_session d) = virtual_inv d"
  by (simp_all add: virtual_inv_def counts_exact_def table_exact_def stop_phase_def total_of_def reject_session_def
      split: server_state.split)

lemma virtual_state_update:
  "counts_exact (d\<lparr>vd_state := s\<rparr>) = counts_exact d" "table_exact (d\<lparr>vd_state := s\<rparr>) = table_exact d"
  by (simp_all add: counts_exact_def table_exact_def total_of_def)

lemma start_virtual_inv: "virtual_inv d \<Longrightarrow> virtual_inv (fst (start_virtual signal d))"
proof (cases "vd_state d = STOPPED")
  case True
  assume d: "virtual_inv d"
  define e where "e = (if signal = LiveSignal then d\<lparr>vd_server_options := Some signal, vd_listening := True\<rparr>
      else d\<lparr>vd_server_options := Some signal\<rparr>)"
  have e: "virtual_inv e" "vd_stops e = []" using d True by (simp_all add: e_def) (simp_all add: virtual_inv_def stop_phase_def)
  then have "virtual_inv (e\<lparr>vd_state := RUNNING\<rparr>)"
    by (simp add: virtual_inv_def virtual_state_update) (simp add: stop_phase_def)
  with d True show ?thesis by (cases signal) (simp_all add: start_virtual_def Let_def e_def)
qed (simp add: start_virtual_def)

lemma stops_settle_inv:
  assumes "virtual_inv d"
  shows "virtual_inv (stops_settle d)"
proof (cases "vd_stops d \<noteq> [] \<and> (\<forall>i \<in> set (concat (vd_stops d)). vc_termination (vd_connections d ! i) = Terminated)")
  case True
  have "vd_state d \<noteq> RUNNING" "vd_state d \<noteq> STOPPED" "vd_state d \<noteq> STARTING"
    using assms True by (auto simp: virtual_inv_def stop_phase_def)
  then have "set (vd_table d) \<subseteq> set (concat (vd_stops d))"
    using assms by (cases "vd_state d") (simp_all add: virtual_inv_def stop_phase_def)
  with True have "\<forall>i \<in> set (vd_table d). vc_termination (vd_connections d ! i) = Terminated" by blast
  moreover have "\<forall>i \<in> set (vd_table d). vc_termination (vd_connections d ! i) \<noteq> Terminated"
    using assms by (simp add: virtual_inv_def table_exact_def)
  ultimately have "vd_table d = []" by (cases "vd_table d") auto
  with assms True show ?thesis
    by (simp add: stops_settle_def virtual_inv_def counts_exact_def table_exact_def stop_phase_def total_of_def)
next
  case False
  then show ?thesis unfolding stops_settle_def by (simp only: False if_False assms)
qed

text \<open>A stop asks every session of the table to end.\<close>

lemma fold_ends:
  assumes "virtual_inv d" "forward f"
    and "\<And>c. connection_inv c \<Longrightarrow> vc_termination (f c) \<noteq> NotTerminated"
    and "\<forall>i \<in> set is. i < length (vd_connections d)"
    and "j < length (vd_connections d)" "j \<in> set is \<or> vc_termination (vd_connections d ! j) \<noteq> NotTerminated"
  shows "vc_termination (vd_connections (fold (\<lambda>i. on_connection i f) is d) ! j) \<noteq> NotTerminated"
  using assms
proof (induction "is" arbitrary: d)
  case (Cons i "is")
  let ?d = "on_connection i f d"
  have i: "i < length (vd_connections d)" using Cons.prems by simp
  from on_connection_table [OF Cons.prems(1,2) i] have c: "vd_connections ?d = (vd_connections d)[i := f (vd_connections d ! i)]"
    by simp
  have inv: "connection_inv (vd_connections d ! i)" using Cons.prems(1) i by (simp add: virtual_inv_def)
  have "j \<in> set is \<or> vc_termination (vd_connections ?d ! j) \<noteq> NotTerminated"
    using Cons.prems(3) [OF inv] Cons.prems(6) i by (cases "j = i") (auto simp: c)
  with Cons.IH [of ?d] Cons.prems show ?case by (simp add: on_connection_inv c)
qed simp

lemma fold_frame:
  assumes "virtual_inv d" "forward f"
  shows "vd_state (fold (\<lambda>i. on_connection i f) is d) = vd_state d \<and>
    vd_stops (fold (\<lambda>i. on_connection i f) is d) = vd_stops d \<and>
    length (vd_connections (fold (\<lambda>i. on_connection i f) is d)) = length (vd_connections d) \<and>
    set (vd_table (fold (\<lambda>i. on_connection i f) is d)) \<subseteq> set (vd_table d)"
  using assms
proof (induction "is" arbitrary: d)
  case (Cons i "is")
  have "vd_state (on_connection i f d) = vd_state d" "vd_stops (on_connection i f d) = vd_stops d"
    "length (vd_connections (on_connection i f d)) = length (vd_connections d)"
    by (simp_all add: on_connection_def Let_def)
  moreover have "set (vd_table (on_connection i f d)) \<subseteq> set (vd_table d)"
    using on_connection_table [OF Cons.prems] by (cases "i < length (vd_connections d)") (auto simp: on_connection_def)
  ultimately show ?case using Cons.IH [of "on_connection i f d"] Cons.prems by (auto simp: on_connection_inv)
qed simp

lemma stop_virtual_inv:
  assumes d: "virtual_inv d"
  shows "virtual_inv (stop_virtual to_text graceful signal d)"
proof (cases "vd_state d = STOPPED")
  case False
  define s where "s = (if or_default graceful True then DRAINING else STOPPING)"
  define f where "f = (if or_default graceful True \<and> \<not> (case signal of AbortedSignal _ \<Rightarrow> True | _ \<Rightarrow> False)
      then close_connection None None
      else abort_connection to_text (Some (case signal of AbortedSignal e \<Rightarrow> e | _ \<Rightarrow> stopped_immediately)))"
  define d2 where "d2 = fold (\<lambda>i. on_connection i f) (vd_table d) d"
  have f: "forward f" by (simp add: f_def)
  have fe: "vc_termination (f c) \<noteq> NotTerminated" if "connection_inv c" for c
    using close_abort_phase [OF that] by (simp add: f_def)
  have t: "\<forall>i \<in> set (vd_table d). i < length (vd_connections d)"
    using d by (simp add: virtual_inv_def table_exact_def)
  have d2: "virtual_inv d2" using d f by (simp add: d2_def on_connections_inv)
  note fr = fold_frame [OF d f, of "vd_table d", folded d2_def]
  have swap: "fold (\<lambda>i. on_connection i f) is (e\<lparr>vd_state := s\<rparr>) = (fold (\<lambda>i. on_connection i f) is e)\<lparr>vd_state := s\<rparr>"
    for "is" e
  proof (induction "is" arbitrary: e)
    case (Cons i "is")
    have "apply_hook k h (e\<lparr>vd_state := s\<rparr>) = (apply_hook k h e)\<lparr>vd_state := s\<rparr>" for k h e
      by (simp add: apply_hook_def session_ended_def)
    then have "fold (apply_hook k) hs (e\<lparr>vd_state := s\<rparr>) = (fold (apply_hook k) hs e)\<lparr>vd_state := s\<rparr>" for k hs e
      by (induction hs arbitrary: e) simp_all
    moreover have "e\<lparr>vd_state := s, vd_connections := x\<rparr> = e\<lparr>vd_connections := x\<rparr>\<lparr>vd_state := s\<rparr>" for x by simp
    ultimately have f': "fold (apply_hook k) hs (e\<lparr>vd_state := s, vd_connections := x\<rparr>) =
        (fold (apply_hook k) hs (e\<lparr>vd_connections := x\<rparr>))\<lparr>vd_state := s\<rparr>" for k hs x
      by metis
    have "on_connection i f (e\<lparr>vd_state := s\<rparr>) = (on_connection i f e)\<lparr>vd_state := s\<rparr>"
      by (simp add: on_connection_def Let_def f')
    with Cons.IH show ?case by simp
  qed simp
  have e: "stop_virtual to_text graceful signal d = d2\<lparr>vd_state := s, vd_stops := vd_stops d @ [vd_table d]\<rparr>"
    using False swap [of "vd_table d" d]
    by (simp add: stop_virtual_def Let_def s_def [symmetric] f_def [symmetric] d2_def [symmetric])
  have "vc_termination (vd_connections d2 ! i) \<noteq> NotTerminated" if "i \<in> set (vd_table d2)" for i
    using fold_ends [OF d f fe t, of i] fr that t by (auto simp: d2_def)
  moreover have "\<forall>i \<in> set (concat (vd_stops d)). i < length (vd_connections d2)"
    using d fr by (simp add: virtual_inv_def stop_phase_def)
  ultimately have "stop_phase (d2\<lparr>vd_state := s, vd_stops := vd_stops d @ [vd_table d]\<rparr>)"
    using fr t by (auto simp: stop_phase_def s_def)
  with d2 show ?thesis
    by (simp add: e virtual_inv_def counts_exact_def table_exact_def total_of_def)
qed (use d in \<open>simp add: stop_virtual_def\<close>)

lemma connect_virtual_inv:
  assumes d: "virtual_inv d"
  shows "virtual_inv (fst (connect_virtual path d))"
proof (cases "vd_state d = RUNNING \<and> length (vd_table d) < vd_max_sessions d")
  case True
  show ?thesis
  proof (cases "new_connection 0 (session_options path d)")
    case (Inl e)
    with True d show ?thesis by (simp add: connect_virtual_def Let_def)
  next
    case (Inr c)
    from new_connection_inv [OF Inr] have c: "connection_inv c" "vc_hooks c = []" by simp_all
    have p: "vc_termination c = NotTerminated"
      using Inr by (auto simp: new_connection_def bindE_Inr_iff split: if_splits)
    let ?n = "length (vd_connections d)"
    define d' where "d' = d\<lparr>vd_next_session := vd_next_session d + 1, vd_connections := vd_connections d @ [c],
        vd_table := js_add ?n (vd_table d), vd_connects := vd_connects d @ [calling_back (vd_callbacks d)],
        vd_stats := (vd_stats d)\<lparr>vs_sessions_active := vs_sessions_active (vd_stats d) + 1,
                      vs_sessions_total := vs_sessions_total (vd_stats d) + 1\<rparr>\<rparr>"
    have e: "fst (connect_virtual path d) = d'"
      using True Inr by (simp add: connect_virtual_def Let_def d'_def)
    have t: "table_exact d" "counts_exact d" "stop_phase d" using d by (simp_all add: virtual_inv_def)
    have new: "?n \<notin> set (vd_table d)" using t(1) by (simp add: table_exact_def)
    have "counts_exact d'" using t(2) c(2) by (simp add: counts_exact_def total_of_def d'_def)
    moreover have "table_exact d'"
    proof -
      have old: "set (vd_table d) = {i. i < ?n \<and> vc_termination (vd_connections d ! i) \<noteq> Terminated}"
        "set (vd_ended d) = {i. i < ?n \<and> vc_termination (vd_connections d ! i) = Terminated}"
        using t(1) by (simp_all add: table_exact_def)
      have "vc_termination (vd_connections d' ! i) = (if i = ?n then NotTerminated else vc_termination (vd_connections d ! i))"
        if "i < Suc ?n" for i
        using that p by (simp add: d'_def nth_append)
      moreover have len: "length (vd_connections d') = Suc ?n" by (simp add: d'_def)
      ultimately have
        "set (vd_table d') = {i. i < length (vd_connections d') \<and> vc_termination (vd_connections d' ! i) \<noteq> Terminated}"
        "set (vd_ended d') = {i. i < length (vd_connections d') \<and> vc_termination (vd_connections d' ! i) = Terminated}"
        using old p by (auto simp: d'_def less_Suc_eq nth_append split: if_splits)
      moreover have "vd_table d' = vd_table d @ [?n]" using new by (simp add: d'_def js_add_def)
      moreover have "vs_sessions_active (vd_stats d') = vs_sessions_active (vd_stats d) + 1"
        "vs_sessions_total (vd_stats d') = vs_sessions_total (vd_stats d) + 1" "vd_max_sessions d' = vd_max_sessions d"
        by (simp_all add: d'_def)
      ultimately show ?thesis
        using t(1) new True len unfolding table_exact_def by (intro conjI) simp_all
    qed
    moreover have "stop_phase d'" using t(3) True by (simp add: stop_phase_def d'_def)
    moreover have "\<forall>x \<in> set (vd_connections d'). connection_inv x"
      using d c(1) by (simp add: d'_def virtual_inv_def)
    ultimately show ?thesis by (simp add: e virtual_inv_def)
  qed
next
  case False
  with d show ?thesis by (auto simp: connect_virtual_def)
qed

lemma callback_settles_inv: "virtual_inv d \<Longrightarrow> virtual_inv (callback_settles to_text i failure d)"
  by (simp add: callback_settles_def on_connection_inv split: connect_phase.split list.split option.split)

lemma virtual_step_inv: "virtual_inv d \<Longrightarrow> virtual_inv (virtual_step to_text e d)"
  by (cases e) (simp_all add: start_virtual_inv stop_virtual_inv stops_settle_inv start_signal_aborts_def on_session_def
      unsubscribe_virtual_def connect_virtual_inv callback_settles_inv connect_settles_def on_connection_inv
      split: connect_phase.split)

interpretation virtual_life: event_system "virtual_step to_text" virtual_inv for to_text
  by unfold_locales (rule virtual_step_inv)

lemma new_virtual_driver_inv: "new_virtual_driver options = Inr d \<Longrightarrow> virtual_inv d"
  by (auto simp: new_virtual_driver_def bindE_Inr_iff virtual_inv_def counts_exact_def table_exact_def stop_phase_def
      total_of_def)

section \<open>Stopping\<close>

text \<open>The end of a session that has begun to end is a step of the platform.\<close>

lemma settles_all:
  assumes "virtual_inv d" "\<forall>i \<in> set is. i < length (vd_connections d) \<and> vc_termination (vd_connections d ! i) \<noteq> NotTerminated"
    and "j < length (vd_connections d)" "j \<in> set is \<or> vc_termination (vd_connections d ! j) = Terminated"
  shows "vc_termination (vd_connections (fold (\<lambda>i. on_connection i (connection_step to_text TerminationSettles)) is d) ! j) = Terminated"
  using assms
proof (induction "is" arbitrary: d)
  case (Cons i "is")
  let ?f = "connection_step to_text TerminationSettles"
  let ?d = "on_connection i ?f d"
  have i: "i < length (vd_connections d)" "vc_termination (vd_connections d ! i) \<noteq> NotTerminated" using Cons.prems(2) by simp_all
  from on_connection_table [OF Cons.prems(1) forward_ops(1) i(1), of to_text TerminationSettles]
  have c: "vd_connections ?d = (vd_connections d)[i := ?f (vd_connections d ! i)]" by simp
  have "vc_termination (?f (vd_connections d ! i)) = Terminated"
    using i(2) by (cases "vc_termination (vd_connections d ! i)") (simp_all add: termination_settles_def vc_hook_def)
  then have step: "vc_termination (vd_connections ?d ! k) = (if k = i then Terminated else vc_termination (vd_connections d ! k))"
    if "k < length (vd_connections d)" for k
    using that by (simp add: c nth_list_update del: connection_step.simps)
  have "virtual_inv ?d" by (rule on_connection_inv [OF Cons.prems(1) forward_ops(1)])
  moreover have "\<forall>k \<in> set is. k < length (vd_connections ?d) \<and> vc_termination (vd_connections ?d ! k) \<noteq> NotTerminated"
    using Cons.prems(2) step by (simp add: c del: connection_step.simps)
  moreover have "j < length (vd_connections ?d)" "j \<in> set is \<or> vc_termination (vd_connections ?d ! j) = Terminated"
    using Cons.prems(3,4) step by (auto simp: c simp del: connection_step.simps)
  ultimately show ?case using Cons.IH [of ?d] by (simp del: connection_step.simps)
qed simp

definition settle_everything :: "virtual_driver \<Rightarrow> virtual_event list" where
  "settle_everything d = map (\<lambda>i. OnConnection i TerminationSettles) (vd_table d) @ [StopsSettle]"

lemma stop_completes:
  assumes d: "virtual_inv d" and s: "vd_state d = DRAINING \<or> vd_state d = STOPPING"
  shows "vd_state (fold (virtual_step to_text) (settle_everything d) d) = STOPPED"
proof -
  define d' where "d' = fold (\<lambda>i. on_connection i (connection_step to_text TerminationSettles)) (vd_table d) d"
  have t: "set (vd_table d) = {i. i < length (vd_connections d) \<and> vc_termination (vd_connections d ! i) \<noteq> Terminated}"
    using d by (simp add: virtual_inv_def table_exact_def)
  have p: "vd_stops d \<noteq> []" "\<forall>i \<in> set (vd_table d). vc_termination (vd_connections d ! i) \<noteq> NotTerminated"
    "\<forall>i \<in> set (concat (vd_stops d)). i < length (vd_connections d)"
    using d s by (auto simp: virtual_inv_def stop_phase_def)
  have fr: "vd_stops d' = vd_stops d"
    using fold_frame [OF d forward_ops(1), of to_text TerminationSettles "vd_table d"] by (simp add: d'_def)
  have "vc_termination (vd_connections d' ! i) = Terminated" if "i \<in> set (concat (vd_stops d))" for i
    unfolding d'_def using p that t by (intro settles_all [OF d]) auto
  then have "vd_state (stops_settle d') = STOPPED" using p(1) by (simp add: stops_settle_def fr)
  moreover have "fold (virtual_step to_text) (map (\<lambda>i. OnConnection i TerminationSettles) is) x =
      fold (\<lambda>i. on_connection i (connection_step to_text TerminationSettles)) is x" for "is" x
    by (induction "is" arbitrary: x) (simp_all del: connection_step.simps)
  then have "fold (virtual_step to_text) (settle_everything d) d = stops_settle d'"
    by (simp add: settle_everything_def d'_def del: connection_step.simps)
  ultimately show ?thesis by simp
qed

section \<open>The driver\<close>

lemma active_streams:
  assumes "virtual_inv d"
  shows "vs_streams_active (vd_stats d) = (\<Sum>c \<leftarrow> vd_connections d. length (vc_streams c))"
proof -
  have "ended (vc_hooks c) + length (vc_streams c) = opened (vc_hooks c)" if "c \<in> set (vd_connections d)" for c
    using assms that connection_inv_parts(1) [of c]
    by (auto simp: virtual_inv_def stream_books_def ended_def opened_def)
  then have "(\<Sum>c \<leftarrow> vd_connections d. ended (vc_hooks c) + length (vc_streams c)) = total_of opened d"
    unfolding total_of_def by (intro arg_cong [where f = sum_list] map_cong) simp_all
  then have "total_of ended d + (\<Sum>c \<leftarrow> vd_connections d. length (vc_streams c)) = total_of opened d"
    by (simp add: total_of_def sum_list_addf)
  moreover have "vs_streams_active (vd_stats d) + total_of ended d = total_of opened d"
    using assms by (simp add: virtual_inv_def counts_exact_def)
  ultimately show ?thesis by simp
qed

lemma all_streams_counted:
  assumes "virtual_inv d"
  shows "vs_streams_total (vd_stats d) = (\<Sum>c \<leftarrow> vd_connections d. length (vc_pairs c))"
proof -
  have "opened (vc_hooks c) = length (vc_pairs c)" if "c \<in> set (vd_connections d)" for c
    using assms that connection_inv_parts(1) [of c] by (auto simp: virtual_inv_def stream_books_def opened_def)
  then have "total_of opened d = (\<Sum>c \<leftarrow> vd_connections d. length (vc_pairs c))"
    unfolding total_of_def by (intro arg_cong [where f = sum_list] map_cong) simp_all
  with assms show ?thesis by (simp add: virtual_inv_def counts_exact_def)
qed

lemma dropped_arrived:
  assumes "virtual_inv d"
  shows "vs_datagrams_dropped (vd_stats d) \<le> vs_datagrams_received (vd_stats d)"
proof -
  have "total_of (\<lambda>hs. count_list hs DatagramDropped) d \<le> total_of arrived d"
    using assms connection_inv_parts(2)
    by (intro total_of_mono) (simp add: virtual_inv_def queue_books_def arrived_def)
  with assms show ?thesis by (simp add: virtual_inv_def counts_exact_def)
qed

lemma stopped_sessions:
  assumes "virtual_inv d" "vd_state d = STOPPED" "c \<in> set (vd_connections d)"
  shows "vc_streams c = []" "vc_signal c \<noteq> None" "vc_closed c \<noteq> None"
proof -
  have "vd_table d = []" using assms by (simp add: virtual_inv_def stop_phase_def)
  moreover obtain i where "i < length (vd_connections d)" "c = vd_connections d ! i"
    using assms(3) by (auto simp: in_set_conv_nth)
  ultimately have t: "vc_termination c = Terminated"
    using assms(1) by (auto simp: virtual_inv_def table_exact_def)
  moreover have "connection_inv c" using assms(1,3) by (simp add: virtual_inv_def)
  ultimately show "vc_streams c = []" "vc_signal c \<noteq> None" "vc_closed c \<noteq> None"
    by (simp_all add: connection_inv_def all_ended_def end_books_def)
qed

text \<open>
  C26. The in-memory driver that the tests of an application run on, whatever the test, the callbacks and
  the platform do and in whatever order: its statistics are the truth. The sessions it calls active are
  those of its table, never more than its limit; the streams it calls active are exactly the open streams
  of its sessions, and its totals count every session and stream there has been; no more datagrams are
  dropped than arrived. A stopped driver has no session and no stream left, and every session it has had
  has aborted its signal and announced its end; and a stop completes as soon as the platform has ended
  the sessions it waits for.
\<close>

theorem virtual_driver_exact:
  assumes "new_virtual_driver options = Inr d0"
  shows "let d = fold (virtual_step to_text) es d0; x = vd_stats d in
      vs_sessions_active x = length (vd_table d) \<and> length (vd_table d) \<le> vd_max_sessions d \<and>
      vs_sessions_total x = length (vd_connections d) \<and>
      vs_streams_active x = (\<Sum>c \<leftarrow> vd_connections d. length (vc_streams c)) \<and>
      vs_streams_total x = (\<Sum>c \<leftarrow> vd_connections d. length (vc_pairs c)) \<and>
      vs_datagrams_dropped x \<le> vs_datagrams_received x \<and>
      (vd_state d = STOPPED \<longrightarrow> vd_table d = [] \<and>
         (\<forall>c \<in> set (vd_connections d). vc_streams c = [] \<and> vc_signal c \<noteq> None \<and> vc_closed c \<noteq> None)) \<and>
      (vd_state d = DRAINING \<or> vd_state d = STOPPING \<longrightarrow>
         vd_state (fold (virtual_step to_text) (settle_everything d) d) = STOPPED)"
proof -
  define d where "d = fold (virtual_step to_text) es d0"
  have d: "virtual_inv d"
    unfolding d_def by (rule virtual_life.run_inv [OF new_virtual_driver_inv [OF assms]])
  have "vd_table d = []" if "vd_state d = STOPPED" using d that by (simp add: virtual_inv_def stop_phase_def)
  moreover have "table_exact d" using d by (simp add: virtual_inv_def)
  ultimately show ?thesis
    unfolding d_def [symmetric] Let_def table_exact_def
    using active_streams [OF d] all_streams_counted [OF d] dropped_arrived [OF d] stopped_sessions [OF d]
      stop_completes [OF d, of to_text]
    by (intro conjI impI ballI) simp_all
qed

text \<open>A test that opens a session and stops the driver: the stop waits for the session, then completes.\<close>

definition default_driver_options :: virtual_options where
  "default_driver_options =
     \<lparr>vo_max_sessions = None, vo_incoming_queue = None, vo_stream_queue = None, vo_stream_chunk = None,
      vo_datagram_queue = None, vo_max_datagram = None, vo_overflow = None, vo_remote = None, vo_first_port = None\<rparr>"

definition example_test :: "virtual_event list" where
  "example_test =
     [StartVirtual NoSignal, OnSession 7, Connect ''/chat'', CallbackSettles 0 None, StopVirtual None NoSignal]"

definition example_driver :: virtual_driver where
  "example_driver =
     (case new_virtual_driver default_driver_options of Inr d \<Rightarrow> d | Inl _ \<Rightarrow> undefined)"

lemmas example_test_run =
  example_test_def start_virtual_def on_session_def connect_virtual_def new_connection_def session_options_def
  new_value_queue_def example_driver_def new_virtual_driver_def default_driver_options_def positive_integer_def
  or_default_def max_safe_def js_add_def callback_settles_def calling_back_def on_connection_def Let_def
  stop_virtual_def close_connection_def begin_termination_def terminate_def end_datagrams_def end_incoming_def

lemma example_driver_new: "new_virtual_driver default_driver_options = Inr example_driver"
  by (simp add: example_test_run)

theorem virtual_driver_exact_witness:
  "let d = fold (virtual_step (\<lambda>e. [])) example_test example_driver in
     vd_state d = DRAINING \<and> vs_sessions_active (vd_stats d) = 1 \<and> length (vd_table d) = 1 \<and>
     vd_state (fold (virtual_step (\<lambda>e. [])) (settle_everything d) d) = STOPPED"
proof -
  let ?d = "fold (virtual_step (\<lambda>e. [])) example_test example_driver"
  have "vd_state ?d = DRAINING \<and> vs_sessions_active (vd_stats ?d) = 1"
    by (simp add: example_test_run)
  with virtual_driver_exact [OF example_driver_new, of "\<lambda>e. []" example_test] show ?thesis
    by (simp add: Let_def)
qed

end
