(* ===== verification/Json_Values.thy ===== *)
theory Json_Values
  imports Prelude
begin

text \<open>
  The values of JSON that the examples read and write, and the text of strings and integers in them.
  Objects are association lists with distinct keys; strings are made of single-byte characters.
\<close>

datatype json = JNull | JBool bool | JNumber js_number | JString string | JArray "json list" | JObject "(string \<times> json) list"

text \<open>\<open>object.name\<close> on a parsed object: a missing property is \<open>undefined\<close>.\<close>

definition member :: "string \<Rightarrow> (string \<times> json) list \<Rightarrow> json option" where
  "member name o' = map_of o' name"

text \<open>The text of an integer and of a quoted string (\<open>JSON.stringify\<close>).\<close>

definition show_int :: "int \<Rightarrow> string" where
  "show_int n = (if n < 0 then ''-'' @ show_nat (nat (- n)) else show_nat (nat n))"

definition hex_digit :: "nat \<Rightarrow> char" where
  "hex_digit n = char_of (if n < 10 then 48 + n else 87 + n)"

text \<open>\<open>JSON.stringify\<close> of a string of single-byte characters.\<close>

definition json_char :: "char \<Rightarrow> string" where
  "json_char ch =
     (let n = (of_char ch :: nat) in
      if n = 34 then [char_of (92 :: nat), ch] else if n = 92 then [ch, ch]
      else if n = 8 then [char_of (92 :: nat)] @ ''b'' else if n = 9 then [char_of (92 :: nat)] @ ''t''
      else if n = 10 then [char_of (92 :: nat)] @ ''n'' else if n = 12 then [char_of (92 :: nat)] @ ''f''
      else if n = 13 then [char_of (92 :: nat)] @ ''r''
      else if n < 32 then [char_of (92 :: nat)] @ ''u00'' @ [hex_digit (n div 16), hex_digit (n mod 16)]
      else [ch])"

definition quote :: string where
  "quote = [char_of (34 :: nat)]"

definition json_string :: "string \<Rightarrow> string" where
  "json_string s = quote @ concat (map json_char s) @ quote"

end
