(* ===== verification/Health_Metrics.thy ===== *)
theory Health_Metrics
  imports Runtime_Logs Runtime_Frame Driver_Machine Json_Values
begin

text \<open>
  What an operator sees of a server: the health service of the Nest package
  (\<open>webtransport-health.service.ts\<close>), the instruments of the OpenTelemetry package (\<open>metrics.ts\<close>,
  \<open>options.ts\<close>, \<open>webtransport-otel.module.ts\<close>) and the text endpoint of the production example
  (\<open>operations-server.service.ts\<close>). All read the statistics of one runtime and one driver. The meter
  and the tracer are third-party objects: an instrument is its name, and the calls of
  \<open>addCallback\<close> and \<open>removeCallback\<close> are recorded in order.
\<close>

section \<open>Health\<close>

record health_status =
  hs_alive :: bool
  hs_ready :: bool
  hs_lifecycle :: lifecycle_snapshot
  hs_active_sessions :: nat

text \<open>\<open>getStatus\<close> at time \<open>now\<close>; reading the statistics of the driver may start a refresh of them.\<close>

definition get_status :: "int \<Rightarrow> runtime \<Rightarrow> driver \<Rightarrow> driver \<times> health_status" where
  "get_status now r d =
     (let lifecycle = runtime_snapshot r;
          (d1, stats) = Driver_Machine.get_stats now d;
          state = dst_state stats
      in (d1, \<lparr>hs_alive = (alive lifecycle \<and> \<not> (snap_state lifecycle = RUNNING \<and> state \<noteq> RUNNING)),
               hs_ready = (ready lifecycle \<and> state = RUNNING),
               hs_lifecycle = lifecycle, hs_active_sessions = active_sessions r\<rparr>))"

definition get_driver_stats :: "int \<Rightarrow> driver \<Rightarrow> driver \<times> driver_stats" where
  "get_driver_stats now d = Driver_Machine.get_stats now d"

definition get_runtime_stats :: "runtime \<Rightarrow> log_state \<Rightarrow> runtime_stats" where
  "get_runtime_stats r l = Runtime_Logs.get_stats r l"

section \<open>Instruments\<close>

datatype attribute_value = StringValue string | NumberValue js_number | BoolValue bool | ListValue "attribute_value list"

type_synonym attributes = "(string \<times> attribute_value) list"

record observation =
  ob_value :: int
  ob_attributes :: attributes

text \<open>What the callback of a binding reads, each time it is called.\<close>

datatype reading =
    ReadDriver "driver_stats \<Rightarrow> int"
  | ReadRuntime "runtime_stats \<Rightarrow> int"
  | ReadReasons "runtime_stats \<Rightarrow> (string \<times> int) list"

record metric_binding =
  mb_name :: string
  mb_gauge :: bool
  mb_description :: "string option"
  mb_reading :: reading

definition bind_gauge :: "string \<Rightarrow> string \<Rightarrow> (driver_stats \<Rightarrow> int) \<Rightarrow> metric_binding" where
  "bind_gauge name description read =
     \<lparr>mb_name = name, mb_gauge = True, mb_description = Some description, mb_reading = ReadDriver read\<rparr>"

definition bind_counter :: "string \<Rightarrow> string \<Rightarrow> (driver_stats \<Rightarrow> int) \<Rightarrow> metric_binding" where
  "bind_counter name description read =
     \<lparr>mb_name = name, mb_gauge = False, mb_description = Some description, mb_reading = ReadDriver read\<rparr>"

definition driver_bindings :: "metric_binding list" where
  "driver_bindings =
     [bind_gauge ''webtransport.sessions.active'' ''Current active WebTransport sessions''
        (\<lambda>s. fst (dst_sessions s)),
      bind_counter ''webtransport.sessions.total'' ''Accepted WebTransport sessions since process start''
        (\<lambda>s. fst (snd (dst_sessions s))),
      bind_counter ''webtransport.sessions.rejected'' ''Rejected WebTransport sessions since process start''
        (\<lambda>s. snd (snd (dst_sessions s))),
      bind_gauge ''webtransport.streams.active'' ''Current active WebTransport streams''
        (\<lambda>s. fst (dst_streams s)),
      bind_counter ''webtransport.streams.total'' ''WebTransport streams since process start''
        (\<lambda>s. snd (dst_streams s)),
      bind_counter ''webtransport.datagrams.received'' ''Received WebTransport datagrams since process start''
        (\<lambda>s. fst (dst_datagrams s)),
      bind_counter ''webtransport.datagrams.sent'' ''Sent WebTransport datagrams since process start''
        (\<lambda>s. fst (snd (dst_datagrams s))),
      bind_counter ''webtransport.datagrams.dropped'' ''Dropped WebTransport datagrams since process start''
        (\<lambda>s. snd (snd (dst_datagrams s))),
      bind_counter ''webtransport.bytes.received'' ''Received WebTransport bytes since process start''
        (\<lambda>s. fst (dst_bytes s)),
      bind_counter ''webtransport.bytes.sent'' ''Sent WebTransport bytes since process start''
        (\<lambda>s. snd (dst_bytes s))]"

definition runtime_bindings :: "metric_binding list" where
  "runtime_bindings =
     map (\<lambda>(name, gauge, read).
         \<lparr>mb_name = name, mb_gauge = gauge, mb_description = None, mb_reading = ReadRuntime read\<rparr>)
       [(''webtransport.runtime.sessions.accepted'', False, sta_accepted),
        (''webtransport.runtime.sessions.rejected'', False, sta_rejected),
        (''webtransport.runtime.datagrams.dropped'', False, sta_dropped),
        (''webtransport.runtime.datagrams.queued_bytes'', True, sta_queued_bytes),
        (''webtransport.runtime.handlers.active'', True, sta_active),
        (''webtransport.runtime.handlers.outstanding'', True, sta_outstanding),
        (''webtransport.runtime.handlers.rejected'', False, sta_rejected_handlers),
        (''webtransport.runtime.logs.suppressed'', False, sta_suppressed)] @
     map (\<lambda>(name, read).
         \<lparr>mb_name = name, mb_gauge = False, mb_description = None, mb_reading = ReadReasons read\<rparr>)
       [(''webtransport.runtime.sessions.rejections'', sta_rejections),
        (''webtransport.runtime.datagrams.drops'', sta_drops)]"

text \<open>\<open>runtime\<close> tells whether the options have \<open>runtimeStats\<close>.\<close>

definition metric_bindings :: "bool \<Rightarrow> metric_binding list" where
  "metric_bindings runtime = driver_bindings @ (if runtime then runtime_bindings else [])"

text \<open>The observations of one callback; the object spread replaces an attribute called \<open>reason\<close>.\<close>

fun observe :: "attributes \<Rightarrow> driver_stats \<Rightarrow> runtime_stats \<Rightarrow> reading \<Rightarrow> observation list" where
  "observe attributes d r (ReadDriver read) = [\<lparr>ob_value = read d, ob_attributes = attributes\<rparr>]"
| "observe attributes d r (ReadRuntime read) = [\<lparr>ob_value = read r, ob_attributes = attributes\<rparr>]"
| "observe attributes d r (ReadReasons read) =
     map (\<lambda>(reason, value). \<lparr>ob_value = value, ob_attributes = AList.update ''reason'' (StringValue reason) attributes\<rparr>)
       (read r)"

text \<open>A collection of the meter: it calls every registered callback.\<close>

definition collect :: "metric_binding list \<Rightarrow> attributes \<Rightarrow> driver_stats \<Rightarrow> runtime_stats \<Rightarrow> (string \<times> observation list) list" where
  "collect bindings attributes d r = map (\<lambda>b. (mb_name b, observe attributes d r (mb_reading b))) bindings"

section \<open>Enabling and disabling\<close>

datatype meter_call = AddCallback string | RemoveCallback string

record metrics =
  wm_bindings :: "metric_binding list"
  wm_attributes :: attributes
  wm_enabled :: bool
  wm_calls :: "meter_call list"

definition new_metrics :: "attributes option \<Rightarrow> bool \<Rightarrow> metrics" where
  "new_metrics attributes runtime =
     \<lparr>wm_bindings = metric_bindings runtime,
      wm_attributes = (case attributes of Some a \<Rightarrow> a | None \<Rightarrow> []), wm_enabled = False, wm_calls = []\<rparr>"

definition enable :: "metrics \<Rightarrow> metrics" where
  "enable m =
     (if wm_enabled m then m
      else m\<lparr>wm_enabled := True, wm_calls := wm_calls m @ map (AddCallback \<circ> mb_name) (wm_bindings m)\<rparr>)"

definition disable :: "metrics \<Rightarrow> metrics" where
  "disable m =
     (if \<not> wm_enabled m then m
      else m\<lparr>wm_enabled := False, wm_calls := wm_calls m @ map (RemoveCallback \<circ> mb_name) (wm_bindings m)\<rparr>)"

datatype metrics_event = Enable | Disable

fun metrics_step :: "metrics_event \<Rightarrow> metrics \<Rightarrow> metrics" where
  "metrics_step Enable m = enable m"
| "metrics_step Disable m = disable m"

section \<open>The module\<close>

record ('m, 't) otel_options =
  oo_meter :: "'m option"
  oo_tracer :: "'t option"
  oo_instrumentation :: "string option"
  oo_attributes :: "attributes option"
  oo_runtime_stats :: bool
  oo_record_details :: "bool option"

record ('m, 't) normalized_otel =
  no_meter :: 'm
  no_tracer :: 't
  no_attributes :: attributes
  no_runtime_stats :: bool
  no_record_details :: bool

text \<open>
  \<open>forRoot\<close>: \<open>has_driver\<close> is \<open>options?.driver != null\<close>; \<open>get_meter\<close> and \<open>get_tracer\<close> are those of the
  OpenTelemetry API.
\<close>

definition for_root ::
  "(string \<Rightarrow> 'm) \<Rightarrow> (string \<Rightarrow> 't) \<Rightarrow> bool \<Rightarrow> ('m, 't) otel_options \<Rightarrow> thrown + ('m, 't) normalized_otel" where
  "for_root get_meter get_tracer has_driver o' =
     (if \<not> has_driver then
        Inl (JsError ''TypeError'' ''WebTransportOtelModule requires the WebTransport driver.'')
      else
        (let name = (case oo_instrumentation o' of Some x \<Rightarrow> x | None \<Rightarrow> ''nest-webtransport'') in
         Inr \<lparr>no_meter = (case oo_meter o' of Some x \<Rightarrow> x | None \<Rightarrow> get_meter name),
              no_tracer = (case oo_tracer o' of Some x \<Rightarrow> x | None \<Rightarrow> get_tracer name),
              no_attributes = (case oo_attributes o' of Some x \<Rightarrow> x | None \<Rightarrow> []),
              no_runtime_stats = oo_runtime_stats o',
              no_record_details = (case oo_record_details o' of Some x \<Rightarrow> x | None \<Rightarrow> False)\<rparr>))"

text \<open>\<open>onModuleInit\<close>: \<open>has_health\<close> tells whether the health service is found in the application.\<close>

definition module_init :: "bool \<Rightarrow> ('m, 't) normalized_otel \<Rightarrow> metrics" where
  "module_init has_health o' =
     (let runtime = (no_runtime_stats o' \<or> has_health) in enable (new_metrics (Some (no_attributes o')) runtime))"

definition module_destroy :: "metrics option \<Rightarrow> metrics option" where
  "module_destroy collector = map_option disable collector"

section \<open>The operations server\<close>

definition newline :: string where
  "newline = [char_of (10 :: nat)]"

fun join :: "string \<Rightarrow> string list \<Rightarrow> string" where
  "join sep [] = []"
| "join sep [x] = x"
| "join sep (x # y # xs) = x @ sep @ join sep (y # xs)"

definition operation_values :: "driver_stats \<Rightarrow> runtime_stats \<Rightarrow> bool \<Rightarrow> (string \<times> string \<times> int) list" where
  "operation_values stats runtime redis =
     [(''webtransport_sessions_active'', ''gauge'', fst (dst_sessions stats)),
      (''webtransport_sessions_total'', ''counter'', fst (snd (dst_sessions stats))),
      (''webtransport_sessions_rejected'', ''counter'', snd (snd (dst_sessions stats))),
      (''webtransport_streams_active'', ''gauge'', fst (dst_streams stats)),
      (''webtransport_streams_total'', ''counter'', snd (dst_streams stats)),
      (''webtransport_datagrams_received'', ''counter'', fst (dst_datagrams stats)),
      (''webtransport_datagrams_sent'', ''counter'', fst (snd (dst_datagrams stats))),
      (''webtransport_datagrams_dropped'', ''counter'', snd (snd (dst_datagrams stats))),
      (''webtransport_bytes_received'', ''counter'', fst (dst_bytes stats)),
      (''webtransport_bytes_sent'', ''counter'', snd (dst_bytes stats)),
      (''webtransport_runtime_sessions_accepted_total'', ''counter'', sta_accepted runtime),
      (''webtransport_runtime_sessions_rejected_total'', ''counter'', sta_rejected runtime),
      (''webtransport_runtime_datagrams_dropped_total'', ''counter'', sta_dropped runtime),
      (''webtransport_runtime_datagrams_queued_bytes'', ''gauge'', sta_queued_bytes runtime),
      (''webtransport_runtime_handlers_active'', ''gauge'', sta_active runtime),
      (''webtransport_runtime_handlers_outstanding'', ''gauge'', sta_outstanding runtime),
      (''webtransport_runtime_handlers_rejected_total'', ''counter'', sta_rejected_handlers runtime),
      (''webtransport_runtime_logs_suppressed_total'', ''counter'', sta_suppressed runtime),
      (''webtransport_redis_ready'', ''gauge'', if redis then 1 else 0)]"

definition operation_reasons :: "runtime_stats \<Rightarrow> (string \<times> (string \<times> int) list) list" where
  "operation_reasons runtime =
     [(''webtransport_runtime_session_rejections_total'', sta_rejections runtime),
      (''webtransport_runtime_datagram_drops_total'', sta_drops runtime)]"

definition metrics_body :: "driver_stats \<Rightarrow> runtime_stats \<Rightarrow> bool \<Rightarrow> string" where
  "metrics_body stats runtime redis =
     join newline (map (\<lambda>(name, type, value).
         ''# TYPE '' @ name @ '' '' @ type @ newline @ name @ '' '' @ show_int value)
       (operation_values stats runtime redis)) @ newline @
     join newline (map (\<lambda>(name, counts).
         join newline ((''# TYPE '' @ name @ '' counter'') #
           map (\<lambda>(reason, value). name @ ''{reason='' @ json_string reason @ ''} '' @ show_int value) counts))
       (operation_reasons runtime)) @ newline"

text \<open>The answer to a request: the status, and what the JSON or text body tells.\<close>

datatype operations_body =
    LiveBody bool
  | ReadyBody bool health_status bool
  | TextBody string
  | NotFoundBody

definition operations_response ::
  "int \<Rightarrow> string \<Rightarrow> runtime \<Rightarrow> log_state \<Rightarrow> driver \<Rightarrow> bool \<Rightarrow> bool \<Rightarrow> driver \<times> int \<times> operations_body" where
  "operations_response now url r l d redis_ready redis_failed =
     (if url = ''/livez'' then
        (let (d1, status) = get_status now r d; live = (hs_alive status \<and> \<not> redis_failed)
         in (d1, if live then 200 else 503, LiveBody live))
      else if url = ''/readyz'' then
        (let (d1, transport) = get_status now r d; ok = (hs_ready transport \<and> redis_ready)
         in (d1, if ok then 200 else 503, ReadyBody ok transport redis_ready))
      else if url = ''/metrics'' then
        (let (d1, stats) = get_driver_stats now d; runtime = get_runtime_stats r l
         in (d1, 200, TextBody (metrics_body stats runtime redis_ready)))
      else (d, 404, NotFoundBody))"

section \<open>Lemmas\<close>

lemma status_ready: "hs_ready (snd (get_status now r d)) \<longleftrightarrow> rt_state r = RUNNING \<and> dv_state d = RUNNING"
  by (auto simp: get_status_def runtime_snapshot_def snapshot_def Driver_Machine.get_stats_def refresh_stats_def
      Let_def)

lemma status_alive:
  "hs_alive (snd (get_status now r d)) \<longleftrightarrow> rt_state r \<noteq> STOPPED \<and> (rt_state r = RUNNING \<longrightarrow> dv_state d = RUNNING)"
  by (auto simp: get_status_def runtime_snapshot_def snapshot_def Driver_Machine.get_stats_def refresh_stats_def
      Let_def)

lemma collect_append:
  "collect (bs @ cs) a d r = collect bs a d r @ collect cs a d r"
  by (simp add: collect_def)

lemma reason_attributes_inject:
  "AList.update ''reason'' (StringValue x) a = AList.update ''reason'' (StringValue y) a \<longleftrightarrow> x = y"
proof
  assume "AList.update ''reason'' (StringValue x) a = AList.update ''reason'' (StringValue y) a"
  then have "map_of (AList.update ''reason'' (StringValue x) a) ''reason'' =
      map_of (AList.update ''reason'' (StringValue y) a) ''reason''" by simp
  then show "x = y" by (simp add: map_of_update)
qed simp

lemma reason_observations:
  "sum_list (map ob_value (observe a d r (ReadReasons f))) = count_total (f r)"
  "distinct (keys (f r)) \<Longrightarrow> distinct (map ob_attributes (observe a d r (ReadReasons f)))"
proof -
  show "sum_list (map ob_value (observe a d r (ReadReasons f))) = count_total (f r)"
    by (simp add: count_total_def case_prod_beta' comp_def)
  have "map ob_attributes (observe a d r (ReadReasons f)) =
      map (\<lambda>x. AList.update ''reason'' (StringValue x) a) (keys (f r))"
    by (simp add: case_prod_beta' comp_def)
  moreover have "inj (\<lambda>x. AList.update ''reason'' (StringValue x) a)"
    by (rule injI) (simp add: reason_attributes_inject)
  ultimately show "distinct (keys (f r)) \<Longrightarrow> distinct (map ob_attributes (observe a d r (ReadReasons f)))"
    by (simp add: distinct_map inj_on_def)
qed

lemma metric_names_distinct: "distinct (map mb_name (metric_bindings runtime))"
  by (cases runtime) (simp_all add: metric_bindings_def driver_bindings_def runtime_bindings_def bind_gauge_def bind_counter_def)

section \<open>The callbacks\<close>

definition registered :: "string \<Rightarrow> metrics \<Rightarrow> int" where
  "registered name m = int (count_list (wm_calls m) (AddCallback name)) - int (count_list (wm_calls m) (RemoveCallback name))"

definition metrics_inv :: "metrics \<Rightarrow> bool" where
  "metrics_inv m \<longleftrightarrow> distinct (map mb_name (wm_bindings m)) \<and>
     (\<forall>name. registered name m = (if wm_enabled m \<and> name \<in> set (map mb_name (wm_bindings m)) then 1 else 0))"

lemma count_list_names:
  assumes "distinct (map mb_name bs)" and "inj f"
  shows "count_list (map (f \<circ> mb_name) bs) (f name) = (if name \<in> mb_name ` set bs then 1 else 0)"
  using assms(1)
proof (induction bs)
  case (Cons b bs)
  then show ?case using assms(2) by (auto simp: inj_eq)
qed simp

lemma count_list_other: "(\<And>b. f b \<noteq> y) \<Longrightarrow> count_list (map f bs) y = 0"
  by (induction bs) auto

lemma inj_calls: "inj AddCallback" "inj RemoveCallback"
  by (auto intro: injI)

lemma registered_calls:
  assumes "distinct (map mb_name bs)"
  shows "wm_calls m' = wm_calls m @ map (AddCallback \<circ> mb_name) bs \<Longrightarrow>
      registered name m' = registered name m + (if name \<in> set (map mb_name bs) then 1 else 0)"
    and "wm_calls m' = wm_calls m @ map (RemoveCallback \<circ> mb_name) bs \<Longrightarrow>
      registered name m' = registered name m - (if name \<in> set (map mb_name bs) then 1 else 0)"
  using count_list_names [OF assms inj_calls(1), of name] count_list_names [OF assms inj_calls(2), of name]
  by (simp_all add: registered_def count_list_other)

lemma metrics_step_inv:
  assumes "metrics_inv m"
  shows "metrics_inv (metrics_step e m)"
proof -
  have d: "distinct (map mb_name (wm_bindings m))"
    and r: "\<And>name. registered name m = (if wm_enabled m \<and> name \<in> set (map mb_name (wm_bindings m)) then 1 else 0)"
    using assms by (simp_all add: metrics_inv_def)
  show ?thesis
  proof (cases e)
    case Enable
    with d r assms show ?thesis
      by (cases "wm_enabled m")
        (simp_all add: metrics_inv_def enable_def
          registered_calls(1) [OF d, of "m\<lparr>wm_enabled := True, wm_calls := x\<rparr>" m for x])
  next
    case Disable
    with d r assms show ?thesis
      by (cases "wm_enabled m")
        (simp_all add: metrics_inv_def disable_def
          registered_calls(2) [OF d, of "m\<lparr>wm_enabled := False, wm_calls := x\<rparr>" m for x])
  qed
qed

interpretation metrics_life: event_system metrics_step metrics_inv
  by unfold_locales (rule metrics_step_inv)

lemma new_metrics_inv: "metrics_inv (new_metrics a runtime)"
  by (simp add: metrics_inv_def new_metrics_def registered_def metric_names_distinct)

lemma metrics_bindings_kept [simp]: "wm_bindings (fold metrics_step es m) = wm_bindings m"
proof (induction es arbitrary: m)
  case (Cons e es)
  then show ?case by (cases e) (simp_all add: enable_def disable_def)
qed simp

text \<open>
  The collector registers every instrument's callback exactly once while it is enabled and not at
  all while it is disabled, however often \<open>enable\<close> and \<open>disable\<close> are called, and it never registers
  anything that is not one of its instruments.
\<close>

theorem callbacks_registered_once:
  "let m = fold metrics_step es (new_metrics a runtime) in
     registered name m =
       (if wm_enabled m \<and> name \<in> set (map mb_name (metric_bindings runtime)) then 1 else 0)"
  using metrics_life.run_inv [OF new_metrics_inv, of es a runtime]
  by (simp add: Let_def metrics_inv_def) (simp add: new_metrics_def)

section \<open>The exported numbers\<close>

definition values_of :: "string \<Rightarrow> (string \<times> observation list) list \<Rightarrow> int list" where
  "values_of name series = (case map_of series name of None \<Rightarrow> [] | Some os \<Rightarrow> map ob_value os)"

definition labels_of :: "string \<Rightarrow> (string \<times> observation list) list \<Rightarrow> attributes list" where
  "labels_of name series = (case map_of series name of None \<Rightarrow> [] | Some os \<Rightarrow> map ob_attributes os)"

lemma runtime_series:
  "map_of (collect (metric_bindings True) a d r) ''webtransport.runtime.sessions.rejected'' =
     Some (observe a d r (ReadRuntime sta_rejected))"
  "map_of (collect (metric_bindings True) a d r) ''webtransport.runtime.datagrams.dropped'' =
     Some (observe a d r (ReadRuntime sta_dropped))"
  "map_of (collect (metric_bindings True) a d r) ''webtransport.runtime.sessions.rejections'' =
     Some (observe a d r (ReadReasons sta_rejections))"
  "map_of (collect (metric_bindings True) a d r) ''webtransport.runtime.datagrams.drops'' =
     Some (observe a d r (ReadReasons sta_drops))"
  by (simp_all add: collect_def metric_bindings_def driver_bindings_def runtime_bindings_def bind_gauge_def
      bind_counter_def)

text \<open>
  C24. Whatever has happened to the runtime, a collection is consistent: the rejected sessions exported
  by reason sum to the exported number of rejected sessions, so do the dropped datagrams, and no two
  observations of an instrument carry the same labels.
\<close>

theorem exported_counters_balance:
  "let s = runtime_run pu url es (new_runtime n g);
       series = collect (metric_bindings True) a d (get_runtime_stats s l) in
     values_of ''webtransport.runtime.sessions.rejected'' series =
       [sum_list (values_of ''webtransport.runtime.sessions.rejections'' series)] \<and>
     values_of ''webtransport.runtime.datagrams.dropped'' series =
       [sum_list (values_of ''webtransport.runtime.datagrams.drops'' series)] \<and>
     distinct (labels_of ''webtransport.runtime.sessions.rejections'' series) \<and>
     distinct (labels_of ''webtransport.runtime.datagrams.drops'' series)"
proof -
  let ?s = "runtime_run pu url es (new_runtime n g)"
  have "rt_rejected ?s = count_total (rt_rejections ?s)" "rt_dropped ?s = count_total (rt_drops ?s)"
    and d: "distinct (keys (rt_rejections ?s))" "distinct (keys (rt_drops ?s))"
    using balance.part_run [of pu url es "new_runtime n g"]
    by (simp_all add: balance_def) (simp_all add: new_runtime_def count_total_def)
  then show ?thesis
    by (simp add: Let_def values_of_def labels_of_def runtime_series reason_observations
        get_runtime_stats_def Runtime_Logs.get_stats_def del: observe.simps(3))
qed

text \<open>
  The two exporters agree: the numbers of the operations endpoint are, in the same order, those
  that a collection of the OpenTelemetry instruments observes on the same statistics, followed by the
  state of Redis; and its labelled counters are the labelled observations.
\<close>

theorem exporters_agree:
  "map (snd \<circ> snd) (operation_values d r redis) =
     concat (map (map ob_value \<circ> snd)
       (filter (\<lambda>x. fst x \<notin> {''webtransport.runtime.sessions.rejections'', ''webtransport.runtime.datagrams.drops''})
         (collect (metric_bindings True) a d r))) @ [if redis then 1 else 0] \<and>
   map (map snd \<circ> snd) (operation_reasons r) =
     [values_of ''webtransport.runtime.sessions.rejections'' (collect (metric_bindings True) a d r),
      values_of ''webtransport.runtime.datagrams.drops'' (collect (metric_bindings True) a d r)]"
proof
  show "map (map snd \<circ> snd) (operation_reasons r) =
     [values_of ''webtransport.runtime.sessions.rejections'' (collect (metric_bindings True) a d r),
      values_of ''webtransport.runtime.datagrams.drops'' (collect (metric_bindings True) a d r)]"
    unfolding values_of_def runtime_series by (simp add: operation_reasons_def case_prod_beta' comp_def)
qed (simp add: operation_values_def collect_def metric_bindings_def driver_bindings_def runtime_bindings_def
    bind_gauge_def bind_counter_def)

end
