(* ===== verification/Tracing.thy ===== *)
theory Tracing
  imports Health_Metrics
begin

text \<open>
  The tracing interceptor of the OpenTelemetry package (\<open>tracing.interceptor.ts\<close>): the name and the
  attributes of the span of a handler, and what the operators \<open>catchError\<close> and \<open>finalize\<close> make of the
  handler's observable. The tracer, the instruments and the operators of RxJS are third-party; the
  calls made on them are recorded in order, with what the subscriber sees. \<open>finalize\<close> runs once, after
  the subscriber has seen the end or has unsubscribed.
\<close>

section \<open>The span of a handler\<close>

record traced_handler =
  th_class :: string
  th_method :: string
  th_session :: string
  th_path :: string
  th_stream :: "nat option"
  th_has_datagram :: bool

definition handler_kind :: "traced_handler \<Rightarrow> string" where
  "handler_kind h =
     (if th_stream h \<noteq> None then ''stream'' else if th_has_datagram h then ''datagram'' else ''session'')"

definition span_name :: "traced_handler \<Rightarrow> string" where
  "span_name h = ''webtransport.'' @ handler_kind h @ ''.'' @ th_class h @ ''.'' @ th_method h"

text \<open>\<open>pathname\<close> is that of the parsed path, without query and fragment.\<close>

definition metric_attributes :: "(string \<Rightarrow> string) \<Rightarrow> attributes \<Rightarrow> traced_handler \<Rightarrow> attributes" where
  "metric_attributes pathname base h =
     AList.update ''webtransport.path'' (StringValue (pathname (th_path h)))
       (AList.update ''webtransport.kind'' (StringValue (handler_kind h)) base)"

definition span_attributes :: "(string \<Rightarrow> string) \<Rightarrow> attributes \<Rightarrow> traced_handler \<Rightarrow> attributes" where
  "span_attributes pathname base h =
     (let a = AList.update ''webtransport.session.id'' (StringValue (th_session h)) (metric_attributes pathname base h)
      in case th_stream h of
           None \<Rightarrow> a
         | Some n \<Rightarrow> AList.update ''webtransport.stream.id'' (StringValue (show_nat n)) a)"

section \<open>The observable\<close>

datatype recorded_exception = HiddenException | DetailedException thrown | UnknownException

datatype 'v trace_action =
    StartSpan string attributes
  | Forward 'v
  | CountError attributes
  | RecordException recorded_exception
  | SetErrorStatus
  | ForwardError thrown
  | ForwardComplete
  | RecordDuration int attributes
  | EndSpan

record 'v traced =
  tr_started :: int
  tr_finished :: bool
  tr_actions :: "'v trace_action list"

definition record_action :: "'v trace_action \<Rightarrow> 'v traced \<Rightarrow> 'v traced" where
  "record_action a s = s\<lparr>tr_actions := tr_actions s @ [a]\<rparr>"

definition to_exception :: "thrown \<Rightarrow> recorded_exception" where
  "to_exception e = (case e of NonError \<Rightarrow> UnknownException | _ \<Rightarrow> DetailedException e)"

definition finish :: "attributes \<Rightarrow> int \<Rightarrow> 'v traced \<Rightarrow> 'v traced" where
  "finish metric now s =
     (record_action EndSpan (record_action (RecordDuration (now - tr_started s) metric) s))\<lparr>tr_finished := True\<rparr>"

datatype 'v source_event = SourceNext 'v | SourceError thrown int | SourceComplete int | Unsubscribes int

definition traced_step :: "bool \<Rightarrow> attributes \<Rightarrow> 'v source_event \<Rightarrow> 'v traced \<Rightarrow> 'v traced" where
  "traced_step details metric e s =
     (if tr_finished s then s
      else
        (case e of
           SourceNext v \<Rightarrow> record_action (Forward v) s
         | SourceError x now \<Rightarrow>
             finish metric now
               (record_action (ForwardError x) (record_action SetErrorStatus
                 (record_action (RecordException (if details then to_exception x else HiddenException))
                   (record_action (CountError metric) s))))
         | SourceComplete now \<Rightarrow> finish metric now (record_action ForwardComplete s)
         | Unsubscribes now \<Rightarrow> finish metric now s))"

text \<open>
  \<open>intercept\<close> and its subscription at time \<open>started\<close>; \<open>None\<close>, when the context is not one of
  WebTransport, leaves the handler as it is.
\<close>

definition intercept ::
  "(string \<Rightarrow> string) \<Rightarrow> attributes \<Rightarrow> bool \<Rightarrow> string \<Rightarrow> traced_handler \<Rightarrow> int \<Rightarrow> 'v source_event list
     \<Rightarrow> 'v traced option" where
  "intercept pathname base details context h started es =
     (if context \<noteq> ''webtransport'' then None
      else Some (fold (traced_step details (metric_attributes pathname base h)) es
        \<lparr>tr_started = started, tr_finished = False,
         tr_actions = [StartSpan (span_name h) (span_attributes pathname base h)]\<rparr>))"

section \<open>What is recorded\<close>

text \<open>The handler's events up to the first that ends it.\<close>

fun until_end :: "'v source_event list \<Rightarrow> 'v list \<times> 'v source_event option" where
  "until_end [] = ([], None)"
| "until_end (SourceNext v # es) = (case until_end es of (vs, e) \<Rightarrow> (v # vs, e))"
| "until_end (e # es) = ([], Some e)"

fun ending :: "bool \<Rightarrow> attributes \<Rightarrow> int \<Rightarrow> 'v source_event option \<Rightarrow> 'v trace_action list" where
  "ending details metric started (Some (SourceError x now)) =
     [CountError metric, RecordException (if details then to_exception x else HiddenException), SetErrorStatus,
      ForwardError x, RecordDuration (now - started) metric, EndSpan]"
| "ending details metric started (Some (SourceComplete now)) =
     [ForwardComplete, RecordDuration (now - started) metric, EndSpan]"
| "ending details metric started (Some (Unsubscribes now)) = [RecordDuration (now - started) metric, EndSpan]"
| "ending details metric started _ = []"

lemma finished_run: "tr_finished s \<Longrightarrow> fold (traced_step details metric) es s = s"
  by (induction es) (simp_all add: traced_step_def)

lemma traced_run:
  "\<not> tr_finished s \<Longrightarrow>
   fold (traced_step details metric) es s =
     s\<lparr>tr_finished := (snd (until_end es) \<noteq> None),
       tr_actions := tr_actions s @ map Forward (fst (until_end es)) @
         ending details metric (tr_started s) (snd (until_end es))\<rparr>"
proof (induction es arbitrary: s)
  case (Cons e es)
  show ?case
  proof (cases e)
    case (SourceNext v)
    have "traced_step details metric e s = record_action (Forward v) s"
      using SourceNext Cons.prems by (simp add: traced_step_def)
    with Cons.IH [of "record_action (Forward v) s"] Cons.prems SourceNext show ?thesis
      by (simp add: record_action_def case_prod_beta')
  next
    case (SourceError x now)
    then have "traced_step details metric e s = s\<lparr>tr_finished := True,
        tr_actions := tr_actions s @ ending details metric (tr_started s) (Some e)\<rparr>"
      using Cons.prems by (cases s) (simp add: traced_step_def finish_def record_action_def)
    with SourceError show ?thesis by (simp add: finished_run)
  next
    case (SourceComplete now)
    then have "traced_step details metric e s = s\<lparr>tr_finished := True,
        tr_actions := tr_actions s @ ending details metric (tr_started s) (Some e)\<rparr>"
      using Cons.prems by (cases s) (simp add: traced_step_def finish_def record_action_def)
    with SourceComplete show ?thesis by (simp add: finished_run)
  next
    case (Unsubscribes now)
    then have "traced_step details metric e s = s\<lparr>tr_finished := True,
        tr_actions := tr_actions s @ ending details metric (tr_started s) (Some e)\<rparr>"
      using Cons.prems by (cases s) (simp add: traced_step_def finish_def record_action_def)
    with Unsubscribes show ?thesis by (simp add: finished_run)
  qed
qed simp

text \<open>
  C36. The telemetry of a handler, exactly: one span is started; every value the handler emits before its
  first end is forwarded; a failure is counted, recorded (without its details unless they were asked
  for) and marked on the span before the subscriber sees it; and the first end, a failure, a completion
  or an unsubscription, records one duration and ends the span, once, whatever follows.
\<close>

theorem handler_traced_exactly:
  "intercept pathname base details ''webtransport'' h started es =
     Some \<lparr>tr_started = started, tr_finished = (snd (until_end es) \<noteq> None),
       tr_actions = StartSpan (span_name h) (span_attributes pathname base h) # map Forward (fst (until_end es)) @
         ending details (metric_attributes pathname base h) started (snd (until_end es))\<rparr>"
  by (simp add: intercept_def traced_run)

text \<open>The query of a session's path never reaches a label.\<close>

lemma labels_without_query:
  "map_of (metric_attributes pathname base h) ''webtransport.path'' = Some (StringValue (pathname (th_path h)))"
  by (simp add: metric_attributes_def map_of_update)

end
