(* ===== verification/Presence.thy ===== *)
theory Presence
  imports Health_Metrics
begin

text \<open>
  Presence in the production example: the client of Redis that fails once and for all
  (\<open>redis-presence.service.ts\<close>), the gateway that records a session and ends it when its credential
  expires (\<open>realtime.gateway.ts\<close>), and the probes of the operations server on top of them. The client
  is a third-party object; whether it is open and ready are inputs, and \<open>destroy\<close> closes it.
\<close>

section \<open>The Redis client\<close>

record redis_command =
  rc_arguments :: "string list"
  rc_settled :: bool

datatype redis_action = SendCommand nat | DestroyClient

datatype shutdown_point = NotShutDown | ShuttingDown | ShutDown

record presence =
  rp_ready :: bool
  rp_failed :: bool
  rp_stopping :: bool
  rp_open :: bool
  rp_client_ready :: bool
  rp_commands :: "redis_command list"
  rp_in_flight :: "nat list"
  rp_shutdown :: shutdown_point
  rp_trace :: "redis_action list"

definition new_presence :: presence where
  "new_presence =
     \<lparr>rp_ready = False, rp_failed = False, rp_stopping = False, rp_open = False, rp_client_ready = False,
      rp_commands = [], rp_in_flight = [], rp_shutdown = NotShutDown, rp_trace = []\<rparr>"

definition is_ready :: "presence \<Rightarrow> bool" where
  "is_ready s \<longleftrightarrow> \<not> rp_stopping s \<and> \<not> rp_failed s \<and> rp_ready s \<and> rp_client_ready s"

text \<open>\<open>reconnectStrategy\<close>; \<open>jitter\<close> is \<open>Math.floor(Math.random() * 100)\<close>. \<open>None\<close> is \<open>false\<close>.\<close>

definition reconnect_strategy :: "nat \<Rightarrow> int \<Rightarrow> presence \<Rightarrow> presence \<times> int option" where
  "reconnect_strategy retries jitter s =
     (if rp_stopping s \<or> retries \<ge> 5 then (s\<lparr>rp_failed := \<not> rp_stopping s\<rparr>, None)
      else (s, Some (min (100 * 2 ^ retries) 1000 + jitter)))"

definition redis_ready :: "presence \<Rightarrow> presence" where
  "redis_ready s = s\<lparr>rp_ready := True\<rparr>"

text \<open>\<open>end\<close>, \<open>error\<close> and \<open>reconnecting\<close>.\<close>

definition redis_interrupted :: "presence \<Rightarrow> presence" where
  "redis_interrupted s = s\<lparr>rp_ready := False\<rparr>"

definition destroy_client :: "presence \<Rightarrow> presence" where
  "destroy_client s =
     s\<lparr>rp_open := False, rp_client_ready := False, rp_trace := rp_trace s @ [DestroyClient]\<rparr>"

definition fail_presence :: "presence \<Rightarrow> presence" where
  "fail_presence s0 =
     (let s = s0\<lparr>rp_ready := False, rp_failed := \<not> rp_stopping s0\<rparr>
      in if rp_open s then destroy_client s else s)"

text \<open>
  \<open>onModuleInit\<close> when its race ends: \<open>timed_out\<close> tells that the deadline came first, which has already
  failed the service; the caller sees an error unless the connection was made.
\<close>

datatype connect_outcome = ConnectionMade | ConnectionRefused | ConnectionTimesOut

definition module_init_settles :: "connect_outcome \<Rightarrow> presence \<Rightarrow> presence \<times> thrown option" where
  "module_init_settles r s =
     (case r of
        ConnectionMade \<Rightarrow> (s, None)
      | _ \<Rightarrow>
          (fail_presence (if r = ConnectionTimesOut then fail_presence s else s),
           Some (JsError ''Error'' ''Redis presence could not connect within its startup budget.'')))"

definition presence_key :: "string \<Rightarrow> string" where
  "presence_key session = ''webtransport:presence:'' @ session"

definition mark_connected_arguments :: "string \<Rightarrow> string \<Rightarrow> string list" where
  "mark_connected_arguments session user = [''SET'', presence_key session, user, ''EX'', show_int 120]"

definition refresh_arguments :: "string \<Rightarrow> string list" where
  "refresh_arguments session = [''EXPIRE'', presence_key session, show_int 120]"

definition mark_disconnected_arguments :: "string \<Rightarrow> string list" where
  "mark_disconnected_arguments session = [''DEL'', presence_key session]"

text \<open>\<open>command\<close> up to its wait: \<open>aborted\<close> is the state of the caller's signal.\<close>

datatype command_result = CommandSent nat | CommandAborted | PresenceUnavailable

definition redis_command :: "string list \<Rightarrow> bool \<Rightarrow> presence \<Rightarrow> presence \<times> command_result" where
  "redis_command arguments aborted s =
     (if aborted then (s, CommandAborted)
      else if \<not> is_ready s then (s, PresenceUnavailable)
      else
        (let k = length (rp_commands s) in
         (s\<lparr>rp_commands := rp_commands s @ [\<lparr>rc_arguments = arguments, rc_settled = False\<rparr>],
            rp_in_flight := rp_in_flight s @ [k], rp_trace := rp_trace s @ [SendCommand k]\<rparr>, CommandSent k)))"

text \<open>The promise of a command with its deadline settles, by the reply or by the deadline.\<close>

definition command_settles :: "nat \<Rightarrow> bool \<Rightarrow> presence \<Rightarrow> presence" where
  "command_settles k timed_out s0 =
     (if \<not> (k < length (rp_commands s0) \<and> \<not> rc_settled (rp_commands s0 ! k)) then s0
      else
        (let s = (if timed_out then fail_presence s0 else s0)
         in s\<lparr>rp_commands := (rp_commands s)[k := (rp_commands s ! k)\<lparr>rc_settled := True\<rparr>],
              rp_in_flight := js_delete k (rp_in_flight s)\<rparr>))"

text \<open>\<open>onApplicationShutdown\<close> up to its wait, and from there on.\<close>

definition begin_shutdown :: "presence \<Rightarrow> presence" where
  "begin_shutdown s0 =
     (let s = s0\<lparr>rp_stopping := True, rp_ready := False\<rparr>
      in if \<not> rp_open s then s\<lparr>rp_shutdown := ShutDown\<rparr> else s\<lparr>rp_shutdown := ShuttingDown\<rparr>)"

definition shutdown_settles :: "bool \<Rightarrow> presence \<Rightarrow> presence" where
  "shutdown_settles timed_out s0 =
     (if rp_shutdown s0 \<noteq> ShuttingDown \<or> \<not> timed_out \<and> rp_in_flight s0 \<noteq> [] then s0
      else
        (let s = (if timed_out then fail_presence s0 else s0);
             s1 = (if rp_open s then destroy_client s else s)
         in s1\<lparr>rp_shutdown := ShutDown\<rparr>))"

text \<open>\<open>ClientChanges\<close>: what the third-party client says of itself.\<close>

datatype redis_event =
    ClientChanges bool bool
  | RedisReady
  | RedisInterrupted
  | Reconnects nat int
  | ConnectSettles connect_outcome
  | SendsCommand "string list" bool
  | CommandSettles nat bool
  | BeginShutdown
  | ShutdownSettles bool

fun redis_step :: "redis_event \<Rightarrow> presence \<Rightarrow> presence" where
  "redis_step (ClientChanges opened up) s = s\<lparr>rp_open := opened, rp_client_ready := up\<rparr>"
| "redis_step RedisReady s = redis_ready s"
| "redis_step RedisInterrupted s = redis_interrupted s"
| "redis_step (Reconnects retries jitter) s = fst (reconnect_strategy retries jitter s)"
| "redis_step (ConnectSettles r) s = fst (module_init_settles r s)"
| "redis_step (SendsCommand arguments aborted) s = fst (redis_command arguments aborted s)"
| "redis_step (CommandSettles k timed_out) s = command_settles k timed_out s"
| "redis_step BeginShutdown s = begin_shutdown s"
| "redis_step (ShutdownSettles timed_out) s = shutdown_settles timed_out s"

definition in_flight_ok :: "redis_command list \<Rightarrow> nat list \<Rightarrow> bool" where
  "in_flight_ok cs ks \<longleftrightarrow>
     distinct ks \<and> (\<forall>k. k \<in> set ks \<longleftrightarrow> k < length cs \<and> \<not> rc_settled (cs ! k))"

definition presence_inv :: "presence \<Rightarrow> bool" where
  "presence_inv s \<longleftrightarrow>
     in_flight_ok (rp_commands s) (rp_in_flight s) \<and> (rp_shutdown s \<noteq> NotShutDown \<longrightarrow> rp_stopping s)"

lemma in_flight_send:
  assumes "in_flight_ok cs ks" and "\<not> rc_settled c"
  shows "in_flight_ok (cs @ [c]) (ks @ [length cs])"
proof -
  have "k < length (cs @ [c]) \<and> \<not> rc_settled ((cs @ [c]) ! k) \<longleftrightarrow> k = length cs \<or> k < length cs \<and> \<not> rc_settled (cs ! k)" for k
    using assms(2) by (cases "k < length cs") (auto simp: nth_append)
  with assms(1) show ?thesis by (auto simp: in_flight_ok_def)
qed

lemma in_flight_settle:
  "in_flight_ok cs ks \<Longrightarrow> k < length cs \<Longrightarrow> rc_settled c \<Longrightarrow> in_flight_ok (cs[k := c]) (js_delete k ks)"
  by (auto simp: in_flight_ok_def nth_list_update)

lemma fail_presence_frame [simp]:
  "rp_commands (fail_presence s) = rp_commands s" "rp_in_flight (fail_presence s) = rp_in_flight s"
  "rp_stopping (fail_presence s) = rp_stopping s" "rp_shutdown (fail_presence s) = rp_shutdown s"
  "rp_failed (fail_presence s) = (\<not> rp_stopping s)" "rp_ready (fail_presence s) = False"
  by (simp_all add: fail_presence_def destroy_client_def Let_def)

lemma presence_inv_fields:
  "presence_inv s \<Longrightarrow> rp_commands s' = rp_commands s \<Longrightarrow> rp_in_flight s' = rp_in_flight s \<Longrightarrow>
   rp_stopping s' = rp_stopping s \<Longrightarrow> rp_shutdown s' = rp_shutdown s \<Longrightarrow> presence_inv s'"
  by (simp add: presence_inv_def)

lemma command_inv: "presence_inv s \<Longrightarrow> presence_inv (fst (redis_command arguments aborted s))"
  by (simp add: redis_command_def presence_inv_def in_flight_send Let_def)

lemma command_settles_inv: "presence_inv s \<Longrightarrow> presence_inv (command_settles k timed_out s)"
  by (simp add: command_settles_def presence_inv_def in_flight_settle Let_def)

definition sent :: "presence \<Rightarrow> nat list" where
  "sent s = concat (map (\<lambda>a. case a of SendCommand k \<Rightarrow> [k] | DestroyClient \<Rightarrow> []) (rp_trace s))"

lemma sent_fail [simp]: "sent (fail_presence s) = sent s"
  by (simp add: fail_presence_def destroy_client_def sent_def Let_def)

lemma connect_settles_frame [simp]:
  "rp_commands (fst (module_init_settles r s)) = rp_commands s"
  "rp_in_flight (fst (module_init_settles r s)) = rp_in_flight s"
  "rp_stopping (fst (module_init_settles r s)) = rp_stopping s"
  "rp_shutdown (fst (module_init_settles r s)) = rp_shutdown s"
  "sent (fst (module_init_settles r s)) = sent s"
  "rp_failed s \<or> rp_stopping s \<Longrightarrow> rp_failed (fst (module_init_settles r s)) \<or> rp_stopping s"
  by (cases r; simp add: module_init_settles_def)+

lemma redis_step_inv: "presence_inv s \<Longrightarrow> presence_inv (redis_step e s)"
proof (cases e)
  case (Reconnects retries jitter)
  assume "presence_inv s"
  with Reconnects show ?thesis by (auto simp: reconnect_strategy_def presence_inv_def)
next
  case (ShutdownSettles timed_out)
  assume "presence_inv s"
  with ShutdownSettles show ?thesis
    by (auto simp: shutdown_settles_def presence_inv_def destroy_client_def Let_def)
qed (simp_all add: command_inv command_settles_inv,
    simp_all add: redis_ready_def redis_interrupted_def begin_shutdown_def presence_inv_def Let_def)

interpretation presence_life: event_system redis_step presence_inv
  by unfold_locales (rule redis_step_inv)

lemma new_presence_inv: "presence_inv new_presence"
  by (simp add: presence_inv_def in_flight_ok_def new_presence_def)

text \<open>A service that has failed or is stopping sends nothing, and does not recover.\<close>

lemma unavailable_step:
  assumes "rp_failed s \<or> rp_stopping s"
  shows "sent (redis_step e s) = sent s" and "rp_failed (redis_step e s) \<or> rp_stopping (redis_step e s)"
proof -
  have "sent (redis_step e s) = sent s \<and> (rp_failed (redis_step e s) \<or> rp_stopping (redis_step e s))"
  proof (cases e)
    case (CommandSettles k timed_out)
    have "sent (s\<lparr>rp_commands := cs, rp_in_flight := ks\<rparr>) = sent s" for s cs ks by (simp add: sent_def)
    with CommandSettles assms show ?thesis by (auto simp: command_settles_def Let_def)
  next
    case (ShutdownSettles timed_out)
    have "sent (s\<lparr>rp_shutdown := x\<rparr>) = sent s" "sent (destroy_client s) = sent s" for s x
      by (simp_all add: sent_def destroy_client_def)
    with ShutdownSettles assms show ?thesis by (auto simp: shutdown_settles_def destroy_client_def Let_def)
  next
    case (SendsCommand arguments aborted)
    with assms show ?thesis by (auto simp: redis_command_def is_ready_def)
  next
    case (Reconnects retries jitter)
    with assms show ?thesis by (auto simp: reconnect_strategy_def sent_def)
  qed (use assms in \<open>simp_all add: redis_ready_def redis_interrupted_def begin_shutdown_def Let_def sent_def [symmetric]\<close>,
      simp_all add: sent_def)
  then show "sent (redis_step e s) = sent s" and "rp_failed (redis_step e s) \<or> rp_stopping (redis_step e s)" by simp_all
qed

lemma unavailable_run:
  "rp_failed s \<or> rp_stopping s \<Longrightarrow>
   sent (fold redis_step es s) = sent s \<and> (rp_failed (fold redis_step es s) \<or> rp_stopping (fold redis_step es s))"
proof (induction es arbitrary: s)
  case (Cons e es)
  from Cons.IH [OF unavailable_step(2) [OF Cons.prems]] unavailable_step(1) [OF Cons.prems] show ?case by simp
qed simp

text \<open>
  C38. Failing is final: once a deadline, a refused connection or exhausted retries have failed the
  presence service, or its shutdown has begun, it reports that it is not ready and sends no further command,
  whatever the client announces later; and the commands it waits for at shutdown are exactly those that
  have not settled.
\<close>

theorem presence_failure_final:
  assumes "rp_failed (fold redis_step es new_presence) \<or> rp_stopping (fold redis_step es new_presence)"
  shows "let s = fold redis_step es new_presence; s' = fold redis_step es' s in
     \<not> is_ready s' \<and> sent s' = sent s \<and>
     (k \<in> set (rp_in_flight s') \<longleftrightarrow> k < length (rp_commands s') \<and> \<not> rc_settled (rp_commands s' ! k))"
proof -
  let ?s = "fold redis_step es new_presence"
  have "presence_inv (fold redis_step es' ?s)"
    by (intro presence_life.run_inv new_presence_inv)
  then show ?thesis
    using unavailable_run [OF assms, of es'] by (auto simp: Let_def is_ready_def presence_inv_def in_flight_ok_def)
qed

lemma reconnect_delay:
  "snd (reconnect_strategy retries jitter s) = Some d \<Longrightarrow> 0 \<le> jitter \<Longrightarrow> jitter < 100 \<Longrightarrow>
   100 \<le> d \<and> d < 1100 \<and> retries < 5"
proof -
  have "retries < 5 \<Longrightarrow> retries \<in> {0, 1, 2, 3, 4}" by auto
  then show "snd (reconnect_strategy retries jitter s) = Some d \<Longrightarrow> 0 \<le> jitter \<Longrightarrow> jitter < 100 \<Longrightarrow> ?thesis"
    by (auto simp: reconnect_strategy_def min_def split: if_splits)
qed

section \<open>The gateway\<close>

datatype realtime_point = MarkingConnected | Connected | ConnectionEnded

datatype realtime_action = MarkDisconnected | CloseExpired int

record realtime =
  rg_expires :: int
  rg_aborted :: bool
  rg_point :: realtime_point
  rg_listening :: bool
  rg_cleaned :: bool
  rg_timer :: "int option"
  rg_trace :: "realtime_action list"

definition new_realtime :: "int \<Rightarrow> realtime" where
  "new_realtime expires =
     \<lparr>rg_expires = expires, rg_aborted = False, rg_point = MarkingConnected, rg_listening = False, rg_cleaned = False,
      rg_timer = None, rg_trace = []\<rparr>"

definition cleanup :: "realtime \<Rightarrow> realtime" where
  "cleanup s0 =
     (let s = s0\<lparr>rg_timer := None\<rparr>
      in if rg_cleaned s then s else s\<lparr>rg_cleaned := True, rg_trace := rg_trace s @ [MarkDisconnected]\<rparr>)"

definition max_timer :: int where
  "max_timer = 2147483647"

definition expire :: "int \<Rightarrow> realtime \<Rightarrow> realtime" where
  "expire now s =
     (let remaining = rg_expires s - now
      in if remaining \<le> 0 then
           (let s1 = cleanup s in s1\<lparr>rg_trace := rg_trace s1 @ [CloseExpired now]\<rparr>)
         else s\<lparr>rg_timer := Some (min remaining max_timer)\<rparr>)"

text \<open>\<open>connected\<close> after \<open>markConnected\<close> has settled.\<close>

definition mark_settles :: "bool \<Rightarrow> int \<Rightarrow> realtime \<Rightarrow> realtime" where
  "mark_settles ok now s =
     (if rg_point s \<noteq> MarkingConnected then s
      else if \<not> ok then (cleanup s)\<lparr>rg_point := ConnectionEnded\<rparr>
      else if rg_aborted s then (cleanup s)\<lparr>rg_point := ConnectionEnded\<rparr>
      else expire now (s\<lparr>rg_listening := True, rg_point := Connected\<rparr>))"

definition realtime_aborts :: "realtime \<Rightarrow> realtime" where
  "realtime_aborts s0 =
     (if rg_aborted s0 then s0
      else
        (let s = s0\<lparr>rg_aborted := True\<rparr> in if rg_listening s then (cleanup s)\<lparr>rg_listening := False\<rparr> else s))"

definition timer_fires :: "int \<Rightarrow> realtime \<Rightarrow> realtime" where
  "timer_fires now s = (case rg_timer s of None \<Rightarrow> s | Some _ \<Rightarrow> expire now (s\<lparr>rg_timer := None\<rparr>))"

datatype realtime_event = MarkSettles bool int | RealtimeAborts | TimerFires int

fun realtime_step :: "realtime_event \<Rightarrow> realtime \<Rightarrow> realtime" where
  "realtime_step (MarkSettles ok now) s = mark_settles ok now s"
| "realtime_step RealtimeAborts s = realtime_aborts s"
| "realtime_step (TimerFires now) s = timer_fires now s"

definition realtime_inv :: "realtime \<Rightarrow> bool" where
  "realtime_inv s \<longleftrightarrow>
     count_list (rg_trace s) MarkDisconnected = (if rg_cleaned s then 1 else 0) \<and>
     (\<forall>now. CloseExpired now \<in> set (rg_trace s) \<longrightarrow> rg_expires s \<le> now \<and> rg_cleaned s) \<and>
     (\<forall>d. rg_timer s = Some d \<longrightarrow> 0 < d \<and> d \<le> max_timer \<and> rg_point s = Connected \<and> \<not> rg_cleaned s) \<and>
     (rg_point s = MarkingConnected \<longrightarrow> \<not> rg_cleaned s \<and> \<not> rg_listening s \<and> rg_timer s = None) \<and>
     (rg_point s \<noteq> MarkingConnected \<longrightarrow> rg_cleaned s \<or> rg_timer s \<noteq> None \<and> rg_listening s \<and> \<not> rg_aborted s) \<and>
     (rg_listening s \<longrightarrow> \<not> rg_aborted s)"

lemma realtime_step_inv: "realtime_inv s \<Longrightarrow> realtime_inv (realtime_step e s)"
  by (cases e)
    (auto simp: realtime_inv_def mark_settles_def realtime_aborts_def timer_fires_def expire_def cleanup_def
      max_timer_def Let_def split: option.splits)

interpretation realtime_life: event_system realtime_step realtime_inv
  by unfold_locales (rule realtime_step_inv)

lemma new_realtime_inv: "realtime_inv (new_realtime expires)"
  by (simp add: realtime_inv_def new_realtime_def)

lemma realtime_expires [simp]: "rg_expires (fold realtime_step es s) = rg_expires s"
proof -
  have "rg_expires (realtime_step e s) = rg_expires s" for e s
    by (cases e) (auto simp: mark_settles_def realtime_aborts_def timer_fires_def expire_def cleanup_def Let_def
        split: option.splits)
  then show ?thesis by (induction es arbitrary: s) simp_all
qed

text \<open>
  A session of the realtime gateway is marked disconnected at most once, and for certain as soon as the
  connection handler is over and the session has aborted or has been closed as expired; a session is
  closed as expired only when its credential has expired; and while neither has happened, a timer
  within the range of \<open>setTimeout\<close> is pending.
\<close>

theorem realtime_cleans_up_once:
  "let s = fold realtime_step es (new_realtime expires) in
     count_list (rg_trace s) MarkDisconnected \<le> 1 \<and>
     (\<forall>now. CloseExpired now \<in> set (rg_trace s) \<longrightarrow> expires \<le> now) \<and>
     (rg_point s = MarkingConnected \<or> count_list (rg_trace s) MarkDisconnected = 1 \<or>
        \<not> rg_aborted s \<and> (\<exists>d. rg_timer s = Some d \<and> 0 < d \<and> d \<le> 2147483647))"
proof -
  let ?s = "fold realtime_step es (new_realtime expires)"
  have i: "realtime_inv ?s" by (rule realtime_life.run_inv [OF new_realtime_inv])
  have e: "rg_expires ?s = expires" by simp (simp add: new_realtime_def)
  show ?thesis
    using i unfolding Let_def realtime_inv_def e max_timer_def by (auto split: if_splits)
qed

section \<open>The probes\<close>

definition probe ::
  "string \<Rightarrow> int \<Rightarrow> runtime \<Rightarrow> log_state \<Rightarrow> driver \<Rightarrow> presence \<Rightarrow> int" where
  "probe url now r l d s = fst (snd (operations_response now url r l d (is_ready s) (rp_failed s)))"

text \<open>
  What the probes of the operations server report, exactly: ready when the runtime and the driver are
  running and Redis is ready; alive unless the runtime has stopped, the driver has died under a
  running runtime, or Redis has failed for good. So a process is never reported ready and not alive,
  and one whose client has failed is neither.
\<close>

theorem probes_exact:
  "probe ''/readyz'' now r l d s =
      (if rt_state r = RUNNING \<and> dv_state d = RUNNING \<and> is_ready s then 200 else 503) \<and>
   probe ''/livez'' now r l d s =
      (if rt_state r \<noteq> STOPPED \<and> \<not> (rt_state r = RUNNING \<and> dv_state d \<noteq> RUNNING) \<and> \<not> rp_failed s then 200 else 503) \<and>
   \<not> (probe ''/readyz'' now r l d s = 200 \<and> probe ''/livez'' now r l d s = 503)"
  using status_ready [of now r d] status_alive [of now r d]
  by (auto simp: probe_def operations_response_def is_ready_def Let_def case_prod_beta')

section \<open>Examples\<close>

definition example_redis :: "redis_event list" where
  "example_redis = [ClientChanges True True, RedisReady, SendsCommand (refresh_arguments ''s1'') False, CommandSettles 0 True]"

lemma example_redis_failed:
  "rp_failed (fold redis_step example_redis new_presence)"
  "sent (fold redis_step example_redis new_presence) = [0]"
  by (simp_all add: example_redis_def new_presence_def redis_ready_def redis_command_def is_ready_def
      command_settles_def fail_presence_def destroy_client_def sent_def Let_def)

theorem presence_failure_final_witness:
  "let s = fold redis_step [ClientChanges True True, RedisReady, SendsCommand [''PING''] False]
             (fold redis_step example_redis new_presence) in
     rp_failed (fold redis_step example_redis new_presence) \<and> \<not> is_ready s \<and> sent s = [0]"
  using presence_failure_final [of example_redis "[ClientChanges True True, RedisReady, SendsCommand [''PING''] False]"]
    example_redis_failed by (simp only: Let_def simp_thms)

theorem realtime_cleans_up_once_witness:
  "let s = fold realtime_step [MarkSettles True 100, TimerFires 5000, RealtimeAborts] (new_realtime 5000) in
     CloseExpired 5000 \<in> set (rg_trace s) \<and> count_list (rg_trace s) MarkDisconnected = 1"
proof -
  have "rg_trace (fold realtime_step [MarkSettles True 100, TimerFires 5000, RealtimeAborts] (new_realtime 5000)) =
      [MarkDisconnected, CloseExpired 5000]" by code_simp
  moreover have "rg_point (fold realtime_step [MarkSettles True 100, TimerFires 5000, RealtimeAborts] (new_realtime 5000)) =
      Connected" by code_simp
  ultimately show ?thesis
    using realtime_cleans_up_once [of "[MarkSettles True 100, TimerFires 5000, RealtimeAborts]" 5000]
    by (auto simp: Let_def)
qed

end
