(* ===== verification/Session_Tickets.thy ===== *)
theory Session_Tickets
  imports Prelude
begin

text \<open>
  The one-time tickets of the web demo (\<open>examples/web-demo/src/session-ticket.store.ts\<close>) and the page
  server that issues them (\<open>static-server.service.ts\<close>). A ticket is stored under the digest of its
  text; it is good for one session, from the address it was issued to, until it expires. The digest,
  the random text and the parser of URLs are parameters; \<open>now\<close> is the clock, read where the code reads
  it.
\<close>

section \<open>The store\<close>

record stored_ticket =
  tk_expires :: int
  tk_address :: string

record ticket_store =
  ts_lifetime :: int
  ts_maximum :: int
  ts_tickets :: "(string \<times> stored_ticket) list"

definition new_ticket_store :: "int option \<Rightarrow> int option \<Rightarrow> ticket_store" where
  "new_ticket_store lifetime maximum =
     \<lparr>ts_lifetime = (case lifetime of Some n \<Rightarrow> n | None \<Rightarrow> 10000),
      ts_maximum = (case maximum of Some n \<Rightarrow> n | None \<Rightarrow> 256), ts_tickets = []\<rparr>"

definition starts_with :: "string \<Rightarrow> string \<Rightarrow> bool" where
  "starts_with prefix s \<longleftrightarrow> take (length prefix) s = prefix"

definition normalize_address :: "string \<Rightarrow> string" where
  "normalize_address value =
     (if starts_with ''::ffff:'' value then drop (length ''::ffff:'') value else value)"

text \<open>\<open>timingSafeEqual\<close> compares every byte; the text is its own encoding.\<close>

definition timing_safe_equal :: "string \<Rightarrow> string \<Rightarrow> bool" where
  "timing_safe_equal a b = fold (\<lambda>(x, y) ok. ok \<and> x = y) (zip a b) True"

definition constant_time_equal :: "string \<Rightarrow> string \<Rightarrow> bool" where
  "constant_time_equal actual expected \<longleftrightarrow> length actual = length expected \<and> timing_safe_equal actual expected"

definition bearer_token_matches :: "string option \<Rightarrow> string \<Rightarrow> bool" where
  "bearer_token_matches authorization token =
     (case authorization of
        None \<Rightarrow> False
      | Some a \<Rightarrow> if \<not> starts_with ''Bearer '' a then False
                 else constant_time_equal (drop (length ''Bearer '') a) token)"

definition remove_expired :: "int \<Rightarrow> ticket_store \<Rightarrow> ticket_store" where
  "remove_expired now s = s\<lparr>ts_tickets := filter (\<lambda>(k, t). \<not> tk_expires t \<le> now) (ts_tickets s)\<rparr>"

datatype issue_result = Issued string int | CapacityError string

text \<open>\<open>issue\<close>: the clock is read for the expired tickets, and again for the new one.\<close>

definition issue ::
  "(string \<Rightarrow> string) \<Rightarrow> string \<Rightarrow> int \<Rightarrow> int \<Rightarrow> string \<Rightarrow> ticket_store \<Rightarrow> ticket_store \<times> issue_result" where
  "issue digest ticket swept now remote s0 =
     (let s = remove_expired swept s0 in
      if int (length (ts_tickets s)) \<ge> ts_maximum s then
        (s, CapacityError ''Too many pending WebTransport session tickets.'')
      else
        (s\<lparr>ts_tickets := AList.update (digest ticket)
             \<lparr>tk_expires = now + ts_lifetime s, tk_address = normalize_address remote\<rparr> (ts_tickets s)\<rparr>,
         Issued ticket (ts_lifetime s)))"

text \<open>A parsed URL: its path and its search parameters, in order.\<close>

type_synonym parsed_url = "string \<times> (string \<times> string) list"

definition get_all :: "string \<Rightarrow> (string \<times> string) list \<Rightarrow> string list" where
  "get_all name params = map snd (filter (\<lambda>(k, v). k = name) params)"

definition consume ::
  "(string \<Rightarrow> string) \<Rightarrow> (string \<Rightarrow> parsed_url option) \<Rightarrow> int \<Rightarrow> string \<Rightarrow> string \<Rightarrow> ticket_store \<Rightarrow> ticket_store \<times> bool" where
  "consume digest parse now path remote s =
     (case parse path of
        None \<Rightarrow> (s, False)
      | Some (pathname, params) \<Rightarrow>
          (case get_all ''ticket'' params of
             [ticket] \<Rightarrow>
               if pathname \<noteq> ''/demo'' \<or> length ticket > 128 then (s, False)
               else
                 (case map_of (ts_tickets s) (digest ticket) of
                    None \<Rightarrow> (s, False)
                  | Some stored \<Rightarrow>
                      (s\<lparr>ts_tickets := AList.delete (digest ticket) (ts_tickets s)\<rparr>,
                       tk_expires stored > now \<and>
                       constant_time_equal (tk_address stored) (normalize_address remote)))
           | _ \<Rightarrow> (s, False)))"

lemma timing_safe_equal_iff: "length a = length b \<Longrightarrow> timing_safe_equal a b \<longleftrightarrow> a = b"
proof -
  have "fold (\<lambda>(x, y) ok. ok \<and> x = y) (zip a b) acc \<longleftrightarrow> acc \<and> a = b"
    if "length a = length b" for acc and a b :: string
    using that by (induction a b arbitrary: acc rule: list_induct2) auto
  then show "length a = length b \<Longrightarrow> ?thesis" by (simp add: timing_safe_equal_def)
qed

lemma constant_time_equal_iff [simp]: "constant_time_equal a b \<longleftrightarrow> a = b"
  by (auto simp: constant_time_equal_def timing_safe_equal_iff)

lemma starts_with_drop: "starts_with p s \<longleftrightarrow> (\<exists>t. s = p @ t)"
  by (metis append_eq_conv_conj append_take_drop_id starts_with_def)

lemma bearer_token_iff: "bearer_token_matches a token \<longleftrightarrow> a = Some (''Bearer '' @ token)"
  by (auto simp: bearer_token_matches_def starts_with_drop split: option.split)

section \<open>Runs of the store\<close>

datatype ticket_event =
    IssueTicket string int int string
  | ConsumeTicket int string string

datatype ticket_entry =
    IssueEntry string string int
  | RefuseEntry
  | ConsumeEntry string string int
  | RejectEntry

text \<open>The key under which a path asks for its ticket.\<close>

definition asked_key :: "(string \<Rightarrow> string) \<Rightarrow> (string \<Rightarrow> parsed_url option) \<Rightarrow> string \<Rightarrow> string" where
  "asked_key digest parse path =
     (case parse path of
        Some (_, params) \<Rightarrow> digest (hd (get_all ''ticket'' params))
      | None \<Rightarrow> [])"

fun ticket_step ::
  "(string \<Rightarrow> string) \<Rightarrow> (string \<Rightarrow> parsed_url option) \<Rightarrow> ticket_event \<Rightarrow> ticket_store \<times> ticket_entry list
     \<Rightarrow> ticket_store \<times> ticket_entry list" where
  "ticket_step digest parse (IssueTicket ticket swept now remote) (s, es) =
     (case issue digest ticket swept now remote s of
        (s', Issued _ _) \<Rightarrow>
          (s', es @ [IssueEntry (digest ticket) (normalize_address remote) (now + ts_lifetime s)])
      | (s', CapacityError _) \<Rightarrow> (s', es @ [RefuseEntry]))"
| "ticket_step digest parse (ConsumeTicket now path remote) (s, es) =
     (case consume digest parse now path remote s of
        (s', True) \<Rightarrow> (s', es @ [ConsumeEntry (asked_key digest parse path) (normalize_address remote) now])
      | (s', False) \<Rightarrow> (s', es @ [RejectEntry]))"

fun issues_of :: "string \<Rightarrow> ticket_entry list \<Rightarrow> nat" where
  "issues_of k [] = 0"
| "issues_of k (IssueEntry k' _ _ # es) = (if k = k' then 1 else 0) + issues_of k es"
| "issues_of k (_ # es) = issues_of k es"

fun consumptions_of :: "string \<Rightarrow> ticket_entry list \<Rightarrow> nat" where
  "consumptions_of k [] = 0"
| "consumptions_of k (ConsumeEntry k' _ _ # es) = (if k = k' then 1 else 0) + consumptions_of k es"
| "consumptions_of k (_ # es) = consumptions_of k es"

lemma issues_append [simp]: "issues_of k (xs @ ys) = issues_of k xs + issues_of k ys"
  by (induction k xs rule: issues_of.induct) auto

lemma consumptions_append [simp]: "consumptions_of k (xs @ ys) = consumptions_of k xs + consumptions_of k ys"
  by (induction k xs rule: consumptions_of.induct) auto

text \<open>
  \<open>ticket_ok m ts es\<close>: the tickets \<open>ts\<close> of a store of at most \<open>m\<close> tickets against the history \<open>es\<close>. Every
  stored ticket was issued, and has not been consumed since; every session that was admitted used an
  issued ticket, in time.
\<close>

definition stored_one :: "string \<Rightarrow> (string \<times> stored_ticket) list \<Rightarrow> nat" where
  "stored_one k ts = (if k \<in> set (keys ts) then 1 else 0)"

definition ticket_ok :: "int \<Rightarrow> (string \<times> stored_ticket) list \<Rightarrow> ticket_entry list \<Rightarrow> bool" where
  "ticket_ok m ts es \<longleftrightarrow>
     distinct (keys ts) \<and> int (length ts) \<le> max 0 m \<and>
     (\<forall>k. consumptions_of k es + stored_one k ts \<le> issues_of k es) \<and>
     (\<forall>(k, t) \<in> set ts. IssueEntry k (tk_address t) (tk_expires t) \<in> set es) \<and>
     (\<forall>k a now. ConsumeEntry k a now \<in> set es \<longrightarrow> (\<exists>e > now. IssueEntry k a e \<in> set es))"

definition ticket_inv :: "ticket_store \<times> ticket_entry list \<Rightarrow> bool" where
  "ticket_inv x = ticket_ok (ts_maximum (fst x)) (ts_tickets (fst x)) (snd x)"

lemma ticket_ok_fewer:
  assumes ok: "ticket_ok m ts es" and d: "distinct (keys ts')" and sub: "set ts' \<subseteq> set ts" and len: "length ts' \<le> length ts"
  shows "ticket_ok m ts' es"
proof -
  have "stored_one k ts' \<le> stored_one k ts" for k using sub by (auto simp: stored_one_def)
  moreover have "consumptions_of k es + stored_one k ts \<le> issues_of k es" for k using ok by (simp add: ticket_ok_def)
  ultimately have "consumptions_of k es + stored_one k ts' \<le> issues_of k es" for k
    using add_le_mono le_trans by blast
  then show ?thesis using ok d sub len by (auto simp: ticket_ok_def)
qed

lemma le_add_step:
  fixes a :: nat
  assumes "b' \<le> b + e" and "a + b \<le> c"
  shows "a + b' \<le> c + e"
  using assms by simp

lemma ticket_ok_issue:
  assumes ok: "ticket_ok m ts es" and room: "int (length ts) < m"
  shows "ticket_ok m (AList.update k t ts) (es @ [IssueEntry k (tk_address t) (tk_expires t)])"
proof -
  let ?ts = "AList.update k t ts"
  have d: "distinct (keys ts)" using ok by (simp add: ticket_ok_def)
  have old: "(k', t') = (k, t) \<or> (k', t') \<in> set ts" if "(k', t') \<in> set ?ts" for k' t'
    using that d distinct_keys_update [OF d, of k t]
    by (metis map_of_eq_Some_iff map_of_update fun_upd_apply option.inject)
  have "stored_one k' ?ts \<le> stored_one k' ts + (if k' = k then 1 else 0)" for k'
    by (simp add: stored_one_def keys_update)
  moreover have "consumptions_of k' es + stored_one k' ts \<le> issues_of k' es" for k' using ok by (simp add: ticket_ok_def)
  ultimately have "consumptions_of k' es + stored_one k' ?ts \<le> issues_of k' es + (if k' = k then 1 else 0)" for k'
    by (rule le_add_step)
  moreover have "int (length ?ts) \<le> max 0 m" using room by (auto simp: length_update)
  moreover have "\<forall>(k', t') \<in> set ?ts. IssueEntry k' (tk_address t') (tk_expires t') \<in> set (es @ [IssueEntry k (tk_address t) (tk_expires t)])"
    using old ok by (fastforce simp: ticket_ok_def)
  moreover have "\<forall>k' a now. ConsumeEntry k' a now \<in> set (es @ [IssueEntry k (tk_address t) (tk_expires t)]) \<longrightarrow>
      (\<exists>e > now. IssueEntry k' a e \<in> set (es @ [IssueEntry k (tk_address t) (tk_expires t)]))"
    using ok unfolding ticket_ok_def by (metis UnE UnI1 set_append in_set_conv_decomp insertE list.distinct(1) list.set(1) list.simps(15) singletonD ticket_entry.distinct(3))
  ultimately show ?thesis
    using distinct_keys_update [OF d, of k t] unfolding ticket_ok_def by simp
qed

lemma ticket_ok_consume:
  assumes ok: "ticket_ok m ts es" and found: "map_of ts k = Some t"
  shows "ticket_ok m (AList.delete k ts)
    (es @ [if tk_expires t > now \<and> tk_address t = a then ConsumeEntry k a now else RejectEntry])"
proof -
  let ?ts = "AList.delete k ts"
  have in': "(k, t) \<in> set ts" using found by (rule map_of_SomeD)
  have less: "ticket_ok m ?ts es"
    by (rule ticket_ok_fewer [OF ok])
      (use ok in \<open>auto simp: ticket_ok_def AList.delete_eq distinct_keys_filter\<close>)
  have "stored_one k ts = 1" "stored_one k ?ts = 0" using in' by (force simp: stored_one_def keys_delete)+
  moreover have "consumptions_of k' es + stored_one k' ts \<le> issues_of k' es" for k' using ok by (simp add: ticket_ok_def)
  ultimately have "consumptions_of k es + 1 \<le> issues_of k es" by metis
  moreover have "IssueEntry k (tk_address t) (tk_expires t) \<in> set es" using ok in' by (fastforce simp: ticket_ok_def)
  ultimately show ?thesis
    using less \<open>stored_one k ?ts = 0\<close> unfolding ticket_ok_def by auto
qed

lemma ticket_ok_other:
  "ticket_ok m ts es \<Longrightarrow> x \<in> {RefuseEntry, RejectEntry} \<Longrightarrow> ticket_ok m ts (es @ [x])"
  by (auto simp: ticket_ok_def)

lemma remove_expired_ok:
  "ticket_ok m (ts_tickets s) es \<Longrightarrow> ticket_ok m (ts_tickets (remove_expired now s)) es"
  by (frule ticket_ok_fewer [where ts' = "ts_tickets (remove_expired now s)"])
    (auto simp: ticket_ok_def remove_expired_def intro!: distinct_keys_filter)

lemma remove_expired_fields [simp]:
  "ts_lifetime (remove_expired now s) = ts_lifetime s" "ts_maximum (remove_expired now s) = ts_maximum s"
  by (simp_all add: remove_expired_def)

lemma issue_inv:
  assumes i: "ticket_inv (s, es)"
  shows "ticket_inv (ticket_step digest parse (IssueTicket ticket swept now remote) (s, es))"
proof -
  have r: "ticket_ok (ts_maximum s) (ts_tickets (remove_expired swept s)) es"
    by (rule remove_expired_ok) (use i in \<open>simp add: ticket_inv_def\<close>)
  show ?thesis
  proof (cases "int (length (ts_tickets (remove_expired swept s))) \<ge> ts_maximum s")
    case True
    with ticket_ok_other [OF r] show ?thesis by (simp add: ticket_inv_def issue_def Let_def)
  next
    case False
    with ticket_ok_issue [OF r, of "digest ticket"
        "\<lparr>tk_expires = now + ts_lifetime s, tk_address = normalize_address remote\<rparr>"]
    show ?thesis by (simp add: ticket_inv_def issue_def Let_def)
  qed
qed

text \<open>What \<open>consume\<close> needs before it takes a ticket out of the store.\<close>

lemma consume_cases:
  obtains (taken) t ticket where "consume digest parse now path remote s =
      (s\<lparr>ts_tickets := AList.delete (digest ticket) (ts_tickets s)\<rparr>,
       tk_expires t > now \<and> tk_address t = normalize_address remote)"
      "map_of (ts_tickets s) (digest ticket) = Some t" "asked_key digest parse path = digest ticket"
  | (refused) "consume digest parse now path remote s = (s, False)"
proof (cases "parse path")
  case (Some u)
  obtain pathname params where u: "u = (pathname, params)" by (cases u)
  show thesis
  proof (cases "\<exists>ticket t. get_all ''ticket'' params = [ticket] \<and> \<not> (pathname \<noteq> ''/demo'' \<or> length ticket > 128) \<and>
      map_of (ts_tickets s) (digest ticket) = Some t")
    case True
    then obtain ticket t where t: "get_all ''ticket'' params = [ticket]" "\<not> (pathname \<noteq> ''/demo'' \<or> length ticket > 128)"
      "map_of (ts_tickets s) (digest ticket) = Some t" by blast
    then have "consume digest parse now path remote s =
      (s\<lparr>ts_tickets := AList.delete (digest ticket) (ts_tickets s)\<rparr>,
       tk_expires t > now \<and> tk_address t = normalize_address remote)"
      by (simp only: consume_def Some u option.case prod.case list.case if_False constant_time_equal_iff)
    moreover have "asked_key digest parse path = digest ticket"
      using Some u t(1) by (simp add: asked_key_def)
    ultimately show thesis using t(3) taken by blast
  next
    case False
    then have "consume digest parse now path remote s = (s, False)"
      unfolding consume_def Some u option.case prod.case
      by (fastforce split: list.split option.split)
    then show thesis by (rule refused)
  qed
qed (use refused in \<open>simp add: consume_def\<close>)

lemma consume_inv:
  assumes i: "ticket_inv (s, es)"
  shows "ticket_inv (ticket_step digest parse (ConsumeTicket now path remote) (s, es))"
proof (cases rule: consume_cases [of digest parse now path remote s])
  case (taken t ticket)
  with ticket_ok_consume [OF i [unfolded ticket_inv_def fst_conv snd_conv] taken(2), of now "normalize_address remote"]
  show ?thesis by (cases "tk_expires t > now \<and> tk_address t = normalize_address remote") (simp_all add: ticket_inv_def)
next
  case refused
  with i ticket_ok_other show ?thesis by (simp add: ticket_inv_def)
qed

lemma ticket_step_inv: "ticket_inv x \<Longrightarrow> ticket_inv (ticket_step digest parse e x)"
  by (cases x; cases e) (simp_all only: issue_inv consume_inv)

interpretation ticket_life: event_system "ticket_step digest parse" ticket_inv for digest parse
  by unfold_locales (rule ticket_step_inv)

definition ticket_run ::
  "(string \<Rightarrow> string) \<Rightarrow> (string \<Rightarrow> parsed_url option) \<Rightarrow> ticket_event list \<Rightarrow> ticket_store \<Rightarrow> ticket_store \<times> ticket_entry list" where
  "ticket_run digest parse es s = fold (ticket_step digest parse) es (s, [])"

lemma new_ticket_store_inv: "ticket_inv (new_ticket_store lifetime maximum, [])"
  by (simp add: ticket_inv_def ticket_ok_def new_ticket_store_def stored_one_def)

lemma ticket_maximum: "ts_maximum (fst (ticket_step digest parse e x)) = ts_maximum (fst x)"
proof (cases x; cases e)
  fix s es ticket swept now remote
  assume "x = (s, es)" "e = IssueTicket ticket swept now remote"
  then show ?thesis by (simp add: issue_def Let_def)
next
  fix s es now path remote
  assume x: "x = (s, es)" "e = ConsumeTicket now path remote"
  show ?thesis
    by (cases rule: consume_cases [of digest parse now path remote s]) (auto simp: x split: bool.split)
qed

lemma ticket_run_maximum [simp]: "ts_maximum (fst (ticket_run digest parse es s)) = ts_maximum s"
proof -
  have "ts_maximum (fst (fold (ticket_step digest parse) es x)) = ts_maximum (fst x)" for x
    by (induction es arbitrary: x) (simp_all add: ticket_maximum)
  then show ?thesis by (simp add: ticket_run_def)
qed

text \<open>
  C21. Tickets are single-use: in every run of the store a ticket has admitted at most as many sessions as it
  was issued, a session is admitted only before the ticket's expiry and only from the address it was
  issued to, and the store never holds more than \<open>maximumTickets\<close> tickets.
\<close>

theorem tickets_single_use:
  "let (s, log) = ticket_run digest parse es (new_ticket_store lifetime (Some maximum)) in
     consumptions_of k log \<le> issues_of k log \<and>
     (\<forall>a now. ConsumeEntry k a now \<in> set log \<longrightarrow> (\<exists>expires > now. IssueEntry k a expires \<in> set log)) \<and>
     int (length (ts_tickets s)) \<le> max 0 maximum"
proof -
  obtain s log where r: "ticket_run digest parse es (new_ticket_store lifetime (Some maximum)) = (s, log)"
    by (cases "ticket_run digest parse es (new_ticket_store lifetime (Some maximum))")
  have "ticket_inv (s, log)"
    using ticket_life.run_inv [OF new_ticket_store_inv, of digest parse es lifetime "Some maximum"] r
    by (simp add: ticket_run_def)
  moreover have "ts_maximum s = maximum"
    using ticket_run_maximum [of digest parse es "new_ticket_store lifetime (Some maximum)"] unfolding r
    by (simp add: new_ticket_store_def)
  ultimately have ok: "ticket_ok maximum (ts_tickets s) log" by (simp add: ticket_inv_def)
  then have "consumptions_of k log \<le> issues_of k log" unfolding ticket_ok_def by (meson add_leD1)
  with ok show ?thesis unfolding r by (simp add: ticket_ok_def)
qed

section \<open>The page server\<close>

record http_request =
  rq_method :: string
  rq_url :: "string option"
  rq_origin :: "string option"
  rq_authorization :: "string option"
  rq_remote :: "string option"

datatype http_body =
    Text string
  | TicketBody string int
  | ConfigBody string "string option"
  | FileBody string

record http_response =
  rs_status :: int
  rs_headers :: "(string \<times> string) list"
  rs_body :: http_body

record web_config =
  wc_token :: string
  wc_origins :: "string list"
  wc_public_url :: string
  wc_certificate :: "string option"

definition plain_text :: "(string \<times> string) list \<Rightarrow> (string \<times> string) list \<Rightarrow> int \<Rightarrow> string \<Rightarrow> http_response" where
  "plain_text before after status body =
     \<lparr>rs_status = status,
      rs_headers = before @ [(''cache-control'', ''no-store''), (''content-type'', ''text/plain; charset=utf-8'')] @ after,
      rs_body = Text body\<rparr>"

definition public_files :: "string \<Rightarrow> (string \<times> string) option" where
  "public_files pathname =
     (if pathname = ''/'' then Some (''index.html'', ''text/html; charset=utf-8'')
      else if pathname = ''/app.js'' then Some (''app.js'', ''text/javascript; charset=utf-8'')
      else None)"

text \<open>\<open>sendHeaders\<close>; \<open>origin_of\<close> is the origin of a URL, which throws on text that is not one.\<close>

definition page_headers :: "string \<Rightarrow> string \<Rightarrow> (string \<times> string) list" where
  "page_headers connect content_type =
     [(''cache-control'', ''no-store''),
      (''content-security-policy'',
       ''default-src 'self'; connect-src 'self' '' @ connect @
       ''; object-src 'none'; base-uri 'none'; frame-ancestors 'none'' @ [CHR 0x27]),
      (''content-type'', content_type), (''cross-origin-opener-policy'', ''same-origin''),
      (''referrer-policy'', ''no-referrer''), (''x-content-type-options'', ''nosniff'')]"

definition send_page :: "(string \<Rightarrow> string option) \<Rightarrow> web_config \<Rightarrow> string \<Rightarrow> http_body \<Rightarrow> http_response option" where
  "send_page origin_of cfg content_type body =
     map_option (\<lambda>connect. \<lparr>rs_status = 200, rs_headers = page_headers connect content_type, rs_body = body\<rparr>)
       (origin_of (wc_public_url cfg))"

text \<open>\<open>issueSessionTicket\<close>: \<open>None\<close> is an exception.\<close>

definition issue_session_ticket ::
  "(string \<Rightarrow> string) \<Rightarrow> (string \<Rightarrow> string option) \<Rightarrow> web_config \<Rightarrow> string \<Rightarrow> int \<Rightarrow> int \<Rightarrow> http_request \<Rightarrow> ticket_store
     \<Rightarrow> ticket_store \<times> http_response option" where
  "issue_session_ticket digest origin_of cfg random swept now rq s =
     (if rq_method rq \<noteq> ''POST'' then (s, Some (plain_text [(''allow'', ''POST'')] [] 405 ''Method not allowed''))
      else if (case rq_origin rq of None \<Rightarrow> True | Some origin \<Rightarrow> origin \<notin> set (wc_origins cfg)) then
        (s, Some (plain_text [] [] 403 ''Origin not allowed''))
      else if \<not> bearer_token_matches (rq_authorization rq) (wc_token cfg) then
        (s, Some (plain_text [] [(''www-authenticate'', ''Bearer'')] 401 ''Invalid bearer token''))
      else
        (case issue digest random swept now (case rq_remote rq of Some a \<Rightarrow> a | None \<Rightarrow> []) s of
           (s', CapacityError _) \<Rightarrow>
             (s', Some (plain_text [(''retry-after'', ''1'')] [] 503 ''Session ticket capacity reached. Retry shortly.''))
         | (s', Issued ticket expires) \<Rightarrow>
             (s', send_page origin_of cfg ''application/json; charset=utf-8'' (TicketBody ticket expires))))"

text \<open>
  \<open>respond\<close> with the handler of the server around it: an exception answers with status 500.
  \<open>pathname\<close> parses the request's URL, \<open>files\<close> reads a file of the public directory.
\<close>

definition respond ::
  "(string \<Rightarrow> string) \<Rightarrow> (string \<Rightarrow> string option) \<Rightarrow> (string \<Rightarrow> string option) \<Rightarrow> (string \<Rightarrow> string option) \<Rightarrow> web_config
     \<Rightarrow> string \<Rightarrow> int \<Rightarrow> int \<Rightarrow> http_request \<Rightarrow> ticket_store \<Rightarrow> ticket_store \<times> http_response" where
  "respond digest pathname_of origin_of files cfg random swept now rq s =
     (let (s', answer) =
        (case pathname_of (case rq_url rq of Some u \<Rightarrow> u | None \<Rightarrow> ''/'') of
           None \<Rightarrow> (s, None)
         | Some pathname \<Rightarrow>
             if pathname = ''/session-ticket'' then issue_session_ticket digest origin_of cfg random swept now rq s
             else if pathname = ''/config.json'' then
               (s, send_page origin_of cfg ''application/json; charset=utf-8''
                     (ConfigBody (wc_public_url cfg) (wc_certificate cfg)))
             else
               (s, case public_files pathname of
                     None \<Rightarrow> Some \<lparr>rs_status = 404, rs_headers = [(''content-type'', ''text/plain; charset=utf-8'')],
                                   rs_body = Text ''Not found''\<rparr>
                   | Some (file, content_type) \<Rightarrow>
                       (case files file of
                          None \<Rightarrow> None
                        | Some body \<Rightarrow> send_page origin_of cfg content_type (FileBody body))))
      in (s', case answer of Some r \<Rightarrow> r
              | None \<Rightarrow> \<lparr>rs_status = 500, rs_headers = [], rs_body = Text ''Internal server error''\<rparr>))"

text \<open>A ticket leaves the server in one way only.\<close>

lemma issue_result_cases:
  "issue digest ticket swept now remote s = (s', r) \<Longrightarrow>
   (r = Issued ticket (ts_lifetime s) \<and>
      ts_tickets s' = AList.update (digest ticket)
        \<lparr>tk_expires = now + ts_lifetime s, tk_address = normalize_address remote\<rparr> (ts_tickets (remove_expired swept s))) \<or>
   (\<exists>m. r = CapacityError m) \<and> s' = remove_expired swept s"
  by (auto simp: issue_def Let_def split: if_splits)

text \<open>
  C39. The gate of the ticket endpoint: a response carries a ticket only for a \<open>POST\<close> to
  \<open>/session-ticket\<close> from a configured origin with the configured bearer token; the ticket is then in
  the store under its digest, for the address of the request and the store's lifetime. A request that
  misses any of these leaves the store as it was.
\<close>

theorem ticket_endpoint_gate:
  assumes "respond digest pathname_of origin_of files cfg random swept now rq s = (s', response)"
  shows "(case rs_body response of
        TicketBody ticket expires \<Rightarrow>
          rs_status response = 200 \<and> ticket = random \<and> expires = ts_lifetime s \<and>
          map_of (ts_tickets s') (digest ticket) =
            Some \<lparr>tk_expires = now + ts_lifetime s,
                  tk_address = normalize_address (case rq_remote rq of Some a \<Rightarrow> a | None \<Rightarrow> [])\<rparr>
      | _ \<Rightarrow> True) \<and>
    (rq_method rq = ''POST'' \<and> (\<exists>origin \<in> set (wc_origins cfg). rq_origin rq = Some origin) \<and>
       rq_authorization rq = Some (''Bearer '' @ wc_token cfg) \<and>
       pathname_of (case rq_url rq of Some u \<Rightarrow> u | None \<Rightarrow> ''/'') = Some ''/session-ticket'' \<or>
     s' = s \<and> (\<forall>ticket expires. rs_body response \<noteq> TicketBody ticket expires))"
proof -
  let ?path = "pathname_of (case rq_url rq of Some u \<Rightarrow> u | None \<Rightarrow> ''/'')"
  let ?remote = "case rq_remote rq of Some a \<Rightarrow> a | None \<Rightarrow> []"
  show ?thesis
  proof (cases "rq_method rq = ''POST'' \<and> (\<exists>origin \<in> set (wc_origins cfg). rq_origin rq = Some origin) \<and>
      rq_authorization rq = Some (''Bearer '' @ wc_token cfg) \<and> ?path = Some ''/session-ticket''")
    case True
    obtain s1 r where i: "issue digest random swept now ?remote s = (s1, r)"
      by (cases "issue digest random swept now ?remote s")
    from True i assms issue_result_cases [OF i] show ?thesis
      by (auto simp: respond_def issue_session_ticket_def bearer_token_iff send_page_def plain_text_def map_of_update
          split: option.splits)
  next
    case False
    with assms show ?thesis
      by (auto simp: respond_def issue_session_ticket_def bearer_token_iff send_page_def plain_text_def
          split: option.splits if_splits)
  qed
qed

section \<open>An example\<close>

definition example_web_config :: web_config where
  "example_web_config =
     \<lparr>wc_token = ''secret'', wc_origins = [''http://localhost:3000''], wc_public_url = ''https://localhost/demo'',
      wc_certificate = None\<rparr>"

definition example_request :: http_request where
  "example_request =
     \<lparr>rq_method = ''POST'', rq_url = Some ''/session-ticket'', rq_origin = Some ''http://localhost:3000'',
      rq_authorization = Some ''Bearer secret'', rq_remote = Some ''::ffff:10.0.0.1''\<rparr>"

lemma example_response:
  "respond rev Some Some (\<lambda>_. None) example_web_config ''abc'' 5 6 example_request (new_ticket_store None None) =
     (\<lparr>ts_lifetime = 10000, ts_maximum = 256,
       ts_tickets = [(''cba'', \<lparr>tk_expires = 10006, tk_address = ''10.0.0.1''\<rparr>)]\<rparr>,
      \<lparr>rs_status = 200, rs_headers = page_headers ''https://localhost/demo'' ''application/json; charset=utf-8'',
       rs_body = TicketBody ''abc'' 10000\<rparr>)"
  by code_simp

theorem ticket_endpoint_gate_witness:
  "rq_method example_request = ''POST'' \<and>
   map_of (ts_tickets (fst (respond rev Some Some (\<lambda>_. None) example_web_config ''abc'' 5 6 example_request
     (new_ticket_store None None)))) (rev ''abc'') = Some \<lparr>tk_expires = 10006, tk_address = ''10.0.0.1''\<rparr>"
  using ticket_endpoint_gate [OF example_response] unfolding example_response
  by (simp add: example_request_def normalize_address_def starts_with_def new_ticket_store_def)

definition example_session_path :: "string \<Rightarrow> parsed_url option" where
  "example_session_path path = (if path = ''/demo?ticket=abc'' then Some (''/demo'', [(''ticket'', ''abc'')]) else None)"

lemma example_ticket_run:
  "ConsumeEntry ''cba'' ''10.0.0.1'' 9 \<in> set (snd (ticket_run rev example_session_path
     [IssueTicket ''abc'' 5 6 ''::ffff:10.0.0.1'', ConsumeTicket 9 ''/demo?ticket=abc'' ''10.0.0.1'',
      ConsumeTicket 10 ''/demo?ticket=abc'' ''10.0.0.1''] (new_ticket_store None (Some 1))))"
  by code_simp

theorem tickets_single_use_witness:
  "let (s, log) = ticket_run rev example_session_path
       [IssueTicket ''abc'' 5 6 ''::ffff:10.0.0.1'', ConsumeTicket 9 ''/demo?ticket=abc'' ''10.0.0.1'',
        ConsumeTicket 10 ''/demo?ticket=abc'' ''10.0.0.1''] (new_ticket_store None (Some 1)) in
     (\<exists>expires > 9. IssueEntry ''cba'' ''10.0.0.1'' expires \<in> set log) \<and> int (length (ts_tickets s)) \<le> 1"
  using tickets_single_use [where k = "''cba''" and digest = rev and parse = example_session_path and lifetime = None
      and maximum = 1 and es = "[IssueTicket ''abc'' 5 6 ''::ffff:10.0.0.1'',
        ConsumeTicket 9 ''/demo?ticket=abc'' ''10.0.0.1'', ConsumeTicket 10 ''/demo?ticket=abc'' ''10.0.0.1'']"]
    example_ticket_run
  unfolding Let_def case_prod_beta' by auto

end
