(* ===== verification/Demo_Writes.thy ===== *)
theory Demo_Writes
  imports Json_Values
begin

text \<open>
  The outgoing datagrams of the web demo (\<open>sendPacket\<close> and \<open>waitForWrite\<close> of
  \<open>examples/web-demo/src/demo.gateway.ts\<close>). A session has a chain of write operations: each waits for
  its predecessor to settle, takes the writer, waits until it is ready and writes. The session's signal
  and a timer race the operation; an operation that loses the race may still be inside the writer. An
  event is the part of the code between two suspension points. \<open>encode\<close> is \<open>JSON.stringify\<close> and the
  UTF-8 encoding of a packet; a field that is \<open>undefined\<close> is not written.
\<close>

section \<open>State\<close>

type_synonym packet = "(string \<times> json option) list"

text \<open>How far the operation itself is, and the promise that \<open>waitForWrite\<close> made of it.\<close>

datatype inner_point = NotStarted | AwaitsReady | AwaitsWrite | Released

datatype outer_point = Waiting | Racing | Fulfilled | Failed

record write_op =
  op_bytes :: "nat list"
  op_inner :: inner_point
  op_outer :: outer_point
  op_counted_out :: bool

datatype write_action = TakeWriter nat | WriteBytes nat "nat list" | ReleaseWriter nat | CloseDemoSession

record outgoing =
  oq_ops :: "write_op list"
  oq_count :: int
  oq_failed :: bool
  oq_aborted :: bool
  oq_max_datagram :: int
  oq_trace :: "write_action list"

definition max_pending_writes :: int where
  "max_pending_writes = 16"

definition new_outgoing :: "int \<Rightarrow> outgoing" where
  "new_outgoing max_datagram =
     \<lparr>oq_ops = [], oq_count = 0, oq_failed = False, oq_aborted = False, oq_max_datagram = max_datagram,
      oq_trace = []\<rparr>"

definition on_op :: "nat \<Rightarrow> (write_op \<Rightarrow> write_op) \<Rightarrow> outgoing \<Rightarrow> outgoing" where
  "on_op k f s = s\<lparr>oq_ops := (oq_ops s)[k := f (oq_ops s ! k)]\<rparr>"

definition act :: "write_action \<Rightarrow> outgoing \<Rightarrow> outgoing" where
  "act a s = s\<lparr>oq_trace := oq_trace s @ [a]\<rparr>"

section \<open>Sending\<close>

datatype send_result = Queued nat | SessionAborted | QueueClosed | TooLarge

text \<open>What is sent instead of a packet that does not fit.\<close>

definition shortened :: "packet \<Rightarrow> nat \<Rightarrow> packet" where
  "shortened packet bytes =
     (if map_of packet ''event'' = Some (Some (JString ''unidirectional-received'')) then
        AList.update ''truncated'' (Some (JBool True)) (AList.update ''message'' None packet)
      else
        [(''type'', Some (JString ''server-error'')), (''event'', Some (JString ''response-too-large'')),
         (''bytes'', Some (JNumber (js_int (int bytes))))])"

definition datagram_limit :: "outgoing \<Rightarrow> int" where
  "datagram_limit s = min 1200 (oq_max_datagram s)"

definition send_packet :: "(packet \<Rightarrow> nat list) \<Rightarrow> packet \<Rightarrow> outgoing \<Rightarrow> outgoing \<times> send_result" where
  "send_packet encode packet s =
     (if oq_aborted s then (s, SessionAborted)
      else if oq_failed s \<or> oq_count s \<ge> max_pending_writes then (s, QueueClosed)
      else
        (let first = encode packet;
             bytes = (if int (length first) > datagram_limit s then encode (shortened packet (length first)) else first)
         in if int (length bytes) > datagram_limit s then (s, TooLarge)
            else (s\<lparr>oq_count := oq_count s + 1,
                     oq_ops := oq_ops s @ [\<lparr>op_bytes = bytes, op_inner = NotStarted, op_outer = Waiting,
                                           op_counted_out = False\<rparr>]\<rparr>,
                  Queued (length (oq_ops s)))))"

definition settled :: "write_op \<Rightarrow> bool" where
  "settled x \<longleftrightarrow> op_outer x = Fulfilled \<or> op_outer x = Failed"

text \<open>\<open>waitForWrite\<close> rejects: the queue closes, and so does the session.\<close>

definition fail_op :: "nat \<Rightarrow> outgoing \<Rightarrow> outgoing" where
  "fail_op k s =
     (if op_outer (oq_ops s ! k) = Racing then
        act CloseDemoSession (on_op k (\<lambda>x. x\<lparr>op_outer := Failed\<rparr>) (s\<lparr>oq_failed := True\<rparr>))
      else s)"

definition fulfil_op :: "nat \<Rightarrow> outgoing \<Rightarrow> outgoing" where
  "fulfil_op k s =
     (if op_outer (oq_ops s ! k) = Racing then on_op k (\<lambda>x. x\<lparr>op_outer := Fulfilled\<rparr>) s else s)"

text \<open>
  How a promise of the writer settles. \<open>finish\<close> takes a rejection without a reason for success, since it
  tells the two apart by \<open>error === undefined\<close>.
\<close>

datatype answer = Resolves | RejectsWith | RejectsUndefined

text \<open>The \<open>finally\<close> of the operation releases the writer; then the race hears of the outcome.\<close>

definition release_op :: "nat \<Rightarrow> answer \<Rightarrow> outgoing \<Rightarrow> outgoing" where
  "release_op k a s =
     (let s1 = act (ReleaseWriter k) (on_op k (\<lambda>x. x\<lparr>op_inner := Released\<rparr>) s)
      in case a of RejectsWith \<Rightarrow> fail_op k s1 | _ \<Rightarrow> fulfil_op k s1)"

text \<open>
  The predecessor has settled. An aborted session and a closed queue reject the operation before it
  begins; a writer that is locked by someone else fails it.
\<close>

definition start_op :: "nat \<Rightarrow> bool \<Rightarrow> outgoing \<Rightarrow> outgoing" where
  "start_op k locked s =
     (if \<not> (k < length (oq_ops s) \<and> op_outer (oq_ops s ! k) = Waiting \<and>
            (k = 0 \<or> settled (oq_ops s ! (k - 1)))) then s
      else if oq_aborted s \<or> oq_failed s then on_op k (\<lambda>x. x\<lparr>op_outer := Failed\<rparr>) s
      else if locked then
        fail_op k (on_op k (\<lambda>x. x\<lparr>op_inner := Released, op_outer := Racing\<rparr>) s)
      else act (TakeWriter k) (on_op k (\<lambda>x. x\<lparr>op_inner := AwaitsReady, op_outer := Racing\<rparr>) s))"

definition ready_settles :: "nat \<Rightarrow> answer \<Rightarrow> outgoing \<Rightarrow> outgoing" where
  "ready_settles k a s =
     (if \<not> (k < length (oq_ops s) \<and> op_inner (oq_ops s ! k) = AwaitsReady) then s
      else if a = Resolves then
        (if oq_aborted s then release_op k RejectsWith s
         else act (WriteBytes k (op_bytes (oq_ops s ! k))) (on_op k (\<lambda>x. x\<lparr>op_inner := AwaitsWrite\<rparr>) s))
      else release_op k a s)"

definition write_settles :: "nat \<Rightarrow> answer \<Rightarrow> outgoing \<Rightarrow> outgoing" where
  "write_settles k a s =
     (if \<not> (k < length (oq_ops s) \<and> op_inner (oq_ops s ! k) = AwaitsWrite) then s else release_op k a s)"

definition write_times_out :: "nat \<Rightarrow> outgoing \<Rightarrow> outgoing" where
  "write_times_out k s = (if k < length (oq_ops s) then fail_op k s else s)"

text \<open>The session's signal aborts: every race that is on ends.\<close>

definition abort_demo_session :: "outgoing \<Rightarrow> outgoing" where
  "abort_demo_session s =
     (if oq_aborted s then s else fold fail_op [0..<length (oq_ops s)] (s\<lparr>oq_aborted := True\<rparr>))"

text \<open>The \<open>finally\<close> of the returned promise.\<close>

definition count_out :: "nat \<Rightarrow> outgoing \<Rightarrow> outgoing" where
  "count_out k s =
     (if k < length (oq_ops s) \<and> settled (oq_ops s ! k) \<and> \<not> op_counted_out (oq_ops s ! k) then
        (on_op k (\<lambda>x. x\<lparr>op_counted_out := True\<rparr>) s)\<lparr>oq_count := oq_count s - 1\<rparr>
      else s)"

datatype write_event =
    SendPacket packet
  | StartOp nat bool
  | ReadySettles nat answer
  | WriteSettles nat answer
  | WriteTimesOut nat
  | AbortSession
  | CountOut nat

fun write_step :: "(packet \<Rightarrow> nat list) \<Rightarrow> write_event \<Rightarrow> outgoing \<Rightarrow> outgoing" where
  "write_step encode (SendPacket packet) s = fst (send_packet encode packet s)"
| "write_step encode (StartOp k locked) s = start_op k locked s"
| "write_step encode (ReadySettles k a) s = ready_settles k a s"
| "write_step encode (WriteSettles k a) s = write_settles k a s"
| "write_step encode (WriteTimesOut k) s = write_times_out k s"
| "write_step encode AbortSession s = abort_demo_session s"
| "write_step encode (CountOut k) s = count_out k s"

section \<open>The order of the operations\<close>

definition active :: "write_op \<Rightarrow> bool" where
  "active x \<longleftrightarrow> op_inner x = AwaitsReady \<or> op_inner x = AwaitsWrite"

definition ops_ok :: "bool \<Rightarrow> write_op list \<Rightarrow> bool" where
  "ops_ok failed xs \<longleftrightarrow>
     (\<forall>k < length xs. op_outer (xs ! k) \<noteq> Waiting \<longrightarrow> (\<forall>j < k. settled (xs ! j))) \<and>
     (\<forall>k < length xs. op_outer (xs ! k) = Waiting \<longrightarrow> op_inner (xs ! k) = NotStarted) \<and>
     (\<forall>k < length xs. op_outer (xs ! k) = Racing \<longrightarrow> active (xs ! k)) \<and>
     (\<forall>k < length xs. active (xs ! k) \<and> settled (xs ! k) \<longrightarrow> failed) \<and>
     (\<forall>k < length xs. active (xs ! k) \<longrightarrow> (\<forall>j < length xs. k < j \<longrightarrow> op_inner (xs ! j) = NotStarted))"

lemma ops_okD:
  assumes "ops_ok f xs" and "k < length xs"
  shows "op_outer (xs ! k) \<noteq> Waiting \<Longrightarrow> j < k \<Longrightarrow> settled (xs ! j)"
    and "op_outer (xs ! k) = Waiting \<Longrightarrow> op_inner (xs ! k) = NotStarted"
    and "op_outer (xs ! k) = Racing \<Longrightarrow> active (xs ! k)"
    and "active (xs ! k) \<Longrightarrow> settled (xs ! k) \<Longrightarrow> f"
    and "active (xs ! k) \<Longrightarrow> k < j \<Longrightarrow> j < length xs \<Longrightarrow> op_inner (xs ! j) = NotStarted"
  using assms unfolding ops_ok_def by blast+

lemma ops_ok_update:
  assumes ok: "ops_ok f xs" and k: "k < length xs" and f: "f \<longrightarrow> f'"
    and outer: "settled (xs ! k) \<longrightarrow> settled x" "op_outer x \<noteq> Waiting \<longrightarrow> (\<forall>j < k. settled (xs ! j))"
      "op_outer x = Waiting \<longrightarrow> op_inner x = NotStarted" "op_outer x = Racing \<longrightarrow> active x"
      "active x \<and> settled x \<longrightarrow> f'"
    and inner: "active x \<longrightarrow> active (xs ! k) \<or> (\<forall>j < length xs. k < j \<longrightarrow> op_inner (xs ! j) = NotStarted)"
      "op_inner x = NotStarted \<or> op_inner (xs ! k) \<noteq> NotStarted \<or> (\<forall>j < k. \<not> active (xs ! j))"
  shows "ops_ok f' (xs[k := x])"
  unfolding ops_ok_def
proof (intro conjI allI impI)
  fix i j
  assume i: "i < length (xs[k := x])" and n: "op_outer (xs[k := x] ! i) \<noteq> Waiting" and j: "j < i"
  then show "settled (xs[k := x] ! j)"
    using ops_okD(1) [OF ok, of i j] outer k by (cases "i = k"; cases "j = k") auto
next
  fix i
  assume i: "i < length (xs[k := x])" and n: "op_outer (xs[k := x] ! i) = Waiting"
  then show "op_inner (xs[k := x] ! i) = NotStarted"
    using ops_okD(2) [OF ok, of i] outer by (cases "i = k") auto
next
  fix i
  assume i: "i < length (xs[k := x])" and n: "op_outer (xs[k := x] ! i) = Racing"
  then show "active (xs[k := x] ! i)"
    using ops_okD(3) [OF ok, of i] outer by (cases "i = k") auto
next
  fix i
  assume i: "i < length (xs[k := x])" and n: "active (xs[k := x] ! i) \<and> settled (xs[k := x] ! i)"
  then show f'
    using ops_okD(4) [OF ok, of i] outer f by (cases "i = k") auto
next
  fix i j
  assume i: "i < length (xs[k := x])" "active (xs[k := x] ! i)" and j: "j < length (xs[k := x])" "i < j"
  show "op_inner (xs[k := x] ! j) = NotStarted"
  proof (cases "i = k")
    case True
    then show ?thesis using i j inner(1) ops_okD(5) [OF ok k, of j] by auto
  next
    case False
    with i have a: "active (xs ! i)" "i < length xs" by auto
    show ?thesis
    proof (cases "j = k")
      case True
      then have "op_inner (xs ! k) = NotStarted" using ops_okD(5) [OF ok a(2,1), of k] j k by simp
      moreover have "\<not> (\<forall>j < k. \<not> active (xs ! j))" using a(1) j True by auto
      ultimately show ?thesis using inner(2) True k by auto
    qed (use ops_okD(5) [OF ok a(2,1), of j] j in auto)
  qed
qed

lemma ops_ok_snoc:
  assumes ok: "ops_ok f xs" and x: "op_outer x = Waiting" "op_inner x = NotStarted"
  shows "ops_ok f (xs @ [x])"
proof -
  have n: "\<not> settled x" "\<not> active x" using x by (simp_all add: settled_def active_def)
  have old: "(xs @ [x]) ! k = (if k < length xs then xs ! k else x)" if "k < length (xs @ [x])" for k
    using that by (auto simp: nth_append less_Suc_eq)
  show ?thesis
    unfolding ops_ok_def
  proof (intro conjI allI impI)
    fix i j
    assume "i < length (xs @ [x])" "op_outer ((xs @ [x]) ! i) \<noteq> Waiting" "j < i"
    then show "settled ((xs @ [x]) ! j)"
      using old [of i] old [of j] ops_okD(1) [OF ok, of i j] x by (auto split: if_splits)
  next
    fix i
    assume i: "i < length (xs @ [x])"
    show "op_outer ((xs @ [x]) ! i) = Waiting \<Longrightarrow> op_inner ((xs @ [x]) ! i) = NotStarted"
      using old [OF i] ops_okD(2) [OF ok, of i] x by (simp split: if_splits)
    show "op_outer ((xs @ [x]) ! i) = Racing \<Longrightarrow> active ((xs @ [x]) ! i)"
      using old [OF i] ops_okD(3) [OF ok, of i] x by (simp split: if_splits)
    show "active ((xs @ [x]) ! i) \<and> settled ((xs @ [x]) ! i) \<Longrightarrow> f"
      using old [OF i] ops_okD(4) [OF ok, of i] n by (simp split: if_splits)
    fix j
    assume "active ((xs @ [x]) ! i)" and j: "j < length (xs @ [x])" "i < j"
    then show "op_inner ((xs @ [x]) ! j) = NotStarted"
      using old [OF i] old [OF j(1)] ops_okD(5) [OF ok, of i j] x n by (simp split: if_splits)
  qed
qed

definition writes_of :: "write_action list \<Rightarrow> nat list" where
  "writes_of as = concat (map (\<lambda>a. case a of WriteBytes k _ \<Rightarrow> [k] | _ \<Rightarrow> []) as)"

lemma writes_of_snoc [simp]:
  "writes_of (as @ [a]) = writes_of as @ (case a of WriteBytes k _ \<Rightarrow> [k] | _ \<Rightarrow> [])"
  by (simp add: writes_of_def)

text \<open>The writes are in the order of the operations, and those of operations that have got that far.\<close>

definition trace_ok :: "write_op list \<Rightarrow> write_action list \<Rightarrow> bool" where
  "trace_ok xs as \<longleftrightarrow>
     sorted_wrt (<) (writes_of as) \<and>
     (\<forall>k \<in> set (writes_of as). k < length xs \<and> (op_inner (xs ! k) = AwaitsWrite \<or> op_inner (xs ! k) = Released)) \<and>
     (\<forall>k bs. WriteBytes k bs \<in> set as \<longrightarrow> k < length xs \<and> bs = op_bytes (xs ! k))"

definition outgoing_inv :: "outgoing \<Rightarrow> bool" where
  "outgoing_inv s \<longleftrightarrow>
     ops_ok (oq_failed s) (oq_ops s) \<and> trace_ok (oq_ops s) (oq_trace s) \<and>
     (\<forall>x \<in> set (oq_ops s). int (length (op_bytes x)) \<le> datagram_limit s) \<and>
     oq_count s = int (length (filter (\<lambda>x. \<not> op_counted_out x) (oq_ops s))) \<and>
     oq_count s \<le> max_pending_writes"

lemma trace_ok_update:
  assumes "trace_ok xs as" and "k < length xs" and "op_bytes x = op_bytes (xs ! k)"
    and "op_inner (xs ! k) = AwaitsWrite \<or> op_inner (xs ! k) = Released \<Longrightarrow> op_inner x = AwaitsWrite \<or> op_inner x = Released"
  shows "trace_ok (xs[k := x]) as"
  using assms unfolding trace_ok_def by (auto simp: nth_list_update)

lemma trace_ok_other:
  "trace_ok xs as \<Longrightarrow> (\<And>k bs. a \<noteq> WriteBytes k bs) \<Longrightarrow> trace_ok xs (as @ [a])"
  by (cases a) (auto simp: trace_ok_def)

lemma trace_ok_others:
  "trace_ok xs as \<Longrightarrow> \<forall>a \<in> set bs. \<forall>k ys. a \<noteq> WriteBytes k ys \<Longrightarrow> trace_ok xs (as @ bs)"
proof (induction bs arbitrary: as)
  case (Cons a bs)
  then have "trace_ok xs (as @ [a])" by (intro trace_ok_other) auto
  with Cons.IH [of "as @ [a]"] Cons.prems show ?case by simp
qed simp

lemma trace_ok_write:
  assumes t: "trace_ok xs as" and ok: "ops_ok f xs" and k: "k < length xs" and r: "op_inner (xs ! k) = AwaitsReady"
    and x: "op_bytes x = op_bytes (xs ! k)" "op_inner x = AwaitsWrite"
  shows "trace_ok (xs[k := x]) (as @ [WriteBytes k (op_bytes (xs ! k))])"
proof -
  have "j < k" if "j \<in> set (writes_of as)" for j
  proof -
    have j: "j < length xs" "op_inner (xs ! j) = AwaitsWrite \<or> op_inner (xs ! j) = Released"
      using t that unfolding trace_ok_def by blast+
    then have "j \<noteq> k" "\<not> k < j" using r ops_okD(5) [OF ok k, of j] by (auto simp: active_def)
    then show ?thesis by simp
  qed
  then have "sorted_wrt (<) (writes_of (as @ [WriteBytes k (op_bytes (xs ! k))]))"
    using t by (simp add: sorted_wrt_append trace_ok_def)
  with trace_ok_update [OF t k x(1)] x k r show ?thesis unfolding trace_ok_def by auto
qed

text \<open>A change to one operation, with what it appends to the history.\<close>

lemma outgoing_update:
  assumes i: "outgoing_inv s" and k: "k < length (oq_ops s)"
    and x: "op_bytes x = op_bytes (oq_ops s ! k)" "op_counted_out x = op_counted_out (oq_ops s ! k)"
    and ops: "ops_ok f' ((oq_ops s)[k := x])" and t: "trace_ok ((oq_ops s)[k := x]) as"
  shows "outgoing_inv (s\<lparr>oq_ops := (oq_ops s)[k := x], oq_failed := f', oq_trace := as\<rparr>)"
proof -
  have "\<forall>y \<in> set ((oq_ops s)[k := x]). int (length (op_bytes y)) \<le> datagram_limit s"
    using i k x(1) set_update_subset_insert [of "oq_ops s" k x] nth_mem [OF k] unfolding outgoing_inv_def by fastforce
  moreover have "length (filter (\<lambda>x. \<not> op_counted_out x) ((oq_ops s)[k := x])) =
      length (filter (\<lambda>x. \<not> op_counted_out x) (oq_ops s))"
  proof -
    have "map op_counted_out ((oq_ops s)[k := x]) = map op_counted_out (oq_ops s)"
      using k x(2) by (simp add: map_update list_update_same_conv)
    then have "length (filter Not (map op_counted_out ((oq_ops s)[k := x]))) =
        length (filter Not (map op_counted_out (oq_ops s)))" by simp
    then show ?thesis by (simp add: filter_map comp_def)
  qed
  ultimately show ?thesis
    using i ops t by (simp add: outgoing_inv_def datagram_limit_def)
qed

lemma outgoing_inv_parts:
  assumes "outgoing_inv s"
  shows "ops_ok (oq_failed s) (oq_ops s)" and "trace_ok (oq_ops s) (oq_trace s)"
  using assms by (simp_all add: outgoing_inv_def)

lemma send_packet_cases:
  obtains "fst (send_packet encode packet s) = s"
  | bytes where "fst (send_packet encode packet s) = s\<lparr>oq_count := oq_count s + 1,
        oq_ops := oq_ops s @ [\<lparr>op_bytes = bytes, op_inner = NotStarted, op_outer = Waiting, op_counted_out = False\<rparr>]\<rparr>"
      "int (length bytes) \<le> datagram_limit s" "oq_count s < max_pending_writes"
proof -
  let ?first = "encode packet"
  define bytes where
    "bytes = (if int (length ?first) > datagram_limit s then encode (shortened packet (length ?first)) else ?first)"
  have eq: "send_packet encode packet s =
      (if oq_aborted s then (s, SessionAborted)
       else if oq_failed s \<or> oq_count s \<ge> max_pending_writes then (s, QueueClosed)
       else if int (length bytes) > datagram_limit s then (s, TooLarge)
       else (s\<lparr>oq_count := oq_count s + 1,
               oq_ops := oq_ops s @ [\<lparr>op_bytes = bytes, op_inner = NotStarted, op_outer = Waiting,
                                     op_counted_out = False\<rparr>]\<rparr>, Queued (length (oq_ops s))))"
    by (simp only: send_packet_def Let_def bytes_def)
  show thesis
  proof (cases "oq_aborted s \<or> oq_failed s \<or> oq_count s \<ge> max_pending_writes \<or> int (length bytes) > datagram_limit s")
    case True
    then have "fst (send_packet encode packet s) = s" unfolding eq by auto
    then show thesis by (rule that(1))
  next
    case False
    then show thesis by (intro that(2) [of bytes]) (simp_all add: eq)
  qed
qed

lemma send_packet_inv:
  assumes i: "outgoing_inv s"
  shows "outgoing_inv (fst (send_packet encode packet s))"
proof (cases rule: send_packet_cases [of encode packet s])
  case (2 bytes)
  let ?x = "\<lparr>op_bytes = bytes, op_inner = NotStarted, op_outer = Waiting, op_counted_out = False\<rparr>"
  have "ops_ok (oq_failed s) (oq_ops s @ [?x])"
    by (rule ops_ok_snoc [OF outgoing_inv_parts(1) [OF i]]) simp_all
  moreover have "trace_ok (oq_ops s @ [?x]) (oq_trace s)"
    using outgoing_inv_parts(2) [OF i] unfolding trace_ok_def by (auto simp: nth_append less_Suc_eq)
  ultimately show ?thesis
    using i 2 unfolding outgoing_inv_def by (auto simp: datagram_limit_def)
qed (use i in simp)

lemma fail_op_inv:
  assumes i: "outgoing_inv s" and k: "k < length (oq_ops s)"
  shows "outgoing_inv (fail_op k s)"
proof (cases "op_outer (oq_ops s ! k) = Racing")
  case True
  let ?x = "(oq_ops s ! k)\<lparr>op_outer := Failed\<rparr>"
  have a: "active (oq_ops s ! k)" and prev: "\<forall>j < k. settled (oq_ops s ! j)"
    using ops_okD(3) [OF outgoing_inv_parts(1) [OF i] k True] ops_okD(1) [OF outgoing_inv_parts(1) [OF i] k] True by auto
  have "ops_ok True ((oq_ops s)[k := ?x])"
    by (rule ops_ok_update [OF outgoing_inv_parts(1) [OF i] k]) (use True a prev in \<open>auto simp: settled_def active_def\<close>)
  moreover have "trace_ok ((oq_ops s)[k := ?x]) (oq_trace s @ [CloseDemoSession])"
    by (rule trace_ok_other [OF trace_ok_update [OF outgoing_inv_parts(2) [OF i] k]]) auto
  ultimately have "outgoing_inv (s\<lparr>oq_ops := (oq_ops s)[k := ?x], oq_failed := True,
      oq_trace := oq_trace s @ [CloseDemoSession]\<rparr>)"
    by (intro outgoing_update [OF i k]) simp_all
  moreover have "fail_op k s = s\<lparr>oq_ops := (oq_ops s)[k := ?x], oq_failed := True,
      oq_trace := oq_trace s @ [CloseDemoSession]\<rparr>"
    using True by (cases s) (simp add: fail_op_def act_def on_op_def)
  ultimately show ?thesis by simp
qed (use i in \<open>simp add: fail_op_def\<close>)

text \<open>The net effect of leaving the writer.\<close>

lemma release_op_eq:
  assumes k: "k < length (oq_ops s)"
  shows "release_op k a s =
    (let x = oq_ops s ! k; race = (op_outer x = Racing); failed = (race \<and> a = RejectsWith) in
     s\<lparr>oq_ops := (oq_ops s)[k := x\<lparr>op_inner := Released,
           op_outer := (if \<not> race then op_outer x else if a = RejectsWith then Failed else Fulfilled)\<rparr>],
       oq_failed := (failed \<or> oq_failed s),
       oq_trace := oq_trace s @ ReleaseWriter k # (if failed then [CloseDemoSession] else [])\<rparr>)"
  using k by (cases s; cases a)
    (auto simp: release_op_def fail_op_def fulfil_op_def act_def on_op_def Let_def)

lemma release_op_inv:
  assumes i: "outgoing_inv s" and k: "k < length (oq_ops s)" and act: "active (oq_ops s ! k)"
  shows "outgoing_inv (release_op k a s)"
proof -
  let ?r = "op_outer (oq_ops s ! k) = Racing"
  let ?f = "?r \<and> a = RejectsWith"
  let ?x = "(oq_ops s ! k)\<lparr>op_inner := Released,
      op_outer := (if \<not> ?r then op_outer (oq_ops s ! k) else if a = RejectsWith then Failed else Fulfilled)\<rparr>"
  have w: "op_outer (oq_ops s ! k) \<noteq> Waiting"
    using ops_okD(2) [OF outgoing_inv_parts(1) [OF i] k] act by (auto simp: active_def)
  have prev: "\<forall>j < k. settled (oq_ops s ! j)"
    using ops_okD(1) [OF outgoing_inv_parts(1) [OF i] k] w by auto
  have "ops_ok (?f \<or> oq_failed s) ((oq_ops s)[k := ?x])"
    by (rule ops_ok_update [OF outgoing_inv_parts(1) [OF i] k])
      (use w prev act in \<open>auto simp: settled_def active_def\<close>)
  moreover have "trace_ok ((oq_ops s)[k := ?x]) (oq_trace s @ ReleaseWriter k # (if ?f then [CloseDemoSession] else []))"
    by (rule trace_ok_others [OF trace_ok_update [OF outgoing_inv_parts(2) [OF i] k]]) (auto split: if_splits)
  ultimately show ?thesis
    unfolding release_op_eq [OF k] Let_def by (intro outgoing_update [OF i k]) simp_all
qed

lemma start_op_inv:
  assumes i: "outgoing_inv s"
  shows "outgoing_inv (start_op k locked s)"
proof (cases "k < length (oq_ops s) \<and> op_outer (oq_ops s ! k) = Waiting \<and> (k = 0 \<or> settled (oq_ops s ! (k - 1)))")
  case True
  then have k: "k < length (oq_ops s)" and w: "op_outer (oq_ops s ! k) = Waiting"
    and p: "k = 0 \<or> settled (oq_ops s ! (k - 1))" by auto
  note ok = outgoing_inv_parts(1) [OF i]
  have prev: "\<forall>j < k. settled (oq_ops s ! j)"
  proof (cases "k = 0")
    case False
    then have q: "settled (oq_ops s ! (k - 1))" "k - 1 < length (oq_ops s)" using p k by auto
    then have "op_outer (oq_ops s ! (k - 1)) \<noteq> Waiting" by (auto simp: settled_def)
    from ops_okD(1) [OF ok q(2) this] q False show ?thesis by (metis less_Suc_eq Suc_diff_1 neq0_conv)
  qed simp
  have n: "op_inner (oq_ops s ! k) = NotStarted" by (rule ops_okD(2) [OF ok k w])
  have later: "\<forall>j < length (oq_ops s). k < j \<longrightarrow> op_inner (oq_ops s ! j) = NotStarted"
    using ops_okD(1) [OF ok] ops_okD(2) [OF ok] w by (metis outer_point.distinct(3,5) settled_def)
  show ?thesis
  proof (cases "oq_aborted s \<or> oq_failed s")
    case True
    let ?x = "(oq_ops s ! k)\<lparr>op_outer := Failed\<rparr>"
    have "ops_ok (oq_failed s) ((oq_ops s)[k := ?x])"
      by (rule ops_ok_update [OF ok k]) (use n prev in \<open>auto simp: settled_def active_def\<close>)
    moreover have "trace_ok ((oq_ops s)[k := ?x]) (oq_trace s)"
      by (rule trace_ok_update [OF outgoing_inv_parts(2) [OF i] k]) auto
    ultimately have "outgoing_inv (s\<lparr>oq_ops := (oq_ops s)[k := ?x], oq_failed := oq_failed s, oq_trace := oq_trace s\<rparr>)"
      by (intro outgoing_update [OF i k]) simp_all
    moreover have "start_op k locked s = s\<lparr>oq_ops := (oq_ops s)[k := ?x], oq_failed := oq_failed s, oq_trace := oq_trace s\<rparr>"
      using True k w p by (cases s) (simp add: start_op_def on_op_def)
    ultimately show ?thesis by simp
  next
    case False
    then have idle: "\<forall>j < k. \<not> active (oq_ops s ! j)" using prev ops_okD(4) [OF ok] k by (metis less_trans)
    show ?thesis
    proof (cases locked)
      case True
      let ?x = "(oq_ops s ! k)\<lparr>op_inner := Released, op_outer := Failed\<rparr>"
      have "ops_ok True ((oq_ops s)[k := ?x])"
        by (rule ops_ok_update [OF ok k]) (use n prev idle in \<open>auto simp: settled_def active_def\<close>)
      moreover have "trace_ok ((oq_ops s)[k := ?x]) (oq_trace s @ [CloseDemoSession])"
        by (rule trace_ok_other [OF trace_ok_update [OF outgoing_inv_parts(2) [OF i] k]]) auto
      ultimately have "outgoing_inv (s\<lparr>oq_ops := (oq_ops s)[k := ?x], oq_failed := True,
          oq_trace := oq_trace s @ [CloseDemoSession]\<rparr>)"
        by (intro outgoing_update [OF i k]) simp_all
      moreover have "start_op k locked s = s\<lparr>oq_ops := (oq_ops s)[k := ?x], oq_failed := True,
          oq_trace := oq_trace s @ [CloseDemoSession]\<rparr>"
        using True False k w p by (cases s) (simp add: start_op_def fail_op_def act_def on_op_def)
      ultimately show ?thesis by simp
    next
      case unlocked: False
      let ?x = "(oq_ops s ! k)\<lparr>op_inner := AwaitsReady, op_outer := Racing\<rparr>"
      have "ops_ok (oq_failed s) ((oq_ops s)[k := ?x])"
        by (rule ops_ok_update [OF ok k]) (use w n prev idle later in \<open>auto simp: settled_def active_def\<close>)
      moreover have "trace_ok ((oq_ops s)[k := ?x]) (oq_trace s @ [TakeWriter k])"
        by (rule trace_ok_other [OF trace_ok_update [OF outgoing_inv_parts(2) [OF i] k]]) (auto simp: n)
      ultimately have "outgoing_inv (s\<lparr>oq_ops := (oq_ops s)[k := ?x], oq_failed := oq_failed s,
          oq_trace := oq_trace s @ [TakeWriter k]\<rparr>)"
        by (intro outgoing_update [OF i k]) simp_all
      moreover have "start_op k locked s = s\<lparr>oq_ops := (oq_ops s)[k := ?x], oq_failed := oq_failed s,
          oq_trace := oq_trace s @ [TakeWriter k]\<rparr>"
        using unlocked False k w p by (cases s) (simp add: start_op_def act_def on_op_def)
      ultimately show ?thesis by simp
    qed
  qed
qed (use i in \<open>simp add: start_op_def\<close>)

lemma ready_settles_inv:
  assumes i: "outgoing_inv s"
  shows "outgoing_inv (ready_settles k a s)"
proof (cases "k < length (oq_ops s) \<and> op_inner (oq_ops s ! k) = AwaitsReady")
  case True
  then have k: "k < length (oq_ops s)" and r: "op_inner (oq_ops s ! k) = AwaitsReady"
    and act: "active (oq_ops s ! k)" by (auto simp: active_def)
  show ?thesis
  proof (cases "a = Resolves \<and> \<not> oq_aborted s")
    case True
    let ?x = "(oq_ops s ! k)\<lparr>op_inner := AwaitsWrite\<rparr>"
    note ok = outgoing_inv_parts(1) [OF i]
    have w: "op_outer (oq_ops s ! k) \<noteq> Waiting" using ops_okD(2) [OF ok k] r by auto
    have "ops_ok (oq_failed s) ((oq_ops s)[k := ?x])"
      by (rule ops_ok_update [OF ok k])
        (use w act ops_okD(1) [OF ok k w] ops_okD(4) [OF ok k act] in \<open>auto simp: settled_def active_def\<close>)
    moreover have "trace_ok ((oq_ops s)[k := ?x]) (oq_trace s @ [WriteBytes k (op_bytes (oq_ops s ! k))])"
      by (rule trace_ok_write [OF outgoing_inv_parts(2) [OF i] ok k r]) simp_all
    ultimately have "outgoing_inv (s\<lparr>oq_ops := (oq_ops s)[k := ?x], oq_failed := oq_failed s,
        oq_trace := oq_trace s @ [WriteBytes k (op_bytes (oq_ops s ! k))]\<rparr>)"
      by (intro outgoing_update [OF i k]) simp_all
    moreover have "ready_settles k a s = s\<lparr>oq_ops := (oq_ops s)[k := ?x], oq_failed := oq_failed s,
        oq_trace := oq_trace s @ [WriteBytes k (op_bytes (oq_ops s ! k))]\<rparr>"
      using True k r by (cases s) (simp add: ready_settles_def act_def on_op_def)
    ultimately show ?thesis by simp
  next
    case False
    with k r show ?thesis by (auto simp: ready_settles_def release_op_inv [OF i k act])
  qed
next
  case False
  then have "ready_settles k a s = s" by (simp only: ready_settles_def if_True simp_thms)
  with i show ?thesis by simp
qed

lemma write_settles_inv: "outgoing_inv s \<Longrightarrow> outgoing_inv (write_settles k a s)"
  by (simp add: write_settles_def release_op_inv active_def)

lemma length_fail_op [simp]: "length (oq_ops (fail_op k s)) = length (oq_ops s)"
  by (simp add: fail_op_def act_def on_op_def)

lemma fail_all_inv:
  "outgoing_inv s \<Longrightarrow> \<forall>k \<in> set ks. k < length (oq_ops s) \<Longrightarrow> outgoing_inv (fold fail_op ks s)"
  by (induction ks arbitrary: s) (simp_all add: fail_op_inv)

lemma abort_demo_inv: "outgoing_inv s \<Longrightarrow> outgoing_inv (abort_demo_session s)"
proof -
  assume i: "outgoing_inv s"
  then have "outgoing_inv (s\<lparr>oq_aborted := True\<rparr>)" by (simp add: outgoing_inv_def datagram_limit_def)
  then show ?thesis using i fail_all_inv by (simp add: abort_demo_session_def)
qed

lemma count_out_inv:
  assumes i: "outgoing_inv s"
  shows "outgoing_inv (count_out k s)"
proof (cases "k < length (oq_ops s) \<and> settled (oq_ops s ! k) \<and> \<not> op_counted_out (oq_ops s ! k)")
  case True
  let ?x = "(oq_ops s ! k)\<lparr>op_counted_out := True\<rparr>"
  note ok = outgoing_inv_parts(1) [OF i]
  from True have k: "k < length (oq_ops s)" and st: "settled (oq_ops s ! k)" and c: "\<not> op_counted_out (oq_ops s ! k)"
    by auto
  have w: "op_outer (oq_ops s ! k) \<noteq> Waiting" "op_outer (oq_ops s ! k) \<noteq> Racing" using st by (auto simp: settled_def)
  have "ops_ok (oq_failed s) ((oq_ops s)[k := ?x])"
    by (rule ops_ok_update [OF ok k])
      (use w st ops_okD(1) [OF ok k w(1)] ops_okD(4) [OF ok k _ st] in \<open>auto simp: settled_def active_def\<close>)
  moreover have "trace_ok ((oq_ops s)[k := ?x]) (oq_trace s)"
    by (rule trace_ok_update [OF outgoing_inv_parts(2) [OF i] k]) auto
  moreover have "Suc (length (filter (\<lambda>x. \<not> op_counted_out x) ((oq_ops s)[k := ?x]))) =
      length (filter (\<lambda>x. \<not> op_counted_out x) (oq_ops s))"
    by (rule length_filter_update [OF k]) (simp_all add: c)
  moreover have "\<forall>y \<in> set ((oq_ops s)[k := ?x]). int (length (op_bytes y)) \<le> datagram_limit s"
    using i set_update_subset_insert [of "oq_ops s" k ?x] nth_mem [OF k] unfolding outgoing_inv_def by fastforce
  ultimately show ?thesis
    using i True by (simp add: count_out_def on_op_def outgoing_inv_def datagram_limit_def)
qed (use i in \<open>auto simp: count_out_def\<close>)

lemma write_step_inv: "outgoing_inv s \<Longrightarrow> outgoing_inv (write_step encode e s)"
  by (cases e) (simp_all add: send_packet_inv start_op_inv ready_settles_inv write_settles_inv write_times_out_def
      fail_op_inv abort_demo_inv count_out_inv)

interpretation outgoing_life: event_system "write_step encode" outgoing_inv for encode
  by unfold_locales (rule write_step_inv)

lemma new_outgoing_inv: "outgoing_inv (new_outgoing n)"
  by (simp add: outgoing_inv_def new_outgoing_def ops_ok_def trace_ok_def writes_of_def max_pending_writes_def)

definition write_run :: "(packet \<Rightarrow> nat list) \<Rightarrow> write_event list \<Rightarrow> outgoing \<Rightarrow> outgoing" where
  "write_run encode es s = fold (write_step encode) es s"

lemma write_step_limit [simp]: "oq_max_datagram (write_step encode e s) = oq_max_datagram s"
proof -
  have f: "oq_max_datagram (fail_op k s) = oq_max_datagram s" for k s by (simp add: fail_op_def act_def on_op_def)
  have "oq_max_datagram (fold fail_op ks s) = oq_max_datagram s" for ks s by (induction ks arbitrary: s) (simp_all add: f)
  then show ?thesis
    by (cases e) (simp_all add: send_packet_def start_op_def ready_settles_def write_settles_def write_times_out_def
        abort_demo_session_def count_out_def release_op_def fulfil_op_def act_def on_op_def f Let_def split: answer.split)
qed

lemma write_run_limit [simp]: "oq_max_datagram (write_run encode es s) = oq_max_datagram s"
  unfolding write_run_def by (induction es arbitrary: s) simp_all

section \<open>After a failure\<close>

text \<open>The operations that have taken the writer and still wait for it to be ready.\<close>

definition ready_ops :: "outgoing \<Rightarrow> nat set" where
  "ready_ops s = {k. k < length (oq_ops s) \<and> op_inner (oq_ops s ! k) = AwaitsReady}"

text \<open>
  \<open>calm s s'\<close>: on the way from \<open>s\<close> to \<open>s'\<close> nothing is queued, no operation takes the writer, and what is
  written belongs to operations that were waiting in the writer; \<open>mute\<close>: nothing is written.
\<close>

definition calm :: "outgoing \<Rightarrow> outgoing \<Rightarrow> bool" where
  "calm s s' \<longleftrightarrow>
     (\<exists>as. oq_trace s' = oq_trace s @ as \<and> (\<forall>k. TakeWriter k \<notin> set as) \<and> set (writes_of as) \<subseteq> ready_ops s) \<and>
     ready_ops s' \<subseteq> ready_ops s \<and> length (oq_ops s') = length (oq_ops s) \<and> (oq_failed s \<longrightarrow> oq_failed s')"

definition mute :: "outgoing \<Rightarrow> outgoing \<Rightarrow> bool" where
  "mute s s' \<longleftrightarrow>
     (\<exists>as. oq_trace s' = oq_trace s @ as \<and> writes_of as = []) \<and> (oq_aborted s \<longrightarrow> oq_aborted s')"

lemma writes_of_append [simp]: "writes_of (as @ bs) = writes_of as @ writes_of bs"
  by (simp add: writes_of_def)

lemma calm_refl [simp]: "calm s s"
  by (auto simp: calm_def writes_of_def)

lemma calm_trans: "calm s t \<Longrightarrow> calm t u \<Longrightarrow> calm s u"
  unfolding calm_def by (elim conjE exE, intro conjI, rule_tac x = "as @ asa" in exI) auto

lemma mute_refl [simp]: "mute s s"
  by (simp add: mute_def writes_of_def)

lemma mute_trans: "mute s t \<Longrightarrow> mute t u \<Longrightarrow> mute s u"
  unfolding mute_def by (elim conjE exE, intro conjI, rule_tac x = "as @ asa" in exI) auto

lemma on_op_simps [simp]:
  "oq_trace (on_op k f s) = oq_trace s" "oq_failed (on_op k f s) = oq_failed s" "oq_aborted (on_op k f s) = oq_aborted s"
  "length (oq_ops (on_op k f s)) = length (oq_ops s)"
  by (simp_all add: on_op_def)

lemma act_simps [simp]:
  "oq_trace (act a s) = oq_trace s @ [a]" "oq_failed (act a s) = oq_failed s" "oq_aborted (act a s) = oq_aborted s"
  "oq_ops (act a s) = oq_ops s"
  by (simp_all add: act_def)

lemma on_op_ready:
  assumes "\<And>x. op_inner (f x) = AwaitsReady \<Longrightarrow> op_inner x = AwaitsReady"
  shows "ready_ops (on_op k f s) \<subseteq> ready_ops s"
  using assms by (auto simp: ready_ops_def on_op_def) (metis nth_list_update_eq nth_list_update_neq)

lemma calm_on_op:
  assumes "\<And>x. op_inner (f x) = AwaitsReady \<Longrightarrow> op_inner x = AwaitsReady"
  shows "calm s (on_op k f s)"
  using on_op_ready [OF assms] by (auto simp: calm_def writes_of_def)

lemma mute_on_op [simp]: "mute s (on_op k f s)"
  by (simp add: mute_def writes_of_def)

lemma calm_act: "(\<And>k. a \<noteq> TakeWriter k) \<Longrightarrow> (\<And>k bs. a = WriteBytes k bs \<Longrightarrow> k \<in> ready_ops s) \<Longrightarrow> calm s (act a s)"
  by (cases a) (auto simp: calm_def ready_ops_def writes_of_def)

lemma mute_act: "(\<And>k bs. a \<noteq> WriteBytes k bs) \<Longrightarrow> mute s (act a s)"
  by (cases a) (auto simp: mute_def writes_of_def)

lemma calm_failed: "calm s (s\<lparr>oq_failed := True\<rparr>)" "mute s (s\<lparr>oq_failed := True\<rparr>)"
  by (auto simp: calm_def mute_def ready_ops_def writes_of_def)

lemma fail_op_calm: "calm s (fail_op k s)" "mute s (fail_op k s)"
proof -
  let ?t = "on_op k (\<lambda>x. x\<lparr>op_outer := Failed\<rparr>) (s\<lparr>oq_failed := True\<rparr>)"
  have "calm s ?t" by (rule calm_trans [OF calm_failed(1) calm_on_op]) simp
  moreover have "calm ?t (act CloseDemoSession ?t)" by (rule calm_act) auto
  ultimately have c: "calm s (act CloseDemoSession ?t)" by (rule calm_trans)
  have "mute s ?t" by (rule mute_trans [OF calm_failed(2) mute_on_op])
  then have m: "mute s (act CloseDemoSession ?t)" by (rule mute_trans [OF _ mute_act]) simp
  from c m show "calm s (fail_op k s)" "mute s (fail_op k s)" by (simp_all only: fail_op_def calm_refl mute_refl split: if_split) simp_all
qed

lemma release_op_calm: "calm s (release_op k a s)" "mute s (release_op k a s)"
proof -
  let ?t = "on_op k (\<lambda>x. x\<lparr>op_inner := Released\<rparr>) s"
  let ?u = "act (ReleaseWriter k) ?t"
  have c: "calm s ?u" by (rule calm_trans [OF calm_on_op calm_act]) auto
  have m: "mute s ?u" by (rule mute_trans [OF mute_on_op mute_act]) simp
  have f: "calm ?u (fulfil_op k ?u)" "mute ?u (fulfil_op k ?u)"
    using calm_on_op [of "\<lambda>x. x\<lparr>op_outer := Fulfilled\<rparr>" ?u k] by (simp_all add: fulfil_op_def)
  show "calm s (release_op k a s)" "mute s (release_op k a s)"
    using calm_trans [OF c f(1)] mute_trans [OF m f(2)] calm_trans [OF c fail_op_calm(1)] mute_trans [OF m fail_op_calm(2)]
    by (simp_all add: release_op_def Let_def split: answer.split)
qed

lemma fail_all_calm: "calm s (fold fail_op ks s) \<and> mute s (fold fail_op ks s)"
proof (induction ks arbitrary: s)
  case (Cons k ks)
  with calm_trans [OF fail_op_calm(1)] mute_trans [OF fail_op_calm(2)] show ?case by simp blast
qed simp

lemma aborted_calm: "calm s (s\<lparr>oq_aborted := True\<rparr>)" "mute s (s\<lparr>oq_aborted := True\<rparr>)"
  by (auto simp: calm_def mute_def ready_ops_def writes_of_def)

lemma counted_calm: "calm s (s\<lparr>oq_count := n\<rparr>)" "mute s (s\<lparr>oq_count := n\<rparr>)"
  by (auto simp: calm_def mute_def ready_ops_def writes_of_def)

lemma abort_demo_calm: "calm s (abort_demo_session s)" "mute s (abort_demo_session s)"
  using fail_all_calm calm_trans [OF aborted_calm(1)] mute_trans [OF aborted_calm(2)]
  by (auto simp: abort_demo_session_def)

lemma count_out_calm: "calm s (count_out k s)" "mute s (count_out k s)"
proof -
  have "calm s (on_op k (\<lambda>x. x\<lparr>op_counted_out := True\<rparr>) s)" by (rule calm_on_op) simp
  with calm_trans [OF _ counted_calm(1)] mute_trans [OF mute_on_op counted_calm(2)]
  show "calm s (count_out k s)" "mute s (count_out k s)" by (auto simp: count_out_def)
qed

lemma ready_settles_calm: "calm s (ready_settles k a s)"
proof (cases "k < length (oq_ops s) \<and> op_inner (oq_ops s ! k) = AwaitsReady \<and> a = Resolves \<and> \<not> oq_aborted s")
  case True
  let ?t = "on_op k (\<lambda>x. x\<lparr>op_inner := AwaitsWrite\<rparr>) s"
  have "ready_ops ?t \<subseteq> ready_ops s" by (rule on_op_ready) simp
  moreover have "k \<in> ready_ops s" using True by (simp add: ready_ops_def)
  moreover have "ready_ops (act x ?t) = ready_ops ?t" for x by (simp add: ready_ops_def)
  ultimately show ?thesis
    using True by (auto simp: ready_settles_def calm_def writes_of_def)
qed (auto simp: ready_settles_def release_op_calm)

lemma failed_step: "oq_failed s \<Longrightarrow> calm s (write_step encode e s)"
  by (cases e)
    (auto simp: send_packet_def start_op_def ready_settles_calm write_settles_def write_times_out_def release_op_calm
      fail_op_calm abort_demo_calm count_out_calm intro: calm_on_op)

lemma aborted_step: "oq_aborted s \<Longrightarrow> mute s (write_step encode e s)"
  by (cases e)
    (auto simp: send_packet_def start_op_def ready_settles_def write_settles_def write_times_out_def release_op_calm
      fail_op_calm abort_demo_calm count_out_calm)

lemma failed_run: "oq_failed s \<Longrightarrow> calm s (write_run encode es s)"
  unfolding write_run_def
proof (induction es arbitrary: s)
  case (Cons e es)
  have c: "calm s (write_step encode e s)" by (rule failed_step [OF Cons.prems])
  then have "oq_failed (write_step encode e s)" using Cons.prems by (simp add: calm_def)
  from calm_trans [OF c Cons.IH [OF this]] show ?case by simp
qed simp

lemma aborted_run: "oq_aborted s \<Longrightarrow> mute s (write_run encode es s)"
  unfolding write_run_def
proof (induction es arbitrary: s)
  case (Cons e es)
  have c: "mute s (write_step encode e s)" by (rule aborted_step [OF Cons.prems])
  then have "oq_aborted (write_step encode e s)" using Cons.prems by (simp add: mute_def)
  from mute_trans [OF c Cons.IH [OF this]] show ?case by simp
qed simp

lemma write_run_append: "write_run encode (es @ es') s = write_run encode es' (write_run encode es s)"
  by (simp add: write_run_def)

text \<open>
  C23. The outgoing queue of a demo session, in every reachable state: at most 16 operations have not been
  counted out; at most one is inside the writer; datagrams are written in the order in which they were
  queued, each at most once and never larger than 1200 bytes or what the session takes. Once a write has
  failed or timed out, whatever follows, nothing more is queued and no further operation takes the writer:
  the only datagram that can still be written is the one of an operation that was already in the writer,
  waiting for it to be ready, when the queue failed. Once the session has been aborted, nothing is written.
\<close>

theorem demo_writes_ordered:
  "let s = write_run encode es (new_outgoing n); s' = write_run encode es' s in
     int (length (filter (\<lambda>x. \<not> op_counted_out x) (oq_ops s))) \<le> max_pending_writes \<and>
     (\<forall>j < length (oq_ops s). \<forall>k < length (oq_ops s). active (oq_ops s ! j) \<longrightarrow> active (oq_ops s ! k) \<longrightarrow> j = k) \<and>
     sorted_wrt (<) (writes_of (oq_trace s)) \<and>
     (\<forall>k bytes. WriteBytes k bytes \<in> set (oq_trace s) \<longrightarrow>
        bytes = op_bytes (oq_ops s ! k) \<and> int (length bytes) \<le> min 1200 n) \<and>
     (oq_failed s \<longrightarrow>
        length (oq_ops s') = length (oq_ops s) \<and>
        (\<exists>as. oq_trace s' = oq_trace s @ as \<and> (\<forall>k. TakeWriter k \<notin> set as) \<and> length (writes_of as) \<le> 1 \<and>
           (\<forall>k \<in> set (writes_of as). k < length (oq_ops s) \<and> op_inner (oq_ops s ! k) = AwaitsReady))) \<and>
     (oq_aborted s \<longrightarrow> (\<exists>as. oq_trace s' = oq_trace s @ as \<and> writes_of as = []))"
proof -
  let ?s = "write_run encode es (new_outgoing n)"
  let ?s' = "write_run encode es' ?s"
  have inv: "outgoing_inv (write_run encode es (new_outgoing n))" for es
    unfolding write_run_def by (rule outgoing_life.run_inv [OF new_outgoing_inv])
  then have i: "outgoing_inv ?s" .
  note ok = outgoing_inv_parts(1) [OF i]
  have d: "datagram_limit ?s = min 1200 n" by (simp add: datagram_limit_def) (simp add: new_outgoing_def)
  have one: "j = k" if "j < length (oq_ops ?s)" "k < length (oq_ops ?s)" "active (oq_ops ?s ! j)" "active (oq_ops ?s ! k)"
    for j k
    using ops_okD(5) [OF ok that(1,3), of k] ops_okD(5) [OF ok that(2,4), of j] that
    by (cases j k rule: linorder_cases) (auto simp: active_def)
  have b: "bytes = op_bytes (oq_ops ?s ! k) \<and> int (length bytes) \<le> min 1200 n"
    if "WriteBytes k bytes \<in> set (oq_trace ?s)" for k bytes
  proof -
    have "k < length (oq_ops ?s)" "bytes = op_bytes (oq_ops ?s ! k)"
      using outgoing_inv_parts(2) [OF i] that unfolding trace_ok_def by blast+
    then show ?thesis using i nth_mem [of k "oq_ops ?s"] unfolding outgoing_inv_def d by auto
  qed
  have failed: "length (oq_ops ?s') = length (oq_ops ?s) \<and>
      (\<exists>as. oq_trace ?s' = oq_trace ?s @ as \<and> (\<forall>k. TakeWriter k \<notin> set as) \<and> length (writes_of as) \<le> 1 \<and>
         (\<forall>k \<in> set (writes_of as). k < length (oq_ops ?s) \<and> op_inner (oq_ops ?s ! k) = AwaitsReady))"
    if f: "oq_failed ?s"
  proof -
    from failed_run [OF f, of encode es'] obtain as where
      as: "oq_trace ?s' = oq_trace ?s @ as" "\<forall>k. TakeWriter k \<notin> set as" "set (writes_of as) \<subseteq> ready_ops ?s"
      and len: "length (oq_ops ?s') = length (oq_ops ?s)" by (auto simp: calm_def)
    have "sorted_wrt (<) (writes_of (oq_trace ?s'))"
      using outgoing_inv_parts(2) [OF inv [of "es @ es'"]] by (simp add: trace_ok_def write_run_append)
    then have dist: "distinct (writes_of as)" by (simp add: as(1) sorted_wrt_append strict_sorted_iff)
    have "j = k" if "j \<in> set (writes_of as)" "k \<in> set (writes_of as)" for j k
      using one that as(3) by (auto simp: ready_ops_def active_def)
    then have "card (set (writes_of as)) \<le> Suc 0" by (simp add: card_le_Suc0_iff_eq)
    then have "length (writes_of as) \<le> 1" using distinct_card [OF dist] by simp
    with as len show ?thesis by (auto simp: ready_ops_def)
  qed
  have aborted: "\<exists>as. oq_trace ?s' = oq_trace ?s @ as \<and> writes_of as = []" if "oq_aborted ?s"
    using aborted_run [OF that, of encode es'] by (simp add: mute_def)
  show ?thesis
    using i one b failed aborted outgoing_inv_parts(2) [OF i] unfolding Let_def outgoing_inv_def trace_ok_def by auto
qed

definition example_writes :: "write_event list" where
  "example_writes =
     [SendPacket [], SendPacket [], StartOp 0 False, ReadySettles 0 Resolves, WriteSettles 0 Resolves, CountOut 0,
      StartOp 1 False, ReadySettles 1 Resolves, WriteTimesOut 1, SendPacket [], CountOut 1]"

lemma example_writes_facts:
  "writes_of (oq_trace (write_run (\<lambda>_. [7, 8]) example_writes (new_outgoing 100))) = [0, 1] \<and>
   oq_failed (write_run (\<lambda>_. [7, 8]) example_writes (new_outgoing 100)) \<and>
   WriteBytes 1 [7, 8] \<in> set (oq_trace (write_run (\<lambda>_. [7, 8]) example_writes (new_outgoing 100)))"
  by code_simp

text \<open>A datagram whose write timed out before the writer was ready can still be written afterwards.\<close>

lemma late_write:
  "oq_failed (write_run (\<lambda>_. [7, 8]) [SendPacket [], StartOp 0 False, WriteTimesOut 0] (new_outgoing 100)) \<and>
   writes_of (oq_trace (write_run (\<lambda>_. [7, 8]) [ReadySettles 0 Resolves]
     (write_run (\<lambda>_. [7, 8]) [SendPacket [], StartOp 0 False, WriteTimesOut 0] (new_outgoing 100)))) = [0]"
  by code_simp

theorem demo_writes_ordered_witness:
  "let s = write_run (\<lambda>_. [7, 8]) example_writes (new_outgoing 100);
       s' = write_run (\<lambda>_. [7, 8]) [SendPacket [], StartOp 2 False, ReadySettles 2 Resolves] s in
     writes_of (oq_trace s) = [0, 1] \<and> op_bytes (oq_ops s ! 1) = [7, 8] \<and> length (oq_ops s') = length (oq_ops s)"
  using demo_writes_ordered [of "\<lambda>_. [7, 8]" example_writes 100 "[SendPacket [], StartOp 2 False, ReadySettles 2 Resolves]"]
    example_writes_facts
  unfolding Let_def by metis

end
