(* ===== verification/Demo_Gateway.thy ===== *)
theory Demo_Gateway
  imports Demo_Writes
begin

text \<open>
  The gateway of the web demo (\<open>examples/web-demo/src/demo.gateway.ts\<close>) above its outgoing queues: the
  set of connected sessions, the client's datagrams, broadcasts, and the bounded preview of a
  unidirectional stream. A session is a number; its queue is the one of \<open>Demo_Writes\<close>. \<open>parse\<close> is
  \<open>JSON.parse\<close> of the decoded bytes, \<open>clock\<close> the value of \<open>Date.now()\<close>.
\<close>

section \<open>Client datagrams\<close>

record client_datagram =
  cd_type :: string
  cd_id :: string
  cd_sent_at :: js_number
  cd_message :: string

definition parse_client_datagram :: "(nat list \<Rightarrow> json option) \<Rightarrow> nat list \<Rightarrow> client_datagram option" where
  "parse_client_datagram parse bytes =
     (case parse bytes of
        Some (JObject entries) \<Rightarrow>
          (case (member ''type'' entries, member ''id'' entries, member ''sentAt'' entries, member ''message'' entries) of
             (Some (JString type), Some (JString ident), Some (JNumber sent), Some (JString message)) \<Rightarrow>
               if type \<noteq> ''echo'' \<and> type \<noteq> ''broadcast'' \<or> length ident > 128 \<or> \<not> is_finite sent \<or>
                  length message > 400 then None
               else Some \<lparr>cd_type = type, cd_id = ident, cd_sent_at = sent, cd_message = message\<rparr>
           | _ \<Rightarrow> None)
      | _ \<Rightarrow> None)"

section \<open>The gateway\<close>

record demo_gateway =
  dg_sessions :: "nat list"
  dg_listening :: "nat list"
  dg_queues :: "nat \<Rightarrow> outgoing"

definition new_demo_gateway :: "(nat \<Rightarrow> int) \<Rightarrow> demo_gateway" where
  "new_demo_gateway max_datagram =
     \<lparr>dg_sessions = [], dg_listening = [], dg_queues = (\<lambda>i. new_outgoing (max_datagram i))\<rparr>"

definition send_to :: "(packet \<Rightarrow> nat list) \<Rightarrow> packet \<Rightarrow> nat \<Rightarrow> demo_gateway \<Rightarrow> demo_gateway" where
  "send_to encode packet i g =
     g\<lparr>dg_queues := (dg_queues g)(i := fst (send_packet encode packet (dg_queues g i)))\<rparr>"

text \<open>\<open>[...this.sessions].map((target) => this.sendPacket(target, ...))\<close>.\<close>

definition send_to_all :: "(packet \<Rightarrow> nat list) \<Rightarrow> packet \<Rightarrow> demo_gateway \<Rightarrow> demo_gateway" where
  "send_to_all encode packet g = fold (send_to encode packet) (dg_sessions g) g"

definition broadcast_server_event ::
  "(packet \<Rightarrow> nat list) \<Rightarrow> js_number \<Rightarrow> string \<Rightarrow> string \<Rightarrow> demo_gateway \<Rightarrow> demo_gateway" where
  "broadcast_server_event encode clock event session g =
     send_to_all encode
       [(''type'', Some (JString ''server-event'')), (''event'', Some (JString event)),
        (''sessionId'', Some (JString session)),
        (''activeSessions'', Some (JNumber (js_int (int (length (dg_sessions g)))))),
        (''serverAt'', Some (JNumber clock))] g"

text \<open>The handler of a session; an aborted session makes it throw.\<close>

definition connected :: "(packet \<Rightarrow> nat list) \<Rightarrow> (nat \<Rightarrow> string) \<Rightarrow> js_number \<Rightarrow> nat \<Rightarrow> demo_gateway \<Rightarrow> demo_gateway" where
  "connected encode name clock i g =
     (if oq_aborted (dg_queues g i) then g
      else broadcast_server_event encode clock ''session-joined'' (name i)
             (g\<lparr>dg_sessions := js_add i (dg_sessions g), dg_listening := dg_listening g @ [i]\<rparr>))"

text \<open>The signal of a session aborts: the listener of each \<open>connected\<close> call runs, once.\<close>

definition session_left :: "(packet \<Rightarrow> nat list) \<Rightarrow> (nat \<Rightarrow> string) \<Rightarrow> js_number \<Rightarrow> nat \<Rightarrow> demo_gateway \<Rightarrow> demo_gateway" where
  "session_left encode name clock i g =
     broadcast_server_event encode clock ''session-left'' (name i)
       (g\<lparr>dg_sessions := js_delete i (dg_sessions g)\<rparr>)"

definition demo_session_aborts ::
  "(packet \<Rightarrow> nat list) \<Rightarrow> (nat \<Rightarrow> string) \<Rightarrow> js_number \<Rightarrow> nat \<Rightarrow> demo_gateway \<Rightarrow> demo_gateway" where
  "demo_session_aborts encode name clock i g =
     (if oq_aborted (dg_queues g i) then g
      else
        (let g1 = g\<lparr>dg_queues := (dg_queues g)(i := abort_demo_session (dg_queues g i))\<rparr>;
             listeners = filter (\<lambda>j. j = i) (dg_listening g1);
             g2 = g1\<lparr>dg_listening := js_delete i (dg_listening g1)\<rparr>
         in fold (\<lambda>_. session_left encode name clock i) listeners g2))"

definition client_packet :: "client_datagram \<Rightarrow> string \<Rightarrow> js_number \<Rightarrow> string \<Rightarrow> packet" where
  "client_packet d type clock source =
     [(''type'', Some (JString type)), (''id'', Some (JString (cd_id d))), (''sentAt'', Some (JNumber (cd_sent_at d))),
      (''message'', Some (JString (cd_message d))), (''serverAt'', Some (JNumber clock)),
      (''sourceSessionId'', Some (JString source))]"

definition broadcast_packet :: "client_datagram \<Rightarrow> js_number \<Rightarrow> string \<Rightarrow> nat \<Rightarrow> packet" where
  "broadcast_packet d clock source recipients =
     client_packet d ''broadcast'' clock source @ [(''recipients'', Some (JNumber (js_int (int recipients))))]"

definition handle_demo_datagram ::
  "(packet \<Rightarrow> nat list) \<Rightarrow> (nat list \<Rightarrow> json option) \<Rightarrow> (nat \<Rightarrow> string) \<Rightarrow> js_number \<Rightarrow> nat \<Rightarrow> nat list \<Rightarrow> demo_gateway
     \<Rightarrow> demo_gateway" where
  "handle_demo_datagram encode parse name clock i bytes g =
     (case parse_client_datagram parse bytes of
        None \<Rightarrow>
          send_to encode
            [(''type'', Some (JString ''server-error'')), (''event'', Some (JString ''invalid-datagram'')),
             (''bytes'', Some (JNumber (js_int (int (length bytes)))))] i g
      | Some d \<Rightarrow>
          if cd_type d = ''echo'' then send_to encode (client_packet d ''echo'' clock (name i)) i g
          else send_to_all encode (broadcast_packet d clock (name i) (length (dg_sessions g))) g)"

section \<open>The preview of a unidirectional stream\<close>

definition preview_bytes :: nat where
  "preview_bytes = 256"

record preview =
  pv_chunks :: "nat list list"
  pv_bytes :: nat
  pv_retained :: nat

definition preview_chunk :: "nat list \<Rightarrow> preview \<Rightarrow> preview" where
  "preview_chunk chunk v =
     (let retained = min (preview_bytes - pv_retained v) (length chunk); v1 = v\<lparr>pv_bytes := pv_bytes v + length chunk\<rparr>
      in if retained > 0 then
           v1\<lparr>pv_chunks := pv_chunks v @ [take retained chunk], pv_retained := pv_retained v + retained\<rparr>
         else v1)"

text \<open>\<open>joined.set(chunk, offset)\<close> over a zeroed array.\<close>

definition join_chunks :: "nat list list \<Rightarrow> nat \<Rightarrow> nat list" where
  "join_chunks chunks n =
     fst (fold (\<lambda>chunk (joined, offset).
         (take offset joined @ chunk @ drop (offset + length chunk) joined, offset + length chunk))
       chunks (replicate n 0, 0))"

text \<open>
  \<open>consumeUnidirectional\<close> of a stream that ends: the packet that is sent; \<open>decode\<close> is the UTF-8 decoder.
\<close>

definition consume_unidirectional :: "(nat list \<Rightarrow> string) \<Rightarrow> string \<Rightarrow> js_number \<Rightarrow> nat list list \<Rightarrow> packet" where
  "consume_unidirectional decode stream clock input =
     (let v = fold preview_chunk input \<lparr>pv_chunks = [], pv_bytes = 0, pv_retained = 0\<rparr>;
          truncated = (pv_retained v \<noteq> pv_bytes v);
          message = decode (join_chunks (pv_chunks v) (pv_retained v))
      in [(''type'', Some (JString ''server-event'')), (''event'', Some (JString ''unidirectional-received'')),
          (''streamId'', Some (JString stream)), (''bytes'', Some (JNumber (js_int (int (pv_bytes v))))),
          (''message'', Some (JString message)), (''truncated'', Some (JBool truncated)),
          (''serverAt'', Some (JNumber clock))])"

lemma join_chunks_concat:
  "fst (fold (\<lambda>chunk (joined, offset).
         (take offset joined @ chunk @ drop (offset + length chunk) joined, offset + length chunk))
       chunks (pre @ rest, length pre)) =
   pre @ concat chunks @ drop (length (concat chunks)) rest"
proof (induction chunks arbitrary: pre rest)
  case (Cons c chunks)
  have "take (length pre) (pre @ rest) @ c @ drop (length pre + length c) (pre @ rest) = (pre @ c) @ drop (length c) rest"
    by simp
  with Cons.IH [of "pre @ c" "drop (length c) rest"] show ?case by (simp add: add.commute)
qed simp

lemma preview_run:
  "pv_bytes v = n \<Longrightarrow> concat (pv_chunks v) = take preview_bytes xs \<Longrightarrow> length xs = n \<Longrightarrow>
   pv_retained v = min preview_bytes n \<Longrightarrow>
   (let w = fold preview_chunk input v in
      concat (pv_chunks w) = take preview_bytes (xs @ concat input) \<and> pv_bytes w = length (xs @ concat input) \<and>
      pv_retained w = min preview_bytes (length (xs @ concat input)))"
proof (induction input arbitrary: v xs n)
  case (Cons c input)
  let ?r = "min (preview_bytes - pv_retained v) (length c)"
  have b: "preview_bytes - min preview_bytes n = preview_bytes - n" by simp
  have "take ?r c = take (preview_bytes - n) c" using Cons.prems(4) by (simp add: b min_def)
  then have "concat (pv_chunks (preview_chunk c v)) = take preview_bytes (xs @ c)"
    using Cons.prems by (cases "?r > 0") (auto simp: preview_chunk_def Let_def b)
  moreover have "pv_bytes (preview_chunk c v) = length (xs @ c)"
    using Cons.prems by (simp add: preview_chunk_def Let_def)
  moreover have "pv_retained (preview_chunk c v) = min preview_bytes (length (xs @ c))"
    using Cons.prems by (auto simp: preview_chunk_def Let_def min_def)
  ultimately show ?case using Cons.IH [of "preview_chunk c v" "length (xs @ c)" "xs @ c"] by (simp add: Let_def)
qed simp

text \<open>
  The preview: however a stream is cut into chunks, the event reports the number of its bytes, the
  text of its first 256 bytes, and whether there were more.
\<close>

theorem preview_exact:
  "consume_unidirectional decode stream clock input =
     [(''type'', Some (JString ''server-event'')), (''event'', Some (JString ''unidirectional-received'')),
      (''streamId'', Some (JString stream)), (''bytes'', Some (JNumber (js_int (int (length (concat input)))))),
      (''message'', Some (JString (decode (take 256 (concat input))))),
      (''truncated'', Some (JBool (length (concat input) > 256))), (''serverAt'', Some (JNumber clock))]"
proof -
  let ?v = "fold preview_chunk input \<lparr>pv_chunks = [], pv_bytes = 0, pv_retained = 0\<rparr>"
  have v: "concat (pv_chunks ?v) = take preview_bytes (concat input)" "pv_bytes ?v = length (concat input)"
    "pv_retained ?v = min preview_bytes (length (concat input))"
    using preview_run [of "\<lparr>pv_chunks = [], pv_bytes = 0, pv_retained = 0\<rparr>" 0 "[]" input] by (simp_all add: Let_def)
  have "pv_retained ?v = length (concat (pv_chunks ?v))" using v by simp
  then have "join_chunks (pv_chunks ?v) (pv_retained ?v) = take preview_bytes (concat input)"
    using join_chunks_concat [of "pv_chunks ?v" "[]" "replicate (pv_retained ?v) 0"] v(1) by (simp add: join_chunks_def)
  then show ?thesis
    unfolding consume_unidirectional_def Let_def using v by (auto simp: preview_bytes_def)
qed

section \<open>The sessions that are addressed\<close>

datatype demo_event =
    Connected nat js_number
  | DemoSessionAborts nat js_number
  | DatagramArrives nat "nat list" js_number
  | StreamEnds nat string "nat list list" js_number
  | WriteHappens nat write_event

fun demo_step ::
  "(packet \<Rightarrow> nat list) \<Rightarrow> (nat list \<Rightarrow> json option) \<Rightarrow> (nat list \<Rightarrow> string) \<Rightarrow> (nat \<Rightarrow> string) \<Rightarrow> demo_event \<Rightarrow> demo_gateway
     \<Rightarrow> demo_gateway" where
  "demo_step encode parse decode name (Connected i clock) g = connected encode name clock i g"
| "demo_step encode parse decode name (DemoSessionAborts i clock) g = demo_session_aborts encode name clock i g"
| "demo_step encode parse decode name (DatagramArrives i bytes clock) g =
     handle_demo_datagram encode parse name clock i bytes g"
| "demo_step encode parse decode name (StreamEnds i stream input clock) g =
     send_to encode (consume_unidirectional decode stream clock input) i g"
| "demo_step encode parse decode name (WriteHappens i e) g =
     (if e = AbortSession then g else g\<lparr>dg_queues := (dg_queues g)(i := write_step encode e (dg_queues g i))\<rparr>)"

definition demo_inv :: "demo_gateway \<Rightarrow> bool" where
  "demo_inv g \<longleftrightarrow>
     distinct (dg_sessions g) \<and> set (dg_sessions g) \<subseteq> set (dg_listening g) \<and>
     (\<forall>i \<in> set (dg_listening g). \<not> oq_aborted (dg_queues g i)) \<and> (\<forall>i. outgoing_inv (dg_queues g i))"

lemma send_packet_aborted [simp]: "oq_aborted (fst (send_packet encode packet s)) = oq_aborted s"
  by (simp add: send_packet_def Let_def)

lemma send_to_frame [simp]:
  "dg_sessions (send_to encode packet i g) = dg_sessions g"
  "dg_listening (send_to encode packet i g) = dg_listening g"
  "oq_aborted (dg_queues (send_to encode packet i g) j) = oq_aborted (dg_queues g j)"
  by (simp_all add: send_to_def)

lemma send_to_inv: "demo_inv g \<Longrightarrow> demo_inv (send_to encode packet i g)"
  by (simp add: demo_inv_def) (simp add: send_to_def send_packet_inv)

lemma fold_send_to:
  "dg_sessions (fold (send_to encode packet) is g) = dg_sessions g \<and>
   dg_listening (fold (send_to encode packet) is g) = dg_listening g \<and>
   oq_aborted (dg_queues (fold (send_to encode packet) is g) j) = oq_aborted (dg_queues g j) \<and>
   (demo_inv g \<longrightarrow> demo_inv (fold (send_to encode packet) is g))"
  by (induction "is" arbitrary: g) (simp_all add: send_to_inv)

lemma broadcast_frame [simp]:
  "dg_sessions (broadcast_server_event encode clock event session g) = dg_sessions g"
  "dg_listening (broadcast_server_event encode clock event session g) = dg_listening g"
  "oq_aborted (dg_queues (broadcast_server_event encode clock event session g) j) = oq_aborted (dg_queues g j)"
  "demo_inv g \<Longrightarrow> demo_inv (broadcast_server_event encode clock event session g)"
  by (simp_all add: broadcast_server_event_def send_to_all_def fold_send_to)

lemma session_left_inv: "demo_inv g \<Longrightarrow> demo_inv (session_left encode name clock i g)"
  unfolding session_left_def by (rule broadcast_frame(4)) (auto simp: demo_inv_def)

lemma fold_session_left_inv: "demo_inv g \<Longrightarrow> demo_inv (fold (\<lambda>_. session_left encode name clock i) js g)"
  by (induction js arbitrary: g) (simp_all add: session_left_inv)

lemma connected_inv: "demo_inv g \<Longrightarrow> demo_inv (connected encode name clock i g)"
proof -
  assume g: "demo_inv g"
  show ?thesis
  proof (cases "oq_aborted (dg_queues g i)")
    case False
    with g have "demo_inv (g\<lparr>dg_sessions := js_add i (dg_sessions g), dg_listening := dg_listening g @ [i]\<rparr>)"
      by (auto simp: demo_inv_def)
    with False show ?thesis by (simp add: connected_def)
  qed (use g in \<open>simp add: connected_def\<close>)
qed

text \<open>
  The session leaves the set with the first listener, and the set is addressed only after that.
\<close>

lemma session_left_live:
  assumes "distinct (dg_sessions g)" and "set (dg_sessions g) \<subseteq> insert i (set (dg_listening g))"
    and "\<forall>j \<in> set (dg_listening g). \<not> oq_aborted (dg_queues g j)" and "\<forall>j. outgoing_inv (dg_queues g j)"
  shows "demo_inv (session_left encode name clock i g)"
  unfolding session_left_def by (rule broadcast_frame(4)) (use assms in \<open>auto simp: demo_inv_def\<close>)

lemma demo_session_aborts_inv:
  assumes g: "demo_inv g"
  shows "demo_inv (demo_session_aborts encode name clock i g)"
proof (cases "oq_aborted (dg_queues g i)")
  case False
  let ?g = "g\<lparr>dg_queues := (dg_queues g)(i := abort_demo_session (dg_queues g i)),
      dg_listening := js_delete i (dg_listening g)\<rparr>"
  have fields: "distinct (dg_sessions ?g)" "set (dg_sessions ?g) \<subseteq> insert i (set (dg_listening ?g))"
    "\<forall>j \<in> set (dg_listening ?g). \<not> oq_aborted (dg_queues ?g j)" "\<forall>j. outgoing_inv (dg_queues ?g j)"
    using g abort_demo_inv by (auto simp: demo_inv_def)
  have eq: "demo_session_aborts encode name clock i g =
      fold (\<lambda>_. session_left encode name clock i) (filter (\<lambda>j. j = i) (dg_listening g)) ?g"
    using False by (simp add: demo_session_aborts_def Let_def)
  show ?thesis
  proof (cases "filter (\<lambda>j. j = i) (dg_listening g)")
    case Nil
    then have "i \<notin> set (dg_sessions g)" using g by (auto simp: demo_inv_def filter_empty_conv)
    with fields have "demo_inv ?g" by (auto simp: demo_inv_def)
    with eq Nil show ?thesis by simp
  next
    case (Cons j js)
    with eq fold_session_left_inv [OF session_left_live [OF fields]] show ?thesis by simp
  qed
qed (use g in \<open>simp add: demo_session_aborts_def\<close>)

lemma write_step_aborted: "e \<noteq> AbortSession \<Longrightarrow> oq_aborted (write_step encode e s) = oq_aborted s"
proof -
  have f: "oq_aborted (fail_op k s) = oq_aborted s" for k s by (simp add: fail_op_def act_def on_op_def)
  show "e \<noteq> AbortSession \<Longrightarrow> ?thesis"
    by (cases e) (simp_all add: start_op_def ready_settles_def write_settles_def write_times_out_def
        count_out_def release_op_def fulfil_op_def act_def on_op_def f Let_def split: answer.split)
qed

lemma demo_step_inv: "demo_inv g \<Longrightarrow> demo_inv (demo_step encode parse decode name e g)"
proof (cases e)
  case (DatagramArrives i bytes clock)
  assume "demo_inv g"
  with DatagramArrives show ?thesis
    by (simp add: handle_demo_datagram_def send_to_inv send_to_all_def fold_send_to split: option.split)
next
  case (WriteHappens i w)
  assume g: "demo_inv g"
  with WriteHappens show ?thesis
    by (cases "w = AbortSession") (auto simp: demo_inv_def write_step_aborted write_step_inv)
qed (simp_all add: connected_inv demo_session_aborts_inv send_to_inv)

interpretation demo_life: event_system "demo_step encode parse decode name" demo_inv for encode parse decode name
  by unfold_locales (rule demo_step_inv)

lemma new_demo_inv: "demo_inv (new_demo_gateway n)"
  using new_outgoing_inv by (simp add: demo_inv_def new_demo_gateway_def)

text \<open>
  Broadcasts reach the living: in every reachable state the sessions that a broadcast addresses are
  distinct and none of them has aborted, and all outgoing queues keep their guarantees.
\<close>

theorem broadcasts_reach_live_sessions:
  "let g = fold (demo_step encode parse decode name) es (new_demo_gateway n) in
     distinct (dg_sessions g) \<and> (\<forall>i \<in> set (dg_sessions g). \<not> oq_aborted (dg_queues g i)) \<and>
     outgoing_inv (dg_queues g i)"
  using demo_life.run_inv [OF new_demo_inv, of encode parse decode name es n] by (auto simp: Let_def demo_inv_def)

end
