(* ===== verification/Demo_Page.thy ===== *)
theory Demo_Page
  imports Json_Values Errors
begin

text \<open>
  The page of the web demo (\<open>examples/web-demo/public/app.js\<close>): its connection attempts, which the
  counter \<open>connectionGeneration\<close> tells apart, its buttons, and the datagrams and streams it sends. An
  event is the part of the code between two waits. Each call of \<open>connect\<close> is an attempt and each
  transport a candidate, both numbered in order; a candidate is closed when the page has called
  \<open>close\<close> on it or when it has ended. The document, the JSON parser and the clock are parameters.
\<close>

section \<open>Bytes\<close>

text \<open>\<open>readAll\<close>: \<open>Inl\<close> is the error after the reader was cancelled, \<open>rest\<close> are the chunks to come.\<close>

definition read_limit :: nat where
  "read_limit = 1024 * 1024"

fun read_chunks :: "nat list list \<Rightarrow> nat list list \<Rightarrow> nat \<Rightarrow> string + nat list list \<times> nat" where
  "read_chunks chunks [] n = Inr (chunks, n)"
| "read_chunks chunks (c # rest) n =
     (if int (length c) > int read_limit - int n then Inl ''Demo response exceeds 1 MiB''
      else read_chunks (chunks @ [c]) rest (n + length c))"

fun set_chunks :: "nat list list \<Rightarrow> nat \<Rightarrow> nat list \<Rightarrow> nat list" where
  "set_chunks [] offset joined = joined"
| "set_chunks (c # cs) offset joined =
     set_chunks cs (offset + length c) (take offset joined @ c @ drop (offset + length c) joined)"

definition join_page_chunks :: "nat list list \<Rightarrow> nat \<Rightarrow> nat list" where
  "join_page_chunks chunks n = set_chunks chunks 0 (replicate n 0)"

definition read_all :: "nat list list \<Rightarrow> string + nat list" where
  "read_all input = bindE (read_chunks [] input 0) (\<lambda>(chunks, n). Inr (join_page_chunks chunks n))"

definition bytes_equal :: "nat list \<Rightarrow> nat list \<Rightarrow> bool" where
  "bytes_equal left right \<longleftrightarrow> length left = length right \<and> list_all (\<lambda>(x, y). x = y) (zip left right)"

definition hex_value :: "char \<Rightarrow> nat option" where
  "hex_value ch =
     (let n = (of_char ch :: nat) in
      if 48 \<le> n \<and> n \<le> 57 then Some (n - 48) else if 97 \<le> n \<and> n \<le> 102 then Some (n - 87)
      else if 65 \<le> n \<and> n \<le> 70 then Some (n - 55) else None)"

fun hex_pairs :: "nat list \<Rightarrow> nat list" where
  "hex_pairs (a # b # rest) = (16 * a + b) # hex_pairs rest"
| "hex_pairs _ = []"

definition hex_to_bytes :: "string \<Rightarrow> string + nat list" where
  "hex_to_bytes hex =
     (if length hex = 64 \<and> (\<forall>ch \<in> set hex. hex_value ch \<noteq> None) then
        Inr (hex_pairs (map (the \<circ> hex_value) hex))
      else Inl ''certificate SHA-256 must be 64 hex characters'')"

lemma bytes_equal_iff [simp]: "bytes_equal xs ys \<longleftrightarrow> xs = ys"
proof -
  have "length xs = length ys \<Longrightarrow> list_all (\<lambda>(x, y). x = y) (zip xs ys) \<longleftrightarrow> xs = ys"
    by (induction xs ys rule: list_induct2) auto
  then show ?thesis by (auto simp: bytes_equal_def)
qed

lemma read_chunks_result:
  "n = length (concat chunks) \<Longrightarrow> n \<le> read_limit \<Longrightarrow>
   read_chunks chunks input n =
     (if length (concat (chunks @ input)) \<le> read_limit then Inr (chunks @ input, length (concat (chunks @ input)))
      else Inl ''Demo response exceeds 1 MiB'')"
proof (induction chunks input n rule: read_chunks.induct)
  case (2 chunks c rest n)
  show ?case
  proof (cases "n + length c \<le> read_limit")
    case True
    then show ?thesis using 2 by simp
  next
    case False
    then have "\<not> length (concat (chunks @ c # rest)) \<le> read_limit" using 2 by simp
    with False show ?thesis by (simp add: linorder_not_le of_nat_diff_if)
  qed
qed simp

lemma set_chunks_concat:
  "length rest = length (concat cs) \<Longrightarrow> set_chunks cs (length pre) (pre @ rest) = pre @ concat cs"
proof (induction cs arbitrary: pre rest)
  case (Cons c cs)
  have "take (length pre) (pre @ rest) @ c @ drop (length pre + length c) (pre @ rest) = (pre @ c) @ drop (length c) rest"
    by simp
  with Cons.IH [of "drop (length c) rest" "pre @ c"] Cons.prems show ?case by simp
qed simp

text \<open>
  Reading a response: however it is cut into chunks, a response of at most 1 MiB is returned whole and
  in order, and a longer one is refused.
\<close>

theorem read_all_exact:
  "read_all input =
     (if length (concat input) \<le> 1048576 then Inr (concat input) else Inl ''Demo response exceeds 1 MiB'')"
  using read_chunks_result [of 0 "[]" input] set_chunks_concat [of "replicate (length (concat input)) 0" input "[]"]
  by (simp add: read_all_def join_page_chunks_def read_limit_def)

section \<open>The state of the page\<close>

datatype row_details = NoDetails | ErrorDetails thrown | FieldDetails "(string \<times> json option) list" | ValueDetail json

record log_row =
  lr_direction :: string
  lr_channel :: string
  lr_event :: "json option"
  lr_bytes :: "json option"
  lr_message :: "json option"
  lr_details :: row_details

datatype attempt_point = TicketPending | ReadyPending | AdmissionPending | Established | AttemptOver

record attempt =
  at_generation :: nat
  at_candidate :: "nat option"
  at_point :: attempt_point
  at_reading :: bool

text \<open>A datagram that has been handed to the writer and is not done with yet.\<close>

record pending_send =
  sd_type :: string
  sd_id :: string
  sd_message :: string
  sd_bytes :: nat

record page =
  pg_supported :: bool
  pg_transport :: "nat option"
  pg_writer :: "nat option"
  pg_generation :: nat
  pg_sent :: nat
  pg_received :: nat
  pg_connection :: string
  pg_session_id :: "json option"
  pg_round_trip :: "js_number option"
  pg_bidi_result :: string
  pg_uni_result :: string
  pg_connect_disabled :: bool
  pg_disconnect_disabled :: bool
  pg_datagram_disabled :: bool
  pg_broadcast_disabled :: bool
  pg_bidi_disabled :: bool
  pg_uni_disabled :: bool
  pg_log :: "log_row list"
  pg_attempts :: "attempt list"
  pg_closed :: "bool list"
  pg_sends :: "pending_send list"

definition max_log_entries :: nat where
  "max_log_entries = 200"

text \<open>\<open>recordEvent\<close>: the newest row comes first, the oldest rows go.\<close>

definition record_event ::
  "string \<Rightarrow> string \<Rightarrow> json option \<Rightarrow> json option \<Rightarrow> json option \<Rightarrow> row_details \<Rightarrow> page \<Rightarrow> page" where
  "record_event direction channel event bytes message details p =
     p\<lparr>pg_log := take max_log_entries
         (\<lparr>lr_direction = direction, lr_channel = channel, lr_event = event, lr_bytes = bytes, lr_message = message,
           lr_details = details\<rparr> # pg_log p)\<rparr>"

definition record_simple :: "string \<Rightarrow> string \<Rightarrow> string \<Rightarrow> row_details \<Rightarrow> page \<Rightarrow> page" where
  "record_simple direction channel event details =
     record_event direction channel (Some (JString event)) None None details"

definition bytes_of :: "nat \<Rightarrow> json option" where
  "bytes_of n = Some (JNumber (js_int (int n)))"

text \<open>The document after \<open>initialize\<close> has run up to its wait.\<close>

definition new_page :: "bool \<Rightarrow> page" where
  "new_page supported =
     \<lparr>pg_supported = supported, pg_transport = None, pg_writer = None, pg_generation = 0, pg_sent = 0,
      pg_received = 0, pg_connection = [], pg_session_id = None, pg_round_trip = None, pg_bidi_result = [],
      pg_uni_result = [], pg_connect_disabled = (\<not> supported), pg_disconnect_disabled = True,
      pg_datagram_disabled = True, pg_broadcast_disabled = True, pg_bidi_disabled = True, pg_uni_disabled = True,
      pg_log = [], pg_attempts = [], pg_closed = [], pg_sends = []\<rparr>"

definition set_test_buttons :: "bool \<Rightarrow> page \<Rightarrow> page" where
  "set_test_buttons enabled p =
     p\<lparr>pg_datagram_disabled := \<not> enabled, pg_broadcast_disabled := \<not> enabled, pg_bidi_disabled := \<not> enabled,
       pg_uni_disabled := \<not> enabled\<rparr>"

definition cleanup_connection :: "page \<Rightarrow> page" where
  "cleanup_connection p =
     set_test_buttons False
       (p\<lparr>pg_writer := None, pg_transport := None, pg_session_id := None,
          pg_connect_disabled := \<not> pg_supported p, pg_disconnect_disabled := True\<rparr>)"

definition connection_ended :: "nat option \<Rightarrow> nat \<Rightarrow> string \<Rightarrow> row_details \<Rightarrow> page \<Rightarrow> page" where
  "connection_ended candidate generation event details p =
     (if generation \<noteq> pg_generation p \<or> candidate \<noteq> pg_transport p then p
      else
        record_simple (if event = ''closed'' then ''SERVER'' else ''ERROR'') ''session'' event details
          ((cleanup_connection p)\<lparr>pg_connection := (if event = ''closed'' then ''disconnected'' else ''failed'')\<rparr>))"

definition set_attempt :: "nat \<Rightarrow> (attempt \<Rightarrow> attempt) \<Rightarrow> page \<Rightarrow> page" where
  "set_attempt k f p = p\<lparr>pg_attempts := (pg_attempts p)[k := f (pg_attempts p ! k)]\<rparr>"

definition close_candidate :: "nat \<Rightarrow> page \<Rightarrow> page" where
  "close_candidate c p = p\<lparr>pg_closed := (pg_closed p)[c := True]\<rparr>"

text \<open>The event belongs to attempt \<open>k\<close>, which waits at \<open>point\<close>.\<close>

definition attempt_waits :: "nat \<Rightarrow> attempt_point \<Rightarrow> page \<Rightarrow> bool" where
  "attempt_waits k point p \<longleftrightarrow> k < length (pg_attempts p) \<and> at_point (pg_attempts p ! k) = point"

section \<open>Connecting\<close>

text \<open>\<open>connect\<close> up to the request of the ticket; a click needs an enabled button.\<close>

definition connect :: "string \<Rightarrow> page \<Rightarrow> page" where
  "connect token p =
     (if pg_connect_disabled p \<or> pg_transport p \<noteq> None then p
      else if token = [] then record_simple ''ERROR'' ''auth'' ''token-required'' NoDetails p
      else
        (let g = pg_generation p + 1 in
         record_simple ''OUT'' ''http'' ''session-ticket-requested'' NoDetails
           (p\<lparr>pg_connection := ''connecting'', pg_connect_disabled := True, pg_generation := g,
              pg_attempts := pg_attempts p @
                [\<lparr>at_generation = g, at_candidate = None, at_point = TicketPending, at_reading = False\<rparr>]\<rparr>)))"

text \<open>What \<open>requestSessionTicket\<close> makes of a response: its status, and the members of its body.\<close>

definition session_ticket :: "nat \<Rightarrow> bool \<Rightarrow> json option \<Rightarrow> json option \<Rightarrow> string + string \<times> js_number" where
  "session_ticket status ok ticket expires =
     (if \<not> ok then
        Inl (if status = 401 then ''invalid bearer token''
             else ''ticket request failed ('' @ show_nat status @ '')'')
      else
        (case (ticket, expires) of
           (Some (JString t), Some (JNumber n)) \<Rightarrow> if t = [] then Inl ''invalid session ticket response'' else Inr (t, n)
         | _ \<Rightarrow> Inl ''invalid session ticket response''))"

definition attempt_fails :: "nat \<Rightarrow> thrown \<Rightarrow> page \<Rightarrow> page" where
  "attempt_fails k e p =
     connection_ended (pg_transport p) (at_generation (pg_attempts p ! k)) ''connection-failed'' (ErrorDetails e)
       (set_attempt k (\<lambda>a. a\<lparr>at_point := AttemptOver\<rparr>) p)"

text \<open>
  The ticket has arrived: \<open>hash\<close> is the trimmed text of the certificate field and \<open>target\<close> tells whether
  the URL and the transport could be made.
\<close>

definition ticket_arrives :: "nat \<Rightarrow> string + string \<times> js_number \<Rightarrow> string \<Rightarrow> thrown option \<Rightarrow> page \<Rightarrow> page" where
  "ticket_arrives k answer hash target p =
     (if \<not> attempt_waits k TicketPending p then p
      else
        (case answer of
           Inl m \<Rightarrow> attempt_fails k (JsError ''Error'' m) p
         | Inr (ticket, expires) \<Rightarrow>
             (let p1 = record_simple ''IN'' ''http'' ''session-ticket-issued'' (FieldDetails [(''expiresInMs'', Some (JNumber expires))]) p in
              if hash \<noteq> [] \<and> (case hex_to_bytes hash of Inl _ \<Rightarrow> True | Inr _ \<Rightarrow> False) then
                attempt_fails k (JsError ''Error'' ''certificate SHA-256 must be 64 hex characters'') p1
              else
                (case target of
                   Some e \<Rightarrow> attempt_fails k e p1
                 | None \<Rightarrow>
                     (let c = length (pg_closed p1) in
                      set_attempt k (\<lambda>a. a\<lparr>at_candidate := Some c, at_point := ReadyPending\<rparr>)
                        (p1\<lparr>pg_transport := Some c, pg_closed := pg_closed p1 @ [False]\<rparr>))))))"

definition ready_arrives :: "nat \<Rightarrow> thrown option \<Rightarrow> page \<Rightarrow> page" where
  "ready_arrives k failure p =
     (if \<not> attempt_waits k ReadyPending p then p
      else
        (case failure of
           Some e \<Rightarrow> attempt_fails k e p
         | None \<Rightarrow>
             if at_generation (pg_attempts p ! k) \<noteq> pg_generation p then
               close_candidate (the (at_candidate (pg_attempts p ! k)))
                 (set_attempt k (\<lambda>a. a\<lparr>at_point := AttemptOver\<rparr>) p)
             else set_attempt k (\<lambda>a. a\<lparr>at_point := AdmissionPending\<rparr>) p))"

text \<open>
  \<open>verifyApplicationAdmission\<close>: \<open>sent\<close> went out and \<open>input\<close> are the chunks that came back, or the
  streams failed.
\<close>

definition admission_result :: "nat list \<Rightarrow> thrown + nat list list \<Rightarrow> thrown + nat" where
  "admission_result sent reply =
     bindE reply (\<lambda>input.
       (case read_all input of
          Inl m \<Rightarrow> Inl (JsError ''Error'' m)
        | Inr received \<Rightarrow>
            if bytes_equal received sent then Inr (length received)
            else Inl (JsError ''Error'' ''gateway admission response mismatch'')))"

definition admission_arrives :: "nat \<Rightarrow> nat list \<Rightarrow> thrown + nat list list \<Rightarrow> page \<Rightarrow> page" where
  "admission_arrives k sent reply p =
     (if \<not> attempt_waits k AdmissionPending p then p
      else
        (case admission_result sent reply of
           Inl e \<Rightarrow> attempt_fails k e p
         | Inr n \<Rightarrow>
             (let c = the (at_candidate (pg_attempts p ! k)) in
              record_event ''IN'' ''stream'' (Some (JString ''gateway-admission-confirmed'')) (bytes_of n) None NoDetails
                (set_attempt k (\<lambda>a. a\<lparr>at_point := Established, at_reading := True\<rparr>)
                  ((set_test_buttons True (p\<lparr>pg_writer := Some c, pg_connection := ''connected''\<rparr>))
                     \<lparr>pg_disconnect_disabled := False\<rparr>)))))"

text \<open>
  What the platform answers for the streams of the check: those of a transport that has been closed fail,
  as the WebTransport specification says; the error is the platform's.
\<close>

definition stream_reply :: "nat \<Rightarrow> thrown + nat list list \<Rightarrow> page \<Rightarrow> thrown + nat list list" where
  "stream_reply k reply p =
     (if k < length (pg_attempts p) \<and> pg_closed p ! the (at_candidate (pg_attempts p ! k)) then
        Inl (case reply of Inl e \<Rightarrow> e | Inr _ \<Rightarrow> JsError ''WebTransportError'' ''The session is closed.'')
      else reply)"

text \<open>\<open>candidate.closed\<close> settles.\<close>

definition closed_arrives :: "nat \<Rightarrow> thrown option \<Rightarrow> page \<Rightarrow> page" where
  "closed_arrives k failure p =
     (if \<not> attempt_waits k Established p then p
      else
        (let a = pg_attempts p ! k; c = the (at_candidate a);
             p1 = close_candidate c (set_attempt k (\<lambda>a. a\<lparr>at_point := AttemptOver\<rparr>) p)
         in case failure of
              None \<Rightarrow> connection_ended (Some c) (at_generation a) ''closed'' NoDetails p1
            | Some e \<Rightarrow> connection_ended (Some c) (at_generation a) ''connection-error'' (ErrorDetails e) p1))"

definition disconnect :: "page \<Rightarrow> page" where
  "disconnect p =
     (case pg_transport p of
        None \<Rightarrow> p
      | Some active \<Rightarrow>
          record_simple ''OUT'' ''session'' ''close-requested'' NoDetails
            ((close_candidate active (cleanup_connection (p\<lparr>pg_generation := pg_generation p + 1\<rparr>)))
               \<lparr>pg_connection := ''disconnected''\<rparr>))"

section \<open>Datagrams\<close>

definition increment_sent :: "page \<Rightarrow> page" where
  "increment_sent p = p\<lparr>pg_sent := pg_sent p + 1\<rparr>"

definition increment_received :: "page \<Rightarrow> page" where
  "increment_received p = p\<lparr>pg_received := pg_received p + 1\<rparr>"

text \<open>
  \<open>sendDatagramPacket\<close> up to the writer, for a packet of \<open>n\<close> bytes: a click without a transport or a writer does
  nothing, a packet that is too large is refused, any other is handed to the writer.
\<close>

definition send_datagram_packet :: "string \<Rightarrow> string \<Rightarrow> string \<Rightarrow> nat \<Rightarrow> page \<Rightarrow> page" where
  "send_datagram_packet type ident message n p =
     (if pg_transport p = None \<or> pg_writer p = None then p
      else if n > 1200 then
        record_event ''ERROR'' ''datagram'' (Some (JString ''payload-too-large'')) (bytes_of n) (Some (JString message)) NoDetails p
      else p\<lparr>pg_sends := pg_sends p @ [\<lparr>sd_type = type, sd_id = ident, sd_message = message, sd_bytes = n\<rparr>]\<rparr>)"

text \<open>The writer is done with a packet; by then the connection may have ended.\<close>

definition datagram_settles :: "nat \<Rightarrow> thrown option \<Rightarrow> page \<Rightarrow> page" where
  "datagram_settles j failure p =
     (if \<not> j < length (pg_sends p) then p
      else
        (let d = pg_sends p ! j; q = p\<lparr>pg_sends := take j (pg_sends p) @ drop (Suc j) (pg_sends p)\<rparr> in
         case failure of
           Some e \<Rightarrow> record_simple ''ERROR'' ''datagram'' ''send-failed'' (ErrorDetails e) q
         | None \<Rightarrow>
             record_event ''OUT'' ''datagram''
               (Some (JString (if sd_type d = ''broadcast'' then ''broadcast-requested'' else ''echo-requested'')))
               (bytes_of (sd_bytes d)) (Some (JString (sd_message d))) (FieldDetails [(''id'', Some (JString (sd_id d)))])
               (increment_sent q)))"

text \<open>\<open>packet.name\<close>: a value that is not an object has none; \<open>null\<close> throws before it gets here.\<close>

definition field :: "string \<Rightarrow> json \<Rightarrow> json option" where
  "field name v = (case v of JObject entries \<Rightarrow> member name entries | _ \<Rightarrow> None)"

text \<open>\<open>{ ...packet }\<close> without \<open>message\<close>.\<close>

definition without_message :: "json \<Rightarrow> (string \<times> json option) list" where
  "without_message v =
     (case v of JObject entries \<Rightarrow> map (\<lambda>(k, x). (k, Some x)) (AList.delete ''message'' entries) | _ \<Rightarrow> [])"

text \<open>
  \<open>handleIncomingDatagram\<close>: \<open>parsed\<close> is what \<open>JSON.parse\<close> makes of the text \<open>raw\<close>, and \<open>round_trip\<close>
  the time since the \<open>sentAt\<close> of a packet; \<open>interpolate\<close> turns a value into text. \<open>None\<close> is the exception of reading a member of \<open>null\<close>.
\<close>

definition handle_incoming ::
  "(json option \<Rightarrow> js_number) \<Rightarrow> (json option \<Rightarrow> string) \<Rightarrow> string \<Rightarrow> json option \<Rightarrow> nat \<Rightarrow> page \<Rightarrow> page option" where
  "handle_incoming round_trip interpolate raw parsed n p =
     (case parsed of
        None \<Rightarrow>
          Some (record_event ''IN'' ''datagram'' (Some (JString ''unparsed'')) (bytes_of n) (Some (JString raw)) NoDetails p)
      | Some JNull \<Rightarrow> None
      | Some v \<Rightarrow>
          let kind = field ''type'' v in
          if kind = Some (JString ''echo'') then
            (let t = round_trip (field ''sentAt'' v) in
             Some (record_event ''IN'' ''datagram'' (Some (JString ''echo-received'')) (bytes_of n) (field ''message'' v)
                     (FieldDetails [(''id'', field ''id'' v), (''roundTripMs'', Some (JNumber t)),
                        (''sourceSessionId'', field ''sourceSessionId'' v)])
                     (p\<lparr>pg_round_trip := Some t\<rparr>)))
          else if kind = Some (JString ''broadcast'') then
            Some (record_event ''IN'' ''datagram'' (Some (JString ''broadcast-received'')) (bytes_of n) (field ''message'' v)
                    (FieldDetails [(''id'', field ''id'' v), (''sourceSessionId'', field ''sourceSessionId'' v),
                       (''recipients'', field ''recipients'' v)]) p)
          else if kind = Some (JString ''server-event'') then
            (let event = field ''event'' v;
                 p1 = (if event = Some (JString ''session-joined'') \<and> pg_session_id p = None then
                         p\<lparr>pg_session_id := field ''sessionId'' v\<rparr> else p);
                 p2 = (if event = Some (JString ''unidirectional-received'') then
                         p1\<lparr>pg_uni_result := ''server received '' @ interpolate (field ''bytes'' v) @ '' bytes''\<rparr> else p1)
             in Some (record_event ''SERVER'' ''datagram'' event (bytes_of n) (field ''message'' v)
                        (FieldDetails (without_message v)) p2))
          else
            Some (record_event (if kind = Some (JString ''server-error'') then ''ERROR'' else ''IN'') ''datagram''
                    (case field ''event'' v of
                       None \<Rightarrow> Some (JString ''unknown-packet'')
                     | Some JNull \<Rightarrow> Some (JString ''unknown-packet'')
                     | Some e \<Rightarrow> Some e)
                    (bytes_of n) (Some (JString raw)) (ValueDetail v) p))"

text \<open>One turn of the loop of \<open>readDatagrams\<close>; \<open>None\<close> is the end of the stream.\<close>

datatype read_result = ReadEnds | ReadFails thrown | ReadGives string "json option" nat

definition read_datagram ::
  "(json option \<Rightarrow> js_number) \<Rightarrow> (json option \<Rightarrow> string) \<Rightarrow> nat \<Rightarrow> read_result \<Rightarrow> page \<Rightarrow> page" where
  "read_datagram round_trip interpolate k r p =
     (if \<not> (k < length (pg_attempts p) \<and> at_reading (pg_attempts p ! k)) then p
      else
        (let current = (at_generation (pg_attempts p ! k) = pg_generation p);
             over = set_attempt k (\<lambda>a. a\<lparr>at_reading := False\<rparr>);
             failed = (\<lambda>e q. if current then record_simple ''ERROR'' ''datagram'' ''receive-ended'' (ErrorDetails e) q else q)
         in case r of
              ReadEnds \<Rightarrow> over p
            | ReadFails e \<Rightarrow> over (failed e p)
            | ReadGives raw parsed n \<Rightarrow>
                if \<not> current then over p
                else
                  (let p1 = increment_received p in
                   case handle_incoming round_trip interpolate raw parsed n p1 of
                     Some p2 \<Rightarrow> p2
                   | None \<Rightarrow> over (failed (JsError ''TypeError'' ''Cannot read properties of null'') p1))))"

section \<open>Streams\<close>

definition begin_bidirectional :: "page \<Rightarrow> page" where
  "begin_bidirectional p =
     (if pg_transport p = None then p else p\<lparr>pg_bidi_disabled := True, pg_bidi_result := ''sending''\<rparr>)"

definition bidirectional_sent :: "string \<Rightarrow> nat \<Rightarrow> page \<Rightarrow> page" where
  "bidirectional_sent message n p =
     record_event ''OUT'' ''bidirectional'' (Some (JString ''stream-sent'')) (bytes_of n) (Some (JString message)) NoDetails
       (increment_sent p)"

definition bidirectional_received :: "string \<Rightarrow> string \<Rightarrow> nat \<Rightarrow> page \<Rightarrow> page" where
  "bidirectional_received message received n p =
     (let matched = (received = message) in
      (record_event ''IN'' ''bidirectional'' (Some (JString (if matched then ''echo-received'' else ''echo-mismatch'')))
         (bytes_of n) (Some (JString received)) NoDetails
         ((increment_received p)\<lparr>pg_bidi_result := (if matched then ''echo matched'' else ''echo mismatch'')\<rparr>))
      \<lparr>pg_bidi_disabled := (pg_transport p = None)\<rparr>)"

definition bidirectional_fails :: "thrown \<Rightarrow> page \<Rightarrow> page" where
  "bidirectional_fails e p =
     (record_simple ''ERROR'' ''bidirectional'' ''stream-failed'' (ErrorDetails e) (p\<lparr>pg_bidi_result := ''failed''\<rparr>))
     \<lparr>pg_bidi_disabled := (pg_transport p = None)\<rparr>"

definition begin_unidirectional :: "page \<Rightarrow> page" where
  "begin_unidirectional p =
     (if pg_transport p = None then p else p\<lparr>pg_uni_disabled := True, pg_uni_result := ''sending''\<rparr>)"

definition unidirectional_settles :: "string \<Rightarrow> nat \<Rightarrow> thrown option \<Rightarrow> page \<Rightarrow> page" where
  "unidirectional_settles message n failure p =
     (case failure of
        None \<Rightarrow>
          (record_event ''OUT'' ''unidirectional'' (Some (JString ''stream-sent'')) (bytes_of n) (Some (JString message)) NoDetails
             ((increment_sent p)\<lparr>pg_uni_result := ''sent '' @ show_nat n @ '' bytes; waiting for server''\<rparr>))
          \<lparr>pg_uni_disabled := (pg_transport p = None)\<rparr>
      | Some e \<Rightarrow>
          (record_simple ''ERROR'' ''unidirectional'' ''stream-failed'' (ErrorDetails e) (p\<lparr>pg_uni_result := ''failed''\<rparr>))
          \<lparr>pg_uni_disabled := (pg_transport p = None)\<rparr>)"

section \<open>Events\<close>

datatype page_event =
    ClickConnect string
  | TicketArrives nat "string + string \<times> js_number" string "thrown option"
  | ReadyArrives nat "thrown option"
  | AdmissionArrives nat "nat list" "thrown + nat list list"
  | ClosedArrives nat "thrown option"
  | ClickDisconnect
  | SendDatagram string string string nat
  | DatagramSettles nat "thrown option"
  | DatagramRead nat read_result
  | BeginBidirectional
  | BidirectionalSent string nat
  | BidirectionalReceived string string nat
  | BidirectionalFails thrown
  | BeginUnidirectional
  | UnidirectionalSettles string nat "thrown option"
  | ClearLog

fun page_step :: "(json option \<Rightarrow> js_number) \<Rightarrow> (json option \<Rightarrow> string) \<Rightarrow> page_event \<Rightarrow> page \<Rightarrow> page" where
  "page_step rt ip (ClickConnect token) p = connect token p"
| "page_step rt ip (TicketArrives k answer hash target) p = ticket_arrives k answer hash target p"
| "page_step rt ip (ReadyArrives k failure) p = ready_arrives k failure p"
| "page_step rt ip (AdmissionArrives k bytes reply) p = admission_arrives k bytes (stream_reply k reply p) p"
| "page_step rt ip (ClosedArrives k failure) p = closed_arrives k failure p"
| "page_step rt ip ClickDisconnect p = disconnect p"
| "page_step rt ip (SendDatagram type ident message n) p = send_datagram_packet type ident message n p"
| "page_step rt ip (DatagramSettles j failure) p = datagram_settles j failure p"
| "page_step rt ip (DatagramRead k r) p = read_datagram rt ip k r p"
| "page_step rt ip BeginBidirectional p = begin_bidirectional p"
| "page_step rt ip (BidirectionalSent message n) p = bidirectional_sent message n p"
| "page_step rt ip (BidirectionalReceived message received n) p = bidirectional_received message received n p"
| "page_step rt ip (BidirectionalFails e) p = bidirectional_fails e p"
| "page_step rt ip BeginUnidirectional p = begin_unidirectional p"
| "page_step rt ip (UnidirectionalSettles message n failure) p = unidirectional_settles message n failure p"
| "page_step rt ip ClearLog p = p\<lparr>pg_log := []\<rparr>"

section \<open>The connection\<close>

definition live_point :: "attempt_point \<Rightarrow> bool" where
  "live_point x \<longleftrightarrow> x \<in> {ReadyPending, AdmissionPending, Established}"

text \<open>
  Transport, writer, generation, the connect button, attempts and closed candidates. An attempt of the
  current generation owns the transport; a live attempt of an older one has a closed candidate.
\<close>

definition owned :: "nat option \<Rightarrow> nat \<Rightarrow> bool list \<Rightarrow> attempt \<Rightarrow> bool" where
  "owned t g cl a \<longleftrightarrow>
     (\<exists>c < length cl. at_candidate a = Some c \<and> (if at_generation a = g then t = Some c else cl ! c))"

definition att_ok :: "nat option \<Rightarrow> nat \<Rightarrow> bool \<Rightarrow> bool list \<Rightarrow> attempt \<Rightarrow> bool" where
  "att_ok t g disabled cl a \<longleftrightarrow>
     at_generation a \<le> g \<and> (at_point a = TicketPending \<longrightarrow> at_generation a = g \<and> t = None \<and> disabled) \<and>
     (live_point (at_point a) \<longrightarrow> owned t g cl a)"

definition conn_ok :: "nat option \<Rightarrow> nat option \<Rightarrow> nat \<Rightarrow> bool \<Rightarrow> attempt list \<Rightarrow> bool list \<Rightarrow> bool" where
  "conn_ok t w g disabled as cl \<longleftrightarrow>
     distinct (map at_generation as) \<and> (\<forall>a \<in> set as. att_ok t g disabled cl a) \<and>
     (\<forall>c. t = Some c \<longrightarrow> c < length cl \<and> disabled) \<and> (\<forall>c. w = Some c \<longrightarrow> t = Some c)"

lemma live_points [simp]:
  "live_point ReadyPending" "live_point AdmissionPending" "live_point Established"
  "\<not> live_point TicketPending" "\<not> live_point AttemptOver"
  by (simp_all add: live_point_def)

text \<open>What an attempt of an earlier generation relies on stays true.\<close>

lemma att_ok_older:
  assumes "att_ok t g disabled cl a" and "at_generation a \<noteq> g" and "g \<le> g'"
    and "\<forall>c < length cl. cl ! c \<longrightarrow> c < length cl' \<and> cl' ! c"
  shows "att_ok t' g' disabled' cl' a"
  using assms by (auto simp: att_ok_def owned_def)

lemma same_generation:
  assumes "distinct (map at_generation as)" and "k < length as" and "a \<in> set (as[k := x])"
    and "at_generation x = at_generation (as ! k)" and "at_generation a = at_generation (as ! k)"
  shows "a = x"
proof -
  obtain j where j: "j < length as" "a = as[k := x] ! j" using assms(3) by (auto simp: in_set_conv_nth)
  have "map at_generation as ! j = map at_generation as ! k" using j assms by (cases "j = k") auto
  then have "j = k" using assms(1,2) j(1) by (metis length_map nth_eq_iff_index_eq)
  with j assms(2) show ?thesis by simp
qed

lemma generations_update:
  "k < length as \<Longrightarrow> at_generation x = at_generation (as ! k) \<Longrightarrow> map at_generation (as[k := x]) = map at_generation as"
  by (simp add: map_update list_update_same_conv)

lemma in_update: "a \<in> set (as[k := x]) \<Longrightarrow> a = x \<or> a \<in> set as"
  using set_update_subset_insert [of as k x] by auto

lemma conn_ok_connect:
  assumes ok: "conn_ok None w g disabled as cl" and nd: "\<not> disabled"
    and a: "at_generation a = g + 1" "at_point a = TicketPending"
  shows "conn_ok None w (g + 1) True (as @ [a]) cl"
proof -
  have old: "att_ok None (g + 1) True cl b \<and> at_generation b \<le> g" if "b \<in> set as" for b
  proof -
    have b: "att_ok None g disabled cl b" using ok that by (simp add: conn_ok_def)
    then show ?thesis using nd by (auto simp: att_ok_def owned_def split: if_splits)
  qed
  then have "at_generation a \<notin> at_generation ` set as" using a(1) by fastforce
  moreover have "att_ok None (g + 1) True cl a" using a by (simp add: att_ok_def)
  ultimately show ?thesis using ok old unfolding conn_ok_def by auto
qed

text \<open>An attempt of the current generation ends, and with it the connection.\<close>

lemma conn_ok_ends:
  assumes ok: "conn_ok t w g disabled as cl" and k: "k < length as"
    and x: "at_generation x = at_generation (as ! k)" "at_point x = AttemptOver" "at_generation (as ! k) = g"
  shows "conn_ok None None g disabled' (as[k := x]) cl"
proof -
  have d: "distinct (map at_generation as)" using ok by (simp add: conn_ok_def)
  have "att_ok None g disabled' cl a" if "a \<in> set (as[k := x])" for a
  proof (cases "at_generation a = g")
    case True
    then have "a = x" using same_generation [OF d k that x(1)] x(3) by simp
    with x show ?thesis by (simp add: att_ok_def)
  next
    case False
    then have "a \<in> set as" using in_update [OF that] x by auto
    with ok have "att_ok t g disabled cl a" by (simp add: conn_ok_def)
    from att_ok_older [OF this False] show ?thesis by simp
  qed
  then show ?thesis using d unfolding conn_ok_def generations_update [OF k x(1)] by simp
qed

text \<open>Any other change to one attempt.\<close>

lemma conn_ok_update:
  assumes ok: "conn_ok t w g disabled as cl" and k: "k < length as"
    and x: "at_generation x = at_generation (as ! k)"
    and point: "at_point x = AttemptOver \<or>
      at_candidate x = at_candidate (as ! k) \<and>
        (at_point x = at_point (as ! k) \<or> live_point (at_point x) \<and> live_point (at_point (as ! k)))"
  shows "conn_ok t w g disabled (as[k := x]) cl"
proof -
  have "att_ok t g disabled cl (as ! k)" using ok k by (simp add: conn_ok_def)
  then have "att_ok t g disabled cl x" using x point by (auto simp: att_ok_def owned_def)
  then have "\<forall>a \<in> set (as[k := x]). att_ok t g disabled cl a" using ok in_update by (fastforce simp: conn_ok_def)
  then show ?thesis using ok unfolding conn_ok_def generations_update [OF k x] by simp
qed

lemma conn_ok_ticket:
  assumes ok: "conn_ok t w g disabled as cl" and k: "k < length as" and p: "at_point (as ! k) = TicketPending"
    and x: "at_generation x = at_generation (as ! k)" "at_point x = ReadyPending" "at_candidate x = Some (length cl)"
  shows "conn_ok (Some (length cl)) w g disabled (as[k := x]) (cl @ [False])"
proof -
  have d: "distinct (map at_generation as)" using ok by (simp add: conn_ok_def)
  have "att_ok t g disabled cl (as ! k)" using ok k by (simp add: conn_ok_def)
  with p have cur: "at_generation (as ! k) = g" "t = None" disabled by (auto simp: att_ok_def)
  have "att_ok (Some (length cl)) g disabled (cl @ [False]) a" if "a \<in> set (as[k := x])" for a
  proof (cases "at_generation a = g")
    case True
    then have "a = x" using same_generation [OF d k that x(1)] cur(1) by simp
    with x cur show ?thesis by (simp add: att_ok_def owned_def)
  next
    case False
    then have "a \<in> set as" using in_update [OF that] x cur by auto
    with ok have "att_ok t g disabled cl a" by (simp add: conn_ok_def)
    from att_ok_older [OF this False] show ?thesis by (simp add: nth_append)
  qed
  moreover have "w = None" using ok cur(2) unfolding conn_ok_def by (cases w) auto
  ultimately show ?thesis using d cur(3) unfolding conn_ok_def generations_update [OF k x(1)] by simp
qed

lemma conn_ok_close:
  assumes ok: "conn_ok t w g disabled as cl"
  shows "conn_ok t w g disabled as (cl[c := True])"
proof -
  have "att_ok t g disabled (cl[c := True]) a" if "att_ok t g disabled cl a" for a
  proof -
    have "owned t g (cl[c := True]) a" if "owned t g cl a"
      using that unfolding owned_def by (metis length_list_update nth_list_update_eq nth_list_update_neq)
    with \<open>att_ok t g disabled cl a\<close> show ?thesis by (simp add: att_ok_def)
  qed
  with ok show ?thesis by (simp add: conn_ok_def)
qed

lemma conn_ok_disconnect:
  assumes ok: "conn_ok (Some c) w g disabled as cl"
  shows "conn_ok None None (g + 1) disabled' as (cl[c := True])"
proof -
  have c: "c < length cl" using ok by (simp add: conn_ok_def)
  have "att_ok None (g + 1) disabled' (cl[c := True]) a" if "a \<in> set as" for a
  proof -
    have a: "att_ok (Some c) g disabled cl a" using ok that unfolding conn_ok_def by blast
    then have "owned None (g + 1) (cl[c := True]) a" if "owned (Some c) g cl a"
      using that c unfolding owned_def att_ok_def
      by (metis length_list_update not_less_eq_eq nth_list_update_eq nth_list_update_neq option.inject order_refl Suc_eq_plus1)
    with a show ?thesis by (auto simp: att_ok_def)
  qed
  then show ?thesis using ok by (simp add: conn_ok_def)
qed

section \<open>The invariant of the page\<close>

definition page_inv :: "page \<Rightarrow> bool" where
  "page_inv p \<longleftrightarrow>
     conn_ok (pg_transport p) (pg_writer p) (pg_generation p) (pg_connect_disabled p) (pg_attempts p) (pg_closed p) \<and>
     length (pg_log p) \<le> max_log_entries"

lemma record_event_fields [simp]:
  "pg_transport (record_event x1 x2 x3 x4 x5 x6 p) = pg_transport p"
  "pg_writer (record_event x1 x2 x3 x4 x5 x6 p) = pg_writer p"
  "pg_generation (record_event x1 x2 x3 x4 x5 x6 p) = pg_generation p"
  "pg_connect_disabled (record_event x1 x2 x3 x4 x5 x6 p) = pg_connect_disabled p"
  "pg_attempts (record_event x1 x2 x3 x4 x5 x6 p) = pg_attempts p"
  "pg_closed (record_event x1 x2 x3 x4 x5 x6 p) = pg_closed p"
  "length (pg_log (record_event x1 x2 x3 x4 x5 x6 p)) \<le> max_log_entries"
  by (simp_all add: record_event_def)

lemma record_simple_fields [simp]:
  "pg_transport (record_simple x1 x2 x3 x4 p) = pg_transport p"
  "pg_writer (record_simple x1 x2 x3 x4 p) = pg_writer p"
  "pg_generation (record_simple x1 x2 x3 x4 p) = pg_generation p"
  "pg_connect_disabled (record_simple x1 x2 x3 x4 p) = pg_connect_disabled p"
  "pg_attempts (record_simple x1 x2 x3 x4 p) = pg_attempts p"
  "pg_closed (record_simple x1 x2 x3 x4 p) = pg_closed p"
  "length (pg_log (record_simple x1 x2 x3 x4 p)) \<le> max_log_entries"
  by (simp_all add: record_simple_def)

lemma page_inv_record [simp]:
  "page_inv p \<Longrightarrow> page_inv (record_event x1 x2 x3 x4 x5 x6 p)"
  "page_inv p \<Longrightarrow> page_inv (record_simple y1 y2 y3 y4 p)"
  by (simp_all add: page_inv_def)

text \<open>An operation that only touches the document.\<close>

lemma page_inv_document:
  "page_inv p \<Longrightarrow> pg_transport q = pg_transport p \<Longrightarrow> pg_writer q = pg_writer p \<Longrightarrow>
   pg_generation q = pg_generation p \<Longrightarrow> pg_connect_disabled q = pg_connect_disabled p \<Longrightarrow>
   pg_attempts q = pg_attempts p \<Longrightarrow> pg_closed q = pg_closed p \<Longrightarrow> length (pg_log q) \<le> max_log_entries \<Longrightarrow> page_inv q"
  by (simp add: page_inv_def)

lemma page_conn:
  "page_inv p \<Longrightarrow>
   conn_ok (pg_transport p) (pg_writer p) (pg_generation p) (pg_connect_disabled p) (pg_attempts p) (pg_closed p)"
  by (simp add: page_inv_def)

lemma connect_inv:
  assumes i: "page_inv p"
  shows "page_inv (connect token p)"
proof (cases "pg_connect_disabled p \<or> pg_transport p \<noteq> None")
  case False
  let ?a = "\<lparr>at_generation = pg_generation p + 1, at_candidate = None, at_point = TicketPending, at_reading = False\<rparr>"
  have "conn_ok None (pg_writer p) (pg_generation p + 1) True (pg_attempts p @ [?a]) (pg_closed p)"
    by (rule conn_ok_connect [where disabled = False]) (use page_conn [OF i] False in simp_all)
  with False i show ?thesis by (simp add: connect_def page_inv_def Let_def)
qed (use i in \<open>simp add: connect_def\<close>)

lemma attempt_fails_inv:
  assumes i: "page_inv p" and k: "k < length (pg_attempts p)"
  shows "page_inv (attempt_fails k e p)"
proof (cases "at_generation (pg_attempts p ! k) = pg_generation p")
  case True
  have "conn_ok None None (pg_generation p) b ((pg_attempts p)[k := (pg_attempts p ! k)\<lparr>at_point := AttemptOver\<rparr>]) (pg_closed p)"
    for b by (rule conn_ok_ends [OF page_conn [OF i] k]) (use True in simp_all)
  with True show ?thesis
    by (simp add: attempt_fails_def connection_ended_def set_attempt_def cleanup_connection_def set_test_buttons_def
        page_inv_def)
next
  case False
  with i k show ?thesis
    by (simp add: attempt_fails_def connection_ended_def set_attempt_def page_inv_def conn_ok_update)
qed

lemma ticket_arrives_inv:
  assumes i: "page_inv p"
  shows "page_inv (ticket_arrives k answer hash target p)"
proof (cases "attempt_waits k TicketPending p")
  case True
  then have k: "k < length (pg_attempts p)" and tp: "at_point (pg_attempts p ! k) = TicketPending"
    by (auto simp: attempt_waits_def)
  show ?thesis
  proof (cases answer)
    case (Inl m)
    with True attempt_fails_inv [OF i k] show ?thesis by (simp add: ticket_arrives_def)
  next
    case (Inr x)
    obtain ticket expires where x: "x = (ticket, expires)" by (cases x)
    let ?p = "record_simple ''IN'' ''http'' ''session-ticket-issued'' (FieldDetails [(''expiresInMs'', Some (JNumber expires))]) p"
    have p: "page_inv ?p" "k < length (pg_attempts ?p)" using i k by simp_all
    have "conn_ok (Some (length (pg_closed p))) (pg_writer p) (pg_generation p) (pg_connect_disabled p)
        ((pg_attempts p)[k := (pg_attempts p ! k)\<lparr>at_candidate := Some (length (pg_closed p)), at_point := ReadyPending\<rparr>])
        (pg_closed p @ [False])"
      by (rule conn_ok_ticket [OF page_conn [OF i] k tp]) simp_all
    then have "page_inv (set_attempt k (\<lambda>a. a\<lparr>at_candidate := Some (length (pg_closed ?p)), at_point := ReadyPending\<rparr>)
        (?p\<lparr>pg_transport := Some (length (pg_closed ?p)), pg_closed := pg_closed ?p @ [False]\<rparr>))"
      by (simp add: set_attempt_def page_inv_def)
    with True Inr x attempt_fails_inv [OF p] show ?thesis
      by (simp add: ticket_arrives_def Let_def split: option.split)
  qed
qed (use i in \<open>simp add: ticket_arrives_def\<close>)

lemma set_attempt_inv:
  assumes "page_inv p" and "k < length (pg_attempts p)"
    and "at_generation (f (pg_attempts p ! k)) = at_generation (pg_attempts p ! k)"
    and "at_point (f (pg_attempts p ! k)) = AttemptOver \<or>
      at_candidate (f (pg_attempts p ! k)) = at_candidate (pg_attempts p ! k) \<and>
        (at_point (f (pg_attempts p ! k)) = at_point (pg_attempts p ! k) \<or>
         live_point (at_point (f (pg_attempts p ! k))) \<and> live_point (at_point (pg_attempts p ! k)))"
  shows "page_inv (set_attempt k f p)"
  using assms by (simp add: set_attempt_def page_inv_def conn_ok_update)

lemma close_candidate_inv: "page_inv p \<Longrightarrow> page_inv (close_candidate c p)"
  by (simp add: close_candidate_def page_inv_def conn_ok_close)

lemma ready_arrives_inv:
  assumes i: "page_inv p"
  shows "page_inv (ready_arrives k failure p)"
proof (cases "attempt_waits k ReadyPending p")
  case True
  then have k: "k < length (pg_attempts p)" and rp: "at_point (pg_attempts p ! k) = ReadyPending"
    by (auto simp: attempt_waits_def)
  have "page_inv (set_attempt k (\<lambda>a. a\<lparr>at_point := AttemptOver\<rparr>) p)"
    "page_inv (set_attempt k (\<lambda>a. a\<lparr>at_point := AdmissionPending\<rparr>) p)"
    by (rule set_attempt_inv [OF i k]; simp add: rp)+
  with True attempt_fails_inv [OF i k] close_candidate_inv show ?thesis
    by (simp add: ready_arrives_def split: option.split)
qed (use i in \<open>simp add: ready_arrives_def\<close>)

lemma conn_ok_writer:
  "conn_ok t w g disabled as cl \<Longrightarrow> t = Some c \<Longrightarrow> conn_ok t (Some c) g disabled as cl"
  unfolding conn_ok_def by blast

lemma live_attempt:
  assumes "page_inv p" and "k < length (pg_attempts p)" and "live_point (at_point (pg_attempts p ! k))"
  shows "owned (pg_transport p) (pg_generation p) (pg_closed p) (pg_attempts p ! k)"
  using assms by (simp add: page_inv_def conn_ok_def att_ok_def)

lemma closed_not_admitted:
  assumes "k < length (pg_attempts p)" and "pg_closed p ! the (at_candidate (pg_attempts p ! k))"
  obtains e where "admission_result bytes (stream_reply k reply p) = Inl e"
  using assms that by (simp add: stream_reply_def admission_result_def)

lemma admission_arrives_inv:
  assumes i: "page_inv p"
  shows "page_inv (admission_arrives k bytes (stream_reply k reply p) p)"
proof (cases "attempt_waits k AdmissionPending p")
  case True
  then have k: "k < length (pg_attempts p)" and ap: "at_point (pg_attempts p ! k) = AdmissionPending"
    by (auto simp: attempt_waits_def)
  let ?c = "the (at_candidate (pg_attempts p ! k))"
  let ?q = "(set_test_buttons True (p\<lparr>pg_writer := Some ?c, pg_connection := ''connected''\<rparr>))\<lparr>pg_disconnect_disabled := False\<rparr>"
  have "page_inv (set_attempt k (\<lambda>a. a\<lparr>at_point := Established, at_reading := True\<rparr>) ?q)" if "\<not> pg_closed p ! ?c"
  proof (rule set_attempt_inv)
    have "pg_transport p = Some ?c"
      using live_attempt [OF i k] ap that by (auto simp: owned_def split: if_splits)
    with conn_ok_writer [OF page_conn [OF i], of ?c] i show "page_inv ?q"
      by (simp add: page_inv_def set_test_buttons_def)
  qed (use k ap in \<open>simp_all add: set_test_buttons_def\<close>)
  note open_case = this
  show ?thesis
  proof (cases "pg_closed p ! ?c")
    case True
    from k True obtain e where "admission_result bytes (stream_reply k reply p) = Inl e" by (rule closed_not_admitted)
    with \<open>attempt_waits k AdmissionPending p\<close> attempt_fails_inv [OF i k] show ?thesis
      by (simp add: admission_arrives_def)
  next
    case False
    with open_case \<open>attempt_waits k AdmissionPending p\<close> attempt_fails_inv [OF i k] show ?thesis
      by (simp add: admission_arrives_def Let_def split: sum.split)
  qed
qed (use i in \<open>simp add: admission_arrives_def\<close>)

lemma connection_ended_inv:
  assumes i: "page_inv p" and k: "k < length (pg_attempts p)" and over: "at_point (pg_attempts p ! k) = AttemptOver"
    and g: "generation = at_generation (pg_attempts p ! k)"
  shows "page_inv (connection_ended c generation event details p)"
proof (cases "generation = pg_generation p")
  case True
  let ?a = "pg_attempts p ! k"
  have "conn_ok None None (pg_generation p) b ((pg_attempts p)[k := ?a]) (pg_closed p)" for b
    by (rule conn_ok_ends [OF i [unfolded page_inv_def, THEN conjunct1] k]) (use True g over in simp_all)
  then show ?thesis
    using i by (simp add: connection_ended_def cleanup_connection_def set_test_buttons_def page_inv_def)
qed (use i in \<open>simp add: connection_ended_def\<close>)

lemma closed_arrives_inv:
  assumes i: "page_inv p"
  shows "page_inv (closed_arrives k failure p)"
proof (cases "attempt_waits k Established p")
  case True
  then have k: "k < length (pg_attempts p)" by (simp add: attempt_waits_def)
  let ?p = "close_candidate (the (at_candidate (pg_attempts p ! k))) (set_attempt k (\<lambda>a. a\<lparr>at_point := AttemptOver\<rparr>) p)"
  have "page_inv (set_attempt k (\<lambda>a. a\<lparr>at_point := AttemptOver\<rparr>) p)"
    by (rule set_attempt_inv [OF i k]) simp_all
  then have p: "page_inv ?p" by (rule close_candidate_inv)
  have "page_inv (connection_ended c (at_generation (pg_attempts p ! k)) event details ?p)" for c event details
    by (rule connection_ended_inv [OF p, of k]) (use k in \<open>simp_all add: close_candidate_def set_attempt_def\<close>)
  with True show ?thesis by (simp add: closed_arrives_def Let_def split: option.split)
qed (use i in \<open>simp add: closed_arrives_def\<close>)

lemma disconnect_inv:
  assumes i: "page_inv p"
  shows "page_inv (disconnect p)"
proof (cases "pg_transport p")
  case (Some c)
  have "conn_ok None None (pg_generation p + 1) b (pg_attempts p) ((pg_closed p)[c := True])" for b
    by (rule conn_ok_disconnect [OF page_conn [OF i, unfolded Some]])
  with Some show ?thesis
    by (simp add: disconnect_def page_inv_def close_candidate_def cleanup_connection_def set_test_buttons_def)
qed (use i in \<open>simp add: disconnect_def\<close>)

lemma handle_incoming_fields:
  assumes "handle_incoming rt ip raw parsed n p = Some q"
  shows "pg_transport q = pg_transport p \<and> pg_writer q = pg_writer p \<and> pg_generation q = pg_generation p \<and>
    pg_connect_disabled q = pg_connect_disabled p \<and> pg_attempts q = pg_attempts p \<and> pg_closed q = pg_closed p \<and>
    length (pg_log q) \<le> max_log_entries"
proof (cases parsed)
  case None
  with assms show ?thesis by (auto simp: handle_incoming_def)
next
  case (Some v)
  have "v \<noteq> JNull" using assms Some by (auto simp: handle_incoming_def)
  then show ?thesis
    using assms unfolding Some handle_incoming_def Let_def by (cases v) (auto split: if_splits)
qed

lemma read_datagram_inv:
  assumes i: "page_inv p"
  shows "page_inv (read_datagram rt ip k r p)"
proof (cases "k < length (pg_attempts p) \<and> at_reading (pg_attempts p ! k)")
  case True
  then have k: "k < length (pg_attempts p)" by simp
  have over: "page_inv (set_attempt k (\<lambda>a. a\<lparr>at_reading := False\<rparr>) q)"
    if "page_inv q" "pg_attempts q = pg_attempts p" for q
    by (rule set_attempt_inv [OF that(1)]) (use k that(2) in simp_all)
  have counted: "page_inv (increment_received p)" "pg_attempts (increment_received p) = pg_attempts p"
    using i by (simp_all add: increment_received_def page_inv_def)
  have handled: "page_inv q" if "handle_incoming rt ip raw parsed n (increment_received p) = Some q" for q raw parsed n
    by (rule page_inv_document [OF counted(1)]) (use handle_incoming_fields [OF that] in auto)
  show ?thesis
    using True i over counted handled
    by (auto simp: read_datagram_def Let_def split: read_result.split option.split)
qed (use i in \<open>simp add: read_datagram_def\<close>)

lemma page_step_inv: "page_inv p \<Longrightarrow> page_inv (page_step rt ip e p)"
proof (cases e)
  case (DatagramSettles j failure)
  assume "page_inv p"
  with DatagramSettles show ?thesis
    by (simp add: datagram_settles_def increment_sent_def page_inv_def Let_def split: option.split)
next
  case (UnidirectionalSettles message n failure)
  assume "page_inv p"
  with UnidirectionalSettles show ?thesis
    by (simp add: unidirectional_settles_def increment_sent_def page_inv_def split: option.split)
qed (simp_all add: connect_inv ticket_arrives_inv ready_arrives_inv admission_arrives_inv closed_arrives_inv
    disconnect_inv read_datagram_inv,
    auto simp: page_inv_def send_datagram_packet_def begin_bidirectional_def bidirectional_sent_def bidirectional_received_def
      bidirectional_fails_def begin_unidirectional_def increment_sent_def increment_received_def Let_def)

interpretation page_life: event_system "page_step rt ip" page_inv for rt ip
  by unfold_locales (rule page_step_inv)

lemma new_page_inv: "page_inv (new_page supported)"
  by (simp add: page_inv_def new_page_def conn_ok_def)

text \<open>
  C40. The page holds at most one session: in every reachable state a connection attempt that is still under
  way or established either owns the page's transport and is of the current generation, or its
  transport has been closed; datagrams are written to that transport only; while there is one, the
  connect button is disabled; and the log shows at most 200 rows.
\<close>

theorem page_owns_one_session:
  "let p = fold (page_step rt ip) es (new_page supported) in
     (\<forall>a \<in> set (pg_attempts p). live_point (at_point a) \<longrightarrow>
        (\<exists>c. at_candidate a = Some c \<and>
          (if at_generation a = pg_generation p then pg_transport p = Some c else pg_closed p ! c))) \<and>
     (\<forall>c. pg_writer p = Some c \<longrightarrow> pg_transport p = Some c) \<and>
     (pg_transport p \<noteq> None \<longrightarrow> pg_connect_disabled p) \<and> length (pg_log p) \<le> 200"
proof -
  let ?p = "fold (page_step rt ip) es (new_page supported)"
  have "page_inv ?p" by (rule page_life.run_inv [OF new_page_inv])
  then show ?thesis
    unfolding Let_def page_inv_def conn_ok_def att_ok_def owned_def max_log_entries_def by (auto; metis)
qed

section \<open>Superseded attempts\<close>

fun event_attempt :: "page_event \<Rightarrow> nat option" where
  "event_attempt (TicketArrives k _ _ _) = Some k"
| "event_attempt (ReadyArrives k _) = Some k"
| "event_attempt (AdmissionArrives k _ _) = Some k"
| "event_attempt (ClosedArrives k _) = Some k"
| "event_attempt (DatagramRead k _) = Some k"
| "event_attempt _ = None"

lemma attempt_fails_older:
  "at_generation (pg_attempts p ! k) \<noteq> pg_generation p \<Longrightarrow> k < length (pg_attempts p) \<Longrightarrow>
   attempt_fails k e p = p\<lparr>pg_attempts := (pg_attempts p)[k := (pg_attempts p ! k)\<lparr>at_point := AttemptOver\<rparr>]\<rparr>"
  by (simp add: attempt_fails_def connection_ended_def set_attempt_def)

text \<open>
  Late news of an old connection is ignored: an event of an attempt that a disconnect or a later
  connect has superseded (its transport becoming ready, admitted or closed, or delivering a datagram)
  changes neither the transport nor the writer, no counter, no button and no row of the log.
\<close>

theorem superseded_events_ignored:
  assumes "p = fold (page_step rt ip) es (new_page supported)"
    and "event_attempt e = Some k" and "k < length (pg_attempts p)"
    and "at_generation (pg_attempts p ! k) \<noteq> pg_generation p"
  shows "\<exists>as cl. page_step rt ip e p = p\<lparr>pg_attempts := as, pg_closed := cl\<rparr>"
proof -
  have i: "page_inv p" unfolding assms(1) by (rule page_life.run_inv [OF new_page_inv])
  have same: "\<exists>as cl. p = p\<lparr>pg_attempts := as, pg_closed := cl\<rparr>"
    by (intro exI [of _ "pg_attempts p"] exI [of _ "pg_closed p"]) simp
  have "\<exists>cl. p\<lparr>pg_attempts := as\<rparr> = p\<lparr>pg_attempts := as, pg_closed := cl\<rparr>" for as
    by (intro exI [of _ "pg_closed p"]) simp
  then have some: "\<exists>bs cl. p\<lparr>pg_attempts := as\<rparr> = p\<lparr>pg_attempts := bs, pg_closed := cl\<rparr>" for as by blast
  show ?thesis
  proof (cases e)
    case (TicketArrives j answer hash target)
    with assms have "\<not> attempt_waits k TicketPending p" "j = k"
      using i nth_mem [OF assms(3)] by (auto simp: attempt_waits_def page_inv_def conn_ok_def att_ok_def)
    with same TicketArrives show ?thesis by (simp add: ticket_arrives_def)
  next
    case (ReadyArrives j failure)
    with assms same some show ?thesis
      by (cases failure)
        (auto simp: ready_arrives_def attempt_fails_older set_attempt_def close_candidate_def)
  next
    case (AdmissionArrives j bytes reply)
    show ?thesis
    proof (cases "attempt_waits k AdmissionPending p")
      case True
      then have "owned (pg_transport p) (pg_generation p) (pg_closed p) (pg_attempts p ! k)"
        by (intro live_attempt [OF i assms(3)]) (simp add: attempt_waits_def)
      then have "pg_closed p ! the (at_candidate (pg_attempts p ! k))" using assms(4) by (auto simp: owned_def)
      with assms(3) obtain e' where "admission_result bytes (stream_reply k reply p) = Inl e'" by (rule closed_not_admitted)
      moreover have "j = k" using AdmissionArrives assms(2) by simp
      ultimately show ?thesis
        using True AdmissionArrives attempt_fails_older [OF assms(4,3)] some by (simp add: admission_arrives_def)
    qed (use AdmissionArrives assms same in \<open>simp add: admission_arrives_def\<close>)
  next
    case (ClosedArrives j failure)
    with assms same show ?thesis
      by (cases failure)
        (auto simp: closed_arrives_def connection_ended_def set_attempt_def close_candidate_def Let_def)
  next
    case (DatagramRead j r)
    with assms same some show ?thesis
      by (cases r) (auto simp: read_datagram_def set_attempt_def Let_def)
  qed (use assms(2) in simp_all)
qed

section \<open>Examples\<close>

definition example_clicks :: "page_event list" where
  "example_clicks =
     [ClickConnect ''token'', TicketArrives 0 (Inr (''ticket'', PosInf)) [] None, ReadyArrives 0 None]"

lemma example_page:
  "pg_attempts (fold (page_step rt ip) example_clicks (new_page True)) =
     [\<lparr>at_generation = 1, at_candidate = Some 0, at_point = AdmissionPending, at_reading = False\<rparr>]"
  "pg_generation (fold (page_step rt ip) example_clicks (new_page True)) = 1"
  "pg_closed (fold (page_step rt ip) example_clicks (new_page True)) = [False]"
  by (simp_all add: example_clicks_def new_page_def connect_def ticket_arrives_def ready_arrives_def attempt_waits_def
      record_simple_def record_event_def set_attempt_def max_log_entries_def Let_def)

lemma example_disconnected:
  "pg_attempts (fold (page_step rt ip) (example_clicks @ [ClickDisconnect]) (new_page True)) =
     [\<lparr>at_generation = 1, at_candidate = Some 0, at_point = AdmissionPending, at_reading = False\<rparr>]"
  "pg_generation (fold (page_step rt ip) (example_clicks @ [ClickDisconnect]) (new_page True)) = 2"
  "pg_closed (fold (page_step rt ip) (example_clicks @ [ClickDisconnect]) (new_page True)) = [True]"
  by (simp_all add: example_clicks_def new_page_def connect_def ticket_arrives_def ready_arrives_def attempt_waits_def
      record_simple_def record_event_def set_attempt_def max_log_entries_def disconnect_def close_candidate_def
      cleanup_connection_def set_test_buttons_def Let_def)

theorem page_owns_one_session_witness:
  "let p = fold (page_step (\<lambda>_. NaN) (\<lambda>_. [])) example_clicks (new_page True) in
     live_point (at_point (hd (pg_attempts p))) \<and> pg_transport p = Some 0 \<and> pg_connect_disabled p"
  using page_owns_one_session [of "\<lambda>_. NaN" "\<lambda>_. []" example_clicks True]
    example_page [of "\<lambda>_. NaN" "\<lambda>_. []"] by (simp add: Let_def)

theorem superseded_events_ignored_witness:
  "\<exists>as cl. page_step (\<lambda>_. NaN) (\<lambda>_. []) (AdmissionArrives 0 [1] (Inl NonError))
       (fold (page_step (\<lambda>_. NaN) (\<lambda>_. [])) (example_clicks @ [ClickDisconnect]) (new_page True)) =
     (fold (page_step (\<lambda>_. NaN) (\<lambda>_. [])) (example_clicks @ [ClickDisconnect]) (new_page True))
       \<lparr>pg_attempts := as, pg_closed := cl\<rparr>"
  by (rule superseded_events_ignored [OF refl, where k = 0]) (simp_all add: example_disconnected del: fold_append)

text \<open>
  An admission that fails leaves its session open: when the echo of the gateway does not match (or the
  stream of the check cannot be made), \<open>connectionEnded\<close> forgets the transport without closing it. The
  page then offers to connect again while the first session stays open until the server ends it.
\<close>

theorem failed_admission_leaves_session_open:
  "let p = fold (page_step rt ip) (example_clicks @ [AdmissionArrives 0 [1] (Inr [[2]])]) (new_page True) in
     pg_transport p = None \<and> pg_closed p = [False] \<and> \<not> pg_connect_disabled p"
  by (simp add: example_clicks_def new_page_def connect_def ticket_arrives_def ready_arrives_def attempt_waits_def
      record_simple_def record_event_def set_attempt_def max_log_entries_def admission_arrives_def admission_result_def
      stream_reply_def
      read_all_def read_limit_def join_page_chunks_def attempt_fails_def connection_ended_def cleanup_connection_def
      set_test_buttons_def Let_def)

end
