(* ===== verification/Incoming_Queue.thy ===== *)
theory Incoming_Queue
  imports Prelude
begin

text \<open>
  The queue of incoming streams that \<open>scripts/vendor-rwebtransport.mjs\<close> patches into the vendored
  adapter (\<open>incomingStreamQueue\<close>, the text between the quotes), and the overflow handler around it. A
  stream is its number. The controller of the readable stream is the language's: it asks with \<open>pull\<close>
  only while the stream is open, and an enqueued stream goes to the reader. \<open>core\<close> is the native
  session: \<open>discard\<close> gives a stream back to it.
\<close>

section \<open>State\<close>

datatype controller_state = Readable | Closed | Errored

datatype queue_action = Deliver nat | Discard nat bool | Overflow

record incoming =
  iq_bidi :: bool
  iq_waiting :: bool
  iq_cancelled :: bool
  iq_ended :: bool
  iq_queue :: "nat list"
  iq_controller :: controller_state
  iq_lost :: "nat list"
  iq_trace :: "queue_action list"

definition new_incoming :: "bool \<Rightarrow> incoming" where
  "new_incoming bidi =
     \<lparr>iq_bidi = bidi, iq_waiting = False, iq_cancelled = False, iq_ended = False, iq_queue = [],
      iq_controller = Readable, iq_lost = [], iq_trace = []\<rparr>"

definition enqueue_stream :: "nat \<Rightarrow> incoming \<Rightarrow> incoming" where
  "enqueue_stream i s = s\<lparr>iq_trace := iq_trace s @ [Deliver i]\<rparr>"

text \<open>\<open>discard\<close>: the receiving half, and the sending half of a bidirectional stream.\<close>

definition discard :: "nat \<Rightarrow> incoming \<Rightarrow> incoming" where
  "discard i s = s\<lparr>iq_trace := iq_trace s @ [Discard i (iq_bidi s)]\<rparr>"

definition safe_close :: "incoming \<Rightarrow> incoming" where
  "safe_close s = (if iq_controller s = Readable then s\<lparr>iq_controller := Closed\<rparr> else s)"

definition safe_error :: "incoming \<Rightarrow> incoming" where
  "safe_error s = (if iq_controller s = Readable then s\<lparr>iq_controller := Errored\<rparr> else s)"

section \<open>Operations\<close>

definition pull_stream :: "incoming \<Rightarrow> incoming" where
  "pull_stream s =
     (if iq_controller s \<noteq> Readable \<or> iq_cancelled s then s
      else
        (case iq_queue s of
           i # rest \<Rightarrow>
             (let s1 = enqueue_stream i (s\<lparr>iq_queue := rest\<rparr>)
              in if iq_ended s1 \<and> rest = [] then safe_close s1 else s1)
         | [] \<Rightarrow> if iq_ended s then safe_close s else s\<lparr>iq_waiting := True\<rparr>))"

text \<open>The reader cancels an open stream.\<close>

definition cancel_streams :: "incoming \<Rightarrow> incoming" where
  "cancel_streams s =
     (if iq_controller s \<noteq> Readable \<or> iq_cancelled s then s
      else
        (let s1 = fold discard (iq_queue s) (s\<lparr>iq_cancelled := True, iq_waiting := False\<rparr>)
         in s1\<lparr>iq_queue := [], iq_lost := iq_lost s1 @ iq_queue s1, iq_controller := Closed\<rparr>))"

text \<open>\<open>accept(id)\<close>; \<open>gone\<close> is \<open>core.isClosed\<close>.\<close>

definition accept_stream :: "bool \<Rightarrow> nat \<Rightarrow> incoming \<Rightarrow> incoming" where
  "accept_stream gone i s =
     (if iq_cancelled s \<or> iq_ended s \<or> gone then discard i s
      else if \<not> iq_waiting s \<and> length (iq_queue s) \<ge> 256 then s\<lparr>iq_trace := iq_trace s @ [Overflow]\<rparr>
      else if iq_waiting s then enqueue_stream i (s\<lparr>iq_waiting := False\<rparr>)
      else s\<lparr>iq_queue := iq_queue s @ [i]\<rparr>)"

definition close_streams :: "incoming \<Rightarrow> incoming" where
  "close_streams s0 =
     (let s = s0\<lparr>iq_ended := True\<rparr> in if iq_queue s = [] then safe_close s else s)"

definition error_streams :: "incoming \<Rightarrow> incoming" where
  "error_streams s0 =
     safe_error (s0\<lparr>iq_ended := True, iq_lost := iq_lost s0 @ iq_queue s0, iq_queue := []\<rparr>)"

datatype incoming_event = PullStream | CancelStreams | AcceptStream bool nat | CloseStreams | ErrorStreams

fun incoming_step :: "incoming_event \<Rightarrow> incoming \<Rightarrow> incoming" where
  "incoming_step PullStream s = pull_stream s"
| "incoming_step CancelStreams s = cancel_streams s"
| "incoming_step (AcceptStream gone i) s = accept_stream gone i s"
| "incoming_step CloseStreams s = close_streams s"
| "incoming_step ErrorStreams s = error_streams s"

section \<open>What becomes of a stream\<close>

definition delivered :: "queue_action list \<Rightarrow> nat list" where
  "delivered as = concat (map (\<lambda>a. case a of Deliver i \<Rightarrow> [i] | _ \<Rightarrow> []) as)"

definition discarded :: "queue_action list \<Rightarrow> nat list" where
  "discarded as = concat (map (\<lambda>a. case a of Discard i _ \<Rightarrow> [i] | _ \<Rightarrow> []) as)"

lemma actions_append [simp]:
  "delivered (as @ bs) = delivered as @ delivered bs" "discarded (as @ bs) = discarded as @ discarded bs"
  by (simp_all add: delivered_def discarded_def)

lemma actions_simps [simp]:
  "delivered [Deliver i] = [i]" "delivered [Discard i b] = []" "delivered [Overflow] = []"
  "discarded [Deliver i] = []" "discarded [Discard i b] = [i]" "discarded [Overflow] = []"
  by (simp_all add: delivered_def discarded_def)

lemma fold_discard:
  "fold discard is s = s\<lparr>iq_trace := iq_trace s @ map (\<lambda>i. Discard i (iq_bidi s)) is\<rparr>"
  by (induction "is" arbitrary: s) (simp_all add: discard_def)

lemma delivered_discards [simp]: "delivered (map (\<lambda>i. Discard i b) is) = []"
  "discarded (map (\<lambda>i. Discard i b) is) = is"
  by (induction "is") (simp_all add: delivered_def discarded_def)

text \<open>The streams that were taken in: delivered, queued, or lost with the queue, in their order.\<close>

fun taken :: "incoming_event list \<Rightarrow> incoming \<Rightarrow> nat list" where
  "taken [] s = []"
| "taken (e # es) s =
     (case e of
        AcceptStream gone i \<Rightarrow>
          (if iq_cancelled s \<or> iq_ended s \<or> gone \<or> \<not> iq_waiting s \<and> length (iq_queue s) \<ge> 256 then [] else [i])
      | _ \<Rightarrow> []) @ taken es (incoming_step e s)"

definition incoming_inv :: "incoming \<Rightarrow> bool" where
  "incoming_inv s \<longleftrightarrow>
     length (iq_queue s) \<le> 256 \<and> (iq_waiting s \<and> \<not> iq_ended s \<longrightarrow> iq_queue s = []) \<and>
     (iq_cancelled s \<longrightarrow> iq_queue s = [] \<and> \<not> iq_waiting s) \<and>
     (iq_lost s \<noteq> [] \<longrightarrow> iq_queue s = [] \<and> (iq_cancelled s \<or> iq_ended s)) \<and>
     (iq_controller s \<noteq> Readable \<longrightarrow> iq_queue s = [] \<and> (iq_cancelled s \<or> iq_ended s))"

lemma incoming_step_inv: "incoming_inv s \<Longrightarrow> incoming_inv (incoming_step e s)"
proof (cases e)
  case PullStream
  assume "incoming_inv s"
  with PullStream show ?thesis
    by (cases "iq_queue s") (auto simp: incoming_inv_def pull_stream_def enqueue_stream_def safe_close_def Let_def)
qed (auto simp: incoming_inv_def cancel_streams_def fold_discard accept_stream_def discard_def enqueue_stream_def
    close_streams_def error_streams_def safe_close_def safe_error_def Let_def)

interpretation incoming_life: event_system incoming_step incoming_inv
  by unfold_locales (rule incoming_step_inv)

lemma new_incoming_inv: "incoming_inv (new_incoming bidi)"
  by (simp add: incoming_inv_def new_incoming_def)

definition in_order :: "incoming \<Rightarrow> nat list" where
  "in_order s = delivered (iq_trace s) @ iq_queue s @ iq_lost s"

lemma incoming_step_order:
  assumes i: "incoming_inv s"
  shows "in_order (incoming_step e s) = in_order s @ taken [e] s"
proof (cases e)
  case PullStream
  with i show ?thesis
    by (cases "iq_queue s")
      (auto simp: in_order_def pull_stream_def enqueue_stream_def safe_close_def incoming_inv_def Let_def)
next
  case (AcceptStream gone j)
  have "iq_lost s = []" if "\<not> iq_cancelled s" "\<not> iq_ended s" using i that by (auto simp: incoming_inv_def)
  moreover have "iq_queue s = []" if "iq_waiting s" "\<not> iq_ended s" using i that by (simp add: incoming_inv_def)
  ultimately show ?thesis
    using AcceptStream by (auto simp: in_order_def accept_stream_def discard_def enqueue_stream_def)
qed (use i in \<open>auto simp: in_order_def cancel_streams_def fold_discard close_streams_def error_streams_def
    safe_close_def safe_error_def incoming_inv_def Let_def\<close>)

lemma incoming_run_order:
  "incoming_inv s \<Longrightarrow> in_order (fold incoming_step es s) = in_order s @ taken es s"
proof (induction es arbitrary: s)
  case (Cons e es)
  from Cons.IH [OF incoming_step_inv [OF Cons.prems]] incoming_step_order [OF Cons.prems, of e] show ?case by simp
qed simp

text \<open>
  The queue of incoming streams: it never holds more than 256 streams; the streams that were taken in
  are, in their order, those delivered, then those still queued, then those lost when the reader
  cancelled or the session failed; and after a cancellation nothing is queued any more and every stream
  that was lost has been given back to the session.
\<close>

theorem incoming_queue_sound:
  "let s = fold incoming_step es (new_incoming bidi) in
     length (iq_queue s) \<le> 256 \<and>
     delivered (iq_trace s) @ iq_queue s @ iq_lost s = taken es (new_incoming bidi) \<and>
     (iq_cancelled s \<longrightarrow> iq_queue s = [] \<and> set (iq_lost s) \<subseteq> set (discarded (iq_trace s)))"
proof -
  let ?s = "fold incoming_step es (new_incoming bidi)"
  have lost: "iq_cancelled (fold incoming_step es s) \<longrightarrow>
      set (iq_lost (fold incoming_step es s)) \<subseteq> set (discarded (iq_trace (fold incoming_step es s)))"
    if "incoming_inv s" "iq_cancelled s \<longrightarrow> set (iq_lost s) \<subseteq> set (discarded (iq_trace s))"
      "iq_lost s \<noteq> [] \<and> \<not> iq_cancelled s \<longrightarrow> iq_controller s \<noteq> Readable" for es s
    using that
  proof (induction es arbitrary: s)
    case (Cons e es)
    have "iq_cancelled (incoming_step e s) \<longrightarrow>
        set (iq_lost (incoming_step e s)) \<subseteq> set (discarded (iq_trace (incoming_step e s)))"
      "iq_lost (incoming_step e s) \<noteq> [] \<and> \<not> iq_cancelled (incoming_step e s) \<longrightarrow>
        iq_controller (incoming_step e s) \<noteq> Readable"
      using Cons.prems
      by (cases e; auto simp: pull_stream_def enqueue_stream_def cancel_streams_def fold_discard accept_stream_def
          discard_def close_streams_def error_streams_def safe_close_def safe_error_def incoming_inv_def Let_def
          split: list.split)+
    from Cons.IH [OF incoming_step_inv [OF Cons.prems(1)] this] show ?case by simp
  qed simp
  have "incoming_inv ?s" by (rule incoming_life.run_inv [OF new_incoming_inv])
  moreover have "in_order ?s = taken es (new_incoming bidi)"
    using incoming_run_order [OF new_incoming_inv] by (simp add: in_order_def) (simp add: new_incoming_def delivered_def)
  moreover have "iq_cancelled ?s \<longrightarrow> set (iq_lost ?s) \<subseteq> set (discarded (iq_trace ?s))"
    by (rule lost [OF new_incoming_inv]) (simp_all add: new_incoming_def)
  ultimately show ?thesis by (simp add: Let_def in_order_def incoming_inv_def)
qed

theorem incoming_queue_sound_witness:
  "let es = [AcceptStream False 3, AcceptStream False 7, PullStream, CancelStreams];
       s = fold incoming_step es (new_incoming True) in
     iq_cancelled s \<and> iq_queue s = [] \<and> set (iq_lost s) \<subseteq> set (discarded (iq_trace s))"
proof -
  have "iq_cancelled (fold incoming_step [AcceptStream False 3, AcceptStream False 7, PullStream, CancelStreams]
      (new_incoming True))" by code_simp
  with incoming_queue_sound [of "[AcceptStream False 3, AcceptStream False 7, PullStream, CancelStreams]" True]
  show ?thesis by (simp add: Let_def)
qed

end
