(* ===== verification/Vendored_Patches.thy ===== *)
theory Vendored_Patches
  imports Incoming_Queue Errors
begin

text \<open>
  The other behaviour that \<open>scripts/vendor-rwebtransport.mjs\<close> patches into the vendored adapter, with as
  much of the adapter around it as it needs: the sending streams of a session, which must not fail once
  the application has closed them or their session, and the server's intake of sessions, which is
  bounded and forgets a session however it ends. The text between the quotes is the code modelled.
\<close>

section \<open>Sending streams\<close>

text \<open>The platform's view of a sending stream: \<open>controller.error\<close> has an effect until it is done.\<close>

datatype writable_state = WritableOpen | WritableClosing | WritableDone | WritableFailed thrown

record send_sink =
  sk_close_requested :: bool
  sk_registered :: bool
  sk_state :: writable_state

datatype core_call = FinStream nat | ResetStreamCall nat | CloseSessionCall nat

record session_core =
  co_attached :: bool
  co_closed :: bool
  co_local_close :: bool
  co_sinks :: "send_sink list"
  co_calls :: "core_call list"
  co_failures :: "(nat \<times> thrown) list"

definition new_core :: session_core where
  "new_core =
     \<lparr>co_attached = True, co_closed = False, co_local_close = False, co_sinks = [], co_calls = [], co_failures = []\<rparr>"

definition register_send :: "session_core \<Rightarrow> session_core" where
  "register_send s =
     s\<lparr>co_sinks := co_sinks s @ [\<lparr>sk_close_requested = False, sk_registered = True, sk_state = WritableOpen\<rparr>]\<rparr>"

definition with_sink :: "nat \<Rightarrow> (send_sink \<Rightarrow> send_sink) \<Rightarrow> session_core \<Rightarrow> session_core" where
  "with_sink k f s = (if k < length (co_sinks s) then s\<lparr>co_sinks := (co_sinks s)[k := f (co_sinks s ! k)]\<rparr> else s)"

definition unregister_send :: "send_sink \<Rightarrow> send_sink" where
  "unregister_send x = x\<lparr>sk_registered := False\<rparr>"

text \<open>\<open>controller.error\<close>; \<open>co_failures\<close> records the streams it fails.\<close>

definition fail_sink :: "nat \<Rightarrow> thrown \<Rightarrow> session_core \<Rightarrow> session_core" where
  "fail_sink k e s =
     (if k < length (co_sinks s) \<and> sk_state (co_sinks s ! k) \<in> {WritableOpen, WritableClosing}
      then (with_sink k (\<lambda>x. x\<lparr>sk_state := WritableFailed e\<rparr>) s)\<lparr>co_failures := co_failures s @ [(k, e)]\<rparr>
      else s)"

text \<open>\<open>close\<close> and \<open>abort\<close> of the sink, which the platform calls for an open stream.\<close>

definition sink_closes :: "nat \<Rightarrow> session_core \<Rightarrow> session_core" where
  "sink_closes k s =
     (if k < length (co_sinks s) \<and> sk_state (co_sinks s ! k) = WritableOpen then
        (with_sink k (\<lambda>x. unregister_send (x\<lparr>sk_close_requested := True, sk_state := WritableClosing\<rparr>)) s)
          \<lparr>co_calls := co_calls s @ [FinStream k]\<rparr>
      else s)"

definition close_done :: "nat \<Rightarrow> session_core \<Rightarrow> session_core" where
  "close_done k s =
     with_sink k (\<lambda>x. if sk_state x = WritableClosing then x\<lparr>sk_state := WritableDone\<rparr> else x) s"

definition sink_aborts :: "nat \<Rightarrow> thrown \<Rightarrow> session_core \<Rightarrow> session_core" where
  "sink_aborts k e s =
     (if k < length (co_sinks s) \<and> sk_state (co_sinks s ! k) = WritableOpen then
        (with_sink k (\<lambda>x. unregister_send (x\<lparr>sk_close_requested := True, sk_state := WritableFailed e\<rparr>)) s)
          \<lparr>co_calls := co_calls s @ [ResetStreamCall k]\<rparr>
      else s)"

text \<open>\<open>onStopSending\<close> and \<open>onSessionClose\<close>, for a sink that is still registered.\<close>

definition quiet_sink :: "nat \<Rightarrow> session_core \<Rightarrow> bool" where
  "quiet_sink k s \<longleftrightarrow> sk_close_requested (co_sinks s ! k) \<or> co_local_close s"

definition registered :: "nat \<Rightarrow> session_core \<Rightarrow> bool" where
  "registered k s \<longleftrightarrow> k < length (co_sinks s) \<and> sk_registered (co_sinks s ! k)"

definition stop_sending :: "nat \<Rightarrow> nat \<Rightarrow> session_core \<Rightarrow> session_core" where
  "stop_sending k code s =
     (if \<not> registered k s then s
      else if quiet_sink k s then with_sink k unregister_send s
      else with_sink k unregister_send (fail_sink k (NativeError ''peer sent STOP_SENDING'' NativeStream (Some code)) s))"

definition session_closes :: "thrown \<Rightarrow> bool \<Rightarrow> nat \<Rightarrow> session_core \<Rightarrow> session_core" where
  "session_closes e clean k s =
     (if \<not> registered k s then s
      else if clean \<or> quiet_sink k s then with_sink k unregister_send s
      else with_sink k unregister_send (fail_sink k e s))"

definition core_close :: "nat \<Rightarrow> session_core \<Rightarrow> session_core" where
  "core_close code s =
     (if co_closed s \<or> \<not> co_attached s then s
      else s\<lparr>co_local_close := True, co_calls := co_calls s @ [CloseSessionCall code]\<rparr>)"

text \<open>\<open>finish\<close>: the session has ended, cleanly or with an error; every registered sink is told.\<close>

definition core_finish :: "thrown option \<Rightarrow> session_core \<Rightarrow> session_core" where
  "core_finish e s =
     (if co_closed s then s
      else
        (let err = (case e of Some x \<Rightarrow> x | None \<Rightarrow> NativeError ''session closed'' NativeSession None)
         in fold (session_closes err (e = None)) [0..<length (co_sinks s)] (s\<lparr>co_closed := True\<rparr>)))"

datatype core_event =
  RegisterSend | SinkCloses nat | CloseDone nat | SinkAbortsWith nat thrown | StopSending nat nat | CoreClose nat
  | CoreFinish "thrown option"

fun core_step :: "core_event \<Rightarrow> session_core \<Rightarrow> session_core" where
  "core_step RegisterSend s = register_send s"
| "core_step (SinkCloses k) s = sink_closes k s"
| "core_step (CloseDone k) s = close_done k s"
| "core_step (SinkAbortsWith k e) s = sink_aborts k e s"
| "core_step (StopSending k code) s = stop_sending k code s"
| "core_step (CoreClose code) s = core_close code s"
| "core_step (CoreFinish e) s = core_finish e s"

lemmas core_ops =
  register_send_def with_sink_def unregister_send_def fail_sink_def sink_closes_def close_done_def sink_aborts_def
  stop_sending_def session_closes_def core_close_def

lemma closes_frame [simp]:
  "co_local_close (session_closes e clean k s) = co_local_close s"
  "length (co_sinks (session_closes e clean k s)) = length (co_sinks s)"
  by (simp_all add: core_ops)

lemma closes_fold_frame [simp]:
  "co_local_close (fold (session_closes e clean) ks s) = co_local_close s"
  "length (co_sinks (fold (session_closes e clean) ks s)) = length (co_sinks s)"
  by (induction ks arbitrary: s) simp_all

lemma quiet_fold: "clean \<or> co_local_close s \<Longrightarrow> co_failures (fold (session_closes e clean) ks s) = co_failures s"
proof (induction ks arbitrary: s)
  case (Cons k ks)
  have "co_failures (session_closes e clean k s) = co_failures s"
    using Cons.prems by (auto simp: session_closes_def quiet_sink_def with_sink_def)
  with Cons show ?case by simp
qed simp

lemma quiet_step: "co_local_close s \<Longrightarrow> co_failures (core_step e s) = co_failures s \<and> co_local_close (core_step e s)"
proof (cases e)
  case (CoreFinish x)
  assume "co_local_close s"
  with CoreFinish show ?thesis by (simp add: core_finish_def Let_def quiet_fold)
qed (auto simp: core_ops quiet_sink_def)

text \<open>
  Once the application has closed the session, no stream of it fails any more, whatever the peer does;
  and a session that ends cleanly fails none.
\<close>

theorem closed_sessions_stay_quiet:
  "co_local_close s \<Longrightarrow> co_failures (fold core_step es s) = co_failures s"
  "co_failures (core_step (CoreFinish None) s) = co_failures s"
proof -
  show "co_failures (fold core_step es s) = co_failures s" if "co_local_close s"
    using that by (induction es arbitrary: s) (simp_all add: quiet_step)
  show "co_failures (core_step (CoreFinish None) s) = co_failures s"
    by (simp add: core_finish_def Let_def quiet_fold)
qed

text \<open>
  A stream that the application has closed or aborted is not failed from outside either: such a stream is
  no longer registered, and a stream that has failed was not closed by the application.
\<close>

definition sink_sound :: "(nat \<times> thrown) list \<Rightarrow> nat \<Rightarrow> send_sink \<Rightarrow> bool" where
  "sink_sound failures k x \<longleftrightarrow>
     (sk_close_requested x \<longrightarrow> \<not> sk_registered x \<and> (\<forall>e. (k, e) \<notin> set failures)) \<and>
     (sk_state x = WritableClosing \<longrightarrow> sk_close_requested x) \<and>
     (\<forall>e. (k, e) \<in> set failures \<longrightarrow> sk_state x \<noteq> WritableOpen)"

definition sinks_sound :: "session_core \<Rightarrow> bool" where
  "sinks_sound s \<longleftrightarrow>
     (\<forall>k < length (co_sinks s). sink_sound (co_failures s) k (co_sinks s ! k)) \<and>
     (\<forall>(k, e) \<in> set (co_failures s). k < length (co_sinks s))"

lemma unregister_sound: "sinks_sound s \<Longrightarrow> sinks_sound (with_sink k unregister_send s)"
  by (auto simp: sinks_sound_def with_sink_def unregister_send_def sink_sound_def nth_list_update)

lemma fail_sound: "sinks_sound s \<Longrightarrow> registered k s \<Longrightarrow> \<not> quiet_sink k s \<Longrightarrow> sinks_sound (fail_sink k e s)"
  by (auto simp: sinks_sound_def with_sink_def fail_sink_def sink_sound_def nth_list_update registered_def quiet_sink_def)

lemma session_closes_sound: "sinks_sound s \<Longrightarrow> sinks_sound (session_closes e clean k s)"
  by (simp add: session_closes_def unregister_sound fail_sound)

lemma closes_sound: "sinks_sound s \<Longrightarrow> sinks_sound (fold (session_closes e clean) ks s)"
  by (induction ks arbitrary: s) (simp_all add: session_closes_sound)

lemma register_sound: "sinks_sound s \<Longrightarrow> sinks_sound (register_send s)"
  unfolding sinks_sound_def
  by (fastforce simp: register_send_def sink_sound_def nth_append less_Suc_eq)

lemma core_step_sound: "sinks_sound s \<Longrightarrow> sinks_sound (core_step e s)"
proof (cases e)
  case (CoreFinish x)
  assume "sinks_sound s"
  then have "sinks_sound (s\<lparr>co_closed := True\<rparr>)" by (simp add: sinks_sound_def)
  with \<open>sinks_sound s\<close> CoreFinish show ?thesis by (simp add: core_finish_def Let_def closes_sound)
next
  case (StopSending k code)
  assume "sinks_sound s"
  with StopSending show ?thesis by (simp add: stop_sending_def unregister_sound fail_sound)
next
  case RegisterSend
  assume "sinks_sound s"
  with RegisterSend show ?thesis by (simp add: register_sound)
qed (auto simp: sinks_sound_def sink_sound_def core_ops nth_list_update)

interpretation core_life: event_system core_step sinks_sound
  by unfold_locales (rule core_step_sound)

theorem closed_streams_stay_quiet:
  "k < length (co_sinks (fold core_step es new_core)) \<Longrightarrow>
   sk_close_requested (co_sinks (fold core_step es new_core) ! k) \<Longrightarrow>
   (k, e) \<notin> set (co_failures (fold core_step es new_core))"
proof -
  have "sinks_sound (fold core_step es new_core)"
    by (rule core_life.run_inv) (simp add: sinks_sound_def new_core_def)
  then show "k < length (co_sinks (fold core_step es new_core)) \<Longrightarrow>
   sk_close_requested (co_sinks (fold core_step es new_core) ! k) \<Longrightarrow>
   (k, e) \<notin> set (co_failures (fold core_step es new_core))"
    by (simp add: sinks_sound_def sink_sound_def)
qed

section \<open>The intake of sessions\<close>

record server_intake =
  si_mark :: nat
  si_queue :: "nat list"
  si_table :: "nat list"
  si_refused :: "nat list"

definition new_intake :: server_intake where
  "new_intake = \<lparr>si_mark = 1024, si_queue = [], si_table = [], si_refused = []\<rparr>"

text \<open>\<open>serverReady\<close> for a new session: a full collection closes it with code 257.\<close>

definition server_ready :: "nat \<Rightarrow> server_intake \<Rightarrow> server_intake" where
  "server_ready i s =
     (if int (si_mark s) - int (length (si_queue s)) \<le> 0 then s\<lparr>si_refused := si_refused s @ [i]\<rparr>
      else s\<lparr>si_table := js_add i (si_table s), si_queue := si_queue s @ [i]\<rparr>)"

definition read_session :: "server_intake \<Rightarrow> server_intake" where
  "read_session s = s\<lparr>si_queue := tl (si_queue s)\<rparr>"

text \<open>The handlers of \<open>core.closed\<close>: the session leaves the table, whether it ended cleanly or not.\<close>

definition session_settles :: "bool \<Rightarrow> nat \<Rightarrow> server_intake \<Rightarrow> server_intake" where
  "session_settles failed i s = s\<lparr>si_table := js_delete i (si_table s)\<rparr>"

datatype intake_event = ServerReady nat | ReadSession | SessionSettles bool nat

fun intake_step :: "intake_event \<Rightarrow> server_intake \<Rightarrow> server_intake" where
  "intake_step (ServerReady i) s = server_ready i s"
| "intake_step ReadSession s = read_session s"
| "intake_step (SessionSettles failed i) s = session_settles failed i s"

definition intake_inv :: "server_intake \<Rightarrow> bool" where
  "intake_inv s \<longleftrightarrow> si_mark s = 1024 \<and> length (si_queue s) \<le> 1024 \<and> distinct (si_table s)"

lemma intake_step_inv: "intake_inv s \<Longrightarrow> intake_inv (intake_step e s)"
  by (cases e) (auto simp: intake_inv_def server_ready_def read_session_def session_settles_def)

interpretation intake_life: event_system intake_step intake_inv
  by unfold_locales (rule intake_step_inv)

text \<open>At most 1024 sessions wait for the application, and a session that has ended is not kept.\<close>

theorem intake_bounded:
  "length (si_queue (fold intake_step es new_intake)) \<le> 1024"
  "i \<notin> set (si_table (intake_step (SessionSettles failed i) (fold intake_step es new_intake)))"
proof -
  have "intake_inv (fold intake_step es new_intake)"
    by (rule intake_life.run_inv) (simp add: intake_inv_def new_intake_def)
  then show "length (si_queue (fold intake_step es new_intake)) \<le> 1024" by (simp add: intake_inv_def)
  show "i \<notin> set (si_table (intake_step (SessionSettles failed i) (fold intake_step es new_intake)))"
    by (simp add: session_settles_def)
qed

end
