(* ===== verification/Jwt_Tokens.thy ===== *)
theory Jwt_Tokens
  imports Json_Values
begin

text \<open>
  The tokens of the production example (\<open>examples/production/src/jwt-authenticator.ts\<close>): the checks of
  \<open>verifyHs256Jwt\<close> in their order, and the authenticator that the runtime calls. Bytes are natural numbers
  below 256. The base64url coding of Node's \<open>Buffer\<close>, which the code calls, is written out as the
  library defines it. The parameters are the keyed hash (SHA-256 of \<open>node:crypto\<close>), \<open>JSON.parse\<close> of
  decoded UTF-8, and the clock.
\<close>

section \<open>Base64url\<close>

definition alphabet :: string where
  "alphabet = ''ABCDEFGHIJKLMNOPQRSTUVWXYZabcdefghijklmnopqrstuvwxyz0123456789-_''"

definition digit_char :: "nat \<Rightarrow> char" where
  "digit_char n = alphabet ! n"

fun index_of :: "'a \<Rightarrow> 'a list \<Rightarrow> nat option" where
  "index_of x [] = None"
| "index_of x (y # ys) = (if x = y then Some 0 else map_option Suc (index_of x ys))"

definition char_digit :: "char \<Rightarrow> nat option" where
  "char_digit ch = index_of ch alphabet"

text \<open>\<open>bytes.toString('base64url')\<close>.\<close>

fun encode64 :: "nat list \<Rightarrow> string" where
  "encode64 [] = []"
| "encode64 [a] = [digit_char (a div 4), digit_char (a mod 4 * 16)]"
| "encode64 [a, b] = [digit_char (a div 4), digit_char (a mod 4 * 16 + b div 16), digit_char (b mod 16 * 4)]"
| "encode64 (a # b # c # rest) =
     [digit_char (a div 4), digit_char (a mod 4 * 16 + b div 16), digit_char (b mod 16 * 4 + c div 64),
      digit_char (c mod 64)] @ encode64 rest"

text \<open>
  \<open>Buffer.from(text, 'base64url')\<close> on text of the alphabet: four digits make three bytes, bits left
  over at the end are dropped.
\<close>

fun decode_digits :: "nat list \<Rightarrow> nat list" where
  "decode_digits (a # b # c # d # rest) =
     [a * 4 + b div 16, b mod 16 * 16 + c div 4, c mod 4 * 64 + d] @ decode_digits rest"
| "decode_digits [a, b, c] = [a * 4 + b div 16, b mod 16 * 16 + c div 4]"
| "decode_digits [a, b] = [a * 4 + b div 16]"
| "decode_digits _ = []"

definition decode64 :: "string \<Rightarrow> nat list" where
  "decode64 s = decode_digits (map (\<lambda>ch. the (char_digit ch)) s)"

text \<open>The pattern \<open>/^[A-Za-z0-9_-]+$/\<close>.\<close>

definition base64_text :: "string \<Rightarrow> bool" where
  "base64_text s \<longleftrightarrow> s \<noteq> [] \<and> (\<forall>ch \<in> set s. char_digit ch \<noteq> None)"

section \<open>Configuration, principals and errors\<close>

record production_config =
  pc_secret :: string
  pc_issuer :: string
  pc_audience :: string

record jwt_principal =
  jp_user :: string
  jp_roles :: "string list"
  jp_expires :: int

definition max_authorization :: nat where
  "max_authorization = 8 * 1024"

text \<open>The errors of the verification, by message.\<close>

datatype jwt_error =
    MalformedJwt | UnsupportedHeader | SignatureEncoding | InvalidSignature | InvalidClaims
  | SegmentEncoding | SegmentSize | SegmentJson | SegmentNotObject

definition parse_json_object :: "(nat list \<Rightarrow> json option) \<Rightarrow> string \<Rightarrow> jwt_error + (string \<times> json) list" where
  "parse_json_object parse encoded =
     (if \<not> base64_text encoded then Inl SegmentEncoding
      else
        (let bytes = decode64 encoded in
         if bytes = [] \<or> length bytes > max_authorization \<or> encode64 bytes \<noteq> encoded then Inl SegmentSize
         else
           (case parse bytes of
              None \<Rightarrow> Inl SegmentJson
            | Some (JObject entries) \<Rightarrow> Inr entries
            | Some _ \<Rightarrow> Inl SegmentNotObject)))"

definition matches_audience :: "json option \<Rightarrow> string \<Rightarrow> bool" where
  "matches_audience value expected =
     (case value of
        Some (JString s) \<Rightarrow> s = expected
      | Some (JArray xs) \<Rightarrow> JString expected \<in> set xs
      | _ \<Rightarrow> False)"

text \<open>The header the code accepts.\<close>

definition header_supported :: "(string \<times> json) list \<Rightarrow> bool" where
  "header_supported h \<longleftrightarrow>
     member ''alg'' h = Some (JString ''HS256'') \<and>
     (member ''typ'' h = None \<or> member ''typ'' h = Some (JString ''JWT'')) \<and>
     member ''crit'' h = None \<and> member ''b64'' h = None"

text \<open>
  A safe integer whose product with 1000 is safe as well; the product of doubles is exact there, and
  an unsafe product stays unsafe when it is rounded.
\<close>

definition expiry :: "json option \<Rightarrow> int option" where
  "expiry v =
     (case v of
        Some (JNumber x) \<Rightarrow>
          (case safe_int x of
             Some n \<Rightarrow> if \<bar>n * 1000\<bar> \<le> max_safe then Some n else None
           | None \<Rightarrow> None)
      | _ \<Rightarrow> None)"

definition not_before_ok :: "json option \<Rightarrow> int \<Rightarrow> bool" where
  "not_before_ok v now =
     (case v of
        None \<Rightarrow> True
      | Some (JNumber x) \<Rightarrow> (case safe_int x of Some n \<Rightarrow> n \<le> now | None \<Rightarrow> False)
      | _ \<Rightarrow> False)"

definition subject :: "json option \<Rightarrow> string option" where
  "subject v = (case v of Some (JString s) \<Rightarrow> if s = [] then None else Some s | _ \<Rightarrow> None)"

fun string_roles :: "json list \<Rightarrow> string list" where
  "string_roles [] = []"
| "string_roles (JString s # xs) = s # string_roles xs"
| "string_roles (_ # xs) = string_roles xs"

definition roles_of :: "json option \<Rightarrow> string list" where
  "roles_of v = (case v of Some (JArray xs) \<Rightarrow> string_roles xs | _ \<Rightarrow> [])"

text \<open>The checks of the claims, and the principal they make.\<close>

definition check_claims :: "production_config \<Rightarrow> int \<Rightarrow> (string \<times> json) list \<Rightarrow> jwt_error + jwt_principal" where
  "check_claims cfg now claims =
     (if member ''iss'' claims \<noteq> Some (JString (pc_issuer cfg)) \<or>
         \<not> matches_audience (member ''aud'' claims) (pc_audience cfg) then Inl InvalidClaims
      else
        (case (subject (member ''sub'' claims), expiry (member ''exp'' claims)) of
           (Some user, Some expires) \<Rightarrow>
             if expires \<le> now \<or> \<not> not_before_ok (member ''nbf'' claims) now then Inl InvalidClaims
             else Inr \<lparr>jp_user = user, jp_roles = roles_of (member ''roles'' claims), jp_expires = expires * 1000\<rparr>
         | _ \<Rightarrow> Inl InvalidClaims))"

text \<open>\<open>text.split(sep)\<close> for a separator of one character.\<close>

fun split_on :: "char \<Rightarrow> string \<Rightarrow> string list" where
  "split_on sep [] = [[]]"
| "split_on sep (ch # cs) =
     (if ch = sep then [] # split_on sep cs
      else (case split_on sep cs of [] \<Rightarrow> [[ch]] | p # ps \<Rightarrow> (ch # p) # ps))"

definition code_units :: "string \<Rightarrow> nat list" where
  "code_units s = map of_char s"

text \<open>\<open>verifyHs256Jwt\<close>; \<open>ms\<close> is the clock in milliseconds.\<close>

definition verify_jwt ::
  "(nat list \<Rightarrow> nat list \<Rightarrow> nat list) \<Rightarrow> (nat list \<Rightarrow> json option) \<Rightarrow> int \<Rightarrow> production_config \<Rightarrow> string
     \<Rightarrow> jwt_error + jwt_principal" where
  "verify_jwt hmac parse ms cfg token =
     (case split_on (CHR ''.'') token of
        [h, p, sig] \<Rightarrow>
          bindE (parse_json_object parse h) (\<lambda>header.
          bindE (parse_json_object parse p) (\<lambda>claims.
            if \<not> header_supported header then Inl UnsupportedHeader
            else
              (let expected = hmac (code_units (pc_secret cfg)) (code_units (h @ ''.'' @ p)) in
               if \<not> base64_text sig then Inl SignatureEncoding
               else
                 (let signature = decode64 sig in
                  if length signature \<noteq> length expected \<or> encode64 signature \<noteq> sig \<or> signature \<noteq> expected
                  then Inl InvalidSignature
                  else check_claims cfg (ms div 1000) claims))))
      | _ \<Rightarrow> Inl MalformedJwt)"

text \<open>\<open>verifySession\<close>: what the runtime's \<open>authenticate\<close> gets, \<open>None\<close> for \<open>false\<close>.\<close>

definition verify_session ::
  "(nat list \<Rightarrow> nat list \<Rightarrow> nat list) \<Rightarrow> (nat list \<Rightarrow> json option) \<Rightarrow> int \<Rightarrow> production_config \<Rightarrow> string option
     \<Rightarrow> jwt_principal option" where
  "verify_session hmac parse ms cfg authorization =
     (case authorization of
        None \<Rightarrow> None
      | Some a \<Rightarrow>
          if length a > max_authorization \<or> take 7 a \<noteq> ''Bearer '' then None
          else (case verify_jwt hmac parse ms cfg (drop 7 a) of Inr pr \<Rightarrow> Some pr | Inl _ \<Rightarrow> None))"

section \<open>The encoding\<close>

lemma index_of_distinct: "distinct xs \<Longrightarrow> i < length xs \<Longrightarrow> index_of (xs ! i) xs = Some i"
proof (induction xs arbitrary: i)
  case (Cons x xs)
  then show ?case by (cases i) auto
qed simp

lemma index_of_SomeD: "index_of x xs = Some i \<Longrightarrow> i < length xs \<and> xs ! i = x"
  by (induction xs arbitrary: i) (auto split: if_splits)

lemma alphabet_facts: "distinct alphabet" "length alphabet = 64"
  by (simp_all add: alphabet_def)

lemma char_digit_char [simp]: "n < 64 \<Longrightarrow> char_digit (digit_char n) = Some n"
  by (simp add: char_digit_def digit_char_def index_of_distinct alphabet_facts)

lemma char_digitD: "char_digit ch = Some n \<Longrightarrow> n < 64 \<and> digit_char n = ch"
  using index_of_SomeD [of ch alphabet n] by (simp add: char_digit_def digit_char_def alphabet_facts)

lemma decode_encode: "\<forall>b \<in> set bs. b < 256 \<Longrightarrow> decode64 (encode64 bs) = bs"
proof (induction bs rule: encode64.induct)
  case (2 a)
  then have "a div 4 < 64" "a mod 4 * 16 < 64" by auto
  then show ?case by (simp add: decode64_def)
next
  case (3 a b)
  then have r: "a div 4 < 64" "a mod 4 * 16 + b div 16 < 64" "b mod 16 * 4 < 64" by auto
  have "a div 4 * 4 + (a mod 4 * 16 + b div 16) div 16 = a"
    "(a mod 4 * 16 + b div 16) mod 16 * 16 + b mod 16 * 4 div 4 = b" using 3 by auto
  then show ?case using r by (simp add: decode64_def)
next
  case (4 a b c rest)
  then have r: "a div 4 < 64" "a mod 4 * 16 + b div 16 < 64" "b mod 16 * 4 + c div 64 < 64" "c mod 64 < 64" by auto
  with 4 have "decode64 (encode64 rest) = rest" by simp
  moreover have "a div 4 * 4 + (a mod 4 * 16 + b div 16) div 16 = a"
    "(a mod 4 * 16 + b div 16) mod 16 * 16 + (b mod 16 * 4 + c div 64) div 4 = b"
    "(b mod 16 * 4 + c div 64) mod 4 * 64 + c mod 64 = c" using 4 by auto
  ultimately show ?case using r by (simp add: decode64_def)
qed (simp add: decode64_def)

lemma encode_text: "\<forall>b \<in> set bs. b < 256 \<Longrightarrow> \<forall>ch \<in> set (encode64 bs). char_digit ch \<noteq> None"
proof (induction bs rule: encode64.induct)
  case (2 a)
  then have "a div 4 < 64" "a mod 4 * 16 < 64" by auto
  then show ?case by simp
next
  case (3 a b)
  then have "a div 4 < 64" "a mod 4 * 16 + b div 16 < 64" "b mod 16 * 4 < 64" by auto
  then show ?case by simp
next
  case (4 a b c rest)
  then have "a div 4 < 64" "a mod 4 * 16 + b div 16 < 64" "b mod 16 * 4 + c div 64 < 64" "c mod 64 < 64" by auto
  with 4 show ?case by simp
qed simp

lemma encode_empty [simp]: "encode64 bs = [] \<longleftrightarrow> bs = []"
  by (cases bs rule: encode64.cases) simp_all

lemma decode_digits_bytes: "\<forall>d \<in> set ds. d < 64 \<Longrightarrow> b \<in> set (decode_digits ds) \<Longrightarrow> b < 256"
  by (induction ds rule: decode_digits.induct) auto

lemma decode_bytes: "base64_text s \<Longrightarrow> \<forall>b \<in> set (decode64 s). b < 256"
  unfolding decode64_def
  by (intro ballI, rule decode_digits_bytes [rotated], assumption) (auto simp: base64_text_def dest!: char_digitD)

text \<open>
  What the code accepts as a segment or a signature: the base64 text of bytes, as \<open>Buffer\<close> writes it.
\<close>

lemma canonical_text:
  "base64_text s \<and> encode64 (decode64 s) = s \<longleftrightarrow>
   (\<exists>bs. (\<forall>b \<in> set bs. b < 256) \<and> bs \<noteq> [] \<and> s = encode64 bs)"
proof
  assume a: "base64_text s \<and> encode64 (decode64 s) = s"
  then have "decode64 s \<noteq> []" using encode_empty by (auto simp: base64_text_def)
  with a decode_bytes show "\<exists>bs. (\<forall>b \<in> set bs. b < 256) \<and> bs \<noteq> [] \<and> s = encode64 bs" by metis
next
  assume "\<exists>bs. (\<forall>b \<in> set bs. b < 256) \<and> bs \<noteq> [] \<and> s = encode64 bs"
  then show "base64_text s \<and> encode64 (decode64 s) = s"
    using decode_encode encode_text by (auto simp: base64_text_def)
qed

lemma dot_not_digit: "char_digit (CHR ''.'') = None"
  by code_simp

section \<open>The verification\<close>

lemma split_on_nonempty: "split_on sep s \<noteq> []"
  by (cases s) (auto split: list.split)

lemma split_on_three:
  "split_on sep s = [a, b, c] \<longleftrightarrow>
   s = a @ sep # b @ sep # c \<and> sep \<notin> set a \<and> sep \<notin> set b \<and> sep \<notin> set c"
proof -
  have one: "split_on sep s = [c] \<longleftrightarrow> s = c \<and> sep \<notin> set c" for s c
  proof (induction s arbitrary: c)
    case (Cons ch cs)
    obtain q qs where q: "split_on sep cs = q # qs" using split_on_nonempty [of sep cs] by (cases "split_on sep cs") auto
    with Cons.IH [of q] Cons.IH [of "tl c"] show ?case by (cases c) auto
  qed auto
  have more: "split_on sep s = a # p # ps \<longleftrightarrow> (\<exists>t. s = a @ sep # t \<and> sep \<notin> set a \<and> split_on sep t = p # ps)"
    for s a p ps
  proof (induction s arbitrary: a)
    case (Cons ch cs)
    show ?case
    proof (cases "ch = sep")
      case True
      then show ?thesis by (cases a) (auto intro: arg_cong)
    next
      case False
      then have "split_on sep (ch # cs) = a # p # ps \<longleftrightarrow>
          (\<exists>a'. a = ch # a' \<and> split_on sep cs = a' # p # ps)"
        by (auto split: list.splits)
      also have "\<dots> \<longleftrightarrow> (\<exists>t. ch # cs = a @ sep # t \<and> sep \<notin> set a \<and> split_on sep t = p # ps)"
        unfolding Cons.IH using False by (auto simp: Cons_eq_append_conv)
      finally show ?thesis .
    qed
  qed simp
  show ?thesis unfolding more one by auto
qed

lemma segment_exact:
  "parse_json_object parse s = Inr entries \<longleftrightarrow>
   (\<exists>bs. (\<forall>b \<in> set bs. b < 256) \<and> bs \<noteq> [] \<and> length bs \<le> 8192 \<and> s = encode64 bs \<and> parse bs = Some (JObject entries))"
proof -
  have "parse_json_object parse s = Inr entries \<longleftrightarrow>
      (base64_text s \<and> encode64 (decode64 s) = s) \<and> decode64 s \<noteq> [] \<and> length (decode64 s) \<le> 8192 \<and>
      parse (decode64 s) = Some (JObject entries)"
    by (auto simp: parse_json_object_def max_authorization_def Let_def split: option.splits json.splits)
  also have "\<dots> \<longleftrightarrow> (\<exists>bs. (\<forall>b \<in> set bs. b < 256) \<and> bs \<noteq> [] \<and> length bs \<le> 8192 \<and> s = encode64 bs \<and>
      parse bs = Some (JObject entries))"
    unfolding canonical_text using decode_encode by metis
  finally show ?thesis .
qed

lemma matches_audience_iff:
  "matches_audience v a \<longleftrightarrow> v = Some (JString a) \<or> (\<exists>xs. v = Some (JArray xs) \<and> JString a \<in> set xs)"
  by (auto simp: matches_audience_def split: option.splits json.splits)

lemma expiry_iff:
  "expiry v = Some n \<longleftrightarrow> v = Some (JNumber (js_int n)) \<and> \<bar>n * 1000\<bar> \<le> max_safe"
proof
  assume "expiry v = Some n"
  then show "v = Some (JNumber (js_int n)) \<and> \<bar>n * 1000\<bar> \<le> max_safe"
    by (auto simp: expiry_def split: option.splits json.splits if_splits dest!: safe_intD)
next
  assume "v = Some (JNumber (js_int n)) \<and> \<bar>n * 1000\<bar> \<le> max_safe"
  moreover from this have "\<bar>n\<bar> \<le> max_safe" by linarith
  ultimately show "expiry v = Some n" by (simp add: expiry_def)
qed

lemma not_before_iff:
  "not_before_ok v now \<longleftrightarrow> v = None \<or> (\<exists>n. v = Some (JNumber (js_int n)) \<and> \<bar>n\<bar> \<le> max_safe \<and> n \<le> now)"
proof
  assume "not_before_ok v now"
  then show "v = None \<or> (\<exists>n. v = Some (JNumber (js_int n)) \<and> \<bar>n\<bar> \<le> max_safe \<and> n \<le> now)"
    by (cases v) (auto simp: not_before_ok_def split: json.splits option.splits dest!: safe_intD)
qed (auto simp: not_before_ok_def)

lemma subject_iff: "subject v = Some s \<longleftrightarrow> v = Some (JString s) \<and> s \<noteq> []"
  by (auto simp: subject_def split: option.splits json.splits)

lemma string_roles_filter: "string_roles xs = [s. JString s \<leftarrow> xs]"
  by (induction xs rule: string_roles.induct) simp_all

lemma claims_exact:
  "check_claims cfg now claims = Inr pr \<longleftrightarrow>
    (\<exists>expires.
       member ''iss'' claims = Some (JString (pc_issuer cfg)) \<and>
       (member ''aud'' claims = Some (JString (pc_audience cfg)) \<or>
        (\<exists>xs. member ''aud'' claims = Some (JArray xs) \<and> JString (pc_audience cfg) \<in> set xs)) \<and>
       member ''sub'' claims = Some (JString (jp_user pr)) \<and> jp_user pr \<noteq> [] \<and>
       member ''exp'' claims = Some (JNumber (js_int expires)) \<and> \<bar>expires * 1000\<bar> \<le> max_safe \<and> now < expires \<and>
       (member ''nbf'' claims = None \<or>
        (\<exists>n. member ''nbf'' claims = Some (JNumber (js_int n)) \<and> \<bar>n\<bar> \<le> max_safe \<and> n \<le> now)) \<and>
       jp_roles pr = (case member ''roles'' claims of Some (JArray xs) \<Rightarrow> [s. JString s \<leftarrow> xs] | _ \<Rightarrow> []) \<and>
       jp_expires pr = expires * 1000)"
proof -
  have "check_claims cfg now claims = Inr pr \<longleftrightarrow>
      member ''iss'' claims = Some (JString (pc_issuer cfg)) \<and>
      matches_audience (member ''aud'' claims) (pc_audience cfg) \<and>
      (\<exists>user expires. subject (member ''sub'' claims) = Some user \<and> expiry (member ''exp'' claims) = Some expires \<and>
         now < expires \<and> not_before_ok (member ''nbf'' claims) now \<and>
         pr = \<lparr>jp_user = user, jp_roles = roles_of (member ''roles'' claims), jp_expires = expires * 1000\<rparr>)"
    by (auto simp: check_claims_def split: option.splits)
  then show ?thesis
    unfolding matches_audience_iff not_before_iff subject_iff expiry_iff roles_of_def string_roles_filter
    by (cases pr) auto
qed

text \<open>
  C22. What the authenticator accepts, for every Authorization header: a principal comes out exactly
  when the header is at most 8192 characters long and consists of the bearer scheme and three segments that
  are canonical, unpadded base64url texts of non-empty bytes; the first two segments are JSON objects; the first
  names the algorithm HS256, no type other than JWT, and no critical or unencoded-payload extension;
  the third is the keyed hash of the signed text; and the claims name the configured issuer and audience,
  a non-empty subject, an expiry in the future, and no start in the future, both times
  being safe integers (the expiry in milliseconds as well). The principal has that subject, those roles
  that are strings, and that expiry. The hypothesis is that a keyed hash is a non-empty list of bytes.
\<close>

theorem jwt_accepted_exact:
  assumes bytes: "\<forall>k t. \<forall>b \<in> set (hmac k t). b < 256" and some: "\<forall>k t. hmac k t \<noteq> []"
  shows "verify_session hmac parse ms cfg authorization = Some pr \<longleftrightarrow>
    (\<exists>hb pb header claims expires.
       (\<forall>b \<in> set hb \<union> set pb. b < 256) \<and> hb \<noteq> [] \<and> pb \<noteq> [] \<and> length hb \<le> 8192 \<and> length pb \<le> 8192 \<and>
       parse hb = Some (JObject header) \<and> parse pb = Some (JObject claims) \<and>
       member ''alg'' header = Some (JString ''HS256'') \<and>
       (member ''typ'' header = None \<or> member ''typ'' header = Some (JString ''JWT'')) \<and>
       member ''crit'' header = None \<and> member ''b64'' header = None \<and>
       member ''iss'' claims = Some (JString (pc_issuer cfg)) \<and>
       (member ''aud'' claims = Some (JString (pc_audience cfg)) \<or>
        (\<exists>xs. member ''aud'' claims = Some (JArray xs) \<and> JString (pc_audience cfg) \<in> set xs)) \<and>
       member ''sub'' claims = Some (JString (jp_user pr)) \<and> jp_user pr \<noteq> [] \<and>
       member ''exp'' claims = Some (JNumber (js_int expires)) \<and> \<bar>expires * 1000\<bar> \<le> max_safe \<and>
       ms div 1000 < expires \<and>
       (member ''nbf'' claims = None \<or>
        (\<exists>n. member ''nbf'' claims = Some (JNumber (js_int n)) \<and> \<bar>n\<bar> \<le> max_safe \<and> n \<le> ms div 1000)) \<and>
       jp_roles pr = (case member ''roles'' claims of Some (JArray xs) \<Rightarrow> [s. JString s \<leftarrow> xs] | _ \<Rightarrow> []) \<and>
       jp_expires pr = expires * 1000 \<and>
       (let signed = encode64 hb @ ''.'' @ encode64 pb;
            token = signed @ ''.'' @ encode64 (hmac (code_units (pc_secret cfg)) (code_units signed))
        in authorization = Some (''Bearer '' @ token) \<and> 7 + length token \<le> 8192))"
proof -
  let ?sig = "\<lambda>h p. hmac (code_units (pc_secret cfg)) (code_units (h @ ''.'' @ p))"
  have dot: "CHR ''.'' \<notin> set s" if "base64_text s" for s
    using that dot_not_digit by (auto simp: base64_text_def)
  have seg: "base64_text s" if "parse_json_object parse s = Inr x" for s x
    using that by (auto simp: parse_json_object_def split: if_splits)
  have sign: "base64_text sig \<and> length (decode64 sig) = length e \<and> encode64 (decode64 sig) = sig \<and> decode64 sig = e \<longleftrightarrow>
      sig = encode64 e" if "e = hmac k t" for sig e k t
    using that bytes some decode_encode [of e] encode_text [of e] by (auto simp: base64_text_def)
  have verify: "verify_jwt hmac parse ms cfg token = Inr pr \<longleftrightarrow>
      (\<exists>h p header claims. parse_json_object parse h = Inr header \<and> parse_json_object parse p = Inr claims \<and>
         header_supported header \<and> check_claims cfg (ms div 1000) claims = Inr pr \<and>
         token = (h @ ''.'' @ p) @ ''.'' @ encode64 (?sig h p))"
    (is "_ \<longleftrightarrow> ?R") for token
  proof
    assume "verify_jwt hmac parse ms cfg token = Inr pr"
    then obtain h p sig header claims where s: "split_on (CHR ''.'') token = [h, p, sig]"
      and j: "parse_json_object parse h = Inr header" "parse_json_object parse p = Inr claims"
      and ok: "header_supported header" "check_claims cfg (ms div 1000) claims = Inr pr"
      and g: "base64_text sig \<and> length (decode64 sig) = length (?sig h p) \<and>
        encode64 (decode64 sig) = sig \<and> decode64 sig = ?sig h p"
      by (auto simp: verify_jwt_def bindE_Inr_iff Let_def split: list.splits if_splits)
    from s j ok g [unfolded sign [OF refl]] show ?R by (auto simp: split_on_three)
  next
    assume ?R
    then obtain h p header claims where
      r: "parse_json_object parse h = Inr header" "parse_json_object parse p = Inr claims"
        "header_supported header" "check_claims cfg (ms div 1000) claims = Inr pr"
      and t: "token = (h @ ''.'' @ p) @ ''.'' @ encode64 (?sig h p)"
      by blast
    let ?e = "?sig h p"
    have g: "base64_text (encode64 ?e)" "encode64 (decode64 (encode64 ?e)) = encode64 ?e" "decode64 (encode64 ?e) = ?e"
      using sign [OF refl, of "encode64 ?e"] by blast+
    have "split_on (CHR ''.'') token = [h, p, encode64 ?e]"
      unfolding split_on_three t using dot [OF g(1)] dot [OF seg [OF r(1)]] dot [OF seg [OF r(2)]] by simp
    with r g show "verify_jwt hmac parse ms cfg token = Inr pr"
      by (simp add: verify_jwt_def Let_def)
  qed
  have "verify_session hmac parse ms cfg authorization = Some pr \<longleftrightarrow>
      (\<exists>token. authorization = Some (''Bearer '' @ token) \<and> 7 + length token \<le> 8192 \<and>
         verify_jwt hmac parse ms cfg token = Inr pr)"
    (is "_ \<longleftrightarrow> ?R")
  proof
    assume "verify_session hmac parse ms cfg authorization = Some pr"
    then obtain a where a: "authorization = Some a" "length a \<le> 8192" "take 7 a = ''Bearer ''"
      "verify_jwt hmac parse ms cfg (drop 7 a) = Inr pr"
      by (auto simp: verify_session_def max_authorization_def split: option.splits if_splits sum.splits)
    then obtain token where t: "a = ''Bearer '' @ token" "drop 7 a = token" by (metis append_take_drop_id)
    then have "length a = 7 + length token" by simp
    with a t show ?R by metis
  qed (auto simp: verify_session_def max_authorization_def)
  then show ?thesis unfolding verify segment_exact header_supported_def claims_exact Let_def ball_Un by blast
qed

definition example_parse :: "nat list \<Rightarrow> json option" where
  "example_parse bytes =
     (if bytes = [104] then Some (JObject [(''alg'', JString ''HS256'')])
      else Some (JObject [(''iss'', JString ''issuer''), (''aud'', JArray [JString ''app'']), (''sub'', JString ''u1''),
        (''exp'', JNumber (js_int 100)), (''roles'', JArray [JString ''admin'', JNull])]))"

definition example_production :: production_config where
  "example_production = \<lparr>pc_secret = ''k'', pc_issuer = ''issuer'', pc_audience = ''app''\<rparr>"

lemma example_lengths: "length (encode64 [104]) = 2" "length (encode64 [112]) = 2" "length (encode64 [1, 2]) = 3"
  by simp_all

theorem jwt_accepted_exact_witness:
  "verify_session (\<lambda>_ _. [1, 2]) example_parse 5000 example_production
   (Some (''Bearer '' @ (encode64 [104] @ ''.'' @ encode64 [112]) @ ''.'' @ encode64 [1, 2])) =
   Some \<lparr>jp_user = ''u1'', jp_roles = [''admin''], jp_expires = 100000\<rparr>"
proof (rule jwt_accepted_exact [THEN iffD2], goal_cases)
  case 3
  show ?case
    by (intro exI [of _ "[104]"] exI [of _ "[112]"] exI [of _ "[(''alg'', JString ''HS256'')]"]
        exI [of _ "[(''iss'', JString ''issuer''), (''aud'', JArray [JString ''app'']), (''sub'', JString ''u1''),
        (''exp'', JNumber (js_int 100)), (''roles'', JArray [JString ''admin'', JNull])]"] exI [of _ 100])
      (simp add: example_parse_def example_production_def member_def max_safe_def Let_def del: encode64.simps,
       simp add: example_lengths)
qed simp_all

end
