(* ===== verification/Example_Config.thy ===== *)
theory Example_Config
  imports Jwt_Tokens
begin

text \<open>
  The configurations of the three examples, read from environment variables
  (\<open>examples/basic/src/config.ts\<close>, \<open>examples/production/src/config.ts\<close>, \<open>examples/web-demo/src/config.ts\<close>).
  A failure is the message of the error, in the order in which the code checks. \<open>parse\<close> is the URL
  parser, \<open>number\<close> the conversion of a string to a number, \<open>resolve\<close> that of a path to an absolute one.
\<close>

section \<open>Strings\<close>

definition is_space :: "char \<Rightarrow> bool" where
  "is_space ch = (let n = (of_char ch :: nat) in n = 32 \<or> 9 \<le> n \<and> n \<le> 13 \<or> n = 160)"

definition trim :: "string \<Rightarrow> string" where
  "trim s = rev (dropWhile is_space (rev (dropWhile is_space s)))"

text \<open>The length of the UTF-8 encoding of single-byte characters.\<close>

definition utf8_length :: "string \<Rightarrow> nat" where
  "utf8_length s = sum_list (map (\<lambda>ch. if (of_char ch :: nat) < 128 then 1 else 2) s)"

definition lower :: "char \<Rightarrow> char" where
  "lower ch = (let n = (of_char ch :: nat) in if 65 \<le> n \<and> n \<le> 90 then char_of (n + 32) else ch)"

definition has_prefix :: "string \<Rightarrow> string \<Rightarrow> bool" where
  "has_prefix p s \<longleftrightarrow> take (length p) s = p"

record url_parts =
  ur_protocol :: string
  ur_hostname :: string
  ur_port :: string
  ur_pathname :: string
  ur_search :: string
  ur_hash :: string
  ur_origin :: string
  ur_username :: string
  ur_password :: string
  ur_text :: string

type_synonym environment = "string \<Rightarrow> string option"

definition required :: "environment \<Rightarrow> string \<Rightarrow> string + string" where
  "required env name =
     (case map_option trim (env name) of
        Some (ch # cs) \<Rightarrow> Inr (ch # cs)
      | _ \<Rightarrow> Inl (name @ '' must be set.''))"

text \<open>\<open>environment.NAME?.trim() || fallback\<close>.\<close>

definition trimmed_or :: "string \<Rightarrow> string option \<Rightarrow> string" where
  "trimmed_or fallback v = (case map_option trim v of Some (ch # cs) \<Rightarrow> ch # cs | _ \<Rightarrow> fallback)"

definition default_to :: "'a \<Rightarrow> 'a option \<Rightarrow> 'a" where
  "default_to d v = (case v of Some x \<Rightarrow> x | None \<Rightarrow> d)"

definition parse_port :: "(string \<Rightarrow> js_number) \<Rightarrow> string \<Rightarrow> string \<Rightarrow> string + int" where
  "parse_port number value name =
     (case safe_int (number value) of
        Some n \<Rightarrow> if n < 1 \<or> n > 65535 then Inl (name @ '' must be an integer between 1 and 65535.'') else Inr n
      | None \<Rightarrow> Inl (name @ '' must be an integer between 1 and 65535.''))"

text \<open>\<open>[...new Set(xs)]\<close>.\<close>

definition unique :: "'a list \<Rightarrow> 'a list" where
  "unique xs = fold js_add xs []"

lemma unique_set [simp]: "set (unique xs) = set xs" "distinct (unique xs)"
proof -
  have "set (fold js_add xs ys) = set ys \<union> set xs \<and> (distinct ys \<longrightarrow> distinct (fold js_add xs ys))" for ys :: "'a list"
    by (induction xs arbitrary: ys) auto
  from this [of "[]"] show "set (unique xs) = set xs" "distinct (unique xs)" by (simp_all add: unique_def)
qed

section \<open>The web demo\<close>

record web_demo_config =
  wd_http_host :: string
  wd_http_port :: int
  wd_page_origins :: "string list"
  wd_host :: string
  wd_port :: int
  wd_public_url :: string
  wd_certificate :: string
  wd_key :: string
  wd_sha256 :: "string option"
  wd_token :: string

definition parse_origin :: "(string \<Rightarrow> url_parts option) \<Rightarrow> string \<Rightarrow> string \<Rightarrow> string + string" where
  "parse_origin parse value name =
     (case parse value of
        None \<Rightarrow> Inl (name @ '' must be a valid HTTP(S) Origin.'')
      | Some u \<Rightarrow>
          if ur_protocol u \<notin> {''http:'', ''https:''} \<or> ur_origin u \<noteq> value \<or> ur_pathname u \<noteq> ''/'' \<or> ur_search u \<noteq> [] \<or>
             ur_hash u \<noteq> [] then Inl (name @ '' must be an exact Origin without a path or trailing slash.'')
          else Inr (ur_origin u))"

definition invalid_url :: string where
  "invalid_url = ''Invalid URL''"

definition parse_page_origins ::
  "(string \<Rightarrow> url_parts option) \<Rightarrow> environment \<Rightarrow> int \<Rightarrow> string + string list" where
  "parse_page_origins parse env http_port =
     (case map_option trim (env ''WEB_DEMO_PAGE_ORIGINS'') of
        Some (ch # cs) \<Rightarrow>
          bindE (mapE (\<lambda>value. parse_origin parse (trim value) ''WEB_DEMO_PAGE_ORIGINS'') (split_on (CHR '','') (ch # cs)))
            (\<lambda>origins. Inr (unique origins))
      | _ \<Rightarrow>
          bindE (parse_origin parse (default_to (''http://127.0.0.1:'' @ show_int http_port) (env ''WEB_DEMO_PAGE_ORIGIN''))
              ''WEB_DEMO_PAGE_ORIGIN'')
            (\<lambda>configured.
              (case parse configured of
                 None \<Rightarrow> Inl invalid_url
               | Some u \<Rightarrow>
                   if ur_hostname u \<noteq> ''127.0.0.1'' \<and> ur_hostname u \<noteq> ''localhost'' then Inr [configured]
                   else
                     (let port = (if ur_port u \<noteq> [] then '':'' @ ur_port u else []) in
                      Inr [ur_protocol u @ ''//127.0.0.1'' @ port, ur_protocol u @ ''//localhost'' @ port]))))"

definition hex_lower :: "char \<Rightarrow> bool" where
  "hex_lower ch = (let n = (of_char ch :: nat) in 48 \<le> n \<and> n \<le> 57 \<or> 97 \<le> n \<and> n \<le> 102)"

definition parse_sha256 :: "string option \<Rightarrow> string + string option" where
  "parse_sha256 v =
     (case map_option (map lower \<circ> trim) v of
        None \<Rightarrow> Inr None
      | Some h \<Rightarrow>
          if h \<noteq> [] \<and> \<not> (length h = 64 \<and> list_all hex_lower h) then
            Inl ''WEBTRANSPORT_CERT_SHA256 must be a 64-character SHA-256 hex value.''
          else Inr (if h = [] then None else Some h))"

definition load_web_demo_config ::
  "(string \<Rightarrow> url_parts option) \<Rightarrow> (string \<Rightarrow> js_number) \<Rightarrow> (string \<Rightarrow> string) \<Rightarrow> environment \<Rightarrow> string + web_demo_config" where
  "load_web_demo_config parse number resolve env =
     bindE (parse_port number (default_to ''3000'' (env ''WEB_DEMO_HTTP_PORT'')) ''WEB_DEMO_HTTP_PORT'') (\<lambda>http_port.
     bindE (parse_page_origins parse env http_port) (\<lambda>origins.
     bindE (parse_port number (default_to ''4433'' (env ''WEBTRANSPORT_PORT'')) ''WEBTRANSPORT_PORT'') (\<lambda>port.
     (case parse (default_to (''https://127.0.0.1:'' @ show_int port @ ''/demo'') (env ''WEBTRANSPORT_PUBLIC_URL'')) of
        None \<Rightarrow> Inl invalid_url
      | Some url \<Rightarrow>
          if ur_protocol url \<noteq> ''https:'' \<or> ur_pathname url \<noteq> ''/demo'' then
            Inl ''WEBTRANSPORT_PUBLIC_URL must be an HTTPS URL ending in /demo.''
          else
            bindE (required env ''WEBTRANSPORT_AUTH_TOKEN'') (\<lambda>token.
              if utf8_length token < 32 then Inl ''WEBTRANSPORT_AUTH_TOKEN must contain at least 32 UTF-8 bytes.''
              else
                bindE (parse_sha256 (env ''WEBTRANSPORT_CERT_SHA256'')) (\<lambda>sha.
                bindE (required env ''WEBTRANSPORT_TLS_CERT_PATH'') (\<lambda>certificate.
                bindE (required env ''WEBTRANSPORT_TLS_KEY_PATH'') (\<lambda>key.
                  Inr \<lparr>wd_http_host = trimmed_or ''127.0.0.1'' (env ''WEB_DEMO_HTTP_HOST''), wd_http_port = http_port,
                       wd_page_origins = origins, wd_host = trimmed_or ''0.0.0.0'' (env ''WEBTRANSPORT_HOST''),
                       wd_port = port, wd_public_url = ur_text url, wd_certificate = resolve certificate,
                       wd_key = resolve key, wd_sha256 = sha, wd_token = token\<rparr>))))))))"

section \<open>The production example\<close>

record production_environment =
  pe_host :: string
  pe_port :: int
  pe_certificate :: string
  pe_key :: string
  pe_origins :: "string list"
  pe_jwt :: production_config
  pe_redis :: string
  pe_operations_host :: string
  pe_operations_port :: int

text \<open>\<open>parsed.hostname.includes('*')\<close> is membership of the character.\<close>

definition production_origin :: "(string \<Rightarrow> url_parts option) \<Rightarrow> string \<Rightarrow> bool" where
  "production_origin parse origin =
     (case parse origin of
        None \<Rightarrow> False
      | Some u \<Rightarrow> ur_protocol u = ''https:'' \<and> ur_origin u = origin \<and> CHR ''*'' \<notin> set (ur_hostname u))"

text \<open>The pattern of placeholder secrets, without regard to case.\<close>

definition placeholder_secret :: "string \<Rightarrow> bool" where
  "placeholder_secret secret =
     (let s = map lower secret in
      (\<exists>word \<in> {''replace'', ''change''}. \<exists>sep \<in> {[], ''-'', ''_'', '' ''}. has_prefix (word @ sep @ ''me'') s) \<or>
      has_prefix ''replace-with'' s)"

definition load_production_config ::
  "(string \<Rightarrow> url_parts option) \<Rightarrow> (string \<Rightarrow> js_number) \<Rightarrow> environment \<Rightarrow> string + production_environment" where
  "load_production_config parse number env =
     bindE (required env ''WEBTRANSPORT_ALLOWED_ORIGINS'') (\<lambda>listed.
       let origins = filter (\<lambda>x. x \<noteq> []) (map trim (split_on (CHR '','') listed)) in
       if origins = [] then Inl ''WEBTRANSPORT_ALLOWED_ORIGINS must contain at least one Origin.''
       else if \<not> list_all (production_origin parse) origins then
         Inl ''WEBTRANSPORT_ALLOWED_ORIGINS must contain exact HTTPS origins.''
       else
         bindE (required env ''WEBTRANSPORT_JWT_SECRET'') (\<lambda>secret.
           if utf8_length secret < 32 then Inl ''WEBTRANSPORT_JWT_SECRET must contain at least 32 UTF-8 bytes.''
           else if placeholder_secret secret then
             Inl ''WEBTRANSPORT_JWT_SECRET must be replaced with a randomly generated secret.''
           else
             bindE (required env ''REDIS_URL'') (\<lambda>redis.
               if (case parse redis of
                     None \<Rightarrow> True
                   | Some u \<Rightarrow> ur_protocol u \<notin> {''redis:'', ''rediss:''} \<or> ur_hostname u = []) then
                 Inl ''REDIS_URL must be a redis:// or rediss:// URL.''
               else
                 bindE (parse_port number (default_to ''4433'' (env ''WEBTRANSPORT_PORT'')) ''WEBTRANSPORT_PORT'') (\<lambda>port.
                 bindE (required env ''WEBTRANSPORT_CERT_PATH'') (\<lambda>certificate.
                 bindE (required env ''WEBTRANSPORT_KEY_PATH'') (\<lambda>key.
                 bindE (required env ''WEBTRANSPORT_JWT_ISSUER'') (\<lambda>issuer.
                 bindE (required env ''WEBTRANSPORT_JWT_AUDIENCE'') (\<lambda>audience.
                 bindE (parse_port number (default_to ''3000'' (env ''OPERATIONS_PORT'')) ''OPERATIONS_PORT'') (\<lambda>operations.
                   Inr \<lparr>pe_host = trimmed_or ''0.0.0.0'' (env ''WEBTRANSPORT_HOST''), pe_port = port,
                        pe_certificate = certificate, pe_key = key, pe_origins = unique origins,
                        pe_jwt = \<lparr>pc_secret = secret, pc_issuer = issuer, pc_audience = audience\<rparr>,
                        pe_redis = redis, pe_operations_host = trimmed_or ''127.0.0.1'' (env ''OPERATIONS_HOST''),
                        pe_operations_port = operations\<rparr>)))))))))"

section \<open>The basic example\<close>

record basic_config =
  bc_host :: string
  bc_port :: int
  bc_certificate :: string
  bc_key :: string
  bc_origins :: "string list"
  bc_authorization :: string

definition basic_origin :: "(string \<Rightarrow> url_parts option) \<Rightarrow> string \<Rightarrow> string + unit" where
  "basic_origin parse origin =
     (case parse origin of
        None \<Rightarrow> Inl (''WEBTRANSPORT_ALLOWED_ORIGINS contains an invalid Origin: '' @ origin)
      | Some u \<Rightarrow>
          if ur_protocol u \<noteq> ''https:'' \<and> ur_protocol u \<noteq> ''http:'' \<or> ur_origin u \<noteq> origin \<or> ur_username u \<noteq> [] \<or>
             ur_password u \<noteq> [] then
            Inl (''WEBTRANSPORT_ALLOWED_ORIGINS must use canonical HTTP(S) origins without paths: '' @ origin)
          else Inr ())"

definition parse_allowed_origins :: "(string \<Rightarrow> url_parts option) \<Rightarrow> string \<Rightarrow> string + string list" where
  "parse_allowed_origins parse value =
     (let origins = unique (filter (\<lambda>x. x \<noteq> []) (map trim (split_on (CHR '','') value))) in
      if origins = [] then Inl ''WEBTRANSPORT_ALLOWED_ORIGINS must contain at least one exact Origin.''
      else bindE (mapE (basic_origin parse) origins) (\<lambda>_. Inr origins))"

definition build_authorization_header :: "string \<Rightarrow> string + string" where
  "build_authorization_header token =
     (if length token < 32 then Inl ''WEBTRANSPORT_AUTH_TOKEN must contain at least 32 characters.''
      else Inr (''Bearer '' @ token))"

definition load_basic_config ::
  "(string \<Rightarrow> url_parts option) \<Rightarrow> (string \<Rightarrow> js_number) \<Rightarrow> environment \<Rightarrow> string + basic_config" where
  "load_basic_config parse number env =
     bindE (parse_port number (trimmed_or ''4433'' (env ''WEBTRANSPORT_PORT'')) ''WEBTRANSPORT_PORT'') (\<lambda>port.
     bindE (required env ''WEBTRANSPORT_TLS_CERT_PATH'') (\<lambda>certificate.
     bindE (required env ''WEBTRANSPORT_TLS_KEY_PATH'') (\<lambda>key.
     bindE (bindE (required env ''WEBTRANSPORT_ALLOWED_ORIGINS'') (parse_allowed_origins parse)) (\<lambda>origins.
     bindE (bindE (required env ''WEBTRANSPORT_AUTH_TOKEN'') build_authorization_header) (\<lambda>header.
       Inr \<lparr>bc_host = trimmed_or ''0.0.0.0'' (env ''WEBTRANSPORT_HOST''), bc_port = port, bc_certificate = certificate,
            bc_key = key, bc_origins = origins, bc_authorization = header\<rparr>)))))"

text \<open>\<open>authorizationMatches\<close>: the comparison of bytes of equal length.\<close>

definition authorization_matches :: "string option \<Rightarrow> string \<Rightarrow> bool" where
  "authorization_matches actual expected =
     (case actual of
        None \<Rightarrow> False
      | Some a \<Rightarrow> utf8_length a = utf8_length expected \<and> length a = length expected \<and> list_all (\<lambda>(x, y). x = y) (zip a expected))"

section \<open>What a loaded configuration satisfies\<close>

lemma parse_portD: "parse_port number value name = Inr n \<Longrightarrow> 1 \<le> n \<and> n \<le> 65535"
  by (auto simp: parse_port_def split: option.splits if_splits)

lemma requiredD: "required env name = Inr v \<Longrightarrow> v \<noteq> [] \<and> map_option trim (env name) = Some v"
  by (auto simp: required_def split: option.splits list.splits)

lemma parse_originD:
  "parse_origin parse value name = Inr x \<Longrightarrow>
   x = value \<and> (\<exists>u. parse value = Some u \<and> ur_origin u = value \<and> ur_protocol u \<in> {''http:'', ''https:''})"
  by (auto simp: parse_origin_def split: option.splits if_splits)

lemma parse_page_origins_nonempty:
  assumes "parse_page_origins parse env port = Inr origins"
  shows "origins \<noteq> []"
proof (cases "\<exists>ch cs. map_option trim (env ''WEB_DEMO_PAGE_ORIGINS'') = Some (ch # cs)")
  case True
  then obtain ch cs where "map_option trim (env ''WEB_DEMO_PAGE_ORIGINS'') = Some (ch # cs)" by blast
  with assms obtain os where o: "mapE (\<lambda>value. parse_origin parse (trim value) ''WEB_DEMO_PAGE_ORIGINS'')
      (split_on (CHR '','') (ch # cs)) = Inr os" "origins = unique os"
    by (auto simp: parse_page_origins_def bindE_Inr_iff)
  from mapE_Inr_length [OF o(1)] have "os \<noteq> []" using split_on_nonempty [of "CHR '',''" "ch # cs"] by auto
  then show ?thesis using o(2) unique_set(1) [of os] by (metis set_empty)
next
  case False
  with assms show ?thesis
    by (auto simp: parse_page_origins_def bindE_Inr_iff Let_def split: option.splits list.splits if_splits)
qed

lemma sha256D: "parse_sha256 v = Inr (Some h) \<Longrightarrow> length h = 64 \<and> list_all hex_lower h"
  by (auto simp: parse_sha256_def split: option.splits if_splits)

text \<open>
  A configuration of the web demo that loads is safe to serve: both ports are valid, there is an origin
  to serve, the public address is HTTPS under \<open>/demo\<close>, the token has at least 32 bytes, the certificate and
  its key are named, and a certificate hash, if one is given, is 64 lower-case hexadecimal digits.
\<close>

theorem web_demo_config_sound:
  assumes "load_web_demo_config parse number resolve env = Inr cfg"
  shows "1 \<le> wd_http_port cfg \<and> wd_http_port cfg \<le> 65535 \<and> 1 \<le> wd_port cfg \<and> wd_port cfg \<le> 65535 \<and>
    wd_page_origins cfg \<noteq> [] \<and> 32 \<le> utf8_length (wd_token cfg) \<and>
    (\<exists>text u. parse text = Some u \<and> ur_protocol u = ''https:'' \<and> ur_pathname u = ''/demo'' \<and> wd_public_url cfg = ur_text u) \<and>
    (\<exists>p \<noteq> []. wd_certificate cfg = resolve p) \<and> (\<exists>p \<noteq> []. wd_key cfg = resolve p) \<and>
    (\<forall>h. wd_sha256 cfg = Some h \<longrightarrow> length h = 64 \<and> list_all hex_lower h)"
proof -
  obtain http_port origins port url token sha certificate key where r:
    "parse_port number (default_to ''3000'' (env ''WEB_DEMO_HTTP_PORT'')) ''WEB_DEMO_HTTP_PORT'' = Inr http_port"
    "parse_page_origins parse env http_port = Inr origins"
    "parse_port number (default_to ''4433'' (env ''WEBTRANSPORT_PORT'')) ''WEBTRANSPORT_PORT'' = Inr port"
    "parse (default_to (''https://127.0.0.1:'' @ show_int port @ ''/demo'') (env ''WEBTRANSPORT_PUBLIC_URL'')) = Some url"
    "ur_protocol url = ''https:''" "ur_pathname url = ''/demo''" "\<not> utf8_length token < 32"
    "parse_sha256 (env ''WEBTRANSPORT_CERT_SHA256'') = Inr sha"
    "required env ''WEBTRANSPORT_TLS_CERT_PATH'' = Inr certificate" "required env ''WEBTRANSPORT_TLS_KEY_PATH'' = Inr key"
    "cfg = \<lparr>wd_http_host = trimmed_or ''127.0.0.1'' (env ''WEB_DEMO_HTTP_HOST''), wd_http_port = http_port,
       wd_page_origins = origins, wd_host = trimmed_or ''0.0.0.0'' (env ''WEBTRANSPORT_HOST''), wd_port = port,
       wd_public_url = ur_text url, wd_certificate = resolve certificate, wd_key = resolve key, wd_sha256 = sha,
       wd_token = token\<rparr>"
    using assms unfolding load_web_demo_config_def by (auto simp: bindE_Inr_iff split: option.splits if_splits)
  show ?thesis
    using parse_portD [OF r(1)] parse_portD [OF r(3)] parse_page_origins_nonempty [OF r(2)] r(4-8) sha256D
      requiredD [OF r(9)] requiredD [OF r(10)]
    unfolding r(11) by (auto simp: not_less)
qed

text \<open>
  A production configuration that loads has a secret of at least 32 bytes that is not a placeholder, at
  least one origin, every origin an exact HTTPS origin without a wildcard and listed once, valid ports,
  and a Redis URL of one of the two schemes.
\<close>

theorem production_config_sound:
  assumes "load_production_config parse number env = Inr cfg"
  shows "32 \<le> utf8_length (pc_secret (pe_jwt cfg)) \<and> \<not> placeholder_secret (pc_secret (pe_jwt cfg)) \<and>
    pe_origins cfg \<noteq> [] \<and> distinct (pe_origins cfg) \<and>
    (\<forall>origin \<in> set (pe_origins cfg). production_origin parse origin) \<and>
    1 \<le> pe_port cfg \<and> pe_port cfg \<le> 65535 \<and> 1 \<le> pe_operations_port cfg \<and> pe_operations_port cfg \<le> 65535 \<and>
    (\<exists>u. parse (pe_redis cfg) = Some u \<and> ur_protocol u \<in> {''redis:'', ''rediss:''} \<and> ur_hostname u \<noteq> [])"
proof -
  obtain origins secret redis port operations certificate key issuer audience where r:
    "origins \<noteq> []" "list_all (production_origin parse) origins" "\<not> utf8_length secret < 32"
    "\<not> placeholder_secret secret"
    "case parse redis of None \<Rightarrow> False | Some u \<Rightarrow> ur_protocol u \<in> {''redis:'', ''rediss:''} \<and> ur_hostname u \<noteq> []"
    "parse_port number (default_to ''4433'' (env ''WEBTRANSPORT_PORT'')) ''WEBTRANSPORT_PORT'' = Inr port"
    "parse_port number (default_to ''3000'' (env ''OPERATIONS_PORT'')) ''OPERATIONS_PORT'' = Inr operations"
    "cfg = \<lparr>pe_host = trimmed_or ''0.0.0.0'' (env ''WEBTRANSPORT_HOST''), pe_port = port, pe_certificate = certificate,
       pe_key = key, pe_origins = unique origins,
       pe_jwt = \<lparr>pc_secret = secret, pc_issuer = issuer, pc_audience = audience\<rparr>, pe_redis = redis,
       pe_operations_host = trimmed_or ''127.0.0.1'' (env ''OPERATIONS_HOST''), pe_operations_port = operations\<rparr>"
    using assms unfolding load_production_config_def
    by (auto simp: bindE_Inr_iff Let_def split: option.splits if_splits)
  have "unique origins \<noteq> []" using r(1) unique_set(1) [of origins] by (metis set_empty)
  with r parse_portD [OF r(6)] parse_portD [OF r(7)] show ?thesis
    by (auto simp: not_less list_all_iff split: option.splits)
qed

lemma authorization_matches_iff: "authorization_matches a expected \<longleftrightarrow> a = Some expected"
proof -
  have "length x = length y \<Longrightarrow> list_all (\<lambda>(x, y). x = y) (zip x y) \<longleftrightarrow> x = y" for x y :: string
    by (induction x y rule: list_induct2) auto
  then show ?thesis by (auto simp: authorization_matches_def split: option.split)
qed

lemma basic_config_sound:
  assumes "load_basic_config parse number env = Inr cfg"
  shows "1 \<le> bc_port cfg \<and> bc_port cfg \<le> 65535 \<and> bc_origins cfg \<noteq> [] \<and> distinct (bc_origins cfg) \<and>
    (\<exists>token. bc_authorization cfg = ''Bearer '' @ token \<and> 32 \<le> length token)"
  using assms unfolding load_basic_config_def
  by (auto simp: bindE_Inr_iff parse_allowed_origins_def build_authorization_header_def Let_def dest: parse_portD
      split: if_splits)

end
