(* ===== verification/Nest_Module.thy ===== *)
theory Nest_Module
  imports Module_Options
begin

text \<open>
  The dynamic module, \<open>packages/nest-webtransport/src/webtransport.module.ts\<close>: the providers and exports
  that \<open>forRoot\<close> and \<open>forRootAsync\<close> describe, and what the options token and the driver token resolve to.
  The framework's container is represented by what it does with these providers: a value is taken as it
  is, a factory is called with its injected values, a class is instantiated. The user's asynchronous
  factory is a parameter that fails or delivers options.
\<close>

datatype token =
    OptionsToken | DriverToken
  | RuntimeClass | HealthClass | RegistryClass | ExplorerClass | PipelineClass
  | UserToken nat

datatype provider =
    ValueProvider token
  | FactoryProvider token "token list"
  | ClassProvider token

fun provided :: "provider \<Rightarrow> token" where
  "provided (ValueProvider t) = t"
| "provided (FactoryProvider t _) = t"
| "provided (ClassProvider t) = t"

record dynamic_module =
  dm_imports :: "nat list"
  dm_providers :: "provider list"
  dm_exports :: "token list"

text \<open>The static providers of the decorator, \<open>INFRASTRUCTURE_PROVIDERS\<close>, and \<open>RUNTIME_PROVIDERS\<close>.\<close>

definition infrastructure_providers :: "provider list" where
  "infrastructure_providers = map ClassProvider [RegistryClass, ExplorerClass, PipelineClass]"

definition runtime_providers :: "provider list" where
  "runtime_providers = map ClassProvider [RuntimeClass, HealthClass]"

text \<open>\<open>forRoot\<close>: the options are normalised at once, so that a mistake throws while the module is declared.\<close>

definition for_root ::
  "(string \<Rightarrow> url_parts option) \<Rightarrow> module_options \<Rightarrow> thrown + dynamic_module \<times> normalized_options" where
  "for_root parse_url o' =
     bindE (normalize_options parse_url o') (\<lambda>normalized.
       Inr (\<lparr>dm_imports = [],
             dm_providers = ValueProvider OptionsToken # ValueProvider DriverToken # runtime_providers,
             dm_exports = [DriverToken, HealthClass]\<rparr>,
            normalized))"

text \<open>\<open>forRootAsync\<close>: \<open>inject\<close> and \<open>imports\<close> default to none.\<close>

record async_options =
  as_imports :: "nat list option"
  as_inject :: "nat list option"

definition for_root_async :: "async_options \<Rightarrow> dynamic_module" where
  "for_root_async a =
     \<lparr>dm_imports = (case as_imports a of None \<Rightarrow> [] | Some is \<Rightarrow> is),
      dm_providers =
        FactoryProvider OptionsToken (map UserToken (case as_inject a of None \<Rightarrow> [] | Some ts \<Rightarrow> ts)) #
        FactoryProvider DriverToken [OptionsToken] # runtime_providers,
      dm_exports = [DriverToken, HealthClass]\<rparr>"

text \<open>The factory of the options token: the user's factory, then the same normalisation.\<close>

definition async_options_factory ::
  "(string \<Rightarrow> url_parts option) \<Rightarrow> ('d list \<Rightarrow> thrown + module_options) \<Rightarrow> 'd list \<Rightarrow> thrown + normalized_options" where
  "async_options_factory parse_url use_factory dependencies =
     bindE (use_factory dependencies) (normalize_options parse_url)"

text \<open>The driver token, from the resolved options: \<open>normalized.driver\<close> in both forms.\<close>

definition resolve_driver :: "normalized_options \<Rightarrow> driver_capabilities" where
  "resolve_driver n = no_driver n"

section \<open>The two registrations agree\<close>

lemma bindE_assoc: "bindE (bindE m f) g = bindE m (\<lambda>x. bindE (f x) g)"
  by (cases m) simp_all

lemma bindE_Inr_right [simp]: "bindE m Inr = m"
  by (cases m) simp_all

lemma normalized_driver: "normalize_options parse_url o' = Inr n \<Longrightarrow> mo_driver o' = Some (no_driver n)"
  by (erule normalize_optionsD) (simp add: typed_options_def build_options_def)

text \<open>
  A module that is registered asynchronously with a factory that delivers the options resolves to what
  the synchronous registration resolves to, fails when that throws, with the same error, provides the
  same tokens in the same order and exports the same ones; the driver that it hands out is the driver of
  the options.
\<close>

theorem registrations_agree:
  "(\<forall>ds. async_options_factory parse_url (\<lambda>_. Inr o') ds = bindE (for_root parse_url o') (\<lambda>r. Inr (snd r))) \<and>
   (\<forall>m n. for_root parse_url o' = Inr (m, n) \<longrightarrow>
      map provided (dm_providers m) = map provided (dm_providers (for_root_async a)) \<and>
      dm_exports m = dm_exports (for_root_async a) \<and>
      set (dm_exports m) \<subseteq> provided ` set (dm_providers m) \<and>
      distinct (map provided (infrastructure_providers @ dm_providers m)) \<and>
      mo_driver o' = Some (resolve_driver n) \<and> valid_options n)"
  by (auto simp: async_options_factory_def for_root_def for_root_async_def bindE_Inr_iff resolve_driver_def
      runtime_providers_def infrastructure_providers_def normalized_driver normalize_valid bindE_assoc)

end
