(* ===== verification/Races.thy ===== *)
theory Races
  imports Errors
begin

text \<open>
  Races of a promise against a timer and an abort signal. The runtime and the driver each write them by
  hand (\<open>withTimeout\<close>, \<open>withAbortSignal\<close>, \<open>waitForStop\<close>, \<open>waitForDrainWork\<close>); the race is modelled once,
  with the timer and the listener that a particular wait has. What settles first decides; the \<open>finally\<close>
  block then clears the timer and the listener, before the next timer or event of the platform.
\<close>

text \<open>How a promise settles.\<close>

datatype 'a settlement = Fulfilled 'a | Broken thrown

text \<open>
  \<open>ra_timer\<close> is the time at which the timer fires, \<open>ra_listening\<close> whether the abort listener is
  registered, \<open>ra_timeouts\<close> how often the timer's callback has run.
\<close>

record 'a race =
  ra_timer :: "int option"
  ra_listening :: bool
  ra_result :: "'a settlement option"
  ra_timeouts :: nat

definition open_race :: "int option \<Rightarrow> bool \<Rightarrow> 'a race" where
  "open_race timer listening =
     \<lparr>ra_timer = timer, ra_listening = listening, ra_result = None, ra_timeouts = 0\<rparr>"

definition decided_race :: "'a settlement \<Rightarrow> 'a race" where
  "decided_race x = \<lparr>ra_timer = None, ra_listening = False, ra_result = Some x, ra_timeouts = 0\<rparr>"

definition decide :: "'a settlement \<Rightarrow> 'a race \<Rightarrow> 'a race" where
  "decide x r = r\<lparr>ra_timer := None, ra_listening := False, ra_result := Some x\<rparr>"

datatype 'a race_event =
    Settles "'a settlement"
  | TimerFires int
  | SignalAborts thrown

text \<open>\<open>on_timeout\<close> is how the timer decides, \<open>on_abort\<close> how the signal does, from its reason.\<close>

fun race_step ::
  "'a settlement \<Rightarrow> (thrown \<Rightarrow> 'a settlement) \<Rightarrow> 'a race_event \<Rightarrow> 'a race \<Rightarrow> 'a race" where
  "race_step on_timeout on_abort (Settles x) r = (if ra_result r = None then decide x r else r)"
| "race_step on_timeout on_abort (TimerFires now) r =
     (case ra_timer r of
        None \<Rightarrow> r
      | Some deadline \<Rightarrow>
          if now < deadline then r else decide on_timeout (r\<lparr>ra_timeouts := ra_timeouts r + 1\<rparr>))"
| "race_step on_timeout on_abort (SignalAborts reason) r =
     (if ra_listening r then decide (on_abort reason) r else r)"

definition race_run ::
  "'a settlement \<Rightarrow> (thrown \<Rightarrow> 'a settlement) \<Rightarrow> 'a race_event list \<Rightarrow> 'a race \<Rightarrow> 'a race" where
  "race_run on_timeout on_abort es r = fold (race_step on_timeout on_abort) es r"

section \<open>The first that decides\<close>

text \<open>The reference: the first event that decides, and whether it was the timer.\<close>

fun race_winner ::
  "'a settlement \<Rightarrow> (thrown \<Rightarrow> 'a settlement) \<Rightarrow> int option \<Rightarrow> bool \<Rightarrow> 'a race_event list \<Rightarrow>
   ('a settlement \<times> bool) option" where
  "race_winner on_timeout on_abort timer listening [] = None"
| "race_winner on_timeout on_abort timer listening (Settles x # es) = Some (x, False)"
| "race_winner on_timeout on_abort timer listening (TimerFires now # es) =
     (case timer of
        None \<Rightarrow> race_winner on_timeout on_abort timer listening es
      | Some deadline \<Rightarrow>
          if now < deadline then race_winner on_timeout on_abort timer listening es else Some (on_timeout, True))"
| "race_winner on_timeout on_abort timer listening (SignalAborts reason # es) =
     (if listening then Some (on_abort reason, False) else race_winner on_timeout on_abort timer listening es)"

lemma race_simps [simp]:
  "ra_timer (open_race t l) = t" "ra_listening (open_race t l) = l" "ra_result (open_race t l) = None"
  "ra_timeouts (open_race t l) = 0"
  "ra_timer (decided_race x) = None" "ra_listening (decided_race x) = False" "ra_result (decided_race x) = Some x"
  "ra_timeouts (decided_race x) = 0"
  "decide x (open_race t l) = decided_race x"
  "decide x (open_race t l\<lparr>ra_timeouts := n\<rparr>) = decided_race x\<lparr>ra_timeouts := n\<rparr>"
  "decided_race x\<lparr>ra_timeouts := 0\<rparr> = decided_race x"
  by (simp_all add: open_race_def decided_race_def decide_def)

lemma race_decided [simp]:
  assumes "ra_timer r = None" "\<not> ra_listening r" "ra_result r \<noteq> None"
  shows "race_run on_timeout on_abort es r = r"
proof -
  have "race_step on_timeout on_abort e r = r" for e using assms by (cases e) auto
  then show ?thesis unfolding race_run_def by (induction es) simp_all
qed

lemma race_run_Cons [simp]:
  "race_run t a [] r = r" "race_run t a (e # es) r = race_run t a es (race_step t a e r)"
  by (simp_all add: race_run_def)

lemma race_exact:
  "race_run on_timeout on_abort es (open_race timer listening) =
     (case race_winner on_timeout on_abort timer listening es of
        None \<Rightarrow> open_race timer listening
      | Some (x, by_timer) \<Rightarrow> (decided_race x)\<lparr>ra_timeouts := (if by_timer then 1 else 0)\<rparr>)"
proof (induction es)
  case (Cons e es)
  then show ?case by (cases e; cases timer; cases listening) simp_all
qed simp

lemma race_timer_decides: "race_winner t a (Some deadline) l (es @ [TimerFires deadline]) \<noteq> None"
proof (induction es)
  case (Cons e es)
  then show ?case by (cases e; cases l) auto
qed simp

text \<open>What that means: a race that is decided has left neither a timer nor a listener behind.\<close>

lemma race_clean:
  "let r = race_run on_timeout on_abort es (open_race timer listening) in
     ra_result r = map_option fst (race_winner on_timeout on_abort timer listening es) \<and>
     ra_timeouts r = (case race_winner on_timeout on_abort timer listening es of Some (x, True) \<Rightarrow> 1 | _ \<Rightarrow> 0) \<and>
     (ra_result r \<noteq> None \<longrightarrow> ra_timer r = None \<and> \<not> ra_listening r)"
  unfolding race_exact
  by (auto split: option.split bool.split)

end
