(* ===== verification/Runtime_Waits.thy ===== *)
theory Runtime_Waits
  imports Runtime_Streams Races
begin

text \<open>
  The waits of \<open>webtransport-runtime.ts\<close>: what a managed session never takes back, the drain wait of
  \<open>performStop\<close> with \<open>waitForStreams\<close>, and the helpers at the end of the file that race a promise
  against a timer or a signal. Promises latch, conditions do not, so the properties of the waits rest on
  a two-state relation that every event of the machine keeps.
\<close>

section \<open>What a session never takes back\<close>

text \<open>A closed scheduler without work; nothing can be given to it any more.\<close>

definition at_rest :: "scheduler \<Rightarrow> bool" where
  "at_rest sch \<longleftrightarrow> \<not> ts_accepting sch \<and> ts_active sch = 0 \<and> ts_pending sch = [] \<and> ts_running sch = []"

text \<open>Once the intake has stopped, pumps only end and streams are only given back.\<close>

definition winds_down :: "managed \<Rightarrow> managed \<Rightarrow> bool" where
  "winds_down m m' \<longleftrightarrow>
     (ms_intake_aborted m \<longrightarrow>
        ms_intake_aborted m' \<and> set (ms_pumps m') \<subseteq> set (ms_pumps m) \<and>
        ms_bidirectional m' \<le> ms_bidirectional m \<and> ms_unidirectional m' \<le> ms_unidirectional m)"

definition advances :: "managed \<Rightarrow> managed \<Rightarrow> bool" where
  "advances m m' \<longleftrightarrow>
     ms_info m' = ms_info m \<and> ms_ip m' = ms_ip m \<and>
     (ms_finalized m \<longrightarrow> ms_finalized m') \<and> (ms_session_aborted m \<longrightarrow> ms_session_aborted m') \<and>
     (ms_admission_aborted m \<longrightarrow> ms_admission_aborted m') \<and>
     (ms_admission m = None \<longrightarrow> ms_admission m' = None) \<and>
     (\<not> ts_accepting (ms_scheduler m) \<longrightarrow> \<not> ts_accepting (ms_scheduler m')) \<and>
     (at_rest (ms_scheduler m) \<longrightarrow> at_rest (ms_scheduler m')) \<and>
     winds_down m m'"

definition moves :: "runtime \<Rightarrow> runtime \<Rightarrow> bool" where
  "moves s t \<longleftrightarrow>
     length (rt_managed s) \<le> length (rt_managed t) \<and>
     (\<forall>i < length (rt_managed s). advances (session_at i s) (session_at i t))"

named_theorems move_intros \<open>an operation after a move is a move\<close>

lemma advances_refl [simp]: "advances m m"
  by (simp add: advances_def winds_down_def)

lemma winds_down_trans: "winds_down a b \<Longrightarrow> winds_down b c \<Longrightarrow> winds_down a c"
  by (auto simp: winds_down_def)

lemma advances_trans: "advances a b \<Longrightarrow> advances b c \<Longrightarrow> advances a c"
  unfolding advances_def by (elim conjE, intro conjI) (metis, metis, blast+, rule winds_down_trans)

lemma moves_refl [simp, move_intros]: "moves s s"
  by (simp add: moves_def)

lemma moves_trans: "moves s t \<Longrightarrow> moves t u \<Longrightarrow> moves s u"
  unfolding moves_def by (meson advances_trans less_le_trans order_trans)

lemma moves_advances: "moves s t \<Longrightarrow> i < length (rt_managed s) \<Longrightarrow> advances (session_at i s) (session_at i t)"
  by (simp add: moves_def)

lemma moves_length: "moves s t \<Longrightarrow> i < length (rt_managed s) \<Longrightarrow> i < length (rt_managed t)"
  by (simp add: moves_def)

lemma moves_cong: "rt_managed t = rt_managed t' \<Longrightarrow> moves s t = moves s t'"
  by (simp add: moves_def session_at_def)

lemma moves_fields [simp]:
  "moves s (t\<lparr>rt_state := a\<rparr>) = moves s t" "moves s (t\<lparr>rt_sessions := b\<rparr>) = moves s t"
  "moves s (t\<lparr>rt_outstanding := c\<rparr>) = moves s t" "moves s (t\<lparr>rt_ip := d\<rparr>) = moves s t"
  "moves s (t\<lparr>rt_budget := e\<rparr>) = moves s t" "moves s (t\<lparr>rt_task_bytes := f\<rparr>) = moves s t"
  "moves s (t\<lparr>rt_queued_bytes := g\<rparr>) = moves s t" "moves s (t\<lparr>rt_streams := h\<rparr>) = moves s t"
  "moves s (t\<lparr>rt_active_streams := g\<rparr>) = moves s t" "moves s (t\<lparr>rt_accepted := g\<rparr>) = moves s t"
  "moves s (t\<lparr>rt_rejected := g\<rparr>) = moves s t" "moves s (t\<lparr>rt_rejected_handlers := g\<rparr>) = moves s t"
  "moves s (t\<lparr>rt_dropped := g\<rparr>) = moves s t" "moves s (t\<lparr>rt_rejections := j\<rparr>) = moves s t"
  "moves s (t\<lparr>rt_drops := j\<rparr>) = moves s t" "moves s (t\<lparr>rt_subscribed := k\<rparr>) = moves s t"
  "moves s (t\<lparr>rt_starting := k\<rparr>) = moves s t" "moves s (t\<lparr>rt_stopping := l\<rparr>) = moves s t"
  "moves s (t\<lparr>rt_trace := m\<rparr>) = moves s t"
  by (rule moves_cong; simp)+

lemma moves_neutral [simp]:
  "moves s (emit a t) = moves s t" "moves s (close_session info code reason t) = moves s t"
  "moves s (record_rejection reason t) = moves s t" "moves s (record_datagram_drop reason i t) = moves s t"
  "moves s (settle h t) = moves s t"
  by (simp_all add: emit_def close_session_def record_rejection_def record_datagram_drop_def settle_def)

lemma moves_settle_all [simp]: "moves s (settle_all hs t) = moves s t"
  by (induction hs arbitrary: t) (simp_all add: settle_all_def)

text \<open>The one way to change a session; a session that is new since \<open>s\<close> may be changed at will.\<close>

lemma moves_update:
  assumes "moves s t"
    and "i < length (rt_managed s) \<Longrightarrow> advances (session_at i t) (f (session_at i t))"
  shows "moves s (update_session i f t)"
proof -
  have "advances (session_at j s) (session_at j (update_session i f t))" if j: "j < length (rt_managed s)" for j
  proof (cases "j = i")
    case True
    with j assms(1) have "session_at j (update_session i f t) = f (session_at i t)"
      by (simp add: moves_def session_at_def update_session_def)
    with True j assms moves_advances [OF assms(1) j] show ?thesis by (auto intro: advances_trans)
  next
    case False
    then have "session_at j (update_session i f t) = session_at j t"
      by (simp add: session_at_def update_session_def)
    with moves_advances [OF assms(1) j] show ?thesis by simp
  qed
  with assms(1) show ?thesis by (simp add: moves_def)
qed

lemma advances_fields [simp]:
  "advances m (m\<lparr>ms_datagrams := a\<rparr>)" "advances m (m\<lparr>ms_stream_waiters := b\<rparr>)"
  "advances m (m\<lparr>ms_datagram_reader := c\<rparr>)" "advances m (m\<lparr>ms_bidirectional_reader := c\<rparr>)"
  "advances m (m\<lparr>ms_unidirectional_reader := c\<rparr>)" "advances m (m\<lparr>ms_window_started := d\<rparr>)"
  "advances m (m\<lparr>ms_in_window := d\<rparr>)" "advances m (m\<lparr>ms_drain := e\<rparr>)"
  "advances m (m\<lparr>ms_stream_points := f\<rparr>)" "advances m (m\<lparr>ms_queued_bytes := d\<rparr>)"
  "advances m (m\<lparr>ms_last_activity := d\<rparr>)" "advances m (m\<lparr>ms_idle_timer := g\<rparr>)"
  "advances m (m\<lparr>ms_finalized := True\<rparr>)" "advances m (m\<lparr>ms_session_aborted := True\<rparr>)"
  "advances m (m\<lparr>ms_admission_aborted := True\<rparr>)" "advances m (m\<lparr>ms_admission := None\<rparr>)"
  "advances m (m\<lparr>ms_accepting := c\<rparr>)" "advances m (m\<lparr>ms_retiring := c\<rparr>)"
  "advances m (m\<lparr>ms_intake_aborted := True\<rparr>)"
  by (simp_all add: advances_def winds_down_def)

text \<open>The scheduler's operations: none opens a closed scheduler, and none gives work to one at rest.\<close>

definition restful :: "(scheduler \<Rightarrow> scheduler \<times> observation list) \<Rightarrow> bool" where
  "restful f \<longleftrightarrow>
     (\<forall>sch. (\<not> ts_accepting sch \<longrightarrow> \<not> ts_accepting (fst (f sch))) \<and> (at_rest sch \<longrightarrow> at_rest (fst (f sch))))"

lemma restful_ops [simp]:
  "restful (close_scheduler d)" "restful (task_finally k)" "restful (when_capacity_available w a)"
  by (auto simp: restful_def at_rest_def close_scheduler_def task_finally_def start_next_def start_task_def
      drop_running_def when_capacity_available_def Let_def prod.case_eq_if split: list.split)

lemma advances_scheduler:
  "(\<not> ts_accepting (ms_scheduler m) \<Longrightarrow> \<not> ts_accepting sch) \<Longrightarrow>
   (at_rest (ms_scheduler m) \<Longrightarrow> at_rest sch) \<Longrightarrow> advances m (m\<lparr>ms_scheduler := sch\<rparr>)"
  by (auto simp: advances_def winds_down_def)

lemma moves_on_scheduler [move_intros]: "moves s t \<Longrightarrow> restful f \<Longrightarrow> moves s (on_scheduler i f t)"
  unfolding on_scheduler_def Let_def prod.case_eq_if moves_settle_all
  by (rule moves_update) (auto simp: restful_def intro: advances_scheduler)

lemma moves_basic [move_intros]:
  assumes "moves s t"
  shows "moves s (touch now i t)" "moves s (clear_datagrams i t)" "moves s (end_pump p i t)"
    "moves s (set_point kind q i t)" "moves s (retire_session now i t)"
  using assms
  by (auto simp: touch_def clear_datagrams_def end_pump_def set_point_def retire_session_def js_delete_def
      advances_def winds_down_def Let_def intro!: moves_update)

lemma moves_check_idle [move_intros]: "moves s t \<Longrightarrow> moves s (check_idle now i t)"
  by (auto simp: check_idle_def Let_def intro!: moves_update moves_basic)

lemma moves_stop_intake [move_intros]: "moves s t \<Longrightarrow> moves s (stop_intake i t)"
  unfolding stop_intake_def
  by (auto simp: advances_def winds_down_def intro!: moves_update moves_basic moves_on_scheduler)

lemma moves_finalize [move_intros]: "moves s t \<Longrightarrow> moves s (finalize_session i t)"
  by (auto simp: finalize_session_def Let_def advances_def winds_down_def
      intro!: moves_update moves_basic moves_on_scheduler moves_stop_intake)

lemma moves_admission [move_intros]:
  assumes "moves s t"
  shows "moves s (admission_settles i t)" "moves s (handshake_timeout i t)" "moves s (admission_fails w i t)"
  using assms
  by (auto simp: admission_settles_def handshake_timeout_def admission_fails_def split: option.split
      intro!: moves_update)

text \<open>The pumps. A pump starts, and a stream is charged, only while the intake is open.\<close>

lemma moves_stream_pump [move_intros]:
  assumes "moves s t"
  shows "moves s (end_stream_pump kind i t)" "moves s (stream_pump_head kind i t)"
    "moves s (stream_pump_resume kind i t)" "moves s (stream_pump_continue kind i t)"
  using assms
  by (auto simp: end_stream_pump_def stream_pump_head_def stream_pump_resume_def stream_pump_continue_def Let_def
      split: stream_point.split intro!: moves_basic moves_on_scheduler)

lemma moves_start_pump [move_intros]:
  assumes "moves s t" and "\<not> ms_intake_aborted (session_at i t)"
  shows "moves s (start_pump p i t)"
proof -
  have "moves s (update_session i (\<lambda>m. m\<lparr>ms_pumps := js_add p (ms_pumps m)\<rparr>) t)"
    by (rule moves_update [OF assms(1)]) (use assms(2) in \<open>simp add: advances_def winds_down_def\<close>)
  then show ?thesis by (auto simp: start_pump_def Let_def intro: moves_stream_pump)
qed

lemma intake_update:
  "(\<And>m. ms_intake_aborted (f m) = ms_intake_aborted m) \<Longrightarrow>
   ms_intake_aborted (session_at j (update_session i f s)) = ms_intake_aborted (session_at j s)"
  by (cases "j = i"; cases "i < length (rt_managed s)")
    (simp_all add: session_at_def update_session_def list_update_beyond)

lemma intake_fields [simp]:
  "session_at i (emit a s) = session_at i s" "session_at i (s\<lparr>rt_accepted := g\<rparr>) = session_at i s"
  by (simp_all add: session_at_def emit_def)

lemma intake_settle_all [simp]: "session_at i (settle_all hs s) = session_at i s"
  by (induction hs arbitrary: s) (simp_all add: settle_all_def settle_def session_at_def)

lemma intake_start_pump [simp]:
  "ms_intake_aborted (session_at i (start_pump p j s)) = ms_intake_aborted (session_at i s)"
  by (simp add: start_pump_def stream_pump_head_def end_stream_pump_def end_pump_def set_point_def on_scheduler_def
      Let_def prod.case_eq_if intake_update)

lemma moves_admission_succeeds [move_intros]: "moves s t \<Longrightarrow> moves s (admission_succeeds i t)"
proof -
  assume m: "moves s t"
  define t1 where "t1 = update_session i (\<lambda>m. m\<lparr>ms_accepting := False\<rparr>) t"
  have m1: "moves s t1" unfolding t1_def by (rule moves_update [OF m]) simp
  have "moves s (finalize_session i t1)" by (rule moves_finalize [OF m1])
  moreover have "moves s
      (let m = session_at i t1;
           s2 = emit (LogCall ''session.accepted'' None) (t1\<lparr>rt_accepted := rt_accepted t1 + 1\<rparr>);
           s3 = (if ms_datagram_reader m then start_pump DatagramPump i s2 else s2);
           s4 = (if ms_bidirectional_reader m then start_pump BidirectionalPump i s3 else s3)
       in if ms_unidirectional_reader m then start_pump UnidirectionalPump i s4 else s4)"
    if "\<not> ms_intake_aborted (session_at i t1)"
    using m1 that by (auto simp: Let_def intro!: moves_start_pump)
  ultimately show ?thesis
    using m m1 unfolding admission_succeeds_def Let_def t1_def [symmetric] by simp
qed

lemma moves_submit [move_intros]: "moves s t \<Longrightarrow> moves s (fst (submit i n t))"
proof -
  assume m: "moves s t"
  have "advances (session_at i t') (session_at i t'\<lparr>ms_scheduler := fst (submit_task x (ms_scheduler (session_at i t')))\<rparr>)"
    for t' x
    by (rule advances_scheduler) (auto simp: submit_task_def start_task_def at_rest_def split: handler_overflow.split)
  with m show ?thesis
    by (auto simp: submit_def Let_def prod.case_eq_if split: option.split intro!: moves_update)
qed

lemma moves_drain [move_intros]:
  assumes "moves s t"
  shows "moves s (end_drain i t)" "moves s (drain_head i t)" "moves s (drain_continue i t)"
  using assms
  by (auto simp: end_drain_def drain_head_def drain_continue_def Let_def
      intro!: moves_update moves_basic moves_on_scheduler)

lemma moves_start_drain [move_intros]:
  assumes "moves s t" and "\<not> ms_intake_aborted (session_at i t)"
  shows "moves s (start_drain i t)"
proof -
  have "moves s (update_session i (\<lambda>m. m\<lparr>ms_pumps := js_add DrainPump (ms_pumps m)\<rparr>) t)"
    by (rule moves_update [OF assms(1)]) (use assms(2) in \<open>simp add: advances_def winds_down_def\<close>)
  with assms(1) show ?thesis by (auto simp: start_drain_def intro: moves_drain)
qed

lemma moves_drain_resume [move_intros]: "moves s t \<Longrightarrow> moves s (drain_resume i t)"
proof -
  assume m: "moves s t"
  have "moves s (fst (submit i n (update_session i (\<lambda>m. m\<lparr>ms_datagrams := q, ms_queued_bytes := ms_queued_bytes m - n\<rparr>) t)))"
    for q n
    by (rule moves_submit, rule moves_update [OF m]) (simp add: advances_def winds_down_def)
  with m show ?thesis
    by (auto simp: drain_resume_def Let_def prod.case_eq_if split: option.split
        intro!: moves_update moves_drain)
qed

lemma advances_rate: "advances m (snd (consume_datagram_rate n now m))"
  by (simp add: consume_datagram_rate_def advances_def winds_down_def Let_def)

lemma intake_touch [simp]:
  "ms_intake_aborted (session_at i (touch now j s)) = ms_intake_aborted (session_at i s)"
  by (simp add: touch_def Let_def intake_update)

lemma moves_pump_state: "moves s t \<Longrightarrow> moves s (pump_state now i t)"
  unfolding pump_state_def Let_def
  by (rule moves_update [OF moves_basic(1)]) (simp_all add: advances_rate)

lemma intake_pump_state [simp]:
  "ms_intake_aborted (session_at i (pump_state now i s)) = ms_intake_aborted (session_at i s)"
proof -
  have "ms_intake_aborted (snd (consume_datagram_rate c now m)) = ms_intake_aborted m" for c m
    by (simp add: consume_datagram_rate_def Let_def)
  then show ?thesis
    by (cases "i < length (rt_managed s)")
      (simp_all add: pump_state_def Let_def session_at_update update_session_def session_at_def list_update_beyond
        intake_touch [unfolded session_at_def])
qed

lemma moves_store [move_intros]: "moves s t \<Longrightarrow> moves s (fst (store_datagram i d t))"
  by (auto simp: store_datagram_def Let_def prod.case_eq_if advances_def winds_down_def intro!: moves_update)

lemma intake_store [simp]:
  "ms_intake_aborted (session_at j (fst (store_datagram i d s))) = ms_intake_aborted (session_at j s)"
  by (simp add: store_datagram_def Let_def prod.case_eq_if intake_update) (simp add: session_at_def)

lemma intake_drop [simp]: "session_at i (record_datagram_drop r j s) = session_at i s"
  by (simp add: record_datagram_drop_def session_at_def emit_def)

lemma moves_pump_datagram [move_intros]:
  assumes m: "moves s t"
  shows "moves s (pump_datagram now i d t)"
proof (cases "ms_intake_aborted (session_at i t)")
  case True
  with m show ?thesis by (simp add: pump_datagram_eq moves_basic)
next
  case False
  let ?st = "store_datagram i d (pump_state now i t)"
  have st: "moves s (fst ?st)" "\<not> ms_intake_aborted (session_at i (fst ?st))"
    using False by (simp_all add: moves_store moves_pump_state [OF m])
  then have "moves s (start_drain i (fst ?st))" "moves s (start_drain i (record_datagram_drop r i (fst ?st)))" for r
    by (simp_all add: moves_start_drain)
  with st(1) m show ?thesis
    by (simp add: pump_datagram_eq Let_def moves_basic moves_pump_state split: enqueue_result.split)
qed

lemma moves_release_stream [move_intros]: "moves s t \<Longrightarrow> moves s (release_stream now k t)"
proof -
  assume m: "moves s t"
  have "advances x (add_streams kind (- 1) x)" for x kind
    by (simp add: add_streams_def advances_def winds_down_def split: stream_kind.split)
  with m show ?thesis
    by (auto simp: release_stream_def Let_def intro!: moves_update moves_basic)
qed

lemma moves_track_stream:
  assumes "moves s t" and "\<not> ms_intake_aborted (session_at i t)"
  shows "moves s (track_stream now i kind a t)"
  using assms
  by (auto simp: track_stream_def Let_def session_at_def advances_def winds_down_def add_streams_def
      split: stream_kind.split intro!: moves_update moves_release_stream)

lemma moves_outcome [simp]: "moves s (stream_outcome r i k t) = moves s t"
  by (simp add: stream_outcome_def)

lemma moves_pump_stream [move_intros]:
  assumes m: "moves s t"
  shows "moves s (pump_stream now i kind a t)"
proof (cases "ms_intake_aborted (session_at i t)")
  case True
  with m show ?thesis by (simp add: pump_stream_def Let_def moves_basic)
next
  case False
  then have "moves s (track_stream now i kind a (touch now i t))"
    by (simp add: moves_track_stream moves_basic m)
  with m show ?thesis
    by (auto simp: pump_stream_def Let_def prod.case_eq_if intro!: moves_basic moves_submit)
qed

lemma moves_fold: "(\<And>x t. moves s t \<Longrightarrow> moves s (f x t)) \<Longrightarrow> moves s t \<Longrightarrow> moves s (fold f xs t)"
  by (induction xs arbitrary: t) simp_all

lemma moves_tasks [move_intros]:
  assumes "moves s t"
  shows "moves s (session_aborts now i t)" "moves s (task_ends i k t)"
    "moves s (fst (handle_runtime_error e i st t))" "moves s (stream_aborts now k t)"
  using assms
  by (auto simp: session_aborts_def task_ends_def handle_runtime_error_def stream_aborts_def Let_def
      split: option.split error_scope.split
      intro!: moves_update moves_finalize moves_release_stream moves_on_scheduler moves_fold)

section \<open>Starting and stopping\<close>

lemma moves_stop_force [move_intros]: "moves s t \<Longrightarrow> moves s (stop_force t)"
  by (auto simp: stop_force_def force_session_def Let_def intro!: moves_fold moves_on_scheduler moves_update)

lemma moves_drain_session [move_intros]: "moves s t \<Longrightarrow> moves s (drain_session i t)"
  by (auto simp: drain_session_def intro!: moves_stop_intake)

lemma moves_stop [move_intros]:
  assumes "moves s t"
  shows "moves s (stop_server t)" "moves s (stop_ends ok t)" "moves s (start_settles ok t)"
  using assms
  by (auto simp: stop_server_def stop_ends_def start_settles_def Let_def
      intro!: moves_fold moves_drain_session moves_finalize moves_stop_force)

lemma moves_start_server: "start_server s = Inr t \<Longrightarrow> moves s t"
  by (auto simp: start_server_def bindE_Inr_iff split: if_splits option.splits)

lemma moves_stop_proceeds [move_intros]: "moves s t \<Longrightarrow> moves s (stop_proceeds t)"
  by (cases "rt_stopping t") (auto simp: stop_proceeds_def intro!: moves_fold moves_stop_force)

lemma moves_register: "moves s (register_session info m s)"
  by (simp add: moves_def register_session_def session_at_def nth_append Let_def)

lemma moves_accept: "moves s (accept_session pu url dr locked now info aborted s)"
proof (cases rule: accept_session_cases [of pu url dr locked now info aborted s])
  case (admitted m1 ip b h readers)
  let ?s3 = "register_session info (accepted_managed s info ip readers now aborted) (s\<lparr>rt_ip := m1, rt_budget := b\<rparr>)"
  have r: "moves s ?s3"
    using moves_register [of "s\<lparr>rt_ip := m1, rt_budget := b\<rparr>"] by (simp add: moves_def session_at_def)
  have "moves s (begin_admission now (length (rt_managed s)) h ?s3)"
    unfolding begin_admission_def Let_def by (rule moves_update) (simp_all add: moves_basic r)
  moreover have "moves s (finalize_session (length (rt_managed s)) (?s3\<lparr>rt_budget := hb_release h b\<rparr>))"
    using r by (simp add: moves_finalize)
  ultimately show ?thesis unfolding admitted(6) Let_def by (cases aborted) (simp_all only: if_True if_False)
qed auto

text \<open>Every event of the runtime is a move.\<close>

lemma moves_at_session: "(i < length (rt_managed s) \<Longrightarrow> moves s (f s)) \<Longrightarrow> moves s (at_session i f s)"
  by (simp add: at_session_def)

lemma runtime_step_moves: "moves s (runtime_step pu url e s)"
proof (cases e)
  case ServerStarts
  then show ?thesis by (cases "start_server s") (auto intro: moves_start_server)
next
  case (PumpEnds p i)
  then show ?thesis by (cases p) (auto intro!: moves_at_session moves_basic moves_stream_pump)
next
  case (StreamArrives now i kind aborted)
  then show ?thesis
    by (cases kind) (auto simp: pump_bidirectional_streams_def pump_unidirectional_streams_def
        intro!: moves_at_session moves_pump_stream)
qed (auto simp: moves_accept simp del: budget_step.simps intro!: moves_at_session move_intros)

lemma runtime_run_moves: "moves s (runtime_run pu url es s)"
  unfolding runtime_run_def by (rule moves_fold) (auto intro: moves_trans runtime_step_moves)

section \<open>The drain wait of a graceful stop\<close>

text \<open>\<open>waitForStreams\<close>: whether the promise that it returns is resolved from the start.\<close>

definition wait_for_streams :: "managed \<Rightarrow> bool" where
  "wait_for_streams m \<longleftrightarrow> ms_bidirectional m = 0 \<and> ms_unidirectional m = 0"

text \<open>
  The four promises of one session in \<open>performStop\<close>, each settled or not: \<open>scheduler.onIdle()\<close>, the
  admission work, the pumps of the snapshot (those that have not settled), and \<open>waitForStreams\<close>.
\<close>

record drain_wait =
  dw_session :: nat
  dw_idle :: bool
  dw_admission :: bool
  dw_pumps :: "pump list"
  dw_streams :: bool

definition begin_wait :: "runtime \<Rightarrow> nat \<Rightarrow> drain_wait" where
  "begin_wait s i =
     (let m = session_at i s in
      \<lparr>dw_session = i, dw_idle = is_idle (ms_scheduler m), dw_admission = (ms_admission m = None),
       dw_pumps = ms_pumps m, dw_streams = wait_for_streams m\<rparr>)"

text \<open>
  What an event, which takes the runtime from \<open>s\<close> to \<open>t\<close>, settles. A promise stays settled. The stream
  waiters are resolved when the last stream is released, and when the session is finalised.
\<close>

definition observe_wait :: "runtime \<Rightarrow> runtime \<Rightarrow> drain_wait \<Rightarrow> drain_wait" where
  "observe_wait s t w =
     (let m = session_at (dw_session w) s; m' = session_at (dw_session w) t in
      w\<lparr>dw_idle := (dw_idle w \<or> is_idle (ms_scheduler m')),
        dw_admission := (dw_admission w \<or> ms_admission m' = None),
        dw_pumps := filter (\<lambda>p. p \<in> set (ms_pumps m')) (dw_pumps w),
        dw_streams := (dw_streams w \<or> wait_for_streams m' \<or> \<not> ms_finalized m \<and> ms_finalized m')\<rparr>)"

definition wait_over :: "drain_wait \<Rightarrow> bool" where
  "wait_over w \<longleftrightarrow> dw_idle w \<and> dw_admission w \<and> dw_pumps w = [] \<and> dw_streams w"

definition begin_drain :: "runtime \<Rightarrow> drain_wait list" where
  "begin_drain s = map (begin_wait s) (rt_outstanding s)"

fun drain_run ::
  "(string \<Rightarrow> url_parts option) \<Rightarrow> (string \<Rightarrow> string option) \<Rightarrow> runtime_event list \<Rightarrow> runtime \<Rightarrow>
   drain_wait list \<Rightarrow> runtime \<times> drain_wait list" where
  "drain_run pu url [] s ws = (s, ws)"
| "drain_run pu url (e # es) s ws =
     (let t = runtime_step pu url e s in drain_run pu url es t (map (observe_wait s t) ws))"

text \<open>While the intake of a session is closed, a promise that has settled still tells the truth.\<close>

definition winding_down :: "nat \<Rightarrow> runtime \<Rightarrow> bool" where
  "winding_down i s \<longleftrightarrow>
     i < length (rt_managed s) \<and> ms_intake_aborted (session_at i s) \<and> \<not> ts_accepting (ms_scheduler (session_at i s))"

definition wait_true :: "runtime \<Rightarrow> drain_wait \<Rightarrow> bool" where
  "wait_true s w \<longleftrightarrow>
     (let m = session_at (dw_session w) s in
      winding_down (dw_session w) s \<and>
      (dw_idle w \<longrightarrow> at_rest (ms_scheduler m)) \<and> (dw_admission w \<longrightarrow> ms_admission m = None) \<and>
      set (ms_pumps m) \<subseteq> set (dw_pumps w) \<and> (dw_streams w \<longrightarrow> wait_for_streams m \<or> ms_finalized m))"

definition runtime_sound :: "runtime \<Rightarrow> bool" where
  "runtime_sound s \<longleftrightarrow> accounts s \<and> streams_counted s"

lemma runtime_step_sound: "runtime_sound s \<Longrightarrow> runtime_sound (runtime_step pu url e s)"
  by (simp add: runtime_sound_def runtime_step_accounts runtime_step_streams)

interpretation runtime_soundness: event_system "runtime_step pu url" runtime_sound for pu url
  by unfold_locales (rule runtime_step_sound)

lemma run_sound: "valid_options n \<Longrightarrow> runtime_sound (runtime_run pu url es (new_runtime n g))"
  unfolding runtime_run_def
  by (rule runtime_soundness.run_inv) (simp add: runtime_sound_def new_runtime_accounts new_runtime_streams)

lemma sound_idle_rests:
  assumes "runtime_sound s" and w: "winding_down i s" and "is_idle (ms_scheduler (session_at i s))"
  shows "at_rest (ms_scheduler (session_at i s))"
proof -
  have "session_ok (session_at i s)"
    using assms(1) w ledger_session_ok [of 0 "{#}" "{#}" s i]
    by (simp add: runtime_sound_def accounts_def winding_down_def)
  then have "ts_active (ms_scheduler (session_at i s)) = int (length (ts_running (ms_scheduler (session_at i s))))"
    by (simp add: session_ok_def sched_inv_def)
  with w assms(3) show ?thesis by (simp add: at_rest_def is_idle_def winding_down_def)
qed

lemma streams_nonneg:
  assumes "streams_counted s" and i: "i < length (rt_managed s)"
  shows "0 \<le> ms_bidirectional (session_at i s)" "0 \<le> ms_unidirectional (session_at i s)"
  using assms
  by (auto simp: streams_but_def streams_ok_def open_of_def stream_view_def session_at_def)

lemma moves_winding: "moves s t \<Longrightarrow> winding_down i s \<Longrightarrow> winding_down i t"
  using moves_advances [of s t i] moves_length [of s t i]
  by (auto simp: winding_down_def advances_def winds_down_def)

lemma begin_wait_true:
  "runtime_sound s \<Longrightarrow> winding_down i s \<Longrightarrow> wait_true s (begin_wait s i)"
  using sound_idle_rests [of s i] by (auto simp: wait_true_def begin_wait_def Let_def)

lemma observe_wait_true:
  assumes s: "runtime_sound s" and t: "runtime_sound t" and m: "moves s t" and w: "wait_true s w"
  shows "wait_true t (observe_wait s t w)"
proof -
  let ?i = "dw_session w"
  have d: "winding_down ?i t" and i: "?i < length (rt_managed s)"
    using moves_winding [OF m] w by (auto simp: wait_true_def Let_def winding_down_def)
  note a = moves_advances [OF m i]
  have z: "wait_for_streams (session_at ?i s) \<Longrightarrow> wait_for_streams (session_at ?i t)"
    using a w streams_nonneg [of t ?i] t moves_length [OF m i]
    by (auto simp: advances_def winds_down_def wait_true_def winding_down_def wait_for_streams_def
        runtime_sound_def Let_def)
  show ?thesis
    using a w d z sound_idle_rests [OF t d]
    by (auto simp: wait_true_def observe_wait_def advances_def winds_down_def winding_down_def Let_def)
qed

lemma drain_run_true:
  "runtime_sound s \<Longrightarrow> \<forall>w \<in> set ws. wait_true s w \<Longrightarrow> drain_run pu url es s ws = (t, us) \<Longrightarrow>
   \<forall>w \<in> set us. wait_true t w"
proof (induction es arbitrary: s ws)
  case (Cons e es)
  let ?s' = "runtime_step pu url e s"
  have "runtime_sound ?s'" by (rule runtime_step_sound [OF Cons.prems(1)])
  moreover have "\<forall>w \<in> set (map (observe_wait s ?s') ws). wait_true ?s' w"
    using Cons.prems observe_wait_true [OF Cons.prems(1) \<open>runtime_sound ?s'\<close> runtime_step_moves] by auto
  moreover have "drain_run pu url es ?s' (map (observe_wait s ?s') ws) = (t, us)"
    using Cons.prems(3) by (simp add: Let_def)
  ultimately show ?case by (rule Cons.IH)
qed simp

lemma drain_run_sessions: "drain_run pu url es s ws = (t, us) \<Longrightarrow> map dw_session us = map dw_session ws"
proof (induction es arbitrary: s ws)
  case (Cons e es)
  then show ?case by (fastforce simp: observe_wait_def Let_def)
qed simp

text \<open>After the first segment of a graceful stop every outstanding session winds down.\<close>

lemma stop_intake_winding:
  assumes "i < length (rt_managed s)"
  shows "winding_down i (stop_intake i s)"
proof -
  have "\<not> ts_accepting (fst (close_scheduler d sch))" for d sch
    by (simp add: close_scheduler_def Let_def prod.case_eq_if)
  with assms show ?thesis
    by (simp add: winding_down_def stop_intake_def on_scheduler_def clear_datagrams_def update_session_def
        session_at_def Let_def prod.case_eq_if intake_settle_all [unfolded session_at_def])
qed

lemma drain_sessions_wind:
  assumes "i \<in> set is" and "i < length (rt_managed s)"
  shows "winding_down i (fold drain_session is s)"
  using assms
proof (induction "is" arbitrary: s)
  case (Cons j js)
  show ?case
  proof (cases "i = j")
    case True
    have "winding_down i (drain_session i s)"
      using Cons.prems(2) by (simp add: drain_session_def stop_intake_winding emit_def)
    moreover have "moves x (fold drain_session js x)" for x
      by (intro moves_fold moves_drain_session moves_refl)
    ultimately have "winding_down i (fold drain_session js (drain_session i s))"
      by (rule moves_winding [rotated])
    with True show ?thesis by simp
  next
    case False
    with Cons show ?thesis by (simp add: drain_session_def)
  qed
qed simp

lemma stop_server_drains:
  assumes "rt_stopping r = NotStopping" and "rt_stopping (stop_server r) = StopDraining"
    and "i \<in> set (rt_outstanding r)" and "i < length (rt_managed r)"
  shows "winding_down i (stop_server r)" and "rt_outstanding (stop_server r) = rt_outstanding r"
proof -
  define q where "q = (if rt_state r = RUNNING then r\<lparr>rt_state := transition_state DRAINING (rt_state r)\<rparr>
      else if rt_state r = STARTING then r\<lparr>rt_state := transition_state STOPPING (rt_state r)\<rparr>
      else r)\<lparr>rt_subscribed := False\<rparr>"
  have same: "rt_outstanding q = rt_outstanding r" "rt_managed q = rt_managed r" by (simp_all add: q_def)
  have forced: "rt_stopping (stop_force x) = StopForced" for x by (simp add: stop_force_def Let_def)
  have "stop_server r =
      (if rt_stopping r \<noteq> NotStopping \<or> rt_state r = STOPPED then r
       else if rt_state (fold drain_session (rt_outstanding q) q) = DRAINING \<and>
               no_graceful (rt_options (fold drain_session (rt_outstanding q) q))
            then (fold drain_session (rt_outstanding q) q)\<lparr>rt_stopping := StopDraining\<rparr>
            else stop_force (fold drain_session (rt_outstanding q) q))"
    unfolding stop_server_def Let_def q_def ..
  then have eq: "stop_server r = (fold drain_session (rt_outstanding q) q)\<lparr>rt_stopping := StopDraining\<rparr>"
    using assms(1,2) forced by (auto split: if_splits)
  have "winding_down i (fold drain_session (rt_outstanding q) q)"
    by (rule drain_sessions_wind) (use assms(3,4) same in simp_all)
  then show "winding_down i (stop_server r)" by (simp add: eq winding_down_def session_at_def)
  show "rt_outstanding (stop_server r) = rt_outstanding r"
    using roster_fold(2) [of "rt_outstanding q" q] same by (simp add: eq roster_part_def)
qed

lemma rest_settles_nothing: "at_rest sch \<Longrightarrow> settled_ids (snd (close_scheduler True sch)) = []"
  by (auto simp: at_rest_def close_scheduler_def flush_waiters_def Let_def split: if_splits)

lemma wait_over_true:
  assumes "wait_true t w" and "wait_over w"
  shows "let m = session_at (dw_session w) t in
     is_idle (ms_scheduler m) \<and> ts_running (ms_scheduler m) = [] \<and> ms_admission m = None \<and> ms_pumps m = [] \<and>
     (wait_for_streams m \<or> ms_finalized m) \<and>
     settled_ids (snd (close_scheduler True (ms_scheduler m))) = []"
proof -
  have "at_rest (ms_scheduler (session_at (dw_session w) t))"
    using assms by (simp add: wait_true_def wait_over_def Let_def)
  then show ?thesis
    using assms rest_settles_nothing by (simp add: wait_true_def wait_over_def Let_def at_rest_def is_idle_def)
qed

text \<open>
  C1. A graceful stop interrupts nothing: when the drain wait of \<open>performStop\<close> is over without its
  timeout, whatever happened in between and in whatever order, no session that was outstanding when the
  stop began has a handler that runs or waits, an admission in progress or a running pump, its streams
  are released unless it has been finalised, and the forced close that follows discards no task.
\<close>

theorem graceful_drain_finishes_work:
  assumes "normalize_options pu o' = Inr n"
    and r: "r = runtime_run pu' url es (new_runtime n g)" "rt_stopping r = NotStopping"
      "rt_stopping (stop_server r) = StopDraining"
    and run: "drain_run pu' url fs (stop_server r) (begin_drain (stop_server r)) = (t, ws)"
    and over: "list_all wait_over ws" and i: "i \<in> set (rt_outstanding r)"
  shows "let m = session_at i t in
     is_idle (ms_scheduler m) \<and> ts_running (ms_scheduler m) = [] \<and> ms_admission m = None \<and> ms_pumps m = [] \<and>
     (wait_for_streams m \<or> ms_finalized m) \<and>
     settled_ids (snd (close_scheduler True (ms_scheduler m))) = []"
proof -
  have snd: "runtime_sound r" unfolding r(1) by (rule run_sound [OF normalize_valid [OF assms(1)]])
  then have h: "j \<in> set (rt_outstanding r) \<Longrightarrow> j < length (rt_managed r)" for j
    using roster_handles [of r] by (simp add: runtime_sound_def accounts_def handles_ok_def)
  note stop = stop_server_drains [OF r(2,3) _ h]
  have s: "runtime_sound (stop_server r)" using runtime_step_sound [OF snd, of pu' url ServerStops] by simp
  have o': "rt_outstanding (stop_server r) = rt_outstanding r" by (rule stop(2) [OF i i])
  have "\<forall>w \<in> set (begin_drain (stop_server r)). wait_true (stop_server r) w"
    using begin_wait_true [OF s stop(1)] by (auto simp: begin_drain_def o')
  from drain_run_true [OF s this run] have true: "\<forall>w \<in> set ws. wait_true t w" .
  have "map dw_session ws = rt_outstanding r"
    using drain_run_sessions [OF run] by (simp add: begin_drain_def begin_wait_def o' comp_def Let_def)
  with i have "i \<in> set (map dw_session ws)" by simp
  then obtain w where w: "w \<in> set ws" "dw_session w = i" by auto
  with true over have "wait_true t w" "wait_over w" by (auto simp: list_all_iff)
  then show ?thesis unfolding w(2) [symmetric] by (rule wait_over_true)
qed

definition drain_events :: "runtime_event list" where
  "drain_events = [StreamPumpContinues 0 Bidirectional, TaskEnds 0 0, StreamAborts 9 1, TaskEnds 0 0]"

lemma drain_example:
  "let r = runtime_run example_parser Some stream_events (new_runtime example_normal stream_registry);
       ws = begin_drain (stop_server r)
   in rt_stopping r = NotStopping \<and> rt_stopping (stop_server r) = StopDraining \<and> rt_outstanding r = [0] \<and>
      \<not> list_all wait_over ws \<and>
      list_all wait_over (snd (drain_run example_parser Some drain_events (stop_server r) ws))"
  by code_simp

theorem graceful_drain_finishes_work_witness:
  "let r = runtime_run example_parser Some stream_events (new_runtime example_normal stream_registry);
       t = fst (drain_run example_parser Some drain_events (stop_server r) (begin_drain (stop_server r)))
   in ms_pumps (session_at 0 t) = [] \<and> is_idle (ms_scheduler (session_at 0 t))"
proof -
  define r where "r = runtime_run example_parser Some stream_events (new_runtime example_normal stream_registry)"
  obtain t ws where run: "drain_run example_parser Some drain_events (stop_server r) (begin_drain (stop_server r)) = (t, ws)"
    by fastforce
  have ex: "rt_stopping r = NotStopping" "rt_stopping (stop_server r) = StopDraining" "0 \<in> set (rt_outstanding r)"
    "list_all wait_over ws"
    using drain_example run by (simp_all add: r_def Let_def)
  from graceful_drain_finishes_work [OF example_accepted r_def ex(1,2) run ex(4,3)]
  have "ms_pumps (session_at 0 t) = []" "is_idle (ms_scheduler (session_at 0 t))" by (simp_all add: Let_def)
  then show ?thesis by (simp add: Let_def run flip: r_def)
qed

section \<open>Races\<close>

text \<open>
  \<open>withTimeout\<close>: a race against a timer only, and the error of its deadline, which also goes to
  \<open>onTimeout\<close>. \<open>withAbortSignal\<close>: a race against a signal only, that a signal which is aborted already
  decides at once.
\<close>

definition handler_timeout :: "string \<Rightarrow> thrown" where
  "handler_timeout message =
     new_error WebTransportTimeoutError message
       \<lparr>opt_code = ''ERR_WEBTRANSPORT_TIMEOUT'', opt_recoverable = None, opt_scope = Some HANDLER, opt_cause = None\<rparr>"

definition with_timeout :: "int \<Rightarrow> int \<Rightarrow> string \<Rightarrow> 'a race_event list \<Rightarrow> 'a race" where
  "with_timeout now timeout_ms message es =
     race_run (Broken (handler_timeout message)) Broken es (open_race (Some (now + timeout_ms)) False)"

definition with_abort_signal :: "thrown option \<Rightarrow> 'a race_event list \<Rightarrow> 'a race" where
  "with_abort_signal aborted es =
     (case aborted of
        Some reason \<Rightarrow> decided_race (Broken reason)
      | None \<Rightarrow> race_run (Broken NonError) Broken es (open_race None True))"

text \<open>\<open>remainingTime\<close>, which turns the deadline of a shutdown into timeouts.\<close>

definition remaining_time :: "int \<Rightarrow> int \<Rightarrow> int" where
  "remaining_time deadline now = max 0 (deadline - now)"

text \<open>
  \<open>releaseReaderLock\<close> and \<open>cancelAndReleaseReader\<close>: the calls that are made on the reader, if there is
  one, when \<open>cancel\<close> and \<open>releaseLock\<close> fulfil or fail; neither failure is passed on.
\<close>

datatype reader_call = CancelReader | ReleaseLock

definition release_reader_lock :: "thrown option \<Rightarrow> reader_call list \<times> unit settlement" where
  "release_reader_lock locked = ([ReleaseLock], (case locked of Some e \<Rightarrow> Fulfilled () | None \<Rightarrow> Fulfilled ()))"

definition cancel_and_release_reader ::
  "bool \<Rightarrow> thrown option \<Rightarrow> thrown option \<Rightarrow> reader_call list \<times> unit settlement" where
  "cancel_and_release_reader present cancelled locked =
     (if \<not> present then ([], Fulfilled ())
      else (CancelReader # fst (release_reader_lock locked),
            case cancelled of Some e \<Rightarrow> snd (release_reader_lock locked) | None \<Rightarrow> snd (release_reader_lock locked)))"

text \<open>
  \<open>withTimeout\<close> settles as the first of its promise and its deadline does, calls \<open>onTimeout\<close> once when
  it is the deadline and never otherwise, and leaves no timer behind.
\<close>

theorem with_timeout_exact:
  "let r = with_timeout now timeout_ms message es;
       w = race_winner (Broken (handler_timeout message)) Broken (Some (now + timeout_ms)) False es
   in ra_result r = map_option fst w \<and> ra_timeouts r = (case w of Some (x, True) \<Rightarrow> 1 | _ \<Rightarrow> 0) \<and>
      (ra_result r \<noteq> None \<longrightarrow> ra_timer r = None)"
  using race_clean [of "Broken (handler_timeout message)" Broken es "Some (now + timeout_ms)" False]
  by (auto simp: with_timeout_def Let_def)

theorem with_abort_signal_exact:
  "let r = with_abort_signal aborted es in
     ra_result r =
       (case aborted of
          Some reason \<Rightarrow> Some (Broken reason)
        | None \<Rightarrow> map_option fst (race_winner (Broken NonError) Broken None True es)) \<and>
     (ra_result r \<noteq> None \<longrightarrow> \<not> ra_listening r)"
  using race_clean [of "Broken NonError" Broken es None True]
  by (auto simp: with_abort_signal_def Let_def decided_race_def split: option.split)

text \<open>
  However the time passes between the waits of a shutdown, those that share a deadline together never
  wait beyond it.
\<close>

lemma remaining_time_deadline: "now \<le> deadline \<Longrightarrow> now + remaining_time deadline now = deadline"
  by (simp add: remaining_time_def)

lemma cancel_releases:
  "cancel_and_release_reader present c l = ((if present then [CancelReader, ReleaseLock] else []), Fulfilled ())"
  by (simp add: cancel_and_release_reader_def release_reader_lock_def split: option.split)

end
