(* ===== verification/Driver_Waits.thy ===== *)
theory Driver_Waits
  imports Driver_Safety Races
begin

text \<open>
  The waits of the driver and the outcomes of its promises: \<open>waitForDrainWork\<close> and \<open>waitForStop\<close> of
  \<open>packages/driver-rwebtransport/src/driver.ts\<close>, the abort context and the settled results of the stream
  adapters, and \<open>exportKeyingMaterial\<close> after the native call.
\<close>

section \<open>Waiting for the drain work\<close>

text \<open>
  The promises of \<open>waitForDrainWork\<close>: the sessions that are not closed yet and the dispatch tasks that
  have not settled, of those that it has taken note of. \<open>closed\<close> of a session never rejects.
\<close>

record drain_work =
  dw_sessions :: "nat list"
  dw_tasks :: "nat list"
  dw_race :: "unit race"

definition drain_done :: "drain_work \<Rightarrow> bool" where
  "drain_done w \<longleftrightarrow> dw_sessions w = [] \<and> dw_tasks w = []"

text \<open>The signal: none, one that has not been aborted, or one that has.\<close>

datatype stop_signal = NoSignal | LiveSignal | AbortedSignal thrown

definition wait_for_drain_work :: "int \<Rightarrow> int \<Rightarrow> stop_signal \<Rightarrow> driver \<Rightarrow> drain_work" where
  "wait_for_drain_work now timeout_ms signal s =
     (let sessions = map snd (dv_sessions s); tasks = dv_tasks s in
      \<lparr>dw_sessions = sessions, dw_tasks = tasks,
       dw_race =
         (if sessions = [] \<and> tasks = [] then decided_race (Fulfilled ())
          else
            (case signal of
               AbortedSignal _ \<Rightarrow> decided_race (Fulfilled ())
             | LiveSignal \<Rightarrow> open_race (Some (now + timeout_ms)) True
             | NoSignal \<Rightarrow> open_race (Some (now + timeout_ms)) False))\<rparr>)"

datatype drain_event =
    SessionCloses nat
  | TaskDone nat
  | DrainTimer int
  | DrainAborts thrown

text \<open>Neither the timer nor the signal fails the wait: the native shutdown begins in any case.\<close>

fun drain_race_event :: "drain_work \<Rightarrow> drain_event \<Rightarrow> unit race_event option" where
  "drain_race_event w (DrainTimer now) = Some (TimerFires now)"
| "drain_race_event w (DrainAborts reason) = Some (SignalAborts reason)"
| "drain_race_event w _ = (if drain_done w then Some (Settles (Fulfilled ())) else None)"

fun settle_drain :: "drain_event \<Rightarrow> drain_work \<Rightarrow> drain_work" where
  "settle_drain (SessionCloses k) w = w\<lparr>dw_sessions := filter (\<lambda>j. j \<noteq> k) (dw_sessions w)\<rparr>"
| "settle_drain (TaskDone k) w = w\<lparr>dw_tasks := filter (\<lambda>j. j \<noteq> k) (dw_tasks w)\<rparr>"
| "settle_drain _ w = w"

definition drain_step :: "drain_event \<Rightarrow> drain_work \<Rightarrow> drain_work" where
  "drain_step e w =
     (let w1 = settle_drain e w in
      case drain_race_event w1 e of
        None \<Rightarrow> w1
      | Some ev \<Rightarrow> w1\<lparr>dw_race := race_step (Fulfilled ()) (\<lambda>_. Fulfilled ()) ev (dw_race w1)\<rparr>)"

section \<open>Waiting for the native shutdown\<close>

text \<open>\<open>waitForStop\<close>: here the deadline and the signal fail the wait.\<close>

definition native_timeout :: thrown where
  "native_timeout = DomException ''TimeoutError'' ''Native shutdown timed out''"

definition wait_for_stop :: "int \<Rightarrow> int \<Rightarrow> stop_signal \<Rightarrow> unit race_event list \<Rightarrow> unit race" where
  "wait_for_stop now timeout_ms signal es =
     race_run (Broken native_timeout) Broken es
       (case signal of
          AbortedSignal reason \<Rightarrow> decided_race (Broken reason)
        | LiveSignal \<Rightarrow> open_race (Some (now + timeout_ms)) True
        | NoSignal \<Rightarrow> open_race (Some (now + timeout_ms)) False)"

text \<open>The time that is left for it, from the deadline that \<open>performStop\<close> fixes when it begins.\<close>

definition stop_time_left :: "int \<Rightarrow> int \<Rightarrow> int" where
  "stop_time_left deadline now = max 0 (deadline - now)"

text \<open>What \<open>stop\<close> and \<open>start\<close> settle with when the native library fails them.\<close>

definition stop_failure :: "thrown \<Rightarrow> thrown" where
  "stop_failure e = map_native_error e (driver_mapping ''stop rwebtransport driver'' None)"

definition start_failure :: "thrown \<Rightarrow> thrown" where
  "start_failure e = map_native_error e (driver_mapping ''start rwebtransport driver'' None)"

section \<open>Streams and sessions\<close>

text \<open>
  \<open>createRWebTransportStreamAbortContext\<close>: a listener is called at once when the signal has been
  aborted; otherwise it is registered, until it unsubscribes or the signal calls it, once.
\<close>

record abort_context =
  ac_reason :: "thrown option"
  ac_listeners :: "nat list"
  ac_calls :: "(nat \<times> thrown) list"

definition subscribe_abort :: "nat \<Rightarrow> abort_context \<Rightarrow> abort_context" where
  "subscribe_abort l c =
     (case ac_reason c of
        Some reason \<Rightarrow> c\<lparr>ac_calls := ac_calls c @ [(l, reason)]\<rparr>
      | None \<Rightarrow> c\<lparr>ac_listeners := ac_listeners c @ [l]\<rparr>)"

definition unsubscribe_abort :: "nat \<Rightarrow> abort_context \<Rightarrow> abort_context" where
  "unsubscribe_abort l c = c\<lparr>ac_listeners := filter (\<lambda>k. k \<noteq> l) (ac_listeners c)\<rparr>"

definition signal_aborts :: "thrown \<Rightarrow> abort_context \<Rightarrow> abort_context" where
  "signal_aborts reason c =
     (case ac_reason c of
        Some _ \<Rightarrow> c
      | None \<Rightarrow> c\<lparr>ac_reason := Some reason, ac_listeners := [],
                   ac_calls := ac_calls c @ map (\<lambda>l. (l, reason)) (ac_listeners c)\<rparr>)"

text \<open>\<open>abort\<close> of a core writable: what it settles with, from the native outcome; a close in progress wins.\<close>

definition abort_outcome :: "bool \<Rightarrow> thrown option \<Rightarrow> thrown option \<Rightarrow> thrown option" where
  "abort_outcome is_closing close_result native =
     (if is_closing then close_result
      else map_option (\<lambda>e. map_native_error e (stream_mapping ''abort send stream'')) native)"

text \<open>\<open>reset\<close> of a bidirectional stream: the first half that failed, when both have settled.\<close>

definition bidi_reset_outcome :: "thrown option \<Rightarrow> thrown option \<Rightarrow> thrown option" where
  "bidi_reset_outcome stopping resetting =
     (case stopping of
        Some e \<Rightarrow> Some (map_native_error e (stream_mapping ''reset bidirectional stream''))
      | None \<Rightarrow> map_option (\<lambda>e. map_native_error e (stream_mapping ''reset bidirectional stream'')) resetting)"

text \<open>\<open>exportKeyingMaterial\<close>: an absent context is empty; the native answer, or its mapped failure.\<close>

definition export_keying_material ::
  "string \<Rightarrow> nat list option \<Rightarrow> js_number \<Rightarrow> (string \<Rightarrow> nat list \<Rightarrow> nat \<Rightarrow> thrown + nat list) \<Rightarrow>
   session_adapter \<Rightarrow> thrown + nat list" where
  "export_keying_material label context len native s =
     bindE (export_keying len s) (\<lambda>n.
       case native label (case context of Some c \<Rightarrow> c | None \<Rightarrow> []) n of
         Inl e \<Rightarrow> Inl (map_native_error e (session_mapping ''export keying material''))
       | Inr bytes \<Rightarrow> Inr bytes)"

section \<open>What the waits guarantee\<close>

text \<open>
  The wait for the drain work never fails, so the native shutdown always begins; it is over exactly when
  everything that it waits for has settled, or its time or its signal has ended it.
\<close>

definition drain_ok :: "drain_work \<Rightarrow> bool" where
  "drain_ok w \<longleftrightarrow>
     ra_result (dw_race w) \<in> {None, Some (Fulfilled ())} \<and>
     (ra_result (dw_race w) = None \<longleftrightarrow> ra_timer (dw_race w) \<noteq> None) \<and>
     (ra_listening (dw_race w) \<longrightarrow> ra_result (dw_race w) = None) \<and>
     (drain_done w \<longrightarrow> ra_result (dw_race w) = Some (Fulfilled ()))"

lemma wait_for_drain_work_ok: "drain_ok (wait_for_drain_work now timeout_ms signal s)"
  by (auto simp: drain_ok_def wait_for_drain_work_def Let_def drain_done_def decided_race_def open_race_def
      split: stop_signal.split)

lemma drain_step_ok: "drain_ok w \<Longrightarrow> drain_ok (drain_step e w)"
  by (cases e) (auto simp: drain_ok_def drain_step_def drain_done_def decide_def Let_def split: option.split)

theorem drain_work_never_fails:
  "let w = fold drain_step es (wait_for_drain_work now timeout_ms signal s) in
     ra_result (dw_race w) \<in> {None, Some (Fulfilled ())} \<and>
     (drain_done w \<longrightarrow> ra_result (dw_race w) = Some (Fulfilled ()) \<and> ra_timer (dw_race w) = None)"
proof -
  have "drain_ok (fold drain_step es w)" if "drain_ok w" for w
    using that drain_step_ok by (induction es arbitrary: w) simp_all
  from this [OF wait_for_drain_work_ok [of now timeout_ms signal s]] show ?thesis
    unfolding drain_ok_def Let_def by (metis option.distinct(1))
qed

text \<open>
  A stop with a finite timeout settles: with the outcome of the native shutdown, or at the latest when
  its timer fires; and with the signal's reason at once when the signal has been aborted before.
\<close>

theorem wait_for_stop_settles:
  "(case signal of
      AbortedSignal reason \<Rightarrow> ra_result (wait_for_stop now timeout_ms signal es) = Some (Broken reason)
    | _ \<Rightarrow> ra_result (wait_for_stop now timeout_ms signal (es @ [TimerFires (now + timeout_ms)])) \<noteq> None) \<and>
   (ra_result (wait_for_stop now timeout_ms signal es) \<noteq> None \<longrightarrow>
      ra_timer (wait_for_stop now timeout_ms signal es) = None \<and>
      \<not> ra_listening (wait_for_stop now timeout_ms signal es))"
proof -
  note clean = race_clean [of "Broken native_timeout :: unit settlement" Broken, unfolded Let_def]
  show ?thesis
    using clean race_timer_decides [of "Broken native_timeout" Broken "now + timeout_ms"]
    by (cases signal) (simp_all add: wait_for_stop_def)
qed

text \<open>
  An abort context calls every listener that is registered once, with the reason of the first abort; a
  listener that subscribes later is called at once with the same reason.
\<close>

datatype context_event = Subscribes nat | Unsubscribes nat | ContextAborts thrown

fun context_step :: "context_event \<Rightarrow> abort_context \<Rightarrow> abort_context" where
  "context_step (Subscribes l) c = subscribe_abort l c"
| "context_step (Unsubscribes l) c = unsubscribe_abort l c"
| "context_step (ContextAborts reason) c = signal_aborts reason c"

definition context_ok :: "abort_context \<Rightarrow> bool" where
  "context_ok c \<longleftrightarrow>
     (case ac_reason c of
        None \<Rightarrow> ac_calls c = []
      | Some reason \<Rightarrow> ac_listeners c = [] \<and> snd ` set (ac_calls c) \<subseteq> {reason})"

interpretation abort_contexts: event_system context_step context_ok
proof
  show "context_ok (context_step e c)" if "context_ok c" for e c
    using that
    by (cases e) (auto simp: context_ok_def subscribe_abort_def unsubscribe_abort_def signal_aborts_def split: option.splits)
qed

lemma context_aborts_once:
  assumes "context_ok c" and "ac_reason c = None"
  shows "ac_calls (signal_aborts reason c) = map (\<lambda>l. (l, reason)) (ac_listeners c)"
    and "signal_aborts again (signal_aborts reason c) = signal_aborts reason c"
    and "ac_calls (subscribe_abort l (signal_aborts reason c)) = map (\<lambda>l. (l, reason)) (ac_listeners c) @ [(l, reason)]"
  using assms by (simp_all add: context_ok_def signal_aborts_def subscribe_abort_def)

end
