(* ===== verification/Http_Servers.thy ===== *)
theory Http_Servers
  imports Errors
begin

text \<open>
  The two HTTP servers of the examples, \<open>StaticServer\<close> of the web demo (\<open>static-server.service.ts\<close>) and
  \<open>OperationsServer\<close> of the production example (\<open>operations-server.service.ts\<close>): how they start with the
  application and how they stop with it. The platform's server is \<open>http_server\<close>: it listens, it accepts
  connections, \<open>close\<close> lets it emit its close event once no connection is left, and \<open>close\<close> of a server
  that does not listen reports an error. What the servers answer is in \<open>Session_Tickets\<close> and
  \<open>Health_Metrics\<close>.
\<close>

section \<open>The platform\<close>

datatype listen_phase = NeverListened | ListenPending | Listening | ListenFailed thrown

record http_server =
  hs_listen :: listen_phase
  hs_open :: "nat list"
  hs_max_connections :: nat
  hs_request_timeout :: nat
  hs_headers_timeout :: nat
  hs_keep_alive_timeout :: nat
  hs_close_called :: bool
  hs_cut_off :: bool

definition create_http_server :: http_server where
  "create_http_server =
     \<lparr>hs_listen = NeverListened, hs_open = [], hs_max_connections = 128, hs_request_timeout = 5000,
      hs_headers_timeout = 5000, hs_keep_alive_timeout = 5000, hs_close_called = False, hs_cut_off = False\<rparr>"

definition not_running :: thrown where
  "not_running = JsError ''Error'' ''Server is not running.''"

definition accepts_socket :: "nat \<Rightarrow> http_server \<Rightarrow> bool" where
  "accepts_socket k h \<longleftrightarrow>
     hs_listen h = Listening \<and> \<not> hs_close_called h \<and> k \<notin> set (hs_open h) \<and> length (hs_open h) < hs_max_connections h"

text \<open>A promise of the application framework: the first settlement counts.\<close>

datatype outcome = NotAsked | Unsettled | Resolved | RejectedBy thrown

fun settle :: "outcome \<Rightarrow> outcome \<Rightarrow> outcome" where
  "settle result Unsettled = result"
| "settle result before = before"

section \<open>The services\<close>

text \<open>
  \<open>hv_static\<close> tells the two apart: the static server tracks its sockets, does not ask whether the server
  listens before it closes it, and resolves at its deadline; the operations server asks, and waits for
  the close event.
\<close>

record http_service =
  hv_static :: bool
  hv_server :: bool
  hv_http :: http_server
  hv_error_listener :: bool
  hv_sockets :: "nat list"
  hv_start :: outcome
  hv_stop :: outcome
  hv_timer :: bool
  hv_close_error :: "thrown option"
  hv_destroyed :: "nat list"

definition new_http_service :: "bool \<Rightarrow> http_service" where
  "new_http_service static =
     \<lparr>hv_static = static, hv_server = False, hv_http = create_http_server, hv_error_listener = False, hv_sockets = [],
      hv_start = NotAsked, hv_stop = NotAsked, hv_timer = False, hv_close_error = None, hv_destroyed = []\<rparr>"

text \<open>\<open>onApplicationBootstrap\<close> up to its wait, and the events it waits for.\<close>

definition bootstrap_server :: "http_service \<Rightarrow> http_service" where
  "bootstrap_server s =
     (if hv_start s \<noteq> NotAsked then s
      else s\<lparr>hv_http := create_http_server\<lparr>hs_listen := ListenPending\<rparr>, hv_server := True,
             hv_error_listener := True, hv_start := Unsettled\<rparr>)"

definition server_listens :: "http_service \<Rightarrow> http_service" where
  "server_listens s =
     (if hs_listen (hv_http s) \<noteq> ListenPending \<or> hs_close_called (hv_http s) then s
      else s\<lparr>hv_http := (hv_http s)\<lparr>hs_listen := Listening\<rparr>, hv_error_listener := False,
             hv_start := settle Resolved (hv_start s)\<rparr>)"

definition listen_fails :: "thrown \<Rightarrow> http_service \<Rightarrow> http_service" where
  "listen_fails e s =
     (if hs_listen (hv_http s) \<noteq> ListenPending then s
      else s\<lparr>hv_http := (hv_http s)\<lparr>hs_listen := ListenFailed e\<rparr>, hv_error_listener := False,
             hv_start := settle (RejectedBy e) (hv_start s)\<rparr>)"

definition socket_connects :: "nat \<Rightarrow> http_service \<Rightarrow> http_service" where
  "socket_connects k s =
     (if \<not> accepts_socket k (hv_http s) then s
      else s\<lparr>hv_http := (hv_http s)\<lparr>hs_open := hs_open (hv_http s) @ [k]\<rparr>,
             hv_sockets := (if hv_static s then js_add k (hv_sockets s) else hv_sockets s)\<rparr>)"

definition socket_closes :: "nat \<Rightarrow> http_service \<Rightarrow> http_service" where
  "socket_closes k s =
     (if k \<notin> set (hs_open (hv_http s)) then s
      else s\<lparr>hv_http := (hv_http s)\<lparr>hs_open := js_delete k (hs_open (hv_http s))\<rparr>,
             hv_sockets := js_delete k (hv_sockets s)\<rparr>)"

text \<open>\<open>onApplicationShutdown\<close> up to its wait.\<close>

definition close_server :: "http_service \<Rightarrow> http_service" where
  "close_server s =
     s\<lparr>hv_stop := Unsettled, hv_timer := True,
       hv_close_error := (if hs_listen (hv_http s) = Listening then None else Some not_running),
       hv_http := (hv_http s)\<lparr>hs_close_called := True\<rparr>\<rparr>"

definition shutdown_server :: "http_service \<Rightarrow> http_service" where
  "shutdown_server s =
     (if hv_stop s \<noteq> NotAsked then s
      else if \<not> hv_server s then s\<lparr>hv_stop := Resolved\<rparr>
      else if \<not> hv_static s \<and> hs_listen (hv_http s) \<noteq> Listening then s\<lparr>hv_server := False, hv_stop := Resolved\<rparr>
      else close_server (s\<lparr>hv_server := False\<rparr>))"

text \<open>The timer of one second: \<open>closeAllConnections\<close>, and for the static server the sockets and the end.\<close>

definition deadline_passes :: "http_service \<Rightarrow> http_service" where
  "deadline_passes s =
     (if \<not> hv_timer s then s
      else if hv_static s then
        s\<lparr>hv_timer := False, hv_http := (hv_http s)\<lparr>hs_cut_off := True\<rparr>, hv_destroyed := hv_sockets s,
          hv_stop := settle Resolved (hv_stop s)\<rparr>
      else s\<lparr>hv_timer := False, hv_http := (hv_http s)\<lparr>hs_cut_off := True\<rparr>\<rparr>)"

text \<open>The close event: the callback of \<open>close\<close>, once the last connection is gone.\<close>

definition server_closed :: "http_service \<Rightarrow> http_service" where
  "server_closed s =
     (if \<not> hs_close_called (hv_http s) \<or> hs_open (hv_http s) \<noteq> [] then s
      else s\<lparr>hv_timer := False,
             hv_stop := settle (case hv_close_error s of None \<Rightarrow> Resolved | Some e \<Rightarrow> RejectedBy e) (hv_stop s)\<rparr>)"

datatype http_event =
  Bootstraps | ServerListens | ListenFails thrown | SocketConnects nat | SocketCloses nat | ShutsDown | DeadlinePasses
  | ServerClosed

fun http_step :: "http_event \<Rightarrow> http_service \<Rightarrow> http_service" where
  "http_step Bootstraps s = bootstrap_server s"
| "http_step ServerListens s = server_listens s"
| "http_step (ListenFails e) s = listen_fails e s"
| "http_step (SocketConnects k) s = socket_connects k s"
| "http_step (SocketCloses k) s = socket_closes k s"
| "http_step ShutsDown s = shutdown_server s"
| "http_step DeadlinePasses s = deadline_passes s"
| "http_step ServerClosed s = server_closed s"

lemmas http_ops =
  bootstrap_server_def server_listens_def listen_fails_def socket_connects_def socket_closes_def close_server_def
  shutdown_server_def deadline_passes_def server_closed_def accepts_socket_def

section \<open>What holds\<close>

lemma settle_facts [simp]:
  "settle r before = NotAsked \<longleftrightarrow> before = NotAsked \<or> before = Unsettled \<and> r = NotAsked"
  "settle r before = Unsettled \<longleftrightarrow> before = Unsettled \<and> r = Unsettled"
  by (cases before; simp)+

definition http_inv :: "http_service \<Rightarrow> bool" where
  "http_inv s \<longleftrightarrow>
     distinct (hs_open (hv_http s)) \<and> hv_sockets s = (if hv_static s then hs_open (hv_http s) else []) \<and>
     length (hs_open (hv_http s)) \<le> hs_max_connections (hv_http s) \<and>
     (hs_open (hv_http s) \<noteq> [] \<longrightarrow> hs_listen (hv_http s) = Listening) \<and>
     (hv_start s = NotAsked \<longleftrightarrow> hs_listen (hv_http s) = NeverListened) \<and>
     (hs_listen (hv_http s) = NeverListened \<longrightarrow> \<not> hv_server s) \<and>
     (hs_close_called (hv_http s) \<longrightarrow> hv_stop s \<noteq> NotAsked \<and> hs_listen (hv_http s) \<noteq> NeverListened) \<and>
     (hv_stop s = Unsettled \<longrightarrow> hs_close_called (hv_http s) \<and> (hv_static s \<longrightarrow> hv_timer s))"

lemma http_step_inv: "http_inv s \<Longrightarrow> http_inv (http_step e s)"
  by (cases e) (auto simp: http_ops http_inv_def create_http_server_def js_add_def js_delete_def
      intro: le_trans [OF length_filter_le] split: option.split)

interpretation http_life: event_system http_step http_inv
  by unfold_locales (rule http_step_inv)

lemma new_http_service_inv: "http_inv (new_http_service static)"
  by (simp add: http_inv_def new_http_service_def create_http_server_def)

lemma step_constants:
  "hv_static (http_step e s) = hv_static s"
  "hs_max_connections (hv_http s) = 128 \<Longrightarrow> hs_max_connections (hv_http (http_step e s)) = 128"
  by (cases e; simp add: http_ops create_http_server_def)+

lemma run_constants:
  "hs_max_connections (hv_http s) = 128 \<Longrightarrow>
   hv_static (fold http_step es s) = hv_static s \<and> hs_max_connections (hv_http (fold http_step es s)) = 128"
  by (induction es arbitrary: s) (simp_all add: step_constants)

text \<open>
  The application stops: whatever the connections do, the static server has settled its shutdown once its
  deadline has passed; the operations server has settled it once its connections are gone; each has
  at most 128 connections, the static server tracks exactly those that are open, and destroys all of them
  at its deadline.
\<close>

theorem shutdown_settles:
  fixes static :: bool and es :: "http_event list"
  defines "s \<equiv> fold http_step es (new_http_service static)"
  shows "length (hs_open (hv_http s)) \<le> 128"
    and "static \<Longrightarrow> hv_sockets s = hs_open (hv_http s)"
    and "static \<Longrightarrow> hv_timer s \<Longrightarrow> set (hv_destroyed (http_step DeadlinePasses s)) = set (hs_open (hv_http s))"
    and "static \<Longrightarrow> hv_stop (http_step DeadlinePasses (http_step ShutsDown s)) \<notin> {NotAsked, Unsettled}"
    and "hs_open (hv_http s) = [] \<Longrightarrow> hv_stop (http_step ServerClosed (http_step ShutsDown s)) \<notin> {NotAsked, Unsettled}"
proof -
  have i: "http_inv s" unfolding s_def by (rule http_life.run_inv [OF new_http_service_inv])
  have st: "hv_static s = static \<and> hs_max_connections (hv_http s) = 128"
    unfolding s_def using run_constants [of "new_http_service static" es]
    by (simp add: new_http_service_def create_http_server_def)
  have u: "http_inv (http_step ShutsDown s)" by (rule http_step_inv [OF i])
  show "length (hs_open (hv_http s)) \<le> 128" using i st by (simp add: http_inv_def)
  show t: "hv_sockets s = hs_open (hv_http s)" if static using i st that by (simp add: http_inv_def)
  show "set (hv_destroyed (http_step DeadlinePasses s)) = set (hs_open (hv_http s))" if static "hv_timer s"
    using t that st by (simp add: deadline_passes_def)
  show "hv_stop (http_step DeadlinePasses (http_step ShutsDown s)) \<notin> {NotAsked, Unsettled}" if static
    using u st that by (auto simp: http_inv_def deadline_passes_def shutdown_server_def close_server_def)
  show "hv_stop (http_step ServerClosed (http_step ShutsDown s)) \<notin> {NotAsked, Unsettled}" if "hs_open (hv_http s) = []"
    using u that by (auto simp: http_inv_def server_closed_def shutdown_server_def close_server_def split: option.split)
qed

text \<open>
  After a port could not be bound, a shutdown of the operations server succeeds and one of the static
  server fails: only the former asks whether its server listens.
\<close>

theorem shutdown_after_failed_listen:
  "hv_stop (fold http_step [Bootstraps, ListenFails e, ShutsDown] (new_http_service False)) = Resolved"
  "hv_stop (fold http_step [Bootstraps, ListenFails e, ShutsDown, ServerClosed] (new_http_service True)) = RejectedBy not_running"
  by (simp_all add: http_ops new_http_service_def create_http_server_def)

end
