(* ===== verification/Release_Check.thy ===== *)
theory Release_Check
  imports Errors "HOL-Library.Sublist"
begin

text \<open>
  The release check \<open>scripts/test-install.mjs\<close>, as far as it inspects the packed packages: the license,
  the version, and that every dependency on a package of the workspace names the version that is being
  released. A manifest is what the check reads of \<open>package.json\<close>; packing, installing and running the probes
  are the tools' work. \<open>text\<close> is \<open>JSON.stringify\<close> of the packed manifest.
\<close>

datatype range = RangeText string | OtherValue

datatype section_name = Dependencies | OptionalDependencies | PeerDependencies

record manifest =
  mf_name :: string
  mf_version :: string
  mf_license :: string
  mf_sections :: "section_name \<Rightarrow> (string \<times> range) list option"

definition section_label :: "section_name \<Rightarrow> string" where
  "section_label s =
     (case s of Dependencies \<Rightarrow> ''dependencies'' | OptionalDependencies \<Rightarrow> ''optionalDependencies''
      | PeerDependencies \<Rightarrow> ''peerDependencies'')"

definition section_entries :: "manifest \<Rightarrow> section_name \<Rightarrow> (string \<times> range) list" where
  "section_entries m s = (case mf_sections m s of None \<Rightarrow> [] | Some xs \<Rightarrow> xs)"

definition assertion_error :: "string \<Rightarrow> thrown" where
  "assertion_error message = JsError ''AssertionError'' message"

definition workspace_prefix :: string where
  "workspace_prefix = ''workspace:''"

text \<open>What a workspace range stands for once it is packed.\<close>

definition expected_range :: "string \<Rightarrow> string \<Rightarrow> string" where
  "expected_range selector version =
     (if selector = ''*'' then version
      else if selector = [CHR 0x5E] \<or> selector = ''~'' then selector @ version
      else selector)"

definition check_entry ::
  "(string \<Rightarrow> string option) \<Rightarrow> manifest \<Rightarrow> manifest \<Rightarrow> section_name \<Rightarrow> string \<times> range \<Rightarrow> thrown + unit" where
  "check_entry versions m packed s entry =
     (case snd entry of
        OtherValue \<Rightarrow> Inr ()
      | RangeText r \<Rightarrow>
          if \<not> prefix workspace_prefix r then Inr ()
          else
            (case versions (fst entry) of
               Some version \<Rightarrow>
                 if version = [] then
                   Inl (assertion_error (mf_name m @ '': '' @ section_label s @ ''.'' @ fst entry @ '' must name a workspace package''))
                 else
                   guardE
                     (map_of (section_entries packed s) (fst entry) =
                        Some (RangeText (expected_range (drop (length workspace_prefix) r) version)))
                     (assertion_error (mf_name m @ '': packed '' @ section_label s @ ''.'' @ fst entry @
                        '' must target the current workspace version''))
             | None \<Rightarrow>
                 Inl (assertion_error (mf_name m @ '': '' @ section_label s @ ''.'' @ fst entry @ '' must name a workspace package''))))"

definition check_sections :: "(string \<Rightarrow> string option) \<Rightarrow> manifest \<Rightarrow> manifest \<Rightarrow> thrown + unit" where
  "check_sections versions m packed =
     bindE (mapE (\<lambda>(s, entry). check_entry versions m packed s entry)
       (concat (map (\<lambda>s. map (\<lambda>entry. (s, entry)) (section_entries m s))
          [Dependencies, OptionalDependencies, PeerDependencies]))) (\<lambda>_. Inr ())"

text \<open>\<open>files\<close> is the listing of the tarball, \<open>leaks\<close> the pattern for tests and secrets.\<close>

definition check_package ::
  "(string \<Rightarrow> string option) \<Rightarrow> manifest \<Rightarrow> manifest \<Rightarrow> string \<Rightarrow> string \<Rightarrow> (string \<Rightarrow> bool) \<Rightarrow> thrown + unit" where
  "check_package versions m packed text files leaks =
     bindE (assert_all
        [(mf_license packed = ''MIT'', assertion_error ''Expected values to be strictly equal''),
         (mf_version packed = mf_version m, assertion_error ''Expected values to be strictly equal''),
         (\<not> sublist workspace_prefix text, assertion_error ''Published metadata must not contain workspace references'')]) (\<lambda>_.
     bindE (check_sections versions m packed) (\<lambda>_.
     assert_all
        [(sublist ''package/LICENSE'' files, assertion_error ''The expression evaluated to a falsy value''),
         (\<not> leaks files, assertion_error ''Do not publish tests or secrets'')]))"

text \<open>
  The loop over the packages. \<open>pack\<close> is what the packing tool makes of a package: its manifest, the text of
  that manifest, and the listing of its tarball.
\<close>

definition workspace_versions :: "manifest list \<Rightarrow> string \<Rightarrow> string option" where
  "workspace_versions packages = map_of (rev (map (\<lambda>m. (mf_name m, mf_version m)) packages))"

definition check_release ::
  "manifest list \<Rightarrow> (manifest \<Rightarrow> manifest \<times> string \<times> string) \<Rightarrow> (string \<Rightarrow> bool) \<Rightarrow> thrown + unit" where
  "check_release packages pack leaks =
     bindE (mapE (\<lambda>m. case pack m of (packed, text, files) \<Rightarrow>
        check_package (workspace_versions packages) m packed text files leaks) packages) (\<lambda>_. Inr ())"

section \<open>What the check shows\<close>

lemma check_entry_Inr:
  "check_entry versions m packed s (name, RangeText r) = Inr u \<Longrightarrow> prefix workspace_prefix r \<Longrightarrow>
   \<exists>version. versions name = Some version \<and> version \<noteq> [] \<and>
     map_of (section_entries packed s) name =
       Some (RangeText (expected_range (drop (length workspace_prefix) r) version))"
  by (auto simp: check_entry_def split: option.splits if_splits)

lemma mapE_Inr_all: "mapE f xs = Inr ys \<Longrightarrow> x \<in> set xs \<Longrightarrow> \<exists>y. f x = Inr y"
  by (induction xs arbitrary: ys) (auto simp: bindE_Inr_iff)

lemma check_package_current:
  assumes "check_package versions m packed text files leaks = Inr ()"
    and "(name, RangeText (workspace_prefix @ selector)) \<in> set (section_entries m s)"
  shows "\<exists>version. versions name = Some version \<and>
    map_of (section_entries packed s) name = Some (RangeText (expected_range selector version))"
proof -
  have c: "check_sections versions m packed = Inr ()"
    using assms(1) by (auto simp: check_package_def bindE_Inr_iff)
  then obtain ys where e: "mapE (\<lambda>(s, entry). check_entry versions m packed s entry)
       (concat (map (\<lambda>s. map (\<lambda>entry. (s, entry)) (section_entries m s))
          [Dependencies, OptionalDependencies, PeerDependencies])) = Inr ys"
    unfolding check_sections_def bindE_Inr_iff by blast
  have "(s, name, RangeText (workspace_prefix @ selector)) \<in>
      set (concat (map (\<lambda>s. map (\<lambda>entry. (s, entry)) (section_entries m s))
          [Dependencies, OptionalDependencies, PeerDependencies]))"
    using assms(2) by (cases s) auto
  from mapE_Inr_all [OF e this]
  have "\<exists>y. check_entry versions m packed s (name, RangeText (workspace_prefix @ selector)) = Inr y" by simp
  then show ?thesis using check_entry_Inr [of versions m packed s name "workspace_prefix @ selector"] by auto
qed

text \<open>
  A release that passes: every package keeps its version and has the license, no secret and no workspace
  reference leaves the workspace, and each workspace dependency names a package of this release, with
  the range its selector stands for.
\<close>

theorem released_dependencies_current:
  assumes "check_release packages pack leaks = Inr ()" "m \<in> set packages" "pack m = (packed, text, files)"
  shows "mf_license packed = ''MIT'' \<and> mf_version packed = mf_version m \<and> \<not> sublist workspace_prefix text \<and>
    sublist ''package/LICENSE'' files \<and> \<not> leaks files \<and>
    (\<forall>s name selector. (name, RangeText (workspace_prefix @ selector)) \<in> set (section_entries m s) \<longrightarrow>
       (\<exists>n \<in> set packages. mf_name n = name \<and>
          map_of (section_entries packed s) name = Some (RangeText (expected_range selector (mf_version n)))))"
proof -
  obtain ys where "mapE (\<lambda>m. case pack m of (packed, text, files) \<Rightarrow>
        check_package (workspace_versions packages) m packed text files leaks) packages = Inr ys"
    using assms(1) unfolding check_release_def bindE_Inr_iff by blast
  from mapE_Inr_all [OF this assms(2)] assms(3)
  have c: "check_package (workspace_versions packages) m packed text files leaks = Inr ()" by auto
  have v: "\<exists>n \<in> set packages. mf_name n = name \<and> mf_version n = version"
    if "workspace_versions packages name = Some version" for name version
    using map_of_SomeD [OF that [unfolded workspace_versions_def]] by auto
  have d: "\<exists>n \<in> set packages. mf_name n = name \<and>
      map_of (section_entries packed s) name = Some (RangeText (expected_range selector (mf_version n)))"
    if "(name, RangeText (workspace_prefix @ selector)) \<in> set (section_entries m s)" for s name selector
    using check_package_current [OF c that] v by blast
  show ?thesis
    using c d by (simp add: check_package_def bindE_Inr_iff del: assert_all.simps)
qed

text \<open>A caret range on a package of the workspace.\<close>

definition example_package :: "string \<Rightarrow> manifest" where
  "example_package r =
     \<lparr>mf_name = ''nest-webtransport'', mf_version = ''0.1.0'', mf_license = ''MIT'',
      mf_sections = (\<lambda>s. if s = Dependencies then Some [(''webtransport-core'', RangeText r)] else None)\<rparr>"

lemma example_package_check:
  "check_package (\<lambda>n. Some ''0.1.0'') (example_package (''workspace:'' @ [CHR 0x5E])) (example_package (CHR 0x5E # ''0.1.0''))
     [] ''package/LICENSE'' (\<lambda>f. False) = Inr ()"
  "check_package (\<lambda>n. Some ''0.1.0'') (example_package (''workspace:'' @ [CHR 0x5E])) (example_package ''0.0.9'')
     [] ''package/LICENSE'' (\<lambda>f. False) \<noteq> Inr ()"
  by (simp_all add: check_package_def check_sections_def check_entry_def example_package_def section_entries_def
      workspace_prefix_def expected_range_def guardE_def)

end
