(* ===== verification/Spec2Isabelle.thy ===== *)
theory Spec2Isabelle
  imports Lifecycle Permits Rate_Limiter Bounded_Queue Task_Scheduler Handler_Budget Ip_Limits Module_Options Gateway_Registry
    Runtime_Streams Dispatch_Order Driver_Safety Pipeline_Arguments Testing_Driver_Safety
    Health_Metrics Tracing Presence Session_Tickets Demo_Gateway Demo_Page Vendored_Patches Example_Apps Runtime_Waits Driver_Waits
    Http_Servers Release_Check
begin

text \<open>
  A verification development of nest-webtransport: WebTransport (HTTP/3 sessions with datagrams and
  streams) for NestJS. Paths are relative to \<open>src/\<close>.

  The program. \<open>packages/core\<close> holds the contracts and the small data structures: errors with scopes,
  the server's lifecycle, a concurrency limiter, a rate limiter, a bounded queue.
  \<open>packages/driver-rwebtransport\<close> adapts a native QUIC library to those contracts: a driver that owns a
  server and its sessions, adapters for sessions, datagrams and streams, and the mapping of native
  errors. \<open>packages/nest-webtransport\<close> is the framework's part: options are normalised, gateways are
  discovered and registered, and \<open>WebTransportRuntime\<close> admits the sessions that the driver delivers,
  pumps their datagrams and streams through bounded queues and schedulers, and dispatches each event
  through the execution pipeline (guards, interceptors, pipes, filters) to the handlers of the gateway.
  \<open>packages/otel\<close> exports its counters and traces its handlers, \<open>packages/testing\<close> gives tests an
  in-memory driver with its sessions and streams, and \<open>examples\<close> has three applications.

  The parts and their theories.

  Core. \<open>Errors\<close> (\<open>core/src/errors\<close>): the class hierarchy, its constructors and \<open>instanceof\<close>. \<open>Lifecycle\<close>
  (\<open>lifecycle/lifecycle.ts\<close>): the transition table. \<open>Permits\<close> and \<open>Rate_Limiter\<close> (\<open>limits\<close>): release closures
  run once, a window grants at most its limit. \<open>Bounded_Queue\<close> (\<open>utilities/bounded-queue.ts\<close>): the circular
  buffer refines a list under each overflow policy.

  Framework. \<open>Task_Scheduler\<close> (\<open>execution/bounded-task-scheduler.ts\<close>) and \<open>Handler_Budget\<close>
  (\<open>server/handler-budget.ts\<close>): bounds, order, conservation of tasks, no lost wakeup. \<open>Ip_Limits\<close>: the
  per-address tables of the runtime. \<open>Module_Options\<close> (\<open>module/options.ts\<close>) and \<open>Nest_Module\<close>
  (\<open>webtransport.module.ts\<close>): what an accepted options object guarantees; both registrations agree.
  \<open>Gateway_Registry\<close> (\<open>routing\<close>, \<open>discovery\<close>, \<open>decorators\<close>): metadata, compilation and lookup of handlers.
  \<open>Enhancer_Lookup\<close>, \<open>Execution_Pipeline\<close>, \<open>Pipeline_Arguments\<close> (\<open>execution/execution-pipeline.ts\<close>,
  \<open>context\<close>): which provider a module sees, the order of guards, interceptors, pipes and filters, and the
  arguments of a handler under every schedule of its pipes.

  Runtime (\<open>server/webtransport-runtime.ts\<close>). \<open>Runtime_State\<close> has the records, \<open>Runtime_Sessions\<close> admission,
  \<open>Runtime_Work\<close> the pumps, submission, stream tracking and errors by scope, \<open>Runtime_Machine\<close> start, stop
  and the machine with its events; \<open>Runtime_Dispatch\<close> and \<open>Dispatch_Order\<close> authentication, routing and the
  loop over the handlers; \<open>Runtime_Logs\<close> the bounded log and the statistics; \<open>Runtime_Waits\<close> and \<open>Races\<close> the
  drain wait and the races of promises. \<open>Runtime_Ledger\<close>, \<open>Runtime_Roster\<close> and \<open>Runtime_Safety\<close> prove the
  books: every reservation and every retained byte is charged to exactly one holder, every outstanding
  session to its address; \<open>Runtime_Streams\<close> does the same for streams, \<open>Runtime_Frame\<close> states once what the
  operations leave alone.

  Driver. \<open>Driver_Errors\<close> (\<open>error.mapper.ts\<close>), \<open>Driver_Streams\<close>, \<open>Driver_Datagrams\<close>, \<open>Driver_Sessions\<close>,
  \<open>Driver_Server\<close> (the adapters of the same names), \<open>Driver_Machine\<close> (\<open>driver.ts\<close>), and the proofs
  \<open>Driver_Growth\<close>, \<open>Driver_Counters\<close>, \<open>Driver_Safety\<close>: capacity, exact metrics, one notification per
  session, the order of start and stop. \<open>Driver_Waits\<close>: the bounded waits and the settled results.
  \<open>Incoming_Queue\<close> and \<open>Vendored_Patches\<close> (\<open>scripts/vendor-rwebtransport.mjs\<close>): the queue of incoming
  streams, the sending streams and the intake of sessions that the script patches into the vendored library.

  Around it. \<open>Json_Values\<close>, \<open>Health_Metrics\<close>, \<open>Tracing\<close> (\<open>server/webtransport-health.service.ts\<close>, \<open>otel\<close>, and
  the metrics page of the production example). The testing package: \<open>Testing_Queue\<close>, \<open>Testing_Readable\<close>,
  \<open>Testing_Pipe\<close> (\<open>internal/bounded-stream.ts\<close>), \<open>Testing_Streams\<close> (\<open>mock-stream.ts\<close>: a pair of endpoints over
  its pipes), \<open>Testing_Connection\<close> (\<open>mock-session.ts\<close>, \<open>mock-datagram.ts\<close>), \<open>Testing_Driver\<close>
  (\<open>virtual-driver.ts\<close>, \<open>test-client.ts\<close>), with the proofs in \<open>Testing_Sessions\<close> and
  \<open>Testing_Driver_Safety\<close>: the counters that a test reads are exact, and a stop leaves nothing behind.
  \<open>Http_Servers\<close> (\<open>static-server.service.ts\<close>, \<open>operations-server.service.ts\<close>): start and stop of the two
  HTTP servers. \<open>Release_Check\<close> (\<open>scripts/test-install.mjs\<close>): what the check asserts of a packed
  package. Examples: \<open>Example_Config\<close> and \<open>Example_Apps\<close> (configuration,
  options, routers, gateway of \<open>basic\<close>, bounded logger), \<open>Jwt_Tokens\<close> and \<open>Presence\<close> (\<open>production\<close>),
  \<open>Session_Tickets\<close>, \<open>Demo_Writes\<close>, \<open>Demo_Gateway\<close>, \<open>Demo_Page\<close> (\<open>web-demo\<close>).

  How state and operations correspond. An object is a record of its fields, a \<open>Map\<close> or \<open>Set\<close> an
  association list or a duplicate-free list in insertion order. Objects that the code shares and mutates
  (sessions, streams) are kept in a list in order of creation and referred to by position. A method is
  a function on the record; an asynchronous method is cut at its waits into atomic segments, and what a
  wait waits for comes back as an event. A component with events is a step function, and a run is a fold
  over any list of events: every interleaving that the platform can produce is one of these lists. The
  machines also allow a waiting segment to be resumed early, so what is proved holds under more
  schedules than there are. Calls to the outside (closing a session, resetting a stream, logging) are kept
  as a trace. A thrown error is the left side of a sum; a promise is the state of its race.

  Interfaces are locales, interpreted on the model of the code: \<open>event_system\<close> (an invariant of a step
  function holds after every run), \<open>permit_pool\<close> (the limiter, the budget), \<open>window_counter\<close> (the rate
  limiter), \<open>fifo_queue\<close> (the circular buffer), \<open>runtime_frame\<close> and \<open>full_frame\<close>
  (parts of the runtime that operations leave alone).

  The properties. The runtime: a graceful stop interrupts no handler (C1), the bounds of the server, of an
  address, of the handler budget and of retained bytes and streams in every reachable state (C2 to C5),
  the handlers of an event and the gate of admission (C6, C7), bounded logging (C8). The driver: exact
  metrics and capacity (C9, C10), life cycles of sessions and streams (C11, C12), options, errors and the
  order of start and stop (C33 to C35). Scheduler, queue and budget (C13 to C15, C27 to C29), the pipeline
  (C16 to C19), options and routing (C30 to C32), counters and tracing (C24, C36), the in-memory transport
  (C25, C26, C37), and the examples (C20 to C23, C38 to C40). The other theorems of the theories are the
  lemmas that these rest on, and further facts of the same kind.

  Bounds and fuel. Nothing runs on fuel: every definition is total, loops that wait are events. Numbers
  that the code validates are \<open>js_number\<close>; those that it only counts or subtracts are \<open>int\<close>, because they
  stay far below the largest safe integer. The normalised options carry the values as they are given
  (\<open>option_values\<close>); the runtime reads them at their types (\<open>typed_options\<close>), which loses nothing because
  of what C30 states of accepted values. Stream codes and bytes are words where their width matters.
  Time is in whole milliseconds.

  Parameters. What is not under \<open>src/\<close> is an argument: the URL parser, the conversions of strings to numbers
  and paths, JSON parsing, digests and HMAC, the Redis client, the OpenTelemetry meter and tracer, the
  native library (as the environment that answers calls and raises events), the framework's container,
  and the user's handlers, guards, pipes, filters, routers and authenticators. Hypotheses on them are
  named (\<open>origin_serialization\<close>, \<open>loopback_origins\<close>) and state documented behaviour.

  Not modelled. The vendored library \<open>driver-rwebtransport/vendor\<close> beyond the patched parts, and the file
  and process operations of the scripts (they run tools and rewrite third-party text). The tests. The DOM,
  the rendering of log lines and HTML, and the sockets of the platform. In the testing package the copies
  of headers, and listeners that a test adds to an abort signal and that call back into the session while
  it is being aborted. A callback that re-enters its caller before it returns: an \<open>onSettled\<close> that submits
  a task, a logger that logs. A native session that the library delivers with invalid headers or a locked
  stream, and a failure of the framework's context registry. Entry points (\<open>main.ts\<close>, \<open>index.ts\<close>) and files of type
  declarations have no behaviour; the records here have the fields that the code reads.
\<close>

end
